(* ===== verification/Prelude.thy ===== *)
theory Prelude
  imports Main "HOL-Library.Word"
begin

unbundle bit_operations_syntax

text \<open>
  Shared vocabulary of the development: the widths of the C integer types, the conversions the
  firmware writes as casts, and the generic facts on words and lists that every component uses.
  Nothing here models a particular file of the firmware.
\<close>

section \<open>Integer types\<close>

type_synonym u8 = "8 word"
type_synonym u16 = "16 word"
type_synonym u32 = "32 word"

named_theorems fw_simps \<open>unfolding rules of small firmware helpers\<close>

section \<open>Lists\<close>

lemma take_drop_append [simp]:
  "take (length xs) (xs @ ys) = xs" "drop (length xs) (xs @ ys) = ys"
  by simp_all

lemma list_update_same_conv_out [simp]: "i \<ge> length xs \<Longrightarrow> xs[i := v] = xs"
  by (rule list_update_beyond)

lemma map_nth_upt: "map (\<lambda>i. xs ! i) [0..<length xs] = xs"
  by (rule map_nth)

lemma list_eq_iff_nth:
  "xs = ys \<longleftrightarrow> length xs = length ys \<and> (\<forall>i < length xs. xs ! i = ys ! i)"
  by (rule list_eq_iff_nth_eq)

lemma list_length_2:
  assumes "length l = 2"
  obtains c d where "l = [c, d]"
  using assms by (auto simp: numeral_2_eq_2 length_Suc_conv)

section \<open>Words\<close>

text \<open>A bit position of a 32-bit (16-bit) word lies in one of its bytes.\<close>

lemma byte_position_32:
  assumes "(n :: nat) < 32"
  obtains "n < 8" | m where "n = 8 + m" "m < 8" | m where "n = 16 + m" "m < 8"
    | m where "n = 24 + m" "m < 8"
proof -
  consider "n < 8" | "8 \<le> n \<and> n < 16" | "16 \<le> n \<and> n < 24" | "24 \<le> n" by linarith
  then show thesis
  proof cases
    case 1 then show thesis by (rule that(1))
  next
    case 2 then show thesis by (intro that(2) [of "n - 8"]) auto
  next
    case 3 then show thesis by (intro that(3) [of "n - 16"]) auto
  next
    case 4 with assms show thesis by (intro that(4) [of "n - 24"]) auto
  qed
qed

lemma byte_position_16:
  assumes "(n :: nat) < 16"
  obtains "n < 8" | m where "n = 8 + m" "m < 8"
proof (cases "n < 8")
  case True then show thesis by (rule that(1))
next
  case False with assms show thesis by (intro that(2) [of "n - 8"]) auto
qed

lemma unat_u8_less [simp]: "unat (b :: u8) < 256"
  using unsigned_less [of b, where 'a = nat] by simp

lemma unat_u16_less [simp]: "unat (b :: u16) < 65536"
  using unsigned_less [of b, where 'a = nat] by simp

lemma unat_u32_less [simp]: "unat (b :: u32) < 4294967296"
  using unsigned_less [of b, where 'a = nat] by simp

lemma unat_ucast_u8_u16 [simp]: "unat (ucast (b :: u8) :: u16) = unat b"
  by (simp add: unsigned_ucast_eq take_bit_nat_eq_self order_less_trans [OF unat_u8_less])

lemma unat_ucast_u8_u32 [simp]: "unat (ucast (b :: u8) :: u32) = unat b"
  by (simp add: unsigned_ucast_eq take_bit_nat_eq_self order_less_trans [OF unat_u8_less])

lemma unat_ucast_u16_u32 [simp]: "unat (ucast (b :: u16) :: u32) = unat b"
  by (simp add: unsigned_ucast_eq take_bit_nat_eq_self order_less_trans [OF unat_u16_less])

lemma word_eq_iff_bit: "x = y \<longleftrightarrow> (\<forall>n < LENGTH('a::len). bit (x :: 'a word) n = bit y n)"
  by (auto intro: bit_word_eqI)

lemma word_xor_eq_0: "x XOR y = 0 \<longleftrightarrow> x = (y :: 'a::len word)"
proof
  assume "x XOR y = 0"
  then have "bit (x XOR y) n = bit (0 :: 'a word) n" for n by simp
  then show "x = y" by (intro bit_word_eqI) (simp add: bit_xor_iff)
qed simp

lemma word_xor_cancel:
  "x XOR z = y XOR z \<longleftrightarrow> x = (y :: 'a::len word)"
  "z XOR x = z XOR y \<longleftrightarrow> x = (y :: 'a::len word)"
proof -
  have "x = y" if "x XOR z = y XOR z"
  proof -
    from that have "(x XOR z) XOR z = (y XOR z) XOR z" by simp
    then show ?thesis by (simp only: xor.assoc xor_self_eq xor.right_neutral)
  qed
  then show "x XOR z = y XOR z \<longleftrightarrow> x = y" by auto
  then show "z XOR x = z XOR y \<longleftrightarrow> x = y" by (simp only: xor.commute)
qed

end
