(* ===== verification/Bytes_CRC.thy ===== *)
theory Bytes_CRC
  imports Prelude
begin

text \<open>
  Byte serialisation and the cyclic redundancy checks.

  \<^item> The little-endian helpers of \<^verbatim>\<open>middleware/circular_flash_log\<close> and their round trips.
  \<^item> CRC-16/IBM twice, as the firmware has it: table-driven in the Modbus slave
    (\<^verbatim>\<open>modbus_crc.c\<close>) and bitwise in the flash log (\<^verbatim>\<open>cfl_crc16_update\<close>).
  \<^item> CRC-32 twice: table-driven in ConfigStore (\<^verbatim>\<open>config_store_crc.c\<close>) and bitwise in
    the flash log (\<^verbatim>\<open>cfl_crc32\<close>).

  The locale \<^verbatim>\<open>reflected_crc\<close> states what both bitwise shift registers share (they are
  linear and lossless); its interpretations on the two polynomials give the equality of the
  tables with the registers and the detection of corrupted bytes.
\<close>

section \<open>Little-endian integers\<close>

definition cfl_put_u32 :: "u32 \<Rightarrow> u8 list" where
  "cfl_put_u32 value =
     [ucast (value AND 0xFF), ucast (drop_bit 8 value AND 0xFF),
      ucast (drop_bit 16 value AND 0xFF), ucast (drop_bit 24 value AND 0xFF)]"

definition cfl_get_u32 :: "u8 list \<Rightarrow> u32" where
  "cfl_get_u32 src =
     ucast (src ! 0) OR push_bit 8 (ucast (src ! 1)) OR push_bit 16 (ucast (src ! 2))
       OR push_bit 24 (ucast (src ! 3))"

definition cfl_put_u16 :: "u16 \<Rightarrow> u8 list" where
  "cfl_put_u16 value = [ucast (value AND 0xFF), ucast (drop_bit 8 value AND 0xFF)]"

definition cfl_get_u16 :: "u8 list \<Rightarrow> u16" where
  "cfl_get_u16 src = ucast (src ! 0) OR push_bit 8 (ucast (src ! 1))"

lemma length_cfl_put [simp]:
  "length (cfl_put_u32 v) = 4" "length (cfl_put_u16 w) = 2"
  by (simp_all add: cfl_put_u32_def cfl_put_u16_def)

lemma mask_0xFF: "(0xFF :: 'a::len word) = mask 8"
  by (simp add: mask_eq_exp_minus_1)

lemma cfl_get_put_u32 [simp]: "cfl_get_u32 (cfl_put_u32 v @ xs) = v"
proof (rule bit_word_eqI)
  fix n assume "n < LENGTH(32)"
  then have "n < 32" by simp
  then show "bit (cfl_get_u32 (cfl_put_u32 v @ xs)) n = bit v n"
    by (cases rule: byte_position_32)
       (simp_all add: cfl_get_u32_def cfl_put_u32_def mask_0xFF bit_simps nth_append)
qed

lemma cfl_get_put_u16 [simp]: "cfl_get_u16 (cfl_put_u16 v @ xs) = v"
proof (rule bit_word_eqI)
  fix n assume "n < LENGTH(16)"
  then have "n < 16" by simp
  then show "bit (cfl_get_u16 (cfl_put_u16 v @ xs)) n = bit v n"
    by (cases rule: byte_position_16)
       (simp_all add: cfl_get_u16_def cfl_put_u16_def mask_0xFF bit_simps nth_append)
qed

lemma cfl_get_put_u32_Nil [simp]: "cfl_get_u32 (cfl_put_u32 v) = v"
  using cfl_get_put_u32 [of v "[]"] by simp

lemma cfl_get_put_u16_Nil [simp]: "cfl_get_u16 (cfl_put_u16 v) = v"
  using cfl_get_put_u16 [of v "[]"] by simp

lemma cfl_put_get_u16: "cfl_put_u16 (cfl_get_u16 [a, b]) = [a, b]"
proof -
  have "ucast (cfl_get_u16 [a, b] AND 0xFF) = a"
    by (rule bit_word_eqI) (auto simp: cfl_get_u16_def mask_0xFF bit_simps)
  moreover have "ucast (drop_bit 8 (cfl_get_u16 [a, b]) AND 0xFF) = b"
    by (rule bit_word_eqI) (auto simp: cfl_get_u16_def mask_0xFF bit_simps dest: bit_imp_le_length)
  ultimately show ?thesis by (simp add: cfl_put_u16_def)
qed

section \<open>Linear feedback shift registers\<close>

fun evens :: "'a list \<Rightarrow> 'a list" where
  "evens (x # y # r) = x # evens r"
| "evens _ = []"

fun odds :: "'a list \<Rightarrow> 'a list" where
  "odds (x # y # r) = y # odds r"
| "odds _ = []"

lemma evens_nth: "2 * k + 1 < length t \<Longrightarrow> evens t ! k = t ! (2 * k)"
  by (induction t arbitrary: k rule: evens.induct) (auto simp: nth_Cons split: nat.splits)

lemma odds_nth: "2 * k + 1 < length t \<Longrightarrow> odds t ! k = t ! (2 * k + 1)"
  by (induction t arbitrary: k rule: odds.induct) (auto simp: nth_Cons split: nat.splits)

lemma length_evens: "length (evens t) = length t div 2"
  by (induction t rule: evens.induct) auto

lemma length_odds: "length (odds t) = length t div 2"
  by (induction t rule: odds.induct) auto

locale reflected_crc =
  fixes poly :: "'a::len word" and shift :: "'a word \<Rightarrow> 'a word"
  assumes shift_eq: "shift x = (if bit x 0 then drop_bit 1 x XOR poly else drop_bit 1 x)"
    and poly_top: "bit poly (LENGTH('a) - 1)"
    and width: "8 \<le> LENGTH('a)"
begin

lemma shift_xor: "shift (x XOR y) = shift x XOR shift y"
  by (rule bit_word_eqI) (auto simp: shift_eq bit_simps)

lemma shifts_xor: "(shift ^^ n) (x XOR y) = (shift ^^ n) x XOR (shift ^^ n) y"
  by (induction n) (simp_all add: shift_xor)

lemma shift_0 [simp]: "shift 0 = 0"
  by (simp add: shift_eq)

lemma shifts_0: "(shift ^^ n) 0 = 0"
  by (induction n) simp_all

lemma shift_eq_0: "shift x = 0 \<Longrightarrow> x = 0"
proof -
  assume a: "shift x = 0"
  have b0: "\<not> bit x 0"
  proof
    assume "bit x 0"
    then have "bit (shift x) (LENGTH('a) - 1)"
      using poly_top width by (simp add: shift_eq bit_simps)
    with a show False by simp
  qed
  then have d: "drop_bit 1 x = 0" using a by (simp add: shift_eq)
  show "x = 0"
  proof (rule bit_word_eqI)
    fix n assume "n < LENGTH('a)"
    show "bit x n = bit 0 n"
    proof (cases n)
      case 0 with b0 show ?thesis by simp
    next
      case (Suc m)
      have "bit (drop_bit 1 x) m = bit x (Suc m)" by (simp add: bit_drop_bit_eq)
      with d Suc show ?thesis by simp
    qed
  qed
qed

lemma shift_inj: "shift x = shift y \<Longrightarrow> x = y"
proof -
  assume "shift x = shift y"
  then have "shift (x XOR y) = 0" by (simp add: shift_xor)
  then have "x XOR y = 0" by (rule shift_eq_0)
  then show "x = y" by (simp only: word_xor_eq_0)
qed

lemma shifts_inj: "(shift ^^ n) x = (shift ^^ n) y \<Longrightarrow> x = y"
  by (induction n) (auto dest: shift_inj)

lemma shifts_low_clear: "(\<And>i. i < n \<Longrightarrow> \<not> bit x i) \<Longrightarrow> (shift ^^ n) x = drop_bit n x"
proof (induction n)
  case 0
  then show ?case by simp
next
  case (Suc n)
  then have IH: "(shift ^^ n) x = drop_bit n x" by simp
  have "\<not> bit (drop_bit n x) 0" using Suc.prems [of n] by (simp add: bit_drop_bit_eq)
  then have "shift (drop_bit n x) = drop_bit 1 (drop_bit n x)"
    by (subst shift_eq) simp
  then show ?case by (simp add: IH)
qed

text \<open>Eight steps of the register are one table look-up.\<close>

lemma shifts_8: "(shift ^^ 8) x = drop_bit 8 x XOR (shift ^^ 8) (x AND 0xFF)"
proof -
  have split: "x = (x AND 0xFF) XOR (x AND NOT 0xFF)"
    by (rule bit_word_eqI) (auto simp: bit_simps)
  have "(shift ^^ 8) (x AND NOT 0xFF) = drop_bit 8 (x AND NOT 0xFF)"
    by (rule shifts_low_clear) (auto simp: bit_simps mask_0xFF)
  also have "\<dots> = drop_bit 8 x"
    by (rule bit_word_eqI) (auto simp: bit_simps mask_0xFF dest: bit_imp_le_length)
  finally have hi: "(shift ^^ 8) (x AND NOT 0xFF) = drop_bit 8 x" .
  have "(shift ^^ 8) x = (shift ^^ 8) ((x AND 0xFF) XOR (x AND NOT 0xFF))"
    using split by simp
  also have "\<dots> = (shift ^^ 8) (x AND 0xFF) XOR drop_bit 8 x"
    by (simp only: shifts_xor hi)
  finally show ?thesis by (simp only: xor.commute)
qed

text \<open>
  A table of 256 entries is recognised by its doubling structure: undoing one step of an even
  entry gives the entry of half its index, and an odd entry differs from its even neighbour by
  the entry of 1.  That is 128 steps to check instead of 2048.
\<close>

lemma shift_double:
  assumes "j < 128"
  shows "shift (of_nat (2 * j)) = of_nat j"
proof -
  have lt: "(2 :: nat) ^ 8 \<le> 2 ^ LENGTH('a)"
    using width by (rule power_increasing) simp
  have "even (2 * j)" by simp
  then have "\<not> bit (of_nat (2 * j) :: 'a word) 0"
    by (simp add: bit_0)
  then have sh: "shift (of_nat (2 * j)) = drop_bit 1 (of_nat (2 * j))"
    by (subst shift_eq) simp
  have u: "unat (of_nat (2 * j) :: 'a word) = 2 * j"
    using assms lt by (simp add: unsigned_of_nat take_bit_nat_eq_self del: of_nat_mult)
  have "unat (drop_bit 1 (of_nat (2 * j) :: 'a word)) = drop_bit 1 (unat (of_nat (2 * j) :: 'a word))"
    by (rule unat_drop_bit_eq)
  also have "\<dots> = j" unfolding u by (simp add: drop_bit_eq_div)
  finally have d: "unat (drop_bit 1 (of_nat (2 * j) :: 'a word)) = j" .
  then have "drop_bit 1 (of_nat (2 * j) :: 'a word) = of_nat j"
    by (metis of_nat_unat ucast_id)
  with sh show ?thesis by (simp only:)
qed

lemma shifts_double:
  assumes "j < 128"
  shows "shift ((shift ^^ 8) (of_nat (2 * j))) = (shift ^^ 8) (of_nat j)"
  using shift_double [OF assms] by (simp add: funpow_swap1)

lemma table_correct:
  assumes len: "length t = 256"
    and zero: "t ! 0 = 0" and one: "t ! 1 = (shift ^^ 8) 1"
    and even: "map shift (evens t) = take 128 t"
    and odd: "odds t = map (\<lambda>x. x XOR t ! 1) (evens t)"
    and k: "k < 256"
  shows "t ! k = (shift ^^ 8) (of_nat k)"
  using k
proof (induction k rule: less_induct)
  case (less k)
  have ev: "shift (t ! (2 * j)) = t ! j" if "j < 128" for j
    using arg_cong [OF even, of "\<lambda>l. l ! j"] that len by (simp add: length_evens evens_nth)
  have od: "t ! (2 * j + 1) = t ! (2 * j) XOR t ! 1" if "j < 128" for j
    using arg_cong [OF odd, of "\<lambda>l. l ! j"] that len
    by (simp add: length_evens evens_nth odds_nth)
  have dbl: "t ! (2 * j) = (shift ^^ 8) (of_nat (2 * j))" if "j < 128" "2 * j \<le> k" for j
  proof (cases "j = 0")
    case True
    have "(shift ^^ 8) 0 = 0" using shifts_low_clear [of 8 0] by simp
    with True zero show ?thesis by simp
  next
    case False
    with that have "t ! j = (shift ^^ 8) (of_nat j)" using less.prems by (intro less.IH) auto
    then have "shift (t ! (2 * j)) = shift ((shift ^^ 8) (of_nat (2 * j)))"
      using that by (simp only: ev shifts_double)
    then show ?thesis by (rule shift_inj)
  qed
  show ?case
  proof (cases "even k")
    case True
    then obtain j where "k = 2 * j" by (elim evenE)
    with dbl [of j] less.prems show ?thesis by simp
  next
    case False
    then obtain j where j: "k = 2 * j + 1" by (elim oddE)
    with less.prems have lt: "j < 128" by simp
    have "(of_nat (2 * j) :: 'a word) XOR 1 = of_nat (2 * j) + 1"
      by (simp add: xor_one_eq)
    then have "(of_nat (2 * j) :: 'a word) XOR 1 = of_nat k" using j by simp
    moreover have "t ! k = (shift ^^ 8) (of_nat (2 * j)) XOR (shift ^^ 8) 1"
      using od [OF lt] dbl [OF lt] j one by simp
    ultimately show ?thesis by (simp only: shifts_xor [symmetric])
  qed
qed

text \<open>Two registers that absorbed different bytes are still apart after the eight steps.\<close>

lemma shifts_8_byte_inj:
  assumes "(shift ^^ 8) (x XOR ucast (b :: 8 word)) = (shift ^^ 8) (x XOR ucast c)"
  shows "b = c"
proof -
  have "x XOR ucast b = x XOR ucast c" using assms by (rule shifts_inj)
  then have eq: "(ucast b :: 'a word) = ucast c"
    by (simp only: word_xor_cancel)
  show ?thesis
  proof (rule bit_word_eqI)
    fix n assume n: "n < LENGTH(8)"
    then have "bit (ucast b :: 'a word) n = bit b n" "bit (ucast c :: 'a word) n = bit c n"
      using width by (simp_all add: bit_simps)
    with eq show "bit b n = bit c n" by simp
  qed
qed

end

section \<open>CRC-16/IBM\<close>

text \<open>The flash log folds bytes bit by bit (\<^verbatim>\<open>cfl_crc16_update\<close>).\<close>

definition crc16_shift :: "u16 \<Rightarrow> u16" where
  "crc16_shift crc = (if crc AND 1 \<noteq> 0 then drop_bit 1 crc XOR 0xA001 else drop_bit 1 crc)"

fun cfl_crc16_update :: "u16 \<Rightarrow> u8 list \<Rightarrow> u16" where
  "cfl_crc16_update crc [] = crc"
| "cfl_crc16_update crc (b # data) = cfl_crc16_update ((crc16_shift ^^ 8) (crc XOR ucast b)) data"

text \<open>The Modbus slave looks bytes up in a table of 256 entries (\<^verbatim>\<open>modbus_crc16\<close>).\<close>

definition modbus_crc_table :: "u16 list" where
  "modbus_crc_table =
    [0x0000, 0xC0C1, 0xC181, 0x0140, 0xC301, 0x03C0, 0x0280, 0xC241,
     0xC601, 0x06C0, 0x0780, 0xC741, 0x0500, 0xC5C1, 0xC481, 0x0440,
     0xCC01, 0x0CC0, 0x0D80, 0xCD41, 0x0F00, 0xCFC1, 0xCE81, 0x0E40,
     0x0A00, 0xCAC1, 0xCB81, 0x0B40, 0xC901, 0x09C0, 0x0880, 0xC841,
     0xD801, 0x18C0, 0x1980, 0xD941, 0x1B00, 0xDBC1, 0xDA81, 0x1A40,
     0x1E00, 0xDEC1, 0xDF81, 0x1F40, 0xDD01, 0x1DC0, 0x1C80, 0xDC41,
     0x1400, 0xD4C1, 0xD581, 0x1540, 0xD701, 0x17C0, 0x1680, 0xD641,
     0xD201, 0x12C0, 0x1380, 0xD341, 0x1100, 0xD1C1, 0xD081, 0x1040,
     0xF001, 0x30C0, 0x3180, 0xF141, 0x3300, 0xF3C1, 0xF281, 0x3240,
     0x3600, 0xF6C1, 0xF781, 0x3740, 0xF501, 0x35C0, 0x3480, 0xF441,
     0x3C00, 0xFCC1, 0xFD81, 0x3D40, 0xFF01, 0x3FC0, 0x3E80, 0xFE41,
     0xFA01, 0x3AC0, 0x3B80, 0xFB41, 0x3900, 0xF9C1, 0xF881, 0x3840,
     0x2800, 0xE8C1, 0xE981, 0x2940, 0xEB01, 0x2BC0, 0x2A80, 0xEA41,
     0xEE01, 0x2EC0, 0x2F80, 0xEF41, 0x2D00, 0xEDC1, 0xEC81, 0x2C40,
     0xE401, 0x24C0, 0x2580, 0xE541, 0x2700, 0xE7C1, 0xE681, 0x2640,
     0x2200, 0xE2C1, 0xE381, 0x2340, 0xE101, 0x21C0, 0x2080, 0xE041,
     0xA001, 0x60C0, 0x6180, 0xA141, 0x6300, 0xA3C1, 0xA281, 0x6240,
     0x6600, 0xA6C1, 0xA781, 0x6740, 0xA501, 0x65C0, 0x6480, 0xA441,
     0x6C00, 0xACC1, 0xAD81, 0x6D40, 0xAF01, 0x6FC0, 0x6E80, 0xAE41,
     0xAA01, 0x6AC0, 0x6B80, 0xAB41, 0x6900, 0xA9C1, 0xA881, 0x6840,
     0x7800, 0xB8C1, 0xB981, 0x7940, 0xBB01, 0x7BC0, 0x7A80, 0xBA41,
     0xBE01, 0x7EC0, 0x7F80, 0xBF41, 0x7D00, 0xBDC1, 0xBC81, 0x7C40,
     0xB401, 0x74C0, 0x7580, 0xB541, 0x7700, 0xB7C1, 0xB681, 0x7640,
     0x7200, 0xB2C1, 0xB381, 0x7340, 0xB101, 0x71C0, 0x7080, 0xB041,
     0x5000, 0x90C1, 0x9181, 0x5140, 0x9301, 0x53C0, 0x5280, 0x9241,
     0x9601, 0x56C0, 0x5780, 0x9741, 0x5500, 0x95C1, 0x9481, 0x5440,
     0x9C01, 0x5CC0, 0x5D80, 0x9D41, 0x5F00, 0x9FC1, 0x9E81, 0x5E40,
     0x5A00, 0x9AC1, 0x9B81, 0x5B40, 0x9901, 0x59C0, 0x5880, 0x9841,
     0x8801, 0x48C0, 0x4980, 0x8941, 0x4B00, 0x8BC1, 0x8A81, 0x4A40,
     0x4E00, 0x8EC1, 0x8F81, 0x4F40, 0x8D01, 0x4DC0, 0x4C80, 0x8C41,
     0x4400, 0x84C1, 0x8581, 0x4540, 0x8701, 0x47C0, 0x4680, 0x8641,
     0x8201, 0x42C0, 0x4380, 0x8341, 0x4100, 0x81C1, 0x8081, 0x4040]"

fun modbus_crc16_loop :: "u16 \<Rightarrow> u8 list \<Rightarrow> u16" where
  "modbus_crc16_loop crc [] = crc"
| "modbus_crc16_loop crc (b # buf) =
     modbus_crc16_loop
       (drop_bit 8 crc XOR modbus_crc_table ! unat ((crc XOR ucast b) AND 0x00FF)) buf"

definition modbus_crc16 :: "u8 list \<Rightarrow> u16" where
  "modbus_crc16 buf = modbus_crc16_loop 0xFFFF buf"

interpretation crc16: reflected_crc "0xA001 :: 16 word" crc16_shift
proof
  fix x :: "16 word"
  have "(x AND 1 \<noteq> 0) = bit x 0" by (simp add: and_one_eq odd_iff_mod_2_eq_one bit_0)
  then show "crc16_shift x = (if bit x 0 then drop_bit 1 x XOR 0xA001 else drop_bit 1 x)"
    by (simp add: crc16_shift_def)
qed simp_all

section \<open>CRC-32\<close>

text \<open>The flash log's bitwise CRC-32 (\<^verbatim>\<open>cfl_crc32\<close>).\<close>

definition crc32_shift :: "u32 \<Rightarrow> u32" where
  "crc32_shift crc = (if crc AND 1 \<noteq> 0 then drop_bit 1 crc XOR 0xEDB88320 else drop_bit 1 crc)"

fun cfl_crc32_loop :: "u32 \<Rightarrow> u8 list \<Rightarrow> u32" where
  "cfl_crc32_loop crc [] = crc"
| "cfl_crc32_loop crc (b # data) = cfl_crc32_loop ((crc32_shift ^^ 8) (crc XOR ucast b)) data"

definition cfl_crc32 :: "u8 list \<Rightarrow> u32" where
  "cfl_crc32 data = cfl_crc32_loop 0xFFFFFFFF data XOR 0xFFFFFFFF"

text \<open>ConfigStore and the bootloader use a table (\<^verbatim>\<open>config_store_crc.c\<close>).\<close>

definition config_store_crc_table :: "u32 list" where
  "config_store_crc_table =
    [0x00000000, 0x77073096, 0xEE0E612C, 0x990951BA, 0x076DC419, 0x706AF48F,
     0xE963A535, 0x9E6495A3, 0x0EDB8832, 0x79DCB8A4, 0xE0D5E91E, 0x97D2D988,
     0x09B64C2B, 0x7EB17CBD, 0xE7B82D07, 0x90BF1D91, 0x1DB71064, 0x6AB020F2,
     0xF3B97148, 0x84BE41DE, 0x1ADAD47D, 0x6DDDE4EB, 0xF4D4B551, 0x83D385C7,
     0x136C9856, 0x646BA8C0, 0xFD62F97A, 0x8A65C9EC, 0x14015C4F, 0x63066CD9,
     0xFA0F3D63, 0x8D080DF5, 0x3B6E20C8, 0x4C69105E, 0xD56041E4, 0xA2677172,
     0x3C03E4D1, 0x4B04D447, 0xD20D85FD, 0xA50AB56B, 0x35B5A8FA, 0x42B2986C,
     0xDBBBC9D6, 0xACBCF940, 0x32D86CE3, 0x45DF5C75, 0xDCD60DCF, 0xABD13D59,
     0x26D930AC, 0x51DE003A, 0xC8D75180, 0xBFD06116, 0x21B4F4B5, 0x56B3C423,
     0xCFBA9599, 0xB8BDA50F, 0x2802B89E, 0x5F058808, 0xC60CD9B2, 0xB10BE924,
     0x2F6F7C87, 0x58684C11, 0xC1611DAB, 0xB6662D3D, 0x76DC4190, 0x01DB7106,
     0x98D220BC, 0xEFD5102A, 0x71B18589, 0x06B6B51F, 0x9FBFE4A5, 0xE8B8D433,
     0x7807C9A2, 0x0F00F934, 0x9609A88E, 0xE10E9818, 0x7F6A0DBB, 0x086D3D2D,
     0x91646C97, 0xE6635C01, 0x6B6B51F4, 0x1C6C6162, 0x856530D8, 0xF262004E,
     0x6C0695ED, 0x1B01A57B, 0x8208F4C1, 0xF50FC457, 0x65B0D9C6, 0x12B7E950,
     0x8BBEB8EA, 0xFCB9887C, 0x62DD1DDF, 0x15DA2D49, 0x8CD37CF3, 0xFBD44C65,
     0x4DB26158, 0x3AB551CE, 0xA3BC0074, 0xD4BB30E2, 0x4ADFA541, 0x3DD895D7,
     0xA4D1C46D, 0xD3D6F4FB, 0x4369E96A, 0x346ED9FC, 0xAD678846, 0xDA60B8D0,
     0x44042D73, 0x33031DE5, 0xAA0A4C5F, 0xDD0D7CC9, 0x5005713C, 0x270241AA,
     0xBE0B1010, 0xC90C2086, 0x5768B525, 0x206F85B3, 0xB966D409, 0xCE61E49F,
     0x5EDEF90E, 0x29D9C998, 0xB0D09822, 0xC7D7A8B4, 0x59B33D17, 0x2EB40D81,
     0xB7BD5C3B, 0xC0BA6CAD, 0xEDB88320, 0x9ABFB3B6, 0x03B6E20C, 0x74B1D29A,
     0xEAD54739, 0x9DD277AF, 0x04DB2615, 0x73DC1683, 0xE3630B12, 0x94643B84,
     0x0D6D6A3E, 0x7A6A5AA8, 0xE40ECF0B, 0x9309FF9D, 0x0A00AE27, 0x7D079EB1,
     0xF00F9344, 0x8708A3D2, 0x1E01F268, 0x6906C2FE, 0xF762575D, 0x806567CB,
     0x196C3671, 0x6E6B06E7, 0xFED41B76, 0x89D32BE0, 0x10DA7A5A, 0x67DD4ACC,
     0xF9B9DF6F, 0x8EBEEFF9, 0x17B7BE43, 0x60B08ED5, 0xD6D6A3E8, 0xA1D1937E,
     0x38D8C2C4, 0x4FDFF252, 0xD1BB67F1, 0xA6BC5767, 0x3FB506DD, 0x48B2364B,
     0xD80D2BDA, 0xAF0A1B4C, 0x36034AF6, 0x41047A60, 0xDF60EFC3, 0xA867DF55,
     0x316E8EEF, 0x4669BE79, 0xCB61B38C, 0xBC66831A, 0x256FD2A0, 0x5268E236,
     0xCC0C7795, 0xBB0B4703, 0x220216B9, 0x5505262F, 0xC5BA3BBE, 0xB2BD0B28,
     0x2BB45A92, 0x5CB36A04, 0xC2D7FFA7, 0xB5D0CF31, 0x2CD99E8B, 0x5BDEAE1D,
     0x9B64C2B0, 0xEC63F226, 0x756AA39C, 0x026D930A, 0x9C0906A9, 0xEB0E363F,
     0x72076785, 0x05005713, 0x95BF4A82, 0xE2B87A14, 0x7BB12BAE, 0x0CB61B38,
     0x92D28E9B, 0xE5D5BE0D, 0x7CDCEFB7, 0x0BDBDF21, 0x86D3D2D4, 0xF1D4E242,
     0x68DDB3F8, 0x1FDA836E, 0x81BE16CD, 0xF6B9265B, 0x6FB077E1, 0x18B74777,
     0x88085AE6, 0xFF0F6A70, 0x66063BCA, 0x11010B5C, 0x8F659EFF, 0xF862AE69,
     0x616BFFD3, 0x166CCF45, 0xA00AE278, 0xD70DD2EE, 0x4E048354, 0x3903B3C2,
     0xA7672661, 0xD06016F7, 0x4969474D, 0x3E6E77DB, 0xAED16A4A, 0xD9D65ADC,
     0x40DF0B66, 0x37D83BF0, 0xA9BCAE53, 0xDEBB9EC5, 0x47B2CF7F, 0x30B5FFE9,
     0xBDBDF21C, 0xCABAC28A, 0x53B39330, 0x24B4A3A6, 0xBAD03605, 0xCDD70693,
     0x54DE5729, 0x23D967BF, 0xB3667A2E, 0xC4614AB8, 0x5D681B02, 0x2A6F2B94,
     0xB40BBE37, 0xC30C8EA1, 0x5A05DF1B, 0x2D02EF8D]"

definition config_store_crc32_start :: u32 where
  "config_store_crc32_start = 0xFFFFFFFF"

fun config_store_crc32_feed :: "u32 \<Rightarrow> u8 list \<Rightarrow> u32" where
  "config_store_crc32_feed crc [] = crc"
| "config_store_crc32_feed crc (b # buf) =
     config_store_crc32_feed
       (drop_bit 8 crc XOR config_store_crc_table ! unat ((crc XOR ucast b) AND 0xFF)) buf"

definition config_store_crc32_finish :: "u32 \<Rightarrow> u32" where
  "config_store_crc32_finish crc = crc XOR 0xFFFFFFFF"

definition config_store_crc32 :: "u8 list \<Rightarrow> u32" where
  "config_store_crc32 buf =
     config_store_crc32_finish (config_store_crc32_feed config_store_crc32_start buf)"

interpretation crc32: reflected_crc "0xEDB88320 :: 32 word" crc32_shift
proof
  fix x :: "32 word"
  have "(x AND 1 \<noteq> 0) = bit x 0" by (simp add: and_one_eq odd_iff_mod_2_eq_one bit_0)
  then show "crc32_shift x = (if bit x 0 then drop_bit 1 x XOR 0xEDB88320 else drop_bit 1 x)"
    by (simp add: crc32_shift_def)
qed simp_all

section \<open>The tables are the registers\<close>

lemmas crc16_shift_numeral =
  crc16_shift_def [of "numeral k" for k] crc16_shift_def [of 0] crc16_shift_def [of 1]

lemmas crc32_shift_numeral =
  crc32_shift_def [of "numeral k" for k] crc32_shift_def [of 0] crc32_shift_def [of 1]

lemma funpow_8: "(f ^^ 8) x = f (f (f (f (f (f (f (f x)))))))"
  by (simp add: eval_nat_numeral)

lemma modbus_crc_table_nth:
  assumes "k < 256"
  shows "modbus_crc_table ! k = (crc16_shift ^^ 8) (of_nat k)"
proof (rule crc16.table_correct)
  show "map crc16_shift (evens modbus_crc_table) = take 128 modbus_crc_table"
    by (simp add: modbus_crc_table_def crc16_shift_numeral)
  show "odds modbus_crc_table = map (\<lambda>x. x XOR modbus_crc_table ! 1) (evens modbus_crc_table)"
    by (simp add: modbus_crc_table_def)
  show "modbus_crc_table ! 1 = (crc16_shift ^^ 8) 1"
    by (simp add: modbus_crc_table_def funpow_8 crc16_shift_numeral)
qed (use assms in \<open>simp_all add: modbus_crc_table_def\<close>)

lemma config_store_crc_table_nth:
  assumes "k < 256"
  shows "config_store_crc_table ! k = (crc32_shift ^^ 8) (of_nat k)"
proof (rule crc32.table_correct)
  show "map crc32_shift (evens config_store_crc_table) = take 128 config_store_crc_table"
    by (simp add: config_store_crc_table_def crc32_shift_numeral)
  show "odds config_store_crc_table =
      map (\<lambda>x. x XOR config_store_crc_table ! 1) (evens config_store_crc_table)"
    by (simp add: config_store_crc_table_def)
  show "config_store_crc_table ! 1 = (crc32_shift ^^ 8) 1"
    by (simp add: config_store_crc_table_def funpow_8 crc32_shift_numeral)
qed (use assms in \<open>simp_all add: config_store_crc_table_def\<close>)

lemma unat_and_0xFF: "unat (x AND 0xFF :: 'a::len word) < 256" if "8 \<le> LENGTH('a)"
proof -
  have "x AND 0xFF \<le> (0xFF :: 'a word)" by (rule word_and_le1)
  moreover have "unat (0xFF :: 'a word) = 255"
  proof -
    have "(256 :: nat) \<le> 2 ^ LENGTH('a)"
      using power_increasing [OF that, of "2 :: nat"] by simp
    then show ?thesis by (simp add: unsigned_numeral take_bit_nat_eq_self)
  qed
  ultimately show ?thesis by (simp add: word_le_nat_alt)
qed

lemma modbus_crc_table_step:
  "drop_bit 8 x XOR modbus_crc_table ! unat (x AND 0x00FF) = (crc16_shift ^^ 8) x"
  using unat_and_0xFF [of x]
  by (subst crc16.shifts_8 [of x]) (simp add: modbus_crc_table_nth del: funpow.simps)

lemma config_store_crc_table_step:
  "drop_bit 8 x XOR config_store_crc_table ! unat (x AND 0xFF) = (crc32_shift ^^ 8) x"
  using unat_and_0xFF [of x]
  by (subst crc32.shifts_8 [of x]) (simp add: config_store_crc_table_nth del: funpow.simps)

section \<open>Equivalence and error detection\<close>

lemma drop_bit_8_byte [simp]: "drop_bit 8 (ucast (b :: u8) :: 'a::len word) = 0"
  by (rule bit_word_eqI) (auto simp: bit_simps dest: bit_imp_le_length)

lemma modbus_crc16_loop_eq: "modbus_crc16_loop crc buf = cfl_crc16_update crc buf"
proof (induction buf arbitrary: crc)
  case (Cons b buf)
  show ?case
    using modbus_crc_table_step [of "crc XOR ucast b"] by (simp add: Cons.IH del: funpow.simps)
qed simp

text \<open>C36: the table-driven CRC of the Modbus slave computes the same function as the bitwise
  CRC-16/IBM of the flash log, started from \<open>0xFFFF\<close>.\<close>

theorem modbus_crc16_is_bitwise: "modbus_crc16 buf = cfl_crc16_update 0xFFFF buf"
  by (simp add: modbus_crc16_def modbus_crc16_loop_eq)

lemma config_store_crc32_feed_eq: "config_store_crc32_feed crc buf = cfl_crc32_loop crc buf"
proof (induction buf arbitrary: crc)
  case (Cons b buf)
  show ?case
    using config_store_crc_table_step [of "crc XOR ucast b"] by (simp add: Cons.IH del: funpow.simps)
qed simp

text \<open>C37: ConfigStore's and the bootloader's table-driven CRC-32 equals the flash log's bitwise
  CRC-32.\<close>

theorem config_store_crc32_is_bitwise: "config_store_crc32 buf = cfl_crc32 buf"
  unfolding config_store_crc32_def config_store_crc32_finish_def config_store_crc32_start_def
    cfl_crc32_def config_store_crc32_feed_eq by (rule refl)

lemma cfl_crc16_append: "cfl_crc16_update crc (xs @ ys) = cfl_crc16_update (cfl_crc16_update crc xs) ys"
  by (induction xs arbitrary: crc) (simp_all del: funpow.simps)

lemma config_store_crc32_feed_append:
  "config_store_crc32_feed crc (xs @ ys) = config_store_crc32_feed (config_store_crc32_feed crc xs) ys"
  by (induction xs arbitrary: crc) simp_all

lemma cfl_crc16_update_inj:
  "cfl_crc16_update c1 ys = cfl_crc16_update c2 ys \<Longrightarrow> c1 = c2"
proof (induction ys arbitrary: c1 c2)
  case (Cons y ys)
  then have "(crc16_shift ^^ 8) (c1 XOR ucast y) = (crc16_shift ^^ 8) (c2 XOR ucast y)"
    by (simp del: funpow.simps)
  then have "c1 XOR ucast y = c2 XOR ucast y" by (rule crc16.shifts_inj)
  then show ?case by (simp only: word_xor_cancel)
qed simp

lemma modbus_crc16_append_inj:
  "modbus_crc16 (xs @ us @ ys) = modbus_crc16 (xs @ vs @ ys) \<Longrightarrow>
   cfl_crc16_update (cfl_crc16_update 0xFFFF xs) us = cfl_crc16_update (cfl_crc16_update 0xFFFF xs) vs"
  by (auto simp: modbus_crc16_def modbus_crc16_loop_eq cfl_crc16_append dest: cfl_crc16_update_inj)

lemma crc16_two_bytes:
  "cfl_crc16_update c [a, b] = (crc16_shift ^^ 16) (c XOR (ucast a OR push_bit 8 (ucast b)))"
proof -
  have "(crc16_shift ^^ 8) (push_bit 8 (ucast b)) = drop_bit 8 (push_bit 8 (ucast b))"
    by (rule crc16.shifts_low_clear) (simp add: bit_simps)
  also have "\<dots> = (ucast b :: u16)"
    by (rule bit_word_eqI) (auto simp: bit_simps dest: bit_imp_le_length)
  finally have b: "(crc16_shift ^^ 8) (push_bit 8 (ucast b)) = ucast b" .
  have "(ucast a :: u16) OR push_bit 8 (ucast b) = ucast a XOR push_bit 8 (ucast b)"
    by (rule bit_word_eqI) (auto simp: bit_simps dest: bit_imp_le_length)
  then have "(crc16_shift ^^ 8) (c XOR (ucast a OR push_bit 8 (ucast b)))
      = (crc16_shift ^^ 8) (c XOR ucast a) XOR ucast b"
    by (simp only: xor.assoc [symmetric] crc16.shifts_xor b)
  moreover have "(crc16_shift ^^ 16) x = (crc16_shift ^^ 8) ((crc16_shift ^^ 8) x)" for x
    using funpow_add [of 8 8 crc16_shift] by simp
  ultimately show ?thesis by (simp only: cfl_crc16_update.simps)
qed

text \<open>the Modbus CRC detects every corruption confined to two neighbouring bytes (any burst
  error of up to 16 bits aligned to the bytes), wherever it falls in the frame.\<close>

theorem modbus_crc16_detects_burst:
  assumes "(a, b) \<noteq> (a', b')"
  shows "modbus_crc16 (xs @ [a, b] @ ys) \<noteq> modbus_crc16 (xs @ [a', b'] @ ys)"
proof
  assume "modbus_crc16 (xs @ [a, b] @ ys) = modbus_crc16 (xs @ [a', b'] @ ys)"
  then have "(crc16_shift ^^ 16) (cfl_crc16_update 0xFFFF xs XOR (ucast a OR push_bit 8 (ucast b)))
      = (crc16_shift ^^ 16) (cfl_crc16_update 0xFFFF xs XOR (ucast a' OR push_bit 8 (ucast b')))"
    unfolding crc16_two_bytes [symmetric] by (rule modbus_crc16_append_inj)
  then have "(ucast a OR push_bit 8 (ucast b) :: u16) = ucast a' OR push_bit 8 (ucast b')"
    by (auto dest: crc16.shifts_inj simp: word_xor_cancel)
  then have eq: "cfl_get_u16 [a, b] = cfl_get_u16 [a', b']" by (simp add: cfl_get_u16_def)
  then have "cfl_put_u16 (cfl_get_u16 [a, b]) = cfl_put_u16 (cfl_get_u16 [a', b'])" by simp
  then have "[a, b] = [a', b']" by (simp only: cfl_put_get_u16)
  with assms show False by simp
qed

theorem modbus_crc16_detects_burst_witness:
  "modbus_crc16 ([1, 3] @ [0, 0] @ [0, 2]) \<noteq> modbus_crc16 ([1, 3] @ [0, 4] @ [0, 2])"
  using modbus_crc16_detects_burst [of 0 0 0 4 "[1, 3]" "[0, 2]"] by simp

end
