(* ===== verification/Modbus_Slave.thy ===== *)
theory Modbus_Slave
  imports Bytes_CRC
begin

text \<open>
  The Modbus RTU slave of the Field Device (\<^verbatim>\<open>middleware/modbus_slave/modbus_slave.c\<close>).

  The state is the C struct \<^verbatim>\<open>modbus_slave_t\<close>, with three additions: the frames handed to
  \<^verbatim>\<open>modbus_uart_transmit\<close> (newest first), a ghost flag \<open>ms_oob\<close> that is set when the C code
  would touch an array outside its 256 bytes, and the rest of the system (\<open>ms_env\<close>), which the
  injected register map works on.  The register map is the C vtable \<^verbatim>\<open>IModbusRegisterMap\<close>: a
  record of operations over the whole state, because a register write may call back into the slave
  (\<^verbatim>\<open>modbus_slave_set_address\<close>).  The locale \<open>modbus_map\<close> states what the slave relies on:
  reads have no effect and writes touch neither the frame buffers nor the counters.
\<close>

section \<open>State\<close>

datatype slave_err =
    MODBUS_SLAVE_ERR_OK
  | MODBUS_SLAVE_ERR_NOT_INIT
  | MODBUS_SLAVE_ERR_NULL_ARG
  | MODBUS_SLAVE_ERR_INVALID_ADDR
  | MODBUS_SLAVE_ERR_INVALID_VALUE
  | MODBUS_SLAVE_ERR_DEVICE_FAIL

record slave_stats =
  valid_frames :: u32
  crc_errors :: u32
  address_mismatches :: u32
  exception_responses :: u32
  unsupported_fc :: u32
  successful_responses :: u32

definition zero_stats :: slave_stats where
  "zero_stats = \<lparr>valid_frames = 0, crc_errors = 0, address_mismatches = 0,
     exception_responses = 0, unsupported_fc = 0, successful_responses = 0\<rparr>"

record 'w modbus_slave =
  ms_initialised :: bool
  slave_addr :: u8
  rx_buf :: "u8 list"
  rx_len :: u16
  tx_buf :: "u8 list"
  tx_len :: u16
  stats :: slave_stats
  ms_sent :: "u8 list list"
  ms_oob :: bool
  ms_env :: 'w

record 'w reg_map =
  rm_read_input :: "u16 \<Rightarrow> 'w modbus_slave \<Rightarrow> (slave_err \<times> u16) \<times> 'w modbus_slave"
  rm_read_holding :: "u16 \<Rightarrow> 'w modbus_slave \<Rightarrow> (slave_err \<times> u16) \<times> 'w modbus_slave"
  rm_write_holding :: "u16 \<Rightarrow> u16 \<Rightarrow> 'w modbus_slave \<Rightarrow> slave_err \<times> 'w modbus_slave"
  rm_write_block :: "(u16 \<Rightarrow> u16 list \<Rightarrow> 'w modbus_slave \<Rightarrow> slave_err \<times> 'w modbus_slave) option"

section \<open>Array accesses\<close>

text \<open>Stores to \<^verbatim>\<open>tx_buf\<close> and loads from \<^verbatim>\<open>rx_buf\<close>; an index past the array is recorded.\<close>

definition tx_put :: "nat \<Rightarrow> u8 \<Rightarrow> 'w modbus_slave \<Rightarrow> 'w modbus_slave" where
  "tx_put i b s =
     (if i < 256 then s\<lparr>tx_buf := (tx_buf s)[i := b]\<rparr> else s\<lparr>ms_oob := True\<rparr>)"

definition rx_at :: "nat \<Rightarrow> 'w modbus_slave \<Rightarrow> u8" where
  "rx_at i s = (if i < length (rx_buf s) then rx_buf s ! i else 0)"

definition rx_touch :: "nat \<Rightarrow> 'w modbus_slave \<Rightarrow> 'w modbus_slave" where
  "rx_touch i s = (if i < 256 then s else s\<lparr>ms_oob := True\<rparr>)"

definition rx_be16 :: "nat \<Rightarrow> 'w modbus_slave \<Rightarrow> u16" where
  "rx_be16 i s = push_bit 8 (ucast (rx_at i s)) OR ucast (rx_at (i + 1) s)"

definition hi8 :: "u16 \<Rightarrow> u8" where "hi8 v = ucast (drop_bit 8 v)"
definition lo8 :: "u16 \<Rightarrow> u8" where "lo8 v = ucast (v AND 0x00FF)"

section \<open>Response builders\<close>

definition append_crc :: "nat \<Rightarrow> 'w modbus_slave \<Rightarrow> 'w modbus_slave" where
  "append_crc len s =
     (let crc = modbus_crc16 (take len (tx_buf s));
          s = (if len \<le> 256 then s else s\<lparr>ms_oob := True\<rparr>)
      in tx_put (len + 1) (ucast (drop_bit 8 crc)) (tx_put len (ucast (crc AND 0x00FF)) s))"

definition build_exception_response :: "u8 \<Rightarrow> u8 \<Rightarrow> 'w modbus_slave \<Rightarrow> 'w modbus_slave" where
  "build_exception_response fc exception_code s =
     (let s = tx_put 0 (slave_addr s) s;
          s = tx_put 1 (fc OR 0x80) s;
          s = tx_put 2 exception_code s;
          s = append_crc 3 s;
          s = s\<lparr>tx_len := 5\<rparr>
      in s\<lparr>stats := (stats s)\<lparr>exception_responses := exception_responses (stats s) + 1\<rparr>\<rparr>)"

fun read_regs ::
  "'w reg_map \<Rightarrow> u8 \<Rightarrow> u16 \<Rightarrow> nat \<Rightarrow> nat \<Rightarrow> 'w modbus_slave \<Rightarrow> slave_err \<times> 'w modbus_slave"
where
  "read_regs D fc start i 0 s = (MODBUS_SLAVE_ERR_OK, s)"
| "read_regs D fc start i (Suc n) s =
     (let ((err, v), s) = (if fc = 0x04 then rm_read_input D (start + of_nat i) s
                           else rm_read_holding D (start + of_nat i) s)
      in if err = MODBUS_SLAVE_ERR_INVALID_ADDR then (err, build_exception_response fc 0x02 s)
         else if err = MODBUS_SLAVE_ERR_DEVICE_FAIL then (err, build_exception_response fc 0x04 s)
         else read_regs D fc start (i + 1) n (tx_put (3 + i * 2 + 1) (lo8 v) (tx_put (3 + i * 2) (hi8 v) s)))"

definition build_read_response ::
  "'w reg_map \<Rightarrow> u8 \<Rightarrow> u16 \<Rightarrow> u16 \<Rightarrow> 'w modbus_slave \<Rightarrow> slave_err \<times> 'w modbus_slave"
where
  "build_read_response D fc start_addr reg_count s =
     (if reg_count = 0 \<or> reg_count > 128
      then (MODBUS_SLAVE_ERR_INVALID_ADDR, build_exception_response fc 0x02 s)
      else
        let byte_count = (ucast (reg_count * 2) :: u8);
            s = tx_put 2 byte_count (tx_put 1 fc (tx_put 0 (slave_addr s) s));
            (err, s) = read_regs D fc start_addr 0 (unat reg_count) s
        in if err \<noteq> MODBUS_SLAVE_ERR_OK then (err, s)
           else
             let pdu_len = 3 + (ucast byte_count :: u16);
                 s = append_crc (unat pdu_len) s;
                 s = s\<lparr>tx_len := pdu_len + 2\<rparr>
             in (MODBUS_SLAVE_ERR_OK,
                 s\<lparr>stats := (stats s)\<lparr>successful_responses := successful_responses (stats s) + 1\<rparr>\<rparr>))"

text \<open>The eight-byte acknowledgement shared by FC06 and FC16: address, FC, two words, CRC.\<close>

definition send_ack :: "u8 \<Rightarrow> u16 \<Rightarrow> u16 \<Rightarrow> 'w modbus_slave \<Rightarrow> 'w modbus_slave" where
  "send_ack fc w1 w2 s =
     (let s = tx_put 0 (slave_addr s) s;
          s = tx_put 1 fc s;
          s = tx_put 2 (ucast (drop_bit 8 w1)) s;
          s = tx_put 3 (ucast (w1 AND 0x00FF)) s;
          s = tx_put 4 (ucast (drop_bit 8 w2)) s;
          s = tx_put 5 (ucast (w2 AND 0x00FF)) s;
          s = append_crc 6 s;
          s = s\<lparr>tx_len := 8\<rparr>
      in s\<lparr>stats := (stats s)\<lparr>successful_responses := successful_responses (stats s) + 1\<rparr>\<rparr>)"

text \<open>The exception dispatch after a write (the three tests on \<^verbatim>\<open>err\<close>).\<close>

definition write_result ::
  "u8 \<Rightarrow> slave_err \<Rightarrow> 'w modbus_slave \<Rightarrow> ('w modbus_slave \<Rightarrow> 'w modbus_slave) \<Rightarrow> slave_err \<times> 'w modbus_slave"
where
  "write_result fc err s ack =
     (if err = MODBUS_SLAVE_ERR_INVALID_ADDR then (err, build_exception_response fc 0x02 s)
      else if err = MODBUS_SLAVE_ERR_INVALID_VALUE then (err, build_exception_response fc 0x03 s)
      else if err = MODBUS_SLAVE_ERR_DEVICE_FAIL then (err, build_exception_response fc 0x04 s)
      else (MODBUS_SLAVE_ERR_OK, ack s))"

definition build_write_single_response ::
  "'w reg_map \<Rightarrow> 'w modbus_slave \<Rightarrow> slave_err \<times> 'w modbus_slave" where
  "build_write_single_response D s =
     (let reg_addr = rx_be16 2 s;
          v = rx_be16 4 s;
          (err, s) = rm_write_holding D reg_addr v s
      in write_result 0x06 err s (send_ack 0x06 reg_addr v))"

text \<open>The FC16 fallback without \<^verbatim>\<open>write_block\<close>: one register write per value until one fails.\<close>

fun write_regs ::
  "'w reg_map \<Rightarrow> u16 \<Rightarrow> nat \<Rightarrow> nat \<Rightarrow> 'w modbus_slave \<Rightarrow> slave_err \<times> 'w modbus_slave"
where
  "write_regs D start i 0 s = (MODBUS_SLAVE_ERR_OK, s)"
| "write_regs D start i (Suc n) s =
     (let v = rx_be16 (7 + i * 2) s;
          (err, s) = rm_write_holding D (start + of_nat i) v (rx_touch (7 + i * 2 + 1) s)
      in if err = MODBUS_SLAVE_ERR_OK then write_regs D start (i + 1) n s else (err, s))"

definition build_write_multiple_response ::
  "'w reg_map \<Rightarrow> 'w modbus_slave \<Rightarrow> slave_err \<times> 'w modbus_slave" where
  "build_write_multiple_response D s =
     (let start_addr = rx_be16 2 s;
          reg_count = rx_be16 4 s;
          byte_count = rx_at 6 s
      in if byte_count \<noteq> ucast (reg_count * 2)
         then (MODBUS_SLAVE_ERR_INVALID_VALUE, build_exception_response 0x10 0x03 s)
         else case rm_write_block D of
           Some wb \<Rightarrow>
             if reg_count = 0 \<or> reg_count > 123
             then (MODBUS_SLAVE_ERR_INVALID_VALUE, build_exception_response 0x10 0x03 s)
             else
               let vals = map (\<lambda>i. rx_be16 (7 + i * 2) s) [0..<unat reg_count];
                   (err, s) = wb start_addr vals s
               in write_result 0x10 err s (send_ack 0x10 start_addr reg_count)
         | None \<Rightarrow>
             let (err, s) = write_regs D start_addr 0 (unat reg_count) s
             in write_result 0x10 err s (send_ack 0x10 start_addr reg_count))"

section \<open>Public operations\<close>

text \<open>
  The two pointer arguments are options (\<open>None\<close> is \<^verbatim>\<open>NULL\<close>).  The map itself is not stored
  in the state: it is passed to \<^verbatim>\<open>modbus_slave_process\<close> below.
\<close>

definition modbus_slave_init ::
  "'w reg_map option \<Rightarrow> u8 \<Rightarrow> 'h option \<Rightarrow> 'w modbus_slave \<Rightarrow> slave_err \<times> 'w modbus_slave" where
  "modbus_slave_init reg_map addr task_handle s =
     (if Option.is_none reg_map \<or> Option.is_none task_handle then (MODBUS_SLAVE_ERR_NULL_ARG, s)
      else if addr < 1 \<or> addr > 247 then (MODBUS_SLAVE_ERR_INVALID_ADDR, s)
      else (MODBUS_SLAVE_ERR_OK, s\<lparr>slave_addr := addr, ms_initialised := True\<rparr>))"

text \<open>\<^verbatim>\<open>modbus_uart_get_rx_frame\<close> copies the received frame over the start of \<^verbatim>\<open>rx_buf\<close>.\<close>

definition get_rx_frame :: "u8 list \<Rightarrow> 'w modbus_slave \<Rightarrow> 'w modbus_slave" where
  "get_rx_frame frame s =
     s\<lparr>rx_buf := frame @ drop (length frame) (rx_buf s), rx_len := of_nat (length frame)\<rparr>"

definition dispatch_fc :: "'w reg_map \<Rightarrow> u8 \<Rightarrow> 'w modbus_slave \<Rightarrow> 'w modbus_slave" where
  "dispatch_fc D fc s =
     (let start_addr = rx_be16 2 s; reg_count = rx_be16 4 s
      in if fc = 0x03 then snd (build_read_response D 0x03 start_addr reg_count s)
         else if fc = 0x04 then snd (build_read_response D 0x04 start_addr reg_count s)
         else if fc = 0x06 then snd (build_write_single_response D s)
         else if fc = 0x10 then snd (build_write_multiple_response D s)
         else
           let s = build_exception_response fc 0x01 s
           in s\<lparr>stats := (stats s)\<lparr>unsupported_fc := unsupported_fc (stats s) + 1\<rparr>\<rparr>)"

definition transmit :: "'w modbus_slave \<Rightarrow> 'w modbus_slave" where
  "transmit s =
     (if tx_len s > 0 then
        let s = (if unat (tx_len s) \<le> 256 then s else s\<lparr>ms_oob := True\<rparr>)
        in s\<lparr>ms_sent := take (unat (tx_len s)) (tx_buf s) # ms_sent s\<rparr>
      else s)"

definition modbus_slave_process ::
  "'w reg_map \<Rightarrow> u8 list \<Rightarrow> 'w modbus_slave \<Rightarrow> slave_err \<times> 'w modbus_slave" where
  "modbus_slave_process D frame s =
     (if \<not> ms_initialised s then (MODBUS_SLAVE_ERR_NOT_INIT, s)
      else
        let s = get_rx_frame frame (s\<lparr>tx_len := 0\<rparr>)
        in if rx_len s < 4 then (MODBUS_SLAVE_ERR_OK, s)
           else if rx_at 0 s \<noteq> slave_addr s
           then (MODBUS_SLAVE_ERR_OK,
                 s\<lparr>stats := (stats s)\<lparr>address_mismatches := address_mismatches (stats s) + 1\<rparr>\<rparr>)
           else
             let n = unat (rx_len s);
                 expected_crc = modbus_crc16 (take (n - 2) (rx_buf s));
                 received_crc = ucast (rx_at (n - 2) s) OR push_bit 8 (ucast (rx_at (n - 1) s))
             in if expected_crc \<noteq> received_crc
                then (MODBUS_SLAVE_ERR_OK,
                      s\<lparr>stats := (stats s)\<lparr>crc_errors := crc_errors (stats s) + 1\<rparr>\<rparr>)
                else
                  let s = s\<lparr>stats := (stats s)\<lparr>valid_frames := valid_frames (stats s) + 1\<rparr>\<rparr>
                  in (MODBUS_SLAVE_ERR_OK, transmit (dispatch_fc D (rx_at 1 s) s)))"

definition modbus_slave_set_address ::
  "u8 \<Rightarrow> 'w modbus_slave \<Rightarrow> slave_err \<times> 'w modbus_slave" where
  "modbus_slave_set_address new_addr s =
     (if \<not> ms_initialised s then (MODBUS_SLAVE_ERR_NOT_INIT, s)
      else if new_addr < 1 \<or> new_addr > 247 then (MODBUS_SLAVE_ERR_INVALID_ADDR, s)
      else (MODBUS_SLAVE_ERR_OK, s\<lparr>slave_addr := new_addr\<rparr>))"

text \<open>The destination of \<^verbatim>\<open>modbus_slave_get_stats\<close> is an option, returned overwritten.\<close>

definition modbus_slave_get_stats ::
  "slave_stats option \<Rightarrow> 'w modbus_slave \<Rightarrow> slave_err \<times> slave_stats option" where
  "modbus_slave_get_stats stats_out s =
     (case stats_out of None \<Rightarrow> (MODBUS_SLAVE_ERR_NULL_ARG, None)
      | Some _ \<Rightarrow> (MODBUS_SLAVE_ERR_OK, Some (stats s)))"

definition modbus_slave_reset_stats :: "'w modbus_slave \<Rightarrow> slave_err \<times> 'w modbus_slave" where
  "modbus_slave_reset_stats s = (MODBUS_SLAVE_ERR_OK, s\<lparr>stats := zero_stats\<rparr>)"

section \<open>Frames\<close>

text \<open>An RTU frame: the payload followed by its CRC, low byte first.\<close>

definition rtu :: "u8 list \<Rightarrow> u8 list" where
  "rtu f = f @ cfl_put_u16 (modbus_crc16 f)"

definition be16 :: "u16 \<Rightarrow> u8 list" where
  "be16 v = [hi8 v, lo8 v]"

lemma length_rtu [simp]: "length (rtu f) = length f + 2"
  by (simp add: rtu_def)

lemma be16_join [simp]: "push_bit 8 (ucast (hi8 v)) OR ucast (lo8 v) = (v :: u16)"
proof (rule bit_word_eqI)
  fix n assume "n < LENGTH(16)"
  then have "n < 16" by simp
  then show "bit (push_bit 8 (ucast (hi8 v)) OR ucast (lo8 v) :: u16) n = bit v n"
    by (cases rule: byte_position_16) (simp_all add: hi8_def lo8_def mask_0xFF bit_simps)
qed

lemma nth_concat_be16:
  "length (concat (map be16 vs)) = 2 * length vs"
  "i < length vs \<Longrightarrow> concat (map be16 vs) ! (2 * i) = hi8 (vs ! i)"
  "i < length vs \<Longrightarrow> concat (map be16 vs) ! (2 * i + 1) = lo8 (vs ! i)"
proof -
  show "length (concat (map be16 vs)) = 2 * length vs"
    by (induction vs) (simp_all add: be16_def)
  show "i < length vs \<Longrightarrow> concat (map be16 vs) ! (2 * i) = hi8 (vs ! i)"
    "i < length vs \<Longrightarrow> concat (map be16 vs) ! (2 * i + 1) = lo8 (vs ! i)"
    by (induction vs arbitrary: i; case_tac i; simp add: be16_def)+
qed

text \<open>The start of \<^verbatim>\<open>tx_buf\<close> holds the list \<open>f\<close>.\<close>

definition tx_prefix :: "u8 list \<Rightarrow> 'w modbus_slave \<Rightarrow> bool" where
  "tx_prefix f s \<longleftrightarrow> length (tx_buf s) = 256 \<and> take (length f) (tx_buf s) = f"

lemma tx_prefix_Nil: "length (tx_buf s) = 256 \<Longrightarrow> tx_prefix [] s"
  by (simp add: tx_prefix_def)

lemma tx_prefix_put:
  assumes "tx_prefix f s" "length f < 256" "i = length f"
  shows "tx_prefix (f @ [b]) (tx_put i b s)"
  using assms by (simp add: tx_prefix_def tx_put_def take_Suc_conv_app_nth)

lemma tx_put_frame [simp]:
  "slave_addr (tx_put i b s) = slave_addr s" "rx_buf (tx_put i b s) = rx_buf s"
  "rx_len (tx_put i b s) = rx_len s" "tx_len (tx_put i b s) = tx_len s"
  "stats (tx_put i b s) = stats s" "ms_sent (tx_put i b s) = ms_sent s"
  "ms_env (tx_put i b s) = ms_env s" "ms_initialised (tx_put i b s) = ms_initialised s"
  "i < 256 \<Longrightarrow> ms_oob (tx_put i b s) = ms_oob s"
  "length (tx_buf (tx_put i b s)) = length (tx_buf s)"
  by (simp_all add: tx_put_def)

lemma append_crc_frame [simp]:
  "slave_addr (append_crc n s) = slave_addr s" "rx_buf (append_crc n s) = rx_buf s"
  "rx_len (append_crc n s) = rx_len s" "tx_len (append_crc n s) = tx_len s"
  "stats (append_crc n s) = stats s" "ms_sent (append_crc n s) = ms_sent s"
  "ms_env (append_crc n s) = ms_env s" "ms_initialised (append_crc n s) = ms_initialised s"
  "n \<le> 254 \<Longrightarrow> ms_oob (append_crc n s) = ms_oob s"
  "length (tx_buf (append_crc n s)) = length (tx_buf s)"
  by (simp_all add: append_crc_def Let_def)

lemma append_crc_prefix:
  assumes "tx_prefix f s" "length f \<le> 254" "n = length f"
  shows "tx_prefix (rtu f) (append_crc n s)"
proof -
  let ?c = "modbus_crc16 f"
  have "take n (tx_buf s) = f" using assms by (simp add: tx_prefix_def)
  moreover have "tx_prefix (f @ [ucast (?c AND 0xFF)]) (tx_put n (ucast (?c AND 0xFF)) s)"
    using assms by (intro tx_prefix_put) auto
  then have "tx_prefix ((f @ [ucast (?c AND 0xFF)]) @ [ucast (drop_bit 8 ?c)])
      (tx_put (n + 1) (ucast (drop_bit 8 ?c)) (tx_put n (ucast (?c AND 0xFF)) s))"
    using assms by (intro tx_prefix_put) auto
  moreover have "ucast (drop_bit 8 ?c) = (ucast (drop_bit 8 ?c AND 0xFF) :: u8)"
    by (rule bit_word_eqI) (auto simp: bit_simps mask_0xFF)
  ultimately show ?thesis
    using assms by (simp add: append_crc_def Let_def rtu_def cfl_put_u16_def)
qed

text \<open>The received frame is what the handlers see at the start of \<^verbatim>\<open>rx_buf\<close>.\<close>

lemma rx_at_get_rx_frame [simp]:
  "i < length frame \<Longrightarrow> rx_at i (get_rx_frame frame s) = frame ! i"
  by (simp add: rx_at_def get_rx_frame_def nth_append)

section \<open>What the slave relies on\<close>

definition same_frame :: "'w modbus_slave \<Rightarrow> 'w modbus_slave \<Rightarrow> bool" where
  "same_frame s s' \<longleftrightarrow>
     ms_initialised s' = ms_initialised s \<and> rx_buf s' = rx_buf s \<and> rx_len s' = rx_len s \<and>
     tx_buf s' = tx_buf s \<and> tx_len s' = tx_len s \<and> stats s' = stats s \<and>
     ms_sent s' = ms_sent s \<and> ms_oob s' = ms_oob s"

lemma same_frame_refl [simp]: "same_frame s s"
  by (simp add: same_frame_def)

lemma same_frame_trans: "same_frame s t \<Longrightarrow> same_frame t u \<Longrightarrow> same_frame s u"
  by (simp add: same_frame_def)

text \<open>A reply is complete: \<^verbatim>\<open>tx_len\<close> bytes of \<^verbatim>\<open>tx_buf\<close> are a frame with a correct CRC.\<close>

definition reply_ready :: "u8 list \<Rightarrow> 'w modbus_slave \<Rightarrow> bool" where
  "reply_ready f s \<longleftrightarrow>
     tx_prefix (rtu f) s \<and> 3 \<le> length f \<and> length f \<le> 254 \<and> unat (tx_len s) = length f + 2"

lemma transmit_ready:
  assumes "reply_ready f s"
  shows "transmit s = s\<lparr>ms_sent := rtu f # ms_sent s\<rparr>"
proof -
  from assms have "unat (tx_len s) = length (rtu f)" "unat (tx_len s) > 0"
    by (simp_all add: reply_ready_def)
  moreover from this have "tx_len s > 0" by (simp add: word_less_nat_alt)
  ultimately show ?thesis
    using assms by (simp add: transmit_def reply_ready_def tx_prefix_def)
qed

definition exception_frame :: "u8 \<Rightarrow> u8 \<Rightarrow> u8 \<Rightarrow> u8 list" where
  "exception_frame addr fc code = [addr, fc OR 0x80, code]"

lemma exception_reply:
  assumes "length (tx_buf s) = 256"
  shows "reply_ready (exception_frame (slave_addr s) fc code) (build_exception_response fc code s)"
proof -
  let ?s1 = "tx_put 0 (slave_addr s) s"
  let ?s2 = "tx_put 1 (fc OR 0x80) ?s1"
  let ?s3 = "tx_put 2 code ?s2"
  have "tx_prefix [slave_addr s] ?s1"
    using tx_prefix_put [of "[]" s 0] assms by (simp add: tx_prefix_Nil)
  then have "tx_prefix [slave_addr s, fc OR 0x80] ?s2"
    using tx_prefix_put [of "[slave_addr s]" ?s1 1] by simp
  then have "tx_prefix [slave_addr s, fc OR 0x80, code] ?s3"
    using tx_prefix_put [of "[slave_addr s, fc OR 0x80]" ?s2 2] by simp
  then have "tx_prefix (rtu [slave_addr s, fc OR 0x80, code]) (append_crc 3 ?s3)"
    by (intro append_crc_prefix) auto
  then show ?thesis
    by (simp add: build_exception_response_def Let_def reply_ready_def exception_frame_def
        tx_prefix_def)
qed

lemma exception_frame_fields [simp]:
  "slave_addr (build_exception_response fc code s) = slave_addr s"
  "rx_buf (build_exception_response fc code s) = rx_buf s"
  "rx_len (build_exception_response fc code s) = rx_len s"
  "ms_sent (build_exception_response fc code s) = ms_sent s"
  "ms_env (build_exception_response fc code s) = ms_env s"
  "ms_initialised (build_exception_response fc code s) = ms_initialised s"
  "ms_oob (build_exception_response fc code s) = ms_oob s"
  "length (tx_buf (build_exception_response fc code s)) = length (tx_buf s)"
  "stats (build_exception_response fc code s) =
     (stats s)\<lparr>exception_responses := exception_responses (stats s) + 1\<rparr>"
  by (simp_all add: build_exception_response_def Let_def)

definition ack_frame :: "u8 \<Rightarrow> u8 \<Rightarrow> u16 \<Rightarrow> u16 \<Rightarrow> u8 list" where
  "ack_frame addr fc w1 w2 = addr # fc # be16 w1 @ be16 w2"

lemma ack_reply:
  assumes "length (tx_buf s) = 256"
  shows "reply_ready (ack_frame (slave_addr s) fc w1 w2) (send_ack fc w1 w2 s)"
proof -
  define s1 where "s1 = tx_put 0 (slave_addr s) s"
  define s2 where "s2 = tx_put 1 fc s1"
  define s3 where "s3 = tx_put 2 (hi8 w1) s2"
  define s4 where "s4 = tx_put 3 (lo8 w1) s3"
  define s5 where "s5 = tx_put 4 (hi8 w2) s4"
  define s6 where "s6 = tx_put 5 (lo8 w2) s5"
  note defs = s1_def s2_def s3_def s4_def s5_def s6_def
  have "tx_prefix [slave_addr s] s1"
    using tx_prefix_put [of "[]" s 0] assms by (simp add: tx_prefix_Nil s1_def)
  then have "tx_prefix [slave_addr s, fc] s2"
    using tx_prefix_put [of "[slave_addr s]" s1 1] by (simp add: s2_def)
  then have "tx_prefix [slave_addr s, fc, hi8 w1] s3"
    using tx_prefix_put [of "[slave_addr s, fc]" s2 2] by (simp add: s3_def)
  then have "tx_prefix [slave_addr s, fc, hi8 w1, lo8 w1] s4"
    using tx_prefix_put [of "[slave_addr s, fc, hi8 w1]" s3 3] by (simp add: s4_def)
  then have "tx_prefix [slave_addr s, fc, hi8 w1, lo8 w1, hi8 w2] s5"
    using tx_prefix_put [of "[slave_addr s, fc, hi8 w1, lo8 w1]" s4 4] by (simp add: s5_def)
  then have "tx_prefix [slave_addr s, fc, hi8 w1, lo8 w1, hi8 w2, lo8 w2] s6"
    using tx_prefix_put [of "[slave_addr s, fc, hi8 w1, lo8 w1, hi8 w2]" s5 5]
    by (simp add: s6_def)
  then have "tx_prefix (rtu (ack_frame (slave_addr s) fc w1 w2)) (append_crc 6 s6)"
    by (intro append_crc_prefix) (auto simp: ack_frame_def be16_def)
  then show ?thesis
    by (simp add: send_ack_def Let_def reply_ready_def ack_frame_def be16_def tx_prefix_def
        defs hi8_def lo8_def)
qed

lemma send_ack_fields [simp]:
  "slave_addr (send_ack fc w1 w2 s) = slave_addr s"
  "rx_buf (send_ack fc w1 w2 s) = rx_buf s" "rx_len (send_ack fc w1 w2 s) = rx_len s"
  "ms_sent (send_ack fc w1 w2 s) = ms_sent s" "ms_env (send_ack fc w1 w2 s) = ms_env s"
  "ms_initialised (send_ack fc w1 w2 s) = ms_initialised s"
  "ms_oob (send_ack fc w1 w2 s) = ms_oob s"
  "length (tx_buf (send_ack fc w1 w2 s)) = length (tx_buf s)"
  "stats (send_ack fc w1 w2 s) =
     (stats s)\<lparr>successful_responses := successful_responses (stats s) + 1\<rparr>"
  by (simp_all add: send_ack_def Let_def)


section \<open>Frames that are dropped\<close>

text \<open>The state in which the handlers run: the frame copied in and counted.\<close>

definition accepted :: "u8 list \<Rightarrow> 'w modbus_slave \<Rightarrow> 'w modbus_slave" where
  "accepted frame s =
     (get_rx_frame frame s)\<lparr>tx_len := 0,
        stats := (stats s)\<lparr>valid_frames := valid_frames (stats s) + 1\<rparr>\<rparr>"

lemma accepted_fields [simp]:
  "slave_addr (accepted p s) = slave_addr s" "ms_env (accepted p s) = ms_env s"
  "tx_buf (accepted p s) = tx_buf s" "ms_sent (accepted p s) = ms_sent s"
  "ms_oob (accepted p s) = ms_oob s" "ms_initialised (accepted p s) = ms_initialised s"
  "tx_len (accepted p s) = 0"
  "stats (accepted p s) = (stats s)\<lparr>valid_frames := valid_frames (stats s) + 1\<rparr>"
  "i < length p \<Longrightarrow> rx_at i (accepted p s) = p ! i"
  by (simp_all add: accepted_def get_rx_frame_def rx_at_def nth_append)

definition frame_crc_ok :: "u8 list \<Rightarrow> bool" where
  "frame_crc_ok frame \<longleftrightarrow>
     modbus_crc16 (take (length frame - 2) frame) = cfl_get_u16 (drop (length frame - 2) frame)"

lemma frame_crc_ok_rtu [simp]: "frame_crc_ok (rtu p)"
  by (simp add: frame_crc_ok_def rtu_def)

lemma frame_crc_ok_append:
  "frame_crc_ok (p @ [a, b]) \<longleftrightarrow> modbus_crc16 p = cfl_get_u16 [a, b]"
  by (simp add: frame_crc_ok_def)

lemma unat_of_nat_frame:
  assumes "length (frame :: u8 list) \<le> 256"
  shows "unat (of_nat (length frame) :: u16) = length frame"
    and "(of_nat (length frame) :: u16) < 4 \<longleftrightarrow> length frame < 4"
  using assms by (simp_all add: word_less_nat_alt unsigned_of_nat take_bit_nat_eq_self)

lemma process_eq:
  assumes "ms_initialised s" "length frame \<le> 256"
  shows "modbus_slave_process D frame s =
    (MODBUS_SLAVE_ERR_OK,
     let s0 = get_rx_frame frame (s\<lparr>tx_len := 0\<rparr>)
     in if length frame < 4 then s0
        else if frame ! 0 \<noteq> slave_addr s
        then s0\<lparr>stats := (stats s)\<lparr>address_mismatches := address_mismatches (stats s) + 1\<rparr>\<rparr>
        else if \<not> frame_crc_ok frame
        then s0\<lparr>stats := (stats s)\<lparr>crc_errors := crc_errors (stats s) + 1\<rparr>\<rparr>
        else transmit (dispatch_fc D (frame ! 1) (accepted frame s)))"
proof (cases "length frame < 4")
  case True
  with assms show ?thesis
    by (simp add: modbus_slave_process_def Let_def get_rx_frame_def unat_of_nat_frame)
next
  case False
  let ?n = "length frame"
  have "drop (?n - 2) frame = [frame ! (?n - 2), frame ! (?n - 1)]"
    using False Cons_nth_drop_Suc [of "?n - 2" frame] Cons_nth_drop_Suc [of "?n - 1" frame]
    by (simp add: Suc_diff_Suc numeral_2_eq_2)
  then have crc: "frame_crc_ok frame \<longleftrightarrow> modbus_crc16 (take (?n - 2) frame) =
      ucast (frame ! (?n - 2)) OR push_bit 8 (ucast (frame ! (?n - 1)))"
    by (simp add: frame_crc_ok_def cfl_get_u16_def)
  have at: "rx_at i (get_rx_frame frame (s\<lparr>tx_len := 0\<rparr>)) = frame ! i" if "i < ?n" for i
    using that by simp
  have [simp]: "take (?n - 2) (rx_buf (get_rx_frame frame (s\<lparr>tx_len := 0\<rparr>))) = take (?n - 2) frame"
    "unat (rx_len (get_rx_frame frame (s\<lparr>tx_len := 0\<rparr>))) = ?n"
    "rx_len (get_rx_frame frame (s\<lparr>tx_len := 0\<rparr>)) < 4 \<longleftrightarrow> ?n < 4"
    "slave_addr (get_rx_frame frame (s\<lparr>tx_len := 0\<rparr>)) = slave_addr s"
    "stats (get_rx_frame frame (s\<lparr>tx_len := 0\<rparr>)) = stats s"
    using assms by (simp_all add: get_rx_frame_def unat_of_nat_frame)
  have "accepted frame s = (get_rx_frame frame (s\<lparr>tx_len := 0\<rparr>))
      \<lparr>stats := (stats s)\<lparr>valid_frames := valid_frames (stats s) + 1\<rparr>\<rparr>"
    by (simp add: accepted_def get_rx_frame_def)
  moreover have "rx_at i (t\<lparr>stats := x\<rparr>) = rx_at i t" for i x and t :: "'a modbus_slave"
    by (simp add: rx_at_def)
  moreover have "rx_at 0 (get_rx_frame frame (s\<lparr>tx_len := 0\<rparr>)) = frame ! 0"
    "rx_at 1 (get_rx_frame frame (s\<lparr>tx_len := 0\<rparr>)) = frame ! 1"
    "rx_at (?n - 2) (get_rx_frame frame (s\<lparr>tx_len := 0\<rparr>)) = frame ! (?n - 2)"
    "rx_at (?n - 1) (get_rx_frame frame (s\<lparr>tx_len := 0\<rparr>)) = frame ! (?n - 1)"
    using False by (auto intro!: at)
  ultimately show ?thesis
    using False assms(1) by (simp add: modbus_slave_process_def Let_def crc)
qed

text \<open>
  A frame passes the check exactly when the CRC of the whole frame, its two CRC bytes included, is
  zero; so the burst detection of the CRC covers the CRC field too.
\<close>

lemma frame_crc_ok_residue:
  assumes "2 \<le> length frame"
  shows "frame_crc_ok frame \<longleftrightarrow> modbus_crc16 frame = 0"
proof -
  have "length (drop (length frame - 2) frame) = 2" using assms by simp
  then obtain c d where cd: "drop (length frame - 2) frame = [c, d]"
    by (rule list_length_2)
  define q where "q = take (length frame - 2) frame"
  have frame: "frame = q @ [c, d]"
    using cd append_take_drop_id [of "length frame - 2" frame] by (simp add: q_def)
  have zero: "(crc16_shift ^^ 16) 0 = 0" by (rule crc16.shifts_0)
  have "modbus_crc16 frame = (crc16_shift ^^ 16) (modbus_crc16 q XOR cfl_get_u16 [c, d])"
    by (simp add: frame modbus_crc16_def modbus_crc16_loop_eq cfl_crc16_append crc16_two_bytes
        cfl_get_u16_def del: cfl_crc16_update.simps)
  then have "modbus_crc16 frame = 0 \<longleftrightarrow>
      (crc16_shift ^^ 16) (modbus_crc16 q XOR cfl_get_u16 [c, d]) = (crc16_shift ^^ 16) 0"
    by (simp only: zero)
  also have "\<dots> \<longleftrightarrow> modbus_crc16 q XOR cfl_get_u16 [c, d] = 0"
    by (auto dest: crc16.shifts_inj)
  also have "\<dots> \<longleftrightarrow> frame_crc_ok frame"
    by (simp add: frame frame_crc_ok_append word_xor_eq_0)
  finally show ?thesis by simp
qed

lemma crc16_burst:
  assumes "modbus_crc16 (xs @ [a, b] @ ys) = modbus_crc16 (xs @ [a', b'] @ ys)"
  shows "(a, b) = (a', b')"
proof -
  from assms have "(crc16_shift ^^ 16) (cfl_crc16_update 0xFFFF xs XOR cfl_get_u16 [a, b])
      = (crc16_shift ^^ 16) (cfl_crc16_update 0xFFFF xs XOR cfl_get_u16 [a', b'])"
    using modbus_crc16_append_inj [OF assms]
    by (simp only: crc16_two_bytes) (simp add: cfl_get_u16_def)
  then have "cfl_get_u16 [a, b] = cfl_get_u16 [a', b']"
    by (auto dest: crc16.shifts_inj simp: word_xor_cancel)
  then have "cfl_put_u16 (cfl_get_u16 [a, b]) = cfl_put_u16 (cfl_get_u16 [a', b'])" by simp
  then have "[a, b] = [a', b']" by (simp only: cfl_put_get_u16)
  then show ?thesis by simp
qed

lemma burst_breaks_frame:
  assumes "rtu p = xs @ [a, b] @ ys" "(a, b) \<noteq> (a', b')"
  shows "\<not> frame_crc_ok (xs @ [a', b'] @ ys)"
proof
  assume "frame_crc_ok (xs @ [a', b'] @ ys)"
  then have "modbus_crc16 (xs @ [a', b'] @ ys) = 0" by (subst (asm) frame_crc_ok_residue) auto
  moreover have "modbus_crc16 (xs @ [a, b] @ ys) = 0"
    using frame_crc_ok_rtu [of p] by (subst (asm) frame_crc_ok_residue) (auto simp: assms(1))
  ultimately have "(a, b) = (a', b')" using crc16_burst [of xs a b ys a' b'] by simp
  with assms(2) show False by simp
qed

text \<open>Nothing but the receive buffer, \<^verbatim>\<open>tx_len\<close> and the counters may change when a frame is dropped.\<close>

definition no_effect :: "'w modbus_slave \<Rightarrow> 'w modbus_slave \<Rightarrow> bool" where
  "no_effect s s' \<longleftrightarrow> ms_sent s' = ms_sent s \<and> ms_env s' = ms_env s \<and>
     slave_addr s' = slave_addr s \<and> ms_initialised s' = ms_initialised s \<and>
     tx_buf s' = tx_buf s \<and> ms_oob s' = ms_oob s \<and>
     successful_responses (stats s') = successful_responses (stats s) \<and>
     exception_responses (stats s') = exception_responses (stats s)"

lemma dropped_frame_no_effect:
  assumes "ms_initialised s" "length frame \<le> 256"
    and "length frame < 4 \<or> frame ! 0 \<noteq> slave_addr s \<or> \<not> frame_crc_ok frame"
  shows "fst (modbus_slave_process D frame s) = MODBUS_SLAVE_ERR_OK"
    and "no_effect s (snd (modbus_slave_process D frame s))"
  using assms by (auto simp: process_eq Let_def no_effect_def get_rx_frame_def)

text \<open>C13: a valid frame hit by a transmission error in two neighbouring bytes, anywhere in the frame
  (address, payload or the CRC itself), never reaches the registers: nothing is sent and nothing
  but a diagnostic counter changes.\<close>

theorem corrupted_frame_dropped:
  assumes "ms_initialised s" "length p \<le> 254"
    and "rtu p = xs @ [a, b] @ ys" "(a, b) \<noteq> (a', b')"
  shows "fst (modbus_slave_process D (xs @ [a', b'] @ ys) s) = MODBUS_SLAVE_ERR_OK \<and>
         no_effect s (snd (modbus_slave_process D (xs @ [a', b'] @ ys) s))"
proof -
  have "length (xs @ [a', b'] @ ys) = length (rtu p)" using assms(3) by simp
  then have "length (xs @ [a', b'] @ ys) \<le> 256" using assms(2) by simp
  with assms burst_breaks_frame [OF assms(3, 4)] show ?thesis
    by (intro conjI dropped_frame_no_effect) auto
qed

section \<open>Replies\<close>

text \<open>The values a read request asks for, or the exception code of the first failing register.\<close>

fun reg_values :: "(u16 \<Rightarrow> slave_err \<times> u16) \<Rightarrow> u16 \<Rightarrow> nat \<Rightarrow> u8 + u16 list" where
  "reg_values rd a 0 = Inr []"
| "reg_values rd a (Suc n) =
     (if fst (rd a) = MODBUS_SLAVE_ERR_INVALID_ADDR then Inl 0x02
      else if fst (rd a) = MODBUS_SLAVE_ERR_DEVICE_FAIL then Inl 0x04
      else map_sum id (\<lambda>vs. snd (rd a) # vs) (reg_values rd (a + 1) n))"

definition read_reply :: "u8 \<Rightarrow> u8 \<Rightarrow> u8 + u16 list \<Rightarrow> u8 list" where
  "read_reply addr fc r =
     (case r of Inl code \<Rightarrow> exception_frame addr fc code
      | Inr vs \<Rightarrow> addr # fc # of_nat (2 * length vs) # concat (map be16 vs))"

lemma reg_values_length: "reg_values rd a n = Inr vs \<Longrightarrow> length vs = n"
  by (induction n arbitrary: a vs)
     (auto split: if_splits simp: map_sum_def split: sum.splits)

text \<open>Only the transmit buffer's contents differ.\<close>

definition tx_only :: "'w modbus_slave \<Rightarrow> 'w modbus_slave \<Rightarrow> bool" where
  "tx_only s t \<longleftrightarrow> t = s\<lparr>tx_buf := tx_buf t\<rparr> \<and> length (tx_buf t) = length (tx_buf s)"

lemma tx_only_refl [simp]: "tx_only s s"
  by (simp add: tx_only_def)

lemma tx_only_put [intro]: "i < 256 \<Longrightarrow> tx_only s t \<Longrightarrow> tx_only s (tx_put i b t)"
  by (cases s; cases t) (auto simp: tx_only_def tx_put_def)

lemma tx_only_trans: "tx_only s t \<Longrightarrow> tx_only t u \<Longrightarrow> tx_only s u"
  by (cases s; cases t; cases u) (auto simp: tx_only_def)

lemma tx_only_fields:
  "tx_only s t \<Longrightarrow> slave_addr t = slave_addr s \<and> ms_env t = ms_env s \<and> stats t = stats s \<and>
     ms_sent t = ms_sent s \<and> ms_oob t = ms_oob s \<and> rx_buf t = rx_buf s \<and> tx_len t = tx_len s \<and>
     rx_len t = rx_len s \<and> ms_initialised t = ms_initialised s \<and>
     length (tx_buf t) = length (tx_buf s)"
  by (cases s; cases t) (auto simp: tx_only_def)

lemma tx_prefix_put2:
  assumes "tx_prefix f s" "length f + 1 < 256" "i = length f"
  shows "tx_prefix (f @ [b, c]) (tx_put (i + 1) c (tx_put i b s))"
  using tx_prefix_put [OF tx_prefix_put [OF assms(1) _ assms(3), of b], of "i + 1" c] assms
  by simp

definition reg_read ::
  "(u16 \<Rightarrow> 'w \<Rightarrow> slave_err \<times> u16) \<Rightarrow> (u16 \<Rightarrow> 'w \<Rightarrow> slave_err \<times> u16) \<Rightarrow> u8 \<Rightarrow> 'w \<Rightarrow> u16 \<Rightarrow>
   slave_err \<times> u16"
where
  "reg_read in_value hold_value fc w a = (if fc = 0x04 then in_value a w else hold_value a w)"

declare read_regs.simps(2) [simp del]

text \<open>
  The contract of the injected register map: a read is a function of the rest of the system and
  changes nothing; a write leaves the protocol state alone (except the own address).
\<close>

locale modbus_map =
  fixes D :: "'w reg_map"
    and in_value :: "u16 \<Rightarrow> 'w \<Rightarrow> slave_err \<times> u16"
    and hold_value :: "u16 \<Rightarrow> 'w \<Rightarrow> slave_err \<times> u16"
  assumes read_input: "rm_read_input D a s = (in_value a (ms_env s), s)"
    and read_holding: "rm_read_holding D a s = (hold_value a (ms_env s), s)"
    and write_frame: "same_frame s (snd (rm_write_holding D a v s))"
    and block_frame: "rm_write_block D = Some wb \<Longrightarrow> same_frame s (snd (wb a vs s))"
begin

lemma read_regs_Suc:
  "read_regs D fc start i (Suc n) s =
     (let (err, v) = reg_read in_value hold_value fc (ms_env s) (start + of_nat i)
      in if err = MODBUS_SLAVE_ERR_INVALID_ADDR then (err, build_exception_response fc 0x02 s)
         else if err = MODBUS_SLAVE_ERR_DEVICE_FAIL then (err, build_exception_response fc 0x04 s)
         else read_regs D fc start (i + 1) n
                (tx_put (3 + i * 2 + 1) (lo8 v) (tx_put (3 + i * 2) (hi8 v) s)))"
  by (simp add: read_regs.simps(2) reg_read_def read_input read_holding split_def Let_def)

lemma read_regs_spec:
  assumes "tx_prefix pre s" "length pre = 3 + 2 * i" "i + n \<le> 125"
  shows "\<exists>t. tx_only s t \<and>
    (case reg_values (reg_read in_value hold_value fc (ms_env s)) (start + of_nat i) n of
       Inl code \<Rightarrow> (\<exists>e. e \<noteq> MODBUS_SLAVE_ERR_OK \<and>
                     read_regs D fc start i n s = (e, build_exception_response fc code t))
     | Inr vs \<Rightarrow> read_regs D fc start i n s = (MODBUS_SLAVE_ERR_OK, t) \<and>
                 tx_prefix (pre @ concat (map be16 vs)) t)"
  using assms
proof (induction n arbitrary: pre i s)
  case 0
  then show ?case by (intro exI [of _ s]) simp
next
  case (Suc n)
  obtain err v where r: "reg_read in_value hold_value fc (ms_env s) (start + of_nat i) = (err, v)" by fastforce
  show ?case
  proof (cases "err = MODBUS_SLAVE_ERR_INVALID_ADDR \<or> err = MODBUS_SLAVE_ERR_DEVICE_FAIL")
    case True
    then show ?thesis by (intro exI [of _ s]) (auto simp: r read_regs_Suc)
  next
    case False
    define s' where "s' = tx_put (3 + i * 2 + 1) (lo8 v) (tx_put (3 + i * 2) (hi8 v) s)"
    have s': "tx_only s s'" "ms_env s' = ms_env s"
      using Suc.prems(3) unfolding s'_def by (auto intro!: tx_only_put)
    have "tx_prefix (pre @ be16 v) s'"
      using Suc.prems unfolding s'_def be16_def by (intro tx_prefix_put2) auto
    from Suc.IH [OF this, of "i + 1"] Suc.prems obtain t where t: "tx_only s' t"
      "case reg_values (reg_read in_value hold_value fc (ms_env s)) (start + of_nat (i + 1)) n of
       Inl code \<Rightarrow> (\<exists>e. e \<noteq> MODBUS_SLAVE_ERR_OK \<and>
                     read_regs D fc start (i + 1) n s' = (e, build_exception_response fc code t))
     | Inr vs \<Rightarrow> read_regs D fc start (i + 1) n s' = (MODBUS_SLAVE_ERR_OK, t) \<and>
                 tx_prefix ((pre @ be16 v) @ concat (map be16 vs)) t"
      by (auto simp: be16_def s'(2))
    have "read_regs D fc start i (Suc n) s = read_regs D fc start (i + 1) n s'"
      using False by (simp add: read_regs_Suc r s'_def)
    moreover have "tx_only s t" using s'(1) t(1) by (rule tx_only_trans)
    moreover have "reg_values (reg_read in_value hold_value fc (ms_env s)) (start + of_nat i) (Suc n) =
        map_sum id (\<lambda>vs. v # vs) (reg_values (reg_read in_value hold_value fc (ms_env s)) (start + of_nat (i + 1)) n)"
      using False by (simp add: r ac_simps)
    ultimately show ?thesis
      using t(2) by (intro exI [of _ t]) (auto split: sum.splits simp: map_sum_def)
  qed
qed

lemma read_reply_ready:
  assumes "length (tx_buf s) = 256" "1 \<le> unat cnt" "unat cnt \<le> 125"
    and rep_def: "rep = read_reply (slave_addr s) fc
      (reg_values (reg_read in_value hold_value fc (ms_env s)) start (unat cnt))"
    and s'_def: "s' = snd (build_read_response D fc start cnt s)"
  shows "reply_ready rep s'" "ms_env s' = ms_env s" "slave_addr s' = slave_addr s"
    "ms_sent s' = ms_sent s" "ms_oob s' = ms_oob s"
proof -
  let ?vals = "reg_values (reg_read in_value hold_value fc (ms_env s)) start (unat cnt)"
  let ?b = "ucast (cnt * 2) :: u8"
  have "unat (cnt * 2) = 2 * unat cnt"
    using assms(3) by (simp add: unat_word_ariths)
  then have b1: "unat ?b = 2 * unat cnt"
    using assms(3) by (simp add: unsigned_ucast_eq take_bit_nat_eq_self)
  have "of_nat (unat ?b) = ?b" by simp
  then have b: "unat ?b = 2 * unat cnt" "?b = of_nat (2 * unat cnt)"
    using b1 by (simp_all only: b1)
  have cnt: "cnt \<noteq> 0" "\<not> cnt > 128" using assms by (auto simp: word_less_nat_alt)
  define s1 where "s1 = tx_put 2 ?b (tx_put 1 fc (tx_put 0 (slave_addr s) s))"
  have "tx_prefix [slave_addr s, fc, ?b] s1"
    using tx_prefix_put2 [of "[]" s 0 "slave_addr s" fc] assms(1)
      tx_prefix_put [of "[slave_addr s, fc]" "tx_put 1 fc (tx_put 0 (slave_addr s) s)" 2 ?b]
    by (simp add: tx_prefix_Nil s1_def)
  from read_regs_spec [OF this, of 0 "unat cnt" fc start] assms(3) obtain t where
    t: "tx_only s1 t" and
    r: "case ?vals of
       Inl code \<Rightarrow> (\<exists>e. e \<noteq> MODBUS_SLAVE_ERR_OK \<and>
          read_regs D fc start 0 (unat cnt) s1 = (e, build_exception_response fc code t))
     | Inr vs \<Rightarrow> read_regs D fc start 0 (unat cnt) s1 = (MODBUS_SLAVE_ERR_OK, t) \<and>
          tx_prefix ([slave_addr s, fc, ?b] @ concat (map be16 vs)) t"
    by (auto simp: s1_def)
  have tf: "slave_addr t = slave_addr s" "ms_env t = ms_env s" "ms_sent t = ms_sent s"
    "ms_oob t = ms_oob s" "length (tx_buf t) = 256"
    using tx_only_fields [OF t] assms(1) by (simp_all add: s1_def)
  have "reply_ready rep s' \<and> ms_env s' = ms_env s \<and> slave_addr s' = slave_addr s \<and>
    ms_sent s' = ms_sent s \<and> ms_oob s' = ms_oob s"
  proof (cases ?vals)
    case (Inl code)
    with r have s': "s' = build_exception_response fc code t"
      by (auto simp: s'_def build_read_response_def Let_def cnt s1_def)
    show ?thesis
      using exception_reply [of t fc code] tf by (simp add: s' rep_def read_reply_def Inl)
  next
    case (Inr vs)
    define f where "f = [slave_addr s, fc, ?b] @ concat (map be16 vs)"
    have len: "length vs = unat cnt" using Inr by (rule reg_values_length)
    have lf: "length f = 3 + 2 * unat cnt" by (simp add: f_def len nth_concat_be16)
    have "unat (3 + ucast x :: u16) = 3 + unat x" "unat (3 + ucast x + 2 :: u16) = 5 + unat x"
      for x :: u8
      using unat_u8_less [of x] by (simp_all add: unat_word_ariths del: unat_u8_less)
    from this(1) [of ?b] this(2) [of ?b]
    have pdu: "unat (3 + ucast ?b :: u16) = length f" "unat (3 + ucast ?b + 2 :: u16) = length f + 2"
      by (simp_all only: b1 lf)
    from r Inr have s': "s' = (let u = append_crc (length f) t\<lparr>tx_len := 3 + ucast ?b + 2\<rparr> in
        u\<lparr>stats := (stats u)\<lparr>successful_responses := successful_responses (stats u) + 1\<rparr>\<rparr>)"
      by (simp add: s'_def build_read_response_def Let_def cnt s1_def pdu)
    have "tx_prefix f t" using r Inr by (simp add: f_def)
    then have "tx_prefix (rtu f) (append_crc (length f) t)"
      using assms(3) by (intro append_crc_prefix) (simp_all add: lf)
    moreover have "rep = f" using len by (simp add: rep_def read_reply_def Inr f_def b)
    ultimately show ?thesis
      using tf assms(2,3) pdu by (simp add: s' Let_def reply_ready_def tx_prefix_def lf)
  qed
  then show "reply_ready rep s'" "ms_env s' = ms_env s" "slave_addr s' = slave_addr s"
    "ms_sent s' = ms_sent s" "ms_oob s' = ms_oob s" by simp_all
qed

end

section \<open>Exactly one answer per accepted frame\<close>

text \<open>A handler has answered: there is something to send and exactly one response was counted.\<close>

definition answered :: "'w modbus_slave \<Rightarrow> 'w modbus_slave \<Rightarrow> bool" where
  "answered s s' \<longleftrightarrow> tx_len s' \<noteq> 0 \<and> ms_sent s' = ms_sent s \<and>
     valid_frames (stats s') = valid_frames (stats s) \<and>
     crc_errors (stats s') = crc_errors (stats s) \<and>
     address_mismatches (stats s') = address_mismatches (stats s) \<and>
     exception_responses (stats s') + successful_responses (stats s') =
       exception_responses (stats s) + successful_responses (stats s) + 1"

lemma tx_len_builders [simp]:
  "tx_len (build_exception_response fc code s) = 5" "tx_len (send_ack fc w1 w2 s) = 8"
  by (simp_all add: build_exception_response_def send_ack_def Let_def)

lemma exception_answered:
  "stats t = stats s \<Longrightarrow> ms_sent t = ms_sent s \<Longrightarrow> answered s (build_exception_response fc code t)"
  by (simp add: answered_def)

lemma write_result_answered:
  assumes "stats t = stats s" "ms_sent t = ms_sent s"
  shows "answered s (snd (write_result fc err t (send_ack fc w1 w2)))"
  using assms by (auto simp: write_result_def answered_def)

lemma write_result_fields [simp]:
  "ms_env (snd (write_result fc err s (send_ack fc w1 w2))) = ms_env s"
  "slave_addr (snd (write_result fc err s (send_ack fc w1 w2))) = slave_addr s"
  "ms_oob (snd (write_result fc err s (send_ack fc w1 w2))) = ms_oob s"
  "ms_sent (snd (write_result fc err s (send_ack fc w1 w2))) = ms_sent s"
  "rx_buf (snd (write_result fc err s (send_ack fc w1 w2))) = rx_buf s"
  "ms_initialised (snd (write_result fc err s (send_ack fc w1 w2))) = ms_initialised s"
  "length (tx_buf (snd (write_result fc err s (send_ack fc w1 w2)))) = length (tx_buf s)"
  by (auto simp: write_result_def)

text \<open>The reply to a write: an exception for the three register errors, the echo otherwise.\<close>

definition write_reply :: "u8 \<Rightarrow> u8 \<Rightarrow> slave_err \<Rightarrow> u16 \<Rightarrow> u16 \<Rightarrow> u8 list" where
  "write_reply addr fc err w1 w2 =
     (if err = MODBUS_SLAVE_ERR_INVALID_ADDR then exception_frame addr fc 0x02
      else if err = MODBUS_SLAVE_ERR_INVALID_VALUE then exception_frame addr fc 0x03
      else if err = MODBUS_SLAVE_ERR_DEVICE_FAIL then exception_frame addr fc 0x04
      else ack_frame addr fc w1 w2)"

lemma write_result_reply_ready:
  assumes "length (tx_buf s) = 256"
  shows "reply_ready (write_reply (slave_addr s) fc err w1 w2)
           (snd (write_result fc err s (send_ack fc w1 w2)))"
  using exception_reply [OF assms] ack_reply [OF assms]
  by (auto simp: write_result_def write_reply_def)

context modbus_map
begin

lemma read_regs_answer:
  "case read_regs D fc start i n s of (err, t) \<Rightarrow>
     ms_sent t = ms_sent s \<and>
     (if err = MODBUS_SLAVE_ERR_OK then stats t = stats s else answered s t)"
proof (induction n arbitrary: i s)
  case (Suc n)
  obtain err v where r: "reg_read in_value hold_value fc (ms_env s) (start + of_nat i) = (err, v)"
    by fastforce
  show ?case
    using Suc.IH [where i = "i + 1" and s = "tx_put (3 + i * 2 + 1) (lo8 v) (tx_put (3 + i * 2) (hi8 v) s)"]
    by (auto simp: read_regs_Suc r answered_def split: if_splits)
qed simp

lemma build_read_response_answered: "answered s (snd (build_read_response D fc start cnt s))"
proof (cases "cnt = 0 \<or> cnt > 128")
  case True
  then show ?thesis
    by (auto simp: build_read_response_def intro: exception_answered)
next
  case False
  define b where "b = (ucast (cnt * 2) :: u8)"
  define s1 where "s1 = tx_put 2 b (tx_put (Suc 0) fc (tx_put 0 (slave_addr s) s))"
  obtain err t where r: "read_regs D fc start 0 (unat cnt) s1 = (err, t)" by fastforce
  have s1: "stats s1 = stats s" "ms_sent s1 = ms_sent s" by (simp_all add: s1_def)
  have "unat (3 + ucast b + 2 :: u16) = unat b + 5"
    using unat_u8_less [of b] by (simp add: unat_word_ariths del: unat_u8_less)
  then have "(3 + ucast b + 2 :: u16) \<noteq> 0" by auto
  then have pos: "(5 + ucast b :: u16) \<noteq> 0" by (simp add: ac_simps)
  show ?thesis
    using False read_regs_answer [where fc = fc and start = start and i = 0 and n = "unat cnt" and s = s1] pos
    by (auto simp: build_read_response_def Let_def r b_def [symmetric] s1_def [symmetric]
        answered_def s1 split: if_splits)
qed

lemma write_regs_answer:
  "stats (snd (write_regs D start i n s)) = stats s \<and> ms_sent (snd (write_regs D start i n s)) = ms_sent s"
proof (induction n arbitrary: i s)
  case (Suc n)
  let ?s1 = "rx_touch (7 + i * 2 + 1) s"
  obtain err t where "rm_write_holding D (start + of_nat i) (rx_be16 (7 + i * 2) s) ?s1 = (err, t)"
    by fastforce
  moreover from this have w:
    "rm_write_holding D (start + of_nat i) (rx_be16 (7 + i * 2) s) (rx_touch (8 + i * 2) s) = (err, t)"
    by simp
  ultimately have "same_frame ?s1 t" using write_frame [of ?s1] by (metis snd_conv)
  then have "stats t = stats s" "ms_sent t = ms_sent s"
    by (simp_all add: same_frame_def rx_touch_def split: if_splits)
  then show ?case using Suc.IH [of "i + 1" t] by (simp add: w)
qed simp

lemma build_write_single_answered: "answered s (snd (build_write_single_response D s))"
proof -
  obtain err t where w: "rm_write_holding D (rx_be16 2 s) (rx_be16 4 s) s = (err, t)" by fastforce
  have "same_frame s t" using write_frame [of s] w by (metis snd_conv)
  then show ?thesis
    by (simp add: build_write_single_response_def Let_def w write_result_answered same_frame_def)
qed

lemma build_write_multiple_answered: "answered s (snd (build_write_multiple_response D s))"
proof (cases "rm_write_block D")
  case None
  obtain err t where w: "write_regs D (rx_be16 2 s) 0 (unat (rx_be16 4 s)) s = (err, t)" by fastforce
  then have "stats t = stats s" "ms_sent t = ms_sent s"
    using write_regs_answer [of "rx_be16 2 s" 0 "unat (rx_be16 4 s)" s] by simp_all
  then show ?thesis
    by (simp add: build_write_multiple_response_def Let_def None w write_result_answered
        exception_answered)
next
  case (Some wb)
  let ?vals = "map (\<lambda>i. rx_be16 (7 + i * 2) s) [0..<unat (rx_be16 4 s)]"
  obtain err t where w: "wb (rx_be16 2 s) ?vals s = (err, t)" by fastforce
  have "same_frame s t" using block_frame [OF Some, of s] w by (metis snd_conv)
  then show ?thesis
    by (simp add: build_write_multiple_response_def Let_def Some w write_result_answered
        exception_answered same_frame_def)
qed

lemma dispatch_answered: "answered s (dispatch_fc D fc s)"
  using build_read_response_answered [of s] build_write_single_answered [of s]
    build_write_multiple_answered [of s] exception_answered [of s s fc 1]
  by (auto simp: dispatch_fc_def Let_def answered_def)

lemma one_answer_per_accepted_frame:
  assumes "ms_initialised s" "4 \<le> length frame" "length frame \<le> 256"
    "frame ! 0 = slave_addr s" "frame_crc_ok frame"
  shows "\<exists>reply. ms_sent (snd (modbus_slave_process D frame s)) = reply # ms_sent s"
proof -
  have "tx_len (dispatch_fc D (frame ! 1) (accepted frame s)) > 0"
    "ms_sent (dispatch_fc D (frame ! 1) (accepted frame s)) = ms_sent s"
    using dispatch_answered [of "accepted frame s" "frame ! 1"]
    by (simp_all add: answered_def word_gt_0)
  with assms show ?thesis
    by (auto simp: process_eq transmit_def Let_def)
qed

text \<open>The counters balance: every accepted frame was answered once.\<close>

lemma counters_balance:
  assumes "length frame \<le> 256"
    and "valid_frames (stats s) = exception_responses (stats s) + successful_responses (stats s)"
  defines "c \<equiv> stats (snd (modbus_slave_process D frame s))"
  shows "valid_frames c = exception_responses c + successful_responses c"
proof (cases "ms_initialised s")
  case True
  have "stats (transmit t) = stats t" for t :: "'w modbus_slave"
    by (simp add: transmit_def Let_def)
  then show ?thesis
    using True assms(1,2) dispatch_answered [of "accepted frame s" "frame ! 1"]
    by (auto simp: c_def process_eq Let_def answered_def get_rx_frame_def)
qed (use assms(2) in \<open>simp add: c_def modbus_slave_process_def\<close>)

end

section \<open>Requests and their replies\<close>

definition read_request :: "u8 \<Rightarrow> u8 \<Rightarrow> u16 \<Rightarrow> u16 \<Rightarrow> u8 list" where
  "read_request addr fc start cnt = addr # fc # be16 start @ be16 cnt"

definition write_request :: "u8 \<Rightarrow> u16 \<Rightarrow> u16 \<Rightarrow> u8 list" where
  "write_request addr reg v = addr # 0x06 # be16 reg @ be16 v"

definition block_request :: "u8 \<Rightarrow> u16 \<Rightarrow> u16 list \<Rightarrow> u8 list" where
  "block_request addr start vs =
     addr # 0x10 # be16 start @ be16 (of_nat (length vs)) @ of_nat (2 * length vs) #
       concat (map be16 vs)"

definition slave_wf :: "'w modbus_slave \<Rightarrow> bool" where
  "slave_wf s \<longleftrightarrow> ms_initialised s \<and> length (rx_buf s) = 256 \<and> length (tx_buf s) = 256 \<and> \<not> ms_oob s"

text \<open>What a request leaves behind: the reply sent, the environment and address of \<open>t\<close>.\<close>

definition served :: "u8 list \<Rightarrow> 'w modbus_slave \<Rightarrow> 'w modbus_slave \<Rightarrow> 'w modbus_slave \<Rightarrow> bool" where
  "served reply t s s' \<longleftrightarrow> slave_wf s' \<and> ms_sent s' = rtu reply # ms_sent s \<and>
     ms_env s' = ms_env t \<and> slave_addr s' = slave_addr t"

lemma accepted_wf:
  "slave_wf s \<Longrightarrow> length p \<le> 254 \<Longrightarrow> slave_wf (accepted (rtu p) s)"
  by (simp add: slave_wf_def accepted_def get_rx_frame_def)

lemma process_rtu:
  assumes "slave_wf s" "2 \<le> length p" "length p \<le> 254" "p ! 0 = slave_addr s"
  shows "modbus_slave_process D (rtu p) s =
    (MODBUS_SLAVE_ERR_OK, transmit (dispatch_fc D (p ! 1) (accepted (rtu p) s)))"
proof -
  have "rtu p ! 0 = p ! 0" "rtu p ! 1 = p ! 1"
    using assms(2) by (auto simp: rtu_def nth_append)
  with assms show ?thesis by (simp add: process_eq slave_wf_def Let_def)
qed

lemma servedI:
  assumes "reply_ready f t'" "ms_env t' = ms_env t" "slave_addr t' = slave_addr t"
    "ms_sent t' = ms_sent s" "\<not> ms_oob t'" "ms_initialised t'" "length (rx_buf t') = 256"
  shows "served f t s (transmit t')"
  unfolding transmit_ready [OF assms(1)]
  using assms by (simp add: served_def slave_wf_def reply_ready_def tx_prefix_def)

lemma rx_be16_rtu:
  assumes "i + 1 < length p" "p ! i = hi8 v" "p ! (i + 1) = lo8 v"
  shows "rx_be16 i (accepted (rtu p) s) = v"
  using assms by (simp add: rx_be16_def rtu_def nth_append)

lemma read_regs_static:
  assumes "\<And>a t. same_frame t (snd (rm_read_input D a t))" "\<And>a t. same_frame t (snd (rm_read_holding D a t))"
  shows "ms_initialised (snd (read_regs D fc start i n s)) = ms_initialised s \<and>
         rx_buf (snd (read_regs D fc start i n s)) = rx_buf s"
proof (induction n arbitrary: i s)
  case (Suc n)
  obtain e v t where r: "(if fc = 0x04 then rm_read_input D (start + of_nat i) s
                     else rm_read_holding D (start + of_nat i) s) = ((e, v), t)" by (metis surj_pair)
  then have "same_frame s t"
    using assms(1) [of s "start + of_nat i"] assms(2) [of s "start + of_nat i"]
    by (auto split: if_splits)
  then show ?case
    using Suc.IH [where i = "i + 1" and s = "tx_put (3 + i * 2 + 1) (lo8 v) (tx_put (3 + i * 2) (hi8 v) t)"]
    by (simp add: read_regs.simps(2) r same_frame_def Let_def)
qed simp

lemma build_read_static:
  assumes "\<And>a t. same_frame t (snd (rm_read_input D a t))" "\<And>a t. same_frame t (snd (rm_read_holding D a t))"
  shows "ms_initialised (snd (build_read_response D fc start cnt s)) = ms_initialised s"
    "rx_buf (snd (build_read_response D fc start cnt s)) = rx_buf s"
  using read_regs_static [OF assms, where fc = fc and start = start and i = 0 and n = "unat cnt"
      and s = "tx_put 2 (ucast (cnt * 2)) (tx_put (Suc 0) fc (tx_put 0 (slave_addr s) s))"]
  by (auto simp: build_read_response_def Let_def split: prod.splits)

context modbus_map
begin

lemma process_read:
  assumes "slave_wf s" "fc = 0x03 \<or> fc = 0x04" "1 \<le> unat cnt" "unat cnt \<le> 125"
  shows "served (read_reply (slave_addr s) fc
                  (reg_values (reg_read in_value hold_value fc (ms_env s)) start (unat cnt)))
           s s (snd (modbus_slave_process D (rtu (read_request (slave_addr s) fc start cnt)) s))"
proof -
  define p where "p = read_request (slave_addr s) fc start cnt"
  define a where "a = accepted (rtu p) s"
  have p: "length p = 6" "p ! 0 = slave_addr s" "p ! 1 = fc" "p ! 2 = hi8 start"
    "p ! 3 = lo8 start" "p ! 4 = hi8 cnt" "p ! 5 = lo8 cnt"
    by (simp_all add: p_def read_request_def be16_def)
  have be: "rx_be16 2 a = start" "rx_be16 4 a = cnt"
    unfolding a_def by (rule rx_be16_rtu; simp add: p)+
  have d: "dispatch_fc D fc a = snd (build_read_response D fc start cnt a)"
    using assms(2) by (auto simp: dispatch_fc_def be)
  have wf: "slave_wf a" unfolding a_def using assms(1) p by (intro accepted_wf) simp_all
  have a: "slave_addr a = slave_addr s" "ms_env a = ms_env s" "ms_sent a = ms_sent s"
    by (simp_all add: a_def)
  note rr = read_reply_ready [OF _ assms(3,4) refl refl, of a fc start]
  have "served (read_reply (slave_addr a) fc
      (reg_values (reg_read in_value hold_value fc (ms_env a)) start (unat cnt)))
      s s (transmit (dispatch_fc D fc a))"
    unfolding d
  proof (rule servedI)
    show "length (rx_buf (snd (build_read_response D fc start cnt a))) = 256"
      "ms_initialised (snd (build_read_response D fc start cnt a))"
      using wf by (simp_all add: build_read_static read_input read_holding slave_wf_def)
  qed (use rr wf a in \<open>simp_all add: slave_wf_def\<close>)
  then show ?thesis
    unfolding p_def [symmetric] using assms(1) p
    by (simp add: process_rtu a a_def [symmetric])
qed

lemma process_write:
  assumes "slave_wf s" "frame = rtu (write_request (slave_addr s) reg v)"
    and w: "rm_write_holding D reg v (accepted frame s) = (err, t)"
  shows "served (write_reply (slave_addr t) 0x06 err reg v) t s (snd (modbus_slave_process D frame s))"
proof -
  define p where "p = write_request (slave_addr s) reg v"
  define a where "a = accepted (rtu p) s"
  have p: "length p = 6" "p ! 0 = slave_addr s" "p ! 1 = 0x06" "p ! 2 = hi8 reg"
    "p ! 3 = lo8 reg" "p ! 4 = hi8 v" "p ! 5 = lo8 v"
    by (simp_all add: p_def write_request_def be16_def)
  have be: "rx_be16 2 a = reg" "rx_be16 4 a = v"
    unfolding a_def by (rule rx_be16_rtu; simp add: p)+
  have w': "rm_write_holding D reg v a = (err, t)" using w by (simp add: a_def assms(2) p_def)
  have d: "dispatch_fc D 0x06 a = snd (write_result 0x06 err t (send_ack 0x06 reg v))"
    by (simp add: dispatch_fc_def build_write_single_response_def be w')
  have wf: "slave_wf a" unfolding a_def using assms(1) p by (intro accepted_wf) simp_all
  have "same_frame a t" using write_frame [of a reg v] w' by simp
  then have t: "slave_wf t" "ms_sent t = ms_sent s"
    using wf by (simp_all add: same_frame_def slave_wf_def a_def)
  have "served (write_reply (slave_addr t) 0x06 err reg v) t s (transmit (dispatch_fc D 0x06 a))"
    unfolding d by (rule servedI) (use t in \<open>simp_all add: slave_wf_def write_result_reply_ready\<close>)
  then show ?thesis
    using assms(1) p unfolding assms(2) p_def [symmetric]
    by (simp add: process_rtu a_def [symmetric])
qed

lemma process_block:
  assumes "slave_wf s" "frame = rtu (block_request (slave_addr s) start vs)"
    and "rm_write_block D = Some wb" "1 \<le> length vs" "length vs \<le> 123"
    and w: "wb start vs (accepted frame s) = (err, t)"
  shows "served (write_reply (slave_addr t) 0x10 err start (of_nat (length vs))) t s
           (snd (modbus_slave_process D frame s))"
proof -
  define p where "p = block_request (slave_addr s) start vs"
  define a where "a = accepted (rtu p) s"
  let ?n = "of_nat (length vs) :: u16"
  have un: "unat ?n = length vs" using assms(5) by (simp add: unsigned_of_nat take_bit_nat_eq_self)
  have "?n \<noteq> 0" using un assms(4) by auto
  then have n: "unat ?n = length vs" "?n \<noteq> 0" "\<not> ?n > 123"
    using assms(5) un by (simp_all add: word_less_nat_alt)
  have p: "length p = 7 + 2 * length vs" "p ! 0 = slave_addr s" "p ! 1 = 0x10" "p ! 2 = hi8 start"
    "p ! 3 = lo8 start" "p ! 4 = hi8 ?n" "p ! 5 = lo8 ?n" "p ! 6 = of_nat (2 * length vs)"
    by (simp_all add: p_def block_request_def be16_def nth_concat_be16)
  have pv: "p ! (7 + i * 2) = hi8 (vs ! i)" "p ! (7 + i * 2 + 1) = lo8 (vs ! i)" if "i < length vs" for i
    using that nth_concat_be16(2,3) [of i vs] by (simp_all add: p_def block_request_def be16_def ac_simps)
  have be: "rx_be16 2 a = start" "rx_be16 4 a = ?n"
    unfolding a_def by (rule rx_be16_rtu; simp add: p)+
  have "map (\<lambda>i. rx_be16 (7 + i * 2) a) [0..<length vs] = map (\<lambda>i. vs ! i) [0..<length vs]"
    unfolding a_def by (rule map_cong [OF refl], rule rx_be16_rtu) (use p pv in auto)
  then have vals: "map (\<lambda>i. rx_be16 (7 + i * 2) a) [0..<length vs] = vs" by (simp add: map_nth)
  have "rx_at 6 a = of_nat (2 * length vs)"
    using p by (simp add: a_def rtu_def nth_append)
  moreover have "(ucast (?n * 2) :: u8) = of_nat (2 * length vs)"
    using assms(5)
    by (intro unsigned_word_eqI [where 'a = nat])
       (simp add: unat_word_ariths unsigned_ucast_eq unsigned_of_nat take_bit_nat_eq_self)
  moreover have w': "wb start vs a = (err, t)" using w by (simp add: a_def assms(2) p_def)
  ultimately have d: "dispatch_fc D 0x10 a = snd (write_result 0x10 err t (send_ack 0x10 start ?n))"
    using n by (simp add: dispatch_fc_def build_write_multiple_response_def Let_def be assms(3) vals)
  have wf: "slave_wf a" unfolding a_def using assms p by (intro accepted_wf) simp_all
  have "same_frame a t" using block_frame [OF assms(3), of a start vs] w' by simp
  then have t: "slave_wf t" "ms_sent t = ms_sent s"
    using wf by (simp_all add: same_frame_def slave_wf_def a_def)
  have "served (write_reply (slave_addr t) 0x10 err start ?n) t s (transmit (dispatch_fc D 0x10 a))"
    unfolding d by (rule servedI) (use t in \<open>simp_all add: slave_wf_def write_result_reply_ready\<close>)
  then show ?thesis
    using assms(1,5) p unfolding assms(2) p_def [symmetric]
    by (simp add: process_rtu a_def [symmetric])
qed

text \<open>What every register write keeps of the rest of the system, every frame keeps.\<close>

lemma read_regs_env: "ms_env (snd (read_regs D fc start i n s)) = ms_env s"
proof (induction n arbitrary: i s)
  case (Suc n)
  then show ?case by (simp add: read_regs_Suc Let_def split: prod.splits)
qed simp

lemma write_regs_keeps:
  assumes "\<And>a v s. I (ms_env s) \<Longrightarrow> I (ms_env (snd (rm_write_holding D a v s)))"
  shows "I (ms_env s) \<Longrightarrow> I (ms_env (snd (write_regs D start i n s)))"
proof (induction n arbitrary: i s)
  case (Suc n)
  have "ms_env (rx_touch k s) = ms_env s" for k by (simp add: rx_touch_def)
  with assms [of "rx_touch (7 + i * 2 + 1) s"] Suc show ?case
    by (simp add: Let_def split: prod.splits) (metis snd_conv)
qed simp

lemma process_keeps:
  assumes w: "\<And>a v s. I (ms_env s) \<Longrightarrow> I (ms_env (snd (rm_write_holding D a v s)))"
    and b: "\<And>wb a vs s. rm_write_block D = Some wb \<Longrightarrow> I (ms_env s) \<Longrightarrow> I (ms_env (snd (wb a vs s)))"
    and I: "I (ms_env s)"
  shows "I (ms_env (snd (modbus_slave_process D frame s)))"
proof -
  have read: "ms_env (snd (build_read_response D fc start cnt t)) = ms_env t" for fc start cnt t
    using read_regs_env [of fc start 0 "unat cnt" "tx_put 2 (ucast (cnt * 2)) (tx_put (Suc 0) fc (tx_put 0 (slave_addr t) t))"]
    by (auto simp: build_read_response_def Let_def split: prod.splits)
  have res: "ms_env (snd (write_result fc err t (send_ack fc x y))) = ms_env t" for fc err t x y
    by (simp add: write_result_def send_ack_def Let_def)
  have single: "I (ms_env t) \<Longrightarrow> I (ms_env (snd (build_write_single_response D t)))" for t
    using w [of t] by (auto simp: build_write_single_response_def Let_def res split: prod.splits) (metis snd_conv)
  have multi: "I (ms_env t) \<Longrightarrow> I (ms_env (snd (build_write_multiple_response D t)))" for t
    using write_regs_keeps [of I t "rx_be16 2 t" 0 "unat (rx_be16 4 t)", OF w] b [of _ t]
    by (auto simp: build_write_multiple_response_def Let_def res split: prod.splits option.splits)
       (metis snd_conv)+
  have "I (ms_env t) \<Longrightarrow> I (ms_env (dispatch_fc D fc t))" for fc t
    using single multi by (simp add: dispatch_fc_def Let_def read)
  moreover have "ms_env (transmit t) = ms_env t" for t :: "'w modbus_slave"
    by (simp add: transmit_def Let_def)
  moreover have "ms_env (get_rx_frame frame t) = ms_env t" for t :: "'w modbus_slave"
    by (simp add: get_rx_frame_def)
  ultimately show ?thesis
    using I by (simp add: modbus_slave_process_def Let_def)
qed

end

end
