(* ===== verification/Config_Service.thy ===== *)
theory Config_Service
  imports Bytes_CRC
begin

text \<open>
  ConfigService of the Field Device (\<^verbatim>\<open>application/config_service/config_service.c\<close>): the live
  parameters, their validation, persistence and snapshot.

  The state is the C struct \<^verbatim>\<open>ConfigServiceState\<close>; the mutex is not modelled (operations are
  sequential here) and everything outside the service is a value \<open>'w\<close>, on which the injected
  store (\<^verbatim>\<open>iconfig_store_t.save\<close>) and the registered callbacks work.  The parameter value behind
  \<^verbatim>\<open>const void *value\<close> is the little-endian 32-bit word at that address: a narrower object
  occupies its low bytes, and the code reads exactly the bytes of its type.  Signed 16-bit fields
  are 16-bit words read through \<^verbatim>\<open>sint\<close>.
\<close>

section \<open>Data\<close>

datatype config_service_err =
    CONFIG_SERVICE_OK
  | CONFIG_SERVICE_ERR_NOT_INIT
  | CONFIG_SERVICE_ERR_NULL_ARG
  | CONFIG_SERVICE_ERR_INVALID
  | CONFIG_SERVICE_ERR_PERSIST

datatype config_param_id =
    CONFIG_PARAM_POLL_INTERVAL
  | CONFIG_PARAM_FILTER_ALPHA
  | CONFIG_PARAM_TEMP_RANGE_MIN
  | CONFIG_PARAM_TEMP_RANGE_MAX
  | CONFIG_PARAM_HUMIDITY_RANGE_MIN
  | CONFIG_PARAM_HUMIDITY_RANGE_MAX
  | CONFIG_PARAM_PRESSURE_RANGE_MIN
  | CONFIG_PARAM_PRESSURE_RANGE_MAX
  | CONFIG_PARAM_TEMP_ALARM_HIGH
  | CONFIG_PARAM_TEMP_ALARM_LOW
  | CONFIG_PARAM_TEMP_HYSTERESIS
  | CONFIG_PARAM_HUMIDITY_ALARM_HIGH
  | CONFIG_PARAM_HUMIDITY_ALARM_LOW
  | CONFIG_PARAM_HUMIDITY_HYSTERESIS
  | CONFIG_PARAM_PRESSURE_ALARM_HIGH
  | CONFIG_PARAM_PRESSURE_ALARM_LOW
  | CONFIG_PARAM_PRESSURE_HYSTERESIS
  | CONFIG_PARAM_MODBUS_SLAVE_ADDR
  | CONFIG_PARAM_MODBUS_POLL_PERIOD
  | CONFIG_PARAM_COUNT

record config_params =
  polling_interval_ms :: u32
  filter_alpha :: u16
  temp_range_min :: u16
  temp_range_max :: u16
  humidity_range_min :: u16
  humidity_range_max :: u16
  pressure_range_min :: u16
  pressure_range_max :: u16
  temp_alarm_high :: u16
  temp_alarm_low :: u16
  temp_hysteresis :: u16
  humidity_alarm_high :: u16
  humidity_alarm_low :: u16
  humidity_hysteresis :: u16
  pressure_alarm_high :: u16
  pressure_alarm_low :: u16
  pressure_hysteresis :: u16
  modbus_slave_addr :: u8
  modbus_poll_period_ms :: u32

record config_blob =
  schema_version :: u32
  blob_params :: config_params

text \<open>The packed struct \<^verbatim>\<open>config_blob_t\<close> in memory: 45 bytes, little endian.\<close>

definition config_params_bytes :: "config_params \<Rightarrow> u8 list" where
  "config_params_bytes p =
     cfl_put_u32 (polling_interval_ms p) @ cfl_put_u16 (filter_alpha p) @
     cfl_put_u16 (temp_range_min p) @ cfl_put_u16 (temp_range_max p) @
     cfl_put_u16 (humidity_range_min p) @ cfl_put_u16 (humidity_range_max p) @
     cfl_put_u16 (pressure_range_min p) @ cfl_put_u16 (pressure_range_max p) @
     cfl_put_u16 (temp_alarm_high p) @ cfl_put_u16 (temp_alarm_low p) @
     cfl_put_u16 (temp_hysteresis p) @
     cfl_put_u16 (humidity_alarm_high p) @ cfl_put_u16 (humidity_alarm_low p) @
     cfl_put_u16 (humidity_hysteresis p) @
     cfl_put_u16 (pressure_alarm_high p) @ cfl_put_u16 (pressure_alarm_low p) @
     cfl_put_u16 (pressure_hysteresis p) @
     [modbus_slave_addr p] @ cfl_put_u32 (modbus_poll_period_ms p)"

definition config_blob_bytes :: "config_blob \<Rightarrow> u8 list" where
  "config_blob_bytes b = cfl_put_u32 (schema_version b) @ config_params_bytes (blob_params b)"

definition config_blob_read :: "u8 list \<Rightarrow> config_blob" where
  "config_blob_read m =
    \<lparr>schema_version = cfl_get_u32 m,
     blob_params =
       \<lparr>polling_interval_ms = cfl_get_u32 (drop 4 m), filter_alpha = cfl_get_u16 (drop 8 m),
        temp_range_min = cfl_get_u16 (drop 10 m), temp_range_max = cfl_get_u16 (drop 12 m),
        humidity_range_min = cfl_get_u16 (drop 14 m), humidity_range_max = cfl_get_u16 (drop 16 m),
        pressure_range_min = cfl_get_u16 (drop 18 m), pressure_range_max = cfl_get_u16 (drop 20 m),
        temp_alarm_high = cfl_get_u16 (drop 22 m), temp_alarm_low = cfl_get_u16 (drop 24 m),
        temp_hysteresis = cfl_get_u16 (drop 26 m),
        humidity_alarm_high = cfl_get_u16 (drop 28 m), humidity_alarm_low = cfl_get_u16 (drop 30 m),
        humidity_hysteresis = cfl_get_u16 (drop 32 m),
        pressure_alarm_high = cfl_get_u16 (drop 34 m), pressure_alarm_low = cfl_get_u16 (drop 36 m),
        pressure_hysteresis = cfl_get_u16 (drop 38 m),
        modbus_slave_addr = m ! 40, modbus_poll_period_ms = cfl_get_u32 (drop 41 m)\<rparr>\<rparr>"

definition CONFIG_SCHEMA_VERSION :: u32 where "CONFIG_SCHEMA_VERSION = 1"
definition CONFIG_SERVICE_MAX_CALLBACKS :: nat where "CONFIG_SERVICE_MAX_CALLBACKS = 4"

text \<open>
  The store's \<^verbatim>\<open>save\<close> takes the bytes of the blob and returns whether it succeeded
  (\<^verbatim>\<open>CONFIG_STORE_OK\<close>).  A callback gets the parameter id and may read the live parameters
  (\<^verbatim>\<open>config_service_get_params\<close>).
\<close>

record 'w config_service =
  cs_initialised :: bool
  params :: config_params
  snapshot :: config_params
  snapshot_valid :: bool
  cs_save :: "u8 list \<Rightarrow> 'w \<Rightarrow> bool \<times> 'w"
  cs_callbacks :: "(config_param_id \<Rightarrow> config_params \<Rightarrow> 'w \<Rightarrow> 'w) list"

section \<open>Defaults and validation\<close>

definition apply_defaults :: config_params where
  "apply_defaults =
    \<lparr>polling_interval_ms = 1000, filter_alpha = 100,
     temp_range_min = -4000, temp_range_max = 8500,
     humidity_range_min = 0, humidity_range_max = 10000,
     pressure_range_min = 3000, pressure_range_max = 11000,
     temp_alarm_high = 4000, temp_alarm_low = 0, temp_hysteresis = 100,
     humidity_alarm_high = 8000, humidity_alarm_low = 2000, humidity_hysteresis = 200,
     pressure_alarm_high = 10500, pressure_alarm_low = 9500, pressure_hysteresis = 50,
     modbus_slave_addr = 1, modbus_poll_period_ms = 1000\<rparr>"

definition as_u16 :: "u32 \<Rightarrow> u16" where "as_u16 v = ucast v"
definition as_u8 :: "u32 \<Rightarrow> u8" where "as_u8 v = ucast v"

text \<open>\<open>w32\<close> is the promotion of a 16-bit field to \<^verbatim>\<open>uint32_t\<close>.\<close>

definition w32 :: "u16 \<Rightarrow> u32" where "w32 v = ucast v"

definition valid_if :: "bool \<Rightarrow> config_service_err" where
  "valid_if b = (if b then CONFIG_SERVICE_OK else CONFIG_SERVICE_ERR_INVALID)"

fun validate_param_internal :: "config_param_id \<Rightarrow> u32 \<Rightarrow> config_params \<Rightarrow> config_service_err" where
  "validate_param_internal CONFIG_PARAM_POLL_INTERVAL v cur = valid_if (v \<ge> 100 \<and> v \<le> 60000)"
| "validate_param_internal CONFIG_PARAM_FILTER_ALPHA v cur =
     valid_if (as_u16 v > 0 \<and> as_u16 v < 1000)"
| "validate_param_internal CONFIG_PARAM_TEMP_RANGE_MIN v cur =
     valid_if (sint (as_u16 v) \<ge> -5500 \<and> sint (as_u16 v) \<le> sint (temp_range_max cur) - 100)"
| "validate_param_internal CONFIG_PARAM_TEMP_RANGE_MAX v cur =
     valid_if (sint (as_u16 v) \<ge> sint (temp_range_min cur) + 100 \<and> sint (as_u16 v) \<le> 12500)"
| "validate_param_internal CONFIG_PARAM_HUMIDITY_RANGE_MIN v cur =
     valid_if (w32 (as_u16 v) + 100 \<le> w32 (humidity_range_max cur))"
| "validate_param_internal CONFIG_PARAM_HUMIDITY_RANGE_MAX v cur =
     valid_if (w32 (as_u16 v) \<le> 10000 \<and> w32 (as_u16 v) \<ge> w32 (humidity_range_min cur) + 100)"
| "validate_param_internal CONFIG_PARAM_PRESSURE_RANGE_MIN v cur =
     valid_if (w32 (as_u16 v) + 10 \<le> w32 (pressure_range_max cur))"
| "validate_param_internal CONFIG_PARAM_PRESSURE_RANGE_MAX v cur =
     valid_if (w32 (as_u16 v) \<le> 12000 \<and> w32 (as_u16 v) \<ge> w32 (pressure_range_min cur) + 10)"
| "validate_param_internal CONFIG_PARAM_TEMP_ALARM_HIGH v cur =
     valid_if (sint (as_u16 v) \<ge> sint (temp_range_min cur) \<and>
               sint (as_u16 v) \<le> sint (temp_range_max cur) \<and>
               sint (as_u16 v) > sint (temp_alarm_low cur) + sint (temp_hysteresis cur))"
| "validate_param_internal CONFIG_PARAM_TEMP_ALARM_LOW v cur =
     valid_if (sint (as_u16 v) \<ge> sint (temp_range_min cur) \<and>
               sint (as_u16 v) + sint (temp_hysteresis cur) < sint (temp_alarm_high cur))"
| "validate_param_internal CONFIG_PARAM_TEMP_HYSTERESIS v cur =
     (let span = sint (temp_alarm_high cur) - sint (temp_alarm_low cur)
      in valid_if (sint (as_u16 v) > 0 \<and> 2 * sint (as_u16 v) < span))"
| "validate_param_internal CONFIG_PARAM_HUMIDITY_ALARM_HIGH v cur =
     valid_if (w32 (as_u16 v) \<ge> w32 (humidity_range_min cur) \<and>
               w32 (as_u16 v) \<le> w32 (humidity_range_max cur) \<and>
               w32 (as_u16 v) > w32 (humidity_alarm_low cur) + w32 (humidity_hysteresis cur))"
| "validate_param_internal CONFIG_PARAM_HUMIDITY_ALARM_LOW v cur =
     valid_if (w32 (as_u16 v) \<ge> w32 (humidity_range_min cur) \<and>
               w32 (as_u16 v) + w32 (humidity_hysteresis cur) < w32 (humidity_alarm_high cur))"
| "validate_param_internal CONFIG_PARAM_HUMIDITY_HYSTERESIS v cur =
     (let span = w32 (humidity_alarm_high cur) - w32 (humidity_alarm_low cur)
      in valid_if (w32 (as_u16 v) > 0 \<and> 2 * w32 (as_u16 v) < span))"
| "validate_param_internal CONFIG_PARAM_PRESSURE_ALARM_HIGH v cur =
     valid_if (w32 (as_u16 v) \<ge> w32 (pressure_range_min cur) \<and>
               w32 (as_u16 v) \<le> w32 (pressure_range_max cur) \<and>
               w32 (as_u16 v) > w32 (pressure_alarm_low cur) + w32 (pressure_hysteresis cur))"
| "validate_param_internal CONFIG_PARAM_PRESSURE_ALARM_LOW v cur =
     valid_if (w32 (as_u16 v) \<ge> w32 (pressure_range_min cur) \<and>
               w32 (as_u16 v) + w32 (pressure_hysteresis cur) < w32 (pressure_alarm_high cur))"
| "validate_param_internal CONFIG_PARAM_PRESSURE_HYSTERESIS v cur =
     (let span = w32 (pressure_alarm_high cur) - w32 (pressure_alarm_low cur)
      in valid_if (w32 (as_u16 v) > 0 \<and> 2 * w32 (as_u16 v) < span))"
| "validate_param_internal CONFIG_PARAM_MODBUS_SLAVE_ADDR v cur =
     valid_if (as_u8 v \<ge> 1 \<and> as_u8 v \<le> 247)"
| "validate_param_internal CONFIG_PARAM_MODBUS_POLL_PERIOD v cur =
     valid_if (v \<ge> 100 \<and> v \<le> 60000)"
| "validate_param_internal CONFIG_PARAM_COUNT v cur = CONFIG_SERVICE_ERR_INVALID"

fun apply_param_to_struct :: "config_params \<Rightarrow> config_param_id \<Rightarrow> u32 \<Rightarrow> config_params" where
  "apply_param_to_struct p CONFIG_PARAM_POLL_INTERVAL v = p\<lparr>polling_interval_ms := v\<rparr>"
| "apply_param_to_struct p CONFIG_PARAM_FILTER_ALPHA v = p\<lparr>filter_alpha := as_u16 v\<rparr>"
| "apply_param_to_struct p CONFIG_PARAM_TEMP_RANGE_MIN v = p\<lparr>temp_range_min := as_u16 v\<rparr>"
| "apply_param_to_struct p CONFIG_PARAM_TEMP_RANGE_MAX v = p\<lparr>temp_range_max := as_u16 v\<rparr>"
| "apply_param_to_struct p CONFIG_PARAM_HUMIDITY_RANGE_MIN v = p\<lparr>humidity_range_min := as_u16 v\<rparr>"
| "apply_param_to_struct p CONFIG_PARAM_HUMIDITY_RANGE_MAX v = p\<lparr>humidity_range_max := as_u16 v\<rparr>"
| "apply_param_to_struct p CONFIG_PARAM_PRESSURE_RANGE_MIN v = p\<lparr>pressure_range_min := as_u16 v\<rparr>"
| "apply_param_to_struct p CONFIG_PARAM_PRESSURE_RANGE_MAX v = p\<lparr>pressure_range_max := as_u16 v\<rparr>"
| "apply_param_to_struct p CONFIG_PARAM_TEMP_ALARM_HIGH v = p\<lparr>temp_alarm_high := as_u16 v\<rparr>"
| "apply_param_to_struct p CONFIG_PARAM_TEMP_ALARM_LOW v = p\<lparr>temp_alarm_low := as_u16 v\<rparr>"
| "apply_param_to_struct p CONFIG_PARAM_TEMP_HYSTERESIS v = p\<lparr>temp_hysteresis := as_u16 v\<rparr>"
| "apply_param_to_struct p CONFIG_PARAM_HUMIDITY_ALARM_HIGH v = p\<lparr>humidity_alarm_high := as_u16 v\<rparr>"
| "apply_param_to_struct p CONFIG_PARAM_HUMIDITY_ALARM_LOW v = p\<lparr>humidity_alarm_low := as_u16 v\<rparr>"
| "apply_param_to_struct p CONFIG_PARAM_HUMIDITY_HYSTERESIS v = p\<lparr>humidity_hysteresis := as_u16 v\<rparr>"
| "apply_param_to_struct p CONFIG_PARAM_PRESSURE_ALARM_HIGH v = p\<lparr>pressure_alarm_high := as_u16 v\<rparr>"
| "apply_param_to_struct p CONFIG_PARAM_PRESSURE_ALARM_LOW v = p\<lparr>pressure_alarm_low := as_u16 v\<rparr>"
| "apply_param_to_struct p CONFIG_PARAM_PRESSURE_HYSTERESIS v = p\<lparr>pressure_hysteresis := as_u16 v\<rparr>"
| "apply_param_to_struct p CONFIG_PARAM_MODBUS_SLAVE_ADDR v = p\<lparr>modbus_slave_addr := as_u8 v\<rparr>"
| "apply_param_to_struct p CONFIG_PARAM_MODBUS_POLL_PERIOD v = p\<lparr>modbus_poll_period_ms := v\<rparr>"
| "apply_param_to_struct p CONFIG_PARAM_COUNT v = p"

section \<open>Loading a stored configuration\<close>

text \<open>The field checks of \<^verbatim>\<open>config_service_apply_loaded\<close>, in their order.\<close>

definition sanitise_acquisition :: "config_params \<Rightarrow> config_params" where
  "sanitise_acquisition c =
     (let c = (if polling_interval_ms c < 100 \<or> polling_interval_ms c > 60000
               then c\<lparr>polling_interval_ms := 1000\<rparr> else c)
      in if filter_alpha c = 0 \<or> filter_alpha c \<ge> 1000 then c\<lparr>filter_alpha := 100\<rparr> else c)"

definition sanitise_ranges :: "config_params \<Rightarrow> config_params" where
  "sanitise_ranges c =
     (let c = (if sint (temp_range_min c) < -5500 \<or>
                  sint (temp_range_min c) \<ge> sint (temp_range_max c) - 100
               then c\<lparr>temp_range_min := -4000\<rparr> else c);
          c = (if sint (temp_range_max c) > 12500 \<or>
                  sint (temp_range_max c) \<le> sint (temp_range_min c) + 100
               then c\<lparr>temp_range_max := 8500\<rparr> else c);
          c = (if w32 (humidity_range_min c) + 100 > w32 (humidity_range_max c)
               then c\<lparr>humidity_range_min := 0\<rparr> else c);
          c = (if humidity_range_max c > 10000 \<or>
                  w32 (humidity_range_max c) < w32 (humidity_range_min c) + 100
               then c\<lparr>humidity_range_max := 10000\<rparr> else c);
          c = (if w32 (pressure_range_min c) + 10 > w32 (pressure_range_max c)
               then c\<lparr>pressure_range_min := 3000\<rparr> else c)
      in if pressure_range_max c > 12000 \<or>
            w32 (pressure_range_max c) < w32 (pressure_range_min c) + 10
         then c\<lparr>pressure_range_max := 11000\<rparr> else c)"

definition sanitise_temp_alarm :: "config_params \<Rightarrow> config_params" where
  "sanitise_temp_alarm c =
     (let c = (if sint (temp_alarm_high c) < sint (temp_range_min c) \<or>
                  sint (temp_alarm_high c) > sint (temp_range_max c)
               then c\<lparr>temp_alarm_high := 4000\<rparr> else c);
          c = (if sint (temp_alarm_low c) < sint (temp_range_min c) \<or>
                  sint (temp_alarm_low c) \<ge> sint (temp_alarm_high c)
               then c\<lparr>temp_alarm_low := 0\<rparr> else c)
      in if sint (temp_hysteresis c) \<le> 0 \<or>
            2 * sint (temp_hysteresis c) \<ge> sint (temp_alarm_high c) - sint (temp_alarm_low c)
         then c\<lparr>temp_hysteresis := 100\<rparr> else c)"

definition sanitise_humidity_alarm :: "config_params \<Rightarrow> config_params" where
  "sanitise_humidity_alarm c =
     (let c = (if w32 (humidity_alarm_high c) < w32 (humidity_range_min c) \<or>
                  w32 (humidity_alarm_high c) > w32 (humidity_range_max c)
               then c\<lparr>humidity_alarm_high := 8000\<rparr> else c);
          c = (if w32 (humidity_alarm_low c) < w32 (humidity_range_min c) \<or>
                  w32 (humidity_alarm_low c) \<ge> w32 (humidity_alarm_high c)
               then c\<lparr>humidity_alarm_low := 2000\<rparr> else c)
      in if humidity_hysteresis c = 0 \<or>
            2 * w32 (humidity_hysteresis c) \<ge> w32 (humidity_alarm_high c) - w32 (humidity_alarm_low c)
         then c\<lparr>humidity_hysteresis := 200\<rparr> else c)"

definition sanitise_pressure_alarm :: "config_params \<Rightarrow> config_params" where
  "sanitise_pressure_alarm c =
     (let c = (if w32 (pressure_alarm_high c) < w32 (pressure_range_min c) \<or>
                  w32 (pressure_alarm_high c) > w32 (pressure_range_max c)
               then c\<lparr>pressure_alarm_high := 10500\<rparr> else c);
          c = (if w32 (pressure_alarm_low c) < w32 (pressure_range_min c) \<or>
                  w32 (pressure_alarm_low c) \<ge> w32 (pressure_alarm_high c)
               then c\<lparr>pressure_alarm_low := 9500\<rparr> else c)
      in if pressure_hysteresis c = 0 \<or>
            2 * w32 (pressure_hysteresis c) \<ge> w32 (pressure_alarm_high c) - w32 (pressure_alarm_low c)
         then c\<lparr>pressure_hysteresis := 50\<rparr> else c)"

definition sanitise_modbus :: "config_params \<Rightarrow> config_params" where
  "sanitise_modbus c =
     (let c = (if modbus_slave_addr c < 1 \<or> modbus_slave_addr c > 247
               then c\<lparr>modbus_slave_addr := 1\<rparr> else c)
      in if modbus_poll_period_ms c < 100 \<or> modbus_poll_period_ms c > 60000
         then c\<lparr>modbus_poll_period_ms := 1000\<rparr> else c)"

definition sanitise :: "config_params \<Rightarrow> config_params" where
  "sanitise c = sanitise_modbus (sanitise_pressure_alarm (sanitise_humidity_alarm
     (sanitise_temp_alarm (sanitise_ranges (sanitise_acquisition c)))))"

section \<open>Operations\<close>

definition config_service_get_params :: "'w config_service \<Rightarrow> config_params option" where
  "config_service_get_params c = (if \<not> cs_initialised c then None else Some (params c))"

definition zero_params :: config_params where
  "zero_params =
    \<lparr>polling_interval_ms = 0, filter_alpha = 0, temp_range_min = 0, temp_range_max = 0,
     humidity_range_min = 0, humidity_range_max = 0, pressure_range_min = 0,
     pressure_range_max = 0, temp_alarm_high = 0, temp_alarm_low = 0, temp_hysteresis = 0,
     humidity_alarm_high = 0, humidity_alarm_low = 0, humidity_hysteresis = 0,
     pressure_alarm_high = 0, pressure_alarm_low = 0, pressure_hysteresis = 0,
     modbus_slave_addr = 0, modbus_poll_period_ms = 0\<rparr>"

definition config_service_init ::
  "(u8 list \<Rightarrow> 'w \<Rightarrow> bool \<times> 'w) option \<Rightarrow> 'w config_service \<Rightarrow> config_service_err \<times> 'w config_service"
where
  "config_service_init store c =
     (case store of None \<Rightarrow> (CONFIG_SERVICE_ERR_NULL_ARG, c)
      | Some save \<Rightarrow>
          (CONFIG_SERVICE_OK,
           \<lparr>cs_initialised = True, params = apply_defaults, snapshot = zero_params,
            snapshot_valid = False, cs_save = save, cs_callbacks = []\<rparr>))"

definition config_service_apply_loaded ::
  "u8 list option \<Rightarrow> nat \<Rightarrow> 'w config_service \<Rightarrow> config_service_err \<times> 'w config_service"
where
  "config_service_apply_loaded blob len c =
     (if \<not> cs_initialised c then (CONFIG_SERVICE_ERR_NOT_INIT, c)
      else case blob of None \<Rightarrow> (CONFIG_SERVICE_ERR_NULL_ARG, c)
      | Some m \<Rightarrow>
          if len < 45 then (CONFIG_SERVICE_ERR_INVALID, c)
          else
            let b = config_blob_read m
            in if schema_version b \<noteq> CONFIG_SCHEMA_VERSION
               then (CONFIG_SERVICE_OK, c\<lparr>params := apply_defaults\<rparr>)
               else (CONFIG_SERVICE_OK, c\<lparr>params := sanitise (blob_params b)\<rparr>))"

definition persist_to_store :: "'w config_service \<Rightarrow> 'w \<Rightarrow> config_service_err \<times> 'w" where
  "persist_to_store c w =
     (let (ok, w) = cs_save c (config_blob_bytes
            \<lparr>schema_version = CONFIG_SCHEMA_VERSION, blob_params = params c\<rparr>) w
      in if \<not> ok then (CONFIG_SERVICE_ERR_PERSIST, w) else (CONFIG_SERVICE_OK, w))"

definition fire_callbacks :: "config_param_id \<Rightarrow> 'w config_service \<Rightarrow> 'w \<Rightarrow> 'w" where
  "fire_callbacks pid c w = fold (\<lambda>cb. cb pid (params c)) (cs_callbacks c) w"

definition config_service_set_param ::
  "config_param_id \<Rightarrow> u32 option \<Rightarrow> 'w config_service \<Rightarrow> 'w \<Rightarrow>
   config_service_err \<times> 'w config_service \<times> 'w"
where
  "config_service_set_param pid val c w =
     (if \<not> cs_initialised c then (CONFIG_SERVICE_ERR_NOT_INIT, c, w)
      else case val of None \<Rightarrow> (CONFIG_SERVICE_ERR_NULL_ARG, c, w)
      | Some v \<Rightarrow>
          let v_err = validate_param_internal pid v (params c)
          in if v_err \<noteq> CONFIG_SERVICE_OK then (v_err, c, w)
             else
               let c = c\<lparr>params := apply_param_to_struct (params c) pid v\<rparr>;
                   (p_err, w) = persist_to_store c w
               in if p_err = CONFIG_SERVICE_OK then (p_err, c, fire_callbacks pid c w)
                  else (p_err, c, w))"

definition config_service_validate_param ::
  "config_param_id \<Rightarrow> u32 option \<Rightarrow> 'w config_service \<Rightarrow> config_service_err" where
  "config_service_validate_param pid val c =
     (if \<not> cs_initialised c then CONFIG_SERVICE_ERR_NOT_INIT
      else case val of None \<Rightarrow> CONFIG_SERVICE_ERR_NULL_ARG
      | Some v \<Rightarrow> validate_param_internal pid v (params c))"

definition config_service_snapshot :: "'w config_service \<Rightarrow> config_service_err \<times> 'w config_service" where
  "config_service_snapshot c =
     (if \<not> cs_initialised c then (CONFIG_SERVICE_ERR_NOT_INIT, c)
      else (CONFIG_SERVICE_OK, c\<lparr>snapshot := params c, snapshot_valid := True\<rparr>))"

definition config_service_restore_snapshot ::
  "'w config_service \<Rightarrow> 'w \<Rightarrow> config_service_err \<times> 'w config_service \<times> 'w" where
  "config_service_restore_snapshot c w =
     (if \<not> cs_initialised c then (CONFIG_SERVICE_ERR_NOT_INIT, c, w)
      else if \<not> snapshot_valid c then (CONFIG_SERVICE_ERR_INVALID, c, w)
      else
        let c = c\<lparr>params := snapshot c\<rparr>;
            (err, w) = persist_to_store c w
        in (err, c, w))"

definition config_service_flush :: "'w config_service \<Rightarrow> 'w \<Rightarrow> config_service_err \<times> 'w" where
  "config_service_flush c w =
     (if \<not> cs_initialised c then (CONFIG_SERVICE_ERR_NOT_INIT, w) else persist_to_store c w)"

definition config_service_register_change_callback ::
  "(config_param_id \<Rightarrow> config_params \<Rightarrow> 'w \<Rightarrow> 'w) option \<Rightarrow> 'w config_service \<Rightarrow>
   config_service_err \<times> 'w config_service"
where
  "config_service_register_change_callback cb c =
     (case cb of None \<Rightarrow> (CONFIG_SERVICE_ERR_NULL_ARG, c)
      | Some f \<Rightarrow>
          if length (cs_callbacks c) \<ge> CONFIG_SERVICE_MAX_CALLBACKS
          then (CONFIG_SERVICE_ERR_INVALID, c)
          else (CONFIG_SERVICE_OK, c\<lparr>cs_callbacks := cs_callbacks c @ [f]\<rparr>))"

section \<open>Validity\<close>

text \<open>What the accepted writes keep true of the live parameters.\<close>

definition band_ok :: "int \<Rightarrow> int \<Rightarrow> int \<Rightarrow> bool" where
  "band_ok low hyst high \<longleftrightarrow> 0 < hyst \<and> low + hyst < high"

definition params_ok :: "config_params \<Rightarrow> bool" where
  "params_ok p \<longleftrightarrow>
     100 \<le> polling_interval_ms p \<and> polling_interval_ms p \<le> 60000 \<and>
     0 < filter_alpha p \<and> filter_alpha p < 1000 \<and>
     -5500 \<le> sint (temp_range_min p) \<and> sint (temp_range_min p) + 100 \<le> sint (temp_range_max p) \<and>
     sint (temp_range_max p) \<le> 12500 \<and>
     uint (humidity_range_min p) + 100 \<le> uint (humidity_range_max p) \<and>
     uint (humidity_range_max p) \<le> 10000 \<and>
     uint (pressure_range_min p) + 10 \<le> uint (pressure_range_max p) \<and>
     uint (pressure_range_max p) \<le> 12000 \<and>
     band_ok (sint (temp_alarm_low p)) (sint (temp_hysteresis p)) (sint (temp_alarm_high p)) \<and>
     band_ok (uint (humidity_alarm_low p)) (uint (humidity_hysteresis p)) (uint (humidity_alarm_high p)) \<and>
     band_ok (uint (pressure_alarm_low p)) (uint (pressure_hysteresis p)) (uint (pressure_alarm_high p)) \<and>
     1 \<le> modbus_slave_addr p \<and> modbus_slave_addr p \<le> 247 \<and>
     100 \<le> modbus_poll_period_ms p \<and> modbus_poll_period_ms p \<le> 60000"

text \<open>The 32-bit comparisons of the code, as comparisons of the 16-bit values.\<close>

lemma uint_u16_bounds: "0 \<le> uint (v :: u16)" "uint (v :: u16) < 65536"
  using unsigned_less [of v, where 'a = int] by simp_all

lemma uint_w32 [simp]: "uint (w32 v) = uint v"
  using uint_u16_bounds [of v]
  by (simp add: w32_def unsigned_ucast_eq take_bit_int_eq_self_iff)

lemma uint_w32_plus:
  "uint (w32 a + w32 b) = uint a + uint b"
  "uint (w32 a + 100) = uint a + 100" "uint (w32 a + 10) = uint a + 10"
  "uint (2 * w32 a) = 2 * uint a"
  using uint_u16_bounds [of a] uint_u16_bounds [of b] by (simp_all add: uint_word_ariths)

lemma uint_w32_minus:
  assumes "uint l \<le> uint h"
  shows "uint (w32 h - w32 l) = uint h - uint l"
proof -
  have "0 \<le> uint h - uint l" "uint h - uint l < 4294967296"
    using assms uint_u16_bounds [of l] uint_u16_bounds [of h] by linarith+
  then show ?thesis by (simp add: uint_word_ariths)
qed

lemmas w32_simps = word_le_def word_less_def uint_w32_plus

text \<open>
  Every accepted write keeps the parameters valid: the range gap, the alarm band wider than the
  hysteresis, and all absolute bounds.
\<close>

lemma apply_param_ok:
  assumes "params_ok p" "validate_param_internal pid v p = CONFIG_SERVICE_OK"
  shows "params_ok (apply_param_to_struct p pid v)"
proof -
  have valid: "valid_if b = CONFIG_SERVICE_OK \<longleftrightarrow> b" for b by (simp add: valid_if_def)
  have h: "uint (humidity_alarm_low p) \<le> uint (humidity_alarm_high p)"
    "uint (pressure_alarm_low p) \<le> uint (pressure_alarm_high p)"
    using assms(1) by (auto simp: params_ok_def band_ok_def)
  show ?thesis
    using assms h by (cases pid) (auto simp: params_ok_def band_ok_def valid w32_simps uint_w32_minus)
qed

lemma defaults_ok: "params_ok apply_defaults"
  by (simp add: params_ok_def band_ok_def apply_defaults_def)

lemma fire_callbacks_params: "fst (snd (config_service_set_param pid val c w)) =
    (if cs_initialised c \<and> (\<exists>v. val = Some v \<and> validate_param_internal pid v (params c) = CONFIG_SERVICE_OK)
     then c\<lparr>params := apply_param_to_struct (params c) pid (the val)\<rparr> else c)"
  by (auto simp: config_service_set_param_def Let_def split: option.splits prod.splits)

text \<open>Every call of \<^verbatim>\<open>config_service_set_param\<close>, whatever the parameter, the value or the
  outcome of the flash write, keeps the live configuration valid (bounds, range gaps and alarm
  bands), and a rejected call leaves the service and the rest of the system untouched.\<close>

theorem set_param_keeps_valid:
  assumes "params_ok (params c)"
  shows "case config_service_set_param pid val c w of (err, c', w') \<Rightarrow>
           params_ok (params c') \<and>
           (err = CONFIG_SERVICE_ERR_INVALID \<or> err = CONFIG_SERVICE_ERR_NULL_ARG \<or>
            err = CONFIG_SERVICE_ERR_NOT_INIT \<longrightarrow> c' = c \<and> w' = w)"
  using assms apply_param_ok [OF assms, of pid]
  by (auto simp: config_service_set_param_def persist_to_store_def Let_def
      split: option.splits prod.splits if_splits)

definition demo_service :: "unit config_service" where
  "demo_service = \<lparr>cs_initialised = True, params = apply_defaults, snapshot = zero_params,
    snapshot_valid = False, cs_save = (\<lambda>_ w. (True, w)), cs_callbacks = []\<rparr>"

theorem set_param_keeps_valid_witness:
  "params_ok (params (fst (snd
     (config_service_set_param CONFIG_PARAM_TEMP_ALARM_HIGH (Some 4500) demo_service ()))))"
proof -
  have "params_ok (params demo_service)" by (simp add: demo_service_def defaults_ok)
  from set_param_keeps_valid [OF this, where pid = CONFIG_PARAM_TEMP_ALARM_HIGH
      and val = "Some 4500" and w = "()"]
  show ?thesis by (simp split: prod.splits)
qed

section \<open>Persistence and reload\<close>

lemma config_blob_read_bytes [simp]: "config_blob_read (config_blob_bytes b @ rest) = b"
proof -
  note puts = config_blob_bytes_def config_params_bytes_def
  have "modbus_slave_addr (blob_params b) = (config_blob_bytes b @ rest) ! 40"
    by (simp add: puts nth_append)
  then show ?thesis
    by (simp add: config_blob_read_def puts)
qed

text \<open>Configurations the loader accepts as they are: it asks a little more than the writes do.\<close>

definition params_loadable :: "config_params \<Rightarrow> bool" where
  "params_loadable p \<longleftrightarrow> params_ok p \<and>
     sint (temp_range_min p) + 100 < sint (temp_range_max p) \<and>
     sint (temp_range_min p) \<le> sint (temp_alarm_low p) \<and>
     sint (temp_alarm_high p) \<le> sint (temp_range_max p) \<and>
     2 * sint (temp_hysteresis p) < sint (temp_alarm_high p) - sint (temp_alarm_low p) \<and>
     uint (humidity_range_min p) \<le> uint (humidity_alarm_low p) \<and>
     uint (humidity_alarm_high p) \<le> uint (humidity_range_max p) \<and>
     2 * uint (humidity_hysteresis p) < uint (humidity_alarm_high p) - uint (humidity_alarm_low p) \<and>
     uint (pressure_range_min p) \<le> uint (pressure_alarm_low p) \<and>
     uint (pressure_alarm_high p) \<le> uint (pressure_range_max p) \<and>
     2 * uint (pressure_hysteresis p) < uint (pressure_alarm_high p) - uint (pressure_alarm_low p)"

lemma sanitise_loadable_parts:
  assumes "params_loadable p"
  shows "sanitise_acquisition p = p" "sanitise_ranges p = p" "sanitise_temp_alarm p = p"
    "sanitise_humidity_alarm p = p" "sanitise_pressure_alarm p = p" "sanitise_modbus p = p"
proof -
  note ok = assms [unfolded params_loadable_def params_ok_def band_ok_def]
  have nz: "humidity_hysteresis p \<noteq> 0" "pressure_hysteresis p \<noteq> 0" "filter_alpha p \<noteq> 0"
    using ok by auto
  have h: "uint (humidity_alarm_low p) \<le> uint (humidity_alarm_high p)"
    "uint (pressure_alarm_low p) \<le> uint (pressure_alarm_high p)"
    using ok by auto
  note span = uint_w32_minus [OF h(1)] uint_w32_minus [OF h(2)]
  show "sanitise_acquisition p = p"
    using ok nz(3) by (simp add: sanitise_acquisition_def w32_simps)
  show "sanitise_ranges p = p"
    using ok by (simp add: sanitise_ranges_def w32_simps)
  show "sanitise_temp_alarm p = p"
    using ok by (simp add: sanitise_temp_alarm_def)
  show "sanitise_humidity_alarm p = p"
    using ok by (simp add: sanitise_humidity_alarm_def nz w32_simps span)
  show "sanitise_pressure_alarm p = p"
    using ok by (simp add: sanitise_pressure_alarm_def nz w32_simps span)
  show "sanitise_modbus p = p"
    using ok by (simp add: sanitise_modbus_def w32_simps)
qed

lemma sanitise_loadable: "params_loadable p \<Longrightarrow> sanitise p = p"
  by (simp add: sanitise_def sanitise_loadable_parts)

lemma length_config_blob_bytes [simp]: "length (config_blob_bytes b) = 45"
  by (simp add: config_blob_bytes_def config_params_bytes_def)

text \<open>A configuration that satisfies the loader's conditions survives the trip through the flash
  blob: what \<^verbatim>\<open>persist_to_store\<close> writes, \<^verbatim>\<open>config_service_apply_loaded\<close> restores field by field,
  whatever follows the blob in the loader's buffer.\<close>

theorem persisted_config_reloads:
  assumes "params_loadable p" "cs_initialised d"
  shows "config_service_apply_loaded
           (Some (config_blob_bytes \<lparr>schema_version = CONFIG_SCHEMA_VERSION, blob_params = p\<rparr> @ rest))
           (45 + length rest) d = (CONFIG_SERVICE_OK, d\<lparr>params := p\<rparr>)"
  using assms by (simp add: config_service_apply_loaded_def Let_def sanitise_loadable)

lemma defaults_loadable: "params_loadable apply_defaults"
  using defaults_ok by (simp add: params_loadable_def apply_defaults_def)

theorem persisted_config_reloads_witness:
  "config_service_apply_loaded
     (Some (config_blob_bytes \<lparr>schema_version = CONFIG_SCHEMA_VERSION, blob_params = apply_defaults\<rparr> @ [0xFF]))
     (45 + length [0xFF :: u8]) demo_service = (CONFIG_SERVICE_OK, demo_service\<lparr>params := apply_defaults\<rparr>)"
  by (rule persisted_config_reloads [OF defaults_loadable]) (simp add: demo_service_def)

definition accepted_narrow_band :: "unit config_service" where
  "accepted_narrow_band =
     (let (_, c, w) = config_service_set_param CONFIG_PARAM_TEMP_HYSTERESIS (Some 140) demo_service ();
          (_, c, w) = config_service_set_param CONFIG_PARAM_TEMP_ALARM_HIGH (Some 150) c w
      in c)"

lemma accepted_narrow_band_eq:
  "accepted_narrow_band = demo_service\<lparr>params := apply_defaults\<lparr>temp_hysteresis := 140, temp_alarm_high := 150\<rparr>\<rparr>"
  by (simp add: accepted_narrow_band_def config_service_set_param_def demo_service_def valid_if_def
      as_u16_def apply_defaults_def persist_to_store_def fire_callbacks_def)

definition reloaded :: "config_params \<Rightarrow> config_params" where
  "reloaded p = params (snd (config_service_apply_loaded
     (Some (config_blob_bytes \<lparr>schema_version = CONFIG_SCHEMA_VERSION, blob_params = p\<rparr>)) 45
     demo_service))"

lemma reloaded_sanitise: "reloaded p = sanitise p"
  using config_blob_read_bytes [where rest = "[]"]
  by (simp add: reloaded_def config_service_apply_loaded_def demo_service_def Let_def)

lemmas sanitise_defs = sanitise_def sanitise_acquisition_def sanitise_ranges_def
  sanitise_temp_alarm_def sanitise_humidity_alarm_def sanitise_pressure_alarm_def
  sanitise_modbus_def w32_def

text \<open>The loader is stricter than the writes: after two accepted writes (hysteresis 1.4 degrees,
  then high threshold 1.5 degrees) the live configuration is valid and has been persisted, but
  reloading it at the next boot silently replaces the accepted hysteresis by the default.\<close>

theorem reload_changes_accepted_config:
  "params_ok (params accepted_narrow_band) \<and>
   temp_hysteresis (params accepted_narrow_band) = 140 \<and>
   temp_hysteresis (reloaded (params accepted_narrow_band)) = 100"
  by (simp add: accepted_narrow_band_eq reloaded_sanitise sanitise_defs apply_defaults_def
      params_ok_def band_ok_def)

text \<open>
  Which accepted writes a reload keeps.  \<open>reloadable\<close> is \<open>params_loadable\<close> without the loader's rule that
  an alarm band is wider than twice its hysteresis; where that rule fails, the loader puts the default
  hysteresis in place of the stored one.
\<close>

definition reloadable :: "config_params \<Rightarrow> bool" where
  "reloadable p \<longleftrightarrow> params_ok p \<and>
     sint (temp_range_min p) + 100 < sint (temp_range_max p) \<and>
     sint (temp_range_min p) \<le> sint (temp_alarm_low p) \<and>
     sint (temp_alarm_high p) \<le> sint (temp_range_max p) \<and>
     uint (humidity_range_min p) \<le> uint (humidity_alarm_low p) \<and>
     uint (humidity_alarm_high p) \<le> uint (humidity_range_max p) \<and>
     uint (pressure_range_min p) \<le> uint (pressure_alarm_low p) \<and>
     uint (pressure_alarm_high p) \<le> uint (pressure_range_max p)"

definition wide_temp_band :: "config_params \<Rightarrow> bool" where
  "wide_temp_band p \<longleftrightarrow> 2 * sint (temp_hysteresis p) < sint (temp_alarm_high p) - sint (temp_alarm_low p)"

definition wide_humidity_band :: "config_params \<Rightarrow> bool" where
  "wide_humidity_band p \<longleftrightarrow>
     2 * uint (humidity_hysteresis p) < uint (humidity_alarm_high p) - uint (humidity_alarm_low p)"

definition wide_pressure_band :: "config_params \<Rightarrow> bool" where
  "wide_pressure_band p \<longleftrightarrow>
     2 * uint (pressure_hysteresis p) < uint (pressure_alarm_high p) - uint (pressure_alarm_low p)"

lemmas wide_bands = wide_temp_band_def wide_humidity_band_def wide_pressure_band_def

definition default_narrow_bands :: "config_params \<Rightarrow> config_params" where
  "default_narrow_bands p = p\<lparr>
     temp_hysteresis := (if wide_temp_band p then temp_hysteresis p else 100),
     humidity_hysteresis := (if wide_humidity_band p then humidity_hysteresis p else 200),
     pressure_hysteresis := (if wide_pressure_band p then pressure_hysteresis p else 50)\<rparr>"

lemma loadable_reloadable:
  "params_loadable p \<longleftrightarrow> reloadable p \<and> wide_temp_band p \<and> wide_humidity_band p \<and> wide_pressure_band p"
  by (auto simp: params_loadable_def reloadable_def wide_bands)

lemma sanitise_temp_band:
  assumes "sint (temp_range_min p) \<le> sint (temp_alarm_low p)" "sint (temp_alarm_low p) < sint (temp_alarm_high p)"
    "sint (temp_alarm_high p) \<le> sint (temp_range_max p)" "0 < sint (temp_hysteresis p)"
  shows "sanitise_temp_alarm p = p\<lparr>temp_hysteresis := (if wide_temp_band p then temp_hysteresis p else 100)\<rparr>"
  using assms by (simp add: sanitise_temp_alarm_def wide_bands not_less)

lemma sanitise_humidity_band:
  assumes "uint (humidity_range_min p) \<le> uint (humidity_alarm_low p)"
    "uint (humidity_alarm_low p) < uint (humidity_alarm_high p)"
    "uint (humidity_alarm_high p) \<le> uint (humidity_range_max p)" "0 < uint (humidity_hysteresis p)"
  shows "sanitise_humidity_alarm p =
    p\<lparr>humidity_hysteresis := (if wide_humidity_band p then humidity_hysteresis p else 200)\<rparr>"
  using assms uint_w32_minus [of "humidity_alarm_low p" "humidity_alarm_high p"]
  by (auto simp: sanitise_humidity_alarm_def wide_bands w32_simps not_less)

lemma sanitise_pressure_band:
  assumes "uint (pressure_range_min p) \<le> uint (pressure_alarm_low p)"
    "uint (pressure_alarm_low p) < uint (pressure_alarm_high p)"
    "uint (pressure_alarm_high p) \<le> uint (pressure_range_max p)" "0 < uint (pressure_hysteresis p)"
  shows "sanitise_pressure_alarm p =
    p\<lparr>pressure_hysteresis := (if wide_pressure_band p then pressure_hysteresis p else 50)\<rparr>"
  using assms uint_w32_minus [of "pressure_alarm_low p" "pressure_alarm_high p"]
  by (auto simp: sanitise_pressure_alarm_def wide_bands w32_simps not_less)

lemma sanitise_reloadable:
  assumes "reloadable p"
  shows "sanitise p = default_narrow_bands p"
proof -
  note ok = assms [unfolded reloadable_def params_ok_def band_ok_def]
  have "sanitise_acquisition p = p" "sanitise_ranges p = p"
    using ok by (auto simp: sanitise_acquisition_def sanitise_ranges_def w32_simps)
  moreover have "sanitise_temp_alarm p =
      p\<lparr>temp_hysteresis := (if wide_temp_band p then temp_hysteresis p else 100)\<rparr>"
    by (rule sanitise_temp_band) (use ok in linarith)+
  moreover have "sanitise_humidity_alarm (p\<lparr>temp_hysteresis := t\<rparr>) = p\<lparr>temp_hysteresis := t,
      humidity_hysteresis := (if wide_humidity_band p then humidity_hysteresis p else 200)\<rparr>" for t
    using ok by (subst sanitise_humidity_band) (auto simp: wide_bands)
  moreover have "sanitise_pressure_alarm (p\<lparr>temp_hysteresis := t, humidity_hysteresis := h\<rparr>) =
      p\<lparr>temp_hysteresis := t, humidity_hysteresis := h,
        pressure_hysteresis := (if wide_pressure_band p then pressure_hysteresis p else 50)\<rparr>" for t h
    using ok by (subst sanitise_pressure_band) (auto simp: wide_bands)
  moreover have "sanitise_modbus (p\<lparr>temp_hysteresis := t, humidity_hysteresis := h, pressure_hysteresis := q\<rparr>) =
      p\<lparr>temp_hysteresis := t, humidity_hysteresis := h, pressure_hysteresis := q\<rparr>" for t h q
    using ok by (simp add: sanitise_modbus_def w32_simps)
  ultimately show ?thesis by (simp add: sanitise_def default_narrow_bands_def)
qed

definition range_params :: "config_param_id set" where
  "range_params = {CONFIG_PARAM_TEMP_RANGE_MIN, CONFIG_PARAM_TEMP_RANGE_MAX, CONFIG_PARAM_HUMIDITY_RANGE_MIN,
     CONFIG_PARAM_HUMIDITY_RANGE_MAX, CONFIG_PARAM_PRESSURE_RANGE_MIN, CONFIG_PARAM_PRESSURE_RANGE_MAX}"

definition limit_params :: "config_param_id set" where
  "limit_params = {CONFIG_PARAM_TEMP_ALARM_HIGH, CONFIG_PARAM_TEMP_ALARM_LOW, CONFIG_PARAM_HUMIDITY_ALARM_HIGH,
     CONFIG_PARAM_HUMIDITY_ALARM_LOW, CONFIG_PARAM_PRESSURE_ALARM_HIGH, CONFIG_PARAM_PRESSURE_ALARM_LOW}"

lemma accepted_reloadable:
  assumes "params_loadable p" "validate_param_internal pid v p = CONFIG_SERVICE_OK" "pid \<notin> range_params"
  shows "reloadable (apply_param_to_struct p pid v)"
proof -
  have ok: "params_ok p" using assms(1) by (simp add: params_loadable_def)
  have valid: "valid_if b = CONFIG_SERVICE_OK \<longleftrightarrow> b" for b by (simp add: valid_if_def)
  show ?thesis
    using apply_param_ok [OF ok assms(2)] assms
    by (cases pid) (auto simp: reloadable_def params_loadable_def range_params_def valid w32_simps)
qed

lemma accepted_loadable:
  assumes "params_loadable p" "validate_param_internal pid v p = CONFIG_SERVICE_OK" "pid \<notin> range_params"
    "pid \<notin> limit_params"
  shows "params_loadable (apply_param_to_struct p pid v)"
proof -
  have h: "uint (humidity_alarm_low p) \<le> uint (humidity_alarm_high p)"
    "uint (pressure_alarm_low p) \<le> uint (pressure_alarm_high p)"
    using assms(1) by (auto simp: params_loadable_def params_ok_def band_ok_def)
  have valid: "valid_if b = CONFIG_SERVICE_OK \<longleftrightarrow> b" for b by (simp add: valid_if_def)
  have "wide_temp_band (apply_param_to_struct p pid v) \<and> wide_humidity_band (apply_param_to_struct p pid v) \<and>
      wide_pressure_band (apply_param_to_struct p pid v)"
    using assms h
    by (cases pid) (auto simp: params_loadable_def range_params_def limit_params_def wide_bands valid Let_def
        w32_simps uint_w32_minus)
  then show ?thesis using accepted_reloadable [OF assms(1-3)] by (simp add: loadable_reloadable)
qed

text \<open>C17: Take a configuration that the loader keeps as it is, and a write of any parameter but the six
  range ends that ConfigService accepts.  The storage has taken the blob of the live configuration, and
  loading that blob into an initialised service gives back the live
  configuration, except that for every alarm band of at most twice its hysteresis the default hysteresis
  replaces the stored one.  That can only happen for a write of an alarm limit, which is checked against low +
  hysteresis < high only; every other such write keeps the loader's conditions.\<close>

theorem accepted_write_after_reload:
  assumes "params_loadable (params c)" "pid \<notin> range_params" "cs_initialised d"
    and "config_service_set_param pid (Some v) c w = (CONFIG_SERVICE_OK, c', w')"
  shows "fst (cs_save c (config_blob_bytes \<lparr>schema_version = CONFIG_SCHEMA_VERSION, blob_params = params c'\<rparr>) w) \<and>
    config_service_apply_loaded
      (Some (config_blob_bytes \<lparr>schema_version = CONFIG_SCHEMA_VERSION, blob_params = params c'\<rparr> @ rest))
      (45 + length rest) d = (CONFIG_SERVICE_OK, d\<lparr>params := default_narrow_bands (params c')\<rparr>) \<and>
    (pid \<notin> limit_params \<longrightarrow> params_loadable (params c') \<and> default_narrow_bands (params c') = params c')"
proof -
  have v: "validate_param_internal pid v (params c) = CONFIG_SERVICE_OK"
    and p: "params c' = apply_param_to_struct (params c) pid v"
    and saved: "fst (cs_save c (config_blob_bytes \<lparr>schema_version = CONFIG_SCHEMA_VERSION, blob_params = params c'\<rparr>) w)"
    using assms(4)
    by (auto simp: config_service_set_param_def persist_to_store_def Let_def split: if_splits prod.splits)
  have "reloadable (params c')" unfolding p by (rule accepted_reloadable [OF assms(1) v assms(2)])
  moreover have "params_loadable (params c')" if "pid \<notin> limit_params"
    unfolding p by (rule accepted_loadable [OF assms(1) v assms(2) that])
  ultimately show ?thesis
    using assms(3) saved
    by (auto simp: config_service_apply_loaded_def Let_def sanitise_reloadable loadable_reloadable default_narrow_bands_def)
qed

theorem accepted_write_after_reload_witness:
  "config_service_apply_loaded
     (Some (config_blob_bytes \<lparr>schema_version = CONFIG_SCHEMA_VERSION,
        blob_params = apply_defaults\<lparr>temp_hysteresis := 140, temp_alarm_high := 150\<rparr>\<rparr> @ [])) 45 demo_service =
   (CONFIG_SERVICE_OK, demo_service\<lparr>params := apply_defaults\<lparr>temp_hysteresis := 100, temp_alarm_high := 150\<rparr>\<rparr>)"
proof -
  let ?p = "apply_defaults\<lparr>temp_hysteresis := 140\<rparr>"
  have w: "config_service_set_param CONFIG_PARAM_TEMP_ALARM_HIGH (Some 150) (demo_service\<lparr>params := ?p\<rparr>) () =
      (CONFIG_SERVICE_OK, demo_service\<lparr>params := ?p\<lparr>temp_alarm_high := 150\<rparr>\<rparr>, ())"
    by (simp add: config_service_set_param_def demo_service_def valid_if_def as_u16_def apply_defaults_def
        persist_to_store_def fire_callbacks_def)
  have "params_loadable ?p" by (simp add: params_loadable_def params_ok_def band_ok_def apply_defaults_def)
  then show ?thesis
    using accepted_write_after_reload [OF _ _ _ w, of demo_service "[]"]
    by (simp add: demo_service_def range_params_def default_narrow_bands_def wide_bands apply_defaults_def)
qed

text \<open>The loader checks the two ends of a range one after the other and replaces them one by one,
  so a damaged blob (limits 90 and 130 degrees) is loaded as an inverted range, 90 to 85 degrees,
  that no write would have accepted.\<close>

theorem load_can_invert_range:
  "let p = reloaded (apply_defaults\<lparr>temp_range_min := 9000, temp_range_max := 13000\<rparr>)
   in sint (temp_range_min p) = 9000 \<and> sint (temp_range_max p) = 8500 \<and> \<not> params_ok p"
  by (simp add: reloaded_sanitise sanitise_defs apply_defaults_def params_ok_def)

section \<open>Snapshot and restore\<close>

text \<open>Any sequence of writes, with whatever outcome.\<close>

fun set_params ::
  "(config_param_id \<times> u32 option) list \<Rightarrow> 'w config_service \<Rightarrow> 'w \<Rightarrow> 'w config_service \<times> 'w" where
  "set_params [] c w = (c, w)"
| "set_params ((pid, val) # ops) c w =
     (let (_, c, w) = config_service_set_param pid val c w in set_params ops c w)"

lemma set_param_frame:
  "config_service_set_param pid val c w = (err, c', w') \<Longrightarrow>
   cs_initialised c' = cs_initialised c \<and> snapshot c' = snapshot c \<and>
   snapshot_valid c' = snapshot_valid c \<and> cs_save c' = cs_save c \<and> cs_callbacks c' = cs_callbacks c"
  by (auto simp: config_service_set_param_def Let_def split: option.splits prod.splits if_splits)

lemma set_params_frame:
  "set_params ops c w = (c', w') \<Longrightarrow>
   cs_initialised c' = cs_initialised c \<and> snapshot c' = snapshot c \<and> snapshot_valid c' = snapshot_valid c"
  by (induction ops c w rule: set_params.induct)
     (auto dest: set_param_frame split: prod.splits)

text \<open>Restoring the snapshot undoes every parameter write made since it was taken, however many
  there were and whether or not their flash writes succeeded.\<close>

theorem restore_undoes_writes:
  assumes "cs_initialised c" "config_service_snapshot c = (CONFIG_SERVICE_OK, c1)"
    and "set_params ops c1 w = (c2, w2)"
    and "config_service_restore_snapshot c2 w2 = (err, c3, w3)"
  shows "params c3 = params c \<and> (err = CONFIG_SERVICE_OK \<or> err = CONFIG_SERVICE_ERR_PERSIST)"
proof -
  from assms(1,2) have "snapshot c1 = params c" "snapshot_valid c1" "cs_initialised c1"
    by (auto simp: config_service_snapshot_def)
  with set_params_frame [OF assms(3)] assms(4) show ?thesis
    by (auto simp: config_service_restore_snapshot_def persist_to_store_def Let_def
        split: prod.splits if_splits)
qed

theorem restore_undoes_writes_witness:
  "let (_, c1) = config_service_snapshot demo_service;
       (c2, w2) = set_params [(CONFIG_PARAM_FILTER_ALPHA, Some 7)] c1 ();
       (err, c3, w3) = config_service_restore_snapshot c2 w2
   in filter_alpha (params c2) = 7 \<and> params c3 = apply_defaults"
proof -
  obtain c1 where 1: "config_service_snapshot demo_service = (CONFIG_SERVICE_OK, c1)"
    and c1: "c1 = demo_service\<lparr>snapshot := apply_defaults, snapshot_valid := True\<rparr>"
    by (simp add: config_service_snapshot_def demo_service_def)
  obtain c2 w2 where 2: "set_params [(CONFIG_PARAM_FILTER_ALPHA, Some 7)] c1 () = (c2, w2)"
    and c2: "filter_alpha (params c2) = 7"
    by (simp add: c1 demo_service_def config_service_set_param_def valid_if_def as_u16_def
        persist_to_store_def Let_def fire_callbacks_def)
  obtain err c3 w3 where 3: "config_service_restore_snapshot c2 w2 = (err, c3, w3)"
    by (metis surj_pair)
  have "params c3 = apply_defaults"
    using restore_undoes_writes [OF _ 1 2 3] by (simp add: demo_service_def)
  then show ?thesis by (simp only: 1 2 3 c2 Let_def prod.case simp_thms)
qed

end
