(* ===== verification/Time_Provider.thy ===== *)
theory Time_Provider
  imports Prelude
begin

text \<open>
  TimeProvider of the Field Device (\<^verbatim>\<open>middleware/time_provider/time_provider.c\<close>): the conversion
  between Unix epochs and RTC calendar fields, and the synchronisation state kept with the RTC.

  The RTC driver is a record of operations on the hardware state \<open>'r\<close> (\<open>None\<close> or \<open>False\<close> when the
  driver returns an error).  Calendar counters are natural numbers, as no loop overflows its C
  type; the final sum is 32-bit arithmetic.  The mutex is not modelled.
\<close>

section \<open>Calendar\<close>

record rtc_datetime =
  dt_year :: nat
  dt_month :: nat
  dt_day :: nat
  dt_hour :: nat
  dt_minute :: nat
  dt_second :: nat

definition is_leap_year :: "nat \<Rightarrow> bool" where
  "is_leap_year year \<longleftrightarrow> (year mod 4 = 0 \<and> year mod 100 \<noteq> 0) \<or> year mod 400 = 0"

definition k_month_days :: "nat list" where
  "k_month_days = [31, 28, 31, 30, 31, 30, 31, 31, 30, 31, 30, 31]"

definition days_in_month :: "nat \<Rightarrow> nat \<Rightarrow> nat" where
  "days_in_month month year =
     (let d = k_month_days ! (month - 1) in if month = 2 \<and> is_leap_year year then 29 else d)"

definition year_len :: "nat \<Rightarrow> nat" where
  "year_len y = (if is_leap_year y then 366 else 365)"

text \<open>The two accumulating loops of \<^verbatim>\<open>datetime_to_epoch\<close>.\<close>

definition year_days :: "nat \<Rightarrow> nat" where
  "year_days year = fold (\<lambda>y days. days + year_len y) [1970..<year] 0"

definition month_days :: "nat \<Rightarrow> nat \<Rightarrow> nat \<Rightarrow> nat" where
  "month_days month year days = fold (\<lambda>m days. days + days_in_month m year) [1..<month] days"

definition datetime_to_epoch :: "rtc_datetime \<Rightarrow> u32" where
  "datetime_to_epoch dt =
     (let days = of_nat (month_days (dt_month dt) (dt_year dt) (year_days (dt_year dt)));
          days = days + (of_nat (dt_day dt) - 1)
      in days * 86400 + of_nat (dt_hour dt) * 3600 + of_nat (dt_minute dt) * 60 + of_nat (dt_second dt))"

text \<open>The two searching loops of \<^verbatim>\<open>epoch_to_datetime\<close>: the position reached and the days left.\<close>

function year_loop :: "nat \<Rightarrow> nat \<Rightarrow> nat \<times> nat" where
  "year_loop year days =
     (if year < 2106 then
        if days < year_len year then (year, days) else year_loop (year + 1) (days - year_len year)
      else (year, days))"
  by pat_completeness auto
termination by (relation "measure (\<lambda>(year, days). 2106 - year)") auto

function month_loop :: "nat \<Rightarrow> nat \<Rightarrow> nat \<Rightarrow> nat \<times> nat" where
  "month_loop year month days =
     (if month \<le> 12 then
        if days < days_in_month month year then (month, days)
        else month_loop year (month + 1) (days - days_in_month month year)
      else (month, days))"
  by pat_completeness auto
termination by (relation "measure (\<lambda>(year, month, days). 13 - month)") auto

declare year_loop.simps [simp del] month_loop.simps [simp del]

definition epoch_to_datetime :: "u32 \<Rightarrow> rtc_datetime" where
  "epoch_to_datetime epoch =
     (let remaining = unat epoch;
          second = remaining mod 60; remaining = remaining div 60;
          minute = remaining mod 60; remaining = remaining div 60;
          hour = remaining mod 24; days = remaining div 24;
          (year, days) = year_loop 1970 days;
          (month, days) = month_loop year 1 days
      in \<lparr>dt_year = year, dt_month = month, dt_day = days + 1,
          dt_hour = hour, dt_minute = minute, dt_second = second\<rparr>)"

section \<open>Provider\<close>

datatype time_sync_state = TIME_SYNC_UNSYNCHRONISED | TIME_SYNC_SYNCHRONISED

datatype time_provider_err =
    TIME_PROVIDER_ERR_OK
  | TIME_PROVIDER_ERR_NOT_INIT
  | TIME_PROVIDER_ERR_RTC_FAIL
  | TIME_PROVIDER_ERR_NULL_ARG

datatype time_event = HEALTH_EVENT_TIME_SYNC_ACQUIRED | HEALTH_EVENT_TIME_SYNC_LOST

record 'r rtc_driver =
  rtc_get_time :: "'r \<Rightarrow> rtc_datetime option"
  rtc_set_time :: "rtc_datetime \<Rightarrow> 'r \<Rightarrow> bool \<times> 'r"
  rtc_read_backup :: "'r \<Rightarrow> u32 option"
  rtc_write_backup :: "u32 \<Rightarrow> 'r \<Rightarrow> 'r"

record time_provider =
  tp_initialised :: bool
  sync_state :: time_sync_state
  tp_health :: bool

definition TIME_PROVIDER_SYNC_MAGIC :: u32 where "TIME_PROVIDER_SYNC_MAGIC = 0xA5A55A5A"
definition TIME_PROVIDER_SANITY_DELTA_S :: u32 where "TIME_PROVIDER_SANITY_DELTA_S = 86400"

definition time_provider_init ::
  "'r rtc_driver \<Rightarrow> bool \<Rightarrow> 'r \<Rightarrow> time_provider_err \<times> time_provider" where
  "time_provider_init rtc health r =
     (let tp = \<lparr>tp_initialised = False, sync_state = TIME_SYNC_UNSYNCHRONISED, tp_health = health\<rparr>
      in case rtc_read_backup rtc r of None \<Rightarrow> (TIME_PROVIDER_ERR_RTC_FAIL, tp)
      | Some v \<Rightarrow>
          (TIME_PROVIDER_ERR_OK,
           tp\<lparr>sync_state := (if v = TIME_PROVIDER_SYNC_MAGIC then TIME_SYNC_SYNCHRONISED
                             else TIME_SYNC_UNSYNCHRONISED), tp_initialised := True\<rparr>))"

text \<open>\<open>uptime\<close> is \<^verbatim>\<open>xTaskGetTickCount() / configTICK_RATE_HZ\<close>; the result is the epoch and state.\<close>

definition time_provider_get ::
  "'r rtc_driver \<Rightarrow> u32 \<Rightarrow> (u32 \<times> time_sync_state) option \<Rightarrow> time_provider \<Rightarrow> 'r \<Rightarrow>
   time_provider_err \<times> (u32 \<times> time_sync_state) option"
where
  "time_provider_get rtc uptime ts_out tp r =
     (if \<not> tp_initialised tp then (TIME_PROVIDER_ERR_NOT_INIT, ts_out)
      else if Option.is_none ts_out then (TIME_PROVIDER_ERR_NULL_ARG, ts_out)
      else if sync_state tp = TIME_SYNC_SYNCHRONISED then
        (case rtc_get_time rtc r of None \<Rightarrow> (TIME_PROVIDER_ERR_RTC_FAIL, ts_out)
         | Some dt \<Rightarrow> (TIME_PROVIDER_ERR_OK, Some (datetime_to_epoch dt, sync_state tp)))
      else (TIME_PROVIDER_ERR_OK, Some (uptime, sync_state tp)))"

definition epoch_delta :: "u32 \<Rightarrow> u32 \<Rightarrow> u32" where
  "epoch_delta new_epoch current = (if new_epoch > current then new_epoch - current else current - new_epoch)"

text \<open>The state, the RTC and the health events pushed, newest first.\<close>

definition time_provider_set_time ::
  "'r rtc_driver \<Rightarrow> u32 \<Rightarrow> time_provider \<times> 'r \<times> time_event list \<Rightarrow>
   time_provider_err \<times> time_provider \<times> 'r \<times> time_event list"
where
  "time_provider_set_time rtc new_epoch = (\<lambda>(tp, r, evs).
     if \<not> tp_initialised tp then (TIME_PROVIDER_ERR_NOT_INIT, tp, r, evs)
     else
       let sane = (if sync_state tp = TIME_SYNC_SYNCHRONISED then
                     case rtc_get_time rtc r of None \<Rightarrow> False
                     | Some current_dt \<Rightarrow>
                         \<not> epoch_delta new_epoch (datetime_to_epoch current_dt) > TIME_PROVIDER_SANITY_DELTA_S
                   else True)
       in if \<not> sane then (TIME_PROVIDER_ERR_RTC_FAIL, tp, r, evs)
          else
            let (ok, r) = rtc_set_time rtc (epoch_to_datetime new_epoch) r
            in if \<not> ok then (TIME_PROVIDER_ERR_RTC_FAIL, tp, r, evs)
               else
                 let r = rtc_write_backup rtc TIME_PROVIDER_SYNC_MAGIC r;
                     was_unsynchronised = (sync_state tp = TIME_SYNC_UNSYNCHRONISED);
                     tp = tp\<lparr>sync_state := TIME_SYNC_SYNCHRONISED\<rparr>;
                     evs = (if was_unsynchronised \<and> tp_health tp
                            then HEALTH_EVENT_TIME_SYNC_ACQUIRED # evs else evs)
                 in (TIME_PROVIDER_ERR_OK, tp, r, evs))"

definition time_provider_mark_unsynchronised ::
  "'r rtc_driver \<Rightarrow> time_provider \<times> 'r \<times> time_event list \<Rightarrow>
   time_provider_err \<times> time_provider \<times> 'r \<times> time_event list"
where
  "time_provider_mark_unsynchronised rtc = (\<lambda>(tp, r, evs).
     if \<not> tp_initialised tp then (TIME_PROVIDER_ERR_NOT_INIT, tp, r, evs)
     else
       let was_synchronised = (sync_state tp = TIME_SYNC_SYNCHRONISED);
           tp = tp\<lparr>sync_state := TIME_SYNC_UNSYNCHRONISED\<rparr>;
           r = rtc_write_backup rtc 0 r;
           evs = (if was_synchronised \<and> tp_health tp then HEALTH_EVENT_TIME_SYNC_LOST # evs else evs)
       in (TIME_PROVIDER_ERR_OK, tp, r, evs))"

definition time_provider_get_sync_state :: "time_provider \<Rightarrow> time_sync_state" where
  "time_provider_get_sync_state tp =
     (if \<not> tp_initialised tp then TIME_SYNC_UNSYNCHRONISED else sync_state tp)"

section \<open>Round trip of the calendar\<close>

lemma fold_add: "fold (\<lambda>y days. days + f y) xs n = n + sum_list (map f xs)" for n :: nat
  by (induction xs arbitrary: n) simp_all

lemma year_days_sum: "year_days y = sum_list (map year_len [1970..<y])"
  by (simp add: year_days_def fold_add)

lemma year_days_Suc: "1970 \<le> y \<Longrightarrow> year_days (Suc y) = year_days y + year_len y"
  by (simp add: year_days_sum)

lemma month_days_sum: "month_days m y n = n + sum_list (map (\<lambda>m. days_in_month m y) [1..<m])"
  by (simp add: month_days_def fold_add)

lemma month_days_Suc: "1 \<le> m \<Longrightarrow> month_days (Suc m) y n = month_days m y n + days_in_month m y"
  by (simp add: month_days_sum)

text \<open>The searching loops stop at the position whose accumulated days leave the rest.\<close>

lemma year_loop_spec:
  "1970 \<le> year \<Longrightarrow> year \<le> 2106 \<Longrightarrow> year_loop year days = (y, d) \<Longrightarrow>
   year_days y + d = year_days year + days \<and> 1970 \<le> y \<and> y \<le> 2106 \<and> (y < 2106 \<longrightarrow> d < year_len y)"
proof (induction year days rule: year_loop.induct)
  case (1 year days)
  show ?case
  proof (cases "year < 2106 \<and> \<not> days < year_len year")
    case True
    then have "year_loop (year + 1) (days - year_len year) = (y, d)"
      using "1.prems"(3) by (simp add: year_loop.simps [of year])
    then show ?thesis
      using "1.IH" True "1.prems"(1) year_days_Suc [of year] by auto
  next
    case False
    then show ?thesis
      using "1.prems" by (auto simp: year_loop.simps [of year] split: if_splits)
  qed
qed

lemma month_loop_spec:
  "1 \<le> month \<Longrightarrow> month \<le> 13 \<Longrightarrow> month_loop year month days = (m, d) \<Longrightarrow>
   month_days m year 0 + d = month_days month year 0 + days \<and> 1 \<le> m \<and> m \<le> 13 \<and>
   (m \<le> 12 \<longrightarrow> d < days_in_month m year)"
proof (induction year month days rule: month_loop.induct)
  case (1 year month days)
  show ?case
  proof (cases "month \<le> 12 \<and> \<not> days < days_in_month month year")
    case True
    then have "month_loop year (month + 1) (days - days_in_month month year) = (m, d)"
      using "1.prems"(3) by (simp add: month_loop.simps [of year month])
    then show ?thesis
      using "1.IH" True "1.prems"(1) month_days_Suc [of month year 0] by auto
  next
    case False
    then show ?thesis
      using "1.prems" by (auto simp: month_loop.simps [of year month] split: if_splits)
  qed
qed

lemma month_days_13: "month_days 13 year 0 = year_len year"
proof -
  have "[1..<13] = [1, 2, 3, 4, 5, 6, 7, 8, 9, 10, 11, 12 :: nat]" by (simp add: upt_rec)
  then show ?thesis
    by (simp add: month_days_sum days_in_month_def k_month_days_def year_len_def Let_def)
qed

lemma year_days_ge: "365 * k \<le> year_days (1970 + k)"
proof (induction k)
  case (Suc k)
  then show ?case using year_days_Suc [of "1970 + k"] by (simp add: year_len_def)
qed simp

lemma month_days_base: "month_days m y n = n + month_days m y 0"
  by (simp add: month_days_sum)

lemma seconds_split:
  "(n div 60 div 60 div 24) * 86400 + (n div 60 div 60 mod 24) * 3600 + (n div 60 mod 60) * 60 + n mod 60 = n"
  for n :: nat
proof -
  define a where "a = n div 60"
  define b where "b = a div 60"
  have "n = a * 60 + n mod 60" "a = b * 60 + a mod 60" "b = (b div 24) * 24 + b mod 24"
    by (simp_all add: a_def b_def)
  then show ?thesis unfolding a_def [symmetric] b_def [symmetric] by linarith
qed

definition valid_datetime :: "rtc_datetime \<Rightarrow> bool" where
  "valid_datetime dt \<longleftrightarrow> 1970 \<le> dt_year dt \<and> dt_year dt \<le> 2106 \<and> 1 \<le> dt_month dt \<and> dt_month dt \<le> 12 \<and>
     1 \<le> dt_day dt \<and> dt_day dt \<le> days_in_month (dt_month dt) (dt_year dt) \<and>
     dt_hour dt < 24 \<and> dt_minute dt < 60 \<and> dt_second dt < 60"

lemma epoch_calendar:
  "datetime_to_epoch (epoch_to_datetime e) = e \<and> valid_datetime (epoch_to_datetime e)"
proof -
  define n where "n = unat e"
  define D where "D = n div 60 div 60 div 24"
  obtain y d where yl: "year_loop 1970 D = (y, d)" by fastforce
  obtain m d' where ml: "month_loop y (Suc 0) d = (m, d')" by fastforce
  have e: "epoch_to_datetime e = \<lparr>dt_year = y, dt_month = m, dt_day = d' + 1,
      dt_hour = n div 60 div 60 mod 24, dt_minute = n div 60 mod 60, dt_second = n mod 60\<rparr>"
    by (simp add: epoch_to_datetime_def Let_def yl ml flip: n_def D_def)
  have nb: "n < 4294967296" by (simp add: n_def)
  have Db: "D \<le> 49710" using nb unfolding D_def by linarith
  have ys: "year_days y + d = D" "1970 \<le> y" "y \<le> 2106" "y < 2106 \<longrightarrow> d < year_len y"
    using year_loop_spec [OF _ _ yl] by (simp_all add: year_days_sum)
  have dlen: "d < year_len y"
  proof (cases "y < 2106")
    case False
    then have "y = 2106" using ys(3) by simp
    then show ?thesis using ys(1) Db year_days_ge [of 136] by (simp add: year_len_def)
  qed (use ys(4) in simp)
  have ms: "month_days m y 0 + d' = d" "1 \<le> m" "m \<le> 13" "m \<le> 12 \<longrightarrow> d' < days_in_month m y"
    using month_loop_spec [OF _ _ ml] by (simp_all add: month_days_sum)
  have m12: "m \<le> 12"
  proof (rule ccontr)
    assume "\<not> m \<le> 12"
    then have "m = 13" using ms(3) by simp
    then show False using ms(1) dlen month_days_13 [of y] by simp
  qed
  have days: "month_days m y (year_days y) + d' = D"
    using ms(1) ys(1) month_days_base [of m y "year_days y"] by simp
  have "datetime_to_epoch (epoch_to_datetime e) =
      of_nat ((month_days m y (year_days y) + d') * 86400 + (n div 60 div 60 mod 24) * 3600 +
        (n div 60 mod 60) * 60 + n mod 60)"
    by (simp add: e datetime_to_epoch_def Let_def)
  also have "\<dots> = of_nat n"
    unfolding days D_def seconds_split by (rule refl)
  also have "\<dots> = e" by (simp add: n_def)
  finally show ?thesis
    using ys ms m12 by (auto simp: e valid_datetime_def)
qed

text \<open>C25: converting any 32-bit epoch to calendar fields and back gives the same epoch, and the fields
  are a date that exists (month 1..12, day within the month, leap years included).\<close>

theorem epoch_calendar_roundtrip:
  "datetime_to_epoch (epoch_to_datetime e) = e \<and> valid_datetime (epoch_to_datetime e)"
  by (rule epoch_calendar)

section \<open>Setting the clock\<close>

text \<open>After a successful \<^verbatim>\<open>set_time\<close> the provider is synchronised and \<^verbatim>\<open>get\<close> returns exactly the
  epoch that was set, given an RTC that returns the date it has accepted and whose backup register
  is separate from the clock.\<close>

theorem set_time_then_get:
  assumes keeps: "\<And>r1 r2. rtc_set_time rtc (epoch_to_datetime e) r1 = (True, r2) \<Longrightarrow>
      rtc_get_time rtc r2 = Some (epoch_to_datetime e)"
    and backup: "\<And>v r1. rtc_get_time rtc (rtc_write_backup rtc v r1) = rtc_get_time rtc r1"
    and set: "time_provider_set_time rtc e (tp, r, evs) = (TIME_PROVIDER_ERR_OK, tp', r', evs')"
  shows "time_provider_get rtc uptime (Some old) tp' r' =
    (TIME_PROVIDER_ERR_OK, Some (e, TIME_SYNC_SYNCHRONISED))"
  using set keeps epoch_calendar [of e]
  by (auto simp: time_provider_set_time_def time_provider_get_def Let_def backup
      split: if_splits prod.splits)

definition demo_rtc :: "(rtc_datetime \<times> u32) rtc_driver" where
  "demo_rtc = \<lparr>rtc_get_time = (\<lambda>r. Some (fst r)), rtc_set_time = (\<lambda>dt r. (True, (dt, snd r))),
     rtc_read_backup = (\<lambda>r. Some (snd r)), rtc_write_backup = (\<lambda>v r. (fst r, v))\<rparr>"

theorem set_time_then_get_witness:
  "let (_, tp', r', _) = time_provider_set_time demo_rtc 1750000000
         (\<lparr>tp_initialised = True, sync_state = TIME_SYNC_UNSYNCHRONISED, tp_health = True\<rparr>,
          (epoch_to_datetime 0, 0), [])
   in time_provider_get demo_rtc 5 (Some (0, TIME_SYNC_UNSYNCHRONISED)) tp' r' =
      (TIME_PROVIDER_ERR_OK, Some (1750000000, TIME_SYNC_SYNCHRONISED))"
proof -
  define tp where "tp = \<lparr>tp_initialised = True, sync_state = TIME_SYNC_UNSYNCHRONISED, tp_health = True\<rparr>"
  obtain err tp' r' evs' where
    set: "time_provider_set_time demo_rtc 1750000000 (tp, (epoch_to_datetime 0, 0), []) = (err, tp', r', evs')"
    by (metis surj_pair)
  then have "err = TIME_PROVIDER_ERR_OK"
    by (simp add: time_provider_set_time_def tp_def demo_rtc_def Let_def)
  with set have set: "time_provider_set_time demo_rtc 1750000000 (tp, (epoch_to_datetime 0, 0), []) =
      (TIME_PROVIDER_ERR_OK, tp', r', evs')" by simp
  have "time_provider_get demo_rtc 5 (Some (0, TIME_SYNC_UNSYNCHRONISED)) tp' r' =
      (TIME_PROVIDER_ERR_OK, Some (1750000000, TIME_SYNC_SYNCHRONISED))"
    by (rule set_time_then_get [OF _ _ set]) (simp_all add: demo_rtc_def split: prod.splits)
  then show ?thesis by (simp only: set tp_def [symmetric] Let_def prod.case)
qed

text \<open>Once synchronised, a time more than a day away from the RTC is refused and neither the RTC nor
  the provider's state changes; the comparison does not wrap in either direction.\<close>

theorem far_time_refused:
  assumes "tp_initialised tp" "sync_state tp = TIME_SYNC_SYNCHRONISED" "rtc_get_time rtc r = Some dt"
    and "\<bar>uint e - uint (datetime_to_epoch dt)\<bar> > 86400"
  shows "time_provider_set_time rtc e (tp, r, evs) = (TIME_PROVIDER_ERR_RTC_FAIL, tp, r, evs)"
proof -
  define c where "c = datetime_to_epoch dt"
  have b: "0 \<le> uint e" "uint e < 4294967296" "0 \<le> uint c" "uint c < 4294967296"
    using unsigned_less [of e, where 'a = int] unsigned_less [of c, where 'a = int] by simp_all
  have "uint (epoch_delta e c) = \<bar>uint e - uint c\<bar>"
  proof (cases "uint c < uint e")
    case True
    then have "(uint e - uint c) mod 4294967296 = uint e - uint c"
      using b by (intro mod_pos_pos_trivial) linarith+
    with True show ?thesis by (simp add: epoch_delta_def word_less_def uint_word_ariths)
  next
    case False
    then have "(uint c - uint e) mod 4294967296 = uint c - uint e"
      using b by (intro mod_pos_pos_trivial) linarith+
    with False show ?thesis by (simp add: epoch_delta_def word_less_def uint_word_ariths)
  qed
  then have "epoch_delta e c > TIME_PROVIDER_SANITY_DELTA_S"
    using assms(4) by (simp add: word_less_def TIME_PROVIDER_SANITY_DELTA_S_def c_def)
  then show ?thesis
    using assms(1-3) by (simp add: time_provider_set_time_def Let_def c_def)
qed

theorem far_time_refused_witness:
  "time_provider_set_time demo_rtc 90000
     (\<lparr>tp_initialised = True, sync_state = TIME_SYNC_SYNCHRONISED, tp_health = False\<rparr>,
      (\<lparr>dt_year = 1970, dt_month = 1, dt_day = 1, dt_hour = 0, dt_minute = 0, dt_second = 1\<rparr>, 0), [])
   = (TIME_PROVIDER_ERR_RTC_FAIL,
      \<lparr>tp_initialised = True, sync_state = TIME_SYNC_SYNCHRONISED, tp_health = False\<rparr>,
      (\<lparr>dt_year = 1970, dt_month = 1, dt_day = 1, dt_hour = 0, dt_minute = 0, dt_second = 1\<rparr>, 0), [])"
  by (rule far_time_refused [where dt = "\<lparr>dt_year = 1970, dt_month = 1, dt_day = 1, dt_hour = 0,
        dt_minute = 0, dt_second = 1\<rparr>"])
     (simp_all add: demo_rtc_def datetime_to_epoch_def Let_def year_days_def month_days_def)

end
