(* ===== verification/Sensor_Service.thy ===== *)
theory Sensor_Service
  imports Time_Provider "HOL-Library.Signed_Division"
begin

text \<open>
  SensorService of the Field Device (\<^verbatim>\<open>application/sensor_service/sensor_service.c\<close>): one
  acquisition cycle, its range check, clamp and low-pass filter, and the snapshot it publishes.

  The state is the C struct \<^verbatim>\<open>SensorServiceState\<close> without the RTOS handles.  What the two drivers
  and TimeProvider return in a cycle is an argument of the cycle; a subscriber is a function on the
  rest of the system \<open>'w\<close>; the health events pushed are recorded.  \<^verbatim>\<open>int32_t\<close> values are 32-bit
  words read through \<open>sint\<close>; the filter computes in 32 bits, every product and sum brought back into
  the range of \<^verbatim>\<open>int32_t\<close>, and \<open>iir_exact\<close> below shows that none of them ever leaves it.
\<close>

section \<open>Data\<close>

definition SENSOR_ID_COUNT :: nat where "SENSOR_ID_COUNT = 12"
definition SENSOR_ID_TEMPERATURE :: nat where "SENSOR_ID_TEMPERATURE = 0"
definition SENSOR_ID_HUMIDITY :: nat where "SENSOR_ID_HUMIDITY = 1"
definition SENSOR_ID_PRESSURE :: nat where "SENSOR_ID_PRESSURE = 2"
definition SENSOR_MAX_SUBSCRIBERS :: nat where "SENSOR_MAX_SUBSCRIBERS = 4"

record sensor_reading =
  rd_value :: u32
  rd_valid :: bool
  rd_stamp :: "u32 \<times> time_sync_state"

record sensor_snapshot =
  readings :: "sensor_reading list"
  cycle_count :: u32

datatype sensor_service_err =
    SENSOR_SERVICE_ERR_OK
  | SENSOR_SERVICE_ERR_NOT_INIT
  | SENSOR_SERVICE_ERR_NULL_ARG
  | SENSOR_SERVICE_ERR_NO_SUB

record 'w sensor_service =
  ss_initialised :: bool
  ss_snapshot :: sensor_snapshot
  prev_filtered :: "u32 list"
  filter_seeded :: "bool list"
  alpha_num :: u8
  alpha_den :: u8
  driver_failed :: "bool list"
  ss_subscribers :: "(sensor_snapshot \<Rightarrow> 'w \<Rightarrow> 'w) list"
  ss_fail_events :: "nat list"

definition s_range_min :: "int list" where
  "s_range_min = [-4000, 0, 3000, -10000, -10000, -10000, -25000, -25000, -25000, -40000, -40000, -40000]"

definition s_range_max :: "int list" where
  "s_range_max = [8500, 10000, 11000, 10000, 10000, 10000, 25000, 25000, 25000, 40000, 40000, 40000]"

definition zero_reading :: sensor_reading where
  "zero_reading = \<lparr>rd_value = 0, rd_valid = False, rd_stamp = (0, TIME_SYNC_UNSYNCHRONISED)\<rparr>"

section \<open>Start and access\<close>

text \<open>\<open>ht_ok\<close>, \<open>baro_ok\<close>: the two driver initialisations; \<open>timer_ok\<close>: the poll timer was created.\<close>

definition sensor_service_init ::
  "bool \<Rightarrow> bool \<Rightarrow> bool \<Rightarrow> sensor_service_err \<times> 'w sensor_service" where
  "sensor_service_init ht_ok baro_ok timer_ok =
     (let s = \<lparr>ss_initialised = False,
               ss_snapshot = \<lparr>readings = replicate SENSOR_ID_COUNT zero_reading, cycle_count = 0\<rparr>,
               prev_filtered = replicate SENSOR_ID_COUNT 0,
               filter_seeded = replicate SENSOR_ID_COUNT False,
               alpha_num = 1, alpha_den = 10,
               driver_failed = replicate 3 False @ replicate 9 True,
               ss_subscribers = [], ss_fail_events = []\<rparr>;
          s = (if \<not> ht_ok
               then s\<lparr>driver_failed := (driver_failed s)[SENSOR_ID_TEMPERATURE := True, SENSOR_ID_HUMIDITY := True]\<rparr>
               else s);
          s = (if \<not> baro_ok then s\<lparr>driver_failed := (driver_failed s)[SENSOR_ID_PRESSURE := True]\<rparr> else s)
      in if \<not> timer_ok then (SENSOR_SERVICE_ERR_NOT_INIT, s)
         else (SENSOR_SERVICE_ERR_OK, s\<lparr>ss_initialised := True\<rparr>))"

definition sensor_service_get_snapshot ::
  "sensor_snapshot option \<Rightarrow> 'w sensor_service \<Rightarrow> sensor_service_err \<times> sensor_snapshot option" where
  "sensor_service_get_snapshot snap s =
     (if \<not> ss_initialised s then (SENSOR_SERVICE_ERR_NOT_INIT, snap)
      else if Option.is_none snap then (SENSOR_SERVICE_ERR_NULL_ARG, snap)
      else (SENSOR_SERVICE_ERR_OK, Some (ss_snapshot s)))"

definition sensor_service_subscribe ::
  "(sensor_snapshot \<Rightarrow> 'w \<Rightarrow> 'w) option \<Rightarrow> 'w sensor_service \<Rightarrow> sensor_service_err \<times> 'w sensor_service" where
  "sensor_service_subscribe cb s =
     (if \<not> ss_initialised s then (SENSOR_SERVICE_ERR_NOT_INIT, s)
      else case cb of None \<Rightarrow> (SENSOR_SERVICE_ERR_NULL_ARG, s)
      | Some f \<Rightarrow>
          if length (ss_subscribers s) \<ge> SENSOR_MAX_SUBSCRIBERS then (SENSOR_SERVICE_ERR_NO_SUB, s)
          else (SENSOR_SERVICE_ERR_OK, s\<lparr>ss_subscribers := ss_subscribers s @ [f]\<rparr>))"

definition sensor_service_is_ready :: "'w sensor_service \<Rightarrow> bool" where
  "sensor_service_is_ready s =
     (ss_initialised s \<and>
      list_all (\<lambda>i. driver_failed s ! i \<or> rd_valid (readings (ss_snapshot s) ! i)) [0..<SENSOR_ID_COUNT])"

definition sensor_service_reconfigure :: "'w sensor_service \<Rightarrow> sensor_service_err" where
  "sensor_service_reconfigure s =
     (if \<not> ss_initialised s then SENSOR_SERVICE_ERR_NOT_INIT else SENSOR_SERVICE_ERR_OK)"

section \<open>One reading\<close>

definition clamp :: "int \<Rightarrow> int \<Rightarrow> int \<Rightarrow> int" where
  "clamp lo hi v = (let v = (if v < lo then lo else v) in if v > hi then hi else v)"

text \<open>The value of an \<^verbatim>\<open>int32_t\<close> operation, and the low-pass filter on them: \<open>sdiv\<close> truncates like
  C's division.  The two coefficients are bytes.\<close>

definition int32 :: "int \<Rightarrow> int" where
  "int32 x = sint (word_of_int x :: u32)"

definition iir :: "int \<Rightarrow> int \<Rightarrow> int \<Rightarrow> int \<Rightarrow> int" where
  "iir num den clamped prev =
     int32 (int32 (int32 (int32 (num * clamped) + int32 ((den - num) * prev)) + den div 2) sdiv den)"

text \<open>The state, the flag \<^verbatim>\<open>first_fail_this_cycle\<close> and the working readings.  \<open>now\<close> is what
  \<^verbatim>\<open>time_provider_get\<close> stores, if it succeeds.\<close>

type_synonym 'w cycle_state = "'w sensor_service \<times> bool \<times> sensor_reading list"

definition process_sensor_reading ::
  "(u32 \<times> time_sync_state) option \<Rightarrow> nat \<Rightarrow> u32 \<Rightarrow> bool \<Rightarrow> 'w cycle_state \<Rightarrow> 'w cycle_state" where
  "process_sensor_reading now i raw driver_ok = (\<lambda>(s, first_fail, rs).
     let r = rs ! i in
     if \<not> driver_ok then
       (if first_fail then s\<lparr>ss_fail_events := i # ss_fail_events s\<rparr> else s, False,
        rs[i := r\<lparr>rd_valid := False\<rparr>])
     else
       let r = (case now of None \<Rightarrow> r | Some ts \<Rightarrow> r\<lparr>rd_stamp := ts\<rparr>);
           v = sint raw;
           r = r\<lparr>rd_valid := \<not> (v < s_range_min ! i \<or> v > s_range_max ! i)\<rparr>;
           clamped = clamp (s_range_min ! i) (s_range_max ! i) v;
           (s, filtered) =
             (if \<not> filter_seeded s ! i \<and> rd_valid r
              then (s\<lparr>filter_seeded := (filter_seeded s)[i := True]\<rparr>, clamped)
              else (s, iir (uint (alpha_num s)) (uint (alpha_den s)) clamped (sint (prev_filtered s ! i))));
           s = s\<lparr>prev_filtered := (prev_filtered s)[i := word_of_int filtered]\<rparr>;
           r = r\<lparr>rd_value := word_of_int filtered\<rparr>
       in (s, first_fail, rs[i := r]))"

section \<open>One cycle\<close>

text \<open>\<open>ht\<close>: temperature and humidity when the read succeeds; \<open>baro\<close>: the pressure likewise.\<close>

definition cycle_readings ::
  "(u32 \<times> time_sync_state) option \<Rightarrow> (u32 \<times> u32) option \<Rightarrow> u32 option \<Rightarrow> 'w sensor_service \<Rightarrow> 'w cycle_state" where
  "cycle_readings now ht baro s =
     (let c = (s, True, readings (ss_snapshot s));
          ht_ok = (ht \<noteq> None);
          c = (if \<not> driver_failed s ! SENSOR_ID_TEMPERATURE
               then process_sensor_reading now SENSOR_ID_TEMPERATURE
                      (if ht_ok then fst (the ht) else 0) ht_ok c else c);
          c = (if \<not> driver_failed s ! SENSOR_ID_HUMIDITY
               then process_sensor_reading now SENSOR_ID_HUMIDITY
                      (if ht_ok then snd (the ht) else 0) ht_ok c else c);
          baro_ok = (baro \<noteq> None)
      in if \<not> driver_failed s ! SENSOR_ID_PRESSURE
         then process_sensor_reading now SENSOR_ID_PRESSURE
                (if baro_ok then the baro else 0) baro_ok c
         else c)"

definition run_cycle_impl ::
  "(u32 \<times> time_sync_state) option \<Rightarrow> (u32 \<times> u32) option \<Rightarrow> u32 option \<Rightarrow>
   'w sensor_service \<Rightarrow> 'w \<Rightarrow> 'w sensor_service \<times> 'w"
where
  "run_cycle_impl now ht baro s w =
     (let (s, _, rs) = cycle_readings now ht baro s;
          snap = \<lparr>readings = rs, cycle_count = cycle_count (ss_snapshot s) + 1\<rparr>;
          s = s\<lparr>ss_snapshot := snap\<rparr>
      in (s, fold (\<lambda>cb. cb snap) (ss_subscribers s) w))"

definition sensor_service_run_cycle ::
  "(u32 \<times> time_sync_state) option \<Rightarrow> (u32 \<times> u32) option \<Rightarrow> u32 option \<Rightarrow>
   'w sensor_service \<Rightarrow> 'w \<Rightarrow> sensor_service_err \<times> 'w sensor_service \<times> 'w"
where
  "sensor_service_run_cycle now ht baro s w =
     (if \<not> ss_initialised s then (SENSOR_SERVICE_ERR_NOT_INIT, s, w)
      else (SENSOR_SERVICE_ERR_OK, run_cycle_impl now ht baro s w))"

section \<open>The filter\<close>

lemma sdiv_pos: "0 < d \<Longrightarrow> 0 \<le> a \<Longrightarrow> a sdiv d = a div d" for a d :: int
  by (cases "a = 0") (simp_all add: signed_divide_int_def)

lemma sdiv_neg: "0 < d \<Longrightarrow> a \<le> 0 \<Longrightarrow> a sdiv d = - ((- a) div d)" for a d :: int
  by (cases "a = 0") (simp_all add: signed_divide_int_def)

lemma sdiv_mono:
  assumes "0 < (d :: int)" "a \<le> b"
  shows "a sdiv d \<le> b sdiv d"
proof -
  consider "0 \<le> a" | "a \<le> 0" "0 \<le> b" | "b \<le> 0" by linarith
  then show ?thesis
  proof cases
    case 1
    with assms show ?thesis by (simp add: sdiv_pos zdiv_mono1)
  next
    case 2
    then have "0 \<le> (- a) div d" "0 \<le> b div d"
      using assms(1) by (simp_all add: pos_imp_zdiv_nonneg_iff)
    with 2 assms(1) show ?thesis by (simp add: sdiv_pos sdiv_neg)
  next
    case 3
    with assms show ?thesis by (simp add: sdiv_neg zdiv_mono1)
  qed
qed

lemma sdiv_mult: "0 < d \<Longrightarrow> (d * a) sdiv d = a" for a d :: int
proof -
  assume d: "0 < d"
  show ?thesis
  proof (cases "0 \<le> a")
    case True
    with d show ?thesis by (simp add: sdiv_pos)
  next
    case False
    with d have "d * a \<le> 0" by (simp add: mult_nonneg_nonpos)
    then have "(d * a) sdiv d = - ((- (d * a)) div d)" using d by (rule sdiv_neg [rotated])
    moreover have "(d * (- a)) div d = - a"
      using d by (intro nonzero_mult_div_cancel_left) simp
    ultimately show ?thesis by simp
  qed
qed

text \<open>No operation of the filter leaves the 32-bit range while its two inputs stay within 40000 of zero,
  so the filter is the formula on integers.\<close>

lemma int32_same: "- 2147483648 \<le> x \<Longrightarrow> x \<le> 2147483647 \<Longrightarrow> int32 x = x"
  by (simp add: int32_def signed_of_int signed_take_bit_int_eq_self_iff)

lemma coefficient_mult_abs:
  assumes "0 \<le> a" "a < (256 :: int)" "\<bar>x\<bar> \<le> 40000"
  shows "\<bar>a * x\<bar> \<le> a * 40000" "\<bar>a * x\<bar> \<le> 10200000"
proof -
  show le: "\<bar>a * x\<bar> \<le> a * 40000" using assms by (simp add: abs_mult mult_left_mono)
  with assms(2) show "\<bar>a * x\<bar> \<le> 10200000" by linarith
qed

lemma sdiv_abs_le: "0 < d \<Longrightarrow> \<bar>x sdiv d\<bar> \<le> \<bar>x\<bar>" for x d :: int
proof -
  assume d: "0 < d"
  have "\<bar>x sdiv d\<bar> \<le> \<bar>x\<bar> div d"
    using d by (simp add: signed_divide_int_def abs_mult abs_sgn_eq pos_imp_zdiv_nonneg_iff)
  also have "\<dots> \<le> \<bar>x\<bar>" using d by (metis abs_ge_zero div_by_1 int_one_le_iff_zero_less zdiv_mono2 zero_less_one)
  finally show "\<bar>x sdiv d\<bar> \<le> \<bar>x\<bar>" .
qed

lemma iir_exact:
  assumes "0 \<le> num" "num \<le> den" "0 < den" "den < 256" "\<bar>c\<bar> \<le> 40000" "\<bar>p\<bar> \<le> 40000"
  shows "iir num den c p = (num * c + (den - num) * p + den div 2) sdiv den"
proof -
  let ?sum = "num * c + (den - num) * p"
  have n: "\<bar>num * c\<bar> \<le> 10200000" and d: "\<bar>(den - num) * p\<bar> \<le> 10200000"
    by (rule coefficient_mult_abs; use assms in simp)+
  have h: "0 \<le> den div 2" "den div 2 < 128" using assms(3,4) by auto
  have s: "\<bar>?sum + den div 2\<bar> \<le> 20400128" "\<bar>?sum\<bar> \<le> 20400000" using n d h by linarith+
  have q: "\<bar>(?sum + den div 2) sdiv den\<bar> \<le> 20400128"
    using sdiv_abs_le [OF assms(3), of "?sum + den div 2"] s(1) by linarith
  have "int32 (num * c) = num * c" "int32 ((den - num) * p) = (den - num) * p" "int32 ?sum = ?sum"
    "int32 (?sum + den div 2) = ?sum + den div 2"
    "int32 ((?sum + den div 2) sdiv den) = (?sum + den div 2) sdiv den"
    by (rule int32_same; use n d s q in linarith)+
  then show ?thesis by (simp add: iir_def)
qed

text \<open>The filter output stays between the bounds its two inputs lie in.\<close>

lemma iir_bounds:
  assumes "0 \<le> num" "num \<le> den" "0 < den" "den < 256" "lo \<le> c" "c \<le> hi" "lo \<le> p" "p \<le> hi" "0 \<le> hi"
    and b: "-40000 \<le> lo" "hi \<le> 40000"
  shows "lo \<le> iir num den c p \<and> iir num den c p \<le> hi"
proof -
  let ?x = "num * c + (den - num) * p"
  have exact: "iir num den c p = (?x + den div 2) sdiv den"
    by (rule iir_exact; use assms in linarith)
  have "num * lo + (den - num) * lo \<le> ?x" "?x \<le> num * hi + (den - num) * hi"
    using assms by (auto intro!: add_mono mult_left_mono)
  then have x: "den * lo \<le> ?x" "?x \<le> den * hi" by (simp_all add: algebra_simps)
  have "(den * lo) sdiv den \<le> (?x + den div 2) sdiv den"
    using x(1) assms(3) by (intro sdiv_mono) (simp_all add: pos_imp_zdiv_nonneg_iff add_increasing2)
  moreover have "(?x + den div 2) sdiv den \<le> (den * hi + den div 2) sdiv den"
    using x(2) assms(3) by (intro sdiv_mono) simp_all
  moreover have "(den * hi + den div 2) sdiv den = (den * hi + den div 2) div den"
    using assms by (intro sdiv_pos) (simp_all add: pos_imp_zdiv_nonneg_iff)
  moreover have "\<dots> = hi" using assms(3) by (simp add: div_pos_pos_trivial)
  ultimately show ?thesis using sdiv_mult [OF assms(3), of lo] by (simp add: exact)
qed

section \<open>Invariant\<close>

definition in_range :: "nat \<Rightarrow> u32 \<Rightarrow> bool" where
  "in_range i v \<longleftrightarrow> s_range_min ! i \<le> sint v \<and> sint v \<le> s_range_max ! i"

definition sensor_wf :: "'w sensor_service \<Rightarrow> bool" where
  "sensor_wf s \<longleftrightarrow>
     length (readings (ss_snapshot s)) = SENSOR_ID_COUNT \<and>
     length (prev_filtered s) = SENSOR_ID_COUNT \<and> length (filter_seeded s) = SENSOR_ID_COUNT \<and>
     length (driver_failed s) = SENSOR_ID_COUNT \<and>
     alpha_num s \<le> alpha_den s \<and> 0 < alpha_den s \<and>
     (\<forall>i < SENSOR_ID_COUNT. \<bar>sint (prev_filtered s ! i)\<bar> \<le> 40000) \<and>
     (\<forall>i < SENSOR_ID_COUNT. filter_seeded s ! i \<longrightarrow> in_range i (prev_filtered s ! i)) \<and>
     (\<forall>i < SENSOR_ID_COUNT. rd_valid (readings (ss_snapshot s) ! i) \<longrightarrow>
        in_range i (rd_value (readings (ss_snapshot s) ! i)))"

text \<open>The same for the working readings of a cycle.\<close>

definition cycle_wf :: "'w cycle_state \<Rightarrow> bool" where
  "cycle_wf = (\<lambda>(s, first_fail, rs).
     sensor_wf s \<and> length rs = SENSOR_ID_COUNT \<and>
     (\<forall>i < SENSOR_ID_COUNT. rd_valid (rs ! i) \<longrightarrow> in_range i (rd_value (rs ! i))))"

lemma range_sane:
  assumes "i < SENSOR_ID_COUNT"
  shows "-40000 \<le> s_range_min ! i" "s_range_min ! i \<le> s_range_max ! i" "0 \<le> s_range_max ! i"
    "s_range_max ! i \<le> 40000"
proof -
  have "\<forall>i < 12. -40000 \<le> s_range_min ! i \<and> s_range_min ! i \<le> s_range_max ! i \<and>
      0 \<le> s_range_max ! i \<and> s_range_max ! i \<le> (40000 :: int)"
    by (simp add: s_range_min_def s_range_max_def All_less_Suc numeral_eq_Suc)
  with assms show "-40000 \<le> s_range_min ! i" "s_range_min ! i \<le> s_range_max ! i"
    "0 \<le> s_range_max ! i" "s_range_max ! i \<le> 40000"
    by (auto simp: SENSOR_ID_COUNT_def)
qed

lemma sint_word_of_int_small: "\<bar>v\<bar> \<le> 40000 \<Longrightarrow> sint (word_of_int v :: u32) = v"
  by (simp add: signed_of_int signed_take_bit_int_eq_self_iff abs_le_iff)

lemma in_range_word:
  assumes "i < SENSOR_ID_COUNT" "s_range_min ! i \<le> v" "v \<le> s_range_max ! i"
  shows "in_range i (word_of_int v)"
proof -
  have "\<bar>v\<bar> \<le> 40000" using assms range_sane [OF assms(1)] by linarith
  then show ?thesis using assms by (simp add: in_range_def sint_word_of_int_small)
qed

lemma clamp_in_range: "lo \<le> hi \<Longrightarrow> lo \<le> clamp lo hi v \<and> clamp lo hi v \<le> hi"
  by (simp add: clamp_def Let_def)

definition filtered_value :: "'w sensor_service \<Rightarrow> nat \<Rightarrow> u32 \<Rightarrow> int" where
  "filtered_value s i raw =
     (let c = clamp (s_range_min ! i) (s_range_max ! i) (sint raw)
      in if \<not> filter_seeded s ! i \<and> in_range i raw then c
         else iir (uint (alpha_num s)) (uint (alpha_den s)) c (sint (prev_filtered s ! i)))"

lemma sensor_wfD:
  assumes "sensor_wf s"
  shows "uint (alpha_num s) \<le> uint (alpha_den s)" "0 < uint (alpha_den s)" "uint (alpha_den s) < 256"
    "i < SENSOR_ID_COUNT \<Longrightarrow> \<bar>sint (prev_filtered s ! i)\<bar> \<le> 40000"
    "i < SENSOR_ID_COUNT \<Longrightarrow> filter_seeded s ! i \<Longrightarrow> in_range i (prev_filtered s ! i)"
  using assms uint_bounded [of "alpha_den s"]
  by (simp_all add: sensor_wf_def word_le_def word_less_def)

lemma clamped_range:
  assumes "i < SENSOR_ID_COUNT"
  shows "s_range_min ! i \<le> clamp (s_range_min ! i) (s_range_max ! i) v"
    "clamp (s_range_min ! i) (s_range_max ! i) v \<le> s_range_max ! i"
    "\<bar>clamp (s_range_min ! i) (s_range_max ! i) v\<bar> \<le> 40000"
proof -
  show c: "s_range_min ! i \<le> clamp (s_range_min ! i) (s_range_max ! i) v"
    "clamp (s_range_min ! i) (s_range_max ! i) v \<le> s_range_max ! i"
    using clamp_in_range [OF range_sane(2) [OF assms]] by blast+
  show "\<bar>clamp (s_range_min ! i) (s_range_max ! i) v\<bar> \<le> 40000" using c range_sane [OF assms] by linarith
qed

lemma filtered_in_range:
  assumes "sensor_wf s" "i < SENSOR_ID_COUNT" "filter_seeded s ! i \<or> in_range i raw"
  shows "in_range i (word_of_int (filtered_value s i raw))"
proof -
  note r = range_sane [OF assms(2)] and c = clamped_range [OF assms(2)] and wf = sensor_wfD [OF assms(1)]
  have "s_range_min ! i \<le> filtered_value s i raw \<and> filtered_value s i raw \<le> s_range_max ! i"
  proof (cases "filter_seeded s ! i")
    case True
    then have p: "in_range i (prev_filtered s ! i)" by (rule wf(5) [OF assms(2)])
    have "s_range_min ! i \<le> iir (uint (alpha_num s)) (uint (alpha_den s))
          (clamp (s_range_min ! i) (s_range_max ! i) (sint raw)) (sint (prev_filtered s ! i)) \<and>
        iir (uint (alpha_num s)) (uint (alpha_den s))
          (clamp (s_range_min ! i) (s_range_max ! i) (sint raw)) (sint (prev_filtered s ! i))
        \<le> s_range_max ! i"
      using c(1,2) r wf(1-3) p by (intro iir_bounds) (simp_all add: in_range_def)
    with True show ?thesis by (simp add: filtered_value_def Let_def)
  next
    case False
    with assms(3) c show ?thesis by (simp add: filtered_value_def Let_def)
  qed
  then show ?thesis by (intro in_range_word [OF assms(2)]) simp_all
qed

lemma filtered_bounded:
  assumes "sensor_wf s" "i < SENSOR_ID_COUNT"
  shows "\<bar>sint (word_of_int (filtered_value s i raw) :: u32)\<bar> \<le> 40000"
proof -
  note c = clamped_range(3) [OF assms(2), of "sint raw"] and wf = sensor_wfD [OF assms(1)]
  have "-40000 \<le> iir (uint (alpha_num s)) (uint (alpha_den s))
        (clamp (s_range_min ! i) (s_range_max ! i) (sint raw)) (sint (prev_filtered s ! i)) \<and>
      iir (uint (alpha_num s)) (uint (alpha_den s))
        (clamp (s_range_min ! i) (s_range_max ! i) (sint raw)) (sint (prev_filtered s ! i)) \<le> 40000"
    using c wf(1-3) wf(4) [OF assms(2)] by (intro iir_bounds) (simp_all add: abs_le_iff)
  then have "\<bar>filtered_value s i raw\<bar> \<le> 40000" using c by (auto simp: filtered_value_def Let_def abs_le_iff)
  then show ?thesis by (simp add: sint_word_of_int_small)
qed

lemma process_ok_eq:
  "process_sensor_reading now i raw True (s, ff, rs) =
     (s\<lparr>filter_seeded := (if in_range i raw then (filter_seeded s)[i := True] else filter_seeded s),
        prev_filtered := (prev_filtered s)[i := word_of_int (filtered_value s i raw)]\<rparr>, ff,
      rs[i := \<lparr>rd_value = word_of_int (filtered_value s i raw), rd_valid = in_range i raw,
               rd_stamp = (case now of None \<Rightarrow> rd_stamp (rs ! i) | Some ts \<Rightarrow> ts)\<rparr>])"
proof -
  have seeded: "(filter_seeded s)[i := True] = filter_seeded s" if "filter_seeded s ! i"
    using that list_update_id [of "filter_seeded s" i] by simp
  have valid: "\<not> (sint raw < s_range_min ! i \<or> s_range_max ! i < sint raw) \<longleftrightarrow> in_range i raw"
    by (auto simp: in_range_def)
  show ?thesis
    by (cases "filter_seeded s ! i"; cases "in_range i raw"; cases now; cases "rs ! i")
       (auto simp: process_sensor_reading_def Let_def filtered_value_def valid seeded in_range_def)
qed

lemma process_wf:
  assumes "cycle_wf (s, ff, rs)" "i < SENSOR_ID_COUNT"
  shows "cycle_wf (process_sensor_reading now i raw ok (s, ff, rs))"
proof (cases ok)
  case True
  have wf: "sensor_wf s" and rs: "length rs = SENSOR_ID_COUNT"
    "\<forall>j < SENSOR_ID_COUNT. rd_valid (rs ! j) \<longrightarrow> in_range j (rd_value (rs ! j))"
    using assms(1) by (simp_all add: cycle_wf_def)
  show ?thesis
    using wf rs assms(2) filtered_in_range [OF wf assms(2), of raw] filtered_bounded [OF wf assms(2), of raw] True
    by (auto simp: process_ok_eq cycle_wf_def sensor_wf_def nth_list_update)
next
  case False
  with assms show ?thesis
    by (auto simp: process_sensor_reading_def cycle_wf_def sensor_wf_def nth_list_update Let_def)
qed

lemma cycle_readings_wf:
  assumes "sensor_wf s"
  shows "cycle_wf (cycle_readings now ht baro s)"
proof -
  have step: "cycle_wf (if b then process_sensor_reading now i raw ok c else c)"
    if "cycle_wf c" "i < SENSOR_ID_COUNT" for b i raw ok and c :: "'a cycle_state"
    using that by (cases c) (auto intro: process_wf)
  have start: "cycle_wf (s, True, readings (ss_snapshot s))"
    using assms by (simp add: cycle_wf_def sensor_wf_def)
  show ?thesis
    unfolding cycle_readings_def Let_def
    by (intro step start)
       (simp_all add: SENSOR_ID_COUNT_def SENSOR_ID_TEMPERATURE_def SENSOR_ID_HUMIDITY_def
         SENSOR_ID_PRESSURE_def)
qed

lemma run_cycle_wf:
  "sensor_wf s \<Longrightarrow> sensor_wf (fst (snd (sensor_service_run_cycle now ht baro s w)))"
  using cycle_readings_wf [of s now ht baro]
  by (auto simp: sensor_service_run_cycle_def run_cycle_impl_def Let_def cycle_wf_def
      sensor_wf_def split: prod.splits)

lemma init_wf: "sensor_wf (snd (sensor_service_init ht_ok baro_ok timer_ok))"
  by (auto simp: sensor_service_init_def Let_def sensor_wf_def SENSOR_ID_COUNT_def zero_reading_def)

lemma filter_exact:
  assumes "sensor_wf s" "i < SENSOR_ID_COUNT"
  shows "iir (uint (alpha_num s)) (uint (alpha_den s)) (clamp (s_range_min ! i) (s_range_max ! i) v)
      (sint (prev_filtered s ! i)) =
    (uint (alpha_num s) * clamp (s_range_min ! i) (s_range_max ! i) v +
     (uint (alpha_den s) - uint (alpha_num s)) * sint (prev_filtered s ! i) + uint (alpha_den s) div 2)
     sdiv uint (alpha_den s)"
  using sensor_wfD [OF assms(1)] assms(2) clamped_range(3) [OF assms(2)] by (intro iir_exact) simp_all

text \<open>C27: the service starts well formed and every cycle keeps it so, whatever the drivers return
  (errors and values out of range included).  Well formed means that a reading published as valid and
  the filter state of a sensor that has had a valid sample lie within that sensor's physical range, and
  that every filter state is within 40000 of zero.  From any such state, for every sensor and
  every raw value, the filter computed in 32-bit arithmetic is the formula on unbounded integers.\<close>

theorem cycle_keeps_range:
  "sensor_wf (snd (sensor_service_init ht_ok baro_ok timer_ok) :: 'w sensor_service) \<and>
   (sensor_wf s \<longrightarrow> sensor_wf (fst (snd (sensor_service_run_cycle now ht baro s w))) \<and>
     (\<forall>i < SENSOR_ID_COUNT. \<forall>raw :: u32.
       let c = clamp (s_range_min ! i) (s_range_max ! i) (sint raw); p = sint (prev_filtered s ! i);
           num = uint (alpha_num s); den = uint (alpha_den s)
       in iir num den c p = (num * c + (den - num) * p + den div 2) sdiv den))"
  using filter_exact [of s] by (auto simp: init_wf run_cycle_wf Let_def)

section \<open>Steady inputs\<close>

text \<open>Cycles in which the drivers keep returning the same three values.\<close>

fun steady_cycles ::
  "nat \<Rightarrow> u32 \<Rightarrow> u32 \<Rightarrow> u32 \<Rightarrow> 'w sensor_service \<Rightarrow> 'w \<Rightarrow> 'w sensor_service \<times> 'w" where
  "steady_cycles 0 t h p s w = (s, w)"
| "steady_cycles (Suc n) t h p s w =
     (let (s, w) = steady_cycles n t h p s w; (_, s, w) = sensor_service_run_cycle None (Some (t, h)) (Some p) s w
      in (s, w))"

lemma iir_steady:
  assumes "0 \<le> num" "num \<le> den" "0 < den" "den < 256" "0 \<le> c" "c \<le> 40000"
  shows "iir num den c c = c"
proof -
  have "iir num den c c = (num * c + (den - num) * c + den div 2) sdiv den"
    by (rule iir_exact) (use assms in simp_all)
  moreover have "num * c + (den - num) * c + den div 2 = den * c + den div 2" by (simp add: algebra_simps)
  moreover have "(den * c + den div 2) sdiv den = (den * c + den div 2) div den"
    using assms by (intro sdiv_pos) (simp_all add: pos_imp_zdiv_nonneg_iff)
  moreover have "\<dots> = c" using assms by (simp add: div_pos_pos_trivial)
  ultimately show ?thesis by simp
qed

definition sensors_up :: "'w sensor_service \<Rightarrow> bool" where
  "sensors_up s \<longleftrightarrow> ss_initialised s \<and> (\<forall>i < 3. \<not> driver_failed s ! i)"

text \<open>The filter of sensor \<open>i\<close> passes \<open>v\<close> through: it starts with it or has settled on it.\<close>

definition passes :: "'w sensor_service \<Rightarrow> nat \<Rightarrow> u32 \<Rightarrow> bool" where
  "passes s i v \<longleftrightarrow> i < SENSOR_ID_COUNT \<and> in_range i v \<and> 0 \<le> sint v \<and> (filter_seeded s ! i \<longrightarrow> prev_filtered s ! i = v)"

lemma passes_filtered:
  assumes "sensor_wf s" "passes s i v"
  shows "filtered_value s i v = sint v"
proof -
  have "clamp (s_range_min ! i) (s_range_max ! i) (sint v) = sint v"
    using assms(2) by (simp add: passes_def in_range_def clamp_def)
  moreover have "iir (uint (alpha_num s)) (uint (alpha_den s)) (sint v) (sint v) = sint v"
    using assms(2) sensor_wfD [OF assms(1)] range_sane [of i]
    by (intro iir_steady) (auto simp: passes_def in_range_def)
  ultimately show ?thesis
    using assms(2) by (auto simp: filtered_value_def passes_def Let_def)
qed

lemma process_passes:
  assumes "sensor_wf s" "passes s i v"
  shows "process_sensor_reading None i v True (s, ff, rs) =
    (s\<lparr>filter_seeded := (filter_seeded s)[i := True], prev_filtered := (prev_filtered s)[i := v]\<rparr>, ff,
     rs[i := \<lparr>rd_value = v, rd_valid = True, rd_stamp = rd_stamp (rs ! i)\<rparr>])"
  using assms(2) passes_filtered [OF assms]
  by (simp add: process_ok_eq passes_def)

lemma take_3: "3 \<le> length xs \<Longrightarrow> take 3 xs = [xs ! 0, xs ! Suc 0, xs ! 2]"
  by (auto simp: Suc_le_length_iff numeral_3_eq_3 numeral_2_eq_2)

definition seeded_with :: "nat \<Rightarrow> u32 \<Rightarrow> 'w sensor_service \<Rightarrow> 'w sensor_service" where
  "seeded_with i v s = s\<lparr>filter_seeded := (filter_seeded s)[i := True], prev_filtered := (prev_filtered s)[i := v]\<rparr>"

lemma in_range_bounded: "i < SENSOR_ID_COUNT \<Longrightarrow> in_range i v \<Longrightarrow> \<bar>sint v\<bar> \<le> 40000"
  using range_sane [of i] by (simp add: in_range_def abs_le_iff)

lemma seeded_with_wf:
  "sensor_wf s \<Longrightarrow> i < SENSOR_ID_COUNT \<Longrightarrow> in_range i v \<Longrightarrow> sensor_wf (seeded_with i v s)"
  by (auto simp: sensor_wf_def seeded_with_def nth_list_update in_range_bounded)

lemma seeded_with_passes:
  "sensor_wf s \<Longrightarrow> i < SENSOR_ID_COUNT \<Longrightarrow> passes s j u \<Longrightarrow> (i = j \<Longrightarrow> u = v) \<Longrightarrow>
   passes (seeded_with i v s) j u"
  by (auto simp: passes_def seeded_with_def sensor_wf_def nth_list_update)

lemma steady_cycle:
  assumes wf: "sensor_wf s" and up: "sensors_up s"
    and pass: "passes s 0 t" "passes s (Suc 0) h" "passes s 2 p"
    and run: "sensor_service_run_cycle None (Some (t, h)) (Some p) s w = (err, s', w')"
  shows "sensor_wf s' \<and> sensors_up s' \<and> passes s' 0 t \<and> passes s' (Suc 0) h \<and> passes s' 2 p \<and>
    map rd_value (take 3 (readings (ss_snapshot s'))) = [t, h, p] \<and>
    map rd_valid (take 3 (readings (ss_snapshot s'))) = [True, True, True]"
proof -
  define rs where "rs = readings (ss_snapshot s)"
  have len: "length rs = 12" using wf by (simp add: rs_def sensor_wf_def SENSOR_ID_COUNT_def)
  define s1 where "s1 = seeded_with 0 t s"
  define s2 where "s2 = seeded_with (Suc 0) h s1"
  define s3 where "s3 = seeded_with 2 p s2"
  have r: "in_range 0 t" "in_range (Suc 0) h" "in_range 2 p" using pass by (simp_all add: passes_def)
  have wf1: "sensor_wf s1" unfolding s1_def by (rule seeded_with_wf [OF wf _ r(1)]) (simp add: SENSOR_ID_COUNT_def)
  have wf2: "sensor_wf s2" unfolding s2_def by (rule seeded_with_wf [OF wf1 _ r(2)]) (simp add: SENSOR_ID_COUNT_def)
  have wf3: "sensor_wf s3" unfolding s3_def by (rule seeded_with_wf [OF wf2 _ r(3)]) (simp add: SENSOR_ID_COUNT_def)
  have p1: "passes s1 0 t" "passes s1 (Suc 0) h" "passes s1 2 p"
    unfolding s1_def using wf pass by (auto intro!: seeded_with_passes simp: SENSOR_ID_COUNT_def)
  have p2: "passes s2 0 t" "passes s2 (Suc 0) h" "passes s2 2 p"
    unfolding s2_def using wf1 p1 by (auto intro!: seeded_with_passes simp: SENSOR_ID_COUNT_def)
  have p3: "passes s3 0 t" "passes s3 (Suc 0) h" "passes s3 2 p"
    unfolding s3_def using wf2 p2 by (auto intro!: seeded_with_passes simp: SENSOR_ID_COUNT_def)
  have nf: "\<not> driver_failed s ! 0" "\<not> driver_failed s ! Suc 0" "\<not> driver_failed s ! 2"
    using up by (simp_all add: sensors_up_def)
  define rs' where "rs' = rs[0 := \<lparr>rd_value = t, rd_valid = True, rd_stamp = rd_stamp (rs ! 0)\<rparr>,
      1 := \<lparr>rd_value = h, rd_valid = True, rd_stamp = rd_stamp (rs ! 1)\<rparr>,
      2 := \<lparr>rd_value = p, rd_valid = True, rd_stamp = rd_stamp (rs ! 2)\<rparr>]"
  have c: "cycle_readings None (Some (t, h)) (Some p) s = (s3, True, rs')"
    using process_passes [OF wf pass(1), of True rs]
      process_passes [OF wf1 p1(2), of True "rs[0 := \<lparr>rd_value = t, rd_valid = True, rd_stamp = rd_stamp (rs ! 0)\<rparr>]"]
      process_passes [OF wf2 p2(3), of True "rs[0 := \<lparr>rd_value = t, rd_valid = True, rd_stamp = rd_stamp (rs ! 0)\<rparr>,
        1 := \<lparr>rd_value = h, rd_valid = True, rd_stamp = rd_stamp (rs ! 1)\<rparr>]"] nf
    by (simp add: cycle_readings_def Let_def SENSOR_ID_TEMPERATURE_def SENSOR_ID_HUMIDITY_def
        SENSOR_ID_PRESSURE_def rs_def [symmetric] seeded_with_def [symmetric] s1_def [symmetric]
        s2_def [symmetric] s3_def [symmetric] rs'_def)
  have snap: "take 3 rs' = [\<lparr>rd_value = t, rd_valid = True, rd_stamp = rd_stamp (rs ! 0)\<rparr>,
      \<lparr>rd_value = h, rd_valid = True, rd_stamp = rd_stamp (rs ! 1)\<rparr>,
      \<lparr>rd_value = p, rd_valid = True, rd_stamp = rd_stamp (rs ! 2)\<rparr>]"
    by (simp add: take_3 rs'_def len)
  have s': "s' = s3\<lparr>ss_snapshot := \<lparr>readings = rs', cycle_count = cycle_count (ss_snapshot s3) + 1\<rparr>\<rparr>"
    using run up by (simp add: sensor_service_run_cycle_def run_cycle_impl_def c Let_def sensors_up_def)
  have "sensor_wf s'" using run_cycle_wf [OF wf, of None "Some (t, h)" "Some p" w] run by simp
  moreover have "sensors_up s'" "passes s' 0 t" "passes s' (Suc 0) h" "passes s' 2 p"
    using up p3 by (simp_all add: s' sensors_up_def passes_def s3_def s2_def s1_def seeded_with_def)
  ultimately show ?thesis by (simp add: s' snap)
qed

lemma steady_cycles_inv:
  assumes "sensor_wf s" "sensors_up s" "passes s 0 t" "passes s (Suc 0) h" "passes s 2 p"
  shows "case steady_cycles n t h p s w of (s', w') \<Rightarrow>
    sensor_wf s' \<and> sensors_up s' \<and> passes s' 0 t \<and> passes s' (Suc 0) h \<and> passes s' 2 p \<and>
    (n > 0 \<longrightarrow> map rd_value (take 3 (readings (ss_snapshot s'))) = [t, h, p] \<and>
              map rd_valid (take 3 (readings (ss_snapshot s'))) = [True, True, True])"
proof (induction n)
  case (Suc n)
  obtain s1 w1 where 1: "steady_cycles n t h p s w = (s1, w1)" by fastforce
  obtain err s2 w2 where 2: "sensor_service_run_cycle None (Some (t, h)) (Some p) s1 w1 = (err, s2, w2)"
    by (metis surj_pair)
  show ?case using Suc steady_cycle [OF _ _ _ _ _ 2] by (simp add: 1 2)
qed (use assms in simp)

text \<open>the first good sample after a start is reported as it is (the filter does not ramp up from
  zero), and a steady non-negative input is reported exactly, for any number of cycles.\<close>

theorem steady_input_reported:
  assumes "in_range 0 t" "in_range 1 h" "in_range 2 p" "0 \<le> sint t"
  shows "case steady_cycles (Suc n) t h p (snd (sensor_service_init True True True)) w of (s, _) \<Rightarrow>
    map rd_value (take 3 (readings (ss_snapshot s))) = [t, h, p] \<and>
    map rd_valid (take 3 (readings (ss_snapshot s))) = [True, True, True]"
proof -
  define s0 where "s0 = (snd (sensor_service_init True True True) :: 'a sensor_service)"
  have "0 \<le> sint h" "0 \<le> sint p"
    using assms(2,3) by (simp_all add: in_range_def s_range_min_def)
  then have "passes s0 0 t" "passes s0 (Suc 0) h" "passes s0 2 p" "sensors_up s0"
    using assms
    by (simp_all add: s0_def passes_def sensor_service_init_def Let_def SENSOR_ID_COUNT_def sensors_up_def
        nth_append All_less_Suc numeral_3_eq_3)
  moreover obtain s' w' where 1: "steady_cycles (Suc n) t h p s0 w = (s', w')" by fastforce
  moreover have "sensor_wf s0" unfolding s0_def by (rule init_wf)
  ultimately show ?thesis
    using steady_cycles_inv [where n = "Suc n" and s = s0 and w = w and t = t and h = h and p = p]
    unfolding s0_def [symmetric] 1 by simp
qed

theorem steady_input_reported_witness:
  "case steady_cycles (Suc 1) 2150 4500 10132 (snd (sensor_service_init True True True)) () of (s, _) \<Rightarrow>
    map rd_value (take 3 (readings (ss_snapshot s))) = [2150, 4500, 10132] \<and>
    map rd_valid (take 3 (readings (ss_snapshot s))) = [True, True, True]"
  by (rule steady_input_reported) (simp_all add: in_range_def s_range_min_def s_range_max_def)

text \<open>Below zero the filter's rounding is biased: a steady input of -10.00 degrees is reported as
  -9.99 in the second cycle and settles at -9.95, because the half-denominator is added before a
  division that truncates toward zero.\<close>

theorem negative_input_drifts:
  "rd_value (readings (ss_snapshot (fst (steady_cycles (Suc 1) (-1000) 4500 10132
       (snd (sensor_service_init True True True)) ()))) ! 0) = -999 \<and>
   iir 1 10 (-1000) (-995) = -995"
  by (simp add: sensor_service_init_def Let_def sensor_service_run_cycle_def run_cycle_impl_def
      cycle_readings_def SENSOR_ID_TEMPERATURE_def SENSOR_ID_HUMIDITY_def SENSOR_ID_PRESSURE_def
      SENSOR_ID_COUNT_def process_ok_eq filtered_value_def in_range_def s_range_min_def s_range_max_def
      clamp_def iir_exact signed_divide_int_def nth_append)

theorem cycle_keeps_range_witness:
  "sensor_wf (fst (snd (sensor_service_run_cycle None (Some (0x80000000, 20000)) None
     (snd (sensor_service_init True True True) :: unit sensor_service) ())))"
  using cycle_keeps_range [of True True True
      "snd (sensor_service_init True True True) :: unit sensor_service" None
      "Some (0x80000000, 20000)" None "()"] init_wf by blast

end
