(* ===== verification/Alarm_Service.thy ===== *)
theory Alarm_Service
  imports Sensor_Service
begin

text \<open>
  AlarmService of the Field Device (\<^verbatim>\<open>application/alarm_service/alarm_service.c\<close>): one
  three-state machine with hysteresis per sensor, evaluated on every sensor snapshot.

  The state is the C struct \<^verbatim>\<open>AlarmServiceState\<close>; a subscriber is a function on the rest of the
  system \<open>'w\<close>.  \<^verbatim>\<open>int32_t\<close> values are 32-bit words compared through \<^verbatim>\<open>sint\<close>.
\<close>

section \<open>Data\<close>

datatype alarm_state = ALARM_STATE_CLEAR | ALARM_STATE_ACTIVE_HIGH | ALARM_STATE_ACTIVE_LOW

datatype alarm_event = ALARM_EVENT_RAISED_HIGH | ALARM_EVENT_RAISED_LOW | ALARM_EVENT_CLEARED

datatype alarm_service_err =
    ALARM_SERVICE_ERR_OK
  | ALARM_SERVICE_ERR_NOT_INIT
  | ALARM_SERVICE_ERR_NULL_ARG
  | ALARM_SERVICE_ERR_NO_SUB
  | ALARM_SERVICE_ERR_INVALID_ARG

definition ALARM_MAX_SUBSCRIBERS :: nat where "ALARM_MAX_SUBSCRIBERS = 4"

record alarm_threshold =
  thr_high :: u32
  thr_low :: u32
  thr_hyst :: u32

type_synonym 'w alarm_subscriber = "nat \<Rightarrow> alarm_event \<Rightarrow> sensor_reading \<Rightarrow> 'w \<Rightarrow> 'w"

record 'w alarm_service =
  as_initialised :: bool
  alarm_states :: "alarm_state list"
  thresholds :: "alarm_threshold list"
  subscribers :: "'w alarm_subscriber list"

definition zero_threshold :: alarm_threshold where
  "zero_threshold = \<lparr>thr_high = 0, thr_low = 0, thr_hyst = 0\<rparr>"

definition default_thresholds :: "alarm_threshold list" where
  "default_thresholds =
     [\<lparr>thr_high = 3500, thr_low = 0, thr_hyst = 200\<rparr>,
      \<lparr>thr_high = 8000, thr_low = 2000, thr_hyst = 500\<rparr>,
      \<lparr>thr_high = 10500, thr_low = 9500, thr_hyst = 50\<rparr>] @ replicate 9 zero_threshold"

section \<open>Operations\<close>

text \<open>\<open>subscribed\<close> tells whether \<^verbatim>\<open>sensor_service_subscribe(alarm_service_evaluate)\<close> succeeded.\<close>

definition alarm_service_init :: "bool \<Rightarrow> alarm_service_err \<times> 'w alarm_service" where
  "alarm_service_init subscribed =
     (let s = \<lparr>as_initialised = False, alarm_states = replicate SENSOR_ID_COUNT ALARM_STATE_CLEAR,
               thresholds = default_thresholds, subscribers = []\<rparr>
      in if \<not> subscribed then (ALARM_SERVICE_ERR_NOT_INIT, s)
         else (ALARM_SERVICE_ERR_OK, s\<lparr>as_initialised := True\<rparr>))"

definition alarm_service_set_thresholds ::
  "nat \<Rightarrow> u32 \<Rightarrow> u32 \<Rightarrow> u32 \<Rightarrow> 'w alarm_service \<Rightarrow> alarm_service_err \<times> 'w alarm_service" where
  "alarm_service_set_thresholds sensor high low hysteresis s =
     (if \<not> as_initialised s then (ALARM_SERVICE_ERR_NOT_INIT, s)
      else if sensor \<ge> SENSOR_ID_COUNT then (ALARM_SERVICE_ERR_INVALID_ARG, s)
      else (ALARM_SERVICE_ERR_OK,
            s\<lparr>thresholds := (thresholds s)[sensor :=
                \<lparr>thr_high = high, thr_low = low, thr_hyst = hysteresis\<rparr>]\<rparr>))"

text \<open>
  The caller's destinations are options (\<open>None\<close> is \<^verbatim>\<open>NULL\<close>), returned overwritten.  The code
  indexes \<^verbatim>\<open>alarm_state\<close> without a bounds check; callers pass a sensor id.
\<close>

definition alarm_service_get_state ::
  "nat \<Rightarrow> alarm_state option \<Rightarrow> 'w alarm_service \<Rightarrow> alarm_service_err \<times> alarm_state option" where
  "alarm_service_get_state sensor state_out s =
     (if \<not> as_initialised s then (ALARM_SERVICE_ERR_NOT_INIT, state_out)
      else if Option.is_none state_out then (ALARM_SERVICE_ERR_NULL_ARG, state_out)
      else (ALARM_SERVICE_ERR_OK, Some (alarm_states s ! sensor)))"

definition alarm_service_get_all_states ::
  "alarm_state list option \<Rightarrow> 'w alarm_service \<Rightarrow> alarm_service_err \<times> alarm_state list option" where
  "alarm_service_get_all_states states s =
     (if \<not> as_initialised s then (ALARM_SERVICE_ERR_NOT_INIT, states)
      else if Option.is_none states then (ALARM_SERVICE_ERR_NULL_ARG, states)
      else (ALARM_SERVICE_ERR_OK, Some (map (\<lambda>i. alarm_states s ! i) [0..<SENSOR_ID_COUNT])))"

definition alarm_service_subscribe ::
  "'w alarm_subscriber option \<Rightarrow> 'w alarm_service \<Rightarrow> alarm_service_err \<times> 'w alarm_service" where
  "alarm_service_subscribe cb s =
     (if \<not> as_initialised s then (ALARM_SERVICE_ERR_NOT_INIT, s)
      else case cb of None \<Rightarrow> (ALARM_SERVICE_ERR_NULL_ARG, s)
      | Some f \<Rightarrow>
          if length (subscribers s) \<ge> ALARM_MAX_SUBSCRIBERS then (ALARM_SERVICE_ERR_NO_SUB, s)
          else (ALARM_SERVICE_ERR_OK, s\<lparr>subscribers := subscribers s @ [f]\<rparr>))"

definition alarm_service_ack_all :: "'w alarm_service \<Rightarrow> alarm_service_err \<times> 'w alarm_service" where
  "alarm_service_ack_all s =
     (if \<not> as_initialised s then (ALARM_SERVICE_ERR_NOT_INIT, s)
      else (ALARM_SERVICE_ERR_OK,
            s\<lparr>alarm_states := replicate SENSOR_ID_COUNT ALARM_STATE_CLEAR\<rparr>))"

definition set_alarm ::
  "nat \<Rightarrow> alarm_state \<Rightarrow> alarm_event \<Rightarrow> sensor_reading \<Rightarrow> 'w alarm_service \<times> 'w \<Rightarrow> 'w alarm_service \<times> 'w"
where
  "set_alarm i new_state event r = (\<lambda>(s, w).
     (s\<lparr>alarm_states := (alarm_states s)[i := new_state]\<rparr>,
      fold (\<lambda>cb. cb i event r) (subscribers s) w))"

text \<open>One round of the loop of \<^verbatim>\<open>alarm_service_evaluate\<close>.\<close>

definition evaluate_sensor ::
  "nat \<Rightarrow> sensor_reading \<Rightarrow> 'w alarm_service \<times> 'w \<Rightarrow> 'w alarm_service \<times> 'w" where
  "evaluate_sensor i r = (\<lambda>(s, w).
     if \<not> rd_valid r then (s, w)
     else
       let t = thresholds s ! i in
       case alarm_states s ! i of
         ALARM_STATE_CLEAR \<Rightarrow>
           if sint (rd_value r) > sint (thr_high t)
           then set_alarm i ALARM_STATE_ACTIVE_HIGH ALARM_EVENT_RAISED_HIGH r (s, w)
           else if sint (rd_value r) < sint (thr_low t)
           then set_alarm i ALARM_STATE_ACTIVE_LOW ALARM_EVENT_RAISED_LOW r (s, w)
           else (s, w)
       | ALARM_STATE_ACTIVE_HIGH \<Rightarrow>
           if sint (rd_value r) < sint (thr_high t - thr_hyst t)
           then set_alarm i ALARM_STATE_CLEAR ALARM_EVENT_CLEARED r (s, w) else (s, w)
       | ALARM_STATE_ACTIVE_LOW \<Rightarrow>
           if sint (rd_value r) > sint (thr_low t + thr_hyst t)
           then set_alarm i ALARM_STATE_CLEAR ALARM_EVENT_CLEARED r (s, w) else (s, w))"

definition alarm_service_evaluate ::
  "sensor_reading list \<Rightarrow> 'w alarm_service \<times> 'w \<Rightarrow> 'w alarm_service \<times> 'w" where
  "alarm_service_evaluate snap sw =
     fold (\<lambda>i. evaluate_sensor i (snap ! i)) [0..<SENSOR_ID_COUNT] sw"

section \<open>The alarm machine\<close>

text \<open>The abstract machine of one sensor: which value moves which state, and the event.\<close>

inductive alarm_step ::
  "alarm_threshold \<Rightarrow> alarm_state \<Rightarrow> int \<Rightarrow> alarm_event \<Rightarrow> alarm_state \<Rightarrow> bool"
  for t :: alarm_threshold
where
  raise_high: "v > sint (thr_high t) \<Longrightarrow>
    alarm_step t ALARM_STATE_CLEAR v ALARM_EVENT_RAISED_HIGH ALARM_STATE_ACTIVE_HIGH"
| raise_low: "\<not> v > sint (thr_high t) \<Longrightarrow> v < sint (thr_low t) \<Longrightarrow>
    alarm_step t ALARM_STATE_CLEAR v ALARM_EVENT_RAISED_LOW ALARM_STATE_ACTIVE_LOW"
| clear_high: "v < sint (thr_high t - thr_hyst t) \<Longrightarrow>
    alarm_step t ALARM_STATE_ACTIVE_HIGH v ALARM_EVENT_CLEARED ALARM_STATE_CLEAR"
| clear_low: "v > sint (thr_low t + thr_hyst t) \<Longrightarrow>
    alarm_step t ALARM_STATE_ACTIVE_LOW v ALARM_EVENT_CLEARED ALARM_STATE_CLEAR"

inductive_cases alarm_step_clearE: "alarm_step t ALARM_STATE_CLEAR v e st'"
inductive_cases alarm_step_highE: "alarm_step t ALARM_STATE_ACTIVE_HIGH v e st'"
inductive_cases alarm_step_lowE: "alarm_step t ALARM_STATE_ACTIVE_LOW v e st'"

inductive_simps alarm_step_simps:
  "alarm_step t ALARM_STATE_CLEAR v e st'"
  "alarm_step t ALARM_STATE_ACTIVE_HIGH v e st'"
  "alarm_step t ALARM_STATE_ACTIVE_LOW v e st'"

lemma alarm_step_det:
  "alarm_step t st v e st' \<Longrightarrow> alarm_step t st v e2 st2 \<Longrightarrow> e2 = e \<and> st2 = st'"
  by (cases st) (auto simp: alarm_step_simps)

definition alarm_wf :: "'w alarm_service \<Rightarrow> bool" where
  "alarm_wf s \<longleftrightarrow> length (alarm_states s) = SENSOR_ID_COUNT \<and> length (thresholds s) = SENSOR_ID_COUNT"

text \<open>The machine as a function, and what a reading that may be invalid does.\<close>

fun alarm_next :: "alarm_threshold \<Rightarrow> alarm_state \<Rightarrow> int \<Rightarrow> (alarm_event \<times> alarm_state) option" where
  "alarm_next t ALARM_STATE_CLEAR v =
     (if v > sint (thr_high t) then Some (ALARM_EVENT_RAISED_HIGH, ALARM_STATE_ACTIVE_HIGH)
      else if v < sint (thr_low t) then Some (ALARM_EVENT_RAISED_LOW, ALARM_STATE_ACTIVE_LOW)
      else None)"
| "alarm_next t ALARM_STATE_ACTIVE_HIGH v =
     (if v < sint (thr_high t - thr_hyst t) then Some (ALARM_EVENT_CLEARED, ALARM_STATE_CLEAR) else None)"
| "alarm_next t ALARM_STATE_ACTIVE_LOW v =
     (if v > sint (thr_low t + thr_hyst t) then Some (ALARM_EVENT_CLEARED, ALARM_STATE_CLEAR) else None)"

lemma alarm_next_step: "alarm_next t st v = Some (e, st') \<longleftrightarrow> alarm_step t st v e st'"
  by (cases st) (auto simp: alarm_step_simps)

definition alarm_react :: "alarm_threshold \<Rightarrow> alarm_state \<Rightarrow> sensor_reading \<Rightarrow> (alarm_event \<times> alarm_state) option" where
  "alarm_react t st r = (if rd_valid r then alarm_next t st (sint (rd_value r)) else None)"

definition react_state :: "alarm_threshold \<Rightarrow> alarm_state \<Rightarrow> sensor_reading \<Rightarrow> alarm_state" where
  "react_state t st r = (case alarm_react t st r of None \<Rightarrow> st | Some (e, st') \<Rightarrow> st')"

definition react_events :: "alarm_threshold \<Rightarrow> alarm_state \<Rightarrow> sensor_reading \<Rightarrow> alarm_event list" where
  "react_events t st r = (case alarm_react t st r of None \<Rightarrow> [] | Some (e, st') \<Rightarrow> [e])"

lemma evaluate_sensor_react:
  "evaluate_sensor i r (s, w) =
     (case alarm_react (thresholds s ! i) (alarm_states s ! i) r of
        None \<Rightarrow> (s, w) | Some (e, st') \<Rightarrow> set_alarm i st' e r (s, w))"
  by (cases "alarm_states s ! i") (auto simp: evaluate_sensor_def alarm_react_def Let_def)

text \<open>The events of one evaluation, in sensor order, and their delivery to the subscribers.\<close>

definition round_events :: "'w alarm_service \<Rightarrow> sensor_reading list \<Rightarrow> nat \<Rightarrow> (nat \<times> alarm_event) list" where
  "round_events s snap n =
     concat (map (\<lambda>i. map (Pair i) (react_events (thresholds s ! i) (alarm_states s ! i) (snap ! i))) [0..<n])"

definition deliver ::
  "'w alarm_subscriber list \<Rightarrow> sensor_reading list \<Rightarrow> (nat \<times> alarm_event) list \<Rightarrow> 'w \<Rightarrow> 'w" where
  "deliver subs snap evs w = fold (\<lambda>(i, e). fold (\<lambda>cb. cb i e (snap ! i)) subs) evs w"

definition round_states :: "'w alarm_service \<Rightarrow> sensor_reading list \<Rightarrow> nat \<Rightarrow> alarm_state list" where
  "round_states s snap n =
     map (\<lambda>i. if i < n then react_state (thresholds s ! i) (alarm_states s ! i) (snap ! i)
              else alarm_states s ! i) [0..<length (alarm_states s)]"

lemma round_states_0: "round_states s snap 0 = alarm_states s"
  by (simp add: round_states_def map_nth)

lemma round_states_Suc:
  "n < length (alarm_states s) \<Longrightarrow> round_states s snap (Suc n) =
     (round_states s snap n)[n := react_state (thresholds s ! n) (alarm_states s ! n) (snap ! n)]"
  by (rule nth_equalityI) (auto simp: round_states_def nth_list_update)

lemma evaluate_upto:
  assumes "n \<le> length (alarm_states s)"
  shows "fold (\<lambda>i. evaluate_sensor i (snap ! i)) [0..<n] (s, w) =
    (s\<lparr>alarm_states := round_states s snap n\<rparr>, deliver (subscribers s) snap (round_events s snap n) w)"
  using assms
proof (induction n)
  case 0
  then show ?case by (simp add: round_states_0 deliver_def round_events_def)
next
  case (Suc n)
  have st: "round_states s snap n ! n = alarm_states s ! n"
    using Suc.prems by (simp add: round_states_def)
  have same: "(round_states s snap n)[n := alarm_states s ! n] = round_states s snap n"
    using st by (metis list_update_id)
  show ?case
    using Suc same
    by (simp add: evaluate_sensor_react st round_states_Suc react_state_def round_events_def
        react_events_def deliver_def set_alarm_def split: option.splits)
qed

text \<open>C21: one evaluation moves every sensor's alarm independently by the three-state machine with
  hysteresis (invalid readings move nothing), and each subscriber gets exactly the events of the
  alarms that moved, in sensor order.\<close>

theorem evaluate_refines_machine:
  assumes "alarm_wf s"
  shows "alarm_service_evaluate snap (s, w) =
    (s\<lparr>alarm_states := map (\<lambda>i. react_state (thresholds s ! i) (alarm_states s ! i) (snap ! i))
                       [0..<SENSOR_ID_COUNT]\<rparr>,
     deliver (subscribers s) snap (round_events s snap SENSOR_ID_COUNT) w)"
  using assms evaluate_upto [of SENSOR_ID_COUNT s snap w]
  by (simp add: alarm_service_evaluate_def alarm_wf_def round_states_def)

section \<open>Sequences of readings\<close>

text \<open>The events of one alarm over a sequence of readings, each with the value that caused it.\<close>

fun alarm_log ::
  "alarm_threshold \<Rightarrow> alarm_state \<Rightarrow> sensor_reading list \<Rightarrow> (alarm_event \<times> int) list" where
  "alarm_log t st [] = []"
| "alarm_log t st (r # rs) =
     map (\<lambda>e. (e, sint (rd_value r))) (react_events t st r) @ alarm_log t (react_state t st r) rs"

text \<open>Two consecutive events of one alarm: raised and cleared alternate, and the reading that clears
  lies more than the hysteresis away from the reading that raised.\<close>

definition hysteresis_pair :: "int \<Rightarrow> alarm_event \<times> int \<Rightarrow> alarm_event \<times> int \<Rightarrow> bool" where
  "hysteresis_pair h a b \<longleftrightarrow>
     (case fst a of
        ALARM_EVENT_RAISED_HIGH \<Rightarrow> fst b = ALARM_EVENT_CLEARED \<and> snd a - snd b > h
      | ALARM_EVENT_RAISED_LOW \<Rightarrow> fst b = ALARM_EVENT_CLEARED \<and> snd b - snd a > h
      | ALARM_EVENT_CLEARED \<Rightarrow> fst b \<noteq> ALARM_EVENT_CLEARED)"

definition threshold_fits :: "alarm_threshold \<Rightarrow> bool" where
  "threshold_fits t \<longleftrightarrow>
     sint (thr_high t - thr_hyst t) = sint (thr_high t) - sint (thr_hyst t) \<and>
     sint (thr_low t + thr_hyst t) = sint (thr_low t) + sint (thr_hyst t)"

text \<open>The same in terms of the thresholds.\<close>

definition threshold_pair :: "alarm_threshold \<Rightarrow> alarm_event \<times> int \<Rightarrow> alarm_event \<times> int \<Rightarrow> bool" where
  "threshold_pair t a b \<longleftrightarrow>
     (case fst a of
        ALARM_EVENT_RAISED_HIGH \<Rightarrow> snd a > sint (thr_high t) \<and> fst b = ALARM_EVENT_CLEARED \<and>
          snd b < sint (thr_high t - thr_hyst t)
      | ALARM_EVENT_RAISED_LOW \<Rightarrow> snd a < sint (thr_low t) \<and> fst b = ALARM_EVENT_CLEARED \<and>
          snd b > sint (thr_low t + thr_hyst t)
      | ALARM_EVENT_CLEARED \<Rightarrow>
          fst b = ALARM_EVENT_RAISED_HIGH \<and> snd b > sint (thr_high t) \<or>
          fst b = ALARM_EVENT_RAISED_LOW \<and> snd b < sint (thr_low t))"

lemma alarm_log_first:
  "alarm_log t st rs = x # xs \<Longrightarrow>
     (case st of
        ALARM_STATE_CLEAR \<Rightarrow> fst x = ALARM_EVENT_RAISED_HIGH \<and> snd x > sint (thr_high t) \<or>
          fst x = ALARM_EVENT_RAISED_LOW \<and> snd x < sint (thr_low t)
      | ALARM_STATE_ACTIVE_HIGH \<Rightarrow> fst x = ALARM_EVENT_CLEARED \<and> snd x < sint (thr_high t - thr_hyst t)
      | ALARM_STATE_ACTIVE_LOW \<Rightarrow> fst x = ALARM_EVENT_CLEARED \<and> snd x > sint (thr_low t + thr_hyst t))"
proof (induction rs arbitrary: st)
  case (Cons r rs)
  show ?case
  proof (cases "alarm_react t st r")
    case None
    with Cons show ?thesis by (simp add: react_events_def react_state_def)
  next
    case (Some p)
    with Cons.prems show ?thesis
      by (cases st) (auto simp: react_events_def alarm_react_def split: if_splits)
  qed
qed simp

lemma alarm_log_pairs: "successively (threshold_pair t) (alarm_log t st rs)"
proof (induction rs arbitrary: st)
  case (Cons r rs)
  show ?case
  proof (cases "alarm_react t st r")
    case None
    with Cons show ?thesis by (simp add: react_events_def react_state_def)
  next
    case (Some p)
    obtain e st' where p: "p = (e, st')" by fastforce
    have log: "alarm_log t st (r # rs) = (e, sint (rd_value r)) # alarm_log t st' rs"
      using Some by (simp add: react_events_def react_state_def p)
    have step: "alarm_step t st (sint (rd_value r)) e st'"
      using Some by (simp add: alarm_react_def p alarm_next_step split: if_splits)
    show ?thesis
    proof (cases "alarm_log t st' rs")
      case Nil
      show ?thesis unfolding log Nil by simp
    next
      case (Cons y ys)
      have "threshold_pair t (e, sint (rd_value r)) y"
        using step alarm_log_first [OF Cons]
        by (auto simp: threshold_pair_def elim!: alarm_step.cases)
      then show ?thesis
        using Cons.IH [of st'] unfolding log Cons by simp
    qed
  qed
qed simp

text \<open>Also the other way round: an alarm that is raised again in the direction it had been raised in before
  its last clear is raised by a reading more than the hysteresis away from the one that cleared it.\<close>

definition reraise_apart :: "int \<Rightarrow> (alarm_event \<times> int) list \<Rightarrow> bool" where
  "reraise_apart h log \<longleftrightarrow>
     (\<forall>k. k + 2 < length log \<longrightarrow> fst (log ! k) = fst (log ! (k + 2)) \<longrightarrow>
        \<bar>snd (log ! (k + 2)) - snd (log ! (k + 1))\<bar> > h)"

lemma threshold_pair_hysteresis:
  "threshold_fits t \<Longrightarrow> threshold_pair t a b \<Longrightarrow> hysteresis_pair (sint (thr_hyst t)) a b"
  by (cases "fst a") (auto simp: threshold_pair_def hysteresis_pair_def threshold_fits_def)

lemma threshold_pair_reraise:
  "threshold_fits t \<Longrightarrow> threshold_pair t a b \<Longrightarrow> threshold_pair t b c \<Longrightarrow> fst a = fst c \<Longrightarrow>
   \<bar>snd c - snd b\<bar> > sint (thr_hyst t)"
  by (cases "fst a"; cases "fst b") (auto simp: threshold_pair_def threshold_fits_def)

lemma alarm_log_no_chatter:
  assumes "threshold_fits t"
  shows "successively (hysteresis_pair (sint (thr_hyst t))) (alarm_log t st rs)"
    "reraise_apart (sint (thr_hyst t)) (alarm_log t st rs)"
proof -
  let ?log = "alarm_log t st rs"
  have p: "threshold_pair t (?log ! k) (?log ! Suc k)" if "Suc k < length ?log" for k
    using alarm_log_pairs [of t st rs] that by (simp add: successively_conv_nth)
  show "successively (hysteresis_pair (sint (thr_hyst t))) ?log"
    using threshold_pair_hysteresis [OF assms p] by (simp add: successively_conv_nth)
  show "reraise_apart (sint (thr_hyst t)) ?log"
    unfolding reraise_apart_def
  proof (intro allI impI)
    fix k assume k: "k + 2 < length ?log" "fst (?log ! k) = fst (?log ! (k + 2))"
    show "\<bar>snd (?log ! (k + 2)) - snd (?log ! (k + 1))\<bar> > sint (thr_hyst t)"
      using threshold_pair_reraise [OF assms p [of k] p [of "Suc k"]] k by simp
  qed
qed

text \<open>A subscriber that records the events it is given.\<close>

definition event_recorder :: "(nat \<times> alarm_event \<times> int) list alarm_subscriber" where
  "event_recorder i e r w = w @ [(i, e, sint (rd_value r))]"

lemma deliver_recorder:
  "deliver [event_recorder] snap evs w = w @ map (\<lambda>(i, e). (i, e, sint (rd_value (snap ! i)))) evs"
  by (induction evs arbitrary: w) (auto simp: deliver_def event_recorder_def)

definition events_of :: "nat \<Rightarrow> (nat \<times> alarm_event \<times> int) list \<Rightarrow> (alarm_event \<times> int) list" where
  "events_of i log = map snd (filter (\<lambda>x. fst x = i) log)"

lemma events_of_append: "events_of i (xs @ ys) = events_of i xs @ events_of i ys"
  by (simp add: events_of_def)

lemma events_of_round:
  "events_of i (map (\<lambda>(i, e). (i, e, sint (rd_value (snap ! i)))) (round_events s snap n)) =
     (if i < n then map (\<lambda>e. (e, sint (rd_value (snap ! i))))
                     (react_events (thresholds s ! i) (alarm_states s ! i) (snap ! i)) else [])"
proof (induction n)
  case (Suc n)
  have "events_of i (map (\<lambda>(i, e). (i, e, sint (rd_value (snap ! i)))) (map (Pair n) es)) =
      (if i = n then map (\<lambda>e. (e, sint (rd_value (snap ! i)))) es else [])" for es
    by (induction es) (auto simp: events_of_def)
  with Suc show ?case by (auto simp: round_events_def events_of_append less_Suc_eq)
qed (simp add: round_events_def events_of_def)

definition evaluate_run ::
  "sensor_reading list list \<Rightarrow> 'w alarm_service \<times> 'w \<Rightarrow> 'w alarm_service \<times> 'w" where
  "evaluate_run snaps sw = fold alarm_service_evaluate snaps sw"

lemma evaluate_wf: "alarm_wf s \<Longrightarrow> alarm_wf (fst (alarm_service_evaluate snap (s, w)))"
  by (simp add: alarm_service_evaluate_def alarm_wf_def evaluate_upto round_states_def)

lemma evaluate_run_log:
  assumes "alarm_wf s" "subscribers s = [event_recorder]" "i < SENSOR_ID_COUNT"
  shows "events_of i (snd (evaluate_run snaps (s, w))) =
    events_of i w @ alarm_log (thresholds s ! i) (alarm_states s ! i) (map (\<lambda>snap. snap ! i) snaps)"
  using assms
proof (induction snaps arbitrary: s w)
  case (Cons snap snaps)
  have len: "length (alarm_states s) = SENSOR_ID_COUNT" using Cons.prems by (simp add: alarm_wf_def)
  define s' where "s' = s\<lparr>alarm_states := round_states s snap SENSOR_ID_COUNT\<rparr>"
  have ev: "alarm_service_evaluate snap (s, w) = (s', w @ map (\<lambda>(i, e). (i, e, sint (rd_value (snap ! i))))
      (round_events s snap SENSOR_ID_COUNT))"
    by (simp add: alarm_service_evaluate_def evaluate_upto len s'_def Cons.prems(2) deliver_recorder)
  have "alarm_wf s'" using evaluate_wf [OF Cons.prems(1), of snap w] by (simp add: ev)
  moreover have "subscribers s' = [event_recorder]" by (simp add: s'_def Cons.prems(2))
  ultimately show ?case
    using Cons.IH [of s'] Cons.prems(3)
    by (simp add: evaluate_run_def ev events_of_append events_of_round)
       (simp add: s'_def round_states_def len)
qed (simp add: evaluate_run_def)

text \<open>C16: no chatter.  Over any sequence of snapshots evaluated with the same thresholds and without an
  acknowledgement in between, and with a high limit less the hysteresis and a low limit plus it that fit
  in 32 bits, the events that a single recording subscriber sees of one alarm alternate between
  raised and cleared, never going from high to low without clearing; a clear comes only with a reading more than
  the hysteresis away from the reading that raised; and a raise in the same direction as the one before comes
  only with a reading more than the hysteresis away from the reading that cleared.  (A clear of one limit and
  a raise at the other may be close together.)\<close>

theorem alarms_do_not_chatter:
  assumes "alarm_wf s" "subscribers s = [event_recorder]" "i < SENSOR_ID_COUNT"
    and "threshold_fits (thresholds s ! i)"
  shows "successively (hysteresis_pair (sint (thr_hyst (thresholds s ! i))))
           (events_of i (snd (evaluate_run snaps (s, [])))) \<and>
         reraise_apart (sint (thr_hyst (thresholds s ! i))) (events_of i (snd (evaluate_run snaps (s, []))))"
proof -
  have "events_of i (snd (evaluate_run snaps (s, []))) =
      alarm_log (thresholds s ! i) (alarm_states s ! i) (map (\<lambda>snap. snap ! i) snaps)"
    using evaluate_run_log [OF assms(1-3), of snaps "[]"] by (simp add: events_of_def)
  then show ?thesis using alarm_log_no_chatter [OF assms(4)] by simp
qed

text \<open>The service as \<^verbatim>\<open>alarm_service_init\<close> leaves it, with the recorder subscribed.\<close>

definition recorded_service :: "(nat \<times> alarm_event \<times> int) list alarm_service" where
  "recorded_service = snd (alarm_service_subscribe (Some event_recorder) (snd (alarm_service_init True)))"

lemma recorded_service_eq:
  "recorded_service = \<lparr>as_initialised = True, alarm_states = replicate SENSOR_ID_COUNT ALARM_STATE_CLEAR,
     thresholds = default_thresholds, subscribers = [event_recorder]\<rparr>"
  by (simp add: recorded_service_def alarm_service_subscribe_def alarm_service_init_def Let_def
      ALARM_MAX_SUBSCRIBERS_def)

lemma recorded_service_wf: "alarm_wf recorded_service"
  by (simp add: recorded_service_eq alarm_wf_def default_thresholds_def SENSOR_ID_COUNT_def)

definition temp_snapshot :: "u32 \<Rightarrow> sensor_reading list" where
  "temp_snapshot v = zero_reading\<lparr>rd_value := v, rd_valid := True\<rparr> # replicate 11 zero_reading"

theorem evaluate_refines_machine_witness:
  "alarm_states (fst (alarm_service_evaluate (temp_snapshot 3600) (recorded_service, []))) ! 0
     = ALARM_STATE_ACTIVE_HIGH"
  using evaluate_refines_machine [OF recorded_service_wf, of "temp_snapshot 3600" "[]"]
  by (simp add: recorded_service_eq SENSOR_ID_COUNT_def temp_snapshot_def default_thresholds_def
      react_state_def alarm_react_def)

theorem alarms_do_not_chatter_witness:
  "let log = events_of 0 (snd (evaluate_run (map temp_snapshot [3600, 3400, 3200, 3550]) (recorded_service, [])))
   in log = [(ALARM_EVENT_RAISED_HIGH, 3600), (ALARM_EVENT_CLEARED, 3200), (ALARM_EVENT_RAISED_HIGH, 3550)] \<and>
      successively (hysteresis_pair 200) log \<and> reraise_apart 200 log"
proof -
  have t: "thresholds recorded_service ! 0 = \<lparr>thr_high = 3500, thr_low = 0, thr_hyst = 200\<rparr>"
    "alarm_states recorded_service ! 0 = ALARM_STATE_CLEAR"
    by (simp_all add: recorded_service_eq default_thresholds_def SENSOR_ID_COUNT_def)
  have sub: "subscribers recorded_service = [event_recorder]" by (simp add: recorded_service_eq)
  let ?log = "events_of 0 (snd (evaluate_run (map temp_snapshot [3600, 3400, 3200, 3550]) (recorded_service, [])))"
  have "threshold_fits (thresholds recorded_service ! 0)"
    unfolding t by (simp add: threshold_fits_def)
  then have "successively (hysteresis_pair (sint (thr_hyst (thresholds recorded_service ! 0)))) ?log \<and>
      reraise_apart (sint (thr_hyst (thresholds recorded_service ! 0))) ?log"
    by (intro alarms_do_not_chatter [OF recorded_service_wf sub]) (simp_all add: SENSOR_ID_COUNT_def)
  moreover have "?log =
      [(ALARM_EVENT_RAISED_HIGH, 3600), (ALARM_EVENT_CLEARED, 3200), (ALARM_EVENT_RAISED_HIGH, 3550)]"
    by (simp add: evaluate_run_log [OF recorded_service_wf sub] SENSOR_ID_COUNT_def t)
       (simp add: events_of_def temp_snapshot_def react_events_def react_state_def alarm_react_def)
  ultimately show ?thesis by (simp add: t Let_def)
qed

end
