(* ===== verification/Register_Map.thy ===== *)
theory Register_Map
  imports Modbus_Slave Config_Service Alarm_Service
begin

text \<open>
  ModbusRegisterMap of the Field Device
  (\<^verbatim>\<open>application/modbus_register_map/modbus_register_map.c\<close>): the table of register slots, their
  read, validate and write handlers, and the four bulk operations.

  The state is the C struct \<^verbatim>\<open>modbus_register_map\<close>.  Its vtable pointers are functions on the
  rest of the system \<open>'w\<close>: getters return a value, the others also a new \<open>'w\<close>.  A handler gets
  the map and \<open>'w\<close>.  The locale \<open>config_access\<close> states what the map relies on in ConfigService.
\<close>

section \<open>Data\<close>

datatype modbus_exception =
    MB_EXC_NONE
  | MB_EXC_ILLEGAL_FUNCTION
  | MB_EXC_ILLEGAL_DATA_ADDR
  | MB_EXC_ILLEGAL_DATA_VALUE

datatype mrm_err =
    MRM_ERR_OK | MRM_ERR_NULL_ARG | MRM_ERR_NOT_INIT | MRM_ERR_INVARIANT | MRM_ERR_PROVIDER_FAIL

datatype lc_remote_cmd = LC_REMOTE_CMD_SOFT_RESTART | LC_REMOTE_CMD_RESET_METRICS

datatype reg_type =
    REG_TYPE_UINT16 | REG_TYPE_INT16 | REG_TYPE_UINT32_HI | REG_TYPE_UINT32_LO
  | REG_TYPE_BITFIELD16 | REG_TYPE_ENUM16

datatype reg_access = REG_ACCESS_R | REG_ACCESS_RW

record health_snapshot =
  uptime_s :: u32
  lifecycle_state :: u16
  sensor_fail_count :: u32

text \<open>
  \<open>sensors\<close> is \<^verbatim>\<open>get_snapshot\<close> (\<open>None\<close> when it fails) and \<open>set_time\<close> tells whether TimeProvider
  returned \<^verbatim>\<open>TIME_PROVIDER_ERR_OK\<close>.
\<close>

record 'w modbus_register_map =
  mrm_initialised :: bool
  sensors :: "'w \<Rightarrow> sensor_reading list option"
  alarms_get :: "'w \<Rightarrow> alarm_state list"
  alarms_ack :: "'w \<Rightarrow> 'w"
  cfg_read :: "'w \<Rightarrow> config_params"
  cfg_write :: "config_param_id \<Rightarrow> u32 \<Rightarrow> 'w \<Rightarrow> config_service_err \<times> 'w"
  health_read :: "'w \<Rightarrow> health_snapshot"
  health_write :: "slave_stats \<Rightarrow> 'w \<Rightarrow> 'w"
  set_time :: "u32 \<Rightarrow> 'w \<Rightarrow> bool \<times> 'w"
  mb_stats :: "'w \<Rightarrow> slave_stats"
  mb_slave_set_address :: "u8 \<Rightarrow> 'w \<Rightarrow> 'w"
  lifecycle_command :: "lc_remote_cmd \<Rightarrow> 'w \<Rightarrow> 'w"
  cmd_ack_alarm_last :: u16
  cmd_reset_metrics_last :: u16
  cmd_soft_restart_last :: u16
  cmd_set_time_hi_last :: u16
  cmd_set_time_lo_last :: u16
  last_stats_snapshot :: slave_stats

type_synonym 'w reg_read_fn = "'w modbus_register_map \<Rightarrow> 'w \<Rightarrow> modbus_exception \<times> u16"
type_synonym 'w reg_write_fn =
  "u16 \<Rightarrow> 'w modbus_register_map \<Rightarrow> 'w \<Rightarrow> modbus_exception \<times> 'w modbus_register_map \<times> 'w"
type_synonym 'w reg_validate_fn = "'w modbus_register_map \<Rightarrow> 'w \<Rightarrow> u16 \<Rightarrow> modbus_exception"

record 'w reg_slot =
  slot_addr :: u16
  slot_type :: reg_type
  slot_access :: reg_access
  slot_read :: "'w reg_read_fn"
  slot_write :: "'w reg_write_fn option"
  slot_validate :: "'w reg_validate_fn option"

section \<open>Read handlers\<close>

text \<open>The two 16-bit halves of a 32-bit counter.\<close>

definition word_hi :: "u32 \<Rightarrow> u16" where "word_hi v = ucast (drop_bit 16 v)"
definition word_lo :: "u32 \<Rightarrow> u16" where "word_lo v = ucast (v AND 0xFFFF)"

definition read_map_version :: "'w reg_read_fn" where
  "read_map_version s w = (MB_EXC_NONE, 1)"

definition read_device_id_hi :: "'w reg_read_fn" where
  "read_device_id_hi s w = (MB_EXC_NONE, 0)"

definition read_device_id_lo :: "'w reg_read_fn" where
  "read_device_id_lo s w = (MB_EXC_NONE, 0)"

definition read_hardware_rev :: "'w reg_read_fn" where
  "read_hardware_rev s w = (MB_EXC_NONE, 1)"

definition read_vendor_code :: "'w reg_read_fn" where
  "read_vendor_code s w = (MB_EXC_NONE, 0x1A45)"

text \<open>The firmware version comes from the generated \<^verbatim>\<open>firmware_version.h\<close>: a parameter.\<close>

record fw_version =
  fw_major :: u16
  fw_minor :: u16
  fw_patch :: u16

definition read_fw_ver_major :: "fw_version \<Rightarrow> 'w reg_read_fn" where
  "read_fw_ver_major fw s w = (MB_EXC_NONE, fw_major fw)"

definition read_fw_ver_minor :: "fw_version \<Rightarrow> 'w reg_read_fn" where
  "read_fw_ver_minor fw s w = (MB_EXC_NONE, fw_minor fw)"

definition read_fw_ver_patch :: "fw_version \<Rightarrow> 'w reg_read_fn" where
  "read_fw_ver_patch fw s w = (MB_EXC_NONE, fw_patch fw)"

text \<open>One environmental reading: the sentinel when the service or the reading is not valid.\<close>

definition read_sensor :: "nat \<Rightarrow> u16 \<Rightarrow> 'w reg_read_fn" where
  "read_sensor i sentinel s w =
     (case sensors s w of None \<Rightarrow> (MB_EXC_NONE, sentinel)
      | Some snap \<Rightarrow>
          if \<not> rd_valid (snap ! i) then (MB_EXC_NONE, sentinel)
          else (MB_EXC_NONE, ucast (rd_value (snap ! i))))"

definition read_temperature :: "'w reg_read_fn" where
  "read_temperature s w = read_sensor SENSOR_ID_TEMPERATURE 0x8000 s w"

definition read_humidity :: "'w reg_read_fn" where
  "read_humidity s w = read_sensor SENSOR_ID_HUMIDITY 0xFFFF s w"

definition read_pressure :: "'w reg_read_fn" where
  "read_pressure s w = read_sensor SENSOR_ID_PRESSURE 0xFFFF s w"

definition read_device_state :: "'w reg_read_fn" where
  "read_device_state s w = (MB_EXC_NONE, lifecycle_state (health_read s w))"

definition flag_if :: "bool \<Rightarrow> nat \<Rightarrow> u16" where
  "flag_if b k = (if b then push_bit k 1 else 0)"

definition read_alarm_flags :: "'w reg_read_fn" where
  "read_alarm_flags s w =
     (let states = alarms_get s w;
          flags = flag_if (states ! SENSOR_ID_TEMPERATURE = ALARM_STATE_ACTIVE_LOW) 0
               OR flag_if (states ! SENSOR_ID_TEMPERATURE = ALARM_STATE_ACTIVE_HIGH) 1
               OR flag_if (states ! SENSOR_ID_HUMIDITY = ALARM_STATE_ACTIVE_LOW) 2
               OR flag_if (states ! SENSOR_ID_HUMIDITY = ALARM_STATE_ACTIVE_HIGH) 3
               OR flag_if (states ! SENSOR_ID_PRESSURE = ALARM_STATE_ACTIVE_LOW) 4
               OR flag_if (states ! SENSOR_ID_PRESSURE = ALARM_STATE_ACTIVE_HIGH) 5;
          fault = (case sensors s w of
                     Some snap \<Rightarrow> list_ex (\<lambda>i. \<not> rd_valid (snap ! i)) [0..<3]
                   | None \<Rightarrow> True)
      in (MB_EXC_NONE, flags OR flag_if fault 6))"

definition read_uptime_hi :: "'w reg_read_fn" where
  "read_uptime_hi s w = (MB_EXC_NONE, word_hi (uptime_s (health_read s w)))"

definition read_uptime_lo :: "'w reg_read_fn" where
  "read_uptime_lo s w = (MB_EXC_NONE, word_lo (uptime_s (health_read s w)))"

definition read_modbus_rx_ok_hi :: "'w reg_read_fn" where
  "read_modbus_rx_ok_hi s w = (MB_EXC_NONE, word_hi (valid_frames (last_stats_snapshot s)))"

definition read_modbus_rx_ok_lo :: "'w reg_read_fn" where
  "read_modbus_rx_ok_lo s w = (MB_EXC_NONE, word_lo (valid_frames (last_stats_snapshot s)))"

definition read_modbus_crc_err_hi :: "'w reg_read_fn" where
  "read_modbus_crc_err_hi s w = (MB_EXC_NONE, word_hi (crc_errors (last_stats_snapshot s)))"

definition read_modbus_crc_err_lo :: "'w reg_read_fn" where
  "read_modbus_crc_err_lo s w = (MB_EXC_NONE, word_lo (crc_errors (last_stats_snapshot s)))"

definition read_zero :: "'w reg_read_fn" where
  "read_zero s w = (MB_EXC_NONE, 0)"

definition read_sensor_err_hi :: "'w reg_read_fn" where
  "read_sensor_err_hi s w = (MB_EXC_NONE, word_hi (sensor_fail_count (health_read s w)))"

definition read_sensor_err_lo :: "'w reg_read_fn" where
  "read_sensor_err_lo s w = (MB_EXC_NONE, word_lo (sensor_fail_count (health_read s w)))"

definition read_temp_alarm_low :: "'w reg_read_fn" where
  "read_temp_alarm_low s w = (MB_EXC_NONE, temp_alarm_low (cfg_read s w))"

definition read_temp_alarm_high :: "'w reg_read_fn" where
  "read_temp_alarm_high s w = (MB_EXC_NONE, temp_alarm_high (cfg_read s w))"

definition read_temp_hysteresis :: "'w reg_read_fn" where
  "read_temp_hysteresis s w = (MB_EXC_NONE, temp_hysteresis (cfg_read s w))"

definition read_hum_alarm_low :: "'w reg_read_fn" where
  "read_hum_alarm_low s w = (MB_EXC_NONE, humidity_alarm_low (cfg_read s w))"

definition read_hum_alarm_high :: "'w reg_read_fn" where
  "read_hum_alarm_high s w = (MB_EXC_NONE, humidity_alarm_high (cfg_read s w))"

definition read_hum_hysteresis :: "'w reg_read_fn" where
  "read_hum_hysteresis s w = (MB_EXC_NONE, humidity_hysteresis (cfg_read s w))"

definition read_press_alarm_low :: "'w reg_read_fn" where
  "read_press_alarm_low s w = (MB_EXC_NONE, pressure_alarm_low (cfg_read s w))"

definition read_press_alarm_high :: "'w reg_read_fn" where
  "read_press_alarm_high s w = (MB_EXC_NONE, pressure_alarm_high (cfg_read s w))"

definition read_press_hysteresis :: "'w reg_read_fn" where
  "read_press_hysteresis s w = (MB_EXC_NONE, pressure_hysteresis (cfg_read s w))"

definition read_sampling_period :: "'w reg_read_fn" where
  "read_sampling_period s w = (MB_EXC_NONE, ucast (polling_interval_ms (cfg_read s w)))"

definition read_lcd_brightness :: "'w reg_read_fn" where
  "read_lcd_brightness s w = (MB_EXC_NONE, 80)"

definition read_lcd_timeout :: "'w reg_read_fn" where
  "read_lcd_timeout s w = (MB_EXC_NONE, 0)"

definition read_modbus_slave_addr :: "'w reg_read_fn" where
  "read_modbus_slave_addr s w = (MB_EXC_NONE, ucast (modbus_slave_addr (cfg_read s w)))"

definition read_cmd_ack_alarm :: "'w reg_read_fn" where
  "read_cmd_ack_alarm s w = (MB_EXC_NONE, cmd_ack_alarm_last s)"

definition read_cmd_reset_metrics :: "'w reg_read_fn" where
  "read_cmd_reset_metrics s w = (MB_EXC_NONE, cmd_reset_metrics_last s)"

definition read_cmd_soft_restart :: "'w reg_read_fn" where
  "read_cmd_soft_restart s w = (MB_EXC_NONE, cmd_soft_restart_last s)"

definition read_cmd_set_time_hi :: "'w reg_read_fn" where
  "read_cmd_set_time_hi s w = (MB_EXC_NONE, cmd_set_time_hi_last s)"

definition read_cmd_set_time_lo :: "'w reg_read_fn" where
  "read_cmd_set_time_lo s w = (MB_EXC_NONE, cmd_set_time_lo_last s)"

section \<open>Validators\<close>

definition value_if :: "bool \<Rightarrow> modbus_exception" where
  "value_if b = (if b then MB_EXC_NONE else MB_EXC_ILLEGAL_DATA_VALUE)"

definition validate_temp_alarm_low :: "'w reg_validate_fn" where
  "validate_temp_alarm_low s w v = (if sint v < -4000 \<or> sint v > 8500 then MB_EXC_ILLEGAL_DATA_VALUE
     else if sint v \<ge> sint (temp_alarm_high (cfg_read s w)) then MB_EXC_ILLEGAL_DATA_VALUE else MB_EXC_NONE)"

definition validate_temp_alarm_high :: "'w reg_validate_fn" where
  "validate_temp_alarm_high s w v = (if sint v < -4000 \<or> sint v > 8500 then MB_EXC_ILLEGAL_DATA_VALUE
     else if sint v \<le> sint (temp_alarm_low (cfg_read s w)) then MB_EXC_ILLEGAL_DATA_VALUE else MB_EXC_NONE)"

definition validate_temp_hysteresis :: "'w reg_validate_fn" where
  "validate_temp_hysteresis s w v = value_if (v \<le> 1000)"

definition validate_hum_alarm_low :: "'w reg_validate_fn" where
  "validate_hum_alarm_low s w v = (if v > 10000 then MB_EXC_ILLEGAL_DATA_VALUE
     else if v \<ge> humidity_alarm_high (cfg_read s w) then MB_EXC_ILLEGAL_DATA_VALUE else MB_EXC_NONE)"

definition validate_hum_alarm_high :: "'w reg_validate_fn" where
  "validate_hum_alarm_high s w v = (if v > 10000 then MB_EXC_ILLEGAL_DATA_VALUE
     else if v \<le> humidity_alarm_low (cfg_read s w) then MB_EXC_ILLEGAL_DATA_VALUE else MB_EXC_NONE)"

definition validate_hum_hysteresis :: "'w reg_validate_fn" where
  "validate_hum_hysteresis s w v = value_if (v \<le> 1000)"

definition validate_press_alarm_low :: "'w reg_validate_fn" where
  "validate_press_alarm_low s w v = (if v < 3000 \<or> v > 11000 then MB_EXC_ILLEGAL_DATA_VALUE
     else if v \<ge> pressure_alarm_high (cfg_read s w) then MB_EXC_ILLEGAL_DATA_VALUE else MB_EXC_NONE)"

definition validate_press_alarm_high :: "'w reg_validate_fn" where
  "validate_press_alarm_high s w v = (if v < 3000 \<or> v > 11000 then MB_EXC_ILLEGAL_DATA_VALUE
     else if v \<le> pressure_alarm_low (cfg_read s w) then MB_EXC_ILLEGAL_DATA_VALUE else MB_EXC_NONE)"

definition validate_press_hysteresis :: "'w reg_validate_fn" where
  "validate_press_hysteresis s w v = value_if (v \<le> 100)"

definition validate_sampling_period :: "'w reg_validate_fn" where
  "validate_sampling_period s w v = value_if (v \<ge> 100 \<and> v \<le> 60000)"

definition validate_lcd_brightness :: "'w reg_validate_fn" where
  "validate_lcd_brightness s w v = value_if (v \<le> 100)"

definition validate_lcd_timeout :: "'w reg_validate_fn" where
  "validate_lcd_timeout s w v = value_if (v \<le> 3600)"

definition validate_slave_addr :: "'w reg_validate_fn" where
  "validate_slave_addr s w v = value_if (v \<ge> 1 \<and> v \<le> 247)"

section \<open>Write handlers\<close>

text \<open>Every configuration write is one \<^verbatim>\<open>set_param\<close> call; any error code becomes Illegal Data Value.\<close>

definition write_param :: "config_param_id \<Rightarrow> 'w reg_write_fn" where
  "write_param pid v s w =
     (let (rc, w) = cfg_write s pid (ucast v) w in (value_if (rc = CONFIG_SERVICE_OK), s, w))"

definition write_temp_alarm_low :: "'w reg_write_fn" where
  "write_temp_alarm_low v s w = write_param CONFIG_PARAM_TEMP_ALARM_LOW v s w"

definition write_temp_alarm_high :: "'w reg_write_fn" where
  "write_temp_alarm_high v s w = write_param CONFIG_PARAM_TEMP_ALARM_HIGH v s w"

definition write_temp_hysteresis :: "'w reg_write_fn" where
  "write_temp_hysteresis v s w = write_param CONFIG_PARAM_TEMP_HYSTERESIS v s w"

definition write_hum_alarm_low :: "'w reg_write_fn" where
  "write_hum_alarm_low v s w = write_param CONFIG_PARAM_HUMIDITY_ALARM_LOW v s w"

definition write_hum_alarm_high :: "'w reg_write_fn" where
  "write_hum_alarm_high v s w = write_param CONFIG_PARAM_HUMIDITY_ALARM_HIGH v s w"

definition write_hum_hysteresis :: "'w reg_write_fn" where
  "write_hum_hysteresis v s w = write_param CONFIG_PARAM_HUMIDITY_HYSTERESIS v s w"

definition write_press_alarm_low :: "'w reg_write_fn" where
  "write_press_alarm_low v s w = write_param CONFIG_PARAM_PRESSURE_ALARM_LOW v s w"

definition write_press_alarm_high :: "'w reg_write_fn" where
  "write_press_alarm_high v s w = write_param CONFIG_PARAM_PRESSURE_ALARM_HIGH v s w"

definition write_press_hysteresis :: "'w reg_write_fn" where
  "write_press_hysteresis v s w = write_param CONFIG_PARAM_PRESSURE_HYSTERESIS v s w"

definition write_sampling_period :: "'w reg_write_fn" where
  "write_sampling_period v s w = write_param CONFIG_PARAM_POLL_INTERVAL v s w"

definition write_lcd_brightness :: "'w reg_write_fn" where
  "write_lcd_brightness v s w = (MB_EXC_NONE, s, w)"

definition write_lcd_timeout :: "'w reg_write_fn" where
  "write_lcd_timeout v s w = (MB_EXC_NONE, s, w)"

definition write_modbus_slave_addr_reg :: "'w reg_write_fn" where
  "write_modbus_slave_addr_reg v s w = 
     (let addr = (ucast v :: u8);
          (rc, w) = cfg_write s CONFIG_PARAM_MODBUS_SLAVE_ADDR (ucast addr) w
      in if rc \<noteq> CONFIG_SERVICE_OK then (MB_EXC_ILLEGAL_DATA_VALUE, s, w)
         else (MB_EXC_NONE, s, mb_slave_set_address s addr w))"

definition write_cmd_ack_alarm :: "'w reg_write_fn" where
  "write_cmd_ack_alarm v s w = 
     (let s = s\<lparr>cmd_ack_alarm_last := v\<rparr>
      in if v \<noteq> 0x0001 then (MB_EXC_ILLEGAL_DATA_VALUE, s, w) else (MB_EXC_NONE, s, alarms_ack s w))"

definition write_cmd_reset_metrics :: "'w reg_write_fn" where
  "write_cmd_reset_metrics v s w = 
     (let s = s\<lparr>cmd_reset_metrics_last := v\<rparr>
      in if v \<noteq> 0x0001 then (MB_EXC_ILLEGAL_DATA_VALUE, s, w)
         else
           let s = s\<lparr>last_stats_snapshot := zero_stats\<rparr>
           in (MB_EXC_NONE, s, lifecycle_command s LC_REMOTE_CMD_RESET_METRICS w))"

definition write_cmd_soft_restart :: "'w reg_write_fn" where
  "write_cmd_soft_restart v s w = 
     (let s = s\<lparr>cmd_soft_restart_last := v\<rparr>
      in if v \<noteq> 0xA5A5 then (MB_EXC_ILLEGAL_DATA_VALUE, s, w)
         else (MB_EXC_NONE, s, lifecycle_command s LC_REMOTE_CMD_SOFT_RESTART w))"

definition write_cmd_set_time_single :: "'w reg_write_fn" where
  "write_cmd_set_time_single v s w = (MB_EXC_ILLEGAL_DATA_VALUE, s, w)"

definition epoch_of :: "u16 \<Rightarrow> u16 \<Rightarrow> u32" where
  "epoch_of hi lo = push_bit 16 (ucast hi) OR ucast lo"

definition apply_cmd_set_time ::
  "u16 \<Rightarrow> u16 \<Rightarrow> 'w modbus_register_map \<Rightarrow> 'w \<Rightarrow> modbus_exception \<times> 'w modbus_register_map \<times> 'w" where
  "apply_cmd_set_time hi lo s w =
     (let s = s\<lparr>cmd_set_time_hi_last := hi\<rparr>;
          s = s\<lparr>cmd_set_time_lo_last := lo\<rparr>;
          epoch = epoch_of hi lo
      in if epoch < 946684800 \<or> epoch > 4102444799 then (MB_EXC_ILLEGAL_DATA_VALUE, s, w)
         else
           let (ok, w) = set_time s epoch w
           in if \<not> ok then (MB_EXC_ILLEGAL_DATA_VALUE, s, w) else (MB_EXC_NONE, s, w))"

section \<open>Slot table\<close>

definition slot_ro :: "u16 \<Rightarrow> reg_type \<Rightarrow> 'w reg_read_fn \<Rightarrow> 'w reg_slot" where
  "slot_ro a t r = \<lparr>slot_addr = a, slot_type = t, slot_access = REG_ACCESS_R, slot_read = r,
     slot_write = None, slot_validate = None\<rparr>"

definition slot_rw ::
  "u16 \<Rightarrow> reg_type \<Rightarrow> 'w reg_read_fn \<Rightarrow> 'w reg_write_fn \<Rightarrow> 'w reg_validate_fn option \<Rightarrow> 'w reg_slot" where
  "slot_rw a t r wr vf = \<lparr>slot_addr = a, slot_type = t, slot_access = REG_ACCESS_RW, slot_read = r,
     slot_write = Some wr, slot_validate = vf\<rparr>"

definition k_slots :: "fw_version \<Rightarrow> 'w reg_slot list" where
  "k_slots fw =
    [slot_ro 0x0000 REG_TYPE_UINT16 read_map_version,
     slot_ro 0x0001 REG_TYPE_UINT16 read_device_id_hi,
     slot_ro 0x0002 REG_TYPE_UINT16 read_device_id_lo,
     slot_ro 0x0003 REG_TYPE_UINT16 read_hardware_rev,
     slot_ro 0x0004 REG_TYPE_UINT16 (read_fw_ver_major fw),
     slot_ro 0x0005 REG_TYPE_UINT16 (read_fw_ver_minor fw),
     slot_ro 0x0006 REG_TYPE_UINT16 (read_fw_ver_patch fw),
     slot_ro 0x0007 REG_TYPE_UINT16 read_vendor_code,
     slot_ro 0x0010 REG_TYPE_INT16 read_temperature,
     slot_ro 0x0011 REG_TYPE_UINT16 read_humidity,
     slot_ro 0x0012 REG_TYPE_UINT16 read_pressure,
     slot_ro 0x0030 REG_TYPE_ENUM16 read_device_state,
     slot_ro 0x0031 REG_TYPE_BITFIELD16 read_alarm_flags,
     slot_ro 0x0032 REG_TYPE_UINT32_HI read_uptime_hi,
     slot_ro 0x0033 REG_TYPE_UINT32_LO read_uptime_lo,
     slot_ro 0x0034 REG_TYPE_UINT32_HI read_modbus_rx_ok_hi,
     slot_ro 0x0035 REG_TYPE_UINT32_LO read_modbus_rx_ok_lo,
     slot_ro 0x0036 REG_TYPE_UINT32_HI read_modbus_crc_err_hi,
     slot_ro 0x0037 REG_TYPE_UINT32_LO read_modbus_crc_err_lo,
     slot_ro 0x0038 REG_TYPE_UINT32_HI read_zero,
     slot_ro 0x0039 REG_TYPE_UINT32_LO read_zero,
     slot_ro 0x003A REG_TYPE_UINT32_HI read_sensor_err_hi,
     slot_ro 0x003B REG_TYPE_UINT32_LO read_sensor_err_lo,
     slot_rw 0x0100 REG_TYPE_INT16 read_temp_alarm_low write_temp_alarm_low (Some validate_temp_alarm_low),
     slot_rw 0x0101 REG_TYPE_INT16 read_temp_alarm_high write_temp_alarm_high (Some validate_temp_alarm_high),
     slot_rw 0x0102 REG_TYPE_UINT16 read_temp_hysteresis write_temp_hysteresis (Some validate_temp_hysteresis),
     slot_rw 0x0110 REG_TYPE_UINT16 read_hum_alarm_low write_hum_alarm_low (Some validate_hum_alarm_low),
     slot_rw 0x0111 REG_TYPE_UINT16 read_hum_alarm_high write_hum_alarm_high (Some validate_hum_alarm_high),
     slot_rw 0x0112 REG_TYPE_UINT16 read_hum_hysteresis write_hum_hysteresis (Some validate_hum_hysteresis),
     slot_rw 0x0120 REG_TYPE_UINT16 read_press_alarm_low write_press_alarm_low (Some validate_press_alarm_low),
     slot_rw 0x0121 REG_TYPE_UINT16 read_press_alarm_high write_press_alarm_high (Some validate_press_alarm_high),
     slot_rw 0x0122 REG_TYPE_UINT16 read_press_hysteresis write_press_hysteresis (Some validate_press_hysteresis),
     slot_rw 0x0130 REG_TYPE_UINT16 read_sampling_period write_sampling_period (Some validate_sampling_period),
     slot_rw 0x0140 REG_TYPE_UINT16 read_lcd_brightness write_lcd_brightness (Some validate_lcd_brightness),
     slot_rw 0x0141 REG_TYPE_UINT16 read_lcd_timeout write_lcd_timeout (Some validate_lcd_timeout),
     slot_rw 0x0150 REG_TYPE_UINT16 read_modbus_slave_addr write_modbus_slave_addr_reg (Some validate_slave_addr),
     slot_rw 0x0200 REG_TYPE_UINT16 read_cmd_ack_alarm write_cmd_ack_alarm None,
     slot_rw 0x0201 REG_TYPE_UINT16 read_cmd_reset_metrics write_cmd_reset_metrics None,
     slot_rw 0x0202 REG_TYPE_UINT16 read_cmd_soft_restart write_cmd_soft_restart None,
     slot_rw 0x0210 REG_TYPE_UINT16 read_cmd_set_time_hi write_cmd_set_time_single None,
     slot_rw 0x0211 REG_TYPE_UINT16 read_cmd_set_time_lo write_cmd_set_time_single None]"

definition find_slot :: "fw_version \<Rightarrow> u16 \<Rightarrow> 'w reg_slot option" where
  "find_slot fw addr = List.find (\<lambda>slot. slot_addr slot = addr) (k_slots fw)"

section \<open>Bulk operations\<close>

text \<open>The read loop, for the access class of the function code; the values read so far are kept.\<close>

fun read_slots ::
  "fw_version \<Rightarrow> reg_access \<Rightarrow> u16 \<Rightarrow> nat \<Rightarrow> 'w modbus_register_map \<Rightarrow> 'w \<Rightarrow> modbus_exception \<times> u16 list"
where
  "read_slots fw acc a 0 s w = (MB_EXC_NONE, [])"
| "read_slots fw acc a (Suc n) s w =
     (case find_slot fw a of None \<Rightarrow> (MB_EXC_ILLEGAL_DATA_ADDR, [])
      | Some slot \<Rightarrow>
          if slot_access slot \<noteq> acc then (MB_EXC_ILLEGAL_DATA_ADDR, [])
          else
            let (rc, v) = slot_read slot s w
            in if rc \<noteq> MB_EXC_NONE then (rc, [])
               else let (rc, vs) = read_slots fw acc (a + 1) n s w in (rc, v # vs))"

definition mrm_read_input_regs ::
  "fw_version \<Rightarrow> u16 \<Rightarrow> u16 \<Rightarrow> 'w modbus_register_map \<Rightarrow> 'w \<Rightarrow> modbus_exception \<times> u16 list" where
  "mrm_read_input_regs fw addr count s w =
     (if \<not> mrm_initialised s then (MB_EXC_ILLEGAL_DATA_VALUE, [])
      else if count = 0 \<or> count > 125 then (MB_EXC_ILLEGAL_DATA_VALUE, [])
      else read_slots fw REG_ACCESS_R addr (unat count) s w)"

definition mrm_read_holding_regs ::
  "fw_version \<Rightarrow> u16 \<Rightarrow> u16 \<Rightarrow> 'w modbus_register_map \<Rightarrow> 'w \<Rightarrow> modbus_exception \<times> u16 list" where
  "mrm_read_holding_regs fw addr count s w =
     (if \<not> mrm_initialised s then (MB_EXC_ILLEGAL_DATA_VALUE, [])
      else if count = 0 \<or> count > 125 then (MB_EXC_ILLEGAL_DATA_VALUE, [])
      else read_slots fw REG_ACCESS_RW addr (unat count) s w)"

text \<open>The validation of one register: its slot must be writable and its validator must agree.\<close>

definition check_slot ::
  "fw_version \<Rightarrow> u16 \<Rightarrow> u16 \<Rightarrow> 'w modbus_register_map \<Rightarrow> 'w \<Rightarrow> modbus_exception" where
  "check_slot fw a v s w =
     (case find_slot fw a of None \<Rightarrow> MB_EXC_ILLEGAL_DATA_ADDR
      | Some slot \<Rightarrow>
          if slot_access slot \<noteq> REG_ACCESS_RW \<or> Option.is_none (slot_write slot)
          then MB_EXC_ILLEGAL_DATA_ADDR
          else case slot_validate slot of None \<Rightarrow> MB_EXC_NONE | Some vf \<Rightarrow> vf s w v)"

definition write_slot ::
  "fw_version \<Rightarrow> u16 \<Rightarrow> u16 \<Rightarrow> 'w modbus_register_map \<Rightarrow> 'w \<Rightarrow> modbus_exception \<times> 'w modbus_register_map \<times> 'w" where
  "write_slot fw a v s w = the (slot_write (the (find_slot fw a))) v s w"

definition mrm_write_single_reg ::
  "fw_version \<Rightarrow> u16 \<Rightarrow> u16 \<Rightarrow> 'w modbus_register_map \<Rightarrow> 'w \<Rightarrow> modbus_exception \<times> 'w modbus_register_map \<times> 'w" where
  "mrm_write_single_reg fw addr v s w =
     (if \<not> mrm_initialised s then (MB_EXC_ILLEGAL_DATA_VALUE, s, w)
      else
        let rc = check_slot fw addr v s w
        in if rc \<noteq> MB_EXC_NONE then (rc, s, w) else write_slot fw addr v s w)"

fun check_slots ::
  "fw_version \<Rightarrow> u16 \<Rightarrow> u16 list \<Rightarrow> 'w modbus_register_map \<Rightarrow> 'w \<Rightarrow> modbus_exception" where
  "check_slots fw a [] s w = MB_EXC_NONE"
| "check_slots fw a (v # vs) s w =
     (let rc = check_slot fw a v s w
      in if rc \<noteq> MB_EXC_NONE then rc else check_slots fw (a + 1) vs s w)"

fun write_slots ::
  "fw_version \<Rightarrow> u16 \<Rightarrow> u16 list \<Rightarrow> 'w modbus_register_map \<Rightarrow> 'w \<Rightarrow> modbus_exception \<times> 'w modbus_register_map \<times> 'w" where
  "write_slots fw a [] s w = (MB_EXC_NONE, s, w)"
| "write_slots fw a (v # vs) s w =
     (let (rc, s, w) = write_slot fw a v s w
      in if rc \<noteq> MB_EXC_NONE then (rc, s, w) else write_slots fw (a + 1) vs s w)"

definition block_addrs :: "u16 \<Rightarrow> nat \<Rightarrow> u16 list" where
  "block_addrs addr n = map (\<lambda>i. addr + of_nat i) [0..<n]"

definition is_cmd_reg :: "u16 \<Rightarrow> bool" where
  "is_cmd_reg a \<longleftrightarrow> a \<ge> 0x0200 \<and> a \<le> 0x02FF"

definition is_time_reg :: "u16 \<Rightarrow> bool" where
  "is_time_reg a \<longleftrightarrow> a = 0x0210 \<or> a = 0x0211"

text \<open>\<open>vals\<close> are the \<^verbatim>\<open>count\<close> values of the block; \<^verbatim>\<open>cmd_regs\<close> cannot wrap for at most 123 of them.\<close>

definition mrm_write_multiple_regs ::
  "fw_version \<Rightarrow> u16 \<Rightarrow> u16 list \<Rightarrow> 'w modbus_register_map \<Rightarrow> 'w \<Rightarrow> modbus_exception \<times> 'w modbus_register_map \<times> 'w" where
  "mrm_write_multiple_regs fw addr vals s w =
     (if \<not> mrm_initialised s then (MB_EXC_ILLEGAL_DATA_VALUE, s, w)
      else if length vals = 0 \<or> length vals > 123 then (MB_EXC_ILLEGAL_DATA_VALUE, s, w)
      else
        let addrs = block_addrs addr (length vals);
            cmd_regs = length (filter is_cmd_reg addrs);
            touches_time_pair = list_ex is_time_reg addrs
        in if addr = 0x0210 \<and> length vals = 2 then apply_cmd_set_time (vals ! 0) (vals ! 1) s w
           else if touches_time_pair \<or> cmd_regs > 1 then (MB_EXC_ILLEGAL_DATA_VALUE, s, w)
           else
             let rc = check_slots fw addr vals s w
             in if rc \<noteq> MB_EXC_NONE then (rc, s, w) else write_slots fw addr vals s w)"

section \<open>Initialisation and polling\<close>

text \<open>
  \<open>deps\<close> carries the injected vtables (\<open>None\<close> when one of the pointers is \<^verbatim>\<open>NULL\<close>); the
  two time cells are not reset, as in the code.
\<close>

definition modbus_register_map_init ::
  "fw_version \<Rightarrow> 'w modbus_register_map option \<Rightarrow> 'w modbus_register_map \<Rightarrow> mrm_err \<times> 'w modbus_register_map" where
  "modbus_register_map_init fw deps s =
     (case deps of None \<Rightarrow> (MRM_ERR_NULL_ARG, s)
      | Some d \<Rightarrow>
          if \<not> sorted_wrt (<) (map slot_addr (k_slots fw :: 'w reg_slot list))
          then (MRM_ERR_INVARIANT, s)
          else (MRM_ERR_OK,
                d\<lparr>mrm_initialised := True, cmd_ack_alarm_last := 0, cmd_reset_metrics_last := 0,
                  cmd_soft_restart_last := 0, cmd_set_time_hi_last := cmd_set_time_hi_last s,
                  cmd_set_time_lo_last := cmd_set_time_lo_last s, last_stats_snapshot := zero_stats\<rparr>))"

definition modbus_register_map_poll_stats ::
  "'w modbus_register_map \<Rightarrow> 'w \<Rightarrow> mrm_err \<times> 'w modbus_register_map \<times> 'w" where
  "modbus_register_map_poll_stats s w =
     (if \<not> mrm_initialised s then (MRM_ERR_NOT_INIT, s, w)
      else
        let now = mb_stats s w; w = health_write s now w
        in (MRM_ERR_OK, s\<lparr>last_stats_snapshot := now\<rparr>, w))"

section \<open>The slot table\<close>

lemmas slot_defs = slot_ro_def slot_rw_def

lemma k_slots_sorted: "sorted_wrt (<) (map slot_addr (k_slots fw))"
  by (simp add: k_slots_def slot_defs)

lemma k_slots_distinct: "distinct (map slot_addr (k_slots fw))"
  using k_slots_sorted strict_sorted_iff by blast

lemma find_slot_iff:
  fixes slot :: "'w reg_slot"
  shows "find_slot fw a = Some slot \<longleftrightarrow> slot \<in> set (k_slots fw) \<and> slot_addr slot = a"
proof -
  have inj: "x = y" if "x \<in> set (k_slots fw)" "y \<in> set (k_slots fw)" "slot_addr x = slot_addr y"
    for x y :: "'w reg_slot"
    using k_slots_distinct that by (metis distinct_map inj_on_def)
  show ?thesis
  proof
    assume "find_slot fw a = Some slot"
    then show "slot \<in> set (k_slots fw) \<and> slot_addr slot = a"
      by (auto simp: find_slot_def find_Some_iff)
  next
    assume r: "slot \<in> set (k_slots fw) \<and> slot_addr slot = a"
    then have "\<exists>x :: 'w reg_slot. find_slot fw a = Some x"
      by (cases "find_slot fw a :: 'w reg_slot option") (auto simp: find_slot_def find_None_iff)
    then obtain x :: "'w reg_slot" where "find_slot fw a = Some x" by blast
    moreover from this have "x \<in> set (k_slots fw)" "slot_addr x = a"
      by (auto simp: find_slot_def find_Some_iff)
    ultimately show "find_slot fw a = Some slot" using inj [of x slot] r by simp
  qed
qed

text \<open>Facts that hold of every row of the table.\<close>

lemmas read_defs =
  read_map_version_def read_device_id_hi_def read_device_id_lo_def read_hardware_rev_def
  read_vendor_code_def read_fw_ver_major_def read_fw_ver_minor_def read_fw_ver_patch_def
  read_temperature_def read_humidity_def read_pressure_def read_device_state_def
  read_alarm_flags_def read_uptime_hi_def read_uptime_lo_def read_modbus_rx_ok_hi_def
  read_modbus_rx_ok_lo_def read_modbus_crc_err_hi_def read_modbus_crc_err_lo_def read_zero_def
  read_sensor_err_hi_def read_sensor_err_lo_def read_temp_alarm_low_def read_temp_alarm_high_def
  read_temp_hysteresis_def read_hum_alarm_low_def read_hum_alarm_high_def read_hum_hysteresis_def
  read_press_alarm_low_def read_press_alarm_high_def read_press_hysteresis_def
  read_sampling_period_def read_lcd_brightness_def read_lcd_timeout_def read_modbus_slave_addr_def
  read_cmd_ack_alarm_def read_cmd_reset_metrics_def read_cmd_soft_restart_def
  read_cmd_set_time_hi_def read_cmd_set_time_lo_def

lemmas write_defs =
  write_temp_alarm_low_def write_temp_alarm_high_def write_temp_hysteresis_def
  write_hum_alarm_low_def write_hum_alarm_high_def write_hum_hysteresis_def
  write_press_alarm_low_def write_press_alarm_high_def write_press_hysteresis_def
  write_sampling_period_def write_lcd_brightness_def write_lcd_timeout_def
  write_modbus_slave_addr_reg_def write_cmd_ack_alarm_def write_cmd_reset_metrics_def
  write_cmd_soft_restart_def write_cmd_set_time_single_def write_param_def

lemmas validate_defs =
  validate_temp_alarm_low_def validate_temp_alarm_high_def validate_temp_hysteresis_def
  validate_hum_alarm_low_def validate_hum_alarm_high_def validate_hum_hysteresis_def
  validate_press_alarm_low_def validate_press_alarm_high_def validate_press_hysteresis_def
  validate_sampling_period_def validate_lcd_brightness_def validate_lcd_timeout_def
  validate_slave_addr_def value_if_def

lemma read_sensor_none: "fst (read_sensor i d s w) = MB_EXC_NONE"
  by (simp add: read_sensor_def split: option.splits)

lemma slot_read_none: "slot \<in> set (k_slots fw) \<Longrightarrow> fst (slot_read slot s w) = MB_EXC_NONE"
  by (auto simp: k_slots_def slot_defs read_defs read_sensor_none Let_def)

lemma slot_access_write:
  "slot \<in> set (k_slots fw) \<Longrightarrow> slot_access slot = REG_ACCESS_RW \<longleftrightarrow> slot_write slot \<noteq> None"
  by (auto simp: k_slots_def slot_defs)

definition value_exc :: "modbus_exception \<Rightarrow> bool" where
  "value_exc e \<longleftrightarrow> e = MB_EXC_NONE \<or> e = MB_EXC_ILLEGAL_DATA_VALUE"

lemma write_param_exc: "value_exc (fst (write_param pid v s w))"
  by (simp add: write_param_def value_if_def value_exc_def split: prod.splits)

lemma slot_write_exc:
  "slot \<in> set (k_slots fw) \<Longrightarrow> slot_write slot = Some wr \<Longrightarrow> value_exc (fst (wr v s w))"
  unfolding k_slots_def slot_defs
  by (auto simp: write_defs(1-10) write_param_exc)
     (simp_all add: write_defs(11-17) value_exc_def Let_def split: prod.splits)

lemma slot_validate_exc:
  "slot \<in> set (k_slots fw) \<Longrightarrow> slot_validate slot = Some vf \<Longrightarrow> value_exc (vf s w v)"
  unfolding k_slots_def slot_defs
  by (auto simp: validate_defs value_exc_def split: if_splits)

lemma check_slot_ok:
  fixes s :: "'w modbus_register_map"
  assumes "check_slot fw a v s w = MB_EXC_NONE"
  obtains slot wr where "find_slot fw a = Some slot" "slot \<in> set (k_slots fw)" "slot_addr slot = a"
    "slot_write slot = Some wr" "slot_access slot = REG_ACCESS_RW"
    "\<And>vf. slot_validate slot = Some vf \<Longrightarrow> vf s w v = MB_EXC_NONE"
proof (cases "find_slot fw a :: 'w reg_slot option")
  case None
  with assms show thesis by (simp add: check_slot_def)
next
  case (Some slot)
  then have "slot \<in> set (k_slots fw)" "slot_addr slot = a" by (simp_all add: find_slot_iff)
  moreover obtain wr where "slot_write slot = Some wr" "slot_access slot = REG_ACCESS_RW"
    using assms Some by (cases "slot_write slot") (auto simp: check_slot_def split: if_splits)
  moreover have "vf s w v = MB_EXC_NONE" if "slot_validate slot = Some vf" for vf
    using assms Some that by (auto simp: check_slot_def split: if_splits)
  ultimately show thesis using that [of slot wr] Some by blast
qed

lemma write_slot_exc:
  fixes s s' :: "'w modbus_register_map"
  assumes "check_slot fw a v' s' w' = MB_EXC_NONE"
  shows "value_exc (fst (write_slot fw a v s w))"
  using assms
proof (rule check_slot_ok)
  fix slot :: "'w reg_slot" and wr
  assume "find_slot fw a = Some slot" "slot \<in> set (k_slots fw)" "slot_write slot = Some wr"
  then show ?thesis using slot_write_exc [of slot fw wr v s w] by (simp add: write_slot_def)
qed

lemma check_slots_all:
  "check_slots fw a vs s w = MB_EXC_NONE \<Longrightarrow>
   i < length vs \<Longrightarrow> check_slot fw (a + of_nat i) (vs ! i) s w = MB_EXC_NONE"
proof (induction vs arbitrary: a i)
  case (Cons v vs)
  show ?case
  proof (cases i)
    case 0
    with Cons.prems show ?thesis by (simp add: Let_def split: if_splits)
  next
    case (Suc j)
    with Cons.prems Cons.IH [of "a + 1" j] show ?thesis
      by (simp add: Let_def add.assoc split: if_splits)
  qed
qed simp

text \<open>Phase 2 never meets an unmapped register, whatever the handlers before it changed.\<close>

lemma write_slots_exc:
  fixes s s0 :: "'w modbus_register_map"
  assumes "\<And>i. i < length vs \<Longrightarrow> check_slot fw (a + of_nat i) (vs ! i) s0 w0 = MB_EXC_NONE"
  shows "value_exc (fst (write_slots fw a vs s w))"
  using assms
proof (induction vs arbitrary: a s w)
  case (Cons v vs)
  obtain rc s1 w1 where ws: "write_slot fw a v s w = (rc, s1, w1)" by (metis surj_pair)
  have "check_slot fw a v s0 w0 = MB_EXC_NONE" using Cons.prems [of 0] by simp
  then have "value_exc rc" using write_slot_exc [of fw a v s0 w0 v s w] ws by simp
  moreover have "value_exc (fst (write_slots fw (a + 1) vs s1 w1))"
  proof (rule Cons.IH)
    fix i assume "i < length vs"
    then show "check_slot fw (a + 1 + of_nat i) (vs ! i) s0 w0 = MB_EXC_NONE"
      using Cons.prems [of "Suc i"] by (simp add: add.assoc)
  qed
  ultimately show ?case by (simp add: ws)
qed (simp add: value_exc_def)

text \<open>C20: an FC16 write that is answered with Illegal Data Address, because any register of the block
  does not exist or is read-only, has changed nothing: no register before the bad one has been
  written.\<close>

theorem bad_address_writes_nothing:
  assumes "mrm_write_multiple_regs fw addr vals s w = (MB_EXC_ILLEGAL_DATA_ADDR, s', w')"
  shows "s' = s \<and> w' = w"
proof -
  have "value_exc (fst (write_slots fw addr vals s w))" if "check_slots fw addr vals s w = MB_EXC_NONE"
    by (rule write_slots_exc) (rule check_slots_all [OF that])
  moreover have "value_exc (fst (apply_cmd_set_time hi lo s w))" for hi lo
    by (simp add: apply_cmd_set_time_def Let_def value_exc_def split: prod.splits)
  ultimately show ?thesis
    using assms
    by (auto simp: mrm_write_multiple_regs_def Let_def value_exc_def split: if_splits)
       (metis fst_conv modbus_exception.distinct)+
qed

section \<open>Reading back what was written\<close>

lemma ucast_u16_u32_roundtrip [simp]: "ucast (ucast (v :: u16) :: u32) = v"
  by (rule bit_word_eqI) (simp add: bit_simps)

lemma as_u16_ucast [simp]: "as_u16 (ucast v) = v"
  by (simp add: as_u16_def)

lemma ucast_u8_roundtrip:
  assumes "v \<le> 247"
  shows "ucast (as_u8 (ucast (ucast (v :: u16) :: u8))) = v"
proof -
  have "unat v < 256" using assms by (simp add: word_le_nat_alt)
  then have "take_bit 8 v = v"
    by (intro unsigned_word_eqI [where 'a = nat])
       (simp add: unsigned_take_bit_eq take_bit_nat_eq_self)
  then have "bit v n \<longleftrightarrow> n < 8 \<and> bit v n" for n by (metis bit_take_bit_iff)
  then show ?thesis
    by (intro bit_word_eqI) (auto simp: as_u8_def bit_simps)
qed

text \<open>What the map relies on in ConfigService: a successful write shows in the parameters, a
  rejected one has no effect, and the address callback does not touch the parameters.\<close>

locale config_access =
  fixes rd_params :: "'w \<Rightarrow> config_params"
    and wr_param :: "config_param_id \<Rightarrow> u32 \<Rightarrow> 'w \<Rightarrow> config_service_err \<times> 'w"
    and set_addr :: "u8 \<Rightarrow> 'w \<Rightarrow> 'w"
  assumes write_ok:
      "wr_param pid v w = (CONFIG_SERVICE_OK, w') \<Longrightarrow> rd_params w' = apply_param_to_struct (rd_params w) pid v"
    and write_rejected: "wr_param pid v w = (CONFIG_SERVICE_ERR_INVALID, w') \<Longrightarrow> w' = w"
    and addr_keeps: "rd_params (set_addr a w) = rd_params w"
begin

definition uses :: "'w modbus_register_map \<Rightarrow> bool" where
  "uses s \<longleftrightarrow> cfg_read s = rd_params \<and> cfg_write s = wr_param \<and> mb_slave_set_address s = set_addr"

lemma slot_read_back:
  assumes "slot \<in> set (k_slots fw)" "slot_write slot = Some wr" "uses s"
    and "slot_addr slot \<noteq> 0x0140" "slot_addr slot \<noteq> 0x0141"
    and "\<And>vf. slot_validate slot = Some vf \<Longrightarrow> vf s w v = MB_EXC_NONE"
    and "wr v s w = (MB_EXC_NONE, s', w')"
  shows "slot_read slot s' w' = (MB_EXC_NONE, v)"
  using assms write_ok [of _ "ucast v" w] write_ok [of _ "ucast (ucast v :: u8)" w] addr_keeps ucast_u8_roundtrip [of v]
  unfolding k_slots_def slot_defs
  by (auto simp: write_defs read_defs uses_def value_if_def validate_slave_addr_def Let_def
      split: prod.splits if_splits)

lemma single_write_reads_back:
  assumes "uses s" "addr \<noteq> 0x0140" "addr \<noteq> 0x0141"
    and w: "mrm_write_single_reg fw addr v s w = (MB_EXC_NONE, s', w')"
    and "mrm_initialised s'"
  shows "mrm_read_holding_regs fw addr 1 s' w' = (MB_EXC_NONE, [v])"
proof -
  have ok: "check_slot fw addr v s w = MB_EXC_NONE" "write_slot fw addr v s w = (MB_EXC_NONE, s', w')"
    using w by (auto simp: mrm_write_single_reg_def Let_def split: if_splits)
  from ok(1) show ?thesis
  proof (rule check_slot_ok)
    fix slot :: "'w reg_slot" and wr
    assume slot: "find_slot fw addr = Some slot" "slot \<in> set (k_slots fw)" "slot_addr slot = addr"
      "slot_write slot = Some wr" "slot_access slot = REG_ACCESS_RW"
      "\<And>vf. slot_validate slot = Some vf \<Longrightarrow> vf s w v = MB_EXC_NONE"
    have "wr v s w = (MB_EXC_NONE, s', w')" using ok(2) slot by (simp add: write_slot_def)
    then have "slot_read slot s' w' = (MB_EXC_NONE, v)"
      using slot_read_back [OF slot(2,4) assms(1)] slot(3,6) assms(2,3) by blast
    then show ?thesis
      using assms(5) slot(1,5) by (simp add: mrm_read_holding_regs_def)
  qed
qed

end

text \<open>A write changes the command cells and the cached counters of the map, never its wiring.\<close>

definition same_wiring :: "'w modbus_register_map \<Rightarrow> 'w modbus_register_map \<Rightarrow> bool" where
  "same_wiring s s' \<longleftrightarrow>
    mrm_initialised s' = mrm_initialised s \<and> sensors s' = sensors s \<and> alarms_get s' = alarms_get s \<and>
    alarms_ack s' = alarms_ack s \<and> cfg_read s' = cfg_read s \<and> cfg_write s' = cfg_write s \<and>
    health_read s' = health_read s \<and> health_write s' = health_write s \<and> set_time s' = set_time s \<and>
    mb_stats s' = mb_stats s \<and> mb_slave_set_address s' = mb_slave_set_address s \<and>
    lifecycle_command s' = lifecycle_command s"

lemma same_wiring_refl [simp]: "same_wiring s s"
  by (simp add: same_wiring_def)

lemma same_wiring_trans: "same_wiring s t \<Longrightarrow> same_wiring t u \<Longrightarrow> same_wiring s u"
  by (simp add: same_wiring_def)

lemma same_wiring_cells [simp]:
  "same_wiring s (s\<lparr>cmd_ack_alarm_last := v\<rparr>)" "same_wiring s (s\<lparr>cmd_reset_metrics_last := v\<rparr>)"
  "same_wiring s (s\<lparr>cmd_reset_metrics_last := v, last_stats_snapshot := st\<rparr>)"
  "same_wiring s (s\<lparr>cmd_soft_restart_last := v\<rparr>)"
  "same_wiring s (s\<lparr>cmd_set_time_hi_last := v, cmd_set_time_lo_last := u\<rparr>)"
  by (simp_all add: same_wiring_def)

lemma write_param_wiring [simp]: "fst (snd (write_param pid v s w)) = s"
  by (simp add: write_param_def split: prod.splits)

lemma slot_write_keeps:
  "slot \<in> set (k_slots fw) \<Longrightarrow> slot_write slot = Some wr \<Longrightarrow> same_wiring s (fst (snd (wr v s w)))"
  unfolding k_slots_def slot_defs
  by (auto simp: write_defs(1-10))
     (simp_all add: write_defs(11-17) Let_def split: prod.splits)

section \<open>Access classes\<close>

text \<open>no register is visible through both read functions: an address FC04 can read is answered
  with Illegal Data Address by FC03, and the other way round.\<close>

theorem input_and_holding_disjoint:
  "fst (mrm_read_input_regs fw a 1 s w) = MB_EXC_NONE \<Longrightarrow>
   mrm_read_holding_regs fw a 1 s w = (MB_EXC_ILLEGAL_DATA_ADDR, [])"
  by (auto simp: mrm_read_input_regs_def mrm_read_holding_regs_def split: option.splits if_splits prod.splits)

section \<open>The time pair\<close>

definition time_refused ::
  "'w modbus_register_map \<Rightarrow> 'w \<Rightarrow> modbus_exception \<times> 'w modbus_register_map \<times> 'w \<Rightarrow> bool" where
  "time_refused s w r \<longleftrightarrow> r = (MB_EXC_ILLEGAL_DATA_VALUE, s, w)"

lemma find_time_slot:
  "find_slot fw 0x0210 = Some (slot_rw 0x0210 REG_TYPE_UINT16 read_cmd_set_time_hi write_cmd_set_time_single None)"
  "find_slot fw 0x0211 = Some (slot_rw 0x0211 REG_TYPE_UINT16 read_cmd_set_time_lo write_cmd_set_time_single None)"
  by (auto simp: find_slot_iff k_slots_def slot_defs)

text \<open>C26: how the two time registers are written.  In an initialised register map a single write to either
  of them, and a block write that touches one of them without being exactly the two, are refused and
  change nothing, not even the cached halves.  Writing exactly the two hands the epoch to TimeProvider once,
  when it lies in 2000..2099, and reports OK exactly when TimeProvider takes it; any other epoch is
  refused as an illegal value and not handed on.\<close>

theorem time_registers_written_as_pair:
  assumes "mrm_initialised s"
  shows "(a = 0x0210 \<or> a = 0x0211 \<longrightarrow> time_refused s w (mrm_write_single_reg fw a v s w)) \<and>
    (\<not> (a = 0x0210 \<and> length vals = 2) \<and> list_ex is_time_reg (block_addrs a (length vals)) \<longrightarrow>
       time_refused s w (mrm_write_multiple_regs fw a vals s w)) \<and>
    (case mrm_write_multiple_regs fw 0x0210 [hi, lo] s w of (e, s', w') \<Rightarrow>
       if epoch_of hi lo < 946684800 \<or> epoch_of hi lo > 4102444799
       then e = MB_EXC_ILLEGAL_DATA_VALUE \<and> w' = w
       else (e = MB_EXC_NONE \<longleftrightarrow> fst (set_time s (epoch_of hi lo) w)) \<and>
            w' = snd (set_time s (epoch_of hi lo) w))"
proof (intro conjI impI)
  assume "a = 0x0210 \<or> a = 0x0211"
  then show "time_refused s w (mrm_write_single_reg fw a v s w)"
    using assms
    by (auto simp: time_refused_def mrm_write_single_reg_def check_slot_def write_slot_def
        find_time_slot slot_defs write_cmd_set_time_single_def)
next
  assume "\<not> (a = 0x0210 \<and> length vals = 2) \<and> list_ex is_time_reg (block_addrs a (length vals))"
  then show "time_refused s w (mrm_write_multiple_regs fw a vals s w)"
    using assms by (auto simp: time_refused_def mrm_write_multiple_regs_def Let_def)
next
  show "case mrm_write_multiple_regs fw 0x0210 [hi, lo] s w of (e, s', w') \<Rightarrow>
       if epoch_of hi lo < 946684800 \<or> epoch_of hi lo > 4102444799
       then e = MB_EXC_ILLEGAL_DATA_VALUE \<and> w' = w
       else (e = MB_EXC_NONE \<longleftrightarrow> fst (set_time s (epoch_of hi lo) w)) \<and>
            w' = snd (set_time s (epoch_of hi lo) w)"
    using assms by (auto simp: mrm_write_multiple_regs_def apply_cmd_set_time_def Let_def
        split: prod.splits)
qed

section \<open>The alarm flags\<close>

text \<open>The flag word tells the three alarm states apart: bits \<open>2 * i\<close> and \<open>2 * i + 1\<close>.\<close>

definition decode_flags :: "u16 \<Rightarrow> nat \<Rightarrow> alarm_state" where
  "decode_flags f i =
     (if bit f (2 * i) then ALARM_STATE_ACTIVE_LOW
      else if bit f (2 * i + 1) then ALARM_STATE_ACTIVE_HIGH else ALARM_STATE_CLEAR)"

lemma bit_flag_if: "bit (flag_if b k) n \<longleftrightarrow> b \<and> n = k \<and> k < 16"
  by (auto simp: flag_if_def bit_simps)

text \<open>the alarm-flag register loses nothing: the state of each of the three environmental alarms
  can be read back from its two bits, and bit 6 is set exactly when the sensor service or one of
  the three readings is not valid.\<close>

theorem alarm_flags_decode:
  "map (decode_flags (snd (read_alarm_flags s w))) [0, 1, 2] = map ((!) (alarms_get s w)) [0, 1, 2] \<and>
   (bit (snd (read_alarm_flags s w)) 6 \<longleftrightarrow>
      (case sensors s w of None \<Rightarrow> True | Some snap \<Rightarrow> list_ex (\<lambda>i. \<not> rd_valid (snap ! i)) [0..<3]))"
proof -
  have "alarms_get s w ! i = decode_flags (snd (read_alarm_flags s w)) i" if "i < 3" for i
  proof -
    from that consider "i = 0" | "i = 1" | "i = 2" by linarith
    then show ?thesis
      by cases (cases "alarms_get s w ! i";
          simp add: decode_flags_def read_alarm_flags_def Let_def bit_or_iff bit_flag_if
            SENSOR_ID_TEMPERATURE_def SENSOR_ID_HUMIDITY_def SENSOR_ID_PRESSURE_def)+
  qed
  moreover have "bit (snd (read_alarm_flags s w)) 6 \<longleftrightarrow>
      (case sensors s w of None \<Rightarrow> True | Some snap \<Rightarrow> list_ex (\<lambda>i. \<not> rd_valid (snap ! i)) [0..<3])"
    by (simp add: read_alarm_flags_def Let_def bit_or_iff bit_flag_if split: option.splits)
  ultimately show ?thesis by simp
qed

section \<open>What a write can reach\<close>

text \<open>Whatever the injected operations keep, every write to the map keeps.\<close>

definition effects_in :: "('w \<Rightarrow> 'w \<Rightarrow> bool) \<Rightarrow> 'w modbus_register_map \<Rightarrow> bool" where
  "effects_in R m \<longleftrightarrow>
     (\<forall>pid v w. R w (snd (cfg_write m pid v w))) \<and> (\<forall>w. R w (alarms_ack m w)) \<and>
     (\<forall>v w. R w (snd (set_time m v w))) \<and> (\<forall>a w. R w (mb_slave_set_address m a w)) \<and>
     (\<forall>c w. R w (lifecycle_command m c w))"

lemma effects_in_wiring: "same_wiring m m' \<Longrightarrow> effects_in R m' = effects_in R m"
  by (simp add: effects_in_def same_wiring_def)

text \<open>The result of an operation: effects within \<open>R\<close>, wiring unchanged.\<close>

definition within ::
  "('w \<Rightarrow> 'w \<Rightarrow> bool) \<Rightarrow> 'w modbus_register_map \<Rightarrow> 'w \<Rightarrow> modbus_exception \<times> 'w modbus_register_map \<times> 'w \<Rightarrow> bool"
where
  "within R m w r \<longleftrightarrow> (case r of (_, m', w') \<Rightarrow> same_wiring m m' \<and> R w w')"

lemma slot_write_within:
  assumes "reflp R" "transp R" "effects_in R m" "slot \<in> set (k_slots fw)" "slot_write slot = Some wr"
  shows "within R m w (wr v m w)"
proof -
  have refl: "R w w" for w using assms(1) by (rule reflpD)
  have cfg: "R w w'" if "cfg_write m pid x w = (e, w')" for pid x w e w'
    using assms(3) that unfolding effects_in_def by (metis snd_conv)
  have addr: "R w (mb_slave_set_address m a w')" if "cfg_write m pid x w = (e, w')" for a pid x w e w'
    using assms(2,3) cfg [OF that] unfolding effects_in_def by (meson transpD)
  have m: "same_wiring m (fst (snd (wr v m w)))" using assms(4,5) by (rule slot_write_keeps)
  have "R w (snd (snd (wr v m w)))"
    using assms(3,4,5) unfolding k_slots_def slot_defs effects_in_def
    by (auto simp: write_defs Let_def refl split: prod.splits intro: cfg addr)
  with m show ?thesis by (simp add: within_def split_def)
qed

lemma write_slot_within:
  fixes m s' :: "'w modbus_register_map"
  assumes "reflp R" "transp R" "effects_in R m" "check_slot fw a v' s' w' = MB_EXC_NONE"
  shows "within R m w (write_slot fw a v m w)"
  using assms(4)
proof (rule check_slot_ok)
  fix slot :: "'w reg_slot" and wr
  assume "find_slot fw a = Some slot" "slot \<in> set (k_slots fw)" "slot_write slot = Some wr"
  then show ?thesis using slot_write_within [OF assms(1-3)] by (simp add: write_slot_def)
qed

lemma write_slots_within:
  fixes m s0 :: "'w modbus_register_map"
  assumes "reflp R" "transp R" "effects_in R m"
    and "\<And>i. i < length vs \<Longrightarrow> check_slot fw (a + of_nat i) (vs ! i) s0 w0 = MB_EXC_NONE"
  shows "within R m w (write_slots fw a vs m w)"
  using assms(3,4)
proof (induction vs arbitrary: a m w)
  case Nil
  then show ?case using assms(1) by (simp add: within_def reflpD)
next
  case (Cons v vs)
  obtain rc m1 w1 where ws: "write_slot fw a v m w = (rc, m1, w1)" by (metis surj_pair)
  have "check_slot fw a v s0 w0 = MB_EXC_NONE" using Cons.prems(2) [of 0] by simp
  then have 1: "same_wiring m m1" "R w w1"
    using write_slot_within [OF assms(1,2) Cons.prems(1), of fw a v s0 w0 w v] ws by (auto simp: within_def)
  have 2: "within R m1 w1 (write_slots fw (a + 1) vs m1 w1)"
  proof (rule Cons.IH)
    show "effects_in R m1" using Cons.prems(1) effects_in_wiring [OF 1(1)] by simp
    fix i assume "i < length vs"
    then show "check_slot fw (a + 1 + of_nat i) (vs ! i) s0 w0 = MB_EXC_NONE"
      using Cons.prems(2) [of "Suc i"] by (simp add: add.assoc)
  qed
  show ?case
    using 1 2 assms(2) by (auto simp: ws within_def split: prod.splits intro: same_wiring_trans dest: transpD)
qed

lemma single_write_within:
  assumes "reflp R" "transp R" "effects_in R m"
  shows "within R m w (mrm_write_single_reg fw a v m w)"
  using write_slot_within [OF assms, of fw a v m w w v] assms(1)
  by (auto simp: mrm_write_single_reg_def Let_def within_def reflpD)

lemma block_write_within:
  assumes "reflp R" "transp R" "effects_in R m"
  shows "within R m w (mrm_write_multiple_regs fw a vs m w)"
proof -
  have "within R m w (write_slots fw a vs m w)" if "check_slots fw a vs m w = MB_EXC_NONE"
    by (rule write_slots_within [OF assms]) (rule check_slots_all [OF that])
  moreover have "R w w'" if "set_time m x w = (ok, w')" for x ok w'
    using assms(3) that unfolding effects_in_def by (metis snd_conv)
  then have "within R m w (apply_cmd_set_time hi lo m w)" for hi lo
    using assms(1) by (auto simp: apply_cmd_set_time_def Let_def within_def reflpD split: prod.splits)
  ultimately show ?thesis
    using assms(1) by (auto simp: mrm_write_multiple_regs_def Let_def within_def reflpD)
qed

end
