(* ===== verification/Field_Device.thy ===== *)
theory Field_Device
  imports Register_Map
begin

text \<open>
  The Field Device put together: the bridge from the Modbus slave to the register map and the glue
  of \<^verbatim>\<open>Src/main.c\<close>, and the event loop of \<^verbatim>\<open>lifecycle_controller.c\<close>.

  The environment of the slave (\<open>fd_env\<close>) holds the data of every service; the vtables that
  \<^verbatim>\<open>main.c\<close> injects into the register map are the constant functions of \<open>fd_mrm\<close>.  The RTC
  driver and the configuration store are parameters (\<open>'r\<close>, \<open>'st\<close>).  The interpretations of
  \<open>modbus_map\<close> and \<open>config_access\<close> on these definitions turn the lemmas of the slave and of the
  register map into properties of the device.
\<close>

section \<open>State\<close>

type_synonym alarm_log = "(nat \<times> alarm_event \<times> int) list"
type_synonym alarm_part = "alarm_log alarm_service \<times> alarm_log"

text \<open>What the configuration callbacks and the store work on.\<close>

record 'st fd_back =
  alarm_part :: alarm_part
  store :: 'st

datatype lc_state =
    LIFECYCLE_STATE_INIT | LIFECYCLE_STATE_OPERATIONAL | LIFECYCLE_STATE_EDITING_CONFIG
  | LIFECYCLE_STATE_FAULTED

datatype lc_event_type =
    LC_EVENT_CONFIG_EDIT_ENTER | LC_EVENT_CONFIG_EDIT_APPLY | LC_EVENT_CONFIG_EDIT_CANCEL
  | LC_EVENT_CONFIG_EDIT_TIMEOUT | LC_EVENT_RESTART_REQUESTED | LC_EVENT_RESTART_CONFIRMED
  | LC_EVENT_RESTART_TIMEOUT | LC_EVENT_OTA_REQUESTED | LC_EVENT_SELF_CHECK_PASS
  | LC_EVENT_SELF_CHECK_FAIL | LC_EVENT_UNRECOVERABLE_FAULT

record lifecycle =
  lc_initialised :: bool
  lc_state :: lc_state
  lc_queue :: "(lc_event_type \<times> u32) list"
  lc_edit_timer :: bool
  lc_faults :: "u32 list"
  wd_last_cycles :: u32
  wd_kicks :: nat

text \<open>The data cells of the register map (its wiring is constant).\<close>

record mrm_cells =
  mc_ready :: bool
  mc_ack :: u16
  mc_reset :: u16
  mc_restart :: u16
  mc_time_hi :: u16
  mc_time_lo :: u16
  mc_stats :: slave_stats

record ('st, 'r) fd_env =
  cells :: mrm_cells
  config :: "'st fd_back config_service"
  host :: "'st fd_back"
  sensor :: "alarm_part sensor_service"
  sensors_ready :: bool
  health :: health_snapshot
  health_stats :: slave_stats
  clock :: "time_provider \<times> 'r \<times> time_event list"
  lc :: lifecycle

type_synonym ('st, 'r) fd = "('st, 'r) fd_env modbus_slave"

section \<open>Alarm thresholds follow the configuration\<close>

text \<open>Temperatures are signed 16-bit fields, the others unsigned; all are widened to \<^verbatim>\<open>int32_t\<close>.\<close>

definition apply_alarm_thresholds :: "config_params option \<Rightarrow> 'w alarm_service \<Rightarrow> 'w alarm_service" where
  "apply_alarm_thresholds p a =
     (case p of None \<Rightarrow> a
      | Some p \<Rightarrow>
          let a = snd (alarm_service_set_thresholds SENSOR_ID_TEMPERATURE (scast (temp_alarm_high p))
                         (scast (temp_alarm_low p)) (scast (temp_hysteresis p)) a);
              a = snd (alarm_service_set_thresholds SENSOR_ID_HUMIDITY (ucast (humidity_alarm_high p))
                         (ucast (humidity_alarm_low p)) (ucast (humidity_hysteresis p)) a)
          in snd (alarm_service_set_thresholds SENSOR_ID_PRESSURE (ucast (pressure_alarm_high p))
                    (ucast (pressure_alarm_low p)) (ucast (pressure_hysteresis p)) a))"

fun is_alarm_param :: "config_param_id \<Rightarrow> bool" where
  "is_alarm_param CONFIG_PARAM_TEMP_ALARM_HIGH = True"
| "is_alarm_param CONFIG_PARAM_TEMP_ALARM_LOW = True"
| "is_alarm_param CONFIG_PARAM_TEMP_HYSTERESIS = True"
| "is_alarm_param CONFIG_PARAM_HUMIDITY_ALARM_HIGH = True"
| "is_alarm_param CONFIG_PARAM_HUMIDITY_ALARM_LOW = True"
| "is_alarm_param CONFIG_PARAM_HUMIDITY_HYSTERESIS = True"
| "is_alarm_param CONFIG_PARAM_PRESSURE_ALARM_HIGH = True"
| "is_alarm_param CONFIG_PARAM_PRESSURE_ALARM_LOW = True"
| "is_alarm_param CONFIG_PARAM_PRESSURE_HYSTERESIS = True"
| "is_alarm_param _ = False"

text \<open>The callback reads the live parameters through \<^verbatim>\<open>config_service_get_params\<close>.\<close>

definition on_config_changed :: "config_param_id \<Rightarrow> config_params \<Rightarrow> 'st fd_back \<Rightarrow> 'st fd_back" where
  "on_config_changed pid p b =
     (if is_alarm_param pid
      then b\<lparr>alarm_part := (apply_alarm_thresholds (Some p) (fst (alarm_part b)), snd (alarm_part b))\<rparr>
      else b)"

text \<open>The start of \<^verbatim>\<open>sensor_task\<close>, up to its loop; the alarm log is what \<^verbatim>\<open>on_alarm_event\<close> logs.\<close>

definition on_new_readings :: "sensor_snapshot \<Rightarrow> alarm_part \<Rightarrow> alarm_part" where
  "on_new_readings snap a = alarm_service_evaluate (readings snap) a"

definition sensor_task_start :: "bool \<Rightarrow> bool \<Rightarrow> bool \<Rightarrow> ('st, 'r) fd_env \<Rightarrow> ('st, 'r) fd_env" where
  "sensor_task_start ht_ok baro_ok timer_ok e =
     (let (err, ss) = sensor_service_init ht_ok baro_ok timer_ok
      in if err \<noteq> SENSOR_SERVICE_ERR_OK then e\<lparr>sensor := ss\<rparr>
         else
           let (sub, ss) = sensor_service_subscribe (Some on_new_readings) ss;
               (err, a) = alarm_service_init (sub = SENSOR_SERVICE_ERR_OK);
               log = snd (alarm_part (host e))
           in if err \<noteq> ALARM_SERVICE_ERR_OK
              then e\<lparr>sensor := ss, host := (host e)\<lparr>alarm_part := (a, log)\<rparr>\<rparr>
              else
                let a = snd (alarm_service_subscribe (Some event_recorder) a);
                    a = apply_alarm_thresholds (config_service_get_params (config e)) a;
                    c = snd (config_service_register_change_callback (Some on_config_changed) (config e))
                in e\<lparr>sensor := ss, host := (host e)\<lparr>alarm_part := (a, log)\<rparr>, config := c,
                     sensors_ready := True\<rparr>)"

definition sensor_task_cycle ::
  "(u32 \<times> time_sync_state) option \<Rightarrow> (u32 \<times> u32) option \<Rightarrow> u32 option \<Rightarrow> ('st, 'r) fd_env \<Rightarrow> ('st, 'r) fd_env" where
  "sensor_task_cycle now ht baro e =
     (let (_, ss, a) = sensor_service_run_cycle now ht baro (sensor e) (alarm_part (host e))
      in e\<lparr>sensor := ss, host := (host e)\<lparr>alarm_part := a\<rparr>\<rparr>)"

section \<open>Lifecycle\<close>

definition LC_QUEUE_DEPTH :: nat where "LC_QUEUE_DEPTH = 4"

definition lc_post_event :: "lc_event_type \<times> u32 \<Rightarrow> lifecycle \<Rightarrow> bool \<times> lifecycle" where
  "lc_post_event ev l =
     (if \<not> lc_initialised l then (False, l)
      else if length (lc_queue l) \<ge> LC_QUEUE_DEPTH then (False, l)
      else (True, l\<lparr>lc_queue := lc_queue l @ [ev]\<rparr>))"

datatype lifecycle_err =
    LIFECYCLE_ERR_OK | LIFECYCLE_ERR_NULL_ARG | LIFECYCLE_ERR_NOT_INIT | LIFECYCLE_ERR_QUEUE_FULL
  | LIFECYCLE_ERR_UNKNOWN_CMD | LIFECYCLE_ERR_BAD_STATE

definition handle_remote_command :: "lc_remote_cmd \<Rightarrow> lifecycle \<Rightarrow> lifecycle_err \<times> lifecycle" where
  "handle_remote_command cmd l =
     (if \<not> lc_initialised l then (LIFECYCLE_ERR_NOT_INIT, l)
      else case cmd of
        LC_REMOTE_CMD_RESET_METRICS \<Rightarrow> (LIFECYCLE_ERR_OK, l)
      | LC_REMOTE_CMD_SOFT_RESTART \<Rightarrow>
          let (sent, l) = lc_post_event (LC_EVENT_RESTART_REQUESTED, 0) l
          in if \<not> sent then (LIFECYCLE_ERR_QUEUE_FULL, l) else (LIFECYCLE_ERR_OK, l))"

definition enter_faulted :: "u32 \<Rightarrow> lifecycle \<Rightarrow> lifecycle" where
  "enter_faulted code l = l\<lparr>lc_state := LIFECYCLE_STATE_FAULTED, lc_faults := code # lc_faults l\<rparr>"

definition upd_lc :: "(lifecycle \<Rightarrow> lifecycle) \<Rightarrow> ('st, 'r) fd \<Rightarrow> ('st, 'r) fd" where
  "upd_lc f s = s\<lparr>ms_env := (ms_env s)\<lparr>lc := f (lc (ms_env s))\<rparr>\<rparr>"

definition handle_operational :: "lc_event_type \<times> u32 \<Rightarrow> ('st, 'r) fd \<Rightarrow> ('st, 'r) fd" where
  "handle_operational ev s =
     (case fst ev of
        LC_EVENT_CONFIG_EDIT_ENTER \<Rightarrow>
          let e = ms_env s;
              s = s\<lparr>ms_env := e\<lparr>config := snd (config_service_snapshot (config e))\<rparr>\<rparr>
          in upd_lc (\<lambda>l. l\<lparr>lc_edit_timer := True, lc_state := LIFECYCLE_STATE_EDITING_CONFIG\<rparr>) s
      | LC_EVENT_UNRECOVERABLE_FAULT \<Rightarrow> upd_lc (enter_faulted (snd ev)) s
      | _ \<Rightarrow> s)"

definition handle_editing_config :: "lc_event_type \<times> u32 \<Rightarrow> ('st, 'r) fd \<Rightarrow> ('st, 'r) fd" where
  "handle_editing_config ev s =
     (case fst ev of
        LC_EVENT_CONFIG_EDIT_APPLY \<Rightarrow>
          let s = upd_lc (\<lambda>l. l\<lparr>lc_edit_timer := False\<rparr>) s;
              e = ms_env s;
              (_, b) = config_service_flush (config e) (host e);
              s = s\<lparr>ms_env := e\<lparr>host := b\<rparr>\<rparr>;
              s = (case config_service_get_params (config e) of None \<Rightarrow> s
                   | Some p \<Rightarrow> snd (modbus_slave_set_address (modbus_slave_addr p) s));
              _ = sensor_service_reconfigure (sensor (ms_env s))
          in upd_lc (\<lambda>l. l\<lparr>lc_state := LIFECYCLE_STATE_OPERATIONAL\<rparr>) s
      | ev' \<Rightarrow>
          if ev' = LC_EVENT_CONFIG_EDIT_CANCEL \<or> ev' = LC_EVENT_CONFIG_EDIT_TIMEOUT then
            let s = upd_lc (\<lambda>l. l\<lparr>lc_edit_timer := False\<rparr>) s;
                e = ms_env s;
                (_, c, b) = config_service_restore_snapshot (config e) (host e);
                s = s\<lparr>ms_env := e\<lparr>config := c, host := b\<rparr>\<rparr>
            in upd_lc (\<lambda>l. l\<lparr>lc_state := LIFECYCLE_STATE_OPERATIONAL\<rparr>) s
          else if ev' = LC_EVENT_UNRECOVERABLE_FAULT then
            upd_lc (enter_faulted (snd ev)) (upd_lc (\<lambda>l. l\<lparr>lc_edit_timer := False\<rparr>) s)
          else s)"

definition kick_watchdog :: "('st, 'r) fd \<Rightarrow> ('st, 'r) fd" where
  "kick_watchdog s =
     (let ss = sensor (ms_env s); n = cycle_count (ss_snapshot ss)
      in if \<not> ss_initialised ss \<or> n = wd_last_cycles (lc (ms_env s)) then s
         else upd_lc (\<lambda>l. l\<lparr>wd_last_cycles := n, wd_kicks := wd_kicks l + 1\<rparr>) s)"

definition run_event_loop_once :: "('st, 'r) fd \<Rightarrow> ('st, 'r) fd" where
  "run_event_loop_once s =
     (case lc_queue (lc (ms_env s)) of
        [] \<Rightarrow> kick_watchdog s
      | ev # q \<Rightarrow>
          let s = kick_watchdog (upd_lc (\<lambda>l. l\<lparr>lc_queue := q\<rparr>) s)
          in case lc_state (lc (ms_env s)) of
               LIFECYCLE_STATE_OPERATIONAL \<Rightarrow> handle_operational ev s
             | LIFECYCLE_STATE_EDITING_CONFIG \<Rightarrow> handle_editing_config ev s
             | _ \<Rightarrow> s)"

section \<open>The bridge\<close>

text \<open>The vtables of \<^verbatim>\<open>main.c\<close>, as functions on the whole device.\<close>

definition fd_params :: "('st, 'r) fd \<Rightarrow> config_params" where
  "fd_params s = the (config_service_get_params (config (ms_env s)))"

definition fd_set_param ::
  "config_param_id \<Rightarrow> u32 \<Rightarrow> ('st, 'r) fd \<Rightarrow> config_service_err \<times> ('st, 'r) fd" where
  "fd_set_param pid v s =
     (let e = ms_env s; (err, c, b) = config_service_set_param pid (Some v) (config e) (host e)
      in (err, s\<lparr>ms_env := e\<lparr>config := c, host := b\<rparr>\<rparr>))"

definition fd_set_address :: "u8 \<Rightarrow> ('st, 'r) fd \<Rightarrow> ('st, 'r) fd" where
  "fd_set_address a s = snd (modbus_slave_set_address a s)"

text \<open>The array handed to \<^verbatim>\<open>get_all_states\<close> is uninitialised stack; \<open>junk\<close> stands for it.\<close>

definition fd_alarm_states :: "alarm_state list \<Rightarrow> ('st, 'r) fd \<Rightarrow> alarm_state list" where
  "fd_alarm_states junk s = the (snd (alarm_service_get_all_states (Some junk) (fst (alarm_part (host (ms_env s))))))"

definition fd_ack_all :: "('st, 'r) fd \<Rightarrow> ('st, 'r) fd" where
  "fd_ack_all s =
     (let e = ms_env s; b = host e; a = snd (alarm_service_ack_all (fst (alarm_part b)))
      in s\<lparr>ms_env := e\<lparr>host := b\<lparr>alarm_part := (a, snd (alarm_part b))\<rparr>\<rparr>\<rparr>)"

definition fd_snapshot :: "('st, 'r) fd \<Rightarrow> sensor_reading list option" where
  "fd_snapshot s =
     (case sensor_service_get_snapshot (Some \<lparr>readings = [], cycle_count = 0\<rparr>) (sensor (ms_env s)) of
        (err, snap) \<Rightarrow> if err = SENSOR_SERVICE_ERR_OK then map_option readings snap else None)"

definition fd_set_time :: "'r rtc_driver \<Rightarrow> u32 \<Rightarrow> ('st, 'r) fd \<Rightarrow> bool \<times> ('st, 'r) fd" where
  "fd_set_time rtc v s =
     (let e = ms_env s; (err, tp) = time_provider_set_time rtc v (clock e)
      in (err = TIME_PROVIDER_ERR_OK, s\<lparr>ms_env := e\<lparr>clock := tp\<rparr>\<rparr>))"

definition fd_mrm :: "'r rtc_driver \<Rightarrow> alarm_state list \<Rightarrow> mrm_cells \<Rightarrow> ('st, 'r) fd modbus_register_map" where
  "fd_mrm rtc junk c =
    \<lparr>mrm_initialised = mc_ready c,
     sensors = fd_snapshot,
     alarms_get = fd_alarm_states junk,
     alarms_ack = fd_ack_all,
     cfg_read = fd_params,
     cfg_write = fd_set_param,
     health_read = (\<lambda>s. health (ms_env s)),
     health_write = (\<lambda>st s. s\<lparr>ms_env := (ms_env s)\<lparr>health_stats := st\<rparr>\<rparr>),
     set_time = fd_set_time rtc,
     mb_stats = (\<lambda>s. the (snd (modbus_slave_get_stats (Some zero_stats) s))),
     mb_slave_set_address = fd_set_address,
     lifecycle_command = (\<lambda>cmd. upd_lc (\<lambda>l. snd (handle_remote_command cmd l))),
     cmd_ack_alarm_last = mc_ack c, cmd_reset_metrics_last = mc_reset c,
     cmd_soft_restart_last = mc_restart c,
     cmd_set_time_hi_last = mc_time_hi c, cmd_set_time_lo_last = mc_time_lo c,
     last_stats_snapshot = mc_stats c\<rparr>"

definition cells_of :: "'w modbus_register_map \<Rightarrow> mrm_cells" where
  "cells_of m =
    \<lparr>mc_ready = mrm_initialised m, mc_ack = cmd_ack_alarm_last m, mc_reset = cmd_reset_metrics_last m,
     mc_restart = cmd_soft_restart_last m, mc_time_hi = cmd_set_time_hi_last m,
     mc_time_lo = cmd_set_time_lo_last m, mc_stats = last_stats_snapshot m\<rparr>"

text \<open>Fixed parameters of the device: firmware version, RTC driver, stack contents.\<close>

record 'r fd_board =
  bd_fw :: fw_version
  bd_rtc :: "'r rtc_driver"
  bd_junk :: "alarm_state list"

definition fd_map_of :: "'r fd_board \<Rightarrow> ('st, 'r) fd \<Rightarrow> ('st, 'r) fd modbus_register_map" where
  "fd_map_of bd s = fd_mrm (bd_rtc bd) (bd_junk bd) (cells (ms_env s))"

definition bridge_exc_to_err :: "modbus_exception \<Rightarrow> slave_err" where
  "bridge_exc_to_err exc =
     (if exc = MB_EXC_ILLEGAL_DATA_VALUE then MODBUS_SLAVE_ERR_INVALID_VALUE
      else if exc \<noteq> MB_EXC_NONE then MODBUS_SLAVE_ERR_INVALID_ADDR
      else MODBUS_SLAVE_ERR_OK)"

definition bridge_read :: "modbus_exception \<times> u16 list \<Rightarrow> slave_err \<times> u16" where
  "bridge_read r =
     (case r of (exc, vs) \<Rightarrow>
        if exc = MB_EXC_NONE then (MODBUS_SLAVE_ERR_OK, hd vs) else (MODBUS_SLAVE_ERR_INVALID_ADDR, 0))"

definition bridge_read_input :: "'r fd_board \<Rightarrow> u16 \<Rightarrow> ('st, 'r) fd \<Rightarrow> (slave_err \<times> u16) \<times> ('st, 'r) fd" where
  "bridge_read_input bd a s = (bridge_read (mrm_read_input_regs (bd_fw bd) a 1 (fd_map_of bd s) s), s)"

definition bridge_read_holding :: "'r fd_board \<Rightarrow> u16 \<Rightarrow> ('st, 'r) fd \<Rightarrow> (slave_err \<times> u16) \<times> ('st, 'r) fd" where
  "bridge_read_holding bd a s = (bridge_read (mrm_read_holding_regs (bd_fw bd) a 1 (fd_map_of bd s) s), s)"

definition bridge_write ::
  "modbus_exception \<times> ('st, 'r) fd modbus_register_map \<times> ('st, 'r) fd \<Rightarrow> slave_err \<times> ('st, 'r) fd" where
  "bridge_write r =
     (case r of (exc, m, s) \<Rightarrow>
        (bridge_exc_to_err exc, s\<lparr>ms_env := (ms_env s)\<lparr>cells := cells_of m\<rparr>\<rparr>))"

definition bridge_write_holding :: "'r fd_board \<Rightarrow> u16 \<Rightarrow> u16 \<Rightarrow> ('st, 'r) fd \<Rightarrow> slave_err \<times> ('st, 'r) fd" where
  "bridge_write_holding bd a v s = bridge_write (mrm_write_single_reg (bd_fw bd) a v (fd_map_of bd s) s)"

definition bridge_write_block :: "'r fd_board \<Rightarrow> u16 \<Rightarrow> u16 list \<Rightarrow> ('st, 'r) fd \<Rightarrow> slave_err \<times> ('st, 'r) fd" where
  "bridge_write_block bd a vals s = bridge_write (mrm_write_multiple_regs (bd_fw bd) a vals (fd_map_of bd s) s)"

definition legacy_map :: "'r fd_board \<Rightarrow> ('st, 'r) fd_env reg_map" where
  "legacy_map bd =
    \<lparr>rm_read_input = bridge_read_input bd, rm_read_holding = bridge_read_holding bd,
     rm_write_holding = bridge_write_holding bd, rm_write_block = Some (bridge_write_block bd)\<rparr>"

text \<open>One round of \<^verbatim>\<open>modbus_task\<close> and of the housekeeping loop.\<close>

definition fd_process :: "'r fd_board \<Rightarrow> u8 list \<Rightarrow> ('st, 'r) fd \<Rightarrow> ('st, 'r) fd" where
  "fd_process bd frame s = snd (modbus_slave_process (legacy_map bd) frame s)"

definition fd_poll_stats :: "'r fd_board \<Rightarrow> ('st, 'r) fd \<Rightarrow> ('st, 'r) fd" where
  "fd_poll_stats bd s =
     (case modbus_register_map_poll_stats (fd_map_of bd s) s of (err, m, s) \<Rightarrow>
        s\<lparr>ms_env := (ms_env s)\<lparr>cells := cells_of m\<rparr>\<rparr>)"

section \<open>Boot\<close>

text \<open>
  The configuration store of the device: the integrity check, a load of at most so many bytes and a
  save.  \<open>store_save\<close> is the save as ConfigService calls it.
\<close>

record 'st config_store_if =
  st_check :: "'st \<Rightarrow> bool"
  st_load :: "nat \<Rightarrow> 'st \<Rightarrow> u8 list option \<times> 'st"
  st_save :: "u8 list \<Rightarrow> 'st \<Rightarrow> bool \<times> 'st"

definition store_save :: "'st config_store_if \<Rightarrow> u8 list \<Rightarrow> 'st fd_back \<Rightarrow> bool \<times> 'st fd_back" where
  "store_save d bytes b = (let (ok, st) = st_save d bytes (store b) in (ok, b\<lparr>store := st\<rparr>))"

definition load_stored :: "'st config_store_if \<Rightarrow> nat \<Rightarrow> ('st, 'r) fd_env \<Rightarrow> u8 list option \<times> ('st, 'r) fd_env" where
  "load_stored d n e =
     (let (blob, st) = st_load d n (store (host e)) in (blob, e\<lparr>host := (host e)\<lparr>store := st\<rparr>\<rparr>))"

text \<open>Step 3 of \<^verbatim>\<open>main\<close>.\<close>

definition main_config :: "'st config_store_if \<Rightarrow> ('st, 'r) fd_env \<Rightarrow> ('st, 'r) fd_env" where
  "main_config d e =
     (let e = e\<lparr>config := snd (config_service_init (Some (store_save d)) (config e))\<rparr>;
          (blob, e) = load_stored d 45 e
      in case blob of None \<Rightarrow> e
         | Some m \<Rightarrow> e\<lparr>config := snd (config_service_apply_loaded (Some m) (length m) (config e))\<rparr>)"

definition lifecycle_controller_init :: "lifecycle \<Rightarrow> lifecycle" where
  "lifecycle_controller_init l =
     l\<lparr>lc_state := LIFECYCLE_STATE_INIT, lc_queue := [], lc_edit_timer := False, lc_initialised := True\<rparr>"

text \<open>The start of \<^verbatim>\<open>modbus_task\<close>.\<close>

definition modbus_task_start :: "'r fd_board \<Rightarrow> ('st, 'r) fd \<Rightarrow> ('st, 'r) fd" where
  "modbus_task_start bd s =
     (let addr = (case config_service_get_params (config (ms_env s)) of Some p \<Rightarrow> modbus_slave_addr p | None \<Rightarrow> 1)
      in snd (modbus_slave_init (Some (legacy_map bd)) addr (Some ()) s))"

definition poll_for_abort :: "('st, 'r) fd \<Rightarrow> bool \<times> ('st, 'r) fd" where
  "poll_for_abort s =
     (case lc_queue (lc (ms_env s)) of [] \<Rightarrow> (False, s)
      | ev # q \<Rightarrow>
          let s = upd_lc (\<lambda>l. l\<lparr>lc_queue := q\<rparr>) s
          in if fst ev = LC_EVENT_UNRECOVERABLE_FAULT then (True, upd_lc (enter_faulted (snd ev)) s)
             else (False, s))"

definition fd_run_init_sequence :: "'st config_store_if \<Rightarrow> ('st, 'r) fd \<Rightarrow> ('st, 'r) fd" where
  "fd_run_init_sequence d s =
     (if \<not> st_check d (store (host (ms_env s))) then upd_lc (enter_faulted 1) s
      else
        let (abort, s) = poll_for_abort s
        in if abort then s
        else
          let (blob, e) = load_stored d 32712 (ms_env s); s = s\<lparr>ms_env := e\<rparr>
          in case blob of None \<Rightarrow> upd_lc (enter_faulted 2) s
          | Some m \<Rightarrow>
              let (err, c) = config_service_apply_loaded (Some m) (length m) (config (ms_env s));
                  s = s\<lparr>ms_env := (ms_env s)\<lparr>config := c\<rparr>\<rparr>
              in if err \<noteq> CONFIG_SERVICE_OK then upd_lc (enter_faulted 3) s
              else
                let (abort, s) = poll_for_abort s
                in if abort then s
                else if \<not> sensors_ready (ms_env s) then upd_lc (enter_faulted 4) s
                else
                  let (abort, s) = poll_for_abort s
                  in if abort then s
                  else
                    let s = (case config_service_get_params (config (ms_env s)) of None \<Rightarrow> s
                             | Some p \<Rightarrow> fd_set_address (modbus_slave_addr p) s)
                    in upd_lc (\<lambda>l. l\<lparr>lc_state := LIFECYCLE_STATE_OPERATIONAL\<rparr>) s)"

text \<open>
  A boot: \<^verbatim>\<open>main\<close> up to the scheduler, then the tasks in the order of their priorities
  (SensorTask, ModbusTask, LifecycleTask).  \<open>drivers_ok\<close> are the results of the two sensor drivers
  and of the poll timer.
\<close>

definition fd_boot ::
  "'st config_store_if \<Rightarrow> 'r fd_board \<Rightarrow> bool \<times> bool \<times> bool \<Rightarrow> ('st, 'r) fd \<Rightarrow> ('st, 'r) fd" where
  "fd_boot d bd drivers_ok s =
     (let e = main_config d (ms_env s);
          m = snd (modbus_register_map_init (bd_fw bd)
                (Some (fd_mrm (bd_rtc bd) (bd_junk bd) (cells e))) (fd_mrm (bd_rtc bd) (bd_junk bd) (cells e)
                 :: ('st, 'r) fd modbus_register_map));
          e = e\<lparr>cells := cells_of m, lc := lifecycle_controller_init (lc e)\<rparr>;
          (ht_ok, baro_ok, timer_ok) = drivers_ok;
          e = sensor_task_start ht_ok baro_ok timer_ok e;
          s = modbus_task_start bd (s\<lparr>ms_env := e\<rparr>)
      in fd_run_init_sequence d s)"

section \<open>The register map contract on the device\<close>

text \<open>A read of the map depends on the environment only.\<close>

definition probe :: "('st, 'r) fd_env \<Rightarrow> ('st, 'r) fd" where
  "probe e = \<lparr>ms_initialised = False, slave_addr = 0, rx_buf = [], rx_len = 0, tx_buf = [], tx_len = 0,
     stats = zero_stats, ms_sent = [], ms_oob = False, ms_env = e\<rparr>"

lemma probe_env [simp]: "ms_env (probe e) = e"
  by (simp add: probe_def)

lemmas fd_mrm_reads = fd_mrm_def fd_snapshot_def fd_alarm_states_def fd_params_def fd_map_of_def

lemma slot_read_env:
  "slot \<in> set (k_slots fw) \<Longrightarrow> ms_env s = ms_env t \<Longrightarrow>
   slot_read slot (fd_map_of bd s) s = slot_read slot (fd_map_of bd t) t"
  unfolding k_slots_def slot_defs
  by (auto simp: read_defs read_sensor_def fd_mrm_reads)

lemma read_slots_1_env:
  assumes "ms_env s = ms_env t"
  shows "read_slots fw acc a 1 (fd_map_of bd s) s = read_slots fw acc a 1 (fd_map_of bd t) t"
proof -
  have "slot_read x (fd_map_of bd s) s = slot_read x (fd_map_of bd t) t" if "find_slot fw a = Some x" for x
    using that slot_read_env [OF _ assms, of x fw bd] by (simp add: find_slot_iff)
  then show ?thesis by (auto simp: One_nat_def split: option.splits prod.splits if_splits)
qed

definition fd_in_value :: "'r fd_board \<Rightarrow> u16 \<Rightarrow> ('st, 'r) fd_env \<Rightarrow> slave_err \<times> u16" where
  "fd_in_value bd a e = fst (bridge_read_input bd a (probe e))"

definition fd_hold_value :: "'r fd_board \<Rightarrow> u16 \<Rightarrow> ('st, 'r) fd_env \<Rightarrow> slave_err \<times> u16" where
  "fd_hold_value bd a e = fst (bridge_read_holding bd a (probe e))"

lemma bridge_reads:
  "bridge_read_input bd a s = (fd_in_value bd a (ms_env s), s)"
  "bridge_read_holding bd a s = (fd_hold_value bd a (ms_env s), s)"
proof -
  have c: "cells (ms_env s) = cells (ms_env (probe (ms_env s)))" by simp
  have i: "mrm_initialised (fd_map_of bd s) = mrm_initialised (fd_map_of bd (probe (ms_env s)))"
    by (simp add: fd_mrm_reads)
  note r = read_slots_1_env [of s "probe (ms_env s)", simplified]
  show "bridge_read_input bd a s = (fd_in_value bd a (ms_env s), s)"
    using r [where fw = "bd_fw bd" and acc = REG_ACCESS_R and a = a and bd = bd] i
    by (simp add: bridge_read_input_def fd_in_value_def mrm_read_input_regs_def)
  show "bridge_read_holding bd a s = (fd_hold_value bd a (ms_env s), s)"
    using r [where fw = "bd_fw bd" and acc = REG_ACCESS_RW and a = a and bd = bd] i
    by (simp add: bridge_read_holding_def fd_hold_value_def mrm_read_holding_regs_def)
qed

text \<open>The effects of the vtables of \<^verbatim>\<open>main.c\<close>.\<close>

lemma reflp_same_frame: "reflp same_frame"
  by (simp add: reflp_def)

lemma transp_same_frame: "transp same_frame"
  using same_frame_trans by (auto simp: transp_def)

lemma same_frame_env [simp]: "same_frame s (s\<lparr>ms_env := e\<rparr>)"
  by (simp add: same_frame_def)

lemma upd_lc_frame: "same_frame s (upd_lc f s)"
  by (simp add: upd_lc_def)

lemma set_address_frame: "same_frame s (fd_set_address a s)"
  by (simp add: fd_set_address_def modbus_slave_set_address_def same_frame_def)

lemma effects_same_frame: "effects_in same_frame (fd_map_of bd s)"
  unfolding effects_in_def
  by (simp add: fd_map_of_def fd_mrm_def upd_lc_frame set_address_frame fd_set_param_def fd_ack_all_def
      fd_set_time_def Let_def split_def)

lemma bridge_write_frame:
  assumes "within same_frame m s r"
  shows "same_frame s (snd (bridge_write r))"
  using assms by (auto simp: within_def bridge_write_def split: prod.splits intro: same_frame_trans)

interpretation fd: modbus_map "legacy_map bd :: ('st, 'r) fd_env reg_map" "fd_in_value bd" "fd_hold_value bd"
  for bd :: "'r fd_board"
proof (unfold_locales)
  fix a v vs and wb :: "u16 \<Rightarrow> u16 list \<Rightarrow> ('st, 'r) fd \<Rightarrow> slave_err \<times> ('st, 'r) fd"
    and s :: "('st, 'r) fd"
  note frame = reflp_same_frame transp_same_frame effects_same_frame
  show "rm_read_input (legacy_map bd) a s = (fd_in_value bd a (ms_env s), s)"
    "rm_read_holding (legacy_map bd) a s = (fd_hold_value bd a (ms_env s), s)"
    by (simp_all add: legacy_map_def bridge_reads)
  show "same_frame s (snd (rm_write_holding (legacy_map bd) a v s))"
    by (simp add: legacy_map_def bridge_write_holding_def bridge_write_frame [OF single_write_within [OF frame]])
  assume "rm_write_block (legacy_map bd) = Some wb"
  then have "wb = bridge_write_block bd" by (simp add: legacy_map_def)
  then show "same_frame s (snd (wb a vs s))"
    by (simp add: bridge_write_block_def bridge_write_frame [OF block_write_within [OF frame]])
qed

end
