(* ===== verification/Device_Properties.thy ===== *)
theory Device_Properties
  imports Field_Device
begin

text \<open>
  Properties of the whole Field Device: what a Modbus master sees at the wire, and how the
  configuration, the alarm limits and the slave address stay (or do not stay) in step.
\<close>

section \<open>The configuration contract on the device\<close>

interpretation fdc: config_access "fd_params :: ('st, 'r) fd \<Rightarrow> config_params" fd_set_param fd_set_address
proof (unfold_locales)
  fix pid v a and s s' :: "('st, 'r) fd"
  show "fd_params s' = apply_param_to_struct (fd_params s) pid v"
    if "fd_set_param pid v s = (CONFIG_SERVICE_OK, s')"
    using that
    by (auto simp: fd_set_param_def fd_params_def config_service_set_param_def
        config_service_get_params_def Let_def split: prod.splits if_splits)
  show "s' = s" if "fd_set_param pid v s = (CONFIG_SERVICE_ERR_INVALID, s')"
    using that
    by (auto simp: fd_set_param_def config_service_set_param_def persist_to_store_def Let_def
        split: prod.splits if_splits)
  show "fd_params (fd_set_address a s) = fd_params s"
    by (simp add: fd_params_def fd_set_address_def modbus_slave_set_address_def)
qed

lemma fd_map_uses [simp]: "fdc.uses (fd_map_of bd s)"
  by (simp add: fdc.uses_def fd_map_of_def fd_mrm_def)

lemma fd_map_ready [simp]: "mrm_initialised (fd_map_of bd s) = mc_ready (cells (ms_env s))"
  by (simp add: fd_map_of_def fd_mrm_def)

text \<open>The cells carry everything of the map that a write changes.\<close>

lemma fd_map_of_cells:
  assumes "same_wiring (fd_map_of bd s) m"
  shows "fd_map_of bd (t\<lparr>ms_env := e\<lparr>cells := cells_of m\<rparr>\<rparr>) = m"
  using assms by (cases m) (simp add: fd_map_of_def fd_mrm_def cells_of_def same_wiring_def)

lemma read_slots_1_cells:
  assumes "same_wiring (fd_map_of bd s) m"
  shows "read_slots fw acc a 1 m (t\<lparr>ms_env := (ms_env t)\<lparr>cells := c\<rparr>\<rparr>) = read_slots fw acc a 1 m t"
proof -
  have "slot_read x m (t\<lparr>ms_env := (ms_env t)\<lparr>cells := c\<rparr>\<rparr>) = slot_read x m t"
    if "x \<in> set (k_slots fw)" for x
    using that assms unfolding k_slots_def slot_defs
    by (auto simp: read_defs read_sensor_def same_wiring_def fd_mrm_reads)
  then have "slot_read x m (t\<lparr>ms_env := (ms_env t)\<lparr>cells := c\<rparr>\<rparr>) = slot_read x m t"
    if "find_slot fw a = Some x" for x
    using that by (simp add: find_slot_iff)
  then show ?thesis by (auto simp: One_nat_def split: option.splits prod.splits if_splits)
qed

lemma read_holding_1_cells:
  assumes "same_wiring (fd_map_of bd s) m"
  shows "mrm_read_holding_regs fw a 1 m (t\<lparr>ms_env := (ms_env t)\<lparr>cells := c\<rparr>\<rparr>) =
    mrm_read_holding_regs fw a 1 m t"
  using read_slots_1_cells [OF assms]
  by (simp add: mrm_read_holding_regs_def del: read_slots.simps)

lemma bridge_exc_ok: "bridge_exc_to_err e = MODBUS_SLAVE_ERR_OK \<longleftrightarrow> e = MB_EXC_NONE"
  by (simp add: bridge_exc_to_err_def)

lemma bridge_exc_cases:
  "bridge_exc_to_err e \<in> {MODBUS_SLAVE_ERR_OK, MODBUS_SLAVE_ERR_INVALID_VALUE, MODBUS_SLAVE_ERR_INVALID_ADDR}"
  by (simp add: bridge_exc_to_err_def)

text \<open>A write that the bridge reports as done reads back.\<close>

lemma bridge_write_reads_back:
  assumes "bridge_write_holding bd a v s = (MODBUS_SLAVE_ERR_OK, t)"
    and "mc_ready (cells (ms_env s))" "a \<noteq> 0x0140" "a \<noteq> 0x0141"
  shows "fd_hold_value bd a (ms_env t) = (MODBUS_SLAVE_ERR_OK, v)"
proof -
  let ?m = "fd_map_of bd s"
  obtain e m' t' where w: "mrm_write_single_reg (bd_fw bd) a v ?m s = (e, m', t')" by (metis surj_pair)
  have e: "e = MB_EXC_NONE" and t: "t = t'\<lparr>ms_env := (ms_env t')\<lparr>cells := cells_of m'\<rparr>\<rparr>"
    using assms(1) by (auto simp: bridge_write_holding_def bridge_write_def w bridge_exc_ok)
  have "within same_frame ?m s (mrm_write_single_reg (bd_fw bd) a v ?m s)"
    by (rule single_write_within [OF reflp_same_frame transp_same_frame effects_same_frame])
  then have wire: "same_wiring ?m m'" by (simp add: within_def w)
  then have ready: "mrm_initialised m'" using assms(2) by (simp add: same_wiring_def)
  have map_t: "fd_map_of bd t = m'" using wire by (simp add: t fd_map_of_cells)
  have "mrm_read_holding_regs (bd_fw bd) a 1 m' t' = (MB_EXC_NONE, [v])"
    using fdc.single_write_reads_back [OF fd_map_uses assms(3,4) _ ready] w e by blast
  then have "mrm_read_holding_regs (bd_fw bd) a 1 m' t = (MB_EXC_NONE, [v])"
    by (simp only: t read_holding_1_cells [OF wire])
  then have "fst (bridge_read_holding bd a t) = (MODBUS_SLAVE_ERR_OK, v)"
    by (simp add: bridge_read_holding_def map_t bridge_read_def)
  then show ?thesis by (simp add: bridge_reads)
qed

section \<open>Writing and reading at the wire\<close>

text \<open>A write to any register but the slave address keeps the address of the device.\<close>

lemma slot_write_keeps_address:
  fixes m :: "('st, 'r) fd modbus_register_map"
  assumes "slot \<in> set (k_slots fw)" "slot_write slot = Some wr" "slot_addr slot \<noteq> 0x0150"
    and "cfg_write m = fd_set_param" "alarms_ack m = fd_ack_all" "set_time m = fd_set_time rtc"
    and "lifecycle_command m = (\<lambda>cmd. upd_lc (\<lambda>l. snd (handle_remote_command cmd l)))"
  shows "slave_addr (snd (snd (wr v m w))) = slave_addr w"
proof -
  have par: "slave_addr w' = slave_addr w0" if "fd_set_param pid x w0 = (e, w')" for pid x w0 e and w' :: "('st, 'r) fd"
    using that by (auto simp: fd_set_param_def Let_def split: prod.splits)
  have other: "slave_addr (fd_ack_all w0) = slave_addr w0" "slave_addr (upd_lc f w0) = slave_addr w0" for w0 :: "('st, 'r) fd" and f
    by (simp_all add: fd_ack_all_def upd_lc_def Let_def)
  show ?thesis
    using assms unfolding k_slots_def slot_defs
    by (auto simp: write_defs Let_def other split: prod.splits dest: par)
qed

lemma fd_map_wiring:
  "cfg_write (fd_map_of bd s) = fd_set_param" "alarms_ack (fd_map_of bd s) = fd_ack_all"
  "set_time (fd_map_of bd s) = fd_set_time (bd_rtc bd)"
  "lifecycle_command (fd_map_of bd s) = (\<lambda>cmd. upd_lc (\<lambda>l. snd (handle_remote_command cmd l)))"
  "mb_slave_set_address (fd_map_of bd s) = fd_set_address"
  by (simp_all add: fd_map_of_def fd_mrm_def)

lemma bridge_write_keeps_address:
  fixes s :: "('st, 'r) fd"
  assumes "bridge_write_holding bd a v s = (err, t)" "a \<noteq> 0x0150"
  shows "slave_addr t = slave_addr s"
proof -
  let ?m = "fd_map_of bd s"
  obtain e m' t' where w: "mrm_write_single_reg (bd_fw bd) a v ?m s = (e, m', t')" by (metis surj_pair)
  have "slave_addr t' = slave_addr s" if c: "check_slot (bd_fw bd) a v ?m s = MB_EXC_NONE"
    using c
  proof (rule check_slot_ok)
    fix slot :: "('st, 'r) fd reg_slot" and wr
    assume sl: "find_slot (bd_fw bd) a = Some slot" "slot \<in> set (k_slots (bd_fw bd))"
      "slot_addr slot = a" "slot_write slot = Some wr"
    have "slave_addr (snd (snd (wr v ?m s))) = slave_addr s"
      by (rule slot_write_keeps_address [OF sl(2,4) _ fd_map_wiring(1-4)]) (use sl(3) assms(2) in simp)
    with c w sl show ?thesis
      by (auto simp: mrm_write_single_reg_def write_slot_def Let_def split: if_splits)
  qed
  moreover have "slave_addr t' = slave_addr s" if "check_slot (bd_fw bd) a v ?m s \<noteq> MB_EXC_NONE"
    using that w by (auto simp: mrm_write_single_reg_def Let_def split: if_splits)
  ultimately have "slave_addr t' = slave_addr s" by blast
  then show ?thesis using assms(1) by (auto simp: bridge_write_holding_def bridge_write_def w)
qed

text \<open>C14: a Modbus master that writes a holding register with FC06, any but the two LCD registers (which
  acknowledge a write and store nothing) and the slave address, on an initialised device, gets exactly one
  answer, from the address it wrote to: an exception, or the echo of its request; and after the echo an
  FC03 read of that register is answered with the value it wrote.\<close>

theorem fc06_write_reads_back:
  assumes "slave_wf s" "mc_ready (cells (ms_env s))" "reg \<notin> {0x0140, 0x0141, 0x0150}"
    and "s' = fd_process bd (rtu (write_request (slave_addr s) reg v)) s"
  shows "slave_addr s' = slave_addr s \<and>
    ((\<exists>code. ms_sent s' = rtu (exception_frame (slave_addr s) 0x06 code) # ms_sent s) \<or>
     (ms_sent s' = rtu (ack_frame (slave_addr s) 0x06 reg v) # ms_sent s \<and>
      ms_sent (fd_process bd (rtu (read_request (slave_addr s) 0x03 reg 1)) s') =
        rtu (read_reply (slave_addr s) 0x03 (Inr [v])) # ms_sent s'))"
proof -
  let ?frame = "rtu (write_request (slave_addr s) reg v)"
  obtain err t where w: "bridge_write_holding bd reg v (accepted ?frame s) = (err, t)" by fastforce
  then have "rm_write_holding (legacy_map bd) reg v (accepted ?frame s) = (err, t)"
    by (simp add: legacy_map_def)
  from fd.process_write [OF assms(1) refl this]
  have served: "slave_wf s'" "ms_sent s' = rtu (write_reply (slave_addr t) 0x06 err reg v) # ms_sent s"
    "ms_env s' = ms_env t" "slave_addr s' = slave_addr t"
    by (simp_all add: served_def fd_process_def assms(4))
  have a: "slave_addr t = slave_addr s" using bridge_write_keeps_address [OF w] assms(3) by simp
  have "err \<in> {MODBUS_SLAVE_ERR_OK, MODBUS_SLAVE_ERR_INVALID_VALUE, MODBUS_SLAVE_ERR_INVALID_ADDR}"
    using w bridge_exc_cases by (auto simp: bridge_write_holding_def bridge_write_def split: prod.splits)
  then consider "err = MODBUS_SLAVE_ERR_OK" | "err = MODBUS_SLAVE_ERR_INVALID_VALUE"
    | "err = MODBUS_SLAVE_ERR_INVALID_ADDR" by blast
  then show ?thesis
  proof cases
    case 1
    then have "fd_hold_value bd reg (ms_env s') = (MODBUS_SLAVE_ERR_OK, v)"
      using bridge_write_reads_back [OF w [unfolded 1]] assms(2,3) served(3) by simp
    then show ?thesis
      using fd.process_read [OF served(1), where fc = "0x03" and cnt = 1 and start = reg] served(2,4) 1 a
      by (simp add: served_def fd_process_def reg_read_def write_reply_def One_nat_def map_sum_def)
  qed (use served(2,4) a in \<open>auto simp: write_reply_def\<close>)
qed

section \<open>Alarm limits and configuration\<close>

definition config_thresholds :: "config_params \<Rightarrow> alarm_threshold list" where
  "config_thresholds p =
    [\<lparr>thr_high = scast (temp_alarm_high p), thr_low = scast (temp_alarm_low p), thr_hyst = scast (temp_hysteresis p)\<rparr>,
     \<lparr>thr_high = ucast (humidity_alarm_high p), thr_low = ucast (humidity_alarm_low p),
      thr_hyst = ucast (humidity_hysteresis p)\<rparr>,
     \<lparr>thr_high = ucast (pressure_alarm_high p), thr_low = ucast (pressure_alarm_low p),
      thr_hyst = ucast (pressure_hysteresis p)\<rparr>]"

text \<open>The alarm service of the device, and what the boot wires.\<close>

definition alarm_of :: "('st, 'r) fd_env \<Rightarrow> alarm_log alarm_service" where
  "alarm_of e = fst (alarm_part (host e))"

definition fd_wired :: "'st config_store_if \<Rightarrow> ('st, 'r) fd_env \<Rightarrow> bool" where
  "fd_wired d e \<longleftrightarrow> cs_initialised (config e) \<and> cs_callbacks (config e) = [on_config_changed] \<and>
     cs_save (config e) = store_save d \<and> alarm_wf (alarm_of e) \<and> as_initialised (alarm_of e) \<and>
     ss_subscribers (sensor e) = [on_new_readings]"

definition alarms_synced :: "('st, 'r) fd_env \<Rightarrow> bool" where
  "alarms_synced e \<longleftrightarrow> take 3 (thresholds (alarm_of e)) = config_thresholds (params (config e))"

lemma apply_thresholds_eq:
  assumes "as_initialised a" "length (thresholds a) = SENSOR_ID_COUNT"
  shows "apply_alarm_thresholds (Some p) a =
    a\<lparr>thresholds := config_thresholds p @ drop 3 (thresholds a)\<rparr>"
proof -
  obtain x y z r where t: "thresholds a = x # y # z # r"
    using assms(2) by (auto simp: SENSOR_ID_COUNT_def numeral_eq_Suc length_Suc_conv)
  show ?thesis
    using assms(1) by (simp add: apply_alarm_thresholds_def alarm_service_set_thresholds_def Let_def t
        SENSOR_ID_COUNT_def SENSOR_ID_TEMPERATURE_def SENSOR_ID_HUMIDITY_def SENSOR_ID_PRESSURE_def
        config_thresholds_def numeral_eq_Suc)
qed

lemma config_thresholds_param:
  "\<not> is_alarm_param pid \<Longrightarrow> config_thresholds (apply_param_to_struct p pid v) = config_thresholds p"
  by (cases pid) (simp_all add: config_thresholds_def)

lemma length_config_thresholds [simp]: "length (config_thresholds p) = 3"
  by (simp add: config_thresholds_def)

text \<open>The invariant of a device whose flash accepts every save.\<close>

definition in_step :: "'st config_store_if \<Rightarrow> ('st, 'r) fd_env \<Rightarrow> bool" where
  "in_step d e \<longleftrightarrow> fd_wired d e \<and> alarms_synced e"

lemma set_param_in_step:
  assumes "\<And>bytes st. fst (st_save d bytes st)" "in_step d (ms_env s)"
  shows "in_step d (ms_env (snd (fd_set_param pid v s)))"
proof -
  let ?e = "ms_env s"
  let ?c = "config ?e"
  let ?p = "apply_param_to_struct (params ?c) pid v"
  have w: "cs_initialised ?c" "cs_callbacks ?c = [on_config_changed]" "cs_save ?c = store_save d"
    "alarm_wf (alarm_of ?e)" "as_initialised (alarm_of ?e)" "ss_subscribers (sensor ?e) = [on_new_readings]"
    "take 3 (thresholds (alarm_of ?e)) = config_thresholds (params ?c)"
    using assms(2) by (auto simp: in_step_def fd_wired_def alarms_synced_def)
  show ?thesis
  proof (cases "validate_param_internal pid v (params ?c) = CONFIG_SERVICE_OK")
    case False
    then show ?thesis
      using w by (simp add: fd_set_param_def config_service_set_param_def Let_def in_step_def
          fd_wired_def alarms_synced_def alarm_of_def)
  next
    case True
    obtain ok st where st: "st_save d (config_blob_bytes
        \<lparr>schema_version = CONFIG_SCHEMA_VERSION, blob_params = ?p\<rparr>) (store (host ?e)) = (ok, st)"
      by fastforce
    then have "ok" using assms(1) by (metis fst_conv)
    have app: "apply_alarm_thresholds (Some ?p) (alarm_of ?e) =
        (alarm_of ?e)\<lparr>thresholds := config_thresholds ?p @ drop 3 (thresholds (alarm_of ?e))\<rparr>"
      using w by (intro apply_thresholds_eq) (auto simp: alarm_wf_def)
    have "snd (fd_set_param pid v s) = s\<lparr>ms_env := ?e\<lparr>config := ?c\<lparr>params := ?p\<rparr>,
        host := on_config_changed pid ?p ((host ?e)\<lparr>store := st\<rparr>)\<rparr>\<rparr>"
      using True w(1-3) st \<open>ok\<close>
      by (simp add: fd_set_param_def config_service_set_param_def persist_to_store_def
          fire_callbacks_def store_save_def Let_def)
    then show ?thesis
      using w app config_thresholds_param [of pid "params ?c" v]
      by (auto simp: in_step_def fd_wired_def alarms_synced_def on_config_changed_def alarm_of_def
          alarm_wf_def SENSOR_ID_COUNT_def)
  qed
qed

text \<open>Nothing else the register map reaches touches the limits or the configuration.\<close>

definition same_config :: "('st, 'r) fd_env \<Rightarrow> ('st, 'r) fd_env \<Rightarrow> bool" where
  "same_config e e' \<longleftrightarrow> config e' = config e \<and> sensor e' = sensor e \<and>
     thresholds (alarm_of e') = thresholds (alarm_of e) \<and>
     (alarm_wf (alarm_of e) \<longrightarrow> alarm_wf (alarm_of e')) \<and>
     as_initialised (alarm_of e') = as_initialised (alarm_of e)"

lemma same_config_in_step: "same_config e e' \<Longrightarrow> in_step d e \<Longrightarrow> in_step d e'"
  by (simp add: same_config_def in_step_def fd_wired_def alarms_synced_def)

lemma same_config_updates [simp]:
  "same_config e (e\<lparr>clock := c\<rparr>)" "same_config e (e\<lparr>lc := l\<rparr>)" "same_config e (e\<lparr>cells := m\<rparr>)" "same_config e e"
  "same_config e (e\<lparr>health_stats := h\<rparr>)"
  by (simp_all add: same_config_def alarm_of_def)

lemma ack_all_same_config: "same_config (ms_env s) (ms_env (fd_ack_all s))"
  by (simp add: same_config_def fd_ack_all_def Let_def alarm_of_def alarm_service_ack_all_def alarm_wf_def)

lemma effects_in_step:
  assumes "\<And>bytes st. fst (st_save d bytes st)"
  shows "effects_in (\<lambda>s s'. in_step d (ms_env s) \<longrightarrow> in_step d (ms_env s')) (fd_map_of bd t)"
  using set_param_in_step [OF assms] same_config_in_step [OF ack_all_same_config]
  unfolding effects_in_def
  by (auto simp: fd_map_of_def fd_mrm_def fd_set_time_def upd_lc_def fd_set_address_def
      modbus_slave_set_address_def Let_def split_def
      intro: same_config_in_step [OF same_config_updates(1)] same_config_in_step [OF same_config_updates(2)])

lemma bridge_write_in_step:
  assumes "within (\<lambda>s s'. in_step d (ms_env s) \<longrightarrow> in_step d (ms_env s')) m s r" "in_step d (ms_env s)"
  shows "in_step d (ms_env (snd (bridge_write r)))"
  using assms same_config_in_step [OF same_config_updates(3)]
  by (auto simp: within_def bridge_write_def split: prod.splits)

lemma process_in_step:
  assumes save: "\<And>bytes st. fst (st_save d bytes st)" and "in_step d (ms_env s)"
  shows "in_step d (ms_env (fd_process bd frame s))"
proof -
  let ?R = "\<lambda>s s' :: ('a, 'b) fd. in_step d (ms_env s) \<longrightarrow> in_step d (ms_env s')"
  have R: "reflp ?R" "transp ?R" by (auto simp: reflp_def transp_def)
  note eff = effects_in_step [OF save]
  show ?thesis
    unfolding fd_process_def
  proof (rule fd.process_keeps)
    fix a v and t :: "('a, 'b) fd" assume "in_step d (ms_env t)"
    then show "in_step d (ms_env (snd (rm_write_holding (legacy_map bd) a v t)))"
      using bridge_write_in_step [OF single_write_within [OF R eff]]
      by (simp add: legacy_map_def bridge_write_holding_def)
  next
    fix wb :: "u16 \<Rightarrow> u16 list \<Rightarrow> ('a, 'b) fd \<Rightarrow> slave_err \<times> ('a, 'b) fd" and a vs
      and t :: "('a, 'b) fd"
    assume "rm_write_block (legacy_map bd) = Some wb" "in_step d (ms_env t)"
    then show "in_step d (ms_env (snd (wb a vs t)))"
      using bridge_write_in_step [OF block_write_within [OF R eff]]
      by (auto simp: legacy_map_def bridge_write_block_def)
  qed (rule assms(2))
qed

text \<open>An acquisition cycle keeps the wiring: it moves alarm states, not limits.\<close>

lemma process_reading_static:
  "ss_subscribers (fst (process_sensor_reading now i raw ok c)) = ss_subscribers (fst c)"
  by (cases c) (auto simp: process_sensor_reading_def Let_def split: if_splits)

lemma run_cycle_subscribers:
  "ss_subscribers (fst (run_cycle_impl now ht baro s w)) = ss_subscribers s"
  "snd (run_cycle_impl now ht baro s w) =
     fold (\<lambda>cb. cb (ss_snapshot (fst (run_cycle_impl now ht baro s w)))) (ss_subscribers s) w"
proof -
  obtain s' b rs where c: "cycle_readings now ht baro s = (s', b, rs)" by (metis surj_pair)
  have "ss_subscribers (fst (cycle_readings now ht baro s)) = ss_subscribers s"
    by (simp add: cycle_readings_def Let_def process_reading_static)
  then have "ss_subscribers s' = ss_subscribers s" by (simp add: c)
  then show "ss_subscribers (fst (run_cycle_impl now ht baro s w)) = ss_subscribers s"
    "snd (run_cycle_impl now ht baro s w) =
       fold (\<lambda>cb. cb (ss_snapshot (fst (run_cycle_impl now ht baro s w)))) (ss_subscribers s) w"
    by (simp_all add: run_cycle_impl_def Let_def c)
qed

lemma evaluate_static:
  assumes "alarm_wf a"
  shows "thresholds (fst (alarm_service_evaluate snap (a, w))) = thresholds a"
    "as_initialised (fst (alarm_service_evaluate snap (a, w))) = as_initialised a"
proof -
  have "SENSOR_ID_COUNT \<le> length (alarm_states a)" using assms by (simp add: alarm_wf_def)
  from evaluate_upto [OF this, of snap w]
  show "thresholds (fst (alarm_service_evaluate snap (a, w))) = thresholds a"
    "as_initialised (fst (alarm_service_evaluate snap (a, w))) = as_initialised a"
    by (simp_all add: alarm_service_evaluate_def)
qed

lemma cycle_in_step:
  assumes "in_step d e"
  shows "in_step d (sensor_task_cycle now ht baro e)"
proof -
  let ?r = "sensor_service_run_cycle now ht baro (sensor e) (alarm_part (host e))"
  have w: "ss_subscribers (sensor e) = [on_new_readings]" "alarm_wf (fst (alarm_part (host e)))"
    using assms by (simp_all add: in_step_def fd_wired_def alarm_of_def)
  have a: "thresholds (fst (snd (snd ?r))) = thresholds (fst (alarm_part (host e))) \<and>
      as_initialised (fst (snd (snd ?r))) = as_initialised (fst (alarm_part (host e))) \<and>
      alarm_wf (fst (snd (snd ?r)))"
    using w evaluate_static [OF w(2)] evaluate_wf [OF w(2)]
    by (cases "alarm_part (host e)") (simp add: sensor_service_run_cycle_def run_cycle_subscribers on_new_readings_def)
  moreover have "ss_subscribers (fst (snd ?r)) = [on_new_readings]"
    using w(1) by (simp add: sensor_service_run_cycle_def run_cycle_subscribers)
  ultimately show ?thesis
    using assms by (simp add: in_step_def fd_wired_def alarms_synced_def alarm_of_def
        sensor_task_cycle_def split_def Let_def)
qed

lemma poll_in_step: "in_step d (ms_env s) \<Longrightarrow> in_step d (ms_env (fd_poll_stats bd s))"
  by (simp add: fd_poll_stats_def modbus_register_map_poll_stats_def fd_map_of_def fd_mrm_def Let_def
      in_step_def fd_wired_def alarms_synced_def alarm_of_def)

text \<open>What the device does between two edits of its configuration, in any order: answer a frame, run
  an acquisition cycle, take over a console write, poll the counters.\<close>

datatype fd_event =
    Ev_frame "u8 list"
  | Ev_cycle "(u32 \<times> time_sync_state) option" "(u32 \<times> u32) option" "u32 option"
  | Ev_set_param config_param_id u32
  | Ev_poll

fun fd_step :: "'r fd_board \<Rightarrow> fd_event \<Rightarrow> ('st, 'r) fd \<Rightarrow> ('st, 'r) fd" where
  "fd_step bd (Ev_frame f) s = fd_process bd f s"
| "fd_step bd (Ev_cycle now ht baro) s = s\<lparr>ms_env := sensor_task_cycle now ht baro (ms_env s)\<rparr>"
| "fd_step bd (Ev_set_param pid v) s = snd (fd_set_param pid v s)"
| "fd_step bd Ev_poll s = fd_poll_stats bd s"

lemma step_in_step:
  assumes "\<And>bytes st. fst (st_save d bytes st)" "in_step d (ms_env s)"
  shows "in_step d (ms_env (fd_step bd ev s))"
  using assms(2) process_in_step [OF assms] set_param_in_step [OF assms]
  by (cases ev) (simp_all add: cycle_in_step poll_in_step)

lemma run_in_step:
  assumes "\<And>bytes st. fst (st_save d bytes st)" "in_step d (ms_env s)"
  shows "in_step d (ms_env (fold (fd_step bd) evs s))"
  using assms(2) by (induction evs arbitrary: s) (simp_all add: step_in_step assms(1))

section \<open>Boot\<close>

lemma config_service_init_eq:
  "config_service_init (Some sv) c = (CONFIG_SERVICE_OK,
     \<lparr>cs_initialised = True, params = apply_defaults, snapshot = zero_params,
      snapshot_valid = False, cs_save = sv, cs_callbacks = []\<rparr>)"
  by (simp add: config_service_init_def)

lemma loadable_reloads:
  assumes "params_loadable p" "cs_initialised c"
    "m = config_blob_bytes \<lparr>schema_version = CONFIG_SCHEMA_VERSION, blob_params = p\<rparr>"
  shows "config_service_apply_loaded (Some m) (length m) c = (CONFIG_SERVICE_OK, c\<lparr>params := p\<rparr>)"
  using assms config_blob_read_bytes [where rest = "[]"]
  by (simp add: config_service_apply_loaded_def Let_def sanitise_loadable)

lemma fresh_alarm_wf: "alarm_wf (snd (alarm_service_init b))"
  by (simp add: alarm_service_init_def alarm_wf_def Let_def default_thresholds_def SENSOR_ID_COUNT_def)

text \<open>The SensorTask start with a working poll timer.\<close>

lemma sensor_start:
  assumes "cs_initialised (config e)" "cs_callbacks (config e) = []" "cs_save (config e) = store_save d"
    and "e' = sensor_task_start ht baro True e"
  shows "in_step d e'" "params (config e') = params (config e)" "sensors_ready e'"
    "store (host e') = store (host e)" "lc e' = lc e" "cells e' = cells e" "cs_initialised (config e')"
    "snapshot (config e') = snapshot (config e)"
proof -
  let ?a = "snd (alarm_service_init True) :: alarm_log alarm_service"
  define a where "a = snd (alarm_service_subscribe (Some event_recorder) ?a)"
  have a: "a = ?a\<lparr>subscribers := [event_recorder]\<rparr>" "as_initialised a" "alarm_wf a"
    using fresh_alarm_wf [of True]
    by (simp_all add: a_def alarm_service_init_def alarm_service_subscribe_def Let_def
        ALARM_MAX_SUBSCRIBERS_def alarm_wf_def)
  define ss where "ss = snd (sensor_service_subscribe (Some on_new_readings)
      (snd (sensor_service_init ht baro True)))"
  have sub: "sensor_service_subscribe (Some on_new_readings) (snd (sensor_service_init ht baro True)) =
      (SENSOR_SERVICE_ERR_OK, ss)" "ss_subscribers ss = [on_new_readings]"
    by (simp_all add: ss_def sensor_service_init_def sensor_service_subscribe_def Let_def
        SENSOR_MAX_SUBSCRIBERS_def)
  have init: "fst (sensor_service_init ht baro True :: _ \<times> alarm_part sensor_service) = SENSOR_SERVICE_ERR_OK"
    "fst (alarm_service_init True :: _ \<times> alarm_log alarm_service) = ALARM_SERVICE_ERR_OK"
    by (simp_all add: sensor_service_init_def alarm_service_init_def Let_def)
  have len: "length (thresholds a) = SENSOR_ID_COUNT" using a(3) by (simp add: alarm_wf_def)
  have app: "apply_alarm_thresholds (Some (params (config e))) a =
      a\<lparr>thresholds := config_thresholds (params (config e)) @ drop 3 (thresholds a)\<rparr>"
    by (rule apply_thresholds_eq [OF a(2) len])
  have e': "e' = e\<lparr>sensor := ss,
      host := (host e)\<lparr>alarm_part := (a\<lparr>thresholds := config_thresholds (params (config e)) @ drop 3 (thresholds a)\<rparr>,
                                      snd (alarm_part (host e)))\<rparr>,
      config := (config e)\<lparr>cs_callbacks := [on_config_changed]\<rparr>, sensors_ready := True\<rparr>"
    using assms(1,2) sub(1) init app
    by (simp add: assms(4) sensor_task_start_def split_def Let_def config_service_get_params_def
        config_service_register_change_callback_def CONFIG_SERVICE_MAX_CALLBACKS_def a_def [symmetric])
  show "in_step d e'" "params (config e') = params (config e)" "sensors_ready e'"
    "store (host e') = store (host e)" "lc e' = lc e" "cells e' = cells e" "cs_initialised (config e')"
    "snapshot (config e') = snapshot (config e)"
    using assms(1,3) a len sub(2)
    by (simp_all add: e' in_step_def fd_wired_def alarms_synced_def alarm_of_def alarm_wf_def SENSOR_ID_COUNT_def)
qed

text \<open>The store holds a configuration: both loads of the boot return its blob.\<close>

definition blob_of :: "config_params \<Rightarrow> u8 list" where
  "blob_of p = config_blob_bytes \<lparr>schema_version = CONFIG_SCHEMA_VERSION, blob_params = p\<rparr>"

definition stored_config :: "'st config_store_if \<Rightarrow> config_params \<Rightarrow> 'st \<Rightarrow> bool" where
  "stored_config d p st \<longleftrightarrow> params_loadable p \<and>
     (case st_load d 45 st of (blob, st1) \<Rightarrow>
        blob = Some (blob_of p) \<and> st_check d st1 \<and> fst (st_load d 32712 st1) = Some (blob_of p))"

lemma main_config_eq:
  assumes "stored_config d p (store (host e))" "st_load d 45 (store (host e)) = (blob, st1)"
  shows "main_config d e = e\<lparr>host := (host e)\<lparr>store := st1\<rparr>,
    config := \<lparr>cs_initialised = True, params = p, snapshot = zero_params, snapshot_valid = False,
               cs_save = store_save d, cs_callbacks = []\<rparr>\<rparr>"
proof -
  let ?c = "snd (config_service_init (Some (store_save d)) (config e))"
  have "blob = Some (blob_of p)" "params_loadable p" using assms by (simp_all add: stored_config_def)
  then show ?thesis
    using assms(2) loadable_reloads [of p ?c "blob_of p"]
    by (simp add: main_config_def load_stored_def config_service_init_eq blob_of_def)
qed

lemma init_sequence_ok:
  assumes "in_step d (ms_env s)" "st_check d (store (host (ms_env s)))"
    and "fst (st_load d 32712 (store (host (ms_env s)))) = Some (blob_of p)" "params_loadable p"
    and "params (config (ms_env s)) = p" "sensors_ready (ms_env s)" "lc_queue (lc (ms_env s)) = []"
    and "ms_initialised s"
    and s': "s' = fd_run_init_sequence d s"
  shows "lc_state (lc (ms_env s')) = LIFECYCLE_STATE_OPERATIONAL" "fd_params s' = p"
    "slave_addr s' = modbus_slave_addr p" "in_step d (ms_env s')" "cells (ms_env s') = cells (ms_env s)"
    "same_frame s s'" "lc (ms_env s') = (lc (ms_env s))\<lparr>lc_state := LIFECYCLE_STATE_OPERATIONAL\<rparr>"
proof -
  let ?e = "ms_env s"
  obtain st where st: "st_load d 32712 (store (host ?e)) = (Some (blob_of p), st)"
    using assms(3) by (metis prod.collapse)
  have ini: "cs_initialised (config ?e)" using assms(1) by (simp add: in_step_def fd_wired_def)
  have cfg: "(config ?e)\<lparr>params := p\<rparr> = config ?e" using assms(5) by simp
  have addr: "modbus_slave_addr p \<noteq> 0" "modbus_slave_addr p \<le> 247"
    using assms(4) by (auto simp: params_loadable_def params_ok_def)
  define e1 where "e1 = ?e\<lparr>host := (host ?e)\<lparr>store := st\<rparr>\<rparr>"
  have "config_service_apply_loaded (Some (blob_of p)) (length (blob_of p)) (config ?e) = (CONFIG_SERVICE_OK, config ?e)"
    using loadable_reloads [OF assms(4) ini refl] by (simp add: cfg blob_of_def)
  then have "s' = upd_lc (\<lambda>l. l\<lparr>lc_state := LIFECYCLE_STATE_OPERATIONAL\<rparr>)
      (fd_set_address (modbus_slave_addr p) (s\<lparr>ms_env := e1\<rparr>))"
    using assms(2,5,6,7) st ini
    by (simp add: s' fd_run_init_sequence_def poll_for_abort_def load_stored_def Let_def
        config_service_get_params_def e1_def)
  also have "fd_set_address (modbus_slave_addr p) (s\<lparr>ms_env := e1\<rparr>) =
      s\<lparr>ms_env := e1, slave_addr := modbus_slave_addr p\<rparr>"
    using assms(8) addr by (simp add: fd_set_address_def modbus_slave_set_address_def not_less)
  finally show "lc_state (lc (ms_env s')) = LIFECYCLE_STATE_OPERATIONAL" "fd_params s' = p"
    "slave_addr s' = modbus_slave_addr p" "in_step d (ms_env s')" "cells (ms_env s') = cells ?e" "same_frame s s'"
    "lc (ms_env s') = (lc ?e)\<lparr>lc_state := LIFECYCLE_STATE_OPERATIONAL\<rparr>"
    using assms(1,5) ini
    by (simp_all add: upd_lc_def e1_def fd_params_def config_service_get_params_def in_step_def
        fd_wired_def alarms_synced_def alarm_of_def same_frame_def)
qed

lemma boot_ok:
  fixes s0 :: "('st, 'r) fd"
  assumes stored: "stored_config d p (store (host (ms_env s0)))"
    and s: "s = fd_boot d bd (ht, baro, True) s0"
  shows "lc_state (lc (ms_env s)) = LIFECYCLE_STATE_OPERATIONAL" "fd_params s = p"
    "slave_addr s = modbus_slave_addr p" "ms_initialised s" "in_step d (ms_env s)"
    "mc_ready (cells (ms_env s))" "same_frame (s0\<lparr>ms_initialised := True\<rparr>) s"
    "lc_initialised (lc (ms_env s))" "lc_queue (lc (ms_env s)) = []"
proof -
  obtain blob st1 where l: "st_load d 45 (store (host (ms_env s0))) = (blob, st1)" by fastforce
  define e0 where "e0 = main_config d (ms_env s0)"
  have e0: "store (host e0) = st1" "params (config e0) = p" "cs_initialised (config e0)"
    "cs_callbacks (config e0) = []" "cs_save (config e0) = store_save d"
    using main_config_eq [OF stored l] by (simp_all add: e0_def)
  let ?m0 = "fd_mrm (bd_rtc bd) (bd_junk bd) (cells e0) :: ('st, 'r) fd modbus_register_map"
  define m where "m = snd (modbus_register_map_init (bd_fw bd) (Some ?m0) ?m0)"
  have "mrm_initialised m"
    by (simp add: m_def modbus_register_map_init_def k_slots_sorted)
  then have m: "mc_ready (cells_of m)" by (simp add: cells_of_def)
  define e1 where "e1 = e0\<lparr>cells := cells_of m, lc := lifecycle_controller_init (lc e0)\<rparr>"
  define e2 where "e2 = sensor_task_start ht baro True e1"
  have e1: "cs_initialised (config e1)" "cs_callbacks (config e1) = []" "cs_save (config e1) = store_save d"
    by (simp_all add: e1_def e0)
  note e2 = sensor_start [OF e1 e2_def]
  have addr: "modbus_slave_addr p \<noteq> 0" "modbus_slave_addr p \<le> 247"
    using stored by (auto simp: stored_config_def params_loadable_def params_ok_def)
  define s1 where "s1 = modbus_task_start bd (s0\<lparr>ms_env := e2\<rparr>)"
  have s1: "s1 = s0\<lparr>ms_env := e2, slave_addr := modbus_slave_addr p, ms_initialised := True\<rparr>"
    using addr e2(2,7) e0(2)
    by (simp add: s1_def modbus_task_start_def modbus_slave_init_def config_service_get_params_def
        e1_def not_less Let_def)
  have s': "s = fd_run_init_sequence d s1"
    unfolding s fd_boot_def Let_def e0_def [symmetric] m_def [symmetric] e1_def [symmetric]
    by (simp add: e2_def [symmetric] s1_def [symmetric])
  have "store (host e2) = st1" using e2(4) e0(1) by (simp add: e1_def)
  moreover have "lc_queue (lc e2) = []" using e2(5) by (simp add: e1_def lifecycle_controller_init_def)
  ultimately have "in_step d (ms_env s1)" "st_check d (store (host (ms_env s1)))"
    "fst (st_load d 32712 (store (host (ms_env s1)))) = Some (blob_of p)" "params_loadable p"
    "params (config (ms_env s1)) = p" "sensors_ready (ms_env s1)" "lc_queue (lc (ms_env s1)) = []"
    "ms_initialised s1"
    using e2(1,2,3) e0(2) stored l by (simp_all add: s1 stored_config_def e1_def)
  note r = init_sequence_ok [OF this s']
  show "lc_state (lc (ms_env s)) = LIFECYCLE_STATE_OPERATIONAL" "fd_params s = p"
    "slave_addr s = modbus_slave_addr p" "in_step d (ms_env s)" by (fact r)+
  show "lc_initialised (lc (ms_env s))" "lc_queue (lc (ms_env s)) = []"
    using r(7) e2(5) by (simp_all add: s1 e1_def lifecycle_controller_init_def)
  show "mc_ready (cells (ms_env s))" using r(5) e2(6) m by (simp add: s1 e1_def)
  show "ms_initialised s" "same_frame (s0\<lparr>ms_initialised := True\<rparr>) s"
    using r(6) by (simp_all add: s1 same_frame_def)
qed

text \<open>C18: with a valid stored configuration, a working poll timer and working flash reads the boot
  ends in Operational, on the stored slave address and with the stored configuration live, whether
  or not the sensors answer; and the register map is ready to serve.\<close>

theorem boot_reaches_operational:
  assumes "stored_config d p (store (host (ms_env s0)))" "s = fd_boot d bd (ht, baro, True) s0"
  shows "lc_state (lc (ms_env s)) = LIFECYCLE_STATE_OPERATIONAL \<and> fd_params s = p \<and>
    slave_addr s = modbus_slave_addr p \<and> ms_initialised s \<and> mc_ready (cells (ms_env s))"
  using boot_ok [OF assms] by simp

text \<open>C15: from a boot on, as long as the flash takes every save, the three alarm limits and
  hysteresis values AlarmService judges by are those of the live configuration, after any sequence
  of Modbus frames, acquisition cycles, console writes and counter polls.\<close>

theorem alarms_follow_config:
  assumes "stored_config d p (store (host (ms_env s0)))" "\<And>bytes st. fst (st_save d bytes st)"
    and "e = ms_env (fold (fd_step bd) evs (fd_boot d bd (ht, baro, True) s0))"
  shows "take 3 (thresholds (alarm_of e)) = config_thresholds (params (config e))"
  using run_in_step [where d = d and bd = bd and evs = evs, OF assms(2) boot_ok(5) [OF assms(1) refl]]
  by (simp add: assms(3) in_step_def alarms_synced_def)

section \<open>A concrete device\<close>

text \<open>A store in RAM, a board, and the device that boots from a stored configuration.\<close>

definition ram_store :: "u8 list option config_store_if" where
  "ram_store =
    \<lparr>st_check = (\<lambda>st. st \<noteq> None),
     st_load = (\<lambda>n st. (case st of None \<Rightarrow> None | Some m \<Rightarrow> if length m \<le> n then Some m else None, st)),
     st_save = (\<lambda>bytes st. (True, Some bytes))\<rparr>"

definition demo_board :: "(rtc_datetime \<times> u32) fd_board" where
  "demo_board = \<lparr>bd_fw = \<lparr>fw_major = 1, fw_minor = 0, fw_patch = 0\<rparr>, bd_rtc = demo_rtc,
     bd_junk = replicate 12 ALARM_STATE_CLEAR\<rparr>"

definition blank_env :: "'st \<Rightarrow> ('st, rtc_datetime \<times> u32) fd_env" where
  "blank_env st =
    \<lparr>cells = \<lparr>mc_ready = False, mc_ack = 0, mc_reset = 0, mc_restart = 0, mc_time_hi = 0, mc_time_lo = 0,
              mc_stats = zero_stats\<rparr>,
     config = \<lparr>cs_initialised = False, params = zero_params, snapshot = zero_params, snapshot_valid = False,
               cs_save = (\<lambda>_ b. (False, b)), cs_callbacks = []\<rparr>,
     host = \<lparr>alarm_part = (snd (alarm_service_init False), []), store = st\<rparr>,
     sensor = snd (sensor_service_init False False False), sensors_ready = False,
     health = \<lparr>uptime_s = 0, lifecycle_state = 0, sensor_fail_count = 0\<rparr>, health_stats = zero_stats,
     clock = (\<lparr>tp_initialised = True, sync_state = TIME_SYNC_UNSYNCHRONISED, tp_health = True\<rparr>,
              (epoch_to_datetime 0, 0), []),
     lc = \<lparr>lc_initialised = False, lc_state = LIFECYCLE_STATE_INIT, lc_queue = [], lc_edit_timer = False,
           lc_faults = [], wd_last_cycles = 0, wd_kicks = 0\<rparr>\<rparr>"

definition blank_fd :: "'st \<Rightarrow> ('st, rtc_datetime \<times> u32) fd" where
  "blank_fd st = (probe (blank_env st))\<lparr>rx_buf := replicate 256 0, tx_buf := replicate 256 0\<rparr>"

definition demo_fd :: "(u8 list option, rtc_datetime \<times> u32) fd" where
  "demo_fd = fd_boot ram_store demo_board (True, True, True) (blank_fd (Some (blob_of apply_defaults)))"

lemma demo_stored:
  "stored_config ram_store apply_defaults (store (host (ms_env (blank_fd (Some (blob_of apply_defaults))))))"
  using defaults_loadable
  by (simp add: stored_config_def ram_store_def blank_fd_def blank_env_def blob_of_def)

lemmas demo_boot = boot_ok [OF demo_stored demo_fd_def]

lemma demo_wf: "slave_wf demo_fd"
  using demo_boot(4,7) by (simp add: slave_wf_def same_frame_def blank_fd_def probe_def)

lemma demo_addr: "slave_addr demo_fd = 1"
  using demo_boot(3) by (simp add: apply_defaults_def)

lemma ram_store_saves: "fst (st_save ram_store bytes st)"
  by (simp add: ram_store_def)

theorem boot_reaches_operational_witness:
  "lc_state (lc (ms_env demo_fd)) = LIFECYCLE_STATE_OPERATIONAL \<and> fd_params demo_fd = apply_defaults"
  using boot_reaches_operational [OF demo_stored demo_fd_def] by simp

theorem fc06_write_reads_back_witness:
  "(\<exists>code. ms_sent (fd_process demo_board (rtu [1, 6, 1, 2, 0, 200]) demo_fd) =
       rtu [1, 0x86, code] # ms_sent demo_fd) \<or>
   (let s' = fd_process demo_board (rtu [1, 6, 1, 2, 0, 200]) demo_fd
    in ms_sent (fd_process demo_board (rtu [1, 3, 1, 2, 0, 1]) s') =
       rtu [1, 3, 2, 0, 200] # ms_sent s')"
proof -
  have f: "write_request 1 0x0102 200 = [1, 6, 1, 2, 0, 200]"
    "read_request a 0x03 0x0102 1 = [a, 3, 1, 2, 0, 1]" "exception_frame a 0x06 c = [a, 0x86, c]"
    "read_reply a 0x03 (Inr [200]) = [a, 3, 2, 0, 200]" for a c
    by (simp_all add: write_request_def read_request_def be16_def hi8_def lo8_def
        exception_frame_def read_reply_def)
  show ?thesis
    using fc06_write_reads_back [OF demo_wf demo_boot(6), of "0x0102" _ demo_board 200, OF _ refl]
    by (auto simp: f Let_def demo_addr)
qed

theorem alarms_follow_config_witness:
  "take 3 (thresholds (alarm_of (ms_env (fold (fd_step demo_board)
      [Ev_frame (rtu [1, 6, 1, 2, 0, 200]), Ev_poll, Ev_cycle None (Some (2500, 4000)) None] demo_fd)))) =
   config_thresholds (params (config (ms_env (fold (fd_step demo_board)
      [Ev_frame (rtu [1, 6, 1, 2, 0, 200]), Ev_poll, Ev_cycle None (Some (2500, 4000)) None] demo_fd))))"
  unfolding demo_fd_def by (rule alarms_follow_config [OF demo_stored ram_store_saves refl])

section \<open>Answers and counters\<close>

text \<open>C19: the device answers a frame exactly when the frame has at least four bytes, its address and a
  correct CRC: then with exactly one reply, otherwise with none and without any effect but a
  diagnostic counter.\<close>

theorem answers_exactly_accepted_frames:
  assumes "ms_initialised s" "length frame \<le> 256"
  shows "if 4 \<le> length frame \<and> frame ! 0 = slave_addr s \<and> frame_crc_ok frame
         then length (ms_sent (fd_process bd frame s)) = length (ms_sent s) + 1
         else no_effect s (fd_process bd frame s)"
proof (cases "4 \<le> length frame \<and> frame ! 0 = slave_addr s \<and> frame_crc_ok frame")
  case True
  then obtain reply where "ms_sent (fd_process bd frame s) = reply # ms_sent s"
    using fd.one_answer_per_accepted_frame [of s frame bd] assms by (auto simp: fd_process_def)
  with True show ?thesis by simp
qed (use dropped_frame_no_effect [OF assms] in \<open>auto simp: fd_process_def not_le\<close>)

lemma run_counters:
  assumes "\<forall>f \<in> set frames. length f \<le> 256"
    and "valid_frames (stats s) = exception_responses (stats s) + successful_responses (stats s)"
    and "c = stats (fold (fd_process bd) frames s)"
  shows "valid_frames c = exception_responses c + successful_responses c"
  using assms
proof (induction frames arbitrary: s)
  case (Cons f frames)
  then show ?case
    using fd.counters_balance [of f s bd] by (simp add: fd_process_def)
qed simp

text \<open>Whatever arrives on the bus, the slave's counters balance: every valid frame was answered
  either with an exception or with a success response.\<close>

theorem device_counters_balance:
  assumes "\<forall>f \<in> set frames. length f \<le> 256"
    and "valid_frames (stats s) = exception_responses (stats s) + successful_responses (stats s)"
  shows "(\<lambda>c. valid_frames c = exception_responses c + successful_responses c)
           (stats (fold (fd_process bd) frames s))"
  using run_counters [OF assms refl] .

lemma read_slot_value:
  assumes "find_slot fw a = Some (slot_ro a t r)" "r m w = (MB_EXC_NONE, v)" "mrm_initialised m"
  shows "mrm_read_input_regs fw a 1 m w = (MB_EXC_NONE, [v])"
  using assms by (simp add: mrm_read_input_regs_def slot_defs)

lemma fd_snapshot_eq:
  "fd_snapshot s = (if ss_initialised (sensor (ms_env s)) then Some (readings (ss_snapshot (sensor (ms_env s)))) else None)"
  by (simp add: fd_snapshot_def sensor_service_get_snapshot_def)

lemma find_env_slots:
  "find_slot fw 0x0010 = Some (slot_ro 0x0010 REG_TYPE_INT16 read_temperature)"
  "find_slot fw 0x0011 = Some (slot_ro 0x0011 REG_TYPE_UINT16 read_humidity)"
  "find_slot fw 0x0012 = Some (slot_ro 0x0012 REG_TYPE_UINT16 read_pressure)"
  by (auto simp: find_slot_iff k_slots_def slot_ro_def)

definition env_value :: "('st, 'r) fd_env \<Rightarrow> nat \<Rightarrow> u16 \<Rightarrow> u16" where
  "env_value e i sentinel =
     (let r = readings (ss_snapshot (sensor e)) ! i
      in if ss_initialised (sensor e) \<and> rd_valid r then ucast (rd_value r) else sentinel)"

lemma fd_env_registers:
  assumes "mc_ready (cells e)"
  shows "fd_in_value bd 0x0010 e = (MODBUS_SLAVE_ERR_OK, env_value e SENSOR_ID_TEMPERATURE 0x8000)"
    "fd_in_value bd 0x0011 e = (MODBUS_SLAVE_ERR_OK, env_value e SENSOR_ID_HUMIDITY 0xFFFF)"
    "fd_in_value bd 0x0012 e = (MODBUS_SLAVE_ERR_OK, env_value e SENSOR_ID_PRESSURE 0xFFFF)"
proof -
  let ?m = "fd_map_of bd (probe e)"
  have sens: "read_sensor i x ?m (probe e) = (MB_EXC_NONE, env_value e i x)" for i x
    by (simp add: read_sensor_def fd_map_of_def fd_mrm_def fd_snapshot_eq env_value_def Let_def)
  have "mrm_initialised ?m" using assms by simp
  note v = read_slot_value [OF find_env_slots(1) _ this] read_slot_value [OF find_env_slots(2) _ this]
    read_slot_value [OF find_env_slots(3) _ this]
  show "fd_in_value bd 0x0010 e = (MODBUS_SLAVE_ERR_OK, env_value e SENSOR_ID_TEMPERATURE 0x8000)"
    "fd_in_value bd 0x0011 e = (MODBUS_SLAVE_ERR_OK, env_value e SENSOR_ID_HUMIDITY 0xFFFF)"
    "fd_in_value bd 0x0012 e = (MODBUS_SLAVE_ERR_OK, env_value e SENSOR_ID_PRESSURE 0xFFFF)"
    by (simp_all add: fd_in_value_def bridge_read_input_def bridge_read_def
        v [unfolded read_temperature_def read_humidity_def read_pressure_def, OF sens])
qed

text \<open>C28: an FC04 read of the three environmental registers is answered with the low sixteen bits of
  the last temperature, humidity and pressure, each replaced by its sentinel while its reading is
  not valid.\<close>

theorem fc04_reads_environment:
  assumes "slave_wf s" "mc_ready (cells (ms_env s))"
  shows "ms_sent (fd_process bd (rtu [slave_addr s, 0x04, 0x00, 0x10, 0x00, 0x03]) s) =
    rtu (read_reply (slave_addr s) 0x04
      (Inr [env_value (ms_env s) SENSOR_ID_TEMPERATURE 0x8000, env_value (ms_env s) SENSOR_ID_HUMIDITY 0xFFFF,
            env_value (ms_env s) SENSOR_ID_PRESSURE 0xFFFF])) # ms_sent s"
proof -
  have f: "read_request (slave_addr s) 0x04 0x0010 3 = [slave_addr s, 0x04, 0x00, 0x10, 0x00, 0x03]"
    by (simp add: read_request_def be16_def hi8_def lo8_def)
  have "reg_values (reg_read (fd_in_value bd) (fd_hold_value bd) 0x04 (ms_env s)) 0x0010 3 =
      Inr [env_value (ms_env s) SENSOR_ID_TEMPERATURE 0x8000, env_value (ms_env s) SENSOR_ID_HUMIDITY 0xFFFF,
            env_value (ms_env s) SENSOR_ID_PRESSURE 0xFFFF]"
    using fd_env_registers [OF assms(2)] by (simp add: numeral_3_eq_3 reg_read_def map_sum_def)
  then show ?thesis
    using fd.process_read [OF assms(1), where fc = "0x04" and cnt = 3 and start = "0x0010" and bd = bd]
    by (simp add: f served_def fd_process_def)
qed

section \<open>Where the parts fall out of step\<close>

text \<open>A write whose flash save fails: the new value is live, the callbacks have not run.\<close>

lemma failed_save:
  assumes "fd_wired d (ms_env s)" "\<And>bytes st. \<not> fst (st_save d bytes st)"
    and "validate_param_internal pid v (fd_params s) = CONFIG_SERVICE_OK"
    and "fd_set_param pid v s = (err, s')"
  shows "err = CONFIG_SERVICE_ERR_PERSIST" "fd_params s' = apply_param_to_struct (fd_params s) pid v"
    "alarm_of (ms_env s') = alarm_of (ms_env s)" "slave_addr s' = slave_addr s"
proof -
  let ?c = "config (ms_env s)"
  let ?p = "apply_param_to_struct (params ?c) pid v"
  have w: "cs_initialised ?c" "cs_save ?c = store_save d" using assms(1) by (simp_all add: fd_wired_def)
  have p: "fd_params s = params ?c" by (simp add: fd_params_def config_service_get_params_def w(1))
  obtain ok st where st: "st_save d (config_blob_bytes
      \<lparr>schema_version = CONFIG_SCHEMA_VERSION, blob_params = ?p\<rparr>) (store (host (ms_env s))) = (ok, st)"
    by fastforce
  then have "\<not> ok" using assms(2) by (metis fst_conv)
  then have "err = CONFIG_SERVICE_ERR_PERSIST \<and>
      s' = s\<lparr>ms_env := (ms_env s)\<lparr>config := ?c\<lparr>params := ?p\<rparr>, host := (host (ms_env s))\<lparr>store := st\<rparr>\<rparr>\<rparr>"
    using assms(3,4) w st p
    by (simp add: fd_set_param_def config_service_set_param_def persist_to_store_def store_save_def Let_def)
  then show "err = CONFIG_SERVICE_ERR_PERSIST" "fd_params s' = apply_param_to_struct (fd_params s) pid v"
    "alarm_of (ms_env s') = alarm_of (ms_env s)" "slave_addr s' = slave_addr s"
    using w p by (simp_all add: fd_params_def config_service_get_params_def alarm_of_def)
qed

lemma find_hysteresis_slot:
  "find_slot fw 0x0102 = Some (slot_rw 0x0102 REG_TYPE_UINT16 read_temp_hysteresis write_temp_hysteresis
     (Some validate_temp_hysteresis))"
  by (auto simp: find_slot_iff k_slots_def slot_rw_def)

text \<open>C38: when the flash does not take the save, an FC06 write of the temperature hysteresis (register
  0x0102) with a value of at most 1000 that validation accepts is refused with exception 0x03 (Illegal
  Data Value), and yet the refused value is live in the configuration, while AlarmService keeps judging
  by the old one.\<close>

theorem failed_save_refuses_but_applies:
  assumes "slave_wf s" "mc_ready (cells (ms_env s))" "fd_wired d (ms_env s)"
    and "\<And>bytes st. \<not> fst (st_save d bytes st)" "v \<le> 1000"
    and "validate_param_internal CONFIG_PARAM_TEMP_HYSTERESIS (ucast v) (fd_params s) = CONFIG_SERVICE_OK"
    and "s' = fd_process bd (rtu (write_request (slave_addr s) 0x0102 v)) s"
  shows "ms_sent s' = rtu (exception_frame (slave_addr s) 0x06 0x03) # ms_sent s \<and>
    temp_hysteresis (fd_params s') = v \<and> thresholds (alarm_of (ms_env s')) = thresholds (alarm_of (ms_env s))"
proof -
  let ?t = "accepted (rtu (write_request (slave_addr s) 0x0102 v)) s"
  let ?m = "fd_map_of bd ?t"
  obtain err t' where w: "fd_set_param CONFIG_PARAM_TEMP_HYSTERESIS (ucast v) ?t = (err, t')" by fastforce
  have fp: "fd_params ?t = fd_params s" by (simp add: fd_params_def)
  have "fd_wired d (ms_env ?t)"
    "validate_param_internal CONFIG_PARAM_TEMP_HYSTERESIS (ucast v) (fd_params ?t) = CONFIG_SERVICE_OK"
    using assms(3,6) by (simp_all add: fp)
  note f = failed_save [OF this(1) assms(4) this(2) w]
  have m: "mrm_initialised ?m" "cfg_write ?m = fd_set_param"
    using assms(2) by (simp_all add: fd_map_of_def fd_mrm_def)
  have "mrm_write_single_reg (bd_fw bd) 0x0102 v ?m ?t = (MB_EXC_ILLEGAL_DATA_VALUE, ?m, t')"
    using m assms(5) w f(1)
    by (simp add: mrm_write_single_reg_def check_slot_def write_slot_def find_hysteresis_slot slot_rw_def
        validate_temp_hysteresis_def write_temp_hysteresis_def write_param_def value_if_def)
  then have wr: "rm_write_holding (legacy_map bd) 0x0102 v ?t =
      (MODBUS_SLAVE_ERR_INVALID_VALUE, t'\<lparr>ms_env := (ms_env t')\<lparr>cells := cells_of ?m\<rparr>\<rparr>)"
    by (simp add: legacy_map_def bridge_write_holding_def bridge_write_def bridge_exc_to_err_def)
  from fd.process_write [OF assms(1) refl wr]
  have "ms_sent s' = rtu (exception_frame (slave_addr t') 0x06 0x03) # ms_sent s"
    "ms_env s' = (ms_env t')\<lparr>cells := cells_of ?m\<rparr>"
    by (simp_all add: served_def fd_process_def assms(7) write_reply_def)
  then show ?thesis
    using f(2-4) by (simp add: fp fd_params_def alarm_of_def)
qed

text \<open>Cancelling a configuration edit (or letting it time out) restores the configuration but
  leaves the alarm limits at the values of the cancelled edit: \<^verbatim>\<open>restore_snapshot\<close> fires no change
  callback.\<close>

theorem cancelled_edit_keeps_its_limits:
  assumes "\<And>bytes st. fst (st_save d bytes st)" "in_step d (ms_env s)"
    and enter: "s1 = handle_operational (LC_EVENT_CONFIG_EDIT_ENTER, 0) s"
    and edit: "fd_set_param pid v s1 = (CONFIG_SERVICE_OK, s2)"
    and cancel: "ev = LC_EVENT_CONFIG_EDIT_CANCEL \<or> ev = LC_EVENT_CONFIG_EDIT_TIMEOUT"
      "s3 = handle_editing_config (ev, x) s2"
  shows "fd_params s3 = fd_params s \<and>
    take 3 (thresholds (alarm_of (ms_env s3))) =
      config_thresholds (apply_param_to_struct (fd_params s) pid v)"
proof -
  have ini: "cs_initialised (config (ms_env s))" using assms(2) by (simp add: in_step_def fd_wired_def)
  have s1: "in_step d (ms_env s1)" "fd_params s1 = fd_params s" "snapshot (config (ms_env s1)) = fd_params s"
    "snapshot_valid (config (ms_env s1))"
    using assms(2) ini
    by (simp_all add: enter handle_operational_def config_service_snapshot_def upd_lc_def Let_def
        in_step_def fd_wired_def alarms_synced_def alarm_of_def fd_params_def config_service_get_params_def)
  have "in_step d (ms_env (snd (fd_set_param pid v s1)))"
    by (rule set_param_in_step [OF assms(1) s1(1)])
  then have s2: "in_step d (ms_env s2)" "fd_params s2 = apply_param_to_struct (fd_params s) pid v"
    using edit fdc.write_ok [OF edit] s1(2) by simp_all
  have "snapshot (config (ms_env s2)) = fd_params s" "snapshot_valid (config (ms_env s2))"
    using edit s1(3,4)
    by (auto simp: fd_set_param_def config_service_set_param_def Let_def split: prod.splits if_splits)
  moreover have "cs_initialised (config (ms_env s2))" "cs_save (config (ms_env s2)) = store_save d"
    using s2(1) by (simp_all add: in_step_def fd_wired_def)
  moreover obtain ok st where "st_save d (config_blob_bytes
      \<lparr>schema_version = CONFIG_SCHEMA_VERSION, blob_params = fd_params s\<rparr>) (store (host (ms_env s2))) = (ok, st)"
    by fastforce
  ultimately have "fd_params s3 = fd_params s \<and> alarm_of (ms_env s3) = alarm_of (ms_env s2)"
    using cancel(1)
    by (cases ok; auto simp: cancel(2) handle_editing_config_def config_service_restore_snapshot_def
        persist_to_store_def store_save_def upd_lc_def Let_def fd_params_def
        config_service_get_params_def alarm_of_def)
  moreover have "take 3 (thresholds (alarm_of (ms_env s2))) = config_thresholds (fd_params s2)"
    using s2(1) by (simp add: in_step_def fd_wired_def alarms_synced_def fd_params_def config_service_get_params_def)
  ultimately show ?thesis using s2(2) by simp
qed

lemma find_restart_slot:
  "find_slot fw 0x0202 = Some (slot_rw 0x0202 REG_TYPE_UINT16 read_cmd_soft_restart write_cmd_soft_restart None)"
  by (auto simp: find_slot_iff k_slots_def slot_rw_def)

lemma restart_write:
  assumes "mc_ready (cells (ms_env t))"
  shows "bridge_write_holding bd 0x0202 0xA5A5 t =
    (MODBUS_SLAVE_ERR_OK,
     t\<lparr>ms_env := (ms_env t)\<lparr>cells := (cells (ms_env t))\<lparr>mc_restart := 0xA5A5\<rparr>,
        lc := snd (handle_remote_command LC_REMOTE_CMD_SOFT_RESTART (lc (ms_env t)))\<rparr>\<rparr>)"
  using assms
  by (simp add: bridge_write_holding_def bridge_write_def mrm_write_single_reg_def check_slot_def
      write_slot_def find_restart_slot slot_rw_def write_cmd_soft_restart_def fd_map_of_def fd_mrm_def
      cells_of_def bridge_exc_to_err_def upd_lc_def)

text \<open>The Modbus restart command is acknowledged and then dropped: in Operational the event it
  posts is the default branch of \<^verbatim>\<open>handle_operational\<close>, so after one round of the event loop
  nothing has changed but the watchdog bookkeeping and the command's own read-back cell.\<close>

theorem soft_restart_is_dropped:
  assumes "slave_wf s" "mc_ready (cells (ms_env s))" "lc_initialised (lc (ms_env s))"
    and "lc_queue (lc (ms_env s)) = []" "lc_state (lc (ms_env s)) = LIFECYCLE_STATE_OPERATIONAL"
    and s1: "s1 = fd_process bd (rtu (write_request (slave_addr s) 0x0202 0xA5A5)) s"
  shows "ms_sent s1 = rtu (ack_frame (slave_addr s) 0x06 0x0202 0xA5A5) # ms_sent s \<and>
    ms_env (run_event_loop_once s1) =
      (ms_env (kick_watchdog s))\<lparr>cells := (cells (ms_env s))\<lparr>mc_restart := 0xA5A5\<rparr>\<rparr>"
proof -
  let ?t = "accepted (rtu (write_request (slave_addr s) 0x0202 0xA5A5)) s"
  have "rm_write_holding (legacy_map bd) 0x0202 0xA5A5 ?t = bridge_write_holding bd 0x0202 0xA5A5 ?t"
    by (simp add: legacy_map_def)
  then have wr: "rm_write_holding (legacy_map bd) 0x0202 0xA5A5 ?t =
    (MODBUS_SLAVE_ERR_OK,
     ?t\<lparr>ms_env := (ms_env s)\<lparr>cells := (cells (ms_env s))\<lparr>mc_restart := 0xA5A5\<rparr>,
        lc := snd (handle_remote_command LC_REMOTE_CMD_SOFT_RESTART (lc (ms_env s)))\<rparr>\<rparr>)"
    using restart_write [of ?t bd] assms(2) by simp
  from fd.process_write [OF assms(1) refl wr]
  have sent: "ms_sent s1 = rtu (ack_frame (slave_addr s) 0x06 0x0202 0xA5A5) # ms_sent s"
    and env: "ms_env s1 = (ms_env s)\<lparr>cells := (cells (ms_env s))\<lparr>mc_restart := 0xA5A5\<rparr>,
        lc := (lc (ms_env s))\<lparr>lc_queue := [(LC_EVENT_RESTART_REQUESTED, 0)]\<rparr>\<rparr>"
    using assms(3,4)
    by (simp_all add: served_def fd_process_def s1 write_reply_def handle_remote_command_def
        lc_post_event_def LC_QUEUE_DEPTH_def)
  have "ms_env (run_event_loop_once s1) =
      (ms_env (kick_watchdog s))\<lparr>cells := (cells (ms_env s))\<lparr>mc_restart := 0xA5A5\<rparr>\<rparr>"
    using assms(4,5)
    by (simp add: run_event_loop_once_def env kick_watchdog_def upd_lc_def handle_operational_def Let_def)
  with sent show ?thesis by simp
qed

text \<open>What reaches the lifecycle task: posted events and rounds of its loop.\<close>

datatype lc_input = In_post lc_event_type u32 | In_round

fun lc_step :: "lc_input \<Rightarrow> ('st, 'r) fd \<Rightarrow> ('st, 'r) fd" where
  "lc_step (In_post t x) s = upd_lc (\<lambda>l. snd (lc_post_event (t, x) l)) s"
| "lc_step In_round s = run_event_loop_once s"

lemma faulted_stays:
  assumes "lc_state (lc (ms_env s)) = LIFECYCLE_STATE_FAULTED"
  shows "lc_state (lc (ms_env (fold lc_step ins s))) = LIFECYCLE_STATE_FAULTED"
  using assms
proof (induction ins arbitrary: s)
  case (Cons i ins)
  have "lc_state (lc (ms_env (lc_step i s))) = LIFECYCLE_STATE_FAULTED"
  proof (cases i)
    case (In_post t x)
    then show ?thesis using Cons.prems by (simp add: upd_lc_def lc_post_event_def)
  next
    case In_round
    then show ?thesis
      using Cons.prems by (simp add: run_event_loop_once_def kick_watchdog_def upd_lc_def Let_def split: list.splits)
  qed
  then show ?case using Cons.IH by simp
qed simp

lemma boot_store:
  fixes s0 :: "('st, 'r) fd"
  obtains s1 :: "('st, 'r) fd" where "fd_boot d bd ok s0 = fd_run_init_sequence d s1"
    "store (host (ms_env s1)) = snd (st_load d 45 (store (host (ms_env s0))))"
proof -
  obtain ht baro timer where ok: "ok = (ht, baro, timer)" by (metis surj_pair)
  define e0 where "e0 = main_config d (ms_env s0)"
  let ?m0 = "fd_mrm (bd_rtc bd) (bd_junk bd) (cells e0) :: ('st, 'r) fd modbus_register_map"
  define e1 where "e1 = e0\<lparr>cells := cells_of (snd (modbus_register_map_init (bd_fw bd) (Some ?m0) ?m0)),
      lc := lifecycle_controller_init (lc e0)\<rparr>"
  define e2 where "e2 = sensor_task_start ht baro timer e1"
  have "store (host e0) = snd (st_load d 45 (store (host (ms_env s0))))"
    by (auto simp: e0_def main_config_def load_stored_def Let_def split: prod.splits option.splits)
  moreover have "store (host e2) = store (host e1)"
    by (simp add: e2_def sensor_task_start_def Let_def split: prod.splits)
  moreover have "ms_env (modbus_task_start bd (s0\<lparr>ms_env := e2\<rparr>)) = e2"
    by (simp add: modbus_task_start_def modbus_slave_init_def Let_def)
  moreover have "fd_boot d bd ok s0 = fd_run_init_sequence d (modbus_task_start bd (s0\<lparr>ms_env := e2\<rparr>))"
    unfolding fd_boot_def Let_def ok e0_def [symmetric] e1_def [symmetric] by (simp add: e2_def)
  ultimately show thesis using that by (simp add: e1_def)
qed

text \<open>C39: a device whose configuration store holds no valid slot, as when it leaves the factory, never
  becomes operational: the boot ends in Faulted and no event and no round of the event loop leaves
  that state, although the configuration service has its defaults.\<close>

theorem blank_store_never_operational:
  assumes "\<not> st_check d (snd (st_load d 45 (store (host (ms_env s0)))))"
  shows "lc_state (lc (ms_env (fold lc_step ins (fd_boot d bd drivers s0)))) = LIFECYCLE_STATE_FAULTED"
proof -
  obtain s1 where s1: "fd_boot d bd drivers s0 = fd_run_init_sequence d s1"
    "store (host (ms_env s1)) = snd (st_load d 45 (store (host (ms_env s0))))"
    by (rule boot_store)
  then have "lc_state (lc (ms_env (fd_boot d bd drivers s0))) = LIFECYCLE_STATE_FAULTED"
    using assms by (simp add: fd_run_init_sequence_def upd_lc_def enter_faulted_def)
  then show ?thesis by (rule faulted_stays)
qed

section \<open>The properties on concrete devices\<close>

theorem corrupted_frame_dropped_witness:
  "no_effect demo_fd (snd (modbus_slave_process (legacy_map demo_board)
     ([1, 6, 1, 2, 0, 201] @ drop 6 (rtu [1, 6, 1, 2, 0, 200])) demo_fd))"
proof -
  have rtu: "rtu [1, 6, 1, 2, 0, 200] = [1, 6, 1, 2] @ [0, 200] @ drop 6 (rtu [1, 6, 1, 2, 0, 200])"
    by (simp add: rtu_def)
  have "ms_initialised demo_fd" "length [1 :: u8, 6, 1, 2, 0, 200] \<le> 254" using demo_boot(4) by simp_all
  from corrupted_frame_dropped [OF this rtu, where a' = 0 and b' = 201 and D = "legacy_map demo_board"] show ?thesis by simp
qed

theorem bad_address_writes_nothing_witness:
  "snd (snd (mrm_write_multiple_regs (bd_fw demo_board) 0x0102 [200, 0] (fd_map_of demo_board demo_fd) demo_fd))
     = demo_fd"
proof -
  let ?m = "fd_map_of demo_board demo_fd"
  have none: "find_slot (bd_fw demo_board) 0x0103 = (None :: (u8 list option, rtc_datetime \<times> u32) fd reg_slot option)"
    by (simp add: find_slot_def k_slots_def slot_defs)
  have "check_slot (bd_fw demo_board) 0x0102 200 ?m demo_fd = MB_EXC_NONE"
    by (simp add: check_slot_def find_hysteresis_slot slot_rw_def validate_temp_hysteresis_def value_if_def)
  moreover have "check_slot (bd_fw demo_board) 0x0103 0 ?m demo_fd = MB_EXC_ILLEGAL_DATA_ADDR"
    by (simp add: check_slot_def none)
  ultimately have "mrm_write_multiple_regs (bd_fw demo_board) 0x0102 [200, 0] ?m demo_fd =
      (MB_EXC_ILLEGAL_DATA_ADDR, ?m, demo_fd)"
    using demo_boot(6)
    by (simp add: mrm_write_multiple_regs_def block_addrs_def is_cmd_reg_def is_time_reg_def upt_rec)
  from bad_address_writes_nothing [OF this] this show ?thesis by simp
qed

theorem input_and_holding_disjoint_witness:
  "mrm_read_holding_regs (bd_fw demo_board) 0x0010 1 (fd_map_of demo_board demo_fd) demo_fd =
     (MB_EXC_ILLEGAL_DATA_ADDR, [])"
proof (rule input_and_holding_disjoint)
  let ?m = "fd_map_of demo_board demo_fd"
  have "mrm_read_input_regs (bd_fw demo_board) 0x0010 1 ?m demo_fd =
      (MB_EXC_NONE, [snd (read_temperature ?m demo_fd)])"
    using demo_boot(6) read_sensor_none [where i = SENSOR_ID_TEMPERATURE and s = ?m and w = demo_fd]
    by (intro read_slot_value [OF find_env_slots(1)])
       (simp_all add: read_temperature_def prod_eq_iff)
  then show "fst (mrm_read_input_regs (bd_fw demo_board) 0x0010 1 ?m demo_fd) = MB_EXC_NONE" by simp
qed

theorem time_registers_written_as_pair_witness:
  "time_refused (fd_map_of demo_board demo_fd) demo_fd
     (mrm_write_single_reg (bd_fw demo_board) 0x0210 5 (fd_map_of demo_board demo_fd) demo_fd)"
proof -
  have "mrm_initialised (fd_map_of demo_board demo_fd)" using demo_boot(6) by simp
  from time_registers_written_as_pair [OF this, of "0x0210" demo_fd "bd_fw demo_board" 5] show ?thesis by simp
qed

theorem answers_exactly_accepted_frames_witness:
  "length (ms_sent (fd_process demo_board (rtu [1, 3, 1, 2, 0, 1]) demo_fd)) = length (ms_sent demo_fd) + 1"
proof -
  let ?f = "rtu [1, 3, 1, 2, 0, 1]"
  have "length ?f = 8" "?f ! 0 = 1" by (simp_all add: rtu_def)
  then show ?thesis
    using answers_exactly_accepted_frames [OF demo_boot(4), of ?f demo_board] by (simp add: demo_addr)
qed

theorem device_counters_balance_witness:
  "(\<lambda>c. valid_frames c = exception_responses c + successful_responses c)
     (stats (fold (fd_process demo_board) [rtu [1, 3, 1, 2, 0, 1], [1, 2, 3], rtu [1, 9, 0, 0]] demo_fd))"
proof (rule device_counters_balance)
  show "valid_frames (stats demo_fd) = exception_responses (stats demo_fd) + successful_responses (stats demo_fd)"
    using demo_boot(7) by (simp add: same_frame_def blank_fd_def probe_def zero_stats_def)
qed (simp add: rtu_def)

theorem fc04_reads_environment_witness:
  "ms_sent (fd_process demo_board (rtu [slave_addr demo_fd, 0x04, 0x00, 0x10, 0x00, 0x03]) demo_fd) =
    rtu (read_reply (slave_addr demo_fd) 0x04
      (Inr [env_value (ms_env demo_fd) SENSOR_ID_TEMPERATURE 0x8000, env_value (ms_env demo_fd) SENSOR_ID_HUMIDITY 0xFFFF,
            env_value (ms_env demo_fd) SENSOR_ID_PRESSURE 0xFFFF])) # ms_sent demo_fd"
  by (rule fc04_reads_environment [OF demo_wf demo_boot(6)])

text \<open>The same device on a flash that takes no more saves.\<close>

definition worn_store :: "u8 list option config_store_if" where
  "worn_store = ram_store\<lparr>st_save := (\<lambda>bytes st. (False, st))\<rparr>"

definition worn_fd :: "(u8 list option, rtc_datetime \<times> u32) fd" where
  "worn_fd = fd_boot worn_store demo_board (True, True, True) (blank_fd (Some (blob_of apply_defaults)))"

lemma worn_stored:
  "stored_config worn_store apply_defaults (store (host (ms_env (blank_fd (Some (blob_of apply_defaults))))))"
  using demo_stored by (simp add: stored_config_def worn_store_def)

lemmas worn_boot = boot_ok [OF worn_stored worn_fd_def]

theorem failed_save_refuses_but_applies_witness:
  "(\<lambda>s'. ms_sent s' = rtu (exception_frame (slave_addr worn_fd) 0x06 0x03) # ms_sent worn_fd \<and>
      temp_hysteresis (fd_params s') = 200 \<and>
      thresholds (alarm_of (ms_env s')) = thresholds (alarm_of (ms_env worn_fd)))
   (fd_process demo_board (rtu (write_request (slave_addr worn_fd) 0x0102 200)) worn_fd)"
proof (rule failed_save_refuses_but_applies [OF _ _ _ _ _ _ refl])
  show "slave_wf worn_fd" using worn_boot(4,7) by (simp add: slave_wf_def same_frame_def blank_fd_def probe_def)
  show "fd_wired worn_store (ms_env worn_fd)" using worn_boot(5) by (simp add: in_step_def)
  show "validate_param_internal CONFIG_PARAM_TEMP_HYSTERESIS (ucast (200 :: u16)) (fd_params worn_fd) = CONFIG_SERVICE_OK"
    by (simp add: worn_boot(2) apply_defaults_def as_u16_def valid_if_def)
qed (use worn_boot(6) in \<open>simp_all add: worn_store_def\<close>)

text \<open>An edit that raises the temperature hysteresis, cancelled: the limits are those of the edit.\<close>

definition edited_fd :: "(u8 list option, rtc_datetime \<times> u32) fd" where
  "edited_fd = snd (fd_set_param CONFIG_PARAM_TEMP_HYSTERESIS 200
     (handle_operational (LC_EVENT_CONFIG_EDIT_ENTER, 0) demo_fd))"

theorem cancelled_edit_keeps_its_limits_witness:
  "(\<lambda>s. thr_hyst (thresholds (alarm_of (ms_env s)) ! 0) = 200 \<and> temp_hysteresis (fd_params s) = 100)
     (handle_editing_config (LC_EVENT_CONFIG_EDIT_CANCEL, 0) edited_fd)"
proof -
  let ?s1 = "handle_operational (LC_EVENT_CONFIG_EDIT_ENTER, 0) demo_fd"
  let ?s3 = "handle_editing_config (LC_EVENT_CONFIG_EDIT_CANCEL, 0) edited_fd"
  have w: "cs_initialised (config (ms_env demo_fd))" "cs_save (config (ms_env demo_fd)) = store_save ram_store"
    using demo_boot(5) by (simp_all add: in_step_def fd_wired_def)
  have p: "params (config (ms_env demo_fd)) = apply_defaults"
    using demo_boot(2) w(1) by (simp add: fd_params_def config_service_get_params_def)
  have "fst (fd_set_param CONFIG_PARAM_TEMP_HYSTERESIS 200 ?s1) = CONFIG_SERVICE_OK"
    using w p by (simp add: fd_set_param_def handle_operational_def config_service_snapshot_def upd_lc_def
        config_service_set_param_def persist_to_store_def store_save_def ram_store_def Let_def
        as_u16_def valid_if_def apply_defaults_def)
  then have edit: "fd_set_param CONFIG_PARAM_TEMP_HYSTERESIS 200 ?s1 = (CONFIG_SERVICE_OK, edited_fd)"
    by (simp add: edited_fd_def prod_eq_iff)
  have "take 3 (thresholds (alarm_of (ms_env ?s3))) =
      config_thresholds (apply_param_to_struct apply_defaults CONFIG_PARAM_TEMP_HYSTERESIS 200)"
    and "fd_params ?s3 = apply_defaults"
    using cancelled_edit_keeps_its_limits [OF ram_store_saves demo_boot(5) refl edit _ refl,
        of LC_EVENT_CONFIG_EDIT_CANCEL 0]
    by (simp_all add: demo_boot(2))
  moreover have "thresholds (alarm_of (ms_env ?s3)) ! 0 = take 3 (thresholds (alarm_of (ms_env ?s3))) ! 0"
    by simp
  ultimately show ?thesis by (simp del: nth_take add: config_thresholds_def apply_defaults_def as_u16_def)
qed

theorem soft_restart_is_dropped_witness:
  "lc_state (lc (ms_env (run_event_loop_once
     (fd_process demo_board (rtu (write_request (slave_addr demo_fd) 0x0202 0xA5A5)) demo_fd)))) =
   LIFECYCLE_STATE_OPERATIONAL"
proof -
  have lc: "lc_initialised (lc (ms_env demo_fd))" "lc_queue (lc (ms_env demo_fd)) = []" by (rule demo_boot(8,9))+
  from soft_restart_is_dropped [OF demo_wf demo_boot(6) this demo_boot(1) refl, of demo_board]
  show ?thesis using demo_boot(1) by (simp add: kick_watchdog_def upd_lc_def Let_def)
qed

theorem blank_store_never_operational_witness:
  "lc_state (lc (ms_env (fold lc_step [In_post LC_EVENT_CONFIG_EDIT_ENTER 0, In_round, In_round]
     (fd_boot ram_store demo_board (True, True, True) (blank_fd None))))) = LIFECYCLE_STATE_FAULTED"
  by (rule blank_store_never_operational) (simp add: ram_store_def blank_fd_def blank_env_def)

end
