(* ===== verification/Qspi_Flash.thy ===== *)
theory Qspi_Flash
  imports Prelude
begin

text \<open>
  QspiFlashDriver of the Field Device (\<^verbatim>\<open>drivers/qspi_flash_driver/qspi_flash_driver.c\<close>): the
  argument checks and command order of read, page program and sector erase.

  The QUADSPI peripheral and the flash behind it are a parameter (\<open>'h\<close>): the busy flag, and the
  outcome of the commands \<^verbatim>\<open>WREN\<close>, \<^verbatim>\<open>READ\<close>, \<^verbatim>\<open>PP\<close> and \<^verbatim>\<open>SE\<close>, each with its
  \<^verbatim>\<open>poll_tcf\<close> and \<^verbatim>\<open>poll_wip\<close>.  The locale \<open>nor_chip\<close> states what a NOR flash documents; the
  locale \<open>nor_flash\<close> states what the clients of the driver rely on, and the first gives the second.
\<close>

section \<open>Driver\<close>

datatype qspi_flash_err =
    QSPI_FLASH_OK | QSPI_FLASH_ERR_BUSY | QSPI_FLASH_ERR_TIMEOUT | QSPI_FLASH_ERR_ADDR
  | QSPI_FLASH_ERR_LEN | QSPI_FLASH_ERR_DEVICE | QSPI_FLASH_ERR_NOT_INITIALISED
  | QSPI_FLASH_ERR_NULL_POINTER

record 'h qspi_chip =
  chip_busy :: "'h \<Rightarrow> bool"
  chip_wren :: "'h \<Rightarrow> qspi_flash_err \<times> 'h"
  chip_byte :: "'h \<Rightarrow> nat \<Rightarrow> u8"
  chip_program :: "nat \<Rightarrow> u8 list \<Rightarrow> 'h \<Rightarrow> qspi_flash_err \<times> 'h"
  chip_erase :: "nat \<Rightarrow> 'h \<Rightarrow> qspi_flash_err \<times> 'h"

record 'h qspi =
  q_initialised :: bool
  q_device_size :: nat
  q_chip :: 'h

definition QSPI_DEVICE_SIZE_BYTES :: nat where "QSPI_DEVICE_SIZE_BYTES = 16 * 1024 * 1024"
definition QSPI_PAGE_SIZE_BYTES :: nat where "QSPI_PAGE_SIZE_BYTES = 256"
definition QSPI_SECTOR_SIZE_BYTES :: nat where "QSPI_SECTOR_SIZE_BYTES = 4096"

text \<open>\<^verbatim>\<open>addr + len\<close> is a 32-bit sum.\<close>

definition add32 :: "nat \<Rightarrow> nat \<Rightarrow> nat" where "add32 a b = (a + b) mod 2 ^ 32"

definition page_base :: "nat \<Rightarrow> nat" where "page_base a = a - a mod QSPI_PAGE_SIZE_BYTES"
definition sector_base :: "nat \<Rightarrow> nat" where "sector_base a = a - a mod QSPI_SECTOR_SIZE_BYTES"

definition qspi_flash_read :: "'h qspi_chip \<Rightarrow> nat \<Rightarrow> nat \<Rightarrow> 'h qspi \<Rightarrow> qspi_flash_err \<times> u8 list" where
  "qspi_flash_read C addr len q =
     (if \<not> q_initialised q then (QSPI_FLASH_ERR_NOT_INITIALISED, [])
      else if chip_busy C (q_chip q) then (QSPI_FLASH_ERR_BUSY, [])
      else if len = 0 then (QSPI_FLASH_ERR_LEN, [])
      else if add32 addr len > q_device_size q then (QSPI_FLASH_ERR_ADDR, [])
      else (QSPI_FLASH_OK, map (\<lambda>i. chip_byte C (q_chip q) (addr + i)) [0..<len]))"

definition qspi_flash_write_page :: "'h qspi_chip \<Rightarrow> nat \<Rightarrow> u8 list \<Rightarrow> 'h qspi \<Rightarrow> qspi_flash_err \<times> 'h qspi" where
  "qspi_flash_write_page C addr data q =
     (if \<not> q_initialised q then (QSPI_FLASH_ERR_NOT_INITIALISED, q)
      else if chip_busy C (q_chip q) then (QSPI_FLASH_ERR_BUSY, q)
      else if length data = 0 then (QSPI_FLASH_ERR_LEN, q)
      else if length data > QSPI_PAGE_SIZE_BYTES then (QSPI_FLASH_ERR_LEN, q)
      else if page_base addr \<noteq> page_base (add32 addr (length data - 1)) then (QSPI_FLASH_ERR_LEN, q)
      else if add32 addr (length data) > q_device_size q then (QSPI_FLASH_ERR_ADDR, q)
      else
        let (err, h) = chip_wren C (q_chip q)
        in if err \<noteq> QSPI_FLASH_OK then (err, q\<lparr>q_chip := h\<rparr>)
           else let (err, h) = chip_program C addr data h in (err, q\<lparr>q_chip := h\<rparr>))"

definition qspi_flash_erase_sector :: "'h qspi_chip \<Rightarrow> nat \<Rightarrow> 'h qspi \<Rightarrow> qspi_flash_err \<times> 'h qspi" where
  "qspi_flash_erase_sector C addr q =
     (if \<not> q_initialised q then (QSPI_FLASH_ERR_NOT_INITIALISED, q)
      else if chip_busy C (q_chip q) then (QSPI_FLASH_ERR_BUSY, q)
      else if addr \<ge> q_device_size q then (QSPI_FLASH_ERR_ADDR, q)
      else
        let (err, h) = chip_wren C (q_chip q)
        in if err \<noteq> QSPI_FLASH_OK then (err, q\<lparr>q_chip := h\<rparr>)
           else let (err, h) = chip_erase C (sector_base addr) h in (err, q\<lparr>q_chip := h\<rparr>))"

text \<open>The vtable the clients get.\<close>

record 'f iqspi_flash =
  fl_read :: "nat \<Rightarrow> nat \<Rightarrow> 'f \<Rightarrow> qspi_flash_err \<times> u8 list"
  fl_write_page :: "nat \<Rightarrow> u8 list \<Rightarrow> 'f \<Rightarrow> qspi_flash_err \<times> 'f"
  fl_erase_sector :: "nat \<Rightarrow> 'f \<Rightarrow> qspi_flash_err \<times> 'f"

definition qspi_flash_driver :: "'h qspi_chip \<Rightarrow> 'h qspi iqspi_flash" where
  "qspi_flash_driver C =
    \<lparr>fl_read = qspi_flash_read C, fl_write_page = qspi_flash_write_page C,
     fl_erase_sector = qspi_flash_erase_sector C\<rparr>"

section \<open>NOR flash\<close>

text \<open>
  What the clients rely on: reads return the memory; a page program or sector erase that fails may
  leave anything inside its page range or sector but nothing outside; one that succeeds has cleared
  bits (program) or set all of them (erase).  \<open>usable\<close> flash answers reads below \<open>2 ^ 23\<close>, whatever
  happens to it.
\<close>

locale nor_flash =
  fixes F :: "'f iqspi_flash" and view :: "'f \<Rightarrow> nat \<Rightarrow> u8" and usable :: "'f \<Rightarrow> bool"
  assumes read_ok: "fl_read F a n f = (QSPI_FLASH_OK, bs) \<Longrightarrow> bs = map (\<lambda>i. view f (a + i)) [0..<n]"
    and read_works: "usable f \<Longrightarrow> 0 < n \<Longrightarrow> a + n \<le> 2 ^ 23 \<Longrightarrow> fst (fl_read F a n f) = QSPI_FLASH_OK"
    and write_usable: "usable f \<Longrightarrow> usable (snd (fl_write_page F a bs f))"
    and erase_usable: "usable f \<Longrightarrow> usable (snd (fl_erase_sector F a f))"
    and write_outside: "x < a \<or> a + length bs \<le> x \<Longrightarrow> view (snd (fl_write_page F a bs f)) x = view f x"
    and write_inside: "fst (fl_write_page F a bs f) = QSPI_FLASH_OK \<Longrightarrow> i < length bs \<Longrightarrow>
      view (snd (fl_write_page F a bs f)) (a + i) = view f (a + i) AND bs ! i"
    and erase_outside: "x < sector_base a \<or> sector_base a + 4096 \<le> x \<Longrightarrow>
      view (snd (fl_erase_sector F a f)) x = view f x"
    and erase_inside: "fst (fl_erase_sector F a f) = QSPI_FLASH_OK \<Longrightarrow> sector_base a \<le> x \<Longrightarrow>
      x < sector_base a + 4096 \<Longrightarrow> view (snd (fl_erase_sector F a f)) x = 0xFF"
begin

lemma read_value:
  assumes "usable f" "0 < n" "a + n \<le> 2 ^ 23"
  shows "fl_read F a n f = (QSPI_FLASH_OK, map (\<lambda>i. view f (a + i)) [0..<n])"
  using read_works [OF assms] read_ok [of a n f "snd (fl_read F a n f)"]
  by (cases "fl_read F a n f") simp

end

text \<open>
  The flash chip: an idle chip stays idle, write enable changes no byte, a program or erase acts on
  the addressed bytes or sector only.
\<close>

locale nor_chip =
  fixes C :: "'h qspi_chip"
  assumes wren_idle: "\<not> chip_busy C h \<Longrightarrow> \<not> chip_busy C (snd (chip_wren C h))"
    and program_idle: "\<not> chip_busy C h \<Longrightarrow> \<not> chip_busy C (snd (chip_program C a bs h))"
    and chip_erase_idle: "\<not> chip_busy C h \<Longrightarrow> \<not> chip_busy C (snd (chip_erase C a h))"
    and wren_keeps: "chip_byte C (snd (chip_wren C h)) x = chip_byte C h x"
    and program_outside: "x < a \<or> a + length bs \<le> x \<Longrightarrow>
      chip_byte C (snd (chip_program C a bs h)) x = chip_byte C h x"
    and program_inside: "fst (chip_program C a bs h) = QSPI_FLASH_OK \<Longrightarrow> i < length bs \<Longrightarrow>
      chip_byte C (snd (chip_program C a bs h)) (a + i) = chip_byte C h (a + i) AND bs ! i"
    and chip_erase_outside: "x < a \<or> a + 4096 \<le> x \<Longrightarrow> chip_byte C (snd (chip_erase C a h)) x = chip_byte C h x"
    and chip_erase_inside: "fst (chip_erase C a h) = QSPI_FLASH_OK \<Longrightarrow> a \<le> x \<Longrightarrow> x < a + 4096 \<Longrightarrow>
      chip_byte C (snd (chip_erase C a h)) x = 0xFF"

definition qspi_view :: "'h qspi_chip \<Rightarrow> 'h qspi \<Rightarrow> nat \<Rightarrow> u8" where
  "qspi_view C q a = chip_byte C (q_chip q) a"

definition qspi_usable :: "'h qspi_chip \<Rightarrow> 'h qspi \<Rightarrow> bool" where
  "qspi_usable C q \<longleftrightarrow> q_initialised q \<and> q_device_size q = QSPI_DEVICE_SIZE_BYTES \<and> \<not> chip_busy C (q_chip q)"

lemmas driver_defs = qspi_flash_driver_def qspi_flash_read_def qspi_flash_write_page_def
  qspi_flash_erase_sector_def qspi_view_def qspi_usable_def

sublocale nor_chip \<subseteq> drv: nor_flash "qspi_flash_driver C" "qspi_view C" "qspi_usable C"
proof (unfold_locales)
  fix a n bs x i and f :: "'h qspi"
  show "bs = map (\<lambda>i. qspi_view C f (a + i)) [0..<n]"
    if "fl_read (qspi_flash_driver C) a n f = (QSPI_FLASH_OK, bs)"
    using that by (auto simp: driver_defs split: if_splits)
  show "fst (fl_read (qspi_flash_driver C) a n f) = QSPI_FLASH_OK"
    if "qspi_usable C f" "0 < n" "a + n \<le> 2 ^ 23"
    using that by (simp add: driver_defs add32_def QSPI_DEVICE_SIZE_BYTES_def)
  show "qspi_usable C (snd (fl_write_page (qspi_flash_driver C) a bs f))" if "qspi_usable C f"
    using that wren_idle program_idle by (auto simp: driver_defs Let_def split_def)
  show "qspi_usable C (snd (fl_erase_sector (qspi_flash_driver C) a f))" if "qspi_usable C f"
    using that wren_idle chip_erase_idle by (auto simp: driver_defs Let_def split_def)
  show "qspi_view C (snd (fl_write_page (qspi_flash_driver C) a bs f)) x = qspi_view C f x"
    if "x < a \<or> a + length bs \<le> x"
    using that program_outside [OF that] wren_keeps by (simp add: driver_defs Let_def split_def)
  show "qspi_view C (snd (fl_write_page (qspi_flash_driver C) a bs f)) (a + i) = qspi_view C f (a + i) AND bs ! i"
    if "fst (fl_write_page (qspi_flash_driver C) a bs f) = QSPI_FLASH_OK" "i < length bs"
    using that program_inside wren_keeps by (auto simp: driver_defs Let_def split_def split: if_splits)
  show "qspi_view C (snd (fl_erase_sector (qspi_flash_driver C) a f)) x = qspi_view C f x"
    if "x < sector_base a \<or> sector_base a + 4096 \<le> x"
    using chip_erase_outside [OF that] wren_keeps by (simp add: driver_defs Let_def split_def)
  show "qspi_view C (snd (fl_erase_sector (qspi_flash_driver C) a f)) x = 0xFF"
    if "fst (fl_erase_sector (qspi_flash_driver C) a f) = QSPI_FLASH_OK" "sector_base a \<le> x"
      "x < sector_base a + 4096"
    using that chip_erase_inside by (auto simp: driver_defs Let_def split_def split: if_splits)
qed

text \<open>
  Flash that still works: besides, page programs within a page and sector erases succeed, as long as
  the device stays \<open>sound\<close>.
\<close>

locale working_flash = nor_flash F view usable
  for F :: "'f iqspi_flash" and view :: "'f \<Rightarrow> nat \<Rightarrow> u8" and usable :: "'f \<Rightarrow> bool" +
  assumes write_works: "usable f \<Longrightarrow> bs \<noteq> [] \<Longrightarrow> a mod 256 + length bs \<le> 256 \<Longrightarrow> a + length bs \<le> 2 ^ 23 \<Longrightarrow>
      fst (fl_write_page F a bs f) = QSPI_FLASH_OK"
    and erase_works: "usable f \<Longrightarrow> a < 2 ^ 23 \<Longrightarrow> fst (fl_erase_sector F a f) = QSPI_FLASH_OK"

locale working_chip = nor_chip C for C :: "'h qspi_chip" +
  fixes sound :: "'h \<Rightarrow> bool"
  assumes wren_works: "sound h \<Longrightarrow> fst (chip_wren C h) = QSPI_FLASH_OK \<and> sound (snd (chip_wren C h))"
    and program_works: "sound h \<Longrightarrow> fst (chip_program C a bs h) = QSPI_FLASH_OK \<and> sound (snd (chip_program C a bs h))"
    and chip_erase_works: "sound h \<Longrightarrow> fst (chip_erase C a h) = QSPI_FLASH_OK \<and> sound (snd (chip_erase C a h))"

lemma same_page:
  assumes "bs \<noteq> []" "a mod 256 + length bs \<le> 256" "a + length bs \<le> 2 ^ 23"
  shows "page_base (add32 a (length bs - 1)) = page_base a"
proof -
  have e: "add32 a (length bs - 1) = a + (length bs - 1)" using assms(3) by (simp add: add32_def)
  define k r where "k = a div 256" and "r = a mod 256"
  have kr: "a = 256 * k + r" "r + length bs \<le> 256" "0 < length bs" using assms by (simp_all add: k_def r_def)
  then have "(a + (length bs - 1)) div 256 = k" by (intro div_nat_eqI) (unfold mult_Suc_right, linarith+)
  then show ?thesis
    by (simp only: page_base_def e QSPI_PAGE_SIZE_BYTES_def minus_mod_eq_mult_div k_def)
qed

definition qspi_sound :: "'h qspi_chip \<Rightarrow> ('h \<Rightarrow> bool) \<Rightarrow> 'h qspi \<Rightarrow> bool" where
  "qspi_sound C sound q \<longleftrightarrow> qspi_usable C q \<and> sound (q_chip q)"

lemmas driver_step_defs = driver_defs qspi_sound_def Let_def split_def

sublocale working_chip \<subseteq> wrk: working_flash "qspi_flash_driver C" "qspi_view C" "qspi_sound C sound"
proof (unfold_locales, goal_cases)
  case (1 a n f bs) then show ?case by (rule drv.read_ok)
next
  case (2 f n a) then show ?case by (simp add: qspi_sound_def drv.read_works)
next
  case (3 f a bs)
  then have "sound (q_chip (snd (fl_write_page (qspi_flash_driver C) a bs f)))"
    using wren_works program_works by (simp add: driver_step_defs)
  with 3 show ?case by (simp add: qspi_sound_def drv.write_usable)
next
  case (4 f a)
  then have "sound (q_chip (snd (fl_erase_sector (qspi_flash_driver C) a f)))"
    using wren_works chip_erase_works by (simp add: driver_step_defs)
  with 4 show ?case by (simp add: qspi_sound_def drv.erase_usable)
next
  case (5 x a bs f) then show ?case by (rule drv.write_outside)
next
  case (6 a bs f i) then show ?case by (rule drv.write_inside)
next
  case (7 x a f) then show ?case by (rule drv.erase_outside)
next
  case (8 a f x) then show ?case by (rule drv.erase_inside)
next
  case (9 f bs a)
  have "add32 a (length bs) \<le> QSPI_DEVICE_SIZE_BYTES" using 9 by (simp add: add32_def QSPI_DEVICE_SIZE_BYTES_def)
  moreover have "length bs \<le> 256" using 9 by simp
  ultimately show ?case
    using 9 same_page [of bs a] wren_works program_works
    by (simp add: driver_step_defs QSPI_PAGE_SIZE_BYTES_def)
next
  case (10 f a)
  then show ?case using wren_works chip_erase_works by (simp add: driver_step_defs QSPI_DEVICE_SIZE_BYTES_def)
qed

text \<open>A chip in memory, with a failure flag for every command.\<close>

record ram_chip_state =
  ram_bytes :: "nat \<Rightarrow> u8"
  ram_fails :: bool

definition ram_chip :: "ram_chip_state qspi_chip" where
  "ram_chip =
    \<lparr>chip_busy = (\<lambda>h. False), chip_wren = (\<lambda>h. (QSPI_FLASH_OK, h)), chip_byte = ram_bytes,
     chip_program = (\<lambda>a bs h.
       if ram_fails h then (QSPI_FLASH_ERR_TIMEOUT, h)
       else (QSPI_FLASH_OK, h\<lparr>ram_bytes := (\<lambda>x. if a \<le> x \<and> x < a + length bs
                                        then ram_bytes h x AND bs ! (x - a) else ram_bytes h x)\<rparr>)),
     chip_erase = (\<lambda>a h.
       if ram_fails h then (QSPI_FLASH_ERR_TIMEOUT, h)
       else (QSPI_FLASH_OK, h\<lparr>ram_bytes := (\<lambda>x. if a \<le> x \<and> x < a + 4096 then 0xFF else ram_bytes h x)\<rparr>))\<rparr>"

interpretation ram: working_chip ram_chip "\<lambda>h. \<not> ram_fails h"
  by unfold_locales (auto simp: ram_chip_def split: if_splits)

lemma ram_nor: "nor_chip ram_chip" and ram_working: "working_chip ram_chip (\<lambda>h. \<not> ram_fails h)"
  by (fact ram.nor_chip_axioms, fact ram.working_chip_axioms)

end
