(* ===== verification/Config_Store.thy ===== *)
theory Config_Store
  imports Bytes_CRC Qspi_Flash
begin

text \<open>
  ConfigStore of the Field Device (\<^verbatim>\<open>middleware/config_store/config_store.c\<close>): two flash slots
  written in turn, each a header, the data, padding and a CRC-32; the newest valid slot is loaded.

  The flash is reached through the driver's vtable (\<open>'f iqspi_flash\<close>).  Addresses are naturals: all
  of them lie in the 64 KB partition at 0, so the 32-bit sums of the code do not wrap.  The store
  runs with its mutex held.  What the locale \<open>nor_flash\<close> promises of the flash gives the store's
  two guarantees: a save that succeeds is what the next load returns, and a save that fails at any
  of its flash operations leaves the previous configuration loadable.
\<close>

section \<open>Constants and state\<close>

definition CONFIG_STORE_QSPI_BASE_ADDR :: nat where "CONFIG_STORE_QSPI_BASE_ADDR = 0"
definition CONFIG_STORE_SLOT_SIZE :: nat where "CONFIG_STORE_SLOT_SIZE = 32 * 1024"
definition CONFIG_STORE_SECTOR_SIZE :: nat where "CONFIG_STORE_SECTOR_SIZE = 4 * 1024"
definition CONFIG_STORE_MAX_DATA_BYTES :: nat where "CONFIG_STORE_MAX_DATA_BYTES = 32712"
definition CONFIG_STORE_MAGIC :: u32 where "CONFIG_STORE_MAGIC = 0xBADC0DE0"
definition CS_HEADER_SIZE :: nat where "CS_HEADER_SIZE = 16"
definition CS_CRC_OFFSET :: nat where "CS_CRC_OFFSET = 0x7FF8"
definition CS_CRC_COVERAGE :: nat where "CS_CRC_COVERAGE = 0x7FF8"
definition CS_DATA_AREA_SIZE :: nat where "CS_DATA_AREA_SIZE = CS_CRC_OFFSET - CS_HEADER_SIZE"
definition CS_SECTORS_PER_SLOT :: nat where "CS_SECTORS_PER_SLOT = CONFIG_STORE_SLOT_SIZE div CONFIG_STORE_SECTOR_SIZE"
definition CS_CHUNK_SIZE :: nat where "CS_CHUNK_SIZE = 256"
definition CS_FF_PAD_SIZE :: nat where "CS_FF_PAD_SIZE = 64"

lemmas cs_consts =
  CONFIG_STORE_QSPI_BASE_ADDR_def CONFIG_STORE_SLOT_SIZE_def CONFIG_STORE_SECTOR_SIZE_def
  CS_HEADER_SIZE_def CS_CRC_OFFSET_def CS_CRC_COVERAGE_def CS_DATA_AREA_SIZE_def
  CS_SECTORS_PER_SLOT_def CS_CHUNK_SIZE_def CS_FF_PAD_SIZE_def CONFIG_STORE_MAX_DATA_BYTES_def

datatype config_store_err =
    CONFIG_STORE_OK | CONFIG_STORE_ERR_NOT_INIT | CONFIG_STORE_ERR_NULL_ARG
  | CONFIG_STORE_ERR_TOO_LARGE | CONFIG_STORE_ERR_NO_VALID_SLOT | CONFIG_STORE_ERR_FLASH_ERASE
  | CONFIG_STORE_ERR_FLASH_WRITE | CONFIG_STORE_ERR_FLASH_READ

datatype health_event =
    HEALTH_EVENT_TIME_SYNC_ACQUIRED | HEALTH_EVENT_TIME_SYNC_LOST | HEALTH_EVENT_CONFIG_WRITE_FAIL
  | HEALTH_EVENT_CONFIG_READ_FAIL | HEALTH_EVENT_CONFIG_NO_VALID_SLOT | HEALTH_EVENT_SENSOR_FAIL
  | HEALTH_EVENT_NTP_SYNC_FAILED | HEALTH_EVENT_NTP_BAD_RESPONSE | HEALTH_EVENT_BUFFER_OVERFLOW
  | HEALTH_EVENT_BUFFER_FLASH_ERR | HEALTH_EVENT_MODBUS_LINK_UP | HEALTH_EVENT_MODBUS_NODE_OFFLINE
  | HEALTH_EVENT_ALARM_RAISED | HEALTH_EVENT_ALARM_CLEARED | HEALTH_EVENT_FAULT | HEALTH_EVENT_LCD_FAIL

record cs_slot_header =
  magic :: u32
  seq_number :: u32
  data_len :: u32
  reserved :: u32

text \<open>The module's state, the flash, and the health events pushed (newest first).\<close>

record 'f cs_state =
  cs_ready :: bool
  active_slot_index :: nat
  active_seq_number :: u32
  cs_flash :: 'f
  cs_health :: "health_event list"

definition header_bytes :: "cs_slot_header \<Rightarrow> u8 list" where
  "header_bytes h = cfl_put_u32 (magic h) @ cfl_put_u32 (seq_number h) @ cfl_put_u32 (data_len h) @
     cfl_put_u32 (reserved h)"

definition header_read :: "u8 list \<Rightarrow> cs_slot_header" where
  "header_read m = \<lparr>magic = cfl_get_u32 m, seq_number = cfl_get_u32 (drop 4 m),
     data_len = cfl_get_u32 (drop 8 m), reserved = cfl_get_u32 (drop 12 m)\<rparr>"

section \<open>Flash helpers\<close>

fun cs_flash_erase_range :: "'f iqspi_flash \<Rightarrow> nat \<Rightarrow> nat \<Rightarrow> 'f \<Rightarrow> qspi_flash_err \<times> 'f" where
  "cs_flash_erase_range F base 0 f = (QSPI_FLASH_OK, f)"
| "cs_flash_erase_range F base (Suc sectors) f =
     (let (err, f) = fl_erase_sector F base f
      in if err \<noteq> QSPI_FLASH_OK then (err, f)
         else cs_flash_erase_range F (base + CONFIG_STORE_SECTOR_SIZE) sectors f)"

lemma page_space: "0 < 256 - addr mod (256 :: nat)"
  using mod_less_divisor [of 256 addr] by simp

text \<open>Page-wise writes.\<close>

function cs_flash_write_bytes :: "'f iqspi_flash \<Rightarrow> nat \<Rightarrow> u8 list \<Rightarrow> 'f \<Rightarrow> qspi_flash_err \<times> 'f" where
  "cs_flash_write_bytes F addr buf f =
     (if buf = [] then (QSPI_FLASH_OK, f)
      else
        let space = 256 - addr mod 256;
            chunk = (if length buf < space then length buf else space);
            (err, f) = fl_write_page F addr (take chunk buf) f
        in if err \<noteq> QSPI_FLASH_OK then (err, f)
           else cs_flash_write_bytes F (addr + chunk) (drop chunk buf) f)"
  by pat_completeness auto
termination
  by (relation "measure (\<lambda>(F, addr, buf, f). length buf)") (auto simp: page_space)

declare cs_flash_write_bytes.simps [simp del]

definition cs_flash_read_bytes :: "'f iqspi_flash \<Rightarrow> nat \<Rightarrow> nat \<Rightarrow> 'f \<Rightarrow> qspi_flash_err \<times> u8 list" where
  "cs_flash_read_bytes F addr len f = fl_read F addr len f"

definition cs_slot_base :: "nat \<Rightarrow> nat" where
  "cs_slot_base i = (if i = 0 then CONFIG_STORE_QSPI_BASE_ADDR
                     else CONFIG_STORE_QSPI_BASE_ADDR + CONFIG_STORE_SLOT_SIZE)"

definition cs_push_health :: "health_event \<Rightarrow> 'f cs_state \<Rightarrow> 'f cs_state" where
  "cs_push_health ev s = s\<lparr>cs_health := ev # cs_health s\<rparr>"

text \<open>Feed \<open>n\<close> bytes of \<^verbatim>\<open>0xFF\<close>, at most 64 at a time.\<close>

function cs_crc_feed_ff_pad :: "u32 \<Rightarrow> nat \<Rightarrow> u32" where
  "cs_crc_feed_ff_pad crc n =
     (if n = 0 then crc
      else
        let chunk = (if n > CS_FF_PAD_SIZE then CS_FF_PAD_SIZE else n)
        in cs_crc_feed_ff_pad (config_store_crc32_feed crc (replicate chunk 0xFF)) (n - chunk))"
  by pat_completeness auto
termination by (relation "measure snd") (auto simp: CS_FF_PAD_SIZE_def)

declare cs_crc_feed_ff_pad.simps [simp del]

section \<open>Slots\<close>

text \<open>The CRC loop of \<^verbatim>\<open>cs_validate_slot\<close> from offset \<open>off\<close>; \<open>None\<close> when a read fails.\<close>

function cs_crc_chunks :: "'f iqspi_flash \<Rightarrow> nat \<Rightarrow> nat \<Rightarrow> u32 \<Rightarrow> 'f \<Rightarrow> u32 option" where
  "cs_crc_chunks F base off crc f =
     (if \<not> off < CS_CRC_COVERAGE then Some crc
      else
        let rlen = CS_CRC_COVERAGE - off;
            rlen = (if rlen > CS_CHUNK_SIZE then CS_CHUNK_SIZE else rlen);
            (err, chunk) = cs_flash_read_bytes F (base + off) rlen f
        in if err \<noteq> QSPI_FLASH_OK then None
           else cs_crc_chunks F base (off + rlen) (config_store_crc32_feed crc chunk) f)"
  by pat_completeness auto
termination
  by (relation "measure (\<lambda>(F, base, off, crc, f). CS_CRC_COVERAGE - off)")
     (auto simp: CS_CRC_COVERAGE_def CS_CHUNK_SIZE_def)

declare cs_crc_chunks.simps [simp del]

text \<open>\<open>Some seq\<close> for a valid slot.\<close>

definition cs_validate_slot :: "'f iqspi_flash \<Rightarrow> nat \<Rightarrow> 'f cs_state \<Rightarrow> u32 option \<times> 'f cs_state" where
  "cs_validate_slot F i s =
     (let base = cs_slot_base i; f = cs_flash s;
          (err, m) = cs_flash_read_bytes F base 16 f
      in if err \<noteq> QSPI_FLASH_OK then (None, s)
         else
           let hdr = header_read m
           in if magic hdr \<noteq> CONFIG_STORE_MAGIC then (None, s)
              else
                let (err, m) = cs_flash_read_bytes F (base + CS_CRC_OFFSET) 4 f
                in if err \<noteq> QSPI_FLASH_OK then (None, cs_push_health HEALTH_EVENT_CONFIG_READ_FAIL s)
                   else case cs_crc_chunks F base 0 config_store_crc32_start f of
                     None \<Rightarrow> (None, cs_push_health HEALTH_EVENT_CONFIG_READ_FAIL s)
                   | Some crc \<Rightarrow>
                       if config_store_crc32_finish crc \<noteq> cfl_get_u32 m
                       then (None, cs_push_health HEALTH_EVENT_CONFIG_READ_FAIL s)
                       else (Some (seq_number hdr), s))"

text \<open>The target slot and the next sequence number.\<close>

definition cs_select_target :: "u32 option \<Rightarrow> u32 option \<Rightarrow> nat \<times> u32" where
  "cs_select_target v0 v1 =
     (let (active, next_seq) =
        (case (v0, v1) of
           (None, None) \<Rightarrow> (0, 1)
         | (None, Some q1) \<Rightarrow> (1, q1 + 1)
         | (Some q0, None) \<Rightarrow> (0, q0 + 1)
         | (Some q0, Some q1) \<Rightarrow> let active = (if q0 \<ge> q1 then 0 else 1)
                               in (active, (if active = 0 then q0 else q1) + 1))
      in (1 - active, next_seq))"

section \<open>Save and load\<close>

definition cs_save_locked :: "'f iqspi_flash \<Rightarrow> u8 list \<Rightarrow> 'f cs_state \<Rightarrow> config_store_err \<times> 'f cs_state" where
  "cs_save_locked F data s =
     (let (v0, s) = cs_validate_slot F 0 s;
          (v1, s) = cs_validate_slot F 1 s;
          (target, next_seq) = cs_select_target v0 v1;
          base = cs_slot_base target;
          fail = cs_push_health HEALTH_EVENT_CONFIG_WRITE_FAIL;
          (err, f) = cs_flash_erase_range F base CS_SECTORS_PER_SLOT (cs_flash s);
          s = s\<lparr>cs_flash := f\<rparr>
      in if err \<noteq> QSPI_FLASH_OK then (CONFIG_STORE_ERR_FLASH_ERASE, fail s)
         else
           let hdr = header_bytes \<lparr>magic = CONFIG_STORE_MAGIC, seq_number = next_seq,
                                   data_len = of_nat (length data), reserved = 0\<rparr>;
               (err, f) = cs_flash_write_bytes F base hdr (cs_flash s);
               s = s\<lparr>cs_flash := f\<rparr>
           in if err \<noteq> QSPI_FLASH_OK then (CONFIG_STORE_ERR_FLASH_WRITE, fail s)
              else
                let (err, f) = cs_flash_write_bytes F (base + CS_HEADER_SIZE) data (cs_flash s);
                    s = s\<lparr>cs_flash := f\<rparr>
                in if err \<noteq> QSPI_FLASH_OK then (CONFIG_STORE_ERR_FLASH_WRITE, fail s)
                   else
                     let crc = config_store_crc32_start;
                         crc = config_store_crc32_feed crc hdr;
                         crc = config_store_crc32_feed crc data;
                         crc = cs_crc_feed_ff_pad crc (CS_DATA_AREA_SIZE - length data);
                         crc_val = config_store_crc32_finish crc;
                         (err, f) = cs_flash_write_bytes F (base + CS_CRC_OFFSET) (cfl_put_u32 crc_val) (cs_flash s);
                         s = s\<lparr>cs_flash := f\<rparr>
                     in if err \<noteq> QSPI_FLASH_OK then (CONFIG_STORE_ERR_FLASH_WRITE, fail s)
                        else (CONFIG_STORE_OK,
                              s\<lparr>active_slot_index := target, active_seq_number := next_seq\<rparr>))"

definition config_store_init :: "'f iqspi_flash \<Rightarrow> bool \<Rightarrow> 'f cs_state \<Rightarrow> config_store_err \<times> 'f cs_state" where
  "config_store_init F health s =
     (if cs_ready s then (CONFIG_STORE_OK, s)
      else if \<not> health then (CONFIG_STORE_ERR_NULL_ARG, s)
      else if fst (cs_flash_read_bytes F CONFIG_STORE_QSPI_BASE_ADDR 4 (cs_flash s)) \<noteq> QSPI_FLASH_OK
      then (CONFIG_STORE_ERR_FLASH_READ, s)
      else (CONFIG_STORE_OK, s\<lparr>active_slot_index := 0, active_seq_number := 0, cs_ready := True\<rparr>))"

text \<open>The caller's buffer is \<open>max_len\<close> bytes; the result carries the bytes read.\<close>

definition config_store_load ::
  "'f iqspi_flash \<Rightarrow> nat \<Rightarrow> 'f cs_state \<Rightarrow> (config_store_err + u8 list) \<times> 'f cs_state" where
  "config_store_load F max_len s =
     (if \<not> cs_ready s then (Inl CONFIG_STORE_ERR_NOT_INIT, s)
      else
        let (v0, s) = cs_validate_slot F 0 s;
            (v1, s) = cs_validate_slot F 1 s
        in if v0 = None \<and> v1 = None
           then (Inl CONFIG_STORE_ERR_NO_VALID_SLOT, cs_push_health HEALTH_EVENT_CONFIG_NO_VALID_SLOT s)
           else
             let selected = (if v0 = None then 1 else if v1 = None then 0
                             else if the v0 \<ge> the v1 then 0 else 1);
                 base = cs_slot_base selected;
                 (err, m) = cs_flash_read_bytes F base 16 (cs_flash s)
             in if err \<noteq> QSPI_FLASH_OK
                then (Inl CONFIG_STORE_ERR_FLASH_READ, cs_push_health HEALTH_EVENT_CONFIG_READ_FAIL s)
                else
                  let n = unat (data_len (header_read m))
                  in if n > max_len then (Inl CONFIG_STORE_ERR_TOO_LARGE, s)
                     else
                       let (err, data) = cs_flash_read_bytes F (base + CS_HEADER_SIZE) n (cs_flash s)
                       in if err \<noteq> QSPI_FLASH_OK
                          then (Inl CONFIG_STORE_ERR_FLASH_READ, cs_push_health HEALTH_EVENT_CONFIG_READ_FAIL s)
                          else (Inr data,
                                s\<lparr>active_slot_index := selected,
                                  active_seq_number := the (if selected = 0 then v0 else v1)\<rparr>))"

definition config_store_save ::
  "'f iqspi_flash \<Rightarrow> u8 list option \<Rightarrow> 'f cs_state \<Rightarrow> config_store_err \<times> 'f cs_state" where
  "config_store_save F data s =
     (if \<not> cs_ready s then (CONFIG_STORE_ERR_NOT_INIT, s)
      else case data of None \<Rightarrow> (CONFIG_STORE_ERR_NULL_ARG, s)
      | Some d \<Rightarrow>
          if length d > CONFIG_STORE_MAX_DATA_BYTES then (CONFIG_STORE_ERR_TOO_LARGE, s)
          else cs_save_locked F d s)"

definition config_store_check_integrity ::
  "'f iqspi_flash \<Rightarrow> 'f cs_state \<Rightarrow> config_store_err \<times> 'f cs_state" where
  "config_store_check_integrity F s =
     (if \<not> cs_ready s then (CONFIG_STORE_ERR_NOT_INIT, s)
      else
        let (v0, s) = cs_validate_slot F 0 s;
            (v1, s) = cs_validate_slot F 1 s
        in if v0 = None \<and> v1 = None
           then (CONFIG_STORE_ERR_NO_VALID_SLOT, cs_push_health HEALTH_EVENT_CONFIG_NO_VALID_SLOT s)
           else (CONFIG_STORE_OK, s))"

definition config_store_erase :: "'f iqspi_flash \<Rightarrow> 'f cs_state \<Rightarrow> config_store_err \<times> 'f cs_state" where
  "config_store_erase F s =
     (if \<not> cs_ready s then (CONFIG_STORE_ERR_NOT_INIT, s)
      else
        let (err, f) = cs_flash_erase_range F (cs_slot_base 0) CS_SECTORS_PER_SLOT (cs_flash s)
        in if err \<noteq> QSPI_FLASH_OK then (CONFIG_STORE_ERR_FLASH_ERASE, s\<lparr>cs_flash := f\<rparr>)
           else
             let (err, f) = cs_flash_erase_range F (cs_slot_base 1) CS_SECTORS_PER_SLOT f
             in ((if err \<noteq> QSPI_FLASH_OK then CONFIG_STORE_ERR_FLASH_ERASE else CONFIG_STORE_OK),
                 s\<lparr>cs_flash := f\<rparr>))"

lemma save_ok_length:
  "config_store_save F (Some d) s = (CONFIG_STORE_OK, s') \<Longrightarrow> length d \<le> CONFIG_STORE_MAX_DATA_BYTES"
  by (auto simp: config_store_save_def split: if_splits)

section \<open>The flash behind the store\<close>

definition bytes_at :: "(nat \<Rightarrow> u8) \<Rightarrow> nat \<Rightarrow> nat \<Rightarrow> u8 list" where
  "bytes_at v a n = map (\<lambda>i. v (a + i)) [0..<n]"

lemma length_bytes_at [simp]: "length (bytes_at v a n) = n"
  by (simp add: bytes_at_def)

lemma bytes_at_nth [simp]: "i < n \<Longrightarrow> bytes_at v a n ! i = v (a + i)"
  by (simp add: bytes_at_def)

lemma bytes_at_append: "bytes_at v a (m + n) = bytes_at v a m @ bytes_at v (a + m) n"
  by (rule nth_equalityI) (auto simp: nth_append add.assoc)

lemma bytes_at_eqI:
  assumes "length xs = n" "\<And>i. i < n \<Longrightarrow> v (a + i) = xs ! i"
  shows "bytes_at v a n = xs"
  using assms by (intro nth_equalityI) simp_all

lemma bytes_at_cong:
  assumes "\<And>x. a \<le> x \<Longrightarrow> x < a + n \<Longrightarrow> v x = v' x"
  shows "bytes_at v a n = bytes_at v' a n"
  using assms by (intro nth_equalityI) simp_all

text \<open>A valid slot, as a predicate on the memory: its sequence number.\<close>

definition slot_seq :: "(nat \<Rightarrow> u8) \<Rightarrow> nat \<Rightarrow> u32 option" where
  "slot_seq v i =
     (let b = cs_slot_base i; hdr = header_read (bytes_at v b 16)
      in if magic hdr = CONFIG_STORE_MAGIC \<and>
            config_store_crc32 (bytes_at v b CS_CRC_COVERAGE) = cfl_get_u32 (bytes_at v (b + CS_CRC_OFFSET) 4)
         then Some (seq_number hdr) else None)"

definition slot_data :: "(nat \<Rightarrow> u8) \<Rightarrow> nat \<Rightarrow> u8 list" where
  "slot_data v i = bytes_at v (cs_slot_base i + CS_HEADER_SIZE)
     (unat (data_len (header_read (bytes_at v (cs_slot_base i) 16))))"

definition newest :: "u32 option \<Rightarrow> u32 option \<Rightarrow> nat option" where
  "newest v0 v1 =
     (if v0 = None \<and> v1 = None then None
      else Some (if v0 = None then 1 else if v1 = None then 0 else if the v0 \<ge> the v1 then 0 else 1))"

text \<open>The slot a save writes, and its sequence number.\<close>

definition cs_next :: "(nat \<Rightarrow> u8) \<Rightarrow> nat \<times> u32" where
  "cs_next v = cs_select_target (slot_seq v 0) (slot_seq v 1)"

text \<open>The slot a save selects becomes the newest one, unless the sequence number wraps.\<close>

lemma u32_less_succ: "x \<noteq> 0xFFFFFFFF \<Longrightarrow> x < x + (1 :: u32)"
proof -
  assume "x \<noteq> 0xFFFFFFFF"
  then have "unat x \<noteq> 0xFFFFFFFF" by (simp add: unat_arith_simps)
  then have "unat x < 0xFFFFFFFF" using unat_u32_less [of x] by linarith
  then have "unat x + 1 < 2 ^ 32" by simp
  then have "unat (x + 1) = unat x + 1" by (simp add: unat_word_ariths)
  then show ?thesis by (simp add: word_less_nat_alt)
qed

lemma newest_select:
  assumes "cs_select_target v0 v1 = (t, q)" "v0 \<noteq> Some 0xFFFFFFFF" "v1 \<noteq> Some 0xFFFFFFFF"
  shows "newest (if t = 0 then Some q else v0) (if t = 0 then v1 else Some q) = Some t"
  using assms u32_less_succ [of "the v0"] u32_less_succ [of "the v1"]
  by (cases v0; cases v1) (auto dest: less_asym simp: cs_select_target_def newest_def Let_def not_le split: if_splits)

lemma slot_base_cases: "cs_slot_base i = 0 \<or> cs_slot_base i = 0x8000"
  by (simp add: cs_slot_base_def cs_consts)

lemma slot_seq_cong:
  assumes "\<And>x. cs_slot_base i \<le> x \<Longrightarrow> x < cs_slot_base i + 0x8000 \<Longrightarrow> v x = v' x"
  shows "slot_seq v i = slot_seq v' i"
proof -
  have "bytes_at v (cs_slot_base i + k) n = bytes_at v' (cs_slot_base i + k) n" if "k + n \<le> 0x8000" for k n
    using assms that by (intro bytes_at_cong) simp
  from this [of 0 16] this [of 0 CS_CRC_COVERAGE] this [of CS_CRC_OFFSET 4] show ?thesis
    by (simp add: slot_seq_def cs_consts)
qed

lemma header_read_bytes: "header_read (header_bytes h) = h"
  by (simp add: header_read_def header_bytes_def drop_Cons)

lemma erased_header: "magic (header_read (replicate 16 0xFF)) = 0xFFFFFFFF"
proof -
  have "replicate 16 y = [y, y, y, y] @ replicate 12 y" for y :: u8 by (simp add: numeral_eq_Suc)
  moreover have "[0xFF, 0xFF, 0xFF, 0xFF] = cfl_put_u32 0xFFFFFFFF" by (simp add: cfl_put_u32_def)
  ultimately have "replicate 16 0xFF = cfl_put_u32 0xFFFFFFFF @ replicate 12 0xFF" by metis
  then show ?thesis by (simp add: header_read_def)
qed

lemma erased_slot: "(\<And>x. cs_slot_base i \<le> x \<Longrightarrow> x < cs_slot_base i + 0x8000 \<Longrightarrow> v x = 0xFF) \<Longrightarrow> slot_seq v i = None"
proof -
  assume "\<And>x. cs_slot_base i \<le> x \<Longrightarrow> x < cs_slot_base i + 0x8000 \<Longrightarrow> v x = 0xFF"
  then have "bytes_at v (cs_slot_base i) 16 = replicate 16 0xFF" by (intro bytes_at_eqI) auto
  then show ?thesis
    by (simp add: slot_seq_def erased_header CONFIG_STORE_MAGIC_def Let_def)
qed

lemma length_header_bytes [simp]: "length (header_bytes h) = 16"
  by (simp add: header_bytes_def)

lemma feed_ff_pad: "cs_crc_feed_ff_pad crc n = config_store_crc32_feed crc (replicate n 0xFF)"
proof (induction crc n rule: cs_crc_feed_ff_pad.induct)
  case (1 crc n)
  define c where "c = (if n > CS_FF_PAD_SIZE then CS_FF_PAD_SIZE else n)"
  show ?case
  proof (cases "n = 0")
    case False
    have "c \<le> n" by (simp add: c_def)
    then have "replicate n (0xFF :: u8) = replicate c 0xFF @ replicate (n - c) 0xFF"
      by (simp flip: replicate_add)
    then show ?thesis
      using 1 [OF False c_def] False
      by (subst cs_crc_feed_ff_pad.simps) (simp add: Let_def c_def [symmetric] config_store_crc32_feed_append)
  qed (simp add: cs_crc_feed_ff_pad.simps)
qed

context nor_flash
begin

lemma read_bytes_at:
  assumes "usable f" "0 < n" "a + n \<le> 2 ^ 23"
  shows "cs_flash_read_bytes F a n f = (QSPI_FLASH_OK, bytes_at (view f) a n)"
  using read_value [OF assms] by (simp add: cs_flash_read_bytes_def bytes_at_def)

lemma crc_chunks:
  assumes "usable f" "base + CS_CRC_COVERAGE \<le> 2 ^ 23" "off \<le> CS_CRC_COVERAGE"
  shows "cs_crc_chunks F base off crc f =
    Some (config_store_crc32_feed crc (bytes_at (view f) (base + off) (CS_CRC_COVERAGE - off)))"
  using assms(3)
proof (induction "CS_CRC_COVERAGE - off" arbitrary: off crc rule: less_induct)
  case less
  show ?case
  proof (cases "off < CS_CRC_COVERAGE")
    case True
    define r where "r = (if CS_CRC_COVERAGE - off > CS_CHUNK_SIZE then CS_CHUNK_SIZE else CS_CRC_COVERAGE - off)"
    let ?b = "bytes_at (view f) (base + off) r"
    have r: "0 < r" "off + r \<le> CS_CRC_COVERAGE"
      using True by (auto simp: r_def CS_CHUNK_SIZE_def)
    then have rd: "cs_flash_read_bytes F (base + off) r f = (QSPI_FLASH_OK, ?b)"
      using assms(1,2) by (intro read_bytes_at) auto
    have split: "bytes_at (view f) (base + off) (CS_CRC_COVERAGE - off) =
        ?b @ bytes_at (view f) (base + (off + r)) (CS_CRC_COVERAGE - (off + r))"
      using r bytes_at_append [of "view f" "base + off" r "CS_CRC_COVERAGE - (off + r)"] by (simp add: add.assoc)
    have "cs_crc_chunks F base off crc f = cs_crc_chunks F base (off + r) (config_store_crc32_feed crc ?b) f"
      using True rd by (subst cs_crc_chunks.simps) (simp add: Let_def r_def [symmetric])
    also have "\<dots> = Some (config_store_crc32_feed (config_store_crc32_feed crc ?b)
        (bytes_at (view f) (base + (off + r)) (CS_CRC_COVERAGE - (off + r))))"
      using r True by (intro less) auto
    finally show ?thesis by (simp add: split config_store_crc32_feed_append)
  qed (use less.prems in \<open>simp add: cs_crc_chunks.simps bytes_at_def\<close>)
qed

lemma validate_slot:
  assumes "usable (cs_flash s)"
  shows "fst (cs_validate_slot F i s) = slot_seq (view (cs_flash s)) i"
    "cs_flash (snd (cs_validate_slot F i s)) = cs_flash s" "cs_ready (snd (cs_validate_slot F i s)) = cs_ready s"
proof -
  let ?b = "cs_slot_base i"
  have b: "?b + 0x8000 \<le> 2 ^ 23" using slot_base_cases [of i] by auto
  have rd: "cs_flash_read_bytes F ?b 16 (cs_flash s) = (QSPI_FLASH_OK, bytes_at (view (cs_flash s)) ?b 16)"
    "cs_flash_read_bytes F (?b + CS_CRC_OFFSET) 4 (cs_flash s) =
       (QSPI_FLASH_OK, bytes_at (view (cs_flash s)) (?b + CS_CRC_OFFSET) 4)"
    using b by (auto intro!: read_bytes_at [OF assms] simp: CS_CRC_OFFSET_def)
  have "cs_crc_chunks F ?b 0 config_store_crc32_start (cs_flash s) = Some (config_store_crc32_feed
      config_store_crc32_start (bytes_at (view (cs_flash s)) ?b CS_CRC_COVERAGE))"
    using crc_chunks [OF assms, of ?b 0] b by (simp add: CS_CRC_COVERAGE_def)
  then show "fst (cs_validate_slot F i s) = slot_seq (view (cs_flash s)) i"
    "cs_flash (snd (cs_validate_slot F i s)) = cs_flash s" "cs_ready (snd (cs_validate_slot F i s)) = cs_ready s"
    by (simp_all add: cs_validate_slot_def rd Let_def slot_seq_def config_store_crc32_def cs_push_health_def)
qed

lemma sector_base_aligned: "b mod 4096 = 0 \<Longrightarrow> sector_base b = b"
  by (simp add: sector_base_def QSPI_SECTOR_SIZE_BYTES_def)

lemma erase_range_outside:
  assumes "base mod 4096 = 0" "x < base \<or> base + n * 4096 \<le> x"
  shows "view (snd (cs_flash_erase_range F base n f)) x = view f x"
  using assms
proof (induction n arbitrary: base f)
  case (Suc n)
  obtain err f' where e: "fl_erase_sector F base f = (err, f')" by fastforce
  have "view f' x = view f x"
    using erase_outside [of x base f] sector_base_aligned [OF Suc.prems(1)] Suc.prems(2) by (auto simp: e)
  moreover have "view (snd (cs_flash_erase_range F (base + 4096) n f')) x = view f' x"
    using Suc.prems by (intro Suc.IH) auto
  ultimately show ?case by (simp add: e CONFIG_STORE_SECTOR_SIZE_def)
qed simp

lemma erase_range_inside:
  assumes "base mod 4096 = 0" "fst (cs_flash_erase_range F base n f) = QSPI_FLASH_OK"
    and "base \<le> x" "x < base + n * 4096"
  shows "view (snd (cs_flash_erase_range F base n f)) x = 0xFF"
  using assms
proof (induction n arbitrary: base f)
  case (Suc n)
  obtain err f' where e: "fl_erase_sector F base f = (err, f')" by fastforce
  have ok: "err = QSPI_FLASH_OK" "fst (cs_flash_erase_range F (base + 4096) n f') = QSPI_FLASH_OK"
    using Suc.prems(2) by (auto simp: e CONFIG_STORE_SECTOR_SIZE_def split: if_splits)
  have al: "(base + 4096) mod 4096 = 0" using Suc.prems(1) by simp
  have "view (snd (cs_flash_erase_range F (base + 4096) n f')) x = 0xFF"
  proof (cases "x < base + 4096")
    case True
    have "view f' x = 0xFF"
      using erase_inside [of base f x] sector_base_aligned [OF Suc.prems(1)] Suc.prems(3) ok True by (simp add: e)
    then show ?thesis using erase_range_outside [OF al, of x n f'] True by simp
  next
    case False
    then show ?thesis using Suc.prems(4) by (intro Suc.IH [OF al ok(2)]) auto
  qed
  then show ?case by (simp add: e ok(1) CONFIG_STORE_SECTOR_SIZE_def)
qed simp

lemma erase_range_usable: "usable f \<Longrightarrow> usable (snd (cs_flash_erase_range F base n f))"
proof (induction n arbitrary: base f)
  case (Suc n)
  then show ?case using erase_usable [of f base] by (auto simp: Let_def split: prod.splits)
qed simp

lemma write_bytes_step:
  assumes "buf \<noteq> []"
  obtains c where "0 < c" "c \<le> length buf"
    "cs_flash_write_bytes F a buf f =
       (case fl_write_page F a (take c buf) f of (err, f') \<Rightarrow>
          if err \<noteq> QSPI_FLASH_OK then (err, f') else cs_flash_write_bytes F (a + c) (drop c buf) f')"
proof
  define c where "c = (if length buf < 256 - a mod 256 then length buf else 256 - a mod 256)"
  show "0 < c" "c \<le> length buf" using assms page_space [of a] by (auto simp: c_def)
  show "cs_flash_write_bytes F a buf f =
       (case fl_write_page F a (take c buf) f of (err, f') \<Rightarrow>
          if err \<noteq> QSPI_FLASH_OK then (err, f') else cs_flash_write_bytes F (a + c) (drop c buf) f')"
    using assms by (subst cs_flash_write_bytes.simps) (simp only: Let_def c_def [symmetric] if_False)
qed

lemma write_bytes_nil: "cs_flash_write_bytes F a [] f = (QSPI_FLASH_OK, f)"
  by (simp add: cs_flash_write_bytes.simps)

lemma write_bytes_usable: "usable f \<Longrightarrow> usable (snd (cs_flash_write_bytes F a buf f))"
proof (induction "length buf" arbitrary: a buf f rule: less_induct)
  case less
  show ?case
  proof (cases "buf = []")
    case False
    obtain c where c: "0 < c" "c \<le> length buf"
      "cs_flash_write_bytes F a buf f =
         (case fl_write_page F a (take c buf) f of (err, f') \<Rightarrow>
            if err \<noteq> QSPI_FLASH_OK then (err, f') else cs_flash_write_bytes F (a + c) (drop c buf) f')"
      by (rule write_bytes_step [OF False, of a f])
    have "usable (snd (fl_write_page F a (take c buf) f))" using less.prems by (rule write_usable)
    then show ?thesis using c less.hyps [of "drop c buf"] by (auto split: prod.splits)
  qed (simp add: write_bytes_nil less.prems)
qed

lemma write_bytes_outside:
  assumes "x < a \<or> a + length buf \<le> x"
  shows "view (snd (cs_flash_write_bytes F a buf f)) x = view f x"
  using assms
proof (induction "length buf" arbitrary: a buf f rule: less_induct)
  case less
  show ?case
  proof (cases "buf = []")
    case False
    obtain c where c: "0 < c" "c \<le> length buf"
      "cs_flash_write_bytes F a buf f =
         (case fl_write_page F a (take c buf) f of (err, f') \<Rightarrow>
            if err \<noteq> QSPI_FLASH_OK then (err, f') else cs_flash_write_bytes F (a + c) (drop c buf) f')"
      by (rule write_bytes_step [OF False, of a f])
    obtain err f' where w: "fl_write_page F a (take c buf) f = (err, f')" by fastforce
    have "view f' x = view f x"
      using write_outside [of x a "take c buf" f] less.prems c(2) by (auto simp: w)
    moreover have "view (snd (cs_flash_write_bytes F (a + c) (drop c buf) f')) x = view f' x"
      using less.prems c(1,2) by (intro less.hyps) auto
    ultimately show ?thesis by (simp add: c(3) w)
  qed (simp add: write_bytes_nil)
qed

lemma write_bytes_inside:
  assumes "fst (cs_flash_write_bytes F a buf f) = QSPI_FLASH_OK" "i < length buf"
  shows "view (snd (cs_flash_write_bytes F a buf f)) (a + i) = view f (a + i) AND buf ! i"
  using assms
proof (induction "length buf" arbitrary: a buf f i rule: less_induct)
  case less
  then have "buf \<noteq> []" by auto
  then obtain c where c: "0 < c" "c \<le> length buf"
    "cs_flash_write_bytes F a buf f =
       (case fl_write_page F a (take c buf) f of (err, f') \<Rightarrow>
          if err \<noteq> QSPI_FLASH_OK then (err, f') else cs_flash_write_bytes F (a + c) (drop c buf) f')"
    using write_bytes_step [of buf a f] by blast
  obtain err f' where w: "fl_write_page F a (take c buf) f = (err, f')" by fastforce
  have ok: "err = QSPI_FLASH_OK" "fst (cs_flash_write_bytes F (a + c) (drop c buf) f') = QSPI_FLASH_OK"
    using less.prems(1) by (auto simp: c(3) w split: if_splits)
  have "view (snd (cs_flash_write_bytes F (a + c) (drop c buf) f')) (a + i) = view f (a + i) AND buf ! i"
  proof (cases "i < c")
    case True
    then have "view f' (a + i) = view f (a + i) AND buf ! i"
      using write_inside [of a "take c buf" f i] ok(1) c(2) by (simp add: w)
    then show ?thesis using True by (simp add: write_bytes_outside)
  next
    case False
    then have "view (snd (cs_flash_write_bytes F (a + c) (drop c buf) f')) (a + c + (i - c)) =
        view f' (a + c + (i - c)) AND drop c buf ! (i - c)"
      using c(1,2) ok(2) less.prems(2) by (intro less.hyps) auto
    moreover have "view f' (a + i) = view f (a + i)"
      using write_outside [of "a + i" a "take c buf" f] False c(2) by (simp add: w)
    ultimately show ?thesis using False c(2) by simp
  qed
  then show ?case by (simp add: c(3) w ok(1))
qed

text \<open>Writing to erased flash.\<close>

lemma write_erased:
  assumes "cs_flash_write_bytes F a buf f = (QSPI_FLASH_OK, f')"
    and "\<And>x. a \<le> x \<Longrightarrow> x < a + length buf \<Longrightarrow> view f x = 0xFF"
  shows "bytes_at (view f') a (length buf) = buf"
proof (rule bytes_at_eqI)
  fix i assume i: "i < length buf"
  have "(0xFF :: u8) = - 1" by simp
  then have "view f (a + i) = - 1" using assms(2) [of "a + i"] i by simp
  then show "view f' (a + i) = buf ! i"
    using write_bytes_inside [of a buf f i] i by (simp add: assms(1))
qed simp

text \<open>A load reads the data of the newest valid slot.\<close>

lemma load_reads:
  assumes "usable (cs_flash s)" "cs_ready s"
    and v: "v = view (cs_flash s)" and i: "newest (slot_seq v 0) (slot_seq v 1) = Some i"
    and n: "n = length (slot_data v i)" "n \<le> max_len"
    and rd: "cs_flash_read_bytes F (cs_slot_base i + CS_HEADER_SIZE) n (cs_flash s) = (err, data)"
  shows "fst (config_store_load F max_len s) =
    (if err \<noteq> QSPI_FLASH_OK then Inl CONFIG_STORE_ERR_FLASH_READ else Inr data)"
proof -
  obtain v0 s1 where a: "cs_validate_slot F 0 s = (v0, s1)" by fastforce
  obtain v1 s2 where b: "cs_validate_slot F 1 s1 = (v1, s2)" by fastforce
  have 1: "v0 = slot_seq v 0" "cs_flash s1 = cs_flash s"
    using validate_slot [OF assms(1), of 0] by (simp_all add: a v)
  have u1: "usable (cs_flash s1)" using assms(1) 1 by simp
  have 2: "v1 = slot_seq v 1" "cs_flash s2 = cs_flash s"
    using validate_slot [OF u1, of 1] 1 by (simp_all add: b v del: One_nat_def)
  have h: "cs_flash_read_bytes F (cs_slot_base i) 16 (cs_flash s) = (QSPI_FLASH_OK, bytes_at v (cs_slot_base i) 16)"
    using slot_base_cases [of i] read_bytes_at [OF assms(1), of 16 "cs_slot_base i"] by (auto simp: v)
  have m: "unat (data_len (header_read (bytes_at v (cs_slot_base i) 16))) = n"
    by (simp add: n slot_data_def)
  define sel where "sel = (if v0 = None then 1 else if v1 = None then 0 else if the v0 \<ge> the v1 then 0 else 1 :: nat)"
  have sel: "sel = i" "\<not> (v0 = None \<and> v1 = None)"
    using i by (auto simp: newest_def sel_def 1 2 split: if_splits)
  show ?thesis
    using sel(2) assms(2) n(2)
    by (simp add: config_store_load_def a b sel_def [symmetric] sel(1) Let_def 2(2) h m rd del: One_nat_def)
qed

lemma load_newest:
  assumes "usable (cs_flash s)" "cs_ready s"
    and v: "v = view (cs_flash s)" and i: "newest (slot_seq v 0) (slot_seq v 1) = Some i"
    and "slot_data v i \<noteq> []" "length (slot_data v i) \<le> max_len" "length (slot_data v i) \<le> 32752"
  shows "fst (config_store_load F max_len s) = Inr (slot_data v i)"
proof -
  have "cs_slot_base i + CS_HEADER_SIZE + length (slot_data v i) \<le> 2 ^ 23"
    using slot_base_cases [of i] assms(7) by (auto simp: CS_HEADER_SIZE_def)
  then have "cs_flash_read_bytes F (cs_slot_base i + CS_HEADER_SIZE) (length (slot_data v i)) (cs_flash s) =
      (QSPI_FLASH_OK, bytes_at v (cs_slot_base i + CS_HEADER_SIZE) (length (slot_data v i)))"
    unfolding v using assms(5) v by (intro read_bytes_at assms(1)) simp_all
  moreover have "bytes_at v (cs_slot_base i + CS_HEADER_SIZE) (length (slot_data v i)) = slot_data v i"
    by (simp add: slot_data_def)
  ultimately have "cs_flash_read_bytes F (cs_slot_base i + CS_HEADER_SIZE) (length (slot_data v i)) (cs_flash s) =
      (QSPI_FLASH_OK, slot_data v i)" by simp
  then show ?thesis using load_reads [OF assms(1-4) refl assms(6)] by simp
qed

text \<open>What a save does to the memory, whether it succeeds or not.\<close>

lemma slot_base_aligned: "cs_slot_base i mod 4096 = 0"
  using slot_base_cases [of i] by auto

lemma save_locked:
  assumes u: "usable (cs_flash s)" and v: "v = view (cs_flash s)" and t: "cs_next v = (t, q)"
    and len: "length d \<le> CONFIG_STORE_MAX_DATA_BYTES"
    and sv: "cs_save_locked F d s = (err, s')" and v': "v' = view (cs_flash s')"
  shows "usable (cs_flash s')" "cs_ready s' = cs_ready s"
    "x < cs_slot_base t \<or> cs_slot_base t + 0x8000 \<le> x \<Longrightarrow> v' x = v x"
    "err = CONFIG_STORE_OK \<Longrightarrow> slot_seq v' t = Some q \<and> slot_data v' t = d \<and> active_slot_index s' = t"
proof -
  obtain v0 s1 where a: "cs_validate_slot F 0 s = (v0, s1)" by fastforce
  obtain v1 s2 where b: "cs_validate_slot F 1 s1 = (v1, s2)" by fastforce
  have 1: "v0 = slot_seq v 0" "cs_flash s1 = cs_flash s" "cs_ready s1 = cs_ready s"
    using validate_slot [OF u, of 0] by (simp_all add: a v)
  have u1: "usable (cs_flash s1)" using u 1 by simp
  have 2: "v1 = slot_seq v 1" "cs_flash s2 = cs_flash s" "cs_ready s2 = cs_ready s"
    using validate_slot [OF u1, of 1] 1 by (simp_all add: b v del: One_nat_def)
  let ?b = "cs_slot_base t"
  define hdr where "hdr = header_bytes \<lparr>magic = CONFIG_STORE_MAGIC, seq_number = q,
                                   data_len = of_nat (length d), reserved = 0\<rparr>"
  define crc where "crc = config_store_crc32_finish (cs_crc_feed_ff_pad (config_store_crc32_feed
     (config_store_crc32_feed config_store_crc32_start hdr) d) (CS_DATA_AREA_SIZE - length d))"
  obtain e0 f0 where f0: "cs_flash_erase_range F ?b CS_SECTORS_PER_SLOT (cs_flash s) = (e0, f0)" by fastforce
  obtain e1 f1 where f1: "cs_flash_write_bytes F ?b hdr f0 = (e1, f1)" by fastforce
  obtain e2 f2 where f2: "cs_flash_write_bytes F (?b + CS_HEADER_SIZE) d f1 = (e2, f2)" by fastforce
  obtain e3 f3 where f3: "cs_flash_write_bytes F (?b + CS_CRC_OFFSET) (cfl_put_u32 crc) f2 = (e3, f3)" by fastforce
  have "cs_save_locked F d s =
      (if e0 \<noteq> QSPI_FLASH_OK
       then (CONFIG_STORE_ERR_FLASH_ERASE, cs_push_health HEALTH_EVENT_CONFIG_WRITE_FAIL (s2\<lparr>cs_flash := f0\<rparr>))
       else if e1 \<noteq> QSPI_FLASH_OK
       then (CONFIG_STORE_ERR_FLASH_WRITE, cs_push_health HEALTH_EVENT_CONFIG_WRITE_FAIL (s2\<lparr>cs_flash := f1\<rparr>))
       else if e2 \<noteq> QSPI_FLASH_OK
       then (CONFIG_STORE_ERR_FLASH_WRITE, cs_push_health HEALTH_EVENT_CONFIG_WRITE_FAIL (s2\<lparr>cs_flash := f2\<rparr>))
       else if e3 \<noteq> QSPI_FLASH_OK
       then (CONFIG_STORE_ERR_FLASH_WRITE, cs_push_health HEALTH_EVENT_CONFIG_WRITE_FAIL (s2\<lparr>cs_flash := f3\<rparr>))
       else (CONFIG_STORE_OK, s2\<lparr>cs_flash := f3, active_slot_index := t, active_seq_number := q\<rparr>))"
    using t f0 f1 f2 f3
    by (simp add: cs_save_locked_def a b 1 2 cs_next_def Let_def hdr_def crc_def del: One_nat_def)
  then have flash: "cs_flash s' = (if e0 \<noteq> QSPI_FLASH_OK then f0 else if e1 \<noteq> QSPI_FLASH_OK then f1
      else if e2 \<noteq> QSPI_FLASH_OK then f2 else f3)"
    and rdy: "cs_ready s' = cs_ready s"
    and ok: "err = CONFIG_STORE_OK \<longleftrightarrow> e0 = QSPI_FLASH_OK \<and> e1 = QSPI_FLASH_OK \<and> e2 = QSPI_FLASH_OK \<and> e3 = QSPI_FLASH_OK"
    and act: "err = CONFIG_STORE_OK \<Longrightarrow> active_slot_index s' = t"
    using sv 1 2 by (auto simp: cs_push_health_def split: if_splits)
  note f2' = f2 [unfolded CS_HEADER_SIZE_def] and f3' = f3 [unfolded CS_CRC_OFFSET_def]
  have lh: "length hdr = 16" by (simp add: hdr_def)
  have n: "CS_SECTORS_PER_SLOT * 4096 = 0x8000" by (simp add: cs_consts)
  have out: "view f0 x = v x" "view f1 x = v x" "view f2 x = v x" "view f3 x = v x"
    if "x < ?b \<or> ?b + 0x8000 \<le> x" for x
  proof -
    show 0: "view f0 x = v x"
      using erase_range_outside [OF slot_base_aligned, of x t CS_SECTORS_PER_SLOT "cs_flash s"] that by (simp add: f0 n v)
    show 1: "view f1 x = v x"
      using write_bytes_outside [of x ?b hdr f0] that 0 by (auto simp: f1 lh)
    show 2: "view f2 x = v x"
      using write_bytes_outside [of x "?b + CS_HEADER_SIZE" d f1] that 1 len by (auto simp: f2' cs_consts)
    show "view f3 x = v x"
      using write_bytes_outside [of x "?b + CS_CRC_OFFSET" "cfl_put_u32 crc" f2] that 2 by (auto simp: f3' cs_consts)
  qed
  show "usable (cs_flash s')"
    using erase_range_usable [OF u, of ?b CS_SECTORS_PER_SLOT] write_bytes_usable [of f0 ?b hdr]
      write_bytes_usable [of f1 "?b + CS_HEADER_SIZE" d]
      write_bytes_usable [of f2 "?b + CS_CRC_OFFSET" "cfl_put_u32 crc"]
    by (simp add: flash f0 f1 f2 f3)
  show "cs_ready s' = cs_ready s" by (fact rdy)
  show "v' x = v x" if "x < ?b \<or> ?b + 0x8000 \<le> x"
    using out [OF that] by (simp add: v' flash)
  show "slot_seq v' t = Some q \<and> slot_data v' t = d \<and> active_slot_index s' = t" if "err = CONFIG_STORE_OK"
  proof -
    have e: "e0 = QSPI_FLASH_OK" "e1 = QSPI_FLASH_OK" "e2 = QSPI_FLASH_OK" "e3 = QSPI_FLASH_OK"
      using ok that by simp_all
    have v3: "v' = view f3" using e by (simp add: v' flash)
    have er: "view f0 x = 0xFF" if "?b \<le> x" "x < ?b + 0x8000" for x
      using erase_range_inside [OF slot_base_aligned, of t CS_SECTORS_PER_SLOT "cs_flash s" x] that
      by (simp add: f0 e n)
    have w1: "view f1 x = view f0 x" if "?b + 16 \<le> x" for x
      using write_bytes_outside [of x ?b hdr f0] that by (simp add: f1 lh)
    have w2: "view f2 x = view f1 x" if "x < ?b + 16 \<or> ?b + 16 + length d \<le> x" for x
      using write_bytes_outside [of x "?b + CS_HEADER_SIZE" d f1] that by (simp add: f2' CS_HEADER_SIZE_def)
    have w3: "view f3 x = view f2 x" if "x < ?b + 0x7FF8" for x
      using write_bytes_outside [of x "?b + CS_CRC_OFFSET" "cfl_put_u32 crc" f2] that by (simp add: f3' CS_CRC_OFFSET_def)
    have d: "16 + length d \<le> 0x7FF8" using len by (simp add: CONFIG_STORE_MAX_DATA_BYTES_def)
    have "bytes_at (view f1) ?b 16 = hdr"
      using write_erased [of ?b hdr f0 f1] f1 e er by (simp add: lh)
    moreover have "bytes_at v' ?b 16 = bytes_at (view f1) ?b 16"
      using w2 w3 by (intro bytes_at_cong) (simp add: v3)
    ultimately have H: "bytes_at v' ?b 16 = hdr" by simp
    have "bytes_at (view f2) (?b + 16) (length d) = d"
      using write_erased [of "?b + CS_HEADER_SIZE" d f1 f2] f2' e er w1 d by (simp add: CS_HEADER_SIZE_def)
    moreover have "bytes_at v' (?b + 16) (length d) = bytes_at (view f2) (?b + 16) (length d)"
      using w3 d by (intro bytes_at_cong) (simp add: v3)
    ultimately have D: "bytes_at v' (?b + 16) (length d) = d" by simp
    have C: "bytes_at v' (?b + CS_CRC_OFFSET) 4 = cfl_put_u32 crc"
      using write_erased [of "?b + CS_CRC_OFFSET" "cfl_put_u32 crc" f2 f3] f3' e er w1 w2 d
      by (simp add: v3 CS_CRC_OFFSET_def)
    have P: "bytes_at v' (?b + 16 + length d) (0x7FE8 - length d) = replicate (0x7FE8 - length d) 0xFF"
      using er w1 w2 w3 d by (intro bytes_at_eqI) (simp_all add: v3)
    have "bytes_at v' ?b CS_CRC_COVERAGE = hdr @ d @ replicate (CS_DATA_AREA_SIZE - length d) 0xFF"
      using bytes_at_append [of v' ?b 16 "length d + (0x7FE8 - length d)"]
        bytes_at_append [of v' "?b + 16" "length d" "0x7FE8 - length d"] d
      by (simp add: H D P cs_consts)
    then have "config_store_crc32 (bytes_at v' ?b CS_CRC_COVERAGE) = crc"
      by (simp add: config_store_crc32_def crc_def feed_ff_pad config_store_crc32_feed_append)
    then have "slot_seq v' t = Some q"
      by (simp add: slot_seq_def H C Let_def) (simp add: hdr_def header_read_bytes)
    moreover have "unat (of_nat (length d) :: u32) = length d"
      using d by (simp add: unat_of_nat)
    then have "slot_data v' t = d"
      by (simp add: slot_data_def H hdr_def header_read_bytes CS_HEADER_SIZE_def D)
    ultimately show ?thesis using act that by simp
  qed
qed

text \<open>Loading and checking leave the flash alone.\<close>

lemma load_keeps:
  assumes "usable (cs_flash s)"
  shows "cs_flash (snd (config_store_load F m s)) = cs_flash s \<and> cs_ready (snd (config_store_load F m s)) = cs_ready s"
proof -
  obtain v0 s1 where a: "cs_validate_slot F 0 s = (v0, s1)" by fastforce
  obtain v1 s2 where b: "cs_validate_slot F 1 s1 = (v1, s2)" by fastforce
  have 1: "cs_flash s1 = cs_flash s" "cs_ready s1 = cs_ready s"
    using validate_slot [OF assms, of 0] by (simp_all add: a)
  have u1: "usable (cs_flash s1)" using assms 1 by simp
  have 2: "cs_flash s2 = cs_flash s" "cs_ready s2 = cs_ready s"
    using validate_slot [OF u1, of 1] 1 by (simp_all add: b del: One_nat_def)
  show ?thesis
    by (simp add: config_store_load_def a b Let_def 2 cs_push_health_def split_def del: One_nat_def)
qed

lemma integrity:
  assumes "usable (cs_flash s)" "cs_ready s" and v: "v = view (cs_flash s)"
  shows "fst (config_store_check_integrity F s) =
    (if newest (slot_seq v 0) (slot_seq v 1) = None then CONFIG_STORE_ERR_NO_VALID_SLOT else CONFIG_STORE_OK)"
proof -
  obtain v0 s1 where a: "cs_validate_slot F 0 s = (v0, s1)" by fastforce
  obtain v1 s2 where b: "cs_validate_slot F 1 s1 = (v1, s2)" by fastforce
  have 1: "v0 = slot_seq v 0" "cs_flash s1 = cs_flash s"
    using validate_slot [OF assms(1), of 0] by (simp_all add: a v)
  have u1: "usable (cs_flash s1)" using assms(1) 1 by simp
  have 2: "v1 = slot_seq v 1"
    using validate_slot [OF u1, of 1] 1 by (simp_all add: b v del: One_nat_def)
  show ?thesis using assms(2)
    by (simp add: config_store_check_integrity_def a b 1 2 newest_def del: One_nat_def)
qed

lemma no_slot_no_load:
  assumes "usable (cs_flash s)" "cs_ready s" and v: "v = view (cs_flash s)"
    and "newest (slot_seq v 0) (slot_seq v 1) = None"
  shows "fst (config_store_load F m s) = Inl CONFIG_STORE_ERR_NO_VALID_SLOT"
proof -
  obtain v0 s1 where a: "cs_validate_slot F 0 s = (v0, s1)" by fastforce
  obtain v1 s2 where b: "cs_validate_slot F 1 s1 = (v1, s2)" by fastforce
  have 1: "v0 = slot_seq v 0" "cs_flash s1 = cs_flash s"
    using validate_slot [OF assms(1), of 0] by (simp_all add: a v)
  have u1: "usable (cs_flash s1)" using assms(1) 1 by simp
  have 2: "v1 = slot_seq v 1"
    using validate_slot [OF u1, of 1] 1 by (simp_all add: b v del: One_nat_def)
  show ?thesis using assms(2,4)
    by (simp add: config_store_load_def a b 1 2 newest_def del: One_nat_def split: if_splits)
qed

text \<open>After a save that succeeded, the slot it wrote is the newest one.\<close>

lemma saved_newest:
  assumes u: "usable (cs_flash s)" and v: "v = view (cs_flash s)"
    and wrap: "slot_seq v 0 \<noteq> Some 0xFFFFFFFF" "slot_seq v 1 \<noteq> Some 0xFFFFFFFF"
    and sv: "config_store_save F (Some d) s = (CONFIG_STORE_OK, s')" and v': "v' = view (cs_flash s')"
  obtains t where "newest (slot_seq v' 0) (slot_seq v' 1) = Some t" "slot_data v' t = d"
    "usable (cs_flash s')" "cs_ready s'"
proof -
  have "cs_ready s" "length d \<le> CONFIG_STORE_MAX_DATA_BYTES" "cs_save_locked F d s = (CONFIG_STORE_OK, s')"
    using sv by (auto simp: config_store_save_def split: if_splits)
  note this(1) and sl = save_locked [OF u v _ this(2,3) v']
  obtain t q where tq: "cs_next v = (t, q)" by fastforce
  have o: "slot_seq v' (1 - t) = slot_seq v (1 - t)" if "t = 0 \<or> t = 1"
    using that sl(3) [OF tq] by (intro slot_seq_cong) (auto simp: cs_slot_base_def cs_consts)
  have t: "t = 0 \<or> t = 1" using tq by (auto simp: cs_next_def cs_select_target_def Let_def split: option.splits if_splits)
  have "newest (slot_seq v' 0) (slot_seq v' 1) = Some t"
    using newest_select [OF tq [unfolded cs_next_def] wrap] sl(4) [OF tq] o t by auto
  then show thesis using sl [OF tq] \<open>cs_ready s\<close> by (intro that) auto
qed

text \<open>A save that failed has touched nothing but the slot that is not the newest.\<close>

lemma failed_newest:
  assumes u: "usable (cs_flash s)" and v: "v = view (cs_flash s)"
    and i: "newest (slot_seq v 0) (slot_seq v 1) = Some i"
    and sv: "config_store_save F (Some d) s = (err, s')" "err \<noteq> CONFIG_STORE_OK"
    and v': "v' = view (cs_flash s')"
    and len: "length (slot_data v i) \<le> 32752"
    and torn: "slot_seq v' (1 - i) = None \<or> slot_seq v' (1 - i) = slot_seq v (1 - i)"
  shows "newest (slot_seq v' 0) (slot_seq v' 1) = Some i \<and> slot_data v' i = slot_data v i \<and>
    usable (cs_flash s') \<and> cs_ready s' = cs_ready s"
proof (cases "cs_ready s \<and> length d \<le> CONFIG_STORE_MAX_DATA_BYTES")
  case False
  then have "s' = s" using sv(1) by (auto simp: config_store_save_def split: if_splits)
  then show ?thesis using u i by (simp add: v v')
next
  case True
  then have sl: "cs_save_locked F d s = (err, s')" using sv(1) by (simp add: config_store_save_def)
  obtain t q where tq: "cs_next v = (t, q)" by fastforce
  have t: "t = 1 - i" "i = 0 \<or> i = 1"
    using tq i by (auto simp: cs_next_def cs_select_target_def newest_def Let_def split: option.splits if_splits)
  note s' = save_locked [OF u v tq conjunct2 [OF True] sl v']
  have same: "v' x = v x" if "cs_slot_base i \<le> x" "x < cs_slot_base i + 0x8000" for x
    using that t by (intro s'(3)) (auto simp: cs_slot_base_def cs_consts)
  have keep: "slot_seq v' i = slot_seq v i" using same by (rule slot_seq_cong)
  have "bytes_at v' (cs_slot_base i) 16 = bytes_at v (cs_slot_base i) 16"
    using same by (intro bytes_at_cong) auto
  moreover define n where "n = unat (data_len (header_read (bytes_at v (cs_slot_base i) 16)))"
  ultimately have sd: "slot_data v' i = bytes_at v' (cs_slot_base i + 16) n" "slot_data v i = bytes_at v (cs_slot_base i + 16) n"
    by (simp_all only: slot_data_def CS_HEADER_SIZE_def)
  have "bytes_at v' (cs_slot_base i + 16) n = bytes_at v (cs_slot_base i + 16) n"
    using len by (intro bytes_at_cong same) (simp_all add: sd)
  then have data: "slot_data v' i = slot_data v i" by (simp only: sd)
  have "newest (slot_seq v' 0) (slot_seq v' 1) = Some i"
    using torn t i keep by (auto simp: newest_def split: if_splits)
  then show ?thesis using data s'(1,2) by simp
qed

lemma erased_newest:
  assumes u: "usable (cs_flash s)" and "config_store_erase F s = (CONFIG_STORE_OK, s')"
    and v': "v' = view (cs_flash s')"
  shows "newest (slot_seq v' 0) (slot_seq v' 1) = None \<and> usable (cs_flash s') \<and> cs_ready s'"
proof -
  obtain e0 f0 where f0: "cs_flash_erase_range F (cs_slot_base 0) CS_SECTORS_PER_SLOT (cs_flash s) = (e0, f0)" by fastforce
  obtain e1 f1 where f1: "cs_flash_erase_range F (cs_slot_base 1) CS_SECTORS_PER_SLOT f0 = (e1, f1)" by fastforce
  have e: "e0 = QSPI_FLASH_OK" "e1 = QSPI_FLASH_OK" "cs_ready s" "s' = s\<lparr>cs_flash := f1\<rparr>"
    using assms(2) by (auto simp: config_store_erase_def f0 f1 simp del: One_nat_def split: if_splits)
  have n: "CS_SECTORS_PER_SLOT * 4096 = 0x8000" by (simp add: cs_consts)
  have "view f0 x = 0xFF" if "cs_slot_base 0 \<le> x" "x < cs_slot_base 0 + 0x8000" for x
    using erase_range_inside [OF slot_base_aligned, of 0 CS_SECTORS_PER_SLOT "cs_flash s" x] that by (simp add: f0 e n)
  moreover have "view f1 x = view f0 x" if "x < cs_slot_base 1" for x
    using erase_range_outside [OF slot_base_aligned, of x 1 CS_SECTORS_PER_SLOT f0] that
    by (simp add: f1 del: One_nat_def)
  moreover have "view f1 x = 0xFF" if "cs_slot_base 1 \<le> x" "x < cs_slot_base 1 + 0x8000" for x
    using erase_range_inside [OF slot_base_aligned, of 1 CS_SECTORS_PER_SLOT f0 x] that
    by (simp add: f1 e n del: One_nat_def)
  ultimately have "slot_seq v' 0 = None" "slot_seq v' 1 = None"
    by (auto intro!: erased_slot simp: v' e cs_slot_base_def cs_consts)
  moreover have "usable f1"
    using erase_range_usable [OF u, of "cs_slot_base 0" CS_SECTORS_PER_SLOT]
      erase_range_usable [of f0 "cs_slot_base 1" CS_SECTORS_PER_SLOT] by (simp add: f0 f1 del: One_nat_def)
  ultimately show ?thesis using e by (simp add: newest_def)
qed

end

text \<open>On flash that works, a save succeeds.\<close>

context working_flash
begin

lemma erase_range_works:
  assumes "usable f" "base + n * 4096 \<le> 2 ^ 23"
  shows "fst (cs_flash_erase_range F base n f) = QSPI_FLASH_OK"
  using assms
proof (induction n arbitrary: base f)
  case (Suc n)
  obtain err f' where e: "fl_erase_sector F base f = (err, f')" by fastforce
  have "err = QSPI_FLASH_OK" "usable f'"
    using erase_works [of f base] erase_usable [of f base] Suc.prems by (simp_all add: e)
  then show ?case using Suc.IH [of f' "base + 4096"] Suc.prems(2)
    by (simp add: e CONFIG_STORE_SECTOR_SIZE_def)
qed simp

lemma write_bytes_works:
  assumes "usable f" "a + length buf \<le> 2 ^ 23"
  shows "fst (cs_flash_write_bytes F a buf f) = QSPI_FLASH_OK"
  using assms
proof (induction "length buf" arbitrary: a buf f rule: less_induct)
  case less
  show ?case
  proof (cases "buf = []")
    case False
    define c where "c = (if length buf < 256 - a mod 256 then length buf else 256 - a mod 256)"
    have c: "0 < c" "c \<le> length buf" "a mod 256 + c \<le> 256"
      using False page_space [of a] by (auto simp: c_def)
    obtain err f' where w: "fl_write_page F a (take c buf) f = (err, f')" by fastforce
    have "err = QSPI_FLASH_OK" "usable f'"
      using write_works [of f "take c buf" a] write_usable [of f a "take c buf"] c less.prems False
      by (simp_all add: w)
    moreover have "fst (cs_flash_write_bytes F (a + c) (drop c buf) f') = QSPI_FLASH_OK"
      using c less.prems \<open>usable f'\<close> by (intro less.hyps) auto
    ultimately show ?thesis
      using False w by (subst cs_flash_write_bytes.simps) (simp add: Let_def c_def [symmetric] del: mod_by_Suc_0)
  qed (simp add: write_bytes_nil)
qed

lemma save_works:
  assumes "usable (cs_flash s)" "cs_ready s" "length d \<le> CONFIG_STORE_MAX_DATA_BYTES"
  shows "fst (config_store_save F (Some d) s) = CONFIG_STORE_OK"
proof -
  obtain v0 s1 where a: "cs_validate_slot F 0 s = (v0, s1)" by fastforce
  obtain v1 s2 where b: "cs_validate_slot F 1 s1 = (v1, s2)" by fastforce
  have u1: "usable (cs_flash s1)" "usable (cs_flash s2)"
    using validate_slot(2) [OF assms(1), of 0] validate_slot(2) [of s1 1] assms(1)
    by (simp_all add: a b del: One_nat_def)
  obtain t q where tq: "cs_select_target v0 v1 = (t, q)" by fastforce
  define hdr where "hdr = header_bytes \<lparr>magic = CONFIG_STORE_MAGIC, seq_number = q,
                                   data_len = of_nat (length d), reserved = 0\<rparr>"
  obtain e0 f0 where f0: "cs_flash_erase_range F (cs_slot_base t) CS_SECTORS_PER_SLOT (cs_flash s2) = (e0, f0)" by fastforce
  obtain e1 f1 where f1: "cs_flash_write_bytes F (cs_slot_base t) hdr f0 = (e1, f1)" by fastforce
  obtain e2 f2 where f2: "cs_flash_write_bytes F (cs_slot_base t + CS_HEADER_SIZE) d f1 = (e2, f2)" by fastforce
  have sectors_per_slot: "CS_SECTORS_PER_SLOT * 4096 = 0x8000" by (simp add: cs_consts)
  have base: "cs_slot_base t + 0x8000 \<le> 2 ^ 23" using slot_base_cases [of t] by auto
  have sz: "16 + length d \<le> 0x7FF8" "length hdr = 16"
    using assms(3) by (simp_all add: CONFIG_STORE_MAX_DATA_BYTES_def hdr_def)
  have 0: "e0 = QSPI_FLASH_OK" "usable f0"
    using erase_range_works [OF u1(2), of "cs_slot_base t" CS_SECTORS_PER_SLOT] base
      erase_range_usable [OF u1(2), of "cs_slot_base t" CS_SECTORS_PER_SLOT]
    by (simp_all add: f0 sectors_per_slot)
  have 1: "e1 = QSPI_FLASH_OK" "usable f1"
    using write_bytes_works [OF 0(2), of "cs_slot_base t" hdr] write_bytes_usable [OF 0(2), of "cs_slot_base t" hdr]
      base sz by (simp_all add: f1)
  have "cs_slot_base t + CS_HEADER_SIZE + length d \<le> 2 ^ 23" using base sz by (simp add: CS_HEADER_SIZE_def)
  then have 2: "e2 = QSPI_FLASH_OK" "usable f2"
    using write_bytes_works [OF 1(2), of "cs_slot_base t + CS_HEADER_SIZE" d]
      write_bytes_usable [OF 1(2), of "cs_slot_base t + CS_HEADER_SIZE" d]
    by (simp_all add: f2)
  have 3: "fst (cs_flash_write_bytes F (cs_slot_base t + CS_CRC_OFFSET) (cfl_put_u32 x) f2) = QSPI_FLASH_OK" for x
    using base by (intro write_bytes_works 2(2)) (simp add: CS_CRC_OFFSET_def)
  show ?thesis
    using assms(2,3) f0 f1 f2 0 1 2 3
    by (simp add: config_store_save_def cs_save_locked_def a b tq Let_def hdr_def [symmetric] split_def del: One_nat_def)
qed

end

section \<open>The store on its driver\<close>

context nor_chip
begin

lemmas store_saved = drv.saved_newest and store_failed = drv.failed_newest and store_erased = drv.erased_newest
  and store_loads = drv.load_newest and store_reads = drv.load_reads and store_integrity = drv.integrity
  and store_no_load = drv.no_slot_no_load and store_load_keeps = drv.load_keeps

end

context working_chip
begin

lemmas store_save_works = wrk.save_works

end

abbreviation slots :: "'h qspi_chip \<Rightarrow> 'h qspi cs_state \<Rightarrow> nat \<Rightarrow> u32 option" where
  "slots C s \<equiv> slot_seq (qspi_view C (cs_flash s))"

text \<open>C24: On any initialised NOR chip, non-empty data whose save returned OK, no slot having had the last
  sequence number before it, is what the store loads after any later reset into a buffer that it fits in,
  the flash being as the save left it.  (A save of no data returns OK too, and can not be loaded.)\<close>

theorem saved_data_survives_reset:
  assumes "nor_chip C" "qspi_usable C (cs_flash s)"
    and "slots C s 0 \<noteq> Some 0xFFFFFFFF" "slots C s 1 \<noteq> Some 0xFFFFFFFF"
    and "config_store_save (qspi_flash_driver C) (Some d) s = (CONFIG_STORE_OK, s')"
    and "cs_flash r = cs_flash s'" "cs_ready r" "d \<noteq> []" "length d \<le> m"
  shows "fst (config_store_load (qspi_flash_driver C) m r) = Inr d"
proof -
  obtain t where t: "newest (slots C s' 0) (slots C s' 1) = Some t" "slot_data (qspi_view C (cs_flash s')) t = d"
    "qspi_usable C (cs_flash s')"
    using nor_chip.store_saved [OF assms(1,2) refl assms(3,4,5) refl] by metis
  have "length d \<le> 32752" using save_ok_length [OF assms(5)] by (simp add: CONFIG_STORE_MAX_DATA_BYTES_def)
  then show ?thesis
    using nor_chip.store_loads [OF assms(1), of r "qspi_view C (cs_flash s')" t m] t assms(6-9) by simp
qed

text \<open>C23: A save that fails at any of its flash operations leaves the configuration loaded before it
  in place, provided the slot it was writing does not pass the check by accident.\<close>

theorem failed_save_keeps_configuration:
  assumes "nor_chip C" "qspi_usable C (cs_flash s)" "cs_ready s"
    and "newest (slots C s 0) (slots C s 1) = Some i" "d0 = slot_data (qspi_view C (cs_flash s)) i"
    and "config_store_save (qspi_flash_driver C) (Some d) s = (err, s')" "err \<noteq> CONFIG_STORE_OK"
    and "slots C s' (1 - i) = None \<or> slots C s' (1 - i) = slots C s (1 - i)"
    and "cs_flash r = cs_flash s'" "cs_ready r" "d0 \<noteq> []" "length d0 \<le> m" "length d0 \<le> 32752"
  shows "fst (config_store_load (qspi_flash_driver C) m r) = Inr d0"
proof -
  have len: "length (slot_data (qspi_view C (cs_flash s)) i) \<le> 32752" using assms(5,13) by simp
  have "newest (slots C s' 0) (slots C s' 1) = Some i" "slot_data (qspi_view C (cs_flash s')) i = d0"
    "qspi_usable C (cs_flash s')"
    using nor_chip.store_failed [OF assms(1,2) refl assms(4,6,7) refl len assms(8)] assms(5) by simp_all
  then show ?thesis
    using nor_chip.store_loads [OF assms(1), of r "qspi_view C (cs_flash s')" i m] assms(9-13) by simp
qed

text \<open>After a factory reset that returned OK there is no configuration: load and integrity check
  both report that no slot is valid, whatever the slots held before.\<close>

theorem factory_reset_erases:
  assumes "nor_chip C" "qspi_usable C (cs_flash s)"
    and "config_store_erase (qspi_flash_driver C) s = (CONFIG_STORE_OK, s')"
  shows "fst (config_store_load (qspi_flash_driver C) m s') = Inl CONFIG_STORE_ERR_NO_VALID_SLOT \<and>
    fst (config_store_check_integrity (qspi_flash_driver C) s') = CONFIG_STORE_ERR_NO_VALID_SLOT"
proof -
  have e: "newest (slots C s' 0) (slots C s' 1) = None" "qspi_usable C (cs_flash s')" "cs_ready s'"
    using nor_chip.store_erased [OF assms refl] by simp_all
  show ?thesis
    using nor_chip.store_no_load [OF assms(1) e(2,3) refl e(1)]
      nor_chip.store_integrity [OF assms(1) e(2,3) refl] e(1) by simp
qed

text \<open>An empty configuration can be saved, becomes the active slot and passes the integrity
  check, but can not be loaded: the driver refuses to read nothing.\<close>

theorem empty_save_cannot_be_loaded:
  assumes "nor_chip C" "qspi_usable C (cs_flash s)"
    and "slots C s 0 \<noteq> Some 0xFFFFFFFF" "slots C s 1 \<noteq> Some 0xFFFFFFFF"
    and "config_store_save (qspi_flash_driver C) (Some []) s = (CONFIG_STORE_OK, s')"
  shows "fst (config_store_check_integrity (qspi_flash_driver C) s') = CONFIG_STORE_OK \<and>
    fst (config_store_load (qspi_flash_driver C) m s') = Inl CONFIG_STORE_ERR_FLASH_READ"
proof -
  obtain t where t: "newest (slots C s' 0) (slots C s' 1) = Some t" "slot_data (qspi_view C (cs_flash s')) t = []"
    "qspi_usable C (cs_flash s')" "cs_ready s'"
    using nor_chip.store_saved [OF assms(1,2) refl assms(3,4,5) refl] by metis
  have "cs_flash_read_bytes (qspi_flash_driver C) a 0 (cs_flash s') = (QSPI_FLASH_ERR_LEN, [])" for a
    using t(3) by (simp add: cs_flash_read_bytes_def driver_defs)
  then show ?thesis
    using nor_chip.store_reads [OF assms(1) t(3,4) refl t(1), of 0 m] t(2)
      nor_chip.store_integrity [OF assms(1) t(3,4) refl] t(1) by simp
qed

text \<open>On flash whose programs and erases succeed, a save of at most the maximal size returns OK:
  no step of the write protocol is refused by the driver.\<close>

theorem save_succeeds:
  assumes "working_chip C sound" "qspi_usable C (cs_flash s)" "sound (q_chip (cs_flash s))"
    and "cs_ready s" "length d \<le> CONFIG_STORE_MAX_DATA_BYTES"
  shows "fst (config_store_save (qspi_flash_driver C) (Some d) s) = CONFIG_STORE_OK"
  using working_chip.store_save_works [OF assms(1), of s d] assms(2-5) by (simp add: qspi_sound_def)

section \<open>A store on a blank chip\<close>

definition blank_qspi :: "ram_chip_state qspi" where
  "blank_qspi = \<lparr>q_initialised = True, q_device_size = QSPI_DEVICE_SIZE_BYTES,
     q_chip = \<lparr>ram_bytes = (\<lambda>_. 0xFF), ram_fails = False\<rparr>\<rparr>"

definition blank_store :: "ram_chip_state qspi cs_state" where
  "blank_store = \<lparr>cs_ready = True, active_slot_index = 0, active_seq_number = 0, cs_flash = blank_qspi, cs_health = []\<rparr>"

abbreviation ram_flash :: "ram_chip_state qspi iqspi_flash" where
  "ram_flash \<equiv> qspi_flash_driver ram_chip"

definition saved_store :: "u8 list \<Rightarrow> ram_chip_state qspi cs_state" where
  "saved_store d = snd (config_store_save ram_flash (Some d) blank_store)"

lemma blank_usable: "qspi_usable ram_chip (cs_flash blank_store)"
  by (simp add: blank_store_def blank_qspi_def qspi_usable_def ram_chip_def)

lemma blank_slots: "slots ram_chip blank_store i = None"
  by (rule erased_slot) (simp add: blank_store_def blank_qspi_def qspi_view_def ram_chip_def)

lemma blank_save:
  assumes "length d \<le> CONFIG_STORE_MAX_DATA_BYTES"
  shows "config_store_save ram_flash (Some d) blank_store = (CONFIG_STORE_OK, saved_store d)"
  using ram.store_save_works [of blank_store d] blank_usable assms
  by (auto simp: saved_store_def qspi_sound_def blank_store_def blank_qspi_def intro: prod_eqI)

text \<open>The first save goes to slot 1 with sequence number 1 and leaves the chip sound.\<close>

lemma blank_saved_slots:
  assumes "length d \<le> CONFIG_STORE_MAX_DATA_BYTES"
  shows "slots ram_chip (saved_store d) 0 = None" "slots ram_chip (saved_store d) (Suc 0) = Some 1"
    "qspi_sound ram_chip (\<lambda>h. \<not> ram_fails h) (cs_flash (saved_store d))" "cs_ready (saved_store d)"
proof -
  have u: "qspi_sound ram_chip (\<lambda>h. \<not> ram_fails h) (cs_flash blank_store)" "cs_ready blank_store"
    using blank_usable by (simp_all add: qspi_sound_def) (simp_all add: blank_store_def blank_qspi_def)
  have l: "cs_save_locked ram_flash d blank_store = (CONFIG_STORE_OK, saved_store d)"
    using blank_save [OF assms] assms u(2) by (simp add: config_store_save_def)
  have n: "cs_next (qspi_view ram_chip (cs_flash blank_store)) = (Suc 0, 1)"
    by (simp add: cs_next_def blank_slots cs_select_target_def)
  note sl = ram.wrk.save_locked [OF u(1) refl n assms l refl]
  have "slots ram_chip (saved_store d) 0 = slots ram_chip blank_store 0"
    using sl(3) by (intro slot_seq_cong) (auto simp: cs_slot_base_def cs_consts)
  then show "slots ram_chip (saved_store d) 0 = None" by (simp add: blank_slots)
  show "slots ram_chip (saved_store d) (Suc 0) = Some 1"
    "qspi_sound ram_chip (\<lambda>h. \<not> ram_fails h) (cs_flash (saved_store d))" "cs_ready (saved_store d)"
    using sl(1,2,4) u(2) by simp_all
qed

theorem save_succeeds_witness:
  "fst (config_store_save ram_flash (Some [1, 2, 3]) blank_store) = CONFIG_STORE_OK"
  by (rule save_succeeds [OF ram_working blank_usable])
     (simp_all add: blank_store_def blank_qspi_def CONFIG_STORE_MAX_DATA_BYTES_def)

lemma demo_save:
  "config_store_save ram_flash (Some [1, 2, 3]) blank_store = (CONFIG_STORE_OK, saved_store [1, 2, 3])"
  by (rule blank_save) (simp add: CONFIG_STORE_MAX_DATA_BYTES_def)

lemma demo_saved:
  obtains t where "newest (slots ram_chip (saved_store [1, 2, 3]) 0) (slots ram_chip (saved_store [1, 2, 3]) 1) = Some t"
    "slot_data (qspi_view ram_chip (cs_flash (saved_store [1, 2, 3]))) t = [1, 2, 3]"
    "qspi_usable ram_chip (cs_flash (saved_store [1, 2, 3]))" "cs_ready (saved_store [1, 2, 3])"
  using nor_chip.store_saved [OF ram_nor blank_usable refl _ _ demo_save refl] blank_slots by auto

theorem saved_data_survives_reset_witness:
  "fst (config_store_load ram_flash 45 ((saved_store [1, 2, 3])\<lparr>active_slot_index := 0, active_seq_number := 0\<rparr>)) =
     Inr [1, 2, 3]"
proof -
  have "cs_ready (saved_store [1, 2, 3])" by (rule demo_saved)
  then show ?thesis
    by (intro saved_data_survives_reset [OF ram_nor blank_usable _ _ demo_save]) (simp_all add: blank_slots)
qed

text \<open>The chip fails at the next save.\<close>

definition failing_store :: "ram_chip_state qspi cs_state" where
  "failing_store = (saved_store [1, 2, 3])\<lparr>cs_flash := (cs_flash (saved_store [1, 2, 3]))
     \<lparr>q_chip := (q_chip (cs_flash (saved_store [1, 2, 3])))\<lparr>ram_fails := True\<rparr>\<rparr>\<rparr>"

lemma failing_view: "qspi_view ram_chip (cs_flash failing_store) = qspi_view ram_chip (cs_flash (saved_store [1, 2, 3]))"
  by (simp add: failing_store_def qspi_view_def ram_chip_def fun_eq_iff)

lemma failing_usable: "qspi_usable ram_chip (cs_flash failing_store)" "cs_ready failing_store"
proof -
  have "qspi_usable ram_chip (cs_flash (saved_store [1, 2, 3]))" "cs_ready (saved_store [1, 2, 3])"
    by (rule demo_saved, assumption)+
  then show "qspi_usable ram_chip (cs_flash failing_store)" "cs_ready failing_store"
    by (simp_all add: failing_store_def qspi_usable_def ram_chip_def)
qed

lemma sectors_8: "CS_SECTORS_PER_SLOT = Suc 7"
  by (simp add: cs_consts)

lemma ram_erase_fails:
  assumes "qspi_usable ram_chip f" "ram_fails (q_chip f)" "a < QSPI_DEVICE_SIZE_BYTES"
  shows "fl_erase_sector ram_flash a f = (QSPI_FLASH_ERR_TIMEOUT, f)"
  using assms by (simp add: driver_defs ram_chip_def)

lemma failing_save:
  "config_store_save ram_flash (Some [4]) failing_store =
     (CONFIG_STORE_ERR_FLASH_ERASE, snd (config_store_save ram_flash (Some [4]) failing_store)) \<and>
   cs_flash (snd (config_store_save ram_flash (Some [4]) failing_store)) = cs_flash failing_store"
proof -
  obtain v0 s1 where a: "cs_validate_slot ram_flash 0 failing_store = (v0, s1)" by fastforce
  obtain v1 s2 where b: "cs_validate_slot ram_flash 1 s1 = (v1, s2)" by fastforce
  obtain t q where tq: "cs_select_target v0 v1 = (t, q)" by fastforce
  have s1: "cs_flash s1 = cs_flash failing_store"
    using ram.drv.validate_slot(2) [OF failing_usable(1), of 0] by (simp add: a)
  then have s2: "cs_flash s2 = cs_flash failing_store"
    using ram.drv.validate_slot(2) [of s1 1] failing_usable(1) by (simp add: b del: One_nat_def)
  have "fl_erase_sector ram_flash (cs_slot_base t) (cs_flash failing_store) = (QSPI_FLASH_ERR_TIMEOUT, cs_flash failing_store)"
    using slot_base_cases [of t] failing_usable(1)
    by (intro ram_erase_fails) (auto simp: failing_store_def QSPI_DEVICE_SIZE_BYTES_def)
  then have "cs_flash_erase_range ram_flash (cs_slot_base t) CS_SECTORS_PER_SLOT (cs_flash s2) =
      (QSPI_FLASH_ERR_TIMEOUT, cs_flash failing_store)"
    unfolding sectors_8 s2 cs_flash_erase_range.simps by simp
  then show ?thesis
    by (simp add: config_store_save_def cs_save_locked_def failing_usable CONFIG_STORE_MAX_DATA_BYTES_def a b tq Let_def
        cs_push_health_def s2 del: One_nat_def)
qed

theorem failed_save_keeps_configuration_witness:
  "fst (config_store_load ram_flash 45 (failing_store\<lparr>cs_flash :=
      cs_flash (snd (config_store_save ram_flash (Some [4]) failing_store))\<rparr>)) = Inr [1, 2, 3]"
proof -
  obtain t where t: "newest (slots ram_chip failing_store 0) (slots ram_chip failing_store 1) = Some t"
    "slot_data (qspi_view ram_chip (cs_flash failing_store)) t = [1, 2, 3]"
    by (rule demo_saved) (simp add: failing_view)
  have same: "cs_flash (snd (config_store_save ram_flash (Some [4]) failing_store)) = cs_flash failing_store"
    using failing_save by blast
  show ?thesis
    by (rule failed_save_keeps_configuration [OF ram_nor failing_usable t(1) t(2) [symmetric] conjunct1 [OF failing_save]])
       (simp_all add: same failing_usable)
qed

lemma demo_erase_ok:
  "config_store_erase ram_flash blank_store = (CONFIG_STORE_OK, snd (config_store_erase ram_flash blank_store))"
proof -
  have "qspi_sound ram_chip (\<lambda>h. \<not> ram_fails h) (cs_flash blank_store)"
    using blank_usable by (simp add: qspi_sound_def) (simp add: blank_store_def blank_qspi_def)
  note u = this ram.wrk.erase_range_usable [OF this, of "cs_slot_base 0" CS_SECTORS_PER_SLOT]
  have n: "CS_SECTORS_PER_SLOT * 4096 = 0x8000" by (simp add: cs_consts)
  have b: "cs_slot_base i + 0x8000 \<le> 2 ^ 23" for i using slot_base_cases [of i] by auto
  have "fst (cs_flash_erase_range ram_flash (cs_slot_base 0) CS_SECTORS_PER_SLOT (cs_flash blank_store)) = QSPI_FLASH_OK"
    using ram.wrk.erase_range_works [OF u(1), of "cs_slot_base 0" CS_SECTORS_PER_SLOT] b [of 0] by (simp add: n)
  moreover have "fst (cs_flash_erase_range ram_flash (cs_slot_base 1) CS_SECTORS_PER_SLOT
      (snd (cs_flash_erase_range ram_flash (cs_slot_base 0) CS_SECTORS_PER_SLOT (cs_flash blank_store)))) = QSPI_FLASH_OK"
    using ram.wrk.erase_range_works [OF u(2), of "cs_slot_base 1" CS_SECTORS_PER_SLOT] b [of 1]
    by (simp add: n del: One_nat_def)
  moreover have "cs_ready blank_store" by (simp add: blank_store_def)
  ultimately have "fst (config_store_erase ram_flash blank_store) = CONFIG_STORE_OK"
    unfolding config_store_erase_def Let_def split_def by (simp only: if_True if_False not_True_eq_False simp_thms fst_conv)
  then show ?thesis by (simp only: prod_eq_iff fst_conv snd_conv)
qed

theorem factory_reset_erases_witness:
  "fst (config_store_load ram_flash 45 (snd (config_store_erase ram_flash blank_store))) =
     Inl CONFIG_STORE_ERR_NO_VALID_SLOT"
  using factory_reset_erases [OF ram_nor blank_usable demo_erase_ok] by blast

theorem empty_save_cannot_be_loaded_witness:
  "fst (config_store_load ram_flash 45 (saved_store [])) = Inl CONFIG_STORE_ERR_FLASH_READ"
  using empty_save_cannot_be_loaded [OF ram_nor blank_usable _ _ blank_save] blank_slots by simp

end
