(* ===== verification/Persistence.thy ===== *)
theory Persistence
  imports Device_Properties Config_Store
begin

text \<open>
  The Field Device on its real configuration store: \<^verbatim>\<open>main.c\<close> hands the \<^verbatim>\<open>config_store\<close> vtable
  of \<^verbatim>\<open>config_store.c\<close> to ConfigService and LifecycleController.  The theory plugs the store model
  into the store interface of \<open>Field_Device\<close> and shows that a change of the configuration survives
  a reboot.
\<close>

section \<open>The vtable\<close>

definition fd_store :: "'h qspi_chip \<Rightarrow> 'h qspi cs_state config_store_if" where
  "fd_store C =
    \<lparr>st_check = (\<lambda>s. fst (config_store_check_integrity (qspi_flash_driver C) s) = CONFIG_STORE_OK),
     st_load = (\<lambda>n s. case config_store_load (qspi_flash_driver C) n s of
                 (Inl _, s) \<Rightarrow> (None, s) | (Inr d, s) \<Rightarrow> (Some d, s)),
     st_save = (\<lambda>d s. case config_store_save (qspi_flash_driver C) (Some d) s of
                 (err, s) \<Rightarrow> (err = CONFIG_STORE_OK, s))\<rparr>"

text \<open>A saved configuration is a stored one.\<close>

lemma length_blob_of [simp]: "length (blob_of p) = 45"
  by (simp add: blob_of_def)

lemma load_pair:
  "st_load (fd_store C) n s = (case fst (config_store_load (qspi_flash_driver C) n s) of Inl _ \<Rightarrow> None | Inr d \<Rightarrow> Some d,
     snd (config_store_load (qspi_flash_driver C) n s))"
  by (simp add: fd_store_def split: prod.splits sum.splits)

lemma saved_is_stored:
  assumes C: "nor_chip C" and u: "qspi_usable C (cs_flash s)"
    and "slots C s 0 \<noteq> Some 0xFFFFFFFF" "slots C s 1 \<noteq> Some 0xFFFFFFFF"
    and "st_save (fd_store C) (blob_of p) s = (True, s')" "params_loadable p"
    and r: "cs_flash r = cs_flash s'" "cs_ready r"
  shows "stored_config (fd_store C) p r"
proof -
  have "config_store_save (qspi_flash_driver C) (Some (blob_of p)) s = (CONFIG_STORE_OK, s')"
    using assms(5) by (auto simp: fd_store_def split: prod.splits)
  then obtain t where t: "newest (slots C s' 0) (slots C s' 1) = Some t"
    "slot_data (qspi_view C (cs_flash s')) t = blob_of p" "qspi_usable C (cs_flash s')"
    using nor_chip.store_saved [OF C u refl assms(3,4) _ refl] by metis
  have ld: "fst (st_load (fd_store C) n x) = Some (blob_of p)"
    if "cs_flash x = cs_flash s'" "cs_ready x" "45 \<le> n" for n x
    using nor_chip.store_loads [OF C _ that(2) refl, of t n] t that by (auto simp: load_pair simp flip: length_greater_0_conv)
  have ck: "st_check (fd_store C) x" if "cs_flash x = cs_flash s'" "cs_ready x" for x
    using nor_chip.store_integrity [OF C _ that(2) refl] t that by (simp add: fd_store_def)
  have keep: "cs_flash (snd (st_load (fd_store C) 45 r)) = cs_flash s'" "cs_ready (snd (st_load (fd_store C) 45 r))"
    using nor_chip.store_load_keeps [OF C, of r 45] t(3) r by (simp_all add: load_pair)
  show ?thesis
    using ld [OF r order.refl] ld [OF keep, of 32712] ck [OF keep] assms(6)
    by (simp add: stored_config_def split_def)
qed

text \<open>What a running device saves when it accepts a write.\<close>

lemma set_param_saves:
  assumes "fd_wired d (ms_env s)" "fd_set_param pid v s = (CONFIG_SERVICE_OK, s')"
  obtains "st_save d (blob_of (fd_params s')) (store (host (ms_env s))) = (True, store (host (ms_env s')))"
proof -
  let ?e = "ms_env s"
  let ?p = "apply_param_to_struct (params (config ?e)) pid v"
  have w: "cs_initialised (config ?e)" "cs_callbacks (config ?e) = [on_config_changed]" "cs_save (config ?e) = store_save d"
    using assms(1) by (auto simp: fd_wired_def)
  obtain ok st where st: "st_save d (blob_of ?p) (store (host ?e)) = (ok, st)" by fastforce
  have "ok \<and> s' = s\<lparr>ms_env := ?e\<lparr>config := (config ?e)\<lparr>params := ?p\<rparr>,
      host := on_config_changed pid ?p ((host ?e)\<lparr>store := st\<rparr>)\<rparr>\<rparr>"
    using assms(2) w st
    by (auto simp: fd_set_param_def config_service_set_param_def persist_to_store_def blob_of_def
        fire_callbacks_def store_save_def Let_def split: if_splits)
  then show thesis
    using st w by (intro that) (auto simp: fd_params_def config_service_get_params_def on_config_changed_def)
qed

section \<open>Changes survive a reboot\<close>

text \<open>C22: Take a device whose store and driver are wired and initialised on any NOR chip, no slot having the
  last sequence number.  If ConfigService accepts a write of a parameter and the resulting configuration also
  satisfies the loader's own conditions, which are stricter than those of the write, then any later boot from
  the flash as the write left it comes up operational with exactly that configuration, whatever the RAM held.\<close>

theorem accepted_change_survives_reboot:
  assumes "nor_chip C" "in_step (fd_store C) (ms_env s)"
    and "st = store (host (ms_env s))" "qspi_usable C (cs_flash st)"
    and "slots C st 0 \<noteq> Some 0xFFFFFFFF" "slots C st 1 \<noteq> Some 0xFFFFFFFF"
    and "fd_set_param pid v s = (CONFIG_SERVICE_OK, s')" "params_loadable (fd_params s')"
    and "cs_flash (store (host (ms_env s0))) = cs_flash (store (host (ms_env s')))" "cs_ready (store (host (ms_env s0)))"
    and "r = fd_boot (fd_store C) bd (ht, baro, True) s0"
  shows "fd_params r = fd_params s' \<and> lc_state (lc (ms_env r)) = LIFECYCLE_STATE_OPERATIONAL"
proof -
  have "fd_wired (fd_store C) (ms_env s)" using assms(2) by (simp add: in_step_def)
  then have sv: "st_save (fd_store C) (blob_of (fd_params s')) (store (host (ms_env s))) = (True, store (host (ms_env s')))"
    using assms(7) by (rule set_param_saves)
  show ?thesis
    using boot_ok [OF saved_is_stored [OF assms(1,4,5,6) sv [folded assms(3)] assms(8,9,10)] assms(11)] by simp
qed

section \<open>A device with a chip\<close>

definition first_store :: "ram_chip_state qspi cs_state" where
  "first_store = saved_store (blob_of apply_defaults)"

definition chip_fd :: "(ram_chip_state qspi cs_state, rtc_datetime \<times> u32) fd" where
  "chip_fd = fd_boot (fd_store ram_chip) demo_board (True, True, True) (blank_fd first_store)"

text \<open>The same device with the flash as the first save left it.\<close>

definition chip_fd0 :: "(ram_chip_state qspi cs_state, rtc_datetime \<times> u32) fd" where
  "chip_fd0 = chip_fd\<lparr>ms_env := (ms_env chip_fd)\<lparr>host := (host (ms_env chip_fd))\<lparr>store := first_store\<rparr>\<rparr>\<rparr>"

lemma first_saved: "st_save (fd_store ram_chip) (blob_of apply_defaults) blank_store = (True, first_store)"
  using blank_save [of "blob_of apply_defaults"]
  by (simp add: fd_store_def first_store_def CONFIG_STORE_MAX_DATA_BYTES_def)

lemma first_slots:
  "slots ram_chip first_store 0 = None" "slots ram_chip first_store (Suc 0) = Some 1"
  "qspi_sound ram_chip (\<lambda>h. \<not> ram_fails h) (cs_flash first_store)" "cs_ready first_store"
  using blank_saved_slots [of "blob_of apply_defaults"] by (simp_all add: first_store_def CONFIG_STORE_MAX_DATA_BYTES_def)

lemma first_stored: "stored_config (fd_store ram_chip) apply_defaults (store (host (ms_env (blank_fd first_store))))"
  by (rule saved_is_stored [OF ram_nor blank_usable _ _ first_saved defaults_loadable])
     (simp_all add: blank_slots first_slots blank_fd_def blank_env_def)

lemma chip_fd0_wired: "in_step (fd_store ram_chip) (ms_env chip_fd0)" "params (config (ms_env chip_fd0)) = apply_defaults"
  using boot_ok(5,2) [OF first_stored chip_fd_def]
  by (auto simp: chip_fd0_def in_step_def fd_wired_def alarms_synced_def alarm_of_def fd_params_def
      config_service_get_params_def)

lemma chip_fd0_store: "store (host (ms_env chip_fd0)) = first_store"
  by (simp add: chip_fd0_def)

lemma chip_write:
  "fd_set_param CONFIG_PARAM_TEMP_ALARM_HIGH 4500 chip_fd0 =
     (CONFIG_SERVICE_OK, snd (fd_set_param CONFIG_PARAM_TEMP_ALARM_HIGH 4500 chip_fd0))"
  "fd_params (snd (fd_set_param CONFIG_PARAM_TEMP_ALARM_HIGH 4500 chip_fd0)) = apply_defaults\<lparr>temp_alarm_high := 4500\<rparr>"
proof -
  let ?p = "apply_defaults\<lparr>temp_alarm_high := 4500\<rparr>"
  obtain ok st where st: "st_save (fd_store ram_chip) (blob_of ?p) first_store = (ok, st)" by fastforce
  moreover have "fst (config_store_save ram_flash (Some (blob_of ?p)) first_store) = CONFIG_STORE_OK"
    using first_slots by (intro ram.store_save_works) (simp_all add: CONFIG_STORE_MAX_DATA_BYTES_def)
  ultimately have ok by (auto simp: fd_store_def split: prod.splits)
  have w: "cs_initialised (config (ms_env chip_fd0))" "cs_callbacks (config (ms_env chip_fd0)) = [on_config_changed]"
    "cs_save (config (ms_env chip_fd0)) = store_save (fd_store ram_chip)"
    using chip_fd0_wired(1) by (auto simp: in_step_def fd_wired_def)
  have v: "validate_param_internal CONFIG_PARAM_TEMP_ALARM_HIGH 4500 apply_defaults = CONFIG_SERVICE_OK"
    by code_simp
  have p: "as_u16 4500 = 4500" by (simp add: as_u16_def)
  show "fd_set_param CONFIG_PARAM_TEMP_ALARM_HIGH 4500 chip_fd0 =
     (CONFIG_SERVICE_OK, snd (fd_set_param CONFIG_PARAM_TEMP_ALARM_HIGH 4500 chip_fd0))"
    "fd_params (snd (fd_set_param CONFIG_PARAM_TEMP_ALARM_HIGH 4500 chip_fd0)) = ?p"
    using w v st \<open>ok\<close>
    by (simp_all add: fd_set_param_def config_service_set_param_def chip_fd0_wired(2) p persist_to_store_def
        store_save_def chip_fd0_store blob_of_def Let_def fd_params_def config_service_get_params_def)
qed

theorem accepted_change_survives_reboot_witness:
  "temp_alarm_high (fd_params (fd_boot (fd_store ram_chip) demo_board (True, True, True)
     (blank_fd ((store (host (ms_env (snd (fd_set_param CONFIG_PARAM_TEMP_ALARM_HIGH 4500 chip_fd0)))))\<lparr>cs_ready := True\<rparr>)))) = 4500"
proof -
  let ?s' = "snd (fd_set_param CONFIG_PARAM_TEMP_ALARM_HIGH 4500 chip_fd0)"
  have usable: "qspi_usable ram_chip (cs_flash first_store)" using first_slots(3) by (simp add: qspi_sound_def)
  have f: "cs_flash (store (host (ms_env (blank_fd (st\<lparr>cs_ready := True\<rparr>))))) = cs_flash st"
    "cs_ready (store (host (ms_env (blank_fd (st\<lparr>cs_ready := True\<rparr>)))))" for st :: "ram_chip_state qspi cs_state"
    by (simp_all add: blank_fd_def blank_env_def)
  have "params_loadable (fd_params ?s')"
    unfolding chip_write(2) by code_simp
  then show ?thesis
    using accepted_change_survives_reboot [OF ram_nor chip_fd0_wired(1) chip_fd0_store [symmetric] usable _ _
        chip_write(1) _ f refl] first_slots(1,2)
    by (simp add: chip_write(2))
qed

end
