(* ===== verification/Flash_Log.thy ===== *)
theory Flash_Log
  imports Config_Store
begin

text \<open>
  CircularFlashLog of the gateway (\<^verbatim>\<open>middleware/circular_flash_log/circular_flash_log.c\<close>): a ring
  of 254 flash sectors that holds records in order, with a head sector kept in two metadata slots
  and a scan that finds the tail after a reset.

  The flash is reached through the driver's vtable.  Addresses, offsets, sector indices and lengths
  are naturals (all sums lie below \<open>2 ^ 23\<close>); sequence numbers are 32-bit words.  The instance
  carries the flash it works on and the events it pushed to HealthMonitor.
\<close>

section \<open>Constants and state\<close>

definition CFL_PARTITION_BASE_ADDR :: nat where "CFL_PARTITION_BASE_ADDR = 0x20000"
definition CFL_SECTOR_SIZE_BYTES :: nat where "CFL_SECTOR_SIZE_BYTES = 4096"
definition CFL_DATA_SECTOR_BASE :: nat where "CFL_DATA_SECTOR_BASE = 2"
definition CFL_DATA_SECTOR_COUNT :: nat where "CFL_DATA_SECTOR_COUNT = 254"
definition CFL_META_SLOT_COUNT :: nat where "CFL_META_SLOT_COUNT = 2"
definition CFL_META_SLOT_BODY_SZ :: nat where "CFL_META_SLOT_BODY_SZ = 12"
definition CFL_META_SLOT_SZ :: nat where "CFL_META_SLOT_SZ = 16"
definition CFL_META_MAGIC :: u32 where "CFL_META_MAGIC = 0xBEEF5A5B"
definition CFL_MAGIC :: u32 where "CFL_MAGIC = 0xBEEF5A5A"
definition CFL_MAX_RECORD_BYTES :: nat where "CFL_MAX_RECORD_BYTES = 4078"
definition CFL_RECORD_HEADER_SZ :: nat where "CFL_RECORD_HEADER_SZ = 12"
definition CFL_RECORD_CRC_SZ :: nat where "CFL_RECORD_CRC_SZ = 2"
definition CFL_ALIGNMENT_BYTES :: nat where "CFL_ALIGNMENT_BYTES = 4"
definition CFL_MIN_RECORD_BYTES :: nat where "CFL_MIN_RECORD_BYTES = 16"
definition CFL_SCAN_CHUNK_BYTES :: nat where "CFL_SCAN_CHUNK_BYTES = 64"
definition CFL_MAX_INSTANCES :: nat where "CFL_MAX_INSTANCES = 1"
definition CFL_FAULT_CODE_FLASH_ERR :: u32 where "CFL_FAULT_CODE_FLASH_ERR = 0x0C01"

lemmas cfl_consts =
  CFL_PARTITION_BASE_ADDR_def CFL_SECTOR_SIZE_BYTES_def CFL_DATA_SECTOR_BASE_def
  CFL_DATA_SECTOR_COUNT_def CFL_META_SLOT_COUNT_def CFL_META_SLOT_BODY_SZ_def CFL_META_SLOT_SZ_def
  CFL_MAX_RECORD_BYTES_def CFL_RECORD_HEADER_SZ_def CFL_RECORD_CRC_SZ_def CFL_ALIGNMENT_BYTES_def
  CFL_MIN_RECORD_BYTES_def CFL_SCAN_CHUNK_BYTES_def

datatype cfl_err =
    CFL_ERR_OK | CFL_ERR_NULL_PTR | CFL_ERR_NO_RESOURCE | CFL_ERR_NOT_INIT | CFL_ERR_TOO_LARGE
  | CFL_ERR_EMPTY | CFL_ERR_FULL | CFL_ERR_FLASH_ERASE | CFL_ERR_FLASH_WRITE | CFL_ERR_FLASH_READ
  | CFL_ERR_CORRUPT

record cfl_record_hdr =
  hdr_magic :: u32
  hdr_seq :: u32
  hdr_len :: nat

record 'f cfl_inst =
  cfl_dev :: 'f
  cfl_health :: bool
  cfl_events :: "(health_event \<times> u32) list"
  head_sector :: nat
  head_offset :: nat
  tail_sector :: nat
  tail_offset :: nat
  next_seq_num :: u32
  entry_count :: nat
  byte_count :: nat
  meta_slot :: nat
  meta_seq_num :: u32
  meta_slot_valid :: bool
  cfl_in_use :: bool

definition cfl_report_overflow :: "'f cfl_inst \<Rightarrow> 'f cfl_inst" where
  "cfl_report_overflow i =
     (if cfl_health i then i\<lparr>cfl_events := (HEALTH_EVENT_BUFFER_OVERFLOW, 0) # cfl_events i\<rparr> else i)"

definition cfl_report_flash_error :: "'f cfl_inst \<Rightarrow> 'f cfl_inst" where
  "cfl_report_flash_error i =
     (if cfl_health i then i\<lparr>cfl_events := (HEALTH_EVENT_FAULT, CFL_FAULT_CODE_FLASH_ERR) # cfl_events i\<rparr> else i)"

section \<open>Flash access\<close>

definition cfl_data_sector_addr :: "nat \<Rightarrow> nat" where
  "cfl_data_sector_addr ring_index =
     CFL_PARTITION_BASE_ADDR + (CFL_DATA_SECTOR_BASE + ring_index) * CFL_SECTOR_SIZE_BYTES"

definition cfl_meta_slot_addr :: "nat \<Rightarrow> nat" where
  "cfl_meta_slot_addr slot = CFL_PARTITION_BASE_ADDR + slot * CFL_SECTOR_SIZE_BYTES"

definition cfl_flash_read :: "'f iqspi_flash \<Rightarrow> nat \<Rightarrow> nat \<Rightarrow> 'f \<Rightarrow> cfl_err \<times> u8 list" where
  "cfl_flash_read F addr len f =
     (case fl_read F addr len f of (err, buf) \<Rightarrow>
        if err \<noteq> QSPI_FLASH_OK then (CFL_ERR_FLASH_READ, buf) else (CFL_ERR_OK, buf))"

text \<open>The chunk loop, from \<open>written\<close> bytes on.\<close>

function cfl_flash_write_from :: "'f iqspi_flash \<Rightarrow> nat \<Rightarrow> u8 list \<Rightarrow> nat \<Rightarrow> 'f \<Rightarrow> cfl_err \<times> 'f" where
  "cfl_flash_write_from F addr data written f =
     (if written < length data then
        let page_left = 256 - (addr + written) mod 256;
            chunk = length data - written;
            chunk = (if chunk > page_left then page_left else chunk);
            (err, f) = fl_write_page F (addr + written) (take chunk (drop written data)) f
        in if err \<noteq> QSPI_FLASH_OK then (CFL_ERR_FLASH_WRITE, f)
           else cfl_flash_write_from F addr data (written + chunk) f
      else (CFL_ERR_OK, f))"
  by pat_completeness auto
termination
  by (relation "measure (\<lambda>(F, addr, data, written, f). length data - written)") (auto simp: page_space)

declare cfl_flash_write_from.simps [simp del]

definition cfl_flash_write :: "'f iqspi_flash \<Rightarrow> nat \<Rightarrow> u8 list \<Rightarrow> 'f \<Rightarrow> cfl_err \<times> 'f" where
  "cfl_flash_write F addr data f = cfl_flash_write_from F addr data 0 f"

definition cfl_flash_erase :: "'f iqspi_flash \<Rightarrow> nat \<Rightarrow> 'f \<Rightarrow> cfl_err \<times> 'f" where
  "cfl_flash_erase F addr f =
     (case fl_erase_sector F addr f of (err, f) \<Rightarrow>
        if err \<noteq> QSPI_FLASH_OK then (CFL_ERR_FLASH_ERASE, f) else (CFL_ERR_OK, f))"

section \<open>Records\<close>

definition cfl_record_size :: "nat \<Rightarrow> nat" where
  "cfl_record_size len =
     (let raw = CFL_RECORD_HEADER_SZ + len + CFL_RECORD_CRC_SZ;
          up = raw + (CFL_ALIGNMENT_BYTES - 1)
      in up - up mod CFL_ALIGNMENT_BYTES)"

definition cfl_hdr_bytes :: "u32 \<Rightarrow> u32 \<Rightarrow> nat \<Rightarrow> u8 list" where
  "cfl_hdr_bytes mg seq len = cfl_put_u32 mg @ cfl_put_u32 seq @ cfl_put_u32 (of_nat len)"

definition cfl_hdr_of :: "u8 list \<Rightarrow> cfl_record_hdr" where
  "cfl_hdr_of raw =
    \<lparr>hdr_magic = cfl_get_u32 raw, hdr_seq = cfl_get_u32 (drop 4 raw), hdr_len = unat (cfl_get_u32 (drop 8 raw))\<rparr>"

definition cfl_read_header :: "'f iqspi_flash \<Rightarrow> nat \<Rightarrow> nat \<Rightarrow> 'f \<Rightarrow> cfl_err \<times> cfl_record_hdr" where
  "cfl_read_header F sector offset f =
     (case cfl_flash_read F (cfl_data_sector_addr sector + offset) CFL_RECORD_HEADER_SZ f of
        (err, raw) \<Rightarrow> (err, cfl_hdr_of raw))"

definition cfl_header_plausible :: "cfl_record_hdr \<Rightarrow> nat \<Rightarrow> bool" where
  "cfl_header_plausible hdr offset =
     (if hdr_magic hdr \<noteq> CFL_MAGIC then False
      else if hdr_len hdr = 0 \<or> hdr_len hdr > CFL_MAX_RECORD_BYTES then False
      else offset + cfl_record_size (hdr_len hdr) \<le> CFL_SECTOR_SIZE_BYTES)"

definition cfl_room_for_record :: "nat \<Rightarrow> bool" where
  "cfl_room_for_record offset \<longleftrightarrow> offset + CFL_MIN_RECORD_BYTES \<le> CFL_SECTOR_SIZE_BYTES"

text \<open>The payload loop of \<^verbatim>\<open>cfl_verify_record_crc\<close>.\<close>

function cfl_fold_payload :: "'f iqspi_flash \<Rightarrow> nat \<Rightarrow> nat \<Rightarrow> u16 \<Rightarrow> 'f \<Rightarrow> cfl_err \<times> u16" where
  "cfl_fold_payload F read_at remaining crc f =
     (if remaining > 0 then
        let n = (if remaining > CFL_SCAN_CHUNK_BYTES then CFL_SCAN_CHUNK_BYTES else remaining);
            (err, chunk) = cfl_flash_read F read_at n f
        in if err \<noteq> CFL_ERR_OK then (err, crc)
           else cfl_fold_payload F (read_at + n) (remaining - n) (cfl_crc16_update crc chunk) f
      else (CFL_ERR_OK, crc))"
  by pat_completeness auto
termination
  by (relation "measure (\<lambda>(F, read_at, remaining, crc, f). remaining)") (auto simp: CFL_SCAN_CHUNK_BYTES_def)

declare cfl_fold_payload.simps [simp del]

definition cfl_verify_record_crc ::
  "'f iqspi_flash \<Rightarrow> nat \<Rightarrow> nat \<Rightarrow> cfl_record_hdr \<Rightarrow> 'f \<Rightarrow> cfl_err \<times> bool" where
  "cfl_verify_record_crc F sector offset hdr f =
     (let base = cfl_data_sector_addr sector + offset;
          crc = cfl_crc16_update 0 (cfl_hdr_bytes (hdr_magic hdr) (hdr_seq hdr) (hdr_len hdr));
          (err, crc) = cfl_fold_payload F (base + CFL_RECORD_HEADER_SZ) (hdr_len hdr) crc f
      in if err \<noteq> CFL_ERR_OK then (err, False)
         else
           let (err, stored) = cfl_flash_read F (base + CFL_RECORD_HEADER_SZ + hdr_len hdr) CFL_RECORD_CRC_SZ f
           in if err \<noteq> CFL_ERR_OK then (err, False) else (CFL_ERR_OK, cfl_get_u16 stored = crc))"

section \<open>Metadata zone\<close>

definition cfl_meta_bytes :: "u32 \<Rightarrow> nat \<Rightarrow> u8 list" where
  "cfl_meta_bytes seq head =
     (let body = cfl_put_u32 CFL_META_MAGIC @ cfl_put_u32 seq @ cfl_put_u32 (of_nat head)
      in body @ cfl_put_u32 (cfl_crc32 body))"

text \<open>One round of the slot loop of \<^verbatim>\<open>cfl_meta_load\<close>, on the bytes read.\<close>

definition cfl_meta_take :: "nat \<Rightarrow> u8 list \<Rightarrow> 'f cfl_inst \<Rightarrow> 'f cfl_inst" where
  "cfl_meta_take slot raw i =
     (if cfl_get_u32 raw \<noteq> CFL_META_MAGIC then i
      else if cfl_get_u32 (drop CFL_META_SLOT_BODY_SZ raw) \<noteq> cfl_crc32 (take CFL_META_SLOT_BODY_SZ raw) then i
      else
        let seq = cfl_get_u32 (drop 4 raw); head = unat (cfl_get_u32 (drop 8 raw))
        in if head \<ge> CFL_DATA_SECTOR_COUNT then i
           else if \<not> meta_slot_valid i \<or> seq > meta_seq_num i
           then i\<lparr>meta_slot_valid := True, meta_slot := slot, meta_seq_num := seq, head_sector := head\<rparr>
           else i)"

fun cfl_meta_scan :: "'f iqspi_flash \<Rightarrow> nat list \<Rightarrow> 'f cfl_inst \<Rightarrow> cfl_err \<times> 'f cfl_inst" where
  "cfl_meta_scan F [] i = (CFL_ERR_OK, i)"
| "cfl_meta_scan F (slot # rest) i =
     (let (err, raw) = cfl_flash_read F (cfl_meta_slot_addr slot) CFL_META_SLOT_SZ (cfl_dev i)
      in if err \<noteq> CFL_ERR_OK then (err, i) else cfl_meta_scan F rest (cfl_meta_take slot raw i))"

definition cfl_meta_load :: "'f iqspi_flash \<Rightarrow> 'f cfl_inst \<Rightarrow> cfl_err \<times> 'f cfl_inst" where
  "cfl_meta_load F i =
     cfl_meta_scan F [0..<CFL_META_SLOT_COUNT]
       (i\<lparr>head_sector := 0, head_offset := 0, meta_seq_num := 0, meta_slot := CFL_META_SLOT_COUNT - 1,
          meta_slot_valid := False\<rparr>)"

definition cfl_meta_store :: "'f iqspi_flash \<Rightarrow> 'f cfl_inst \<Rightarrow> cfl_err \<times> 'f cfl_inst" where
  "cfl_meta_store F i =
     (let slot = (meta_slot i + 1) mod CFL_META_SLOT_COUNT;
          seq = meta_seq_num i + 1;
          raw = cfl_meta_bytes seq (head_sector i);
          (err, f) = cfl_flash_erase F (cfl_meta_slot_addr slot) (cfl_dev i);
          i = i\<lparr>cfl_dev := f\<rparr>
      in if err \<noteq> CFL_ERR_OK then (err, i)
         else
           let (err, f) = cfl_flash_write F (cfl_meta_slot_addr slot) raw (cfl_dev i);
               i = i\<lparr>cfl_dev := f\<rparr>
           in if err \<noteq> CFL_ERR_OK then (err, i)
              else (CFL_ERR_OK, i\<lparr>meta_slot := slot, meta_seq_num := seq, meta_slot_valid := True\<rparr>))"

section \<open>Boot scan\<close>

text \<open>The record loop of \<^verbatim>\<open>cfl_scan_sector\<close>: records counted, payload bytes, end offset and the last
  sequence number.\<close>

function cfl_scan_from ::
  "'f iqspi_flash \<Rightarrow> nat \<Rightarrow> bool \<Rightarrow> 'f \<Rightarrow> nat \<Rightarrow> nat \<Rightarrow> nat \<Rightarrow> u32 \<Rightarrow> cfl_err \<times> nat \<times> nat \<times> nat \<times> u32"
where
  "cfl_scan_from F sector any_before f offset count bytes max_seq =
     (if cfl_room_for_record offset then
        let (err, hdr) = cfl_read_header F sector offset f
        in if err \<noteq> CFL_ERR_OK then (err, count, bytes, offset, max_seq)
           else if \<not> cfl_header_plausible hdr offset then (CFL_ERR_OK, count, bytes, offset, max_seq)
           else
             let (err, crc_ok) = cfl_verify_record_crc F sector offset hdr f
             in if err \<noteq> CFL_ERR_OK then (err, count, bytes, offset, max_seq)
                else if \<not> crc_ok then (CFL_ERR_OK, count, bytes, offset, max_seq)
                else if (any_before \<or> count > 0) \<and> hdr_seq hdr \<noteq> max_seq + 1
                then (CFL_ERR_OK, count, bytes, offset, max_seq)
                else cfl_scan_from F sector any_before f (offset + cfl_record_size (hdr_len hdr))
                       (count + 1) (bytes + hdr_len hdr) (hdr_seq hdr)
      else (CFL_ERR_OK, count, bytes, offset, max_seq))"
  by pat_completeness auto
termination
  by (relation "measure (\<lambda>(F, sector, any_before, f, offset, count, bytes, max_seq). 4096 - offset)")
     (auto simp: cfl_record_size_def cfl_room_for_record_def cfl_consts Let_def)

declare cfl_scan_from.simps [simp del]

definition cfl_scan_sector ::
  "'f iqspi_flash \<Rightarrow> nat \<Rightarrow> bool \<Rightarrow> u32 \<Rightarrow> 'f \<Rightarrow> cfl_err \<times> nat \<times> nat \<times> nat \<times> u32" where
  "cfl_scan_sector F sector any_before max_seq f = cfl_scan_from F sector any_before f 0 0 0 max_seq"

function cfl_region_clean :: "'f iqspi_flash \<Rightarrow> nat \<Rightarrow> nat \<Rightarrow> 'f \<Rightarrow> cfl_err \<times> bool" where
  "cfl_region_clean F addr remaining f =
     (if remaining > 0 then
        let n = (if remaining > CFL_SCAN_CHUNK_BYTES then CFL_SCAN_CHUNK_BYTES else remaining);
            (err, chunk) = cfl_flash_read F addr n f
        in if err \<noteq> CFL_ERR_OK then (err, True)
           else if list_ex (\<lambda>b. b \<noteq> 0xFF) chunk then (CFL_ERR_OK, False)
           else cfl_region_clean F (addr + n) (remaining - n) f
      else (CFL_ERR_OK, True))"
  by pat_completeness auto
termination
  by (relation "measure (\<lambda>(F, addr, remaining, f). remaining)") (auto simp: CFL_SCAN_CHUNK_BYTES_def)

declare cfl_region_clean.simps [simp del]

definition cfl_region_erased :: "'f iqspi_flash \<Rightarrow> nat \<Rightarrow> nat \<Rightarrow> 'f \<Rightarrow> cfl_err \<times> bool" where
  "cfl_region_erased F sector offset f =
     cfl_region_clean F (cfl_data_sector_addr sector + offset) (CFL_SECTOR_SIZE_BYTES - offset) f"

text \<open>The sector loop of \<^verbatim>\<open>cfl_boot_scan\<close>, with the instance, the last sequence number and whether a
  record was seen.\<close>

fun cfl_boot_loop ::
  "'f iqspi_flash \<Rightarrow> nat list \<Rightarrow> 'f cfl_inst \<Rightarrow> u32 \<Rightarrow> bool \<Rightarrow> cfl_err \<times> 'f cfl_inst \<times> u32 \<times> bool" where
  "cfl_boot_loop F [] i max_seq any_record = (CFL_ERR_OK, i, max_seq, any_record)"
| "cfl_boot_loop F (step # steps) i max_seq any_record =
     (let sector = (head_sector i + step) mod CFL_DATA_SECTOR_COUNT;
          (err, count, bytes, end_offset, max_seq) = cfl_scan_sector F sector any_record max_seq (cfl_dev i)
      in if err \<noteq> CFL_ERR_OK then (err, i, max_seq, any_record)
         else if count = 0
         then (CFL_ERR_OK, if \<not> any_record then i\<lparr>tail_sector := sector, tail_offset := 0\<rparr> else i, max_seq, any_record)
         else cfl_boot_loop F steps
                (i\<lparr>entry_count := entry_count i + count, byte_count := byte_count i + bytes,
                   tail_sector := sector, tail_offset := end_offset\<rparr>) max_seq True)"

definition cfl_boot_scan :: "'f iqspi_flash \<Rightarrow> 'f cfl_inst \<Rightarrow> cfl_err \<times> 'f cfl_inst" where
  "cfl_boot_scan F i =
     (let i = i\<lparr>entry_count := 0, byte_count := 0, tail_sector := head_sector i, tail_offset := 0\<rparr>;
          (err, i, max_seq, any_record) = cfl_boot_loop F [0..<CFL_DATA_SECTOR_COUNT] i 0 False
      in if err \<noteq> CFL_ERR_OK then (err, i)
         else
           let i = i\<lparr>next_seq_num := (if any_record then max_seq + 1 else 0)\<rparr>
           in if cfl_room_for_record (tail_offset i) then
                let (err, clean) = cfl_region_erased F (tail_sector i) (tail_offset i) (cfl_dev i)
                in if err \<noteq> CFL_ERR_OK then (err, i)
                   else (CFL_ERR_OK, if \<not> clean then i\<lparr>tail_offset := CFL_SECTOR_SIZE_BYTES\<rparr> else i)
              else (CFL_ERR_OK, i))"

section \<open>Public operations\<close>

text \<open>\<open>None\<close> is the NULL handle; the operations below take the instance a valid handle points to.\<close>

definition cfl_check_handle :: "'f cfl_inst option \<Rightarrow> cfl_err" where
  "cfl_check_handle h =
     (case h of None \<Rightarrow> CFL_ERR_NULL_PTR
      | Some i \<Rightarrow> if \<not> cfl_in_use i then CFL_ERR_NOT_INIT else CFL_ERR_OK)"

text \<open>\<open>g_count\<close> instances exist already; the flash belongs to the driver, \<open>health\<close> tells whether the
  HealthMonitor handle is set.\<close>

definition cfl_create ::
  "'f iqspi_flash option \<Rightarrow> bool \<Rightarrow> nat \<Rightarrow> 'f \<Rightarrow> cfl_err \<times> nat \<times> 'f cfl_inst option" where
  "cfl_create qspi health g_count f =
     (case qspi of None \<Rightarrow> (CFL_ERR_NULL_PTR, g_count, None)
      | Some F \<Rightarrow>
          if g_count \<ge> CFL_MAX_INSTANCES then (CFL_ERR_NO_RESOURCE, g_count, None)
          else
            let i = \<lparr>cfl_dev = f, cfl_health = health, cfl_events = [], head_sector = 0, head_offset = 0,
                     tail_sector = 0, tail_offset = 0, next_seq_num = 0, entry_count = 0, byte_count = 0,
                     meta_slot = 0, meta_seq_num = 0, meta_slot_valid = False, cfl_in_use = False\<rparr>;
                (err, i) = cfl_meta_load F i
            in if err \<noteq> CFL_ERR_OK then (err, g_count, None)
               else
                 let (err, i) = cfl_boot_scan F i
                 in if err \<noteq> CFL_ERR_OK then (err, g_count, None)
                    else (CFL_ERR_OK, g_count + 1, Some (i\<lparr>cfl_in_use := True\<rparr>)))"

text \<open>The move to the next sector inside \<^verbatim>\<open>cfl_append\<close>.\<close>

definition cfl_move_tail :: "'f iqspi_flash \<Rightarrow> bool \<Rightarrow> 'f cfl_inst \<Rightarrow> cfl_err \<times> 'f cfl_inst" where
  "cfl_move_tail F was_empty i =
     (let nxt = (tail_sector i + 1) mod CFL_DATA_SECTOR_COUNT
      in if nxt = head_sector i \<and> \<not> was_empty then (CFL_ERR_FULL, i)
         else
           let (err, f) = cfl_flash_erase F (cfl_data_sector_addr nxt) (cfl_dev i);
               i = i\<lparr>cfl_dev := f\<rparr>
           in if err \<noteq> CFL_ERR_OK then (err, cfl_report_flash_error i)
              else
                let i = i\<lparr>tail_sector := nxt, tail_offset := 0\<rparr>
                in if was_empty then
                     let previous_head = head_sector i;
                         i = i\<lparr>head_sector := tail_sector i, head_offset := 0\<rparr>
                     in if head_sector i \<noteq> previous_head then
                          let (err, i) = cfl_meta_store F i
                          in if err \<noteq> CFL_ERR_OK then (err, cfl_report_flash_error i) else (CFL_ERR_OK, i)
                        else (CFL_ERR_OK, i)
                   else (CFL_ERR_OK, i))"

text \<open>Payload, CRC, then header.\<close>

definition cfl_write_record :: "'f iqspi_flash \<Rightarrow> nat \<Rightarrow> u32 \<Rightarrow> u8 list \<Rightarrow> 'f \<Rightarrow> cfl_err \<times> 'f" where
  "cfl_write_record F base seq data f =
     (let raw_hdr = cfl_hdr_bytes CFL_MAGIC seq (length data);
          crc = cfl_crc16_update (cfl_crc16_update 0 raw_hdr) data;
          (err, f) = cfl_flash_write F (base + CFL_RECORD_HEADER_SZ) data f;
          (err, f) = (if err = CFL_ERR_OK
                      then cfl_flash_write F (base + CFL_RECORD_HEADER_SZ + length data) (cfl_put_u16 crc) f
                      else (err, f))
      in if err = CFL_ERR_OK then cfl_flash_write F base raw_hdr f else (err, f))"

definition cfl_append :: "'f iqspi_flash \<Rightarrow> u8 list option \<Rightarrow> 'f cfl_inst \<Rightarrow> cfl_err \<times> 'f cfl_inst" where
  "cfl_append F data i =
     (if cfl_check_handle (Some i) \<noteq> CFL_ERR_OK then (cfl_check_handle (Some i), i)
      else case data of None \<Rightarrow> (CFL_ERR_NULL_PTR, i)
      | Some d \<Rightarrow>
          if length d = 0 \<or> length d > CFL_MAX_RECORD_BYTES then (CFL_ERR_TOO_LARGE, i)
          else
            let size = cfl_record_size (length d);
                was_empty = (entry_count i = 0);
                (err, i) = (if tail_offset i + size > CFL_SECTOR_SIZE_BYTES then cfl_move_tail F was_empty i
                            else (CFL_ERR_OK, i))
            in if err \<noteq> CFL_ERR_OK then (err, i)
               else
                 let (err, f) = cfl_write_record F (cfl_data_sector_addr (tail_sector i) + tail_offset i)
                                  (next_seq_num i) d (cfl_dev i);
                     i = i\<lparr>cfl_dev := f\<rparr>
                 in if err \<noteq> CFL_ERR_OK
                    then (err, cfl_report_flash_error (i\<lparr>tail_offset := CFL_SECTOR_SIZE_BYTES\<rparr>))
                    else (CFL_ERR_OK,
                          i\<lparr>tail_offset := tail_offset i + size, next_seq_num := next_seq_num i + 1,
                            entry_count := entry_count i + 1, byte_count := byte_count i + length d\<rparr>))"

text \<open>\<open>Inl (CFL_ERR_TOO_LARGE, Some n)\<close>: the caller's buffer is smaller than the record's \<open>n\<close> bytes.\<close>

definition cfl_peek_oldest ::
  "'f iqspi_flash \<Rightarrow> nat \<Rightarrow> 'f cfl_inst \<Rightarrow> cfl_err \<times> nat option + u8 list" where
  "cfl_peek_oldest F max_len i =
     (if cfl_check_handle (Some i) \<noteq> CFL_ERR_OK then Inl (cfl_check_handle (Some i), None)
      else if entry_count i = 0 then Inl (CFL_ERR_EMPTY, None)
      else
        let (err, hdr) = cfl_read_header F (head_sector i) (head_offset i) (cfl_dev i)
        in if err \<noteq> CFL_ERR_OK then Inl (err, None)
           else if \<not> cfl_header_plausible hdr (head_offset i) then Inl (CFL_ERR_CORRUPT, None)
           else if hdr_len hdr > max_len then Inl (CFL_ERR_TOO_LARGE, Some (hdr_len hdr))
           else
             let base = cfl_data_sector_addr (head_sector i) + head_offset i;
                 (err, data) = cfl_flash_read F (base + CFL_RECORD_HEADER_SZ) (hdr_len hdr) (cfl_dev i)
             in if err \<noteq> CFL_ERR_OK then Inl (err, None)
                else
                  let crc = cfl_crc16_update 0 (cfl_hdr_bytes (hdr_magic hdr) (hdr_seq hdr) (hdr_len hdr));
                      crc = cfl_crc16_update crc data;
                      (err, stored) = cfl_flash_read F (base + CFL_RECORD_HEADER_SZ + hdr_len hdr)
                                        CFL_RECORD_CRC_SZ (cfl_dev i)
                  in if err \<noteq> CFL_ERR_OK then Inl (err, None)
                     else if cfl_get_u16 stored \<noteq> crc then Inl (CFL_ERR_CORRUPT, None)
                     else Inr data)"

definition cfl_advance_head :: "'f iqspi_flash \<Rightarrow> nat \<Rightarrow> nat \<Rightarrow> 'f cfl_inst \<Rightarrow> cfl_err \<times> 'f cfl_inst" where
  "cfl_advance_head F sz payload_len i =
     (let previous_sector = head_sector i;
          i = i\<lparr>head_offset := head_offset i + sz, entry_count := entry_count i - 1,
                byte_count := byte_count i - payload_len\<rparr>;
          (err, i) =
            (if entry_count i = 0
             then (CFL_ERR_OK, i\<lparr>head_sector := tail_sector i, head_offset := tail_offset i\<rparr>)
             else
               let (err, more_here) =
                     (if cfl_room_for_record (head_offset i) \<and>
                         \<not> (head_sector i = tail_sector i \<and> head_offset i \<ge> tail_offset i)
                      then case cfl_read_header F (head_sector i) (head_offset i) (cfl_dev i) of
                             (err, hdr) \<Rightarrow> (err, cfl_header_plausible hdr (head_offset i))
                      else (CFL_ERR_OK, False))
               in if err \<noteq> CFL_ERR_OK then (err, i)
                  else if \<not> more_here
                  then (CFL_ERR_OK, i\<lparr>head_sector := (head_sector i + 1) mod CFL_DATA_SECTOR_COUNT, head_offset := 0\<rparr>)
                  else (CFL_ERR_OK, i))
      in if err \<noteq> CFL_ERR_OK then (err, i)
         else if head_sector i \<noteq> previous_sector then cfl_meta_store F i
         else (CFL_ERR_OK, i))"

definition cfl_consume_oldest :: "'f iqspi_flash \<Rightarrow> 'f cfl_inst \<Rightarrow> cfl_err \<times> 'f cfl_inst" where
  "cfl_consume_oldest F i =
     (if cfl_check_handle (Some i) \<noteq> CFL_ERR_OK then (cfl_check_handle (Some i), i)
      else if entry_count i = 0 then (CFL_ERR_EMPTY, i)
      else
        let (err, hdr) = cfl_read_header F (head_sector i) (head_offset i) (cfl_dev i)
        in if err \<noteq> CFL_ERR_OK then (err, i)
           else
             let (sz, payload) =
               (if cfl_header_plausible hdr (head_offset i)
                then (cfl_record_size (hdr_len hdr),
                      if hdr_len hdr \<le> byte_count i then hdr_len hdr else byte_count i)
                else (CFL_MIN_RECORD_BYTES, 0))
             in cfl_advance_head F sz payload i)"

definition cfl_drop_oldest :: "'f iqspi_flash \<Rightarrow> 'f cfl_inst \<Rightarrow> cfl_err \<times> 'f cfl_inst" where
  "cfl_drop_oldest F i =
     (let (err, i) = cfl_consume_oldest F i
      in (err, if err = CFL_ERR_OK then cfl_report_overflow i else i))"

definition cfl_is_empty :: "'f cfl_inst \<Rightarrow> cfl_err \<times> bool option" where
  "cfl_is_empty i =
     (if cfl_check_handle (Some i) \<noteq> CFL_ERR_OK then (cfl_check_handle (Some i), None)
      else (CFL_ERR_OK, Some (entry_count i = 0)))"

definition cfl_get_occupancy :: "'f cfl_inst \<Rightarrow> cfl_err \<times> (nat \<times> nat) option" where
  "cfl_get_occupancy i =
     (if cfl_check_handle (Some i) \<noteq> CFL_ERR_OK then (cfl_check_handle (Some i), None)
      else (CFL_ERR_OK, Some (entry_count i, byte_count i)))"

end
