(* ===== verification/Flash_Log_Queue.thy ===== *)
theory Flash_Log_Queue
  imports Flash_Log
begin

text \<open>
  The flash log is a queue of records.  \<open>log_inv\<close> relates an instance and the memory it works on to
  the records it holds, grouped by sector, and to the records already consumed in the head sector.
\<close>

section \<open>Sizes and addresses\<close>

lemma record_size_bounds:
  "0 < n \<Longrightarrow> 16 \<le> cfl_record_size n" "n + 14 \<le> cfl_record_size n" "cfl_record_size n \<le> n + 17"
  "n \<le> CFL_MAX_RECORD_BYTES \<Longrightarrow> cfl_record_size n \<le> 4092"
proof -
  have e: "cfl_record_size n = 4 * ((n + 17) div 4)"
    by (simp add: cfl_record_size_def cfl_consts Let_def minus_mod_eq_mult_div add.commute)
  show "0 < n \<Longrightarrow> 16 \<le> cfl_record_size n" "n + 14 \<le> cfl_record_size n" "cfl_record_size n \<le> n + 17"
    "n \<le> CFL_MAX_RECORD_BYTES \<Longrightarrow> cfl_record_size n \<le> 4092"
    unfolding e CFL_MAX_RECORD_BYTES_def by presburger+
qed

definition nxt :: "nat \<Rightarrow> nat" where "nxt s = (s + 1) mod CFL_DATA_SECTOR_COUNT"

abbreviation sec :: "nat \<Rightarrow> nat" where "sec \<equiv> cfl_data_sector_addr"

lemma sec_eq: "sec s = 0x22000 + s * 4096"
  by (simp add: cfl_data_sector_addr_def cfl_consts algebra_simps)

lemma nxt_less [simp]: "nxt s < 254"
  by (simp add: nxt_def CFL_DATA_SECTOR_COUNT_def)

lemma sec_bound: "s < 254 \<Longrightarrow> sec s + 4096 \<le> 2 ^ 23"
  by (simp add: sec_eq)

lemma sec_disjoint: "s \<noteq> t \<Longrightarrow> x < sec t + 4096 \<Longrightarrow> sec t \<le> x \<Longrightarrow> x < sec s \<or> sec s + 4096 \<le> x"
  by (cases "s < t") (auto simp: sec_eq)

section \<open>Records in memory\<close>

type_synonym log_rec = "u32 \<times> u8 list"

definition rec_hdr :: "log_rec \<Rightarrow> u8 list" where
  "rec_hdr r = cfl_hdr_bytes CFL_MAGIC (fst r) (length (snd r))"

definition rec_crc :: "log_rec \<Rightarrow> u16" where
  "rec_crc r = cfl_crc16_update (cfl_crc16_update 0 (rec_hdr r)) (snd r)"

definition rsize :: "log_rec \<Rightarrow> nat" where "rsize r = cfl_record_size (length (snd r))"
definition rsizes :: "log_rec list \<Rightarrow> nat" where "rsizes rs = sum_list (map rsize rs)"

definition rec_ok :: "log_rec \<Rightarrow> bool" where
  "rec_ok r \<longleftrightarrow> 0 < length (snd r) \<and> length (snd r) \<le> CFL_MAX_RECORD_BYTES"

definition stored :: "(nat \<Rightarrow> u8) \<Rightarrow> nat \<Rightarrow> nat \<Rightarrow> log_rec \<Rightarrow> bool" where
  "stored v s off r \<longleftrightarrow> rec_ok r \<and> off + rsize r \<le> 4096 \<and> bytes_at v (sec s + off) 12 = rec_hdr r \<and>
     bytes_at v (sec s + off + 12) (length (snd r)) = snd r \<and>
     bytes_at v (sec s + off + 12 + length (snd r)) 2 = cfl_put_u16 (rec_crc r)"

definition hdr_at :: "(nat \<Rightarrow> u8) \<Rightarrow> nat \<Rightarrow> nat \<Rightarrow> cfl_record_hdr" where
  "hdr_at v s off = cfl_hdr_of (bytes_at v (sec s + off) 12)"

definition no_record :: "(nat \<Rightarrow> u8) \<Rightarrow> nat \<Rightarrow> nat \<Rightarrow> bool" where
  "no_record v s off \<longleftrightarrow> \<not> (cfl_room_for_record off \<and> cfl_header_plausible (hdr_at v s off) off)"

fun run :: "(nat \<Rightarrow> u8) \<Rightarrow> nat \<Rightarrow> nat \<Rightarrow> log_rec list \<Rightarrow> bool" where
  "run v s off [] = True"
| "run v s off (r # rs) = (stored v s off r \<and> run v s (off + rsize r) rs)"

text \<open>Groups of records in consecutive sectors of the ring.\<close>

fun ring :: "(nat \<Rightarrow> u8) \<Rightarrow> nat \<Rightarrow> nat \<Rightarrow> log_rec list list \<Rightarrow> bool" where
  "ring v s off [] = True"
| "ring v s off (g # gs) = (g \<noteq> [] \<and> run v s off g \<and> (gs \<noteq> [] \<longrightarrow> no_record v s (off + rsizes g)) \<and>
     ring v (nxt s) 0 gs)"

fun ring_end :: "nat \<Rightarrow> log_rec list list \<Rightarrow> nat" where
  "ring_end off [] = off"
| "ring_end off [g] = off + rsizes g"
| "ring_end off (g # gs) = ring_end 0 gs"

definition nth_sec :: "nat \<Rightarrow> nat \<Rightarrow> nat" where
  "nth_sec s j = (s + j) mod CFL_DATA_SECTOR_COUNT"

lemma nth_sec_simps: "s < 254 \<Longrightarrow> nth_sec s 0 = s" "nth_sec (nxt s) j = nth_sec s (Suc j)"
  "nxt (nth_sec s j) = nth_sec s (Suc j)"
  by (simp_all add: nth_sec_def nxt_def CFL_DATA_SECTOR_COUNT_def mod_simps)

lemma nth_sec_less [simp]: "nth_sec s j < 254"
  by (simp add: nth_sec_def CFL_DATA_SECTOR_COUNT_def)

lemma nth_sec_inj:
  assumes "nth_sec s i = nth_sec s j" "i < 254" "j < 254"
  shows "i = j"
proof -
  have e: "(s + i) mod 254 = (s + j) mod 254" using assms(1) by (simp add: nth_sec_def CFL_DATA_SECTOR_COUNT_def)
  have "\<not> a < b" if "(s + a) mod 254 = (s + b) mod 254" "b < 254" for a b
  proof
    assume "a < b"
    then have "254 dvd b - a" using that(1) mod_eq_dvd_iff_nat [of "s + a" "s + b" 254] by simp
    then show False using \<open>a < b\<close> that(2) by (auto dest: dvd_imp_le)
  qed
  from this [OF e assms(3)] this [OF e [symmetric] assms(2)] show ?thesis by simp
qed

lemma rsizes_simps [simp]: "rsizes [] = 0" "rsizes (r # rs) = rsize r + rsizes rs" "rsizes (rs @ qs) = rsizes rs + rsizes qs"
  by (simp_all add: rsizes_def)

lemma rsize_bounds: "rec_ok r \<Longrightarrow> 16 \<le> rsize r" "14 + length (snd r) \<le> rsize r" "rec_ok r \<Longrightarrow> rsize r \<le> 4092"
  using record_size_bounds [of "length (snd r)"] by (auto simp: rsize_def rec_ok_def)

lemma stored_bounds: "stored v s off r \<Longrightarrow> rec_ok r \<and> off + rsize r \<le> 4096 \<and> off + 16 \<le> 4096"
  using rsize_bounds(1) [of r] by (auto simp: stored_def)

lemma stored_cong:
  assumes "\<And>x. sec s + off \<le> x \<Longrightarrow> x < sec s + off + rsize r \<Longrightarrow> v' x = v x"
  shows "stored v' s off r = stored v s off r"
proof -
  have "bytes_at v' (sec s + off + k) n = bytes_at v (sec s + off + k) n" if "k + n \<le> rsize r" for k n
    using assms that by (intro bytes_at_cong) auto
  from this [of 0 12] this [of 12 "length (snd r)"] this [of "12 + length (snd r)" 2] rsize_bounds(2) [of r]
  show ?thesis by (simp add: stored_def add.assoc)
qed

lemma run_cong:
  assumes "\<And>x. sec s + off \<le> x \<Longrightarrow> x < sec s + off + rsizes g \<Longrightarrow> v' x = v x"
  shows "run v' s off g = run v s off g"
  using assms
proof (induction g arbitrary: off)
  case (Cons r g)
  have "stored v' s off r = stored v s off r" using Cons.prems by (intro stored_cong) auto
  moreover have "run v' s (off + rsize r) g = run v s (off + rsize r) g" using Cons.prems by (intro Cons.IH) auto
  ultimately show ?case by simp
qed simp

lemma no_record_cong:
  assumes "\<And>x. sec s + off \<le> x \<Longrightarrow> x < sec s + 4096 \<Longrightarrow> v' x = v x"
  shows "no_record v' s off = no_record v s off"
proof (cases "cfl_room_for_record off")
  case True
  then have "bytes_at v' (sec s + off) 12 = bytes_at v (sec s + off) 12"
    using assms by (intro bytes_at_cong) (auto simp: cfl_room_for_record_def cfl_consts)
  then show ?thesis by (simp add: no_record_def hdr_at_def)
qed (simp add: no_record_def)

lemma run_append: "run v s off (g @ h) \<longleftrightarrow> run v s off g \<and> run v s (off + rsizes g) h"
  by (induction g arbitrary: off) (auto simp: add.assoc)

lemma run_end: "run v s off g \<Longrightarrow> off \<le> 4096 \<Longrightarrow> off + rsizes g \<le> 4096"
proof (induction g arbitrary: off)
  case (Cons r g)
  then have "off + rsize r \<le> 4096" by (auto dest: stored_bounds)
  with Cons.prems Cons.IH [of "off + rsize r"] show ?case by (simp add: add.assoc)
qed simp

lemma ring_end_Cons: "gs \<noteq> [] \<Longrightarrow> ring_end off (g # gs) = ring_end 0 gs"
  by (cases gs) simp_all

lemma ring_cong:
  assumes "s < 254"
    and "\<And>j x. j < length gs \<Longrightarrow> sec (nth_sec s j) \<le> x \<Longrightarrow>
      x < sec (nth_sec s j) + (if Suc j = length gs then ring_end off gs else 4096) \<Longrightarrow> v' x = v x"
    and "ring v s off gs" "off \<le> 4096"
  shows "ring v' s off gs"
  using assms
proof (induction gs arbitrary: s off)
  case (Cons g gs)
  have 0: "v' x = v x" if "sec s \<le> x" "x < sec s + (if gs = [] then off + rsizes g else 4096)" for x
    using Cons.prems(1) Cons.prems(2) [of 0 x] that by (cases "gs = []") (auto simp: nth_sec_simps ring_end_Cons)
  have e: "off + rsizes g \<le> 4096" using Cons.prems(3,4) run_end [of v s off g] by simp
  have "run v' s off g = run v s off g"
    using 0 e by (intro run_cong) (auto split: if_splits)
  moreover have "no_record v' s (off + rsizes g) = no_record v s (off + rsizes g)" if "gs \<noteq> []"
    using 0 that by (intro no_record_cong) auto
  moreover have "ring v' (nxt s) 0 gs"
  proof (rule Cons.IH)
    fix j x
    assume "j < length gs" "sec (nth_sec (nxt s) j) \<le> x"
      "x < sec (nth_sec (nxt s) j) + (if Suc j = length gs then ring_end 0 gs else 4096)"
    moreover from this have "gs \<noteq> []" by auto
    ultimately show "v' x = v x"
      using Cons.prems(2) [of "Suc j" x] by (auto simp: nth_sec_simps ring_end_Cons split: if_splits)
  qed (use Cons.prems in auto)
  ultimately show ?case using Cons.prems(3) by auto
qed simp

text \<open>Appending a record to the last group, or as a new group.\<close>

lemma ring_snoc_same:
  assumes "s < 254" "gs \<noteq> []" "ring v s off gs" "stored v (nth_sec s (length gs - 1)) (ring_end off gs) r"
  shows "ring v s off (butlast gs @ [last gs @ [r]])"
  using assms
proof (induction gs arbitrary: s off)
  case (Cons g gs)
  show ?case
  proof (cases "gs = []")
    case True
    then show ?thesis using Cons.prems by (simp add: run_append nth_sec_simps)
  next
    case False
    then have "nth_sec s (length (g # gs) - 1) = nth_sec (nxt s) (length gs - 1)"
      by (simp add: nth_sec_simps)
    then have "ring v (nxt s) 0 (butlast gs @ [last gs @ [r]])"
      using Cons.prems False by (intro Cons.IH) (auto simp: ring_end_Cons)
    then show ?thesis using Cons.prems(3) False by simp
  qed
qed simp

lemma ring_snoc_new:
  assumes "s < 254" "gs \<noteq> []" "ring v s off gs" "no_record v (nth_sec s (length gs - 1)) (ring_end off gs)"
    and "stored v (nth_sec s (length gs)) 0 r"
  shows "ring v s off (gs @ [[r]])"
  using assms
proof (induction gs arbitrary: s off)
  case (Cons g gs)
  show ?case
  proof (cases "gs = []")
    case True
    then show ?thesis using Cons.prems by (simp add: nth_sec_simps(1)) (simp add: nth_sec_def nxt_def)
  next
    case False
    then have "nth_sec s (length (g # gs) - 1) = nth_sec (nxt s) (length gs - 1)"
      "nth_sec s (length (g # gs)) = nth_sec (nxt s) (length gs)"
      by (simp_all add: nth_sec_simps)
    then have "ring v (nxt s) 0 (gs @ [[r]])"
      using Cons.prems False by (intro Cons.IH) (auto simp: ring_end_Cons)
    then show ?thesis using Cons.prems(3) False by simp
  qed
qed simp

text \<open>A header of erased bytes is no record.\<close>

lemma erased_no_record:
  assumes "\<And>x. sec s + off \<le> x \<Longrightarrow> x < sec s + 4096 \<Longrightarrow> v x = 0xFF"
  shows "no_record v s off"
proof (cases "cfl_room_for_record off")
  case True
  then have b: "bytes_at v (sec s + off) 12 = replicate 12 0xFF"
    using assms by (intro bytes_at_eqI) (auto simp: cfl_room_for_record_def cfl_consts)
  have "replicate 12 y = [y, y, y, y] @ replicate 8 y" for y :: u8 by (simp add: numeral_eq_Suc)
  moreover have "[0xFF, 0xFF, 0xFF, 0xFF] = cfl_put_u32 0xFFFFFFFF" by (simp add: cfl_put_u32_def)
  ultimately have "replicate 12 0xFF = cfl_put_u32 0xFFFFFFFF @ replicate 8 0xFF" by metis
  then have "hdr_magic (hdr_at v s off) = 0xFFFFFFFF" by (simp add: hdr_at_def b cfl_hdr_of_def)
  then show ?thesis by (simp add: no_record_def cfl_header_plausible_def CFL_MAGIC_def)
qed (simp add: no_record_def)

lemma unat_len: "n \<le> CFL_MAX_RECORD_BYTES \<Longrightarrow> unat (of_nat n :: u32) = n"
  by (simp add: unat_of_nat CFL_MAX_RECORD_BYTES_def)

lemma hdr_of_bytes: "n \<le> CFL_MAX_RECORD_BYTES \<Longrightarrow>
  cfl_hdr_of (cfl_hdr_bytes m q n) = \<lparr>hdr_magic = m, hdr_seq = q, hdr_len = n\<rparr>"
  by (simp add: cfl_hdr_of_def cfl_hdr_bytes_def unat_len)

lemma stored_hdr:
  assumes "stored v s off r"
  shows "hdr_at v s off = \<lparr>hdr_magic = CFL_MAGIC, hdr_seq = fst r, hdr_len = length (snd r)\<rparr>"
    "cfl_header_plausible (hdr_at v s off) off" "cfl_room_for_record off"
proof -
  show 1: "hdr_at v s off = \<lparr>hdr_magic = CFL_MAGIC, hdr_seq = fst r, hdr_len = length (snd r)\<rparr>"
    using assms by (simp add: hdr_at_def stored_def rec_hdr_def rec_ok_def hdr_of_bytes)
  show "cfl_header_plausible (hdr_at v s off) off" "cfl_room_for_record off"
    using assms stored_bounds [OF assms]
    by (auto simp: 1 cfl_header_plausible_def cfl_room_for_record_def stored_def rec_ok_def rsize_def cfl_consts)
qed

section \<open>The flash operations\<close>

lemma flash_write_from_eq:
  assumes "w \<le> length d"
  shows "cfl_flash_write_from F a d w f =
    (case cs_flash_write_bytes F (a + w) (drop w d) f of (err, f') \<Rightarrow>
       (if err = QSPI_FLASH_OK then CFL_ERR_OK else CFL_ERR_FLASH_WRITE, f'))"
  using assms
proof (induction "length d - w" arbitrary: w f rule: less_induct)
  case less
  show ?case
  proof (cases "w < length d")
    case True
    define c where "c = (if length d - w < 256 - (a + w) mod 256 then length d - w else 256 - (a + w) mod 256)"
    have c: "(if length d - w > 256 - (a + w) mod 256 then 256 - (a + w) mod 256 else length d - w) = c"
      "(if length (drop w d) < 256 - (a + w) mod 256 then length (drop w d) else 256 - (a + w) mod 256) = c"
      by (auto simp: c_def)
    have cb: "0 < c" "w + c \<le> length d" using True page_space [of "a + w"] by (auto simp: c_def)
    obtain err f' where w: "fl_write_page F (a + w) (take c (drop w d)) f = (err, f')" by fastforce
    have ne: "(drop w d = []) = False" using True by simp
    have "cfl_flash_write_from F a d (w + c) f' =
        (case cs_flash_write_bytes F (a + (w + c)) (drop (w + c) d) f' of (err, f') \<Rightarrow>
           (if err = QSPI_FLASH_OK then CFL_ERR_OK else CFL_ERR_FLASH_WRITE, f'))"
      using cb True by (intro less.hyps) auto
    moreover have "cfl_flash_write_from F a d w f =
        (if err \<noteq> QSPI_FLASH_OK then (CFL_ERR_FLASH_WRITE, f') else cfl_flash_write_from F a d (w + c) f')"
      by (subst cfl_flash_write_from.simps) (simp only: True Let_def c w if_True prod.case)
    moreover have "cs_flash_write_bytes F (a + w) (drop w d) f =
        (if err \<noteq> QSPI_FLASH_OK then (err, f') else cs_flash_write_bytes F (a + w + c) (drop c (drop w d)) f')"
      by (subst cs_flash_write_bytes.simps) (simp only: ne Let_def c w if_False prod.case)
    ultimately show ?thesis by (simp add: add.assoc add.commute [of c w])
  qed (simp add: cfl_flash_write_from.simps cs_flash_write_bytes.simps)
qed

lemma flash_write_eq:
  "cfl_flash_write F a d f =
    (case cs_flash_write_bytes F a d f of (err, f') \<Rightarrow>
       (if err = QSPI_FLASH_OK then CFL_ERR_OK else CFL_ERR_FLASH_WRITE, f'))"
  using flash_write_from_eq [of 0 d F a f] by (simp add: cfl_flash_write_def)

context nor_flash
begin

lemma cfl_read:
  assumes "usable f" "0 < n" "a + n \<le> 2 ^ 23"
  shows "cfl_flash_read F a n f = (CFL_ERR_OK, bytes_at (view f) a n)"
  using read_value [OF assms] by (simp add: cfl_flash_read_def bytes_at_def)

lemma cfl_sec_read:
  assumes "usable f" "0 < n" "s < 254" "off + n \<le> 4096"
  shows "cfl_flash_read F (sec s + off) n f = (CFL_ERR_OK, bytes_at (view f) (sec s + off) n)"
  using assms sec_bound [of s] by (intro cfl_read) auto

lemma read_hdr:
  assumes "usable f" "s < 254" "off + 12 \<le> 4096"
  shows "cfl_read_header F s off f = (CFL_ERR_OK, hdr_at (view f) s off)"
  using cfl_sec_read [OF assms(1) _ assms(2), of 12 off] assms(3)
  by (simp add: cfl_read_header_def hdr_at_def CFL_RECORD_HEADER_SZ_def)

lemma cfl_write_usable: "usable f \<Longrightarrow> usable (snd (cfl_flash_write F a d f))"
  using write_bytes_usable [of f a d] by (simp add: flash_write_eq split_def)

lemma cfl_write_outside:
  "x < a \<or> a + length d \<le> x \<Longrightarrow> view (snd (cfl_flash_write F a d f)) x = view f x"
  using write_bytes_outside [of x a d f] by (simp add: flash_write_eq split_def)

lemma cfl_write_erased:
  assumes "fst (cfl_flash_write F a d f) = CFL_ERR_OK"
    and "\<And>x. a \<le> x \<Longrightarrow> x < a + length d \<Longrightarrow> view f x = 0xFF"
  shows "bytes_at (view (snd (cfl_flash_write F a d f))) a (length d) = d"
  using write_erased [of a d f "snd (cfl_flash_write F a d f)"] assms
  by (auto simp: flash_write_eq split_def prod_eq_iff split: if_splits)

lemma cfl_erase_usable: "usable f \<Longrightarrow> usable (snd (cfl_flash_erase F a f))"
  using erase_usable [of f a] by (simp add: cfl_flash_erase_def split_def)

lemma cfl_erase_outside:
  "a mod 4096 = 0 \<Longrightarrow> x < a \<or> a + 4096 \<le> x \<Longrightarrow> view (snd (cfl_flash_erase F a f)) x = view f x"
  using erase_outside [of x a f] sector_base_aligned [of a] by (simp add: cfl_flash_erase_def split_def)

lemma cfl_erase_inside:
  "a mod 4096 = 0 \<Longrightarrow> fst (cfl_flash_erase F a f) = CFL_ERR_OK \<Longrightarrow> a \<le> x \<Longrightarrow> x < a + 4096 \<Longrightarrow>
   view (snd (cfl_flash_erase F a f)) x = 0xFF"
  using erase_inside [of a f x] sector_base_aligned [of a] by (simp add: cfl_flash_erase_def split_def split: if_splits)

text \<open>Writing one record.\<close>

lemma write_record:
  assumes w: "cfl_write_record F base q d f = (err, f')"
  shows "usable f \<Longrightarrow> usable f'"
    and "x < base \<or> base + 14 + length d \<le> x \<Longrightarrow> view f' x = view f x"
    and "err = CFL_ERR_OK \<Longrightarrow> (\<And>x. base \<le> x \<Longrightarrow> x < base + 14 + length d \<Longrightarrow> view f x = 0xFF) \<Longrightarrow>
      bytes_at (view f') base 12 = rec_hdr (q, d) \<and> bytes_at (view f') (base + 12) (length d) = d \<and>
      bytes_at (view f') (base + 12 + length d) 2 = cfl_put_u16 (rec_crc (q, d))"
proof -
  let ?c = "cfl_put_u16 (rec_crc (q, d))"
  have lh: "length (rec_hdr (q, d)) = 12" by (simp add: rec_hdr_def cfl_hdr_bytes_def)
  obtain e1 f1 where 1: "cfl_flash_write F (base + 12) d f = (e1, f1)" by fastforce
  obtain e2 f2 where 2: "cfl_flash_write F (base + 12 + length d) ?c f1 = (e2, f2)" by fastforce
  obtain e3 f3 where 3: "cfl_flash_write F base (rec_hdr (q, d)) f2 = (e3, f3)" by fastforce
  have r: "(err, f') = (if e1 \<noteq> CFL_ERR_OK then (e1, f1) else if e2 \<noteq> CFL_ERR_OK then (e2, f2) else (e3, f3))"
    using w 1 2 3 by (auto simp: cfl_write_record_def rec_hdr_def rec_crc_def CFL_RECORD_HEADER_SZ_def Let_def split: if_splits)
  show "usable f'" if "usable f"
    using that r cfl_write_usable [of f "base + 12" d] cfl_write_usable [of f1 "base + 12 + length d" ?c]
      cfl_write_usable [of f2 base "rec_hdr (q, d)"] by (auto simp: 1 2 3 split: if_splits)
  have o1: "view f1 x = view f x" if "x < base + 12 \<or> base + 12 + length d \<le> x" for x
    using cfl_write_outside [of x "base + 12" d f] that by (simp add: 1)
  have o2: "view f2 x = view f1 x" if "x < base + 12 + length d \<or> base + 14 + length d \<le> x" for x
    using cfl_write_outside [of x "base + 12 + length d" ?c f1] that by (auto simp: 2)
  have o3: "view f3 x = view f2 x" if "x < base \<or> base + 12 \<le> x" for x
    using cfl_write_outside [of x base "rec_hdr (q, d)" f2] that by (simp add: 3 lh)
  show "view f' x = view f x" if "x < base \<or> base + 14 + length d \<le> x"
    using that r o1 o2 o3 by (auto split: if_splits)
  show "bytes_at (view f') base 12 = rec_hdr (q, d) \<and> bytes_at (view f') (base + 12) (length d) = d \<and>
      bytes_at (view f') (base + 12 + length d) 2 = ?c"
    if "err = CFL_ERR_OK" and ff: "\<And>x. base \<le> x \<Longrightarrow> x < base + 14 + length d \<Longrightarrow> view f x = 0xFF"
  proof -
    have e: "e1 = CFL_ERR_OK" "e2 = CFL_ERR_OK" "e3 = CFL_ERR_OK" "f' = f3"
      using r that(1) by (auto split: if_splits)
    have "bytes_at (view f1) (base + 12) (length d) = d"
      using cfl_write_erased [of "base + 12" d f] ff by (simp add: 1 e)
    moreover have "bytes_at (view f2) (base + 12 + length d) (length ?c) = ?c"
      using cfl_write_erased [of "base + 12 + length d" ?c f1] ff o1 by (simp add: 2 e)
    moreover have "bytes_at (view f3) base (length (rec_hdr (q, d))) = rec_hdr (q, d)"
      using cfl_write_erased [of base "rec_hdr (q, d)" f2] ff o1 o2 by (simp add: 3 e lh)
    moreover have "bytes_at (view f3) (base + 12) (length d) = bytes_at (view f1) (base + 12) (length d)"
      "bytes_at (view f3) (base + 12 + length d) 2 = bytes_at (view f2) (base + 12 + length d) 2"
      using o2 o3 by (auto intro!: bytes_at_cong)
    ultimately show ?thesis by (simp add: e lh)
  qed
qed

text \<open>Storing the head sector changes the metadata slots only.\<close>

lemma meta_addr: "cfl_meta_slot_addr k mod 4096 = 0" "k < 2 \<Longrightarrow> cfl_meta_slot_addr k + 4096 \<le> sec s"
  by (simp_all add: cfl_meta_slot_addr_def sec_eq cfl_consts)

lemma length_meta_bytes [simp]: "length (cfl_meta_bytes q n) = 16"
  by (simp add: cfl_meta_bytes_def Let_def)

lemma meta_store:
  assumes "cfl_meta_store F i = (err, i')"
  shows "usable (cfl_dev i) \<Longrightarrow> usable (cfl_dev i')"
    and "sec s \<le> x \<Longrightarrow> view (cfl_dev i') x = view (cfl_dev i) x"
    and "i' = i\<lparr>cfl_dev := cfl_dev i', meta_slot := meta_slot i', meta_seq_num := meta_seq_num i',
               meta_slot_valid := meta_slot_valid i'\<rparr>"
proof -
  define k where "k = (meta_slot i + 1) mod 2"
  let ?a = "cfl_meta_slot_addr k"
  let ?raw = "cfl_meta_bytes (meta_seq_num i + 1) (head_sector i)"
  obtain e1 f1 where 1: "cfl_flash_erase F ?a (cfl_dev i) = (e1, f1)" by fastforce
  obtain e2 f2 where 2: "cfl_flash_write F ?a ?raw f1 = (e2, f2)" by fastforce
  have r: "(err, i') = (if e1 \<noteq> CFL_ERR_OK then (e1, i\<lparr>cfl_dev := f1\<rparr>) else if e2 \<noteq> CFL_ERR_OK then (e2, i\<lparr>cfl_dev := f2\<rparr>)
      else (CFL_ERR_OK, i\<lparr>cfl_dev := f2, meta_slot := k, meta_seq_num := meta_seq_num i + 1, meta_slot_valid := True\<rparr>))"
    using assms 1 2 unfolding cfl_meta_store_def CFL_META_SLOT_COUNT_def k_def [symmetric] by (auto simp: Let_def)
  show "usable (cfl_dev i')" if "usable (cfl_dev i)"
    using that r cfl_erase_usable [of "cfl_dev i" ?a] cfl_write_usable [of f1 ?a ?raw] by (auto simp: 1 2 split: if_splits)
  have "k < 2" by (simp add: k_def)
  then have b: "?a + 4096 \<le> sec s" by (rule meta_addr(2))
  show "view (cfl_dev i') x = view (cfl_dev i) x" if "sec s \<le> x"
    using r that b cfl_erase_outside [OF meta_addr(1), of x k "cfl_dev i"] cfl_write_outside [of x ?a ?raw f1]
    by (auto simp: 1 2 split: if_splits)
  show "i' = i\<lparr>cfl_dev := cfl_dev i', meta_slot := meta_slot i', meta_seq_num := meta_seq_num i',
               meta_slot_valid := meta_slot_valid i'\<rparr>"
    using r by (auto split: if_splits)
qed

end

section \<open>The invariant\<close>

text \<open>Consecutive sequence numbers from \<open>a\<close> up to \<open>b\<close>.\<close>

fun consec :: "u32 \<Rightarrow> log_rec list \<Rightarrow> u32 \<Rightarrow> bool" where
  "consec a [] b = (a = b)"
| "consec a (r # rs) b = (fst r = a \<and> consec (a + 1) rs b)"

lemma consec_snoc: "consec a (rs @ [(b, d)]) (b + 1) = consec a rs b"
  by (induction rs arbitrary: a) auto

lemma consec_append: "consec a (rs @ qs) c \<longleftrightarrow> (\<exists>b. consec a rs b \<and> consec b qs c)"
  by (induction rs arbitrary: a) auto

definition payload_bytes :: "log_rec list \<Rightarrow> nat" where
  "payload_bytes rs = sum_list (map (\<lambda>r. length (snd r)) rs)"

lemma payload_bytes_simps [simp]: "payload_bytes [] = 0"
  "payload_bytes (r # rs) = length (snd r) + payload_bytes rs"
  "payload_bytes (rs @ qs) = payload_bytes rs + payload_bytes qs"
  by (simp_all add: payload_bytes_def)

text \<open>\<open>pre\<close> are the consumed records of the head sector, \<open>gs\<close> the records held, by sector.\<close>

definition log_inv :: "(nat \<Rightarrow> u8) \<Rightarrow> 'f cfl_inst \<Rightarrow> log_rec list \<Rightarrow> log_rec list list \<Rightarrow> bool" where
  "log_inv v i pre gs \<longleftrightarrow>
     cfl_in_use i \<and> head_sector i < 254 \<and> tail_offset i \<le> 4096 \<and> length gs \<le> 254 \<and>
     entry_count i = length (concat gs) \<and> byte_count i = payload_bytes (concat gs) \<and>
     (\<exists>a. consec a (pre @ concat gs) (next_seq_num i)) \<and>
     run v (head_sector i) 0 pre \<and> ring v (head_sector i) (rsizes pre) gs \<and>
     tail_sector i = nth_sec (head_sector i) (length gs - 1) \<and>
     (tail_offset i = ring_end (rsizes pre) gs \<or>
      \<not> cfl_room_for_record (tail_offset i) \<and> no_record v (tail_sector i) (ring_end (rsizes pre) gs)) \<and>
     (cfl_room_for_record (tail_offset i) \<longrightarrow>
        (\<forall>x. sec (tail_sector i) + tail_offset i \<le> x \<and> x < sec (tail_sector i) + 4096 \<longrightarrow> v x = 0xFF)) \<and>
     (head_offset i = rsizes pre \<or>
      gs = [] \<and> (head_offset i = tail_offset i \<or> \<not> cfl_room_for_record (tail_offset i)))"

lemma ring_end_snoc:
  "gs \<noteq> [] \<Longrightarrow> ring_end off (butlast gs @ [last gs @ [r]]) = ring_end off gs + rsize r"
  "gs \<noteq> [] \<Longrightarrow> ring_end off (gs @ [[r]]) = rsize r"
proof -
  show "ring_end off (butlast gs @ [last gs @ [r]]) = ring_end off gs + rsize r" if "gs \<noteq> []" for gs
    using that by (induction gs arbitrary: off) (auto simp: ring_end_Cons)
  have 0: "ring_end 0 (gs @ [[r]]) = rsize r" for gs
    by (induction gs) (auto simp: ring_end_Cons)
  show "ring_end off (gs @ [[r]]) = rsize r" if "gs \<noteq> []" for gs
    using that by (cases gs) (auto simp: ring_end_Cons 0)
qed

lemma ring_end_le: "ring v s off gs \<Longrightarrow> off \<le> 4096 \<Longrightarrow> ring_end off gs \<le> 4096"
proof (induction gs arbitrary: s off)
  case (Cons g gs)
  then show ?case using run_end [of v s off g] by (cases "gs = []") (auto simp: ring_end_Cons)
qed simp

lemma ring_end_single: "length gs \<le> 1 \<Longrightarrow> off \<le> ring_end off gs"
  by (cases gs) auto

text \<open>What lies at or beyond the tail, or outside the ring, does not matter.\<close>

lemma log_frame:
  assumes "s < 254" "length gs \<le> 254" "run v s 0 pre" "ring v s (rsizes pre) gs"
    and "t = nth_sec s (length gs - 1)" "e = ring_end (rsizes pre) gs"
    and "\<And>x. v' x \<noteq> v x \<Longrightarrow> x < sec 0 \<or> sec t + e \<le> x \<and> x < sec t + 4096 \<or>
          (\<exists>u. (\<forall>j < max 1 (length gs). u \<noteq> nth_sec s j) \<and> sec u \<le> x \<and> x < sec u + 4096)"
  shows "run v' s 0 pre \<and> ring v' s (rsizes pre) gs"
proof -
  have pre: "rsizes pre \<le> 4096" using run_end [OF assms(3)] by simp
  have same: "v' x = v x" if "j < max 1 (length gs)" "sec (nth_sec s j) \<le> x"
    "x < sec (nth_sec s j) + (if Suc j = max 1 (length gs) then e else 4096)" for j x
  proof (rule ccontr)
    have e: "e \<le> 4096" using ring_end_le [OF assms(4) pre] assms(6) by simp
    then have x: "x < sec (nth_sec s j) + 4096" using that(3) by (auto split: if_splits)
    assume "v' x \<noteq> v x"
    then consider "x < sec 0" | "sec t + e \<le> x" "x < sec t + 4096"
      | u where "\<forall>j < max 1 (length gs). u \<noteq> nth_sec s j" "sec u \<le> x" "x < sec u + 4096"
      using assms(7) by blast
    then show False
    proof cases
      case 1 with that(2) show False by (simp add: sec_eq)
    next
      case 2
      have "nth_sec s j = t" using sec_disjoint [of t "nth_sec s j" x] x that(2) 2 by force
      then have "nth_sec s j = nth_sec s (length gs - 1)" by (simp only: assms(5))
      moreover have "j < 254" "length gs - 1 < 254" using that(1) assms(2) by linarith+
      ultimately have "j = length gs - 1" by (rule nth_sec_inj)
      then have "Suc j = max 1 (length gs)" using that(1) by linarith
      then show False using that(3) 2 \<open>nth_sec s j = t\<close> by simp
    next
      case 3
      then have "u \<noteq> nth_sec s j" using that(1) by blast
      then show False using sec_disjoint [of u "nth_sec s j" x] x that(2) 3 by auto
    qed
  qed
  have "ring v' s (rsizes pre) gs"
  proof (rule ring_cong [OF assms(1) _ assms(4) pre])
    fix j x
    assume j: "j < length gs" "sec (nth_sec s j) \<le> x"
      "x < sec (nth_sec s j) + (if Suc j = length gs then ring_end (rsizes pre) gs else 4096)"
    then have "max 1 (length gs) = length gs" by simp
    with j show "v' x = v x" by (intro same [of j]) (simp_all only: assms(6))
  qed
  moreover have "run v' s 0 pre = run v s 0 pre"
  proof (rule run_cong)
    fix x assume x: "sec s + 0 \<le> x" "x < sec s + 0 + rsizes pre"
    have "rsizes pre \<le> e" if "Suc 0 = max 1 (length gs)"
      using that ring_end_single [of gs "rsizes pre"] assms(6) by (simp add: max_def split: if_splits)
    then show "v' x = v x"
      using x pre by (intro same [of 0]) (auto simp: nth_sec_simps assms(1))
  qed
  ultimately show ?thesis using assms(3) by simp
qed

section \<open>Append\<close>

definition after_put :: "nat \<Rightarrow> 'f \<Rightarrow> nat \<Rightarrow> 'f cfl_inst \<Rightarrow> 'f cfl_inst" where
  "after_put n f' sz i = i\<lparr>cfl_dev := f', tail_offset := tail_offset i + sz, next_seq_num := next_seq_num i + 1,
     entry_count := entry_count i + 1, byte_count := byte_count i + n\<rparr>"

lemma after_put_simps [simp]: "cfl_dev (after_put n f' sz i) = f'"
  by (simp add: after_put_def)

text \<open>The move to the next sector, and the steps of an append with valid arguments.\<close>

lemma move_tail_eq:
  assumes "cfl_flash_erase F (sec (nxt (tail_sector i))) (cfl_dev i) = (e, f1)"
  shows "cfl_move_tail F False i =
      (if nxt (tail_sector i) = head_sector i then (CFL_ERR_FULL, i)
       else if e \<noteq> CFL_ERR_OK then (e, cfl_report_flash_error (i\<lparr>cfl_dev := f1\<rparr>))
       else (CFL_ERR_OK, i\<lparr>cfl_dev := f1, tail_sector := nxt (tail_sector i), tail_offset := 0\<rparr>))"
    and "cfl_move_tail F True i =
      (if e \<noteq> CFL_ERR_OK then (e, cfl_report_flash_error (i\<lparr>cfl_dev := f1\<rparr>))
       else let i1 = i\<lparr>cfl_dev := f1, tail_sector := nxt (tail_sector i), tail_offset := 0,
                       head_sector := nxt (tail_sector i), head_offset := 0\<rparr>
            in if nxt (tail_sector i) \<noteq> head_sector i
               then (case cfl_meta_store F i1 of (err, j) \<Rightarrow>
                       if err \<noteq> CFL_ERR_OK then (err, cfl_report_flash_error j) else (CFL_ERR_OK, j))
               else (CFL_ERR_OK, i1))"
  using assms unfolding cfl_move_tail_def nxt_def [symmetric] by (simp_all add: Let_def)

lemma append_eq:
  assumes ok: "rec_ok (q, d)" and use: "cfl_in_use i"
    and mv: "mv = (if tail_offset i + cfl_record_size (length d) > CFL_SECTOR_SIZE_BYTES
                   then cfl_move_tail F (entry_count i = 0) i else (CFL_ERR_OK, i))" "mv = (e, i1)"
    and w: "cfl_write_record F (sec (tail_sector i1) + tail_offset i1) (next_seq_num i1) d (cfl_dev i1) = (e2, f2)"
  shows "cfl_append F (Some d) i =
    (if e \<noteq> CFL_ERR_OK then (e, i1)
     else if e2 \<noteq> CFL_ERR_OK
     then (e2, cfl_report_flash_error (i1\<lparr>cfl_dev := f2, tail_offset := CFL_SECTOR_SIZE_BYTES\<rparr>))
     else (CFL_ERR_OK, after_put (length d) f2 (cfl_record_size (length d)) i1))"
proof -
  have d: "\<not> (length d = 0 \<or> length d > CFL_MAX_RECORD_BYTES)" using ok by (auto simp: rec_ok_def)
  have h: "cfl_check_handle (Some i) = CFL_ERR_OK" using use by (simp add: cfl_check_handle_def)
  show ?thesis
    unfolding cfl_append_def Let_def option.case mv(1) [symmetric]
    by (simp only: h d mv(2) w prod.case if_False not_True_eq_False simp_thms)
       (simp add: after_put_def)
qed

context nor_flash
begin

lemma record_written:
  assumes u: "cfl_write_record F (sec t + off) q d f = (CFL_ERR_OK, f')" and ok: "rec_ok (q, d)"
    and fit: "off + rsize (q, d) \<le> 4096"
    and ff: "\<And>x. sec t + off \<le> x \<Longrightarrow> x < sec t + 4096 \<Longrightarrow> view f x = 0xFF"
  shows "stored (view f') t off (q, d)"
    and "\<And>x. view f' x \<noteq> view f x \<Longrightarrow> sec t + off \<le> x \<and> x < sec t + 4096"
    and "\<And>x. sec t + off + rsize (q, d) \<le> x \<Longrightarrow> x < sec t + 4096 \<Longrightarrow> view f' x = 0xFF"
proof -
  have b: "14 + length d \<le> rsize (q, d)" using rsize_bounds(2) [of "(q, d)"] by simp
  note w = write_record [OF u]
  show "stored (view f') t off (q, d)"
    using w(3) ff ok fit b by (auto simp: stored_def)
  show "sec t + off \<le> x \<and> x < sec t + 4096" if "view f' x \<noteq> view f x" for x
    using w(2) [of x] that b fit by force
  show "view f' x = 0xFF" if "sec t + off + rsize (q, d) \<le> x" "x < sec t + 4096" for x
    using w(2) [of x] ff [of x] that b by simp
qed

lemma put_same:
  assumes inv: "log_inv (view (cfl_dev i)) i pre gs" and ok: "rec_ok (next_seq_num i, d)"
    and fit: "tail_offset i + rsize (next_seq_num i, d) \<le> 4096"
    and w: "cfl_write_record F (sec (tail_sector i) + tail_offset i) (next_seq_num i) d (cfl_dev i) = (CFL_ERR_OK, f')"
  shows "\<exists>gs'. log_inv (view f') (after_put (length d) f' (rsize (next_seq_num i, d)) i) pre gs' \<and>
    concat gs' = concat gs @ [(next_seq_num i, d)]"
proof -
  let ?r = "(next_seq_num i, d)" and ?t = "tail_sector i"
  define e where "e = ring_end (rsizes pre) gs"
  define gs' where "gs' = (if gs = [] then [[?r]] else butlast gs @ [last gs @ [?r]])"
  have I: "cfl_in_use i" "head_sector i < 254" "length gs \<le> 254" "entry_count i = length (concat gs)"
    "byte_count i = payload_bytes (concat gs)" "run (view (cfl_dev i)) (head_sector i) 0 pre"
    "ring (view (cfl_dev i)) (head_sector i) (rsizes pre) gs" "?t = nth_sec (head_sector i) (length gs - 1)"
    using inv by (simp_all add: log_inv_def)
  have room: "cfl_room_for_record (tail_offset i)"
    using fit rsize_bounds(1) [OF ok] by (simp add: cfl_room_for_record_def cfl_consts)
  then have te: "tail_offset i = e" using inv by (auto simp: log_inv_def e_def)
  have ff: "view (cfl_dev i) x = 0xFF" if "sec ?t + tail_offset i \<le> x" "x < sec ?t + 4096" for x
    using inv that room by (simp add: log_inv_def)
  note r = record_written [OF w ok fit ff]
  have fr: "run (view f') (head_sector i) 0 pre \<and> ring (view f') (head_sector i) (rsizes pre) gs"
    using r(2) by (intro log_frame [OF I(2,3,6,7,8) e_def]) (auto simp: te)
  have cc: "concat gs' = concat gs @ [?r]"
    unfolding gs'_def by (cases gs rule: rev_cases) auto
  have ring': "ring (view f') (head_sector i) (rsizes pre) gs'"
  proof (cases "gs = []")
    case True
    then show ?thesis using r(1) I(2,8) te by (simp add: gs'_def e_def nth_sec_simps(1))
  next
    case False
    then show ?thesis
      using fr r(1) I(2,8) te by (simp add: gs'_def ring_snoc_same e_def)
  qed
  have end': "ring_end (rsizes pre) gs' = e + rsize ?r"
    by (simp add: gs'_def e_def ring_end_snoc)
  have len': "length gs' - 1 = length gs - 1" "length gs' \<le> 254"
    using I(3) by (auto simp: gs'_def)
  have off: "head_offset i = rsizes pre" using inv te room by (auto simp: log_inv_def e_def)
  obtain a where a: "consec a (pre @ concat gs) (next_seq_num i)" using inv by (auto simp: log_inv_def)
  have "consec a (pre @ concat gs') (next_seq_num i + 1)"
    using a consec_snoc [of a "pre @ concat gs" "next_seq_num i" d] by (simp add: cc)
  then have "log_inv (view f') (after_put (length d) f' (rsize ?r) i) pre gs'"
    using I fr ring' end' len' off fit r(3) by (auto simp: log_inv_def after_put_def te cc add.assoc)
  then show ?thesis using cc by blast
qed

lemma put_fresh:
  assumes "cfl_in_use i" "head_sector i < 254" "length gs < 254" "gs \<noteq> []"
    and "entry_count i = length (concat gs)" "byte_count i = payload_bytes (concat gs)"
    and seq: "consec a (pre @ concat gs) (next_seq_num i)"
    and rr: "run (view (cfl_dev i)) (head_sector i) 0 pre" "ring (view (cfl_dev i)) (head_sector i) (rsizes pre) gs"
    and t: "tail_sector i = nth_sec (head_sector i) (length gs)" "tail_offset i = 0"
    and nr: "no_record (view (cfl_dev i)) (nth_sec (head_sector i) (length gs - 1)) (ring_end (rsizes pre) gs)"
    and ff: "\<And>x. sec (tail_sector i) \<le> x \<Longrightarrow> x < sec (tail_sector i) + 4096 \<Longrightarrow> view (cfl_dev i) x = 0xFF"
    and "head_offset i = rsizes pre" and ok: "rec_ok (next_seq_num i, d)"
    and w: "cfl_write_record F (sec (tail_sector i)) (next_seq_num i) d (cfl_dev i) = (CFL_ERR_OK, f')"
  shows "log_inv (view f') (after_put (length d) f' (rsize (next_seq_num i, d)) i) pre (gs @ [[(next_seq_num i, d)]])"
proof -
  let ?r = "(next_seq_num i, d)" and ?t = "tail_sector i" and ?h = "head_sector i"
  have sz: "rsize ?r \<le> 4096" using rsize_bounds(3) [OF ok] by simp
  have w0: "cfl_write_record F (sec ?t + 0) (next_seq_num i) d (cfl_dev i) = (CFL_ERR_OK, f')" using w by simp
  have sz0: "0 + rsize ?r \<le> 4096" using sz by simp
  have ff0: "view (cfl_dev i) x = 0xFF" if "sec ?t + 0 \<le> x" "x < sec ?t + 4096" for x using ff that by simp
  note R = record_written [OF w0 ok sz0 ff0]
  have r: "stored (view f') ?t 0 ?r" "view f' x \<noteq> view (cfl_dev i) x \<Longrightarrow> sec ?t \<le> x \<and> x < sec ?t + 4096"
    "sec ?t + rsize ?r \<le> x \<Longrightarrow> x < sec ?t + 4096 \<Longrightarrow> view f' x = 0xFF" for x
    using R(1) R(2) [of x] R(3) [of x] by simp_all
  have ne: "?t \<noteq> nth_sec ?h j" if "j < length gs" for j
    using nth_sec_inj [of ?h "length gs" j] assms(3) that t(1) by auto
  have fr: "run (view f') ?h 0 pre \<and> ring (view f') ?h (rsizes pre) gs"
  proof (rule log_frame [OF assms(2) less_imp_le [OF assms(3)] rr refl refl])
    fix x assume "view f' x \<noteq> view (cfl_dev i) x"
    moreover have "max 1 (length gs) = length gs" using assms(4) by (cases gs) auto
    then have "\<forall>j < max 1 (length gs). ?t \<noteq> nth_sec ?h j" using ne by simp
    ultimately show "x < sec 0 \<or> sec (nth_sec ?h (length gs - 1)) + ring_end (rsizes pre) gs \<le> x \<and>
        x < sec (nth_sec ?h (length gs - 1)) + 4096 \<or>
        (\<exists>u. (\<forall>j < max 1 (length gs). u \<noteq> nth_sec ?h j) \<and> sec u \<le> x \<and> x < sec u + 4096)"
      using r(2) by blast
  qed
  have "no_record (view f') (nth_sec ?h (length gs - 1)) (ring_end (rsizes pre) gs) =
      no_record (view (cfl_dev i)) (nth_sec ?h (length gs - 1)) (ring_end (rsizes pre) gs)"
  proof (rule no_record_cong)
    fix x
    assume x: "sec (nth_sec ?h (length gs - 1)) + ring_end (rsizes pre) gs \<le> x" "x < sec (nth_sec ?h (length gs - 1)) + 4096"
    have "?t \<noteq> nth_sec ?h (length gs - 1)" using ne assms(4) by simp
    then show "view f' x = view (cfl_dev i) x"
      using r(2) [of x] x sec_disjoint [of ?t "nth_sec ?h (length gs - 1)" x] by force
  qed
  then have "ring (view f') ?h (rsizes pre) (gs @ [[?r]])"
    using fr nr r(1) assms(2,4) t(1) by (intro ring_snoc_new) auto
  moreover have "consec a (pre @ concat gs @ [?r]) (next_seq_num i + 1)"
    using seq consec_snoc [of a "pre @ concat gs" "next_seq_num i" d] by simp
  ultimately show ?thesis
    using assms(1-6) fr r(3) sz t ring_end_snoc(2) [OF assms(4), of "rsizes pre" ?r] assms(14)
    by (auto simp: log_inv_def after_put_def)
qed

lemma sec_aligned: "sec s mod 4096 = 0"
  by (simp add: cfl_data_sector_addr_def cfl_consts)

lemma ring_end_no_record:
  assumes "log_inv v i pre gs"
  shows "no_record v (tail_sector i) (ring_end (rsizes pre) gs)"
proof (cases "tail_offset i = ring_end (rsizes pre) gs \<and> cfl_room_for_record (tail_offset i)")
  case True
  then show ?thesis using assms by (intro erased_no_record) (auto simp: log_inv_def)
qed (use assms in \<open>auto simp: log_inv_def no_record_def\<close>)

text \<open>The move to the next sector.\<close>

lemma move_erases:
  assumes inv: "log_inv (view (cfl_dev i)) i pre gs" and gs: "gs = [] \<or> length gs < 254"
    and f: "cfl_flash_erase F (sec (nxt (tail_sector i))) (cfl_dev i) = (e, f1)"
  shows "run (view f1) (head_sector i) 0 pre \<and> ring (view f1) (head_sector i) (rsizes pre) gs"
    and "no_record (view f1) (tail_sector i) (ring_end (rsizes pre) gs)"
    and "sec (tail_sector i) \<le> x \<Longrightarrow> x < sec (tail_sector i) + 4096 \<Longrightarrow> view f1 x = view (cfl_dev i) x"
    and "e = CFL_ERR_OK \<Longrightarrow> sec (nxt (tail_sector i)) \<le> x \<Longrightarrow> x < sec (nxt (tail_sector i)) + 4096 \<Longrightarrow> view f1 x = 0xFF"
    and "usable (cfl_dev i) \<Longrightarrow> usable f1"
proof -
  let ?h = "head_sector i" and ?t = "tail_sector i" and ?v = "view (cfl_dev i)"
  have I: "?h < 254" "length gs \<le> 254" "run ?v ?h 0 pre" "ring ?v ?h (rsizes pre) gs"
    "?t = nth_sec ?h (length gs - 1)"
    using inv by (simp_all add: log_inv_def)
  have o: "view f1 x = ?v x" if "x < sec (nxt ?t) \<or> sec (nxt ?t) + 4096 \<le> x" for x
    using cfl_erase_outside [OF sec_aligned that, of "cfl_dev i"] by (simp add: f)
  have ne: "nxt ?t \<noteq> nth_sec ?h j" if "j < max 1 (length gs)" for j
  proof
    assume eq: "nxt ?t = nth_sec ?h j"
    have "nxt ?t = nth_sec ?h (Suc (length gs - 1))" by (simp only: I(5) nth_sec_simps)
    moreover have "j < 254" "Suc (length gs - 1) < 254" using that gs I(2) by auto
    ultimately have "Suc (length gs - 1) = j" using eq nth_sec_inj by metis
    then show False using that by (cases gs) auto
  qed
  show "run (view f1) ?h 0 pre \<and> ring (view f1) ?h (rsizes pre) gs"
  proof (rule log_frame [OF I(1-5) refl])
    fix x assume "view f1 x \<noteq> ?v x"
    then have "\<not> (x < sec (nxt ?t) \<or> sec (nxt ?t) + 4096 \<le> x)" using o [of x] by blast
    then have "sec (nxt ?t) \<le> x" "x < sec (nxt ?t) + 4096" by auto
    then show "x < sec 0 \<or> sec ?t + ring_end (rsizes pre) gs \<le> x \<and> x < sec ?t + 4096 \<or>
        (\<exists>u. (\<forall>j < max 1 (length gs). u \<noteq> nth_sec ?h j) \<and> sec u \<le> x \<and> x < sec u + 4096)"
      using ne by blast
  qed
  have "nxt ?t \<noteq> ?t" using ne [of "length gs - 1"] I(5) by (cases gs) auto
  then show s: "view f1 x = ?v x" if "sec ?t \<le> x" "x < sec ?t + 4096" for x
    using o [of x] sec_disjoint [of "nxt ?t" ?t x] that by auto
  then have "no_record (view f1) ?t (ring_end (rsizes pre) gs) = no_record ?v ?t (ring_end (rsizes pre) gs)"
    by (intro no_record_cong) auto
  then show "no_record (view f1) ?t (ring_end (rsizes pre) gs)" using ring_end_no_record [OF inv] by simp
  show "view f1 x = 0xFF" if "e = CFL_ERR_OK" "sec (nxt ?t) \<le> x" "x < sec (nxt ?t) + 4096"
    using cfl_erase_inside [OF sec_aligned, of "nxt ?t" "cfl_dev i" x] that by (simp add: f)
  show "usable f1" if "usable (cfl_dev i)" using cfl_erase_usable [OF that] f by (metis snd_conv)
qed

lemma move_empty:
  assumes inv: "log_inv (view (cfl_dev i)) i pre []" and m: "cfl_move_tail F True i = (CFL_ERR_OK, i')"
  shows "log_inv (view (cfl_dev i')) i' [] []" "tail_offset i' = 0" "next_seq_num i' = next_seq_num i"
    "usable (cfl_dev i) \<Longrightarrow> usable (cfl_dev i')"
proof -
  let ?n = "nxt (tail_sector i)"
  obtain e f1 where f: "cfl_flash_erase F (sec ?n) (cfl_dev i) = (e, f1)" by fastforce
  define i1 where "i1 = i\<lparr>cfl_dev := f1, tail_sector := ?n, tail_offset := 0, head_sector := ?n, head_offset := 0\<rparr>"
  have "cfl_move_tail F True i =
      (if e \<noteq> CFL_ERR_OK then (e, cfl_report_flash_error (i\<lparr>cfl_dev := f1\<rparr>))
       else if ?n \<noteq> head_sector i
       then (case cfl_meta_store F i1 of (err, j) \<Rightarrow> if err \<noteq> CFL_ERR_OK then (err, cfl_report_flash_error j) else (CFL_ERR_OK, j))
       else (CFL_ERR_OK, i1))"
    by (simp only: move_tail_eq(2) [OF f] i1_def Let_def)
  then have r: "e = CFL_ERR_OK" "i' = i1 \<or> cfl_meta_store F i1 = (CFL_ERR_OK, i')"
    using m by (auto split: if_splits prod.splits)
  have I: "cfl_in_use i" "entry_count i = 0" "byte_count i = 0" using inv by (simp_all add: log_inv_def)
  have ff: "view f1 x = 0xFF" if "sec ?n \<le> x" "x < sec ?n + 4096" for x
    using move_erases(4) [OF inv _ f r(1)] that by simp
  have i1: "log_inv (view f1) i1 [] []"
    using I ff by (auto simp: log_inv_def i1_def nth_sec_simps(1))
  have "log_inv (view (cfl_dev i')) i' [] [] \<and> tail_offset i' = 0 \<and> next_seq_num i' = next_seq_num i \<and>
      (usable f1 \<longrightarrow> usable (cfl_dev i'))"
    using r(2)
  proof
    assume "i' = i1"
    then show ?thesis using i1 by (simp add: i1_def)
  next
    assume ms: "cfl_meta_store F i1 = (CFL_ERR_OK, i')"
    note s = meta_store [OF ms]
    have "head_sector i' = ?n" "tail_sector i' = ?n" "tail_offset i' = 0" "cfl_in_use i'" "entry_count i' = 0"
      "byte_count i' = 0" "head_offset i' = 0" "next_seq_num i' = next_seq_num i"
      by (subst s(3), simp add: i1_def I)+
    moreover have "view (cfl_dev i') x = 0xFF" if "sec ?n \<le> x" "x < sec ?n + 4096" for x
      using s(2) [OF that(1)] ff that by (simp add: i1_def)
    ultimately show ?thesis using s(1) by (auto simp: log_inv_def nth_sec_simps(1) i1_def)
  qed
  then show "log_inv (view (cfl_dev i')) i' [] []" "tail_offset i' = 0" "next_seq_num i' = next_seq_num i"
    "usable (cfl_dev i) \<Longrightarrow> usable (cfl_dev i')"
    using move_erases(5) [OF inv _ f] by auto
qed

text \<open>An append that returns OK adds the record at the end.\<close>

lemma append_ok:
  assumes inv: "log_inv (view (cfl_dev i)) i pre gs" and u: "usable (cfl_dev i)"
    and a: "cfl_append F (Some d) i = (CFL_ERR_OK, i')"
  shows "\<exists>pre' gs'. log_inv (view (cfl_dev i')) i' pre' gs' \<and> usable (cfl_dev i') \<and>
    concat gs' = concat gs @ [(next_seq_num i, d)] \<and> next_seq_num i' = next_seq_num i + 1 \<and> (\<exists>old. pre = old @ pre')"
proof -
  let ?z = "cfl_record_size (length d)"
  have ok: "rec_ok (next_seq_num i, d)" and use: "cfl_in_use i"
    using a inv by (auto simp: cfl_append_def rec_ok_def log_inv_def split: if_splits)
  have ec: "(entry_count i = 0) = (gs = [])"
    using inv by (cases gs) (auto simp: log_inv_def)
  define mv where "mv = (if tail_offset i + ?z > CFL_SECTOR_SIZE_BYTES then cfl_move_tail F (gs = []) i else (CFL_ERR_OK, i))"
  obtain e i1 where m: "mv = (e, i1)" by fastforce
  obtain e2 f2 where w: "cfl_write_record F (sec (tail_sector i1) + tail_offset i1) (next_seq_num i1) d (cfl_dev i1) = (e2, f2)"
    by fastforce
  have r: "e = CFL_ERR_OK" "e2 = CFL_ERR_OK" "i' = after_put (length d) f2 ?z i1"
    using a append_eq [OF ok use mv_def [folded ec] m w] by (auto split: if_splits)
  have dev: "cfl_dev i' = f2" by (simp add: r(3) after_put_def)
  have us: "usable f2" if "usable (cfl_dev i1)" using write_record(1) [OF w that] .
  have rs: "rsize (q, d) = ?z" for q by (simp add: rsize_def)
  consider "tail_offset i + ?z \<le> 4096" | "tail_offset i + ?z > 4096" "gs = []" | "tail_offset i + ?z > 4096" "gs \<noteq> []"
    by linarith
  then show ?thesis
  proof cases
    case 1
    then have i1: "i1 = i" using m by (simp add: mv_def CFL_SECTOR_SIZE_BYTES_def)
    then show ?thesis
      using put_same [OF inv ok _ w [unfolded i1 r(2)]] 1 us u by (auto simp: r(3) rs after_put_def)
  next
    case 2
    then have mt: "cfl_move_tail F True i = (CFL_ERR_OK, i1)" using m r(1) by (simp add: mv_def CFL_SECTOR_SIZE_BYTES_def)
    note me = move_empty [OF inv [unfolded 2(2)] mt]
    have "tail_offset i1 + rsize (next_seq_num i1, d) \<le> 4096" "rec_ok (next_seq_num i1, d)"
      using rsize_bounds(3) [OF ok] me ok by (simp_all add: rs rec_ok_def)
    then obtain gs' where "log_inv (view f2) (after_put (length d) f2 (rsize (next_seq_num i1, d)) i1) [] gs'"
      "concat gs' = concat [] @ [(next_seq_num i1, d)]"
      using put_same [OF me(1) _ _ w [unfolded r(2)]] by blast
    then show ?thesis
      using us me(3,4) u 2(2) by (intro exI [of _ "[]"] exI [of _ gs']) (simp add: r(3) rs after_put_def)
  next
    case 3
    let ?n = "nxt (tail_sector i)"
    have mt: "cfl_move_tail F False i = (CFL_ERR_OK, i1)" using 3 m r(1) by (simp add: mv_def CFL_SECTOR_SIZE_BYTES_def)
    obtain e0 f1 where f: "cfl_flash_erase F (sec ?n) (cfl_dev i) = (e0, f1)" by fastforce
    have e0: "e0 = CFL_ERR_OK" "i1 = i\<lparr>cfl_dev := f1, tail_sector := ?n, tail_offset := 0\<rparr>" "?n \<noteq> head_sector i"
      using mt move_tail_eq(1) [OF f] by (auto split: if_splits)
    have I: "cfl_in_use i" "head_sector i < 254" "length gs \<le> 254" "entry_count i = length (concat gs)"
      "byte_count i = payload_bytes (concat gs)" "tail_sector i = nth_sec (head_sector i) (length gs - 1)"
      "head_offset i = rsizes pre"
      using inv 3(2) by (auto simp: log_inv_def)
    obtain b where b: "consec b (pre @ concat gs) (next_seq_num i)" using inv by (auto simp: log_inv_def)
    have nn: "?n = nth_sec (head_sector i) (length gs)" using 3(2) by (cases gs) (simp_all add: I(6) nth_sec_simps)
    have "length gs \<noteq> 254"
      using e0(3) nn I(2) by (auto simp: nth_sec_def CFL_DATA_SECTOR_COUNT_def)
    then have lt: "length gs < 254" using I(3) by simp
    note me = move_erases [OF inv disjI2 [OF lt] f]
    have "log_inv (view f2) (after_put (length d) f2 (rsize (next_seq_num i1, d)) i1) pre (gs @ [[(next_seq_num i1, d)]])"
    proof (rule put_fresh)
      show "cfl_write_record F (sec (tail_sector i1)) (next_seq_num i1) d (cfl_dev i1) = (CFL_ERR_OK, f2)"
        using w by (simp add: e0(2) r(2))
    qed (use I b lt 3(2) me e0 ok nn in \<open>auto simp: rec_ok_def\<close>)
    then show ?thesis using us me(5) u
      by (intro exI [of _ pre] exI [of _ "gs @ [[(next_seq_num i, d)]]"]) (simp add: r(3) rs e0(2) after_put_def)
  qed
qed

section \<open>Peek and consume\<close>

text \<open>The head of the log.\<close>

lemma head_stored:
  assumes inv: "log_inv v i pre gs" and rs: "concat gs = r # rs"
  obtains g gs2 where "gs = (r # g) # gs2" "rs = g @ concat gs2" "stored v (head_sector i) (head_offset i) r"
    "head_offset i = rsizes pre" "head_sector i < 254"
proof -
  obtain g0 gs2 where gs: "gs = g0 # gs2" using rs by (cases gs) auto
  have "g0 \<noteq> []" "head_offset i = rsizes pre" "run v (head_sector i) (rsizes pre) g0" "head_sector i < 254"
    using inv by (auto simp: log_inv_def gs)
  moreover from this obtain g where "g0 = r # g" using rs by (cases g0) (auto simp: gs)
  ultimately show thesis using rs by (intro that [of g gs2]) (auto simp: gs)
qed

lemma head_header:
  assumes "usable f" "stored (view f) s off r" "s < 254"
  shows "cfl_read_header F s off f = (CFL_ERR_OK, \<lparr>hdr_magic = CFL_MAGIC, hdr_seq = fst r, hdr_len = length (snd r)\<rparr>)"
    "cfl_header_plausible \<lparr>hdr_magic = CFL_MAGIC, hdr_seq = fst r, hdr_len = length (snd r)\<rparr> off"
  using read_hdr [OF assms(1,3), of off] stored_hdr [OF assms(2)] stored_bounds [OF assms(2)] by simp_all

lemma peek_first:
  assumes "log_inv (view (cfl_dev i)) i pre gs" "usable (cfl_dev i)" "concat gs = r # rs"
  shows "cfl_peek_oldest F m i =
    (if length (snd r) > m then Inl (CFL_ERR_TOO_LARGE, Some (length (snd r))) else Inr (snd r))"
proof -
  let ?f = "cfl_dev i" and ?s = "head_sector i" and ?o = "head_offset i"
  have st: "stored (view ?f) ?s ?o r" "?s < 254" by (rule head_stored [OF assms(1,3)]; simp)+
  have use: "cfl_in_use i" and ne: "entry_count i \<noteq> 0"
    using assms(1,3) by (auto simp: log_inv_def)
  have ok: "rec_ok r" "?o + rsize r \<le> 4096" "14 + length (snd r) \<le> rsize r"
    using stored_bounds [OF st(1)] rsize_bounds(2) [of r] by auto
  have d: "cfl_flash_read F (sec ?s + ?o + 12) (length (snd r)) ?f = (CFL_ERR_OK, snd r)"
    using cfl_sec_read [OF assms(2) _ st(2), of "length (snd r)" "?o + 12"] st(1) ok
    by (simp add: rec_ok_def stored_def add.assoc)
  have c: "cfl_flash_read F (sec ?s + ?o + 12 + length (snd r)) 2 ?f = (CFL_ERR_OK, cfl_put_u16 (rec_crc r))"
    using cfl_sec_read [OF assms(2) _ st(2), of 2 "?o + 12 + length (snd r)"] st(1) ok
    by (simp add: stored_def add.assoc)
  show ?thesis
    using use ne head_header [OF assms(2) st]
    by (simp add: cfl_peek_oldest_def cfl_check_handle_def Let_def d c CFL_RECORD_HEADER_SZ_def CFL_RECORD_CRC_SZ_def
        rec_crc_def rec_hdr_def)
qed

lemma advance_drained:
  assumes "entry_count i = 1"
  shows "cfl_advance_head F sz n i =
    (let j = i\<lparr>entry_count := 0, byte_count := byte_count i - n, head_sector := tail_sector i, head_offset := tail_offset i\<rparr>
     in if tail_sector i \<noteq> head_sector i then cfl_meta_store F j else (CFL_ERR_OK, j))"
  using assms by (simp add: cfl_advance_head_def Let_def)

lemma advance_next:
  assumes "entry_count i = Suc k" "k \<noteq> 0"
    and "cfl_room_for_record (head_offset i + sz) \<Longrightarrow>
      \<exists>h. cfl_read_header F (head_sector i) (head_offset i + sz) (cfl_dev i) = (CFL_ERR_OK, h) \<and>
          \<not> cfl_header_plausible h (head_offset i + sz)"
  shows "cfl_advance_head F sz n i =
    (let j = i\<lparr>entry_count := k, byte_count := byte_count i - n, head_sector := nxt (head_sector i), head_offset := 0\<rparr>
     in if nxt (head_sector i) \<noteq> head_sector i then cfl_meta_store F j else (CFL_ERR_OK, j))"
proof (cases "cfl_room_for_record (head_offset i + sz)")
  case True
  then obtain h where "cfl_read_header F (head_sector i) (head_offset i + sz) (cfl_dev i) = (CFL_ERR_OK, h)"
    "\<not> cfl_header_plausible h (head_offset i + sz)" using assms(3) by blast
  then show ?thesis using assms(1,2)
    unfolding cfl_advance_head_def nxt_def [symmetric] by (simp add: Let_def)
next
  case False
  then show ?thesis using assms(1,2)
    unfolding cfl_advance_head_def nxt_def [symmetric] by (simp add: Let_def)
qed

lemma meta_store_same:
  assumes "cfl_meta_store F j = (err, i')"
  shows "head_sector i' = head_sector j" "tail_sector i' = tail_sector j" "tail_offset i' = tail_offset j"
    "next_seq_num i' = next_seq_num j" "cfl_in_use i' = cfl_in_use j" "entry_count i' = entry_count j"
    "byte_count i' = byte_count j" "head_offset i' = head_offset j" "cfl_health i' = cfl_health j"
    "cfl_events i' = cfl_events j"
  by (subst meta_store(3) [OF assms], simp)+

text \<open>Storing the head sector keeps the invariant.\<close>

lemma log_inv_meta:
  assumes "cfl_meta_store F j = (err, i')" "log_inv (view (cfl_dev j)) j pre gs"
  shows "log_inv (view (cfl_dev i')) i' pre gs"
proof -
  note s = meta_store [OF assms(1)]
  have same: "view (cfl_dev i') x = view (cfl_dev j) x" if "sec 0 \<le> x" for x using s(2) that .
  have ge: "sec 0 \<le> sec k" for k by (simp add: sec_eq)
  have I: "head_sector j < 254" "length gs \<le> 254" "run (view (cfl_dev j)) (head_sector j) 0 pre"
    "ring (view (cfl_dev j)) (head_sector j) (rsizes pre) gs" "tail_sector j = nth_sec (head_sector j) (length gs - 1)"
    using assms(2) by (simp_all add: log_inv_def)
  have fr: "run (view (cfl_dev i')) (head_sector j) 0 pre \<and> ring (view (cfl_dev i')) (head_sector j) (rsizes pre) gs"
    using same by (intro log_frame [OF I refl]) (meson not_le)
  have nr: "no_record (view (cfl_dev i')) (tail_sector j) off = no_record (view (cfl_dev j)) (tail_sector j) off" for off
    using same ge [of "tail_sector j"] by (intro no_record_cong) auto
  have ff: "view (cfl_dev i') x = view (cfl_dev j) x" if "sec k + off \<le> x" for k off x
    using same ge [of k] that by (intro same) linarith
  show ?thesis using assms(2) fr nr ff meta_store_same [OF assms(1)] by (auto simp: log_inv_def)
qed

lemma consume_first:
  assumes inv: "log_inv (view (cfl_dev i)) i pre gs" and u: "usable (cfl_dev i)" and rs: "concat gs = r # rs"
    and c: "cfl_consume_oldest F i = (err, i')"
  shows "\<exists>pre' gs'. log_inv (view (cfl_dev i')) i' pre' gs' \<and> usable (cfl_dev i') \<and> concat gs' = rs \<and>
      (\<exists>old. pre @ [r] = old @ pre') \<and> (pre' \<noteq> [] \<or> rs \<noteq> [])"
    and "next_seq_num i' = next_seq_num i"
proof -
  let ?f = "cfl_dev i" and ?s = "head_sector i" and ?o = "head_offset i" and ?v = "view (cfl_dev i)"
  obtain g gs2 where gs: "gs = (r # g) # gs2" "rs = g @ concat gs2" and st: "stored ?v ?s ?o r" "?s < 254"
    and off: "?o = rsizes pre"
    using head_stored [OF inv rs] by metis
  have use: "cfl_in_use i" and cnt: "entry_count i = Suc (length rs)" "byte_count i = length (snd r) + payload_bytes rs"
    using inv by (auto simp: log_inv_def rs)
  define n where "n = length (snd r)"
  have adv: "cfl_consume_oldest F i = cfl_advance_head F (rsize r) n i"
    using use cnt head_header [OF u st]
    by (simp add: cfl_consume_oldest_def cfl_check_handle_def rsize_def n_def Let_def)
  have I: "tail_offset i \<le> 4096" "length gs \<le> 254" "run ?v ?s 0 pre" "ring ?v ?s (rsizes pre) gs"
    "tail_sector i = nth_sec ?s (length gs - 1)"
    "tail_offset i = ring_end (rsizes pre) gs \<or>
      \<not> cfl_room_for_record (tail_offset i) \<and> no_record ?v (tail_sector i) (ring_end (rsizes pre) gs)"
    and ff: "\<And>x. cfl_room_for_record (tail_offset i) \<Longrightarrow> sec (tail_sector i) + tail_offset i \<le> x \<Longrightarrow>
      x < sec (tail_sector i) + 4096 \<Longrightarrow> ?v x = 0xFF"
    using inv by (auto simp: log_inv_def)
  obtain a where a: "consec a (pre @ r # rs) (next_seq_num i)" using inv by (auto simp: log_inv_def rs)
  have pre': "run ?v ?s 0 (pre @ [r])" "rsizes (pre @ [r]) = ?o + rsize r"
    using I(3) st off by (simp_all add: run_append)
  consider "rs = []" | "g \<noteq> []" | "g = []" "gs2 \<noteq> []" "rs \<noteq> []"
    using gs(2) by (cases g; cases gs2) auto
  then have "(\<exists>pre' gs'. log_inv (view (cfl_dev i')) i' pre' gs' \<and> usable (cfl_dev i') \<and> concat gs' = rs \<and>
      (\<exists>old. pre @ [r] = old @ pre') \<and> (pre' \<noteq> [] \<or> rs \<noteq> [])) \<and> next_seq_num i' = next_seq_num i"
  proof cases
    case 1
    then have "g = []" "gs2 = []" using gs(2) I(4) by (auto simp: gs(1)) (cases gs2, auto)
    then have t: "tail_sector i = ?s" using I(5) st(2) by (simp add: gs(1) nth_sec_simps(1))
    have nt: "(tail_sector i \<noteq> ?s) = False" using t by simp
    have "i' = i\<lparr>entry_count := 0, byte_count := 0, head_sector := tail_sector i, head_offset := tail_offset i\<rparr>"
      using c cnt 1 by (simp add: adv advance_drained n_def Let_def nt)
    then have "log_inv (view (cfl_dev i')) i' (pre @ [r]) [] \<and> usable (cfl_dev i') \<and> next_seq_num i' = next_seq_num i"
      using I a pre' u use st(2) t 1 off \<open>g = []\<close> \<open>gs2 = []\<close> ff by (auto simp: log_inv_def gs(1) nth_sec_simps(1))
    then show ?thesis using 1 by fastforce
  next
    case 2
    then obtain r2 g' where g: "g = r2 # g'" by (cases g) auto
    let ?o' = "?o + rsize r"
    have st2: "stored ?v ?s ?o' r2" using I(4) off by (simp add: gs(1) g)
    have room: "cfl_room_for_record ?o'" by (rule stored_hdr(3) [OF st2])
    have "\<not> (?s = tail_sector i \<and> ?o' \<ge> tail_offset i)"
    proof
      assume h: "?s = tail_sector i \<and> ?o' \<ge> tail_offset i"
      then have "nth_sec ?s 0 = nth_sec ?s (length gs - 1)" using I(5) st(2) by (simp only: nth_sec_simps(1))
      moreover have "length gs - 1 < 254" using I(2) by (simp add: gs(1))
      ultimately have "0 = length gs - 1" using nth_sec_inj [of ?s 0 "length gs - 1"] by simp
      then have "ring_end (rsizes pre) gs = ?o' + rsizes g" using off by (simp add: gs(1))
      moreover have "0 < rsizes g" using rsize_bounds(1) [of r2] stored_bounds [OF st2] by (simp add: g)
      ultimately have "tail_offset i > ?o'"
        using I(6) room by (auto simp: cfl_room_for_record_def)
      then show False using h by simp
    qed
    then have "cfl_advance_head F (rsize r) n i =
        (CFL_ERR_OK, i\<lparr>head_offset := ?o', entry_count := length rs, byte_count := payload_bytes rs\<rparr>)"
      using cnt 2 room head_header [OF u st2 st(2)]
      by (simp add: cfl_advance_head_def n_def gs(2) Let_def)
    then have i': "i' = i\<lparr>head_offset := ?o', entry_count := length rs, byte_count := payload_bytes rs\<rparr>"
      using c adv by simp
    have "ring ?v ?s (rsizes (pre @ [r])) (g # gs2)" using I(4) 2 off pre'(2) by (simp add: gs(1) add.assoc)
    moreover have "ring_end (rsizes pre) gs = ring_end (rsizes (pre @ [r])) (g # gs2)"
      using off by (cases gs2) (simp_all add: gs(1) ring_end_Cons)
    ultimately have "log_inv (view (cfl_dev i')) i' (pre @ [r]) (g # gs2)"
      using I ff a pre' u use st(2) by (auto simp: log_inv_def i' gs)
    then have "log_inv (view (cfl_dev i')) i' (pre @ [r]) (g # gs2) \<and> usable (cfl_dev i') \<and> concat (g # gs2) = rs \<and>
        next_seq_num i' = next_seq_num i"
      using u by (simp add: i' gs(2))
    then show ?thesis by fastforce
  next
    case 3
    define j where "j = i\<lparr>entry_count := length rs, byte_count := payload_bytes rs, head_sector := nxt ?s, head_offset := 0\<rparr>"
    let ?o' = "?o + rsize r"
    have nr: "no_record ?v ?s ?o'" using I(4) 3 off by (simp add: gs(1))
    have ns: "nxt ?s \<noteq> ?s" using st(2) by (auto simp: nxt_def CFL_DATA_SECTOR_COUNT_def mod_if)
    have hdr: "cfl_read_header F ?s ?o' ?f = (CFL_ERR_OK, hdr_at ?v ?s ?o')" if "cfl_room_for_record ?o'"
      using that by (intro read_hdr u st(2)) (simp add: cfl_room_for_record_def cfl_consts)
    have "\<exists>h. cfl_read_header F ?s ?o' ?f = (CFL_ERR_OK, h) \<and> \<not> cfl_header_plausible h ?o'" if "cfl_room_for_record ?o'"
      using hdr [OF that] nr that by (simp add: no_record_def)
    then have "cfl_advance_head F (rsize r) n i = cfl_meta_store F j"
      using advance_next [OF cnt(1), of "rsize r" n] 3(3) ns cnt(2) by (simp add: j_def n_def)
    then have ms: "cfl_meta_store F j = (err, i')" using c adv by simp
    have E: "ring_end (rsizes pre) gs = ring_end 0 gs2" using 3 by (simp add: gs(1) ring_end_Cons)
    have T: "tail_sector i = nth_sec (nxt ?s) (length gs2 - 1)"
      using I(5) 3 by (cases gs2) (simp_all add: gs(1) nth_sec_simps)
    have "consec (next_seq_num i - of_nat (length rs)) rs (next_seq_num i) \<or> (\<exists>b. consec b rs (next_seq_num i))"
      using a by (auto simp: consec_append)
    then obtain b where b: "consec b rs (next_seq_num i)" by blast
    have "log_inv (view (cfl_dev j)) j [] gs2"
      using I ff b use 3 E T by (auto simp: log_inv_def j_def gs)
    then have "log_inv (view (cfl_dev i')) i' [] gs2 \<and> usable (cfl_dev i') \<and> next_seq_num i' = next_seq_num j"
      using log_inv_meta [OF ms] meta_store(1) [OF ms] meta_store_same(4) [OF ms] u by (auto simp: j_def)
    then have "log_inv (view (cfl_dev i')) i' [] gs2 \<and> usable (cfl_dev i') \<and> concat gs2 = rs \<and>
        next_seq_num i' = next_seq_num i"
      using 3 by (simp add: gs(2) j_def)
    then show ?thesis using 3(3) by blast
  qed
  then show "\<exists>pre' gs'. log_inv (view (cfl_dev i')) i' pre' gs' \<and> usable (cfl_dev i') \<and> concat gs' = rs \<and>
      (\<exists>old. pre @ [r] = old @ pre') \<and> (pre' \<noteq> [] \<or> rs \<noteq> [])"
    "next_seq_num i' = next_seq_num i" by blast+
qed

end

end
