(* ===== verification/Flash_Log_Boot.thy ===== *)
theory Flash_Log_Boot
  imports Flash_Log_Queue
begin

text \<open>
  The flash log after a reset: \<open>cfl_create\<close> loads the head sector from the metadata slots and scans
  the ring.  It finds the records held before the reset, preceded by the records of the head sector
  that were consumed already.
\<close>

section \<open>Bytes read back\<close>

lemma put_get_u32: "cfl_put_u32 (cfl_get_u32 [a, b, c, d]) = [a, b, c, d]"
proof -
  have "ucast (cfl_get_u32 [a, b, c, d] AND 0xFF) = a"
    "ucast (drop_bit 8 (cfl_get_u32 [a, b, c, d]) AND 0xFF) = b"
    "ucast (drop_bit 16 (cfl_get_u32 [a, b, c, d]) AND 0xFF) = c"
    "ucast (drop_bit 24 (cfl_get_u32 [a, b, c, d]) AND 0xFF) = d"
    by (rule bit_word_eqI, auto simp: cfl_get_u32_def mask_0xFF bit_simps dest: bit_imp_le_length)+
  then show ?thesis by (simp add: cfl_put_u32_def)
qed

lemma put_get_u32_take: "4 \<le> length xs \<Longrightarrow> cfl_put_u32 (cfl_get_u32 xs) = take 4 xs"
proof -
  assume "4 \<le> length xs"
  then obtain a b c d ys where "xs = a # b # c # d # ys" by (auto simp: numeral_eq_Suc Suc_le_length_iff)
  then show ?thesis using put_get_u32 [of a b c d] by (simp add: cfl_get_u32_def)
qed

lemma hdr_bytes_read:
  assumes "length xs = 12"
  shows "cfl_hdr_bytes (hdr_magic (cfl_hdr_of xs)) (hdr_seq (cfl_hdr_of xs)) (hdr_len (cfl_hdr_of xs)) = xs"
proof -
  have "take 4 xs @ take 4 (drop 4 xs) @ take 4 (drop 8 xs) = xs"
    using assms append_take_drop_id [of 4 xs] append_take_drop_id [of 4 "drop 4 xs"] by simp
  then show ?thesis
    using assms by (simp add: cfl_hdr_bytes_def cfl_hdr_of_def put_get_u32_take)
qed

text \<open>A plausible header with a matching CRC is a record.\<close>

lemma plausible_stored:
  assumes "cfl_header_plausible (hdr_at v s off) off" "n = hdr_len (hdr_at v s off)"
    and "d = bytes_at v (sec s + off + 12) n"
    and crc: "cfl_get_u16 (bytes_at v (sec s + off + 12 + n) 2) =
       cfl_crc16_update (cfl_crc16_update 0 (cfl_hdr_bytes (hdr_magic (hdr_at v s off)) (hdr_seq (hdr_at v s off)) n)) d"
  shows "stored v s off (hdr_seq (hdr_at v s off), d)"
proof -
  have h: "hdr_magic (hdr_at v s off) = CFL_MAGIC" "0 < n" "n \<le> CFL_MAX_RECORD_BYTES"
    "off + cfl_record_size n \<le> 4096"
    using assms(1) by (auto simp: cfl_header_plausible_def CFL_SECTOR_SIZE_BYTES_def assms(2) split: if_splits)
  have d: "length d = n" by (simp add: assms(3))
  have b: "bytes_at v (sec s + off) 12 = rec_hdr (hdr_seq (hdr_at v s off), d)"
    using hdr_bytes_read [of "bytes_at v (sec s + off) 12"] h(1)
    by (simp add: rec_hdr_def d hdr_at_def [symmetric] assms(2))
  obtain x y where xy: "bytes_at v (sec s + off + 12 + n) 2 = [x, y]"
    by (rule list_length_2 [of "bytes_at v (sec s + off + 12 + n) 2"]) auto
  have "cfl_get_u16 [x, y] = rec_crc (hdr_seq (hdr_at v s off), d)"
    using crc h(1) by (simp add: xy rec_crc_def rec_hdr_def d)
  then have "bytes_at v (sec s + off + 12 + n) 2 = cfl_put_u16 (rec_crc (hdr_seq (hdr_at v s off), d))"
    using cfl_put_get_u16 [of x y] xy by simp
  then show ?thesis using h b d by (simp add: stored_def rec_ok_def rsize_def assms(3))
qed

section \<open>Metadata slots\<close>

text \<open>A slot as \<open>cfl_meta_load\<close> reads it: sequence number and head sector.\<close>

definition slot_meta :: "(nat \<Rightarrow> u8) \<Rightarrow> nat \<Rightarrow> (u32 \<times> nat) option" where
  "slot_meta v k =
     (let raw = bytes_at v (cfl_meta_slot_addr k) 16
      in if cfl_get_u32 raw = CFL_META_MAGIC \<and> cfl_get_u32 (drop 12 raw) = cfl_crc32 (take 12 raw) \<and>
            unat (cfl_get_u32 (drop 8 raw)) < 254
         then Some (cfl_get_u32 (drop 4 raw), unat (cfl_get_u32 (drop 8 raw))) else None)"

text \<open>The flash holds the head sector of the instance: either no slot was ever written and the head
  is sector 0, or the instance's slot is newer than the other one.\<close>

definition meta_ok :: "(nat \<Rightarrow> u8) \<Rightarrow> 'f cfl_inst \<Rightarrow> bool" where
  "meta_ok v i \<longleftrightarrow>
     (if meta_slot_valid i
      then meta_slot i < 2 \<and> slot_meta v (meta_slot i) = Some (meta_seq_num i, head_sector i) \<and>
           (\<forall>q h. slot_meta v (1 - meta_slot i) = Some (q, h) \<longrightarrow> q < meta_seq_num i)
      else meta_slot i = 1 \<and> meta_seq_num i = 0 \<and> head_sector i = 0 \<and> slot_meta v 0 = None \<and> slot_meta v 1 = None)"

lemma meta_take_slot:
  "cfl_meta_take k (bytes_at v (cfl_meta_slot_addr k) 16) i =
    (case slot_meta v k of None \<Rightarrow> i
     | Some (q, h) \<Rightarrow>
         if \<not> meta_slot_valid i \<or> q > meta_seq_num i
         then i\<lparr>meta_slot_valid := True, meta_slot := k, meta_seq_num := q, head_sector := h\<rparr> else i)"
  by (simp add: cfl_meta_take_def slot_meta_def Let_def CFL_META_SLOT_BODY_SZ_def CFL_DATA_SECTOR_COUNT_def not_le)

lemma meta_bytes_read:
  assumes "h < 254"
  shows "cfl_get_u32 (cfl_meta_bytes q h) = CFL_META_MAGIC"
    "cfl_get_u32 (drop 12 (cfl_meta_bytes q h)) = cfl_crc32 (take 12 (cfl_meta_bytes q h))"
    "cfl_get_u32 (drop 4 (cfl_meta_bytes q h)) = q" "unat (cfl_get_u32 (drop 8 (cfl_meta_bytes q h))) = h"
proof -
  define body where "body = cfl_put_u32 CFL_META_MAGIC @ cfl_put_u32 q @ cfl_put_u32 (of_nat h)"
  have m: "cfl_meta_bytes q h = body @ cfl_put_u32 (cfl_crc32 body)"
    by (simp add: cfl_meta_bytes_def body_def Let_def)
  have l: "length body = 12" by (simp add: body_def)
  have h: "unat (of_nat h :: u32) = h" using assms by (simp add: unat_of_nat)
  show "cfl_get_u32 (drop 12 (cfl_meta_bytes q h)) = cfl_crc32 (take 12 (cfl_meta_bytes q h))"
    by (simp add: m l)
  show "cfl_get_u32 (cfl_meta_bytes q h) = CFL_META_MAGIC"
    "cfl_get_u32 (drop 4 (cfl_meta_bytes q h)) = q" "unat (cfl_get_u32 (drop 8 (cfl_meta_bytes q h))) = h"
    by (simp_all add: m body_def h)
qed

lemma slot_meta_written:
  assumes "bytes_at v (cfl_meta_slot_addr k) 16 = cfl_meta_bytes q h" "h < 254"
  shows "slot_meta v k = Some (q, h)"
  using meta_bytes_read [OF assms(2), of q] by (simp add: slot_meta_def assms)

context nor_flash
begin

lemma meta_load:
  assumes u: "usable (cfl_dev i)" and ok: "meta_ok (view (cfl_dev i)) j"
  shows "cfl_meta_load F i = (CFL_ERR_OK, i\<lparr>head_sector := head_sector j, head_offset := 0,
    meta_seq_num := meta_seq_num j, meta_slot := meta_slot j, meta_slot_valid := meta_slot_valid j\<rparr>)"
proof -
  have rd: "cfl_flash_read F (cfl_meta_slot_addr k) 16 (cfl_dev i) =
      (CFL_ERR_OK, bytes_at (view (cfl_dev i)) (cfl_meta_slot_addr k) 16)" if "k < 2" for k
    using that by (intro cfl_read u) (simp_all add: cfl_meta_slot_addr_def cfl_consts)
  have two: "[0..<CFL_META_SLOT_COUNT] = [0, Suc 0]" "CFL_META_SLOT_COUNT - 1 = Suc 0"
    by (simp_all add: CFL_META_SLOT_COUNT_def upt_conv_Cons)
  have sl: "meta_slot j = 0 \<or> meta_slot j = 1" using ok by (auto simp: meta_ok_def split: if_splits)
  show ?thesis
    using ok sl unfolding cfl_meta_load_def two
    by (auto simp: CFL_META_SLOT_SZ_def rd meta_take_slot meta_ok_def split: option.splits if_splits)
qed

section \<open>Scanning a sector\<close>

lemma fold_payload:
  assumes "usable f" "a + n \<le> 2 ^ 23"
  shows "cfl_fold_payload F a n crc f = (CFL_ERR_OK, cfl_crc16_update crc (bytes_at (view f) a n))"
  using assms(2)
proof (induction n arbitrary: a crc rule: less_induct)
  case (less n)
  show ?case
  proof (cases "0 < n")
    case True
    define c where "c = (if n > CFL_SCAN_CHUNK_BYTES then CFL_SCAN_CHUNK_BYTES else n)"
    have c: "0 < c" "c \<le> n" using True by (auto simp: c_def CFL_SCAN_CHUNK_BYTES_def)
    have "cfl_flash_read F a c f = (CFL_ERR_OK, bytes_at (view f) a c)"
      using c less.prems by (intro cfl_read assms(1)) auto
    then have "cfl_fold_payload F a n crc f =
        cfl_fold_payload F (a + c) (n - c) (cfl_crc16_update crc (bytes_at (view f) a c)) f"
      using True by (subst cfl_fold_payload.simps) (simp add: Let_def c_def [symmetric])
    also have "\<dots> = (CFL_ERR_OK, cfl_crc16_update (cfl_crc16_update crc (bytes_at (view f) a c)) (bytes_at (view f) (a + c) (n - c)))"
      using c less.prems True by (intro less.IH) auto
    also have "bytes_at (view f) a n = bytes_at (view f) a c @ bytes_at (view f) (a + c) (n - c)"
      using bytes_at_append [of "view f" a c "n - c"] c by simp
    ultimately show ?thesis by (simp add: cfl_crc16_append)
  qed (simp add: cfl_fold_payload.simps bytes_at_def)
qed

lemma verify_crc:
  assumes "usable f" "s < 254" "off + 14 + hdr_len h \<le> 4096"
  shows "cfl_verify_record_crc F s off h f =
    (CFL_ERR_OK, cfl_get_u16 (bytes_at (view f) (sec s + off + 12 + hdr_len h) 2) =
       cfl_crc16_update (cfl_crc16_update 0 (cfl_hdr_bytes (hdr_magic h) (hdr_seq h) (hdr_len h)))
         (bytes_at (view f) (sec s + off + 12) (hdr_len h)))"
proof -
  have "sec s + off + 12 + hdr_len h + 2 \<le> 2 ^ 23" using sec_bound [OF assms(2)] assms(3) by simp
  then show ?thesis
    using fold_payload [OF assms(1), of "sec s + off + 12" "hdr_len h"] cfl_read [OF assms(1), of 2 "sec s + off + 12 + hdr_len h"]
    by (simp add: cfl_verify_record_crc_def Let_def CFL_RECORD_HEADER_SZ_def CFL_RECORD_CRC_SZ_def)
qed

lemma scan_stop:
  assumes "usable f" "s < 254" and stop: "no_record (view f) s off \<or>
      (any \<or> cnt > 0) \<and> (\<forall>d. \<not> stored (view f) s off (mx + 1, d))"
  shows "cfl_scan_from F s any f off cnt bytes mx = (CFL_ERR_OK, cnt, bytes, off, mx)"
proof (cases "cfl_room_for_record off \<and> cfl_header_plausible (hdr_at (view f) s off) off")
  case True
  let ?h = "hdr_at (view f) s off"
  have len: "off + 14 + hdr_len ?h \<le> 4096" "off + 12 \<le> 4096"
    using True record_size_bounds(2) [of "hdr_len ?h"]
    by (auto simp: cfl_header_plausible_def cfl_room_for_record_def cfl_consts split: if_splits)
  have rd: "cfl_read_header F s off f = (CFL_ERR_OK, ?h)" using len by (intro read_hdr assms(1,2))
  have no: "(any \<or> cnt > 0) \<and> (\<forall>d. \<not> stored (view f) s off (mx + 1, d))"
    using stop True by (auto simp: no_record_def)
  define ok where "ok \<longleftrightarrow> cfl_get_u16 (bytes_at (view f) (sec s + off + 12 + hdr_len ?h) 2) =
       cfl_crc16_update (cfl_crc16_update 0 (cfl_hdr_bytes (hdr_magic ?h) (hdr_seq ?h) (hdr_len ?h)))
         (bytes_at (view f) (sec s + off + 12) (hdr_len ?h))"
  have v: "cfl_verify_record_crc F s off ?h f = (CFL_ERR_OK, ok)"
    unfolding ok_def by (rule verify_crc [OF assms(1,2) len(1)])
  have "hdr_seq ?h \<noteq> mx + 1" if ok
    using plausible_stored [OF conjunct2 [OF True] refl refl that [unfolded ok_def]] no by auto
  then show ?thesis
    using no True by (subst cfl_scan_from.simps) (simp add: rd v)
next
  case False
  have "cfl_read_header F s off f = (CFL_ERR_OK, hdr_at (view f) s off)" if "cfl_room_for_record off"
    using that by (intro read_hdr assms(1,2)) (simp add: cfl_room_for_record_def cfl_consts)
  then show ?thesis using False by (subst cfl_scan_from.simps) auto
qed

lemma scan_step:
  assumes "usable f" "s < 254" "stored (view f) s off r" "any \<or> cnt > 0 \<Longrightarrow> fst r = mx + 1"
  shows "cfl_scan_from F s any f off cnt bytes mx =
    cfl_scan_from F s any f (off + rsize r) (cnt + 1) (bytes + length (snd r)) (fst r)"
proof -
  let ?h = "\<lparr>hdr_magic = CFL_MAGIC, hdr_seq = fst r, hdr_len = length (snd r)\<rparr>"
  have len: "off + 14 + length (snd r) \<le> 4096"
    using stored_bounds [OF assms(3)] rsize_bounds(2) [of r] by linarith
  have v: "cfl_verify_record_crc F s off ?h f = (CFL_ERR_OK, True)"
    using verify_crc [OF assms(1,2), of off ?h] len assms(3) by (simp add: stored_def rec_crc_def rec_hdr_def)
  show ?thesis
    using head_header [OF assms(1,3,2)] stored_hdr(3) [OF assms(3)] assms(4)
    by (subst cfl_scan_from.simps) (auto simp: v rsize_def)
qed

lemma scan_run:
  assumes "usable f" "s < 254" "run (view f) s off g" "consec a g b" "any \<or> cnt > 0 \<Longrightarrow> a = mx + 1" "g \<noteq> []"
  shows "cfl_scan_from F s any f off cnt bytes mx =
    cfl_scan_from F s any f (off + rsizes g) (cnt + length g) (bytes + payload_bytes g) (b - 1)"
  using assms(3-6)
proof (induction g arbitrary: off a cnt bytes mx)
  case (Cons r g)
  have 1: "cfl_scan_from F s any f off cnt bytes mx =
      cfl_scan_from F s any f (off + rsize r) (cnt + 1) (bytes + length (snd r)) (fst r)"
    using Cons.prems by (intro scan_step assms(1,2)) auto
  show ?case
  proof (cases "g = []")
    case True
    then show ?thesis using 1 Cons.prems(2) by auto
  next
    case False
    then have "cfl_scan_from F s any f (off + rsize r) (cnt + 1) (bytes + length (snd r)) (fst r) =
        cfl_scan_from F s any f (off + rsize r + rsizes g) (cnt + 1 + length g)
          (bytes + length (snd r) + payload_bytes g) (b - 1)"
      using Cons.prems by (intro Cons.IH [of _ "a + 1"]) auto
    then show ?thesis using 1 by (simp add: add.assoc)
  qed
qed simp

lemma region_clean:
  assumes "usable f" "a + n \<le> 2 ^ 23"
  shows "cfl_region_clean F a n f = (CFL_ERR_OK, \<forall>x. a \<le> x \<and> x < a + n \<longrightarrow> view f x = 0xFF)"
  using assms(2)
proof (induction n arbitrary: a rule: less_induct)
  case (less n)
  show ?case
  proof (cases "0 < n")
    case True
    define c where "c = (if n > CFL_SCAN_CHUNK_BYTES then CFL_SCAN_CHUNK_BYTES else n)"
    have c: "0 < c" "c \<le> n" using True by (auto simp: c_def CFL_SCAN_CHUNK_BYTES_def)
    have rd: "cfl_flash_read F a c f = (CFL_ERR_OK, bytes_at (view f) a c)"
      using c less.prems by (intro cfl_read assms(1)) auto
    have ex: "list_ex (\<lambda>b. b \<noteq> 0xFF) (bytes_at (view f) a c) \<longleftrightarrow> \<not> (\<forall>x. a \<le> x \<and> x < a + c \<longrightarrow> view f x = 0xFF)"
    proof -
      have "(\<forall>x. a \<le> x \<and> x < a + c \<longrightarrow> view f x = 0xFF) \<longleftrightarrow> (\<forall>k < c. view f (a + k) = 0xFF)"
        by (metis le_add1 le_add_diff_inverse nat_add_left_cancel_less)
      then show ?thesis by (auto simp: list_ex_iff bytes_at_def)
    qed
    have "cfl_region_clean F (a + c) (n - c) f =
        (CFL_ERR_OK, \<forall>x. a + c \<le> x \<and> x < a + c + (n - c) \<longrightarrow> view f x = 0xFF)"
      using c less.prems by (intro less.IH) auto
    moreover have "(\<forall>x. a \<le> x \<and> x < a + n \<longrightarrow> view f x = 0xFF) \<longleftrightarrow>
        (\<forall>x. a \<le> x \<and> x < a + c \<longrightarrow> view f x = 0xFF) \<and> (\<forall>x. a + c \<le> x \<and> x < a + c + (n - c) \<longrightarrow> view f x = 0xFF)"
      (is "?A \<longleftrightarrow> ?B \<and> ?C")
    proof
      assume ?A then show "?B \<and> ?C" using c(2) by simp
    next
      assume bc: "?B \<and> ?C"
      show ?A
      proof (intro allI impI)
        fix x assume "a \<le> x \<and> x < a + n"
        then show "view f x = 0xFF" using bc c(2) by (cases "x < a + c") auto
      qed
    qed
    ultimately show ?thesis
      using True by (subst cfl_region_clean.simps) (simp only: Let_def c_def [symmetric] rd ex if_True prod.case, simp)
  qed (auto simp: cfl_region_clean.simps)
qed

section \<open>Scanning the ring\<close>

definition scanned :: "nat \<Rightarrow> nat \<Rightarrow> log_rec list list \<Rightarrow> 'f cfl_inst \<Rightarrow> 'f cfl_inst" where
  "scanned h k gs i = i\<lparr>entry_count := entry_count i + length (concat gs),
     byte_count := byte_count i + payload_bytes (concat gs),
     tail_sector := nth_sec h (k + length gs - 1), tail_offset := ring_end 0 gs\<rparr>"

lemma boot_loop_ring:
  assumes "usable (cfl_dev i)" "gs \<noteq> []" "ring (view (cfl_dev i)) (nth_sec (head_sector i) k) 0 gs"
    and "consec a (concat gs) q" "any \<Longrightarrow> a = mx + 1" "k + length gs \<le> 254"
    and "no_record (view (cfl_dev i)) (nth_sec (head_sector i) (k + length gs - 1)) (ring_end 0 gs)"
    and "\<And>d. k + length gs < 254 \<Longrightarrow> \<not> stored (view (cfl_dev i)) (nth_sec (head_sector i) (k + length gs)) 0 (q, d)"
  shows "cfl_boot_loop F [k..<254] i mx any = (CFL_ERR_OK, scanned (head_sector i) k gs i, q - 1, True)"
  using assms
proof (induction gs arbitrary: k i a mx any)
  case (Cons g gs)
  let ?v = "view (cfl_dev i)" and ?s = "nth_sec (head_sector i) k"
  obtain b where b: "consec a g b" "consec b (concat gs) q" using Cons.prems(4) by (auto simp: consec_append)
  have g: "g \<noteq> []" "run ?v ?s 0 g" using Cons.prems(3) by auto
  have nr: "no_record ?v ?s (0 + rsizes g)" using Cons.prems(3,7) by (cases "gs = []") simp_all
  have "cfl_scan_sector F ?s any mx (cfl_dev i) =
      cfl_scan_from F ?s any (cfl_dev i) (0 + rsizes g) (0 + length g) (0 + payload_bytes g) (b - 1)"
    unfolding cfl_scan_sector_def using Cons.prems(1,5) g b(1) by (intro scan_run [where a = a]) auto
  also have "\<dots> = (CFL_ERR_OK, 0 + length g, 0 + payload_bytes g, 0 + rsizes g, b - 1)"
    using nr Cons.prems(1) by (intro scan_stop) auto
  finally have sc: "cfl_scan_sector F ?s any mx (cfl_dev i) = (CFL_ERR_OK, length g, payload_bytes g, rsizes g, b - 1)"
    by simp
  define i1 where "i1 = i\<lparr>entry_count := entry_count i + length g, byte_count := byte_count i + payload_bytes g,
    tail_sector := ?s, tail_offset := rsizes g\<rparr>"
  have k: "[k..<254] = k # [Suc k..<254]" using Cons.prems(6) by (intro upt_conv_Cons) simp
  have sec_k: "(head_sector i + k) mod CFL_DATA_SECTOR_COUNT = ?s" by (simp add: nth_sec_def)
  have step: "cfl_boot_loop F [k..<254] i mx any = cfl_boot_loop F [Suc k..<254] i1 (b - 1) True"
    using g(1) unfolding k cfl_boot_loop.simps sec_k by (simp add: sc i1_def)
  have i1: "cfl_dev i1 = cfl_dev i" "head_sector i1 = head_sector i" by (simp_all add: i1_def)
  show ?case
  proof (cases "gs = []")
    case True
    have "cfl_boot_loop F [Suc k..<254] i1 (b - 1) True = (CFL_ERR_OK, i1, b - 1, True)"
    proof (cases "Suc k < 254")
      case lt: True
      let ?n = "nth_sec (head_sector i) (Suc k)"
      have "cfl_scan_sector F ?n True (b - 1) (cfl_dev i) = (CFL_ERR_OK, 0, 0, 0, b - 1)"
        unfolding cfl_scan_sector_def using Cons.prems(1,8) b(2) True lt by (intro scan_stop) auto
      moreover have "(head_sector i1 + Suc k) mod CFL_DATA_SECTOR_COUNT = ?n" by (simp add: nth_sec_def i1)
      ultimately show ?thesis using lt by (simp add: upt_conv_Cons i1 del: upt_Suc)
    qed simp
    then show ?thesis using True b(2) step by (simp add: scanned_def i1_def)
  next
    case False
    have "cfl_boot_loop F [Suc k..<254] i1 (b - 1) True = (CFL_ERR_OK, scanned (head_sector i1) (Suc k) gs i1, q - 1, True)"
      using Cons.prems False b(2)
      by (intro Cons.IH [of i1 "Suc k" b]) (simp_all add: i1 nth_sec_simps ring_end_Cons)
    moreover have "scanned (head_sector i1) (Suc k) gs i1 = scanned (head_sector i) k (g # gs) i"
      using False by (simp add: scanned_def i1_def ring_end_Cons)
    ultimately show ?thesis using step by simp
  qed
qed simp

end

text \<open>The records of the head sector from its start, consumed or not, with those of the other sectors.\<close>

definition regroup :: "log_rec list \<Rightarrow> log_rec list list \<Rightarrow> log_rec list list" where
  "regroup pre gs = (if pre = [] then gs else case gs of [] \<Rightarrow> [pre] | g # gs \<Rightarrow> (pre @ g) # gs)"

lemma regroup:
  assumes "run v h 0 pre" "ring v h (rsizes pre) gs"
  shows "concat (regroup pre gs) = pre @ concat gs" "ring v h 0 (regroup pre gs)"
    "ring_end 0 (regroup pre gs) = ring_end (rsizes pre) gs" "length (regroup pre gs) - 1 = length gs - 1"
    "length gs \<le> 254 \<Longrightarrow> length (regroup pre gs) \<le> 254" "regroup pre gs = [] \<longleftrightarrow> pre = [] \<and> gs = []"
proof -
  have "ring_end 0 ((pre @ g) # gs2) = ring_end (rsizes pre) (g # gs2)" for g gs2 by (cases gs2) simp_all
  then show "concat (regroup pre gs) = pre @ concat gs" "ring v h 0 (regroup pre gs)"
    "ring_end 0 (regroup pre gs) = ring_end (rsizes pre) gs" "length (regroup pre gs) - 1 = length gs - 1"
    "length gs \<le> 254 \<Longrightarrow> length (regroup pre gs) \<le> 254" "regroup pre gs = [] \<longleftrightarrow> pre = [] \<and> gs = []"
    using assms by (auto simp: regroup_def run_append split: list.splits)
qed

context nor_flash
begin

text \<open>The end of \<open>cfl_boot_scan\<close>: the tail sector is retired unless its rest is erased.\<close>

lemma retire:
  assumes "usable (cfl_dev i)" "tail_sector i < 254" "tail_offset i \<le> 4096"
  obtains j where "j = i \<or> j = i\<lparr>tail_offset := 4096\<rparr>"
    "(if cfl_room_for_record (tail_offset i) then
        let (err, clean) = cfl_region_erased F (tail_sector i) (tail_offset i) (cfl_dev i)
        in if err \<noteq> CFL_ERR_OK then (err, i)
           else (CFL_ERR_OK, if \<not> clean then i\<lparr>tail_offset := CFL_SECTOR_SIZE_BYTES\<rparr> else i)
      else (CFL_ERR_OK, i)) = (CFL_ERR_OK, j)"
    "\<And>x. cfl_room_for_record (tail_offset j) \<Longrightarrow> sec (tail_sector i) + tail_offset j \<le> x \<Longrightarrow>
       x < sec (tail_sector i) + 4096 \<Longrightarrow> view (cfl_dev i) x = 0xFF"
proof (cases "cfl_room_for_record (tail_offset i)")
  case True
  let ?c = "\<forall>x. sec (tail_sector i) + tail_offset i \<le> x \<and> x < sec (tail_sector i) + tail_offset i + (4096 - tail_offset i)
      \<longrightarrow> view (cfl_dev i) x = 0xFF"
  have e: "cfl_region_erased F (tail_sector i) (tail_offset i) (cfl_dev i) = (CFL_ERR_OK, ?c)"
    unfolding cfl_region_erased_def CFL_SECTOR_SIZE_BYTES_def
    using assms sec_bound [OF assms(2)] by (intro region_clean) auto
  have r: "\<not> cfl_room_for_record 4096" by (simp add: cfl_room_for_record_def cfl_consts)
  show thesis
  proof (cases ?c)
    case True
    then show thesis using e assms(3) by (intro that [of i]) auto
  next
    case False
    then show thesis using e r \<open>cfl_room_for_record (tail_offset i)\<close>
      by (intro that [of "i\<lparr>tail_offset := 4096\<rparr>"]) (simp_all add: CFL_SECTOR_SIZE_BYTES_def)
  qed
next
  case False
  then show thesis by (intro that [of i]) auto
qed

lemma create_recovers:
  assumes u: "usable f" and inv: "log_inv (view f) i pre gs" and m: "meta_ok (view f) i"
    and stop: "\<And>d. \<not> stored (view f) (nxt (tail_sector i)) 0 (next_seq_num i, d)"
  obtains j gs' where "cfl_create (Some F) hl 0 f = (CFL_ERR_OK, 1, Some j)" "cfl_dev j = f"
    "log_inv (view f) j [] gs'" "concat gs' = pre @ concat gs" "meta_ok (view f) j"
    "next_seq_num j = (if pre @ concat gs = [] then 0 else next_seq_num i)" "meta_seq_num j = meta_seq_num i"
proof -
  let ?h = "head_sector i" and ?v = "view f"
  define gs' where "gs' = regroup pre gs"
  have I: "?h < 254" "length gs \<le> 254" "run ?v ?h 0 pre" "ring ?v ?h (rsizes pre) gs"
    "tail_sector i = nth_sec ?h (length gs - 1)"
    using inv by (auto simp: log_inv_def)
  obtain a where a: "consec a (pre @ concat gs) (next_seq_num i)" using inv by (auto simp: log_inv_def)
  note rg = regroup [OF I(3,4), folded gs'_def]
  have nr: "no_record ?v (nth_sec ?h (length gs' - 1)) (ring_end 0 gs')"
    using ring_end_no_record [OF inv] by (simp only: rg(3,4) I(5))
  define i0 where "i0 = \<lparr>cfl_dev = f, cfl_health = hl, cfl_events = [], head_sector = 0, head_offset = 0,
                     tail_sector = 0, tail_offset = 0, next_seq_num = 0, entry_count = 0, byte_count = 0,
                     meta_slot = 0, meta_seq_num = 0, meta_slot_valid = False, cfl_in_use = False\<rparr>"
  define i1 where "i1 = i0\<lparr>head_sector := ?h, head_offset := 0, meta_seq_num := meta_seq_num i,
    meta_slot := meta_slot i, meta_slot_valid := meta_slot_valid i\<rparr>"
  define i2 where "i2 = i1\<lparr>entry_count := 0, byte_count := 0, tail_sector := ?h, tail_offset := 0\<rparr>"
  have "cfl_meta_load F i0 = (CFL_ERR_OK, i1)"
    unfolding i1_def using u m by (intro meta_load) (simp_all add: i0_def)
  moreover obtain i3 q where i3: "cfl_boot_loop F [0..<254] i2 0 False = (CFL_ERR_OK, i3, q, gs' \<noteq> [])"
    and q: "gs' \<noteq> [] \<Longrightarrow> q + 1 = next_seq_num i"
    and i3': "i3 = i2\<lparr>entry_count := length (concat gs'), byte_count := payload_bytes (concat gs'),
      tail_sector := nth_sec ?h (length gs' - 1), tail_offset := ring_end 0 gs'\<rparr>"
  proof (cases "gs' = []")
    case True
    have "cfl_scan_sector F ?h False 0 f = (CFL_ERR_OK, 0, 0, 0, 0)"
      unfolding cfl_scan_sector_def using u I(1) nr by (intro scan_stop) (auto simp: True nth_sec_simps(1))
    then have "cfl_boot_loop F [0..<254] i2 0 False = (CFL_ERR_OK, i2\<lparr>tail_sector := ?h, tail_offset := 0\<rparr>, 0, False)"
      using I(1) by (simp add: upt_conv_Cons i2_def i1_def i0_def CFL_DATA_SECTOR_COUNT_def Let_def del: upt_Suc)
    then show thesis using True I(1) by (intro that) (auto simp: i2_def nth_sec_simps(1))
  next
    case False
    have d2: "cfl_dev i2 = f" "head_sector i2 = ?h" "head_sector i1 = ?h" by (simp_all add: i2_def i1_def i0_def)
    have "cfl_boot_loop F [0..<254] i2 0 False = (CFL_ERR_OK, scanned (head_sector i2) 0 gs' i2, next_seq_num i - 1, True)"
    proof (rule boot_loop_ring [where a = a])
      show "\<not> stored (view (cfl_dev i2)) (nth_sec (head_sector i2) (0 + length gs')) 0 (next_seq_num i, d)" for d
      proof -
        have "nth_sec ?h (length gs') = nxt (nth_sec ?h (length gs' - 1))"
          using False by (cases gs') (simp_all add: nth_sec_simps)
        then show ?thesis using stop [of d] by (simp only: d2 I(5) rg(4) add_0 not_False_eq_True)
      qed
    qed (use u False rg I(1,2) a nr in \<open>simp_all add: d2 nth_sec_simps(1)\<close>)
    then show thesis using False by (intro that) (auto simp: scanned_def d2 i2_def)
  qed
  have E: "ring_end 0 gs' \<le> 4096" by (rule ring_end_le [OF rg(2)]) simp
  define i4 where "i4 = i3\<lparr>next_seq_num := (if gs' \<noteq> [] then q + 1 else 0)\<rparr>"
  have f4: "cfl_dev i4 = f" "tail_sector i4 = nth_sec ?h (length gs' - 1)" "tail_offset i4 = ring_end 0 gs'"
    "head_sector i4 = ?h" "head_offset i4 = 0" "entry_count i4 = length (concat gs')"
    "byte_count i4 = payload_bytes (concat gs')" "meta_slot i4 = meta_slot i" "meta_seq_num i4 = meta_seq_num i"
    "meta_slot_valid i4 = meta_slot_valid i"
    by (simp_all add: i4_def i3' i2_def i1_def i0_def)
  obtain j where j: "j = i4 \<or> j = i4\<lparr>tail_offset := 4096\<rparr>"
    "(if cfl_room_for_record (tail_offset i4) then
        let (err, clean) = cfl_region_erased F (tail_sector i4) (tail_offset i4) (cfl_dev i4)
        in if err \<noteq> CFL_ERR_OK then (err, i4)
           else (CFL_ERR_OK, if \<not> clean then i4\<lparr>tail_offset := CFL_SECTOR_SIZE_BYTES\<rparr> else i4)
      else (CFL_ERR_OK, i4)) = (CFL_ERR_OK, j)"
    and ff: "\<And>x. cfl_room_for_record (tail_offset j) \<Longrightarrow> sec (tail_sector i4) + tail_offset j \<le> x \<Longrightarrow>
       x < sec (tail_sector i4) + 4096 \<Longrightarrow> view (cfl_dev i4) x = 0xFF"
    using retire [of i4] u E by (auto simp: f4)
  have c: "cfl_boot_scan F i1 = (CFL_ERR_OK, j)"
  proof -
    have "i1\<lparr>entry_count := 0, byte_count := 0, tail_sector := head_sector i1, tail_offset := 0\<rparr> = i2"
      by (simp add: i2_def i1_def)
    then show ?thesis
      using i3 j(2) unfolding cfl_boot_scan_def CFL_DATA_SECTOR_COUNT_def
      by (cases "gs' = []") (simp_all add: Let_def i4_def cong: if_cong)
  qed
  ultimately have cr: "cfl_create (Some F) hl 0 f = (CFL_ERR_OK, 1, Some (j\<lparr>cfl_in_use := True\<rparr>))"
    by (simp add: cfl_create_def CFL_MAX_INSTANCES_def i0_def [symmetric])
  have r: "\<not> cfl_room_for_record 4096" by (simp add: cfl_room_for_record_def cfl_consts)
  have sq: "\<exists>a. consec a (concat gs') (next_seq_num i4)"
    using a q rg(1,6) by (cases "gs' = []") (auto simp: i4_def)
  show thesis
  proof (rule that [OF cr])
    show "cfl_dev (j\<lparr>cfl_in_use := True\<rparr>) = f" using j(1) f4 by auto
    show "concat gs' = pre @ concat gs" by (rule rg(1))
    show "meta_ok ?v (j\<lparr>cfl_in_use := True\<rparr>)" using m j(1) f4 by (auto simp: meta_ok_def)
    show "next_seq_num (j\<lparr>cfl_in_use := True\<rparr>) = (if pre @ concat gs = [] then 0 else next_seq_num i)"
    proof -
      have "gs' = [] \<longleftrightarrow> concat gs' = []" using rg(2) by (cases gs') auto
      then have "gs' = [] \<longleftrightarrow> pre @ concat gs = []" by (simp only: rg(1))
      then show ?thesis using j(1) q by (cases "gs' = []") (auto simp: i4_def simp del: append_is_Nil_conv concat_eq_Nil_conv)
    qed
    show "meta_seq_num (j\<lparr>cfl_in_use := True\<rparr>) = meta_seq_num i" using j(1) f4 by auto
    show "log_inv ?v (j\<lparr>cfl_in_use := True\<rparr>) [] gs'"
      using j(1) f4 ff I(1,2) rg(2,5) E nr r sq by (auto simp: log_inv_def)
  qed
qed

section \<open>The head sector on flash\<close>

lemma slot_meta_cong:
  assumes "\<And>x. x < sec 0 \<Longrightarrow> v' x = v x" "k < 2"
  shows "slot_meta v' k = slot_meta v k"
proof -
  have "bytes_at v' (cfl_meta_slot_addr k) 16 = bytes_at v (cfl_meta_slot_addr k) 16"
    using assms meta_addr(2) [of k 0] by (intro bytes_at_cong) auto
  then show ?thesis by (simp add: slot_meta_def)
qed

lemma meta_ok_cong:
  assumes "\<And>x. x < sec 0 \<Longrightarrow> v' x = v x" "head_sector j = head_sector i" "meta_slot j = meta_slot i"
    "meta_seq_num j = meta_seq_num i" "meta_slot_valid j = meta_slot_valid i" "meta_ok v i"
  shows "meta_ok v' j"
proof -
  have s: "slot_meta v' 0 = slot_meta v 0" "slot_meta v' 1 = slot_meta v 1"
    by (intro slot_meta_cong assms(1); simp)+
  have "slot_meta v' k = slot_meta v k" if "k < 2" for k using that by (intro slot_meta_cong assms(1))
  then show ?thesis using assms(2-6) s by (auto simp: meta_ok_def)
qed

text \<open>Storing the head sector.\<close>

lemma meta_store_ok:
  assumes ms: "cfl_meta_store F i = (CFL_ERR_OK, i')" and ok: "meta_ok (view (cfl_dev i)) (i\<lparr>head_sector := h0\<rparr>)"
    and h: "head_sector i < 254" and wrap: "meta_seq_num i \<noteq> 0xFFFFFFFF"
  shows "meta_ok (view (cfl_dev i')) i'"
proof -
  define k where "k = (meta_slot i + 1) mod 2"
  let ?a = "cfl_meta_slot_addr k" and ?raw = "cfl_meta_bytes (meta_seq_num i + 1) (head_sector i)"
  obtain e1 f1 where 1: "cfl_flash_erase F ?a (cfl_dev i) = (e1, f1)" by fastforce
  obtain e2 f2 where 2: "cfl_flash_write F ?a ?raw f1 = (e2, f2)" by fastforce
  have r: "e1 = CFL_ERR_OK" "e2 = CFL_ERR_OK"
    "i' = i\<lparr>cfl_dev := f2, meta_slot := k, meta_seq_num := meta_seq_num i + 1, meta_slot_valid := True\<rparr>"
    using ms 1 2 unfolding cfl_meta_store_def CFL_META_SLOT_COUNT_def k_def [symmetric]
    by (auto simp: Let_def split: if_splits)
  have k2: "k < 2" by (simp add: k_def)
  have "view f1 x = 0xFF" if "?a \<le> x" "x < ?a + 4096" for x
    using cfl_erase_inside [OF meta_addr(1), of k "cfl_dev i" x] that r by (simp add: 1)
  then have "bytes_at (view f2) ?a (length ?raw) = ?raw"
    using cfl_write_erased [of ?a ?raw f1] r by (simp add: 2)
  then have new: "slot_meta (view f2) k = Some (meta_seq_num i + 1, head_sector i)"
    using h by (intro slot_meta_written) simp_all
  have out: "view f2 x = view (cfl_dev i) x" if "x < ?a \<or> ?a + 4096 \<le> x" for x
    using cfl_erase_outside [OF meta_addr(1) that, of "cfl_dev i"] cfl_write_outside [of x ?a ?raw f1] that
    by (auto simp: 1 2)
  have "bytes_at (view f2) (cfl_meta_slot_addr (1 - k)) 16 = bytes_at (view (cfl_dev i)) (cfl_meta_slot_addr (1 - k)) 16"
    using k2 by (intro bytes_at_cong out) (auto simp: cfl_meta_slot_addr_def cfl_consts less_2_cases_iff)
  then have old: "slot_meta (view f2) (1 - k) = slot_meta (view (cfl_dev i)) (1 - k)" by (simp add: slot_meta_def)
  show ?thesis
  proof (cases "meta_slot_valid i")
    case True
    then have "1 - k = meta_slot i" "slot_meta (view (cfl_dev i)) (meta_slot i) = Some (meta_seq_num i, h0)"
      using ok by (auto simp: meta_ok_def k_def less_2_cases_iff)
    then show ?thesis using new old k2 u32_less_succ [OF wrap] by (simp add: meta_ok_def r(3))
  next
    case False
    then have "k = 0" "slot_meta (view (cfl_dev i)) 1 = None" using ok by (auto simp: meta_ok_def k_def)
    then show ?thesis using new old by (simp add: meta_ok_def r(3))
  qed
qed

lemma append_meta:
  assumes inv: "log_inv (view (cfl_dev i)) i pre gs" and ok: "meta_ok (view (cfl_dev i)) i"
    and wrap: "meta_seq_num i \<noteq> 0xFFFFFFFF" and a: "cfl_append F (Some d) i = (CFL_ERR_OK, i')"
  shows "meta_ok (view (cfl_dev i')) i'"
proof -
  have rok: "rec_ok (next_seq_num i, d)" and use: "cfl_in_use i"
    using a inv by (auto simp: cfl_append_def rec_ok_def log_inv_def split: if_splits)
  define mv where "mv = (if tail_offset i + cfl_record_size (length d) > CFL_SECTOR_SIZE_BYTES
                   then cfl_move_tail F (entry_count i = 0) i else (CFL_ERR_OK, i))"
  obtain e i1 where m: "mv = (e, i1)" by fastforce
  obtain e2 f2 where w: "cfl_write_record F (sec (tail_sector i1) + tail_offset i1) (next_seq_num i1) d (cfl_dev i1) = (e2, f2)"
    by fastforce
  have r: "e = CFL_ERR_OK" "i' = after_put (length d) f2 (cfl_record_size (length d)) i1"
    using a append_eq [OF rok use mv_def m w] by (auto split: if_splits)
  have ge: "sec 0 \<le> sec k" for k by (simp add: sec_eq)
  have 1: "meta_ok (view (cfl_dev i1)) i1"
  proof (cases "tail_offset i + cfl_record_size (length d) > CFL_SECTOR_SIZE_BYTES")
    case False
    then show ?thesis using m ok by (simp add: mv_def)
  next
    case True
    let ?n = "nxt (tail_sector i)"
    obtain e0 f1 where f: "cfl_flash_erase F (sec ?n) (cfl_dev i) = (e0, f1)" by fastforce
    have low: "view f1 x = view (cfl_dev i) x" if "x < sec 0" for x
      using cfl_erase_outside [OF sec_aligned, of x ?n "cfl_dev i"] that ge [of ?n] by (simp add: f)
    have ok1: "meta_ok (view f1) j" if "head_sector j = head_sector i" "meta_slot j = meta_slot i"
      "meta_seq_num j = meta_seq_num i" "meta_slot_valid j = meta_slot_valid i" for j :: "'f cfl_inst"
      using low that ok by (rule meta_ok_cong)
    show ?thesis
    proof (cases "entry_count i = 0")
      case False
      then show ?thesis
        using m r(1) True move_tail_eq(1) [OF f] by (auto simp: mv_def intro!: ok1 split: if_splits)
    next
      case empty: True
      define i0 where "i0 = i\<lparr>cfl_dev := f1, tail_sector := ?n, tail_offset := 0, head_sector := ?n, head_offset := 0\<rparr>"
      have "cfl_move_tail F True i = (CFL_ERR_OK, i1)" using m r(1) True empty by (simp add: mv_def)
      then consider "i1 = i0" "?n = head_sector i" | "cfl_meta_store F i0 = (CFL_ERR_OK, i1)"
        using move_tail_eq(2) [OF f] by (auto simp: i0_def Let_def split: if_splits prod.splits)
      then show ?thesis
      proof cases
        case 1
        then show ?thesis by (auto simp: i0_def intro!: ok1)
      next
        case 2
        have "meta_ok (view (cfl_dev i0)) (i0\<lparr>head_sector := head_sector i\<rparr>)"
          by (simp add: i0_def ok1)
        from meta_store_ok [OF 2 this] show ?thesis using wrap by (simp add: i0_def)
      qed
    qed
  qed
  have "view f2 x = view (cfl_dev i1) x" if "x < sec 0" for x
    using write_record(2) [OF w, of x] that ge [of "tail_sector i1"] by simp
  then show ?thesis using 1 by (intro meta_ok_cong [OF _ _ _ _ _ 1]) (simp_all add: r(2) after_put_def)
qed

lemma advance_cases:
  assumes "cfl_advance_head F sz n i = (CFL_ERR_OK, i')" "tail_sector i < 254"
  obtains "cfl_dev i' = cfl_dev i" "head_sector i' = head_sector i" "meta_slot i' = meta_slot i"
      "meta_seq_num i' = meta_seq_num i" "meta_slot_valid i' = meta_slot_valid i"
    | j where "cfl_meta_store F j = (CFL_ERR_OK, i')" "cfl_dev j = cfl_dev i" "head_sector j < 254"
      "meta_slot j = meta_slot i" "meta_seq_num j = meta_seq_num i" "meta_slot_valid j = meta_slot_valid i"
proof -
  have l: "x mod CFL_DATA_SECTOR_COUNT < 254" for x by (simp add: CFL_DATA_SECTOR_COUNT_def)
  show thesis
    using assms that l unfolding cfl_advance_head_def Let_def
    by (fastforce split: if_splits prod.splits)
qed

lemma consume_meta:
  assumes inv: "log_inv (view (cfl_dev i)) i pre gs" and ok: "meta_ok (view (cfl_dev i)) i"
    and wrap: "meta_seq_num i \<noteq> 0xFFFFFFFF" and c: "cfl_consume_oldest F i = (CFL_ERR_OK, i')"
  shows "meta_ok (view (cfl_dev i')) i'"
proof -
  obtain sz n where a: "cfl_advance_head F sz n i = (CFL_ERR_OK, i')"
    using c by (auto simp: cfl_consume_oldest_def Let_def split: if_splits prod.splits)
  have "tail_sector i < 254" using inv by (auto simp: log_inv_def)
  with a show ?thesis
  proof (cases rule: advance_cases)
    case 1
    then show ?thesis by (intro meta_ok_cong [OF _ _ _ _ _ ok]) simp_all
  next
    case (2 j)
    have "meta_ok (view (cfl_dev j)) (j\<lparr>head_sector := head_sector i\<rparr>)"
      by (intro meta_ok_cong [OF _ _ _ _ _ ok]) (simp_all add: 2)
    from meta_store_ok [OF 2(1) this] show ?thesis using wrap 2 by simp
  qed
qed

end

end
