(* ===== verification/Flash_Log_Spec.thy ===== *)
theory Flash_Log_Spec
  imports Flash_Log_Boot
begin

text \<open>
  What the flash log promises its client: a queue that survives resets.  The section on working flash
  shows that no operation fails there, the section on leftovers that the boot scan cannot mistake an
  old record for a new one, and the last section that every sequence of operations and resets
  refines an abstract log with a read position.
\<close>

section \<open>Results of the flash operations\<close>

lemma cfl_erase_result: "fst (cfl_flash_erase F a f) \<in> {CFL_ERR_OK, CFL_ERR_FLASH_ERASE}"
  by (simp add: cfl_flash_erase_def split_def)

lemma cfl_write_result: "fst (cfl_flash_write F a d f) \<in> {CFL_ERR_OK, CFL_ERR_FLASH_WRITE}"
  by (simp add: flash_write_eq split_def)

lemma write_record_result: "fst (cfl_write_record F b q d f) \<in> {CFL_ERR_OK, CFL_ERR_FLASH_WRITE}"
proof -
  have w: "fst (cfl_flash_write F a x f) = CFL_ERR_OK \<or> fst (cfl_flash_write F a x f) = CFL_ERR_FLASH_WRITE" for a x f
    using cfl_write_result [of F a x f] by simp
  show ?thesis
    unfolding cfl_write_record_def Let_def split_def by (simp add: split_def) (metis w)
qed

lemma meta_store_result:
  "fst (cfl_meta_store F i) \<in> {CFL_ERR_OK, CFL_ERR_FLASH_ERASE, CFL_ERR_FLASH_WRITE}"
  using cfl_erase_result [of F] cfl_write_result [of F]
  by (simp add: cfl_meta_store_def Let_def split_def) blast

lemma move_tail_full:
  "cfl_move_tail F was_empty i = (CFL_ERR_FULL, i') \<Longrightarrow> i' = i \<and> nxt (tail_sector i) = head_sector i \<and> \<not> was_empty"
  using cfl_erase_result [of F "sec (nxt (tail_sector i))" "cfl_dev i"] meta_store_result [of F]
  unfolding cfl_move_tail_def nxt_def [symmetric]
  by (auto simp: Let_def split: if_splits prod.splits) (metis cfl_err.distinct fst_conv insertE singletonD)+

lemma meta_store_seq:
  "cfl_meta_store F i = (e, i') \<Longrightarrow> meta_seq_num i' = meta_seq_num i \<or> meta_seq_num i' = meta_seq_num i + 1"
  by (auto simp: cfl_meta_store_def Let_def split: if_splits prod.splits)

lemma report_same [simp]:
  "cfl_dev (cfl_report_flash_error i) = cfl_dev i" "meta_seq_num (cfl_report_flash_error i) = meta_seq_num i"
  "cfl_dev (cfl_report_overflow i) = cfl_dev i" "meta_seq_num (cfl_report_overflow i) = meta_seq_num i"
  "next_seq_num (cfl_report_overflow i) = next_seq_num i"
  by (simp_all add: cfl_report_flash_error_def cfl_report_overflow_def)

lemma append_meta_seq:
  assumes "cfl_append F d i = (e, i')"
  shows "meta_seq_num i' = meta_seq_num i \<or> meta_seq_num i' = meta_seq_num i + 1"
proof -
  have m: "meta_seq_num i1 = meta_seq_num i \<or> meta_seq_num i1 = meta_seq_num i + 1"
    if "cfl_move_tail F w i = (e1, i1)" for w e1 i1
    using that unfolding cfl_move_tail_def
    by (auto simp: Let_def dest: meta_store_seq split: if_splits prod.splits)
  show ?thesis
    using assms unfolding cfl_append_def
    by (auto simp: Let_def dest: m split: if_splits prod.splits option.splits)
qed

lemma consume_meta_seq:
  assumes "cfl_consume_oldest F i = (e, i')"
  shows "meta_seq_num i' = meta_seq_num i \<or> meta_seq_num i' = meta_seq_num i + 1"
  using assms unfolding cfl_consume_oldest_def cfl_advance_head_def
  by (auto simp: Let_def dest!: meta_store_seq split: if_splits prod.splits)

lemma unat_step: "y = x \<or> y = x + 1 \<Longrightarrow> unat y \<le> Suc (unat (x :: u32))"
  by (auto simp: unat_word_ariths)

section \<open>Full and working flash\<close>

lemma append_full:
  assumes a: "cfl_append F (Some d) i = (CFL_ERR_FULL, i')" and inv: "log_inv v i pre gs"
  shows "i' = i" "length gs = 254"
proof -
  have w: "fst (cfl_write_record F b q d f) \<noteq> CFL_ERR_FULL" for b q f
    using write_record_result [of F b q d f] by auto
  have use: "cfl_in_use i" and ec: "entry_count i = length (concat gs)" and l: "length gs \<le> 254"
    and h: "head_sector i < 254" and t: "tail_sector i = nth_sec (head_sector i) (length gs - 1)"
    using inv by (auto simp: log_inv_def)
  have mv: "cfl_move_tail F (entry_count i = 0) i = (CFL_ERR_FULL, i')"
    using a use w unfolding cfl_append_def
    by (auto simp: cfl_check_handle_def Let_def split: if_splits prod.splits) (metis fst_conv)+
  from move_tail_full [OF this]
  have "i' = i" "nxt (tail_sector i) = head_sector i" "gs \<noteq> []" using ec by auto
  then show "i' = i" by simp
  have "nth_sec (head_sector i) (length gs) = nth_sec (head_sector i) 0"
    using \<open>gs \<noteq> []\<close> \<open>nxt (tail_sector i) = head_sector i\<close> h t by (cases gs) (simp_all add: nth_sec_simps)
  then show "length gs = 254"
    using nth_sec_inj [of "head_sector i" "length gs" 0] l \<open>gs \<noteq> []\<close> by (cases "length gs = 254") auto
qed

lemma concat_length: "(\<forall>g \<in> set gs. g \<noteq> []) \<Longrightarrow> length gs \<le> length (concat gs)"
  by (induction gs) (auto simp: Suc_le_eq simp flip: length_greater_0_conv)

lemma ring_groups: "ring v s off gs \<Longrightarrow> \<forall>g \<in> set gs. g \<noteq> []"
  by (induction gs arbitrary: s off) auto

context working_flash
begin

lemma cfl_erase_ok: "usable f \<Longrightarrow> a < 2 ^ 23 \<Longrightarrow> fst (cfl_flash_erase F a f) = CFL_ERR_OK"
  using erase_works [of f a] by (simp add: cfl_flash_erase_def split_def)

lemma cfl_write_ok: "usable f \<Longrightarrow> a + length d \<le> 2 ^ 23 \<Longrightarrow> fst (cfl_flash_write F a d f) = CFL_ERR_OK"
  using write_bytes_works [of f a d] by (simp add: flash_write_eq split_def)

lemma write_record_ok:
  assumes "usable f" "b + 14 + length d \<le> 2 ^ 23"
  shows "fst (cfl_write_record F b q d f) = CFL_ERR_OK"
proof -
  let ?c = "cfl_put_u16 (cfl_crc16_update (cfl_crc16_update 0 (cfl_hdr_bytes CFL_MAGIC q (length d))) d)"
  obtain e1 f1 where 1: "cfl_flash_write F (b + 12) d f = (e1, f1)" by fastforce
  obtain e2 f2 where 2: "cfl_flash_write F (b + 12 + length d) ?c f1 = (e2, f2)" by fastforce
  have "e1 = CFL_ERR_OK" "usable f1"
    using cfl_write_ok [of f "b + 12" d] cfl_write_usable [of f "b + 12" d] assms by (simp_all add: 1)
  moreover from this have "e2 = CFL_ERR_OK" "usable f2"
    using cfl_write_ok [of f1 "b + 12 + length d" ?c] cfl_write_usable [of f1 "b + 12 + length d" ?c] assms
    by (simp_all add: 2)
  ultimately show ?thesis
    using cfl_write_ok [of f2 b "cfl_hdr_bytes CFL_MAGIC q (length d)"] assms 1 2
    by (simp add: cfl_write_record_def Let_def CFL_RECORD_HEADER_SZ_def cfl_hdr_bytes_def)
qed

lemma meta_store_works: "usable (cfl_dev i) \<Longrightarrow> fst (cfl_meta_store F i) = CFL_ERR_OK"
proof -
  assume u: "usable (cfl_dev i)"
  define k where "k = (meta_slot i + 1) mod 2"
  let ?a = "cfl_meta_slot_addr k" and ?raw = "cfl_meta_bytes (meta_seq_num i + 1) (head_sector i)"
  obtain e1 f1 where 1: "cfl_flash_erase F ?a (cfl_dev i) = (e1, f1)" by fastforce
  have b: "?a + 4096 \<le> 2 ^ 23"
    using meta_addr(2) [of k 0] by (simp add: k_def sec_eq)
  have "e1 = CFL_ERR_OK" "usable f1"
    using cfl_erase_ok [OF u, of ?a] cfl_erase_usable [OF u, of ?a] b by (simp_all add: 1)
  moreover from this have "fst (cfl_flash_write F ?a ?raw f1) = CFL_ERR_OK"
    using b by (intro cfl_write_ok) simp_all
  ultimately show ?thesis
    using 1 unfolding cfl_meta_store_def CFL_META_SLOT_COUNT_def k_def [symmetric] by (simp add: Let_def split_def)
qed

lemma move_tail_works:
  assumes u: "usable (cfl_dev i)"
  shows "fst (cfl_move_tail F w i) \<in> {CFL_ERR_OK, CFL_ERR_FULL}"
proof -
  let ?n = "nxt (tail_sector i)"
  obtain e f1 where f: "cfl_flash_erase F (sec ?n) (cfl_dev i) = (e, f1)" by fastforce
  have e: "e = CFL_ERR_OK" "usable f1"
    using cfl_erase_ok [OF u, of "sec ?n"] cfl_erase_usable [OF u, of "sec ?n"] sec_bound [of ?n] f by simp_all
  have ms: "fst (cfl_meta_store F j) = CFL_ERR_OK" if "cfl_dev j = f1" for j
    using meta_store_works [of j] that e(2) by simp
  show ?thesis
    by (cases w) (auto simp: move_tail_eq [OF f] e Let_def ms split: prod.splits dest!: arg_cong [where f = fst])
qed

lemma append_works:
  assumes inv: "log_inv (view (cfl_dev i)) i pre gs" and u: "usable (cfl_dev i)"
    and d: "0 < length d" "length d \<le> CFL_MAX_RECORD_BYTES"
  shows "fst (cfl_append F (Some d) i) \<in> {CFL_ERR_OK, CFL_ERR_FULL}"
proof -
  let ?z = "cfl_record_size (length d)"
  have ok: "rec_ok (next_seq_num i, d)" and use: "cfl_in_use i" using d inv by (auto simp: rec_ok_def log_inv_def)
  define mv where "mv = (if tail_offset i + ?z > CFL_SECTOR_SIZE_BYTES then cfl_move_tail F (entry_count i = 0) i else (CFL_ERR_OK, i))"
  obtain e i1 where m: "mv = (e, i1)" by fastforce
  obtain e2 f2 where w: "cfl_write_record F (sec (tail_sector i1) + tail_offset i1) (next_seq_num i1) d (cfl_dev i1) = (e2, f2)"
    by fastforce
  have e: "e = CFL_ERR_OK \<or> e = CFL_ERR_FULL"
    using m move_tail_works [OF u, of "entry_count i = 0"] by (auto simp: mv_def split: if_splits)
  have "e2 = CFL_ERR_OK" if "e = CFL_ERR_OK"
  proof -
    have "usable (cfl_dev i1) \<and> tail_sector i1 < 254 \<and> tail_offset i1 + ?z \<le> 4096"
    proof (cases "tail_offset i + ?z > CFL_SECTOR_SIZE_BYTES")
      case False
      then show ?thesis using m u inv by (auto simp: mv_def log_inv_def CFL_SECTOR_SIZE_BYTES_def)
    next
      case True
      have z: "?z \<le> 4096" using rsize_bounds(3) [OF ok] by (simp add: rsize_def)
      have mt: "cfl_move_tail F (entry_count i = 0) i = (CFL_ERR_OK, i1)" using m that True by (simp add: mv_def)
      show ?thesis
      proof (cases "gs = []")
        case empty: True
        then have mt: "cfl_move_tail F True i = (CFL_ERR_OK, i1)" using mt inv by (simp add: log_inv_def)
        note me = move_empty [OF inv [unfolded empty] mt]
        show ?thesis using me(1,2,4) u z by (auto simp: log_inv_def)
      next
        case False
        have "(entry_count i = 0) = False" using inv False by (cases gs) (auto simp: log_inv_def)
        with mt have mt: "cfl_move_tail F False i = (CFL_ERR_OK, i1)" by simp
        obtain e0 f1 where f: "cfl_flash_erase F (sec (nxt (tail_sector i))) (cfl_dev i) = (e0, f1)" by fastforce
        have "usable f1" using cfl_erase_usable [OF u] f by (metis snd_conv)
        then show ?thesis using mt move_tail_eq(1) [OF f] z by (auto split: if_splits)
      qed
    qed
    then have "fst (cfl_write_record F (sec (tail_sector i1) + tail_offset i1) (next_seq_num i1) d (cfl_dev i1)) = CFL_ERR_OK"
      using record_size_bounds(2) [of "length d"] sec_bound [of "tail_sector i1"] by (intro write_record_ok) auto
    then show ?thesis by (simp add: w)
  qed
  then show ?thesis
    using append_eq [OF ok use mv_def m w] e by auto
qed

lemma consume_works:
  assumes inv: "log_inv (view (cfl_dev i)) i pre gs" and u: "usable (cfl_dev i)" and rs: "concat gs = r # rs"
  shows "fst (cfl_consume_oldest F i) = CFL_ERR_OK"
proof -
  let ?f = "cfl_dev i" and ?s = "head_sector i" and ?o = "head_offset i"
  have st: "stored (view ?f) ?s ?o r" "?s < 254" by (rule head_stored [OF inv rs]; simp)+
  have use: "cfl_in_use i" and cnt: "entry_count i = Suc (length rs)" "byte_count i = length (snd r) + payload_bytes rs"
    using inv by (auto simp: log_inv_def rs)
  have adv: "cfl_consume_oldest F i = cfl_advance_head F (rsize r) (length (snd r)) i"
    using use cnt head_header [OF u st]
    by (simp add: cfl_consume_oldest_def cfl_check_handle_def rsize_def Let_def)
  have ms: "fst (cfl_meta_store F j) = CFL_ERR_OK" if "cfl_dev j = ?f" for j
    using meta_store_works [of j] that u by simp
  have "fst (cfl_read_header F ?s x ?f) = CFL_ERR_OK" if "cfl_room_for_record x" for x
    using read_hdr [OF u st(2), of x] that by (simp add: cfl_room_for_record_def cfl_consts)
  then show ?thesis
    unfolding adv cfl_advance_head_def Let_def by (simp add: split_def ms)
qed

end

section \<open>Leftovers of earlier laps\<close>

text \<open>Every record header at the start of a sector is older than the next record.\<close>

definition fresh :: "(nat \<Rightarrow> u8) \<Rightarrow> u32 \<Rightarrow> bool" where
  "fresh v q \<longleftrightarrow> (\<forall>s < 254. cfl_header_plausible (hdr_at v s 0) 0 \<longrightarrow> hdr_seq (hdr_at v s 0) < q)"

lemma fresh_no_successor: "fresh v q \<Longrightarrow> s < 254 \<Longrightarrow> \<not> stored v s 0 (q, d)"
  using stored_hdr [of v s 0 "(q, d)"] by (auto simp: fresh_def)

lemma fresh_cong:
  assumes "\<And>x. sec 0 \<le> x \<Longrightarrow> v' x = v x"
  shows "fresh v' q = fresh v q"
proof -
  have "hdr_at v' s 0 = hdr_at v s 0" for s
    unfolding hdr_at_def using assms by (intro arg_cong [where f = cfl_hdr_of] bytes_at_cong) (auto simp: sec_eq)
  then show ?thesis by (simp add: fresh_def)
qed

lemma ring_end_cases:
  assumes "run v s 0 pre" "ring v s (rsizes pre) gs"
  shows "ring_end (rsizes pre) gs = 0 \<or> 16 \<le> ring_end (rsizes pre) gs"
proof -
  have run: "rsizes g = 0 \<or> 16 \<le> rsizes g" if "run v s off g" for s off g
    using that by (cases g) (auto dest!: stored_bounds rsize_bounds(1))
  have "16 \<le> ring_end off gs" if "ring v s off gs" "gs \<noteq> []" for s off
    using that
  proof (induction gs arbitrary: s off)
    case (Cons g gs)
    then show ?case
      using run [of s off g] by (cases "gs = []") (auto simp: ring_end_Cons, cases g, auto dest!: stored_bounds rsize_bounds(1))
  qed simp
  then show ?thesis using assms run [OF assms(1)] by (cases "gs = []") auto
qed

context nor_flash
begin

lemma move_delta:
  assumes m: "cfl_move_tail F w i = (CFL_ERR_OK, i1)"
  shows "tail_sector i1 = nxt (tail_sector i)" "tail_offset i1 = 0" "next_seq_num i1 = next_seq_num i"
    and "sec 0 \<le> x \<Longrightarrow> x < sec (tail_sector i1) \<or> sec (tail_sector i1) + 4096 \<le> x \<Longrightarrow>
      view (cfl_dev i1) x = view (cfl_dev i) x"
    and "sec (tail_sector i1) \<le> x \<Longrightarrow> x < sec (tail_sector i1) + 4096 \<Longrightarrow> view (cfl_dev i1) x = 0xFF"
proof -
  let ?n = "nxt (tail_sector i)"
  obtain e f1 where f: "cfl_flash_erase F (sec ?n) (cfl_dev i) = (e, f1)" by fastforce
  obtain i0 where i0: "cfl_dev i0 = f1" "tail_sector i0 = ?n" "tail_offset i0 = 0" "next_seq_num i0 = next_seq_num i"
    and r: "e = CFL_ERR_OK" "i1 = i0 \<or> cfl_meta_store F i0 = (CFL_ERR_OK, i1)"
  proof (cases w)
    case False
    then show thesis using m move_tail_eq(1) [OF f] by (intro that [of i1]) (auto split: if_splits)
  next
    case True
    define j where "j = i\<lparr>cfl_dev := f1, tail_sector := ?n, tail_offset := 0, head_sector := ?n, head_offset := 0\<rparr>"
    have "e = CFL_ERR_OK" "i1 = j \<or> cfl_meta_store F j = (CFL_ERR_OK, i1)"
      using m move_tail_eq(2) [OF f] True by (auto simp: j_def Let_def split: if_splits prod.splits)
    then show thesis by (intro that [of j]) (simp_all add: j_def)
  qed
  have same: "tail_sector i1 = ?n \<and> tail_offset i1 = 0 \<and> next_seq_num i1 = next_seq_num i \<and>
      (\<forall>x. sec 0 \<le> x \<longrightarrow> view (cfl_dev i1) x = view f1 x)"
    using r(2)
  proof
    assume "i1 = i0" then show ?thesis by (simp add: i0)
  next
    assume ms: "cfl_meta_store F i0 = (CFL_ERR_OK, i1)"
    then show ?thesis using meta_store_same [OF ms] meta_store(2) [OF ms] by (simp add: i0)
  qed
  then show "tail_sector i1 = ?n" "tail_offset i1 = 0" "next_seq_num i1 = next_seq_num i" by simp_all
  have ge: "sec 0 \<le> sec k" for k by (simp add: sec_eq)
  show "view (cfl_dev i1) x = view (cfl_dev i) x"
    if "sec 0 \<le> x" "x < sec (tail_sector i1) \<or> sec (tail_sector i1) + 4096 \<le> x"
    using same that cfl_erase_outside [OF sec_aligned, of x ?n "cfl_dev i"] by (simp add: f)
  show "view (cfl_dev i1) x = 0xFF" if "sec (tail_sector i1) \<le> x" "x < sec (tail_sector i1) + 4096"
    using same that cfl_erase_inside [OF sec_aligned, of ?n "cfl_dev i" x] r(1) ge [of ?n] by (simp add: f)
qed

lemma append_delta:
  assumes inv: "log_inv (view (cfl_dev i)) i pre gs" and a: "cfl_append F (Some d) i = (CFL_ERR_OK, i')"
  obtains t off where "t < 254" "off = 0 \<or> 16 \<le> off" "stored (view (cfl_dev i')) t off (next_seq_num i, d)"
    "\<And>x. sec 0 \<le> x \<Longrightarrow> x < sec t + off \<or> sec t + 4096 \<le> x \<Longrightarrow> view (cfl_dev i') x = view (cfl_dev i) x"
proof -
  let ?z = "cfl_record_size (length d)"
  have ok: "rec_ok (next_seq_num i, d)" and use: "cfl_in_use i"
    using a inv by (auto simp: cfl_append_def rec_ok_def log_inv_def split: if_splits)
  define mv where "mv = (if tail_offset i + ?z > CFL_SECTOR_SIZE_BYTES then cfl_move_tail F (entry_count i = 0) i else (CFL_ERR_OK, i))"
  obtain e i1 where m: "mv = (e, i1)" by fastforce
  obtain e2 f2 where w: "cfl_write_record F (sec (tail_sector i1) + tail_offset i1) (next_seq_num i1) d (cfl_dev i1) = (e2, f2)"
    by fastforce
  have r: "e = CFL_ERR_OK" "e2 = CFL_ERR_OK" "cfl_dev i' = f2"
    using a append_eq [OF ok use mv_def m w] by (auto split: if_splits)
  have "tail_sector i1 < 254 \<and> (tail_offset i1 = 0 \<or> 16 \<le> tail_offset i1) \<and> tail_offset i1 + ?z \<le> 4096 \<and>
      next_seq_num i1 = next_seq_num i \<and>
      (\<forall>x. sec (tail_sector i1) + tail_offset i1 \<le> x \<and> x < sec (tail_sector i1) + 4096 \<longrightarrow> view (cfl_dev i1) x = 0xFF) \<and>
      (\<forall>x. sec 0 \<le> x \<and> (x < sec (tail_sector i1) + tail_offset i1 \<or> sec (tail_sector i1) + 4096 \<le> x) \<longrightarrow>
         view (cfl_dev i1) x = view (cfl_dev i) x)"
  proof (cases "tail_offset i + ?z > CFL_SECTOR_SIZE_BYTES")
    case False
    then have i1: "i1 = i" and fit: "tail_offset i + ?z \<le> 4096" using m by (simp_all add: mv_def CFL_SECTOR_SIZE_BYTES_def)
    have "0 < length d" using ok by (simp add: rec_ok_def)
    then have room: "cfl_room_for_record (tail_offset i)"
      using fit record_size_bounds(1) [of "length d"] by (simp add: cfl_room_for_record_def cfl_consts)
    then have "tail_offset i = ring_end (rsizes pre) gs" using inv by (auto simp: log_inv_def)
    moreover have "run (view (cfl_dev i)) (head_sector i) 0 pre" "ring (view (cfl_dev i)) (head_sector i) (rsizes pre) gs"
      "tail_sector i < 254"
      using inv by (auto simp: log_inv_def)
    ultimately show ?thesis
      using fit room inv ring_end_cases [of "view (cfl_dev i)" "head_sector i" pre gs] by (auto simp: i1 log_inv_def)
  next
    case True
    then have mt: "cfl_move_tail F (entry_count i = 0) i = (CFL_ERR_OK, i1)" using m r(1) by (simp add: mv_def)
    have "?z \<le> 4096" using rsize_bounds(3) [OF ok] by (simp add: rsize_def)
    then show ?thesis using move_delta [OF mt] by simp
  qed
  then have I: "tail_sector i1 < 254" "tail_offset i1 = 0 \<or> 16 \<le> tail_offset i1" "tail_offset i1 + ?z \<le> 4096"
    "next_seq_num i1 = next_seq_num i"
    "\<And>x. sec (tail_sector i1) + tail_offset i1 \<le> x \<Longrightarrow> x < sec (tail_sector i1) + 4096 \<Longrightarrow> view (cfl_dev i1) x = 0xFF"
    "\<And>x. sec 0 \<le> x \<Longrightarrow> x < sec (tail_sector i1) + tail_offset i1 \<or> sec (tail_sector i1) + 4096 \<le> x \<Longrightarrow>
       view (cfl_dev i1) x = view (cfl_dev i) x"
    by blast+
  have rs: "rsize (next_seq_num i, d) = ?z" by (simp add: rsize_def)
  note R = record_written [OF w [unfolded r(2) I(4)] ok, unfolded rs, OF I(3,5)]
  show thesis
  proof (rule that [OF I(1,2)])
    show "stored (view (cfl_dev i')) (tail_sector i1) (tail_offset i1) (next_seq_num i, d)" using R(1) by (simp add: r(3))
    show "view (cfl_dev i') x = view (cfl_dev i) x"
      if "sec 0 \<le> x" "x < sec (tail_sector i1) + tail_offset i1 \<or> sec (tail_sector i1) + 4096 \<le> x" for x
      using R(2) [of x] I(6) [OF that] that(2) unfolding r(3) by (metis not_le)
  qed
qed

lemma append_fresh:
  assumes inv: "log_inv (view (cfl_dev i)) i pre gs" and a: "cfl_append F (Some d) i = (CFL_ERR_OK, i')"
    and fr: "fresh (view (cfl_dev i)) (next_seq_num i)" and q: "next_seq_num i \<noteq> 0xFFFFFFFF"
  shows "fresh (view (cfl_dev i')) (next_seq_num i + 1)"
proof -
  obtain t off where t: "t < 254" "off = 0 \<or> 16 \<le> off" "stored (view (cfl_dev i')) t off (next_seq_num i, d)"
    and same: "\<And>x. sec 0 \<le> x \<Longrightarrow> x < sec t + off \<or> sec t + 4096 \<le> x \<Longrightarrow> view (cfl_dev i') x = view (cfl_dev i) x"
    using append_delta [OF inv a] by metis
  have lt: "next_seq_num i < next_seq_num i + 1" by (rule u32_less_succ [OF q])
  have hdr: "hdr_at (view (cfl_dev i')) s 0 = hdr_at (view (cfl_dev i)) s 0" if st: "s \<noteq> t \<or> 16 \<le> off" for s
  proof -
    have "view (cfl_dev i') x = view (cfl_dev i) x" if x: "sec s \<le> x" "x < sec s + 12" for x
    proof (rule same)
      show "sec 0 \<le> x" using x by (simp add: sec_eq)
      show "x < sec t + off \<or> sec t + 4096 \<le> x"
      proof (cases "s = t")
        case True
        then show ?thesis using st x by auto
      next
        case False
        then have "t \<noteq> s" by simp
        from sec_disjoint [OF this, of x] show ?thesis using x by linarith
      qed
    qed
    then show ?thesis unfolding hdr_at_def by (intro arg_cong [where f = cfl_hdr_of] bytes_at_cong) auto
  qed
  show ?thesis unfolding fresh_def
  proof (intro allI impI)
    fix s assume s: "s < 254" "cfl_header_plausible (hdr_at (view (cfl_dev i')) s 0) 0"
    show "hdr_seq (hdr_at (view (cfl_dev i')) s 0) < next_seq_num i + 1"
    proof (cases "s \<noteq> t \<or> 16 \<le> off")
      case True
      then have "hdr_seq (hdr_at (view (cfl_dev i')) s 0) < next_seq_num i" using s fr hdr by (simp add: fresh_def)
      then show ?thesis using lt by (rule order.strict_trans)
    next
      case False
      then show ?thesis using t(2,3) stored_hdr(1) [of "view (cfl_dev i')" t 0] lt by auto
    qed
  qed
qed

lemma advance_low:
  assumes "cfl_advance_head F sz n i = (e, i')"
  shows "sec 0 \<le> x \<Longrightarrow> view (cfl_dev i') x = view (cfl_dev i) x"
  using assms meta_store(2) [of _ _ i' 0 x] unfolding cfl_advance_head_def Let_def
  by (fastforce split: if_splits prod.splits)

lemma consume_fresh:
  assumes "cfl_consume_oldest F i = (e, i')"
  shows "fresh (view (cfl_dev i')) q = fresh (view (cfl_dev i)) q"
proof (rule fresh_cong)
  fix x assume x: "sec 0 \<le> x"
  show "view (cfl_dev i') x = view (cfl_dev i) x"
    using assms advance_low [OF _ x] unfolding cfl_consume_oldest_def
    by (auto simp: Let_def split: if_splits prod.splits)
qed

end

section \<open>The abstract log\<close>

text \<open>
  Commands a client issues, resets included, and what it sees.  \<open>log_exec\<close> runs a command on an
  instance; a reset drops the instance and creates a new one on the same flash.
\<close>

datatype log_cmd = Log_Append "u8 list" | Log_Peek nat | Log_Consume | Log_Drop | Log_Reset

datatype log_out =
  Log_Status cfl_err | Log_Data "cfl_err \<times> nat option + u8 list" | Log_Found "cfl_err \<times> (nat \<times> nat) option"

fun log_exec :: "'f iqspi_flash \<Rightarrow> log_cmd \<Rightarrow> 'f cfl_inst \<Rightarrow> log_out \<times> 'f cfl_inst" where
  "log_exec F (Log_Append d) i = (case cfl_append F (Some d) i of (e, i') \<Rightarrow> (Log_Status e, i'))"
| "log_exec F (Log_Peek m) i = (Log_Data (cfl_peek_oldest F m i), i)"
| "log_exec F Log_Consume i = (case cfl_consume_oldest F i of (e, i') \<Rightarrow> (Log_Status e, i'))"
| "log_exec F Log_Drop i = (case cfl_drop_oldest F i of (e, i') \<Rightarrow> (Log_Status e, i'))"
| "log_exec F Log_Reset i =
     (case cfl_create (Some F) (cfl_health i) 0 (cfl_dev i) of
        (e, n, None) \<Rightarrow> (Log_Status e, i)
      | (e, n, Some j) \<Rightarrow> (Log_Found (cfl_get_occupancy j), j))"

fun log_run :: "'f iqspi_flash \<Rightarrow> log_cmd list \<Rightarrow> 'f cfl_inst \<Rightarrow> log_out list" where
  "log_run F [] i = []"
| "log_run F (c # cs) i = (case log_exec F c i of (r, i') \<Rightarrow> r # log_run F cs i')"

text \<open>
  The abstract log is the list of all records ever accepted, with a read position.  A record is
  refused only for its size or when at least 254 are unread; a read position moves forward by one
  record, and back at a reset over records that occupy at most one sector of the flash; nothing else
  changes either.  \<open>flash_bytes\<close> is the space of records on the flash: header, checksum and padding
  included.
\<close>

definition flash_bytes :: "u8 list list \<Rightarrow> nat" where
  "flash_bytes ds = sum_list (map (\<lambda>d. cfl_record_size (length d)) ds)"

type_synonym abs_log = "u8 list list \<times> nat"

definition spec_peek :: "nat \<Rightarrow> u8 list list \<Rightarrow> nat \<Rightarrow> cfl_err \<times> nat option + u8 list" where
  "spec_peek m hist p =
     (if p < length hist
      then if length (hist ! p) > m then Inl (CFL_ERR_TOO_LARGE, Some (length (hist ! p))) else Inr (hist ! p)
      else Inl (CFL_ERR_EMPTY, None))"

fun spec_step :: "log_cmd \<Rightarrow> log_out \<Rightarrow> abs_log \<Rightarrow> abs_log option" where
  "spec_step (Log_Append d) (Log_Status e) (hist, p) =
     (if length d = 0 \<or> length d > CFL_MAX_RECORD_BYTES then (if e = CFL_ERR_TOO_LARGE then Some (hist, p) else None)
      else if e = CFL_ERR_OK then Some (hist @ [d], p)
      else if e = CFL_ERR_FULL \<and> 254 \<le> length hist - p then Some (hist, p) else None)"
| "spec_step (Log_Peek m) (Log_Data r) (hist, p) =
     (if r = spec_peek m hist p then Some (hist, p) else None)"
| "spec_step Log_Consume (Log_Status e) (hist, p) =
     (if p < length hist then (if e = CFL_ERR_OK then Some (hist, p + 1) else None)
      else if e = CFL_ERR_EMPTY then Some (hist, p) else None)"
| "spec_step Log_Drop (Log_Status e) (hist, p) =
     (if p < length hist then (if e = CFL_ERR_OK then Some (hist, p + 1) else None)
      else if e = CFL_ERR_EMPTY then Some (hist, p) else None)"
| "spec_step Log_Reset (Log_Found (e, Some (n, b))) (hist, p) =
     (if e = CFL_ERR_OK \<and> n \<le> length hist \<and> length hist - n \<le> p \<and>
         flash_bytes (drop (length hist - n) (take p hist)) \<le> 4096 \<and>
         b = sum_list (map length (drop (length hist - n) hist))
      then Some (hist, length hist - n) else None)"
| "spec_step c r st = None"

fun spec_run :: "log_cmd list \<Rightarrow> log_out list \<Rightarrow> abs_log \<Rightarrow> abs_log option" where
  "spec_run [] [] st = Some st"
| "spec_run (c # cs) (r # rs) st = Option.bind (spec_step c r st) (spec_run cs rs)"
| "spec_run cs rs st = None"

section \<open>Refinement\<close>

lemma rec_ok_sizes: "run v s off rs \<Longrightarrow> 16 * length rs \<le> rsizes rs"
proof (induction rs arbitrary: off)
  case (Cons r rs)
  then show ?case using stored_bounds [of v s off r] rsize_bounds(1) [of r] Cons.IH [of "off + rsize r"] by simp
qed simp

lemma flash_bytes_records: "flash_bytes (map snd rs) = rsizes rs"
  by (simp add: flash_bytes_def rsizes_def rsize_def [abs_def] comp_def)

lemma payload_sum: "payload_bytes rs = sum_list (map length (map snd rs))"
  by (simp add: payload_bytes_def comp_def)

context nor_flash
begin

text \<open>\<open>k\<close> bounds the sequence numbers used so far.\<close>

definition log_rel :: "'f cfl_inst \<Rightarrow> nat \<Rightarrow> abs_log \<Rightarrow> bool" where
  "log_rel i k st \<longleftrightarrow>
    (\<exists>old pre gs. log_inv (view (cfl_dev i)) i pre gs \<and> usable (cfl_dev i) \<and> meta_ok (view (cfl_dev i)) i \<and>
       fresh (view (cfl_dev i)) (next_seq_num i) \<and> (pre = [] \<and> concat gs = [] \<longrightarrow> next_seq_num i = 0) \<and>
       unat (next_seq_num i) \<le> k \<and> unat (meta_seq_num i) \<le> k \<and>
       st = (map snd (old @ pre @ concat gs), length old + length pre))"

lemma log_relI:
  assumes "log_inv (view (cfl_dev i)) i pre gs" "usable (cfl_dev i)" "meta_ok (view (cfl_dev i)) i"
    "fresh (view (cfl_dev i)) (next_seq_num i)" "pre = [] \<and> concat gs = [] \<Longrightarrow> next_seq_num i = 0"
    "unat (next_seq_num i) \<le> k" "unat (meta_seq_num i) \<le> k"
    "fst st = map snd (old @ pre @ concat gs)" "snd st = length old + length pre"
  shows "log_rel i k st"
  using assms unfolding log_rel_def
  by (intro exI [of _ old] exI [of _ pre] exI [of _ gs]) (auto simp: prod_eq_iff)

lemma log_relE:
  assumes "log_rel i k st"
  obtains old pre gs where "log_inv (view (cfl_dev i)) i pre gs" "usable (cfl_dev i)" "meta_ok (view (cfl_dev i)) i"
    "fresh (view (cfl_dev i)) (next_seq_num i)" "pre = [] \<and> concat gs = [] \<Longrightarrow> next_seq_num i = 0"
    "unat (next_seq_num i) \<le> k" "unat (meta_seq_num i) \<le> k"
    "st = (map snd (old @ pre @ concat gs), length old + length pre)"
  using assms unfolding log_rel_def by blast

lemma log_rel_mono: "log_rel i k st \<Longrightarrow> k \<le> m \<Longrightarrow> log_rel i m st"
  by (elim log_relE, intro log_relI) auto

lemma log_rel_events: "log_rel (cfl_report_overflow i) k st = log_rel i k st"
  by (simp add: log_rel_def log_inv_def meta_ok_def cfl_report_overflow_def)

lemma log_rel_peek:
  assumes "log_rel i k (hist, p)"
  shows "cfl_peek_oldest F m i = spec_peek m hist p"
  using assms
proof (rule log_relE)
  fix old pre gs
  assume I: "log_inv (view (cfl_dev i)) i pre gs" "usable (cfl_dev i)"
    "(hist, p) = (map snd (old @ pre @ concat gs), length old + length pre)"
  have use: "cfl_in_use i" and ec: "entry_count i = length (concat gs)" using I(1) by (auto simp: log_inv_def)
  show ?thesis
  proof (cases "concat gs")
    case Nil
    then show ?thesis using use ec I(3) by (simp add: cfl_peek_oldest_def cfl_check_handle_def spec_peek_def)
  next
    case (Cons r rs)
    then show ?thesis using peek_first [OF I(1,2) Cons] I(3) by (simp add: spec_peek_def nth_append)
  qed
qed

lemma rel_append:
  assumes rel: "log_rel i k (hist, p)" and k: "k < 2 ^ 32 - 1" and a: "cfl_append F (Some d) i = (CFL_ERR_OK, i')"
  shows "log_rel i' (Suc k) (hist @ [d], p)"
  using rel
proof (rule log_relE)
  fix old pre gs
  assume I: "log_inv (view (cfl_dev i)) i pre gs" "usable (cfl_dev i)" "meta_ok (view (cfl_dev i)) i"
    "fresh (view (cfl_dev i)) (next_seq_num i)" "unat (next_seq_num i) \<le> k" "unat (meta_seq_num i) \<le> k"
    "(hist, p) = (map snd (old @ pre @ concat gs), length old + length pre)"
  obtain pre' gs' old' where N: "log_inv (view (cfl_dev i')) i' pre' gs'" "usable (cfl_dev i')"
    "concat gs' = concat gs @ [(next_seq_num i, d)]" "next_seq_num i' = next_seq_num i + 1" "pre = old' @ pre'"
    using append_ok [OF I(1,2) a] by blast
  have w: "x \<noteq> 0xFFFFFFFF" if "unat x \<le> k" for x :: u32 using that k by auto
  show ?thesis
  proof (rule log_relI [OF N(1,2)])
    show "meta_ok (view (cfl_dev i')) i'" by (rule append_meta [OF I(1,3) w [OF I(6)] a])
    show "fresh (view (cfl_dev i')) (next_seq_num i')" using append_fresh [OF I(1) a I(4) w [OF I(5)]] by (simp add: N(4))
    show "unat (next_seq_num i') \<le> Suc k" using unat_step [of "next_seq_num i'" "next_seq_num i"] I(5) N(4) by simp
    show "unat (meta_seq_num i') \<le> Suc k" using unat_step [OF append_meta_seq [OF a]] I(6) by simp
    show "fst (hist @ [d], p) = map snd ((old @ old') @ pre' @ concat gs')"
      "snd (hist @ [d], p) = length (old @ old') + length pre'" using I(7) by (simp_all add: N(3,5))
  qed (simp add: N(3))
qed

lemma rel_consume:
  assumes rel: "log_rel i k (hist, p)" and k: "k < 2 ^ 32 - 1" and p: "p < length hist"
    and c: "cfl_consume_oldest F i = (CFL_ERR_OK, i')"
  shows "log_rel i' (Suc k) (hist, p + 1)"
  using rel
proof (rule log_relE)
  fix old pre gs
  assume I: "log_inv (view (cfl_dev i)) i pre gs" "usable (cfl_dev i)" "meta_ok (view (cfl_dev i)) i"
    "fresh (view (cfl_dev i)) (next_seq_num i)" "unat (next_seq_num i) \<le> k" "unat (meta_seq_num i) \<le> k"
    "(hist, p) = (map snd (old @ pre @ concat gs), length old + length pre)"
  obtain r rs where rs: "concat gs = r # rs" using p I(7) by (cases "concat gs") auto
  obtain pre' gs' old' where N: "log_inv (view (cfl_dev i')) i' pre' gs'" "usable (cfl_dev i')"
    "concat gs' = rs" "pre @ [r] = old' @ pre'" "pre' \<noteq> [] \<or> rs \<noteq> []" "next_seq_num i' = next_seq_num i"
    using consume_first [OF I(1,2) rs c] by blast
  have w: "x \<noteq> 0xFFFFFFFF" if "unat x \<le> k" for x :: u32 using that k by auto
  have e: "pre @ r # rs = old' @ pre' @ rs" using N(4) by (metis append.assoc append_Cons append_Nil)
  have l: "length pre + 1 = length old' + length pre'" using arg_cong [OF N(4), of length] by simp
  show ?thesis
  proof (rule log_relI [OF N(1,2)])
    show "meta_ok (view (cfl_dev i')) i'" by (rule consume_meta [OF I(1,3) w [OF I(6)] c])
    show "fresh (view (cfl_dev i')) (next_seq_num i')" using consume_fresh [OF c] I(4) by (simp add: N(6))
    show "unat (next_seq_num i') \<le> Suc k" using I(5) N(6) by simp
    show "unat (meta_seq_num i') \<le> Suc k" using unat_step [OF consume_meta_seq [OF c]] I(6) by simp
    show "fst (hist, p + 1) = map snd ((old @ old') @ pre' @ concat gs')"
      "snd (hist, p + 1) = length (old @ old') + length pre'"
      using I(7) l by (simp_all add: N(3) rs e del: map_append)
  qed (use N(3,5) in auto)
qed

lemma rel_reset:
  assumes rel: "log_rel i k (hist, p)"
  obtains j n b where "cfl_create (Some F) hl 0 (cfl_dev i) = (CFL_ERR_OK, 1, Some j)"
    "cfl_get_occupancy j = (CFL_ERR_OK, Some (n, b))" "n \<le> length hist" "length hist - n \<le> p"
    "p \<le> length hist - n + 256" "flash_bytes (drop (length hist - n) (take p hist)) \<le> 4096" "b = sum_list (map length (drop (length hist - n) hist))"
    "log_rel j k (hist, length hist - n)"
  using rel
proof (rule log_relE)
  fix old pre gs
  assume I: "log_inv (view (cfl_dev i)) i pre gs" "usable (cfl_dev i)" "meta_ok (view (cfl_dev i)) i"
    "fresh (view (cfl_dev i)) (next_seq_num i)" "pre = [] \<and> concat gs = [] \<Longrightarrow> next_seq_num i = 0"
    "unat (next_seq_num i) \<le> k" "unat (meta_seq_num i) \<le> k"
    "(hist, p) = (map snd (old @ pre @ concat gs), length old + length pre)"
  have stop: "\<not> stored (view (cfl_dev i)) (nxt (tail_sector i)) 0 (next_seq_num i, d)" for d
    using I(4) by (rule fresh_no_successor) simp
  obtain j gs' where J: "cfl_create (Some F) hl 0 (cfl_dev i) = (CFL_ERR_OK, 1, Some j)" "cfl_dev j = cfl_dev i"
    "log_inv (view (cfl_dev i)) j [] gs'" "concat gs' = pre @ concat gs" "meta_ok (view (cfl_dev i)) j"
    "next_seq_num j = (if pre @ concat gs = [] then 0 else next_seq_num i)" "meta_seq_num j = meta_seq_num i"
    using create_recovers [OF I(2,1,3) stop] by metis
  have q: "next_seq_num j = next_seq_num i" using J(6) I(5) by (cases "pre @ concat gs = []") auto
  define n where "n = length (concat gs')"
  have n: "length hist - n = length old" "n \<le> length hist" "length pre \<le> n" "p = length old + length pre"
    "drop (length old) hist = map snd (concat gs')"
    using I(8) by (simp_all add: n_def J(4))
  have "run (view (cfl_dev i)) (head_sector i) 0 pre" using I(1) by (auto simp: log_inv_def)
  from rec_ok_sizes [OF this] run_end [OF this] have "length pre \<le> 256" "rsizes pre \<le> 4096" by simp_all
  moreover have "drop (length hist - n) (take p hist) = map snd pre"
    using I(8) n(1) by simp
  moreover have "cfl_get_occupancy j = (CFL_ERR_OK, Some (n, payload_bytes (concat gs')))"
    using J(3) by (auto simp: cfl_get_occupancy_def cfl_check_handle_def log_inv_def n_def)
  moreover have "log_rel j k (hist, length hist - n)"
    using I J q n by (intro log_relI [where gs = gs' and pre = "[]" and old = old]) auto
  ultimately show thesis
    using that [OF J(1), of n "payload_bytes (concat gs')"] n by (simp add: payload_sum flash_bytes_records)
qed

end

context working_flash
begin

lemma log_rel_append:
  assumes rel: "log_rel i k (hist, p)" and k: "k < 2 ^ 32 - 1"
    and d: "0 < length d" "length d \<le> CFL_MAX_RECORD_BYTES" and a: "cfl_append F (Some d) i = (e, i')"
  shows "e = CFL_ERR_OK \<and> log_rel i' (Suc k) (hist @ [d], p) \<or> e = CFL_ERR_FULL \<and> i' = i \<and> 254 \<le> length hist - p"
proof -
  obtain old pre gs where I: "log_inv (view (cfl_dev i)) i pre gs" "usable (cfl_dev i)"
    "hist = map snd (old @ pre @ concat gs)" "p = length old + length pre"
    using rel unfolding log_rel_def by blast
  have "254 \<le> length hist - p \<and> i' = i" if "e = CFL_ERR_FULL"
    using append_full [OF a [unfolded that] I(1)] concat_length [of gs] ring_groups I(1)
    by (auto simp: I(3,4) log_inv_def)
  moreover have "e = CFL_ERR_OK \<or> e = CFL_ERR_FULL" using append_works [OF I(1,2) d] a by auto
  ultimately show ?thesis using rel_append [OF rel k] a by auto
qed

lemma log_rel_consume:
  assumes rel: "log_rel i k (hist, p)" and k: "k < 2 ^ 32 - 1" and c: "cfl_consume_oldest F i = (e, i')"
  shows "if p < length hist then e = CFL_ERR_OK \<and> log_rel i' (Suc k) (hist, p + 1) else e = CFL_ERR_EMPTY \<and> i' = i"
proof -
  obtain old pre gs where I: "log_inv (view (cfl_dev i)) i pre gs" "usable (cfl_dev i)"
    "hist = map snd (old @ pre @ concat gs)" "p = length old + length pre"
    using rel unfolding log_rel_def by blast
  have use: "cfl_in_use i" and ec: "entry_count i = length (concat gs)" using I(1) by (auto simp: log_inv_def)
  have held: "p < length hist \<longleftrightarrow> concat gs \<noteq> []" by (auto simp: I(3,4))
  show ?thesis
  proof (cases "concat gs")
    case Nil
    then show ?thesis using c use ec held by (simp add: cfl_consume_oldest_def cfl_check_handle_def)
  next
    case (Cons r rs)
    then have "e = CFL_ERR_OK" using consume_works [OF I(1,2) Cons] c by simp
    then show ?thesis using rel_consume [OF rel k] c held Cons by simp
  qed
qed

lemma log_rel_drop:
  assumes rel: "log_rel i k (hist, p)" and k: "k < 2 ^ 32 - 1" and d: "cfl_drop_oldest F i = (e, i')"
  shows "if p < length hist then e = CFL_ERR_OK \<and> log_rel i' (Suc k) (hist, p + 1) else e = CFL_ERR_EMPTY \<and> i' = i"
proof -
  obtain e1 i1 where c: "cfl_consume_oldest F i = (e1, i1)" by fastforce
  then have "e = e1" "i' = (if e = CFL_ERR_OK then cfl_report_overflow i1 else i1)"
    using d by (auto simp: cfl_drop_oldest_def)
  then show ?thesis using log_rel_consume [OF rel k c] by (auto simp: log_rel_events split: if_splits)
qed

lemma log_exec_refines:
  assumes rel: "log_rel i k (hist, p)" and k: "k < 2 ^ 32 - 1" and x: "log_exec F c i = (r, i')"
  shows "\<exists>st'. spec_step c r (hist, p) = Some st' \<and> log_rel i' (Suc k) st'"
proof -
  have same: "log_rel i (Suc k) (hist, p)" by (rule log_rel_mono [OF rel]) simp
  have use: "cfl_in_use i" using rel by (auto simp: log_rel_def log_inv_def)
  show ?thesis
  proof (cases c)
    case (Log_Append d)
    obtain e i1 where a: "cfl_append F (Some d) i = (e, i1)" by fastforce
    then have r: "r = Log_Status e" "i' = i1" using x Log_Append by simp_all
    show ?thesis
    proof (cases "length d = 0 \<or> length d > CFL_MAX_RECORD_BYTES")
      case True
      then have "e = CFL_ERR_TOO_LARGE" "i1 = i" using a use by (auto simp: cfl_append_def cfl_check_handle_def)
      then show ?thesis using True same r Log_Append by auto
    next
      case False
      then show ?thesis using log_rel_append [OF rel k _ _ a] same r Log_Append by auto
    qed
  next
    case (Log_Peek m)
    have "cfl_peek_oldest F m i = spec_peek m hist p" by (rule log_rel_peek [OF rel])
    then show ?thesis using x Log_Peek same by auto
  next
    case Log_Consume
    obtain e i1 where c: "cfl_consume_oldest F i = (e, i1)" by fastforce
    then show ?thesis using log_rel_consume [OF rel k c] x Log_Consume same by (auto split: if_splits)
  next
    case Log_Drop
    obtain e i1 where d: "cfl_drop_oldest F i = (e, i1)" by fastforce
    then show ?thesis using log_rel_drop [OF rel k d] x Log_Drop same by (auto split: if_splits)
  next
    case Log_Reset
    from rel_reset [OF rel, of "cfl_health i"] obtain j n b where
      "cfl_create (Some F) (cfl_health i) 0 (cfl_dev i) = (CFL_ERR_OK, 1, Some j)"
      "cfl_get_occupancy j = (CFL_ERR_OK, Some (n, b))" "n \<le> length hist" "length hist - n \<le> p"
      "p \<le> length hist - n + 256" "flash_bytes (drop (length hist - n) (take p hist)) \<le> 4096" "b = sum_list (map length (drop (length hist - n) hist))"
      "log_rel j k (hist, length hist - n)" by metis
    then show ?thesis using x Log_Reset log_rel_mono [of j k _ "Suc k"] by auto
  qed
qed

lemma log_run_refines:
  assumes "log_rel i k st" "k + length cs < 2 ^ 32"
  shows "spec_run cs (log_run F cs i) st \<noteq> None"
  using assms
proof (induction cs arbitrary: i k st)
  case (Cons c cs)
  obtain hist p where st: "st = (hist, p)" by fastforce
  obtain r i' where x: "log_exec F c i = (r, i')" by fastforce
  obtain st' where "spec_step c r st = Some st'" "log_rel i' (Suc k) st'"
    using log_exec_refines [OF _ _ x, of k hist p] Cons.prems by (auto simp: st)
  then show ?case using Cons.IH [of i' "Suc k" st'] Cons.prems(2) by (simp add: x)
qed simp

end

end
