(* ===== verification/Store_And_Forward.thy ===== *)
theory Store_And_Forward
  imports Flash_Log_Spec
begin

text \<open>
  StoreAndForward of the gateway (\<^verbatim>\<open>application/store_and_forward/store_and_forward.c\<close>): entries of
  topic, QoS and payload are serialised into records of the flash log; a full log drops its oldest
  records; reading is in two phases, dequeue and confirm.

  The flash log is reached through the operations of its header, \<open>cfl_if\<close>; the instance holds the
  log's instance, which no other module uses.  A topic is the bytes before its terminator, a payload
  the \<open>len\<close> bytes at its pointer (\<open>len\<close> is a 16-bit length); \<open>None\<close> is the null pointer.  The stage
  buffer is the value passed on: only its first \<open>raw_len\<close> bytes, written just before, are read.
\<close>

section \<open>Interface of the flash log\<close>

record 'l cfl_if =
  if_append :: "u8 list option \<Rightarrow> 'l \<Rightarrow> cfl_err \<times> 'l"
  if_peek_oldest :: "nat \<Rightarrow> 'l \<Rightarrow> cfl_err \<times> nat option + u8 list"
  if_consume_oldest :: "'l \<Rightarrow> cfl_err \<times> 'l"
  if_drop_oldest :: "'l \<Rightarrow> cfl_err \<times> 'l"
  if_get_occupancy :: "'l \<Rightarrow> cfl_err \<times> (nat \<times> nat) option"

definition cfl_api :: "'f iqspi_flash \<Rightarrow> 'f cfl_inst cfl_if" where
  "cfl_api F = \<lparr>if_append = cfl_append F, if_peek_oldest = cfl_peek_oldest F, if_consume_oldest = cfl_consume_oldest F,
     if_drop_oldest = cfl_drop_oldest F, if_get_occupancy = cfl_get_occupancy\<rparr>"

section \<open>State\<close>

definition SAF_TOPIC_MAX :: nat where "SAF_TOPIC_MAX = 64"
definition SAF_HEADER_OVERHEAD_MAX :: nat where "SAF_HEADER_OVERHEAD_MAX = 68"
definition SAF_PAYLOAD_MAX :: nat where "SAF_PAYLOAD_MAX = CFL_MAX_RECORD_BYTES - SAF_HEADER_OVERHEAD_MAX"
definition SAF_MAX_INSTANCES :: nat where "SAF_MAX_INSTANCES = 1"
definition SAF_STAGE_BUF_SIZE :: nat where "SAF_STAGE_BUF_SIZE = CFL_MAX_RECORD_BYTES"
definition SAF_BLOB_TOPIC_LEN_SZ :: nat where "SAF_BLOB_TOPIC_LEN_SZ = 1"
definition SAF_BLOB_QOS_SZ :: nat where "SAF_BLOB_QOS_SZ = 1"
definition SAF_BLOB_PAYLOAD_LEN_SZ :: nat where "SAF_BLOB_PAYLOAD_LEN_SZ = 2"
definition SAF_BLOB_MIN_SZ :: nat where
  "SAF_BLOB_MIN_SZ = SAF_BLOB_TOPIC_LEN_SZ + 1 + SAF_BLOB_QOS_SZ + SAF_BLOB_PAYLOAD_LEN_SZ + 1"

lemmas saf_consts = SAF_TOPIC_MAX_def SAF_HEADER_OVERHEAD_MAX_def SAF_PAYLOAD_MAX_def SAF_STAGE_BUF_SIZE_def
  SAF_BLOB_TOPIC_LEN_SZ_def SAF_BLOB_QOS_SZ_def SAF_BLOB_PAYLOAD_LEN_SZ_def SAF_BLOB_MIN_SZ_def CFL_MAX_RECORD_BYTES_def

datatype saf_err =
    SAF_ERR_OK | SAF_ERR_NULL_PTR | SAF_ERR_NO_RESOURCE | SAF_ERR_NOT_INIT | SAF_ERR_TOO_LARGE
  | SAF_ERR_EMPTY | SAF_ERR_FLASH

record saf_entry =
  saf_topic :: "u8 list"
  saf_qos :: u8
  saf_payload :: "u8 list"

text \<open>\<open>saf_occupancy\<close> are the occupancy values pushed to HealthMonitor, the latest first.\<close>

record 'l saf_inst =
  saf_cfl :: 'l
  saf_health :: bool
  saf_occupancy :: "nat list"
  saf_capacity :: nat
  saf_entry_count :: nat
  has_pending :: bool
  pending_hdr :: saf_entry
  saf_in_use :: bool

section \<open>Helpers\<close>

definition saf_check_handle :: "'l saf_inst option \<Rightarrow> saf_err" where
  "saf_check_handle h =
     (case h of None \<Rightarrow> SAF_ERR_NULL_PTR
      | Some s \<Rightarrow> if \<not> saf_in_use s then SAF_ERR_NOT_INIT else SAF_ERR_OK)"

definition saf_report_occupancy :: "'l saf_inst \<Rightarrow> 'l saf_inst" where
  "saf_report_occupancy s =
     (if \<not> saf_health s then s else s\<lparr>saf_occupancy := saf_entry_count s # saf_occupancy s\<rparr>)"

definition saf_entry_removed :: "'l saf_inst \<Rightarrow> 'l saf_inst" where
  "saf_entry_removed s = (if saf_entry_count s > 0 then s\<lparr>saf_entry_count := saf_entry_count s - 1\<rparr> else s)"

definition saf_serialise :: "u8 list \<Rightarrow> u8 list \<Rightarrow> u8 \<Rightarrow> u8 list" where
  "saf_serialise topic buf qos =
     [of_nat (length topic)] @ topic @ [qos] @ cfl_put_u16 (of_nat (length buf)) @ buf"

text \<open>The fields of the pending entry that were read before a check failed stay written.\<close>

definition saf_deserialise :: "u8 list \<Rightarrow> saf_entry \<Rightarrow> bool \<times> saf_entry" where
  "saf_deserialise raw e =
     (if length raw < SAF_BLOB_MIN_SZ then (False, e)
      else
        let topic_len = unat (raw ! 0); pos = SAF_BLOB_TOPIC_LEN_SZ
        in if topic_len = 0 \<or> topic_len > SAF_TOPIC_MAX \<or>
              pos + topic_len + SAF_BLOB_QOS_SZ + SAF_BLOB_PAYLOAD_LEN_SZ > length raw
           then (False, e)
           else
             let e = e\<lparr>saf_topic := take topic_len (drop pos raw)\<rparr>;
                 pos = pos + topic_len;
                 e = e\<lparr>saf_qos := raw ! pos\<rparr>;
                 pos = pos + SAF_BLOB_QOS_SZ;
                 payload_len = unat (cfl_get_u16 (drop pos raw));
                 pos = pos + SAF_BLOB_PAYLOAD_LEN_SZ
             in if payload_len = 0 \<or> payload_len > SAF_PAYLOAD_MAX \<or> pos + payload_len \<noteq> length raw
                then (False, e)
                else (True, e\<lparr>saf_payload := take payload_len (drop pos raw)\<rparr>))"

section \<open>Public operations\<close>

text \<open>\<open>cfl\<close> is \<open>None\<close> for a null handle; \<open>g_count\<close> instances exist already.\<close>

definition saf_create ::
  "'l cfl_if \<Rightarrow> 'l option \<Rightarrow> bool \<Rightarrow> nat \<Rightarrow> nat \<Rightarrow> saf_err \<times> nat \<times> 'l saf_inst option" where
  "saf_create L cfl health capacity g_count =
     (case cfl of None \<Rightarrow> (SAF_ERR_NULL_PTR, g_count, None)
      | Some l \<Rightarrow>
          if g_count \<ge> SAF_MAX_INSTANCES then (SAF_ERR_NO_RESOURCE, g_count, None)
          else case if_get_occupancy L l of
            (err, occ) \<Rightarrow>
              if err \<noteq> CFL_ERR_OK then (SAF_ERR_FLASH, g_count, None)
              else
                let entries = (case occ of None \<Rightarrow> 0 | Some (n, b) \<Rightarrow> n);
                    s = \<lparr>saf_cfl = l, saf_health = health, saf_occupancy = [], saf_capacity = capacity,
                         saf_entry_count = entries, has_pending = False,
                         pending_hdr = \<lparr>saf_topic = [], saf_qos = 0, saf_payload = []\<rparr>, saf_in_use = True\<rparr>
                in (SAF_ERR_OK, g_count + 1, Some (saf_report_occupancy s)))"

text \<open>The drop-oldest loop of \<^verbatim>\<open>saf_enqueue\<close>: an error to return at once, or the last append result.\<close>

partial_function (option) saf_make_room ::
  "'l cfl_if \<Rightarrow> u8 list \<Rightarrow> cfl_err \<Rightarrow> 'l saf_inst \<Rightarrow> (saf_err option \<times> cfl_err \<times> 'l saf_inst) option"
where
  "saf_make_room L raw rc s =
     (if rc = CFL_ERR_FULL then
        let (drop_rc, l) = if_drop_oldest L (saf_cfl s);
            s = s\<lparr>saf_cfl := l\<rparr>
        in if drop_rc = CFL_ERR_EMPTY then Some (None, rc, s)
           else if drop_rc \<noteq> CFL_ERR_OK then Some (Some SAF_ERR_FLASH, rc, s)
           else
             let s = saf_entry_removed (s\<lparr>has_pending := False\<rparr>);
                 (rc, l) = if_append L (Some raw) (saf_cfl s)
             in saf_make_room L raw rc (s\<lparr>saf_cfl := l\<rparr>)
      else Some (None, rc, s))"

text \<open>\<^verbatim>\<open>strnlen\<close> looks at no more than \<open>SAF_TOPIC_MAX + 1\<close> bytes.\<close>

definition saf_enqueue ::
  "'l cfl_if \<Rightarrow> u8 list option \<Rightarrow> u8 list option \<Rightarrow> u8 \<Rightarrow> 'l saf_inst \<Rightarrow> (saf_err \<times> 'l saf_inst) option"
where
  "saf_enqueue L topic buf qos s =
     (if saf_check_handle (Some s) \<noteq> SAF_ERR_OK then Some (saf_check_handle (Some s), s)
      else case (topic, buf) of
        (Some t, Some b) \<Rightarrow>
          let topic_len = (if length t \<le> SAF_TOPIC_MAX then length t else SAF_TOPIC_MAX + 1)
          in if length b = 0 \<or> length b > SAF_PAYLOAD_MAX \<or> topic_len = 0 \<or> topic_len > SAF_TOPIC_MAX
             then Some (SAF_ERR_TOO_LARGE, s)
             else
               let raw = saf_serialise t b qos;
                   (rc, l) = if_append L (Some raw) (saf_cfl s)
               in (case saf_make_room L raw rc (s\<lparr>saf_cfl := l\<rparr>) of
                     None \<Rightarrow> None
                   | Some (Some err, rc, s) \<Rightarrow> Some (err, s)
                   | Some (None, rc, s) \<Rightarrow>
                       if rc \<noteq> CFL_ERR_OK then Some (SAF_ERR_FLASH, s)
                       else Some (SAF_ERR_OK, saf_report_occupancy (s\<lparr>saf_entry_count := saf_entry_count s + 1\<rparr>)))
      | _ \<Rightarrow> Some (SAF_ERR_NULL_PTR, s))"

text \<open>The search loop of \<^verbatim>\<open>saf_dequeue\<close>.\<close>

partial_function (option) saf_find :: "'l cfl_if \<Rightarrow> 'l saf_inst \<Rightarrow> (saf_err \<times> 'l saf_inst) option"
where
  "saf_find L s =
     (let (found, s, err) =
        (case if_peek_oldest L SAF_STAGE_BUF_SIZE (saf_cfl s) of
           Inr raw \<Rightarrow> (case saf_deserialise raw (pending_hdr s) of (ok, e) \<Rightarrow> (ok, s\<lparr>pending_hdr := e\<rparr>, None))
         | Inl (rc, n) \<Rightarrow>
             (False, s, if rc = CFL_ERR_EMPTY then Some SAF_ERR_EMPTY
                        else if rc = CFL_ERR_CORRUPT then None else Some SAF_ERR_FLASH))
      in if found then Some (SAF_ERR_OK, s)
         else case err of Some e \<Rightarrow> Some (e, s)
         | None \<Rightarrow>
             let (rc, l) = if_consume_oldest L (saf_cfl s);
                 s = s\<lparr>saf_cfl := l\<rparr>
             in if rc \<noteq> CFL_ERR_OK then Some (SAF_ERR_FLASH, s) else saf_find L (saf_entry_removed s))"

text \<open>The entry handed out is the pending one.\<close>

definition saf_dequeue :: "'l cfl_if \<Rightarrow> 'l saf_inst \<Rightarrow> (saf_err \<times> saf_entry option \<times> 'l saf_inst) option" where
  "saf_dequeue L s =
     (if saf_check_handle (Some s) \<noteq> SAF_ERR_OK then Some (saf_check_handle (Some s), None, s)
      else if has_pending s then Some (SAF_ERR_OK, Some (pending_hdr s), s)
      else case saf_find L s of None \<Rightarrow> None
        | Some (err, s) \<Rightarrow>
            if err \<noteq> SAF_ERR_OK then Some (err, None, s)
            else Some (SAF_ERR_OK, Some (pending_hdr s), s\<lparr>has_pending := True\<rparr>))"

definition saf_confirm :: "'l cfl_if \<Rightarrow> 'l saf_inst \<Rightarrow> saf_err \<times> 'l saf_inst" where
  "saf_confirm L s =
     (if saf_check_handle (Some s) \<noteq> SAF_ERR_OK then (saf_check_handle (Some s), s)
      else if \<not> has_pending s then (SAF_ERR_OK, s)
      else
        let (rc, l) = if_consume_oldest L (saf_cfl s);
            s = s\<lparr>saf_cfl := l\<rparr>
        in if rc \<noteq> CFL_ERR_OK then (SAF_ERR_FLASH, s)
           else (SAF_ERR_OK, saf_report_occupancy (saf_entry_removed (s\<lparr>has_pending := False\<rparr>))))"

definition saf_is_empty :: "'l saf_inst \<Rightarrow> saf_err \<times> bool option" where
  "saf_is_empty s =
     (if saf_check_handle (Some s) \<noteq> SAF_ERR_OK then (saf_check_handle (Some s), None)
      else (SAF_ERR_OK, Some (saf_entry_count s = 0)))"

definition saf_get_occupancy :: "'l saf_inst \<Rightarrow> saf_err \<times> (nat \<times> nat) option" where
  "saf_get_occupancy s =
     (if saf_check_handle (Some s) \<noteq> SAF_ERR_OK then (saf_check_handle (Some s), None)
      else (SAF_ERR_OK, Some (saf_entry_count s, saf_capacity s)))"

end
