(* ===== verification/Gateway_Flash.thy ===== *)
theory Gateway_Flash
  imports Qspi_Flash
begin

text \<open>
  The QSPI flash driver of the gateway (\<^verbatim>\<open>drivers/qspi_flash/qspi_flash.c\<close>, MX25R6435F): the three
  operations of the vtable.  The driver differs from the one of the field device in the order of its
  checks, in the device size of 8 MB and in reads that can time out.  Every operation runs under the
  driver's mutex (taken with an infinite timeout) and is atomic.  The commands the chip receives are
  those of \<open>qspi_chip\<close>; \<open>gc_transfer\<close> is the outcome of the polls of a read transfer.
\<close>

section \<open>Driver\<close>

record 'h gw_chip =
  gc_base :: "'h qspi_chip"
  gc_transfer :: "'h \<Rightarrow> nat \<Rightarrow> nat \<Rightarrow> qspi_flash_err"

definition QSPI_FLASH_DEVICE_SIZE_BYTES :: nat where "QSPI_FLASH_DEVICE_SIZE_BYTES = 8 * 1024 * 1024"
definition QSPI_FLASH_PAGE_SIZE_BYTES :: nat where "QSPI_FLASH_PAGE_SIZE_BYTES = 256"

text \<open>The null pointer is \<open>buf_null\<close> or a \<open>None\<close> buffer.\<close>

definition gw_read_unlocked ::
  "'h gw_chip \<Rightarrow> nat \<Rightarrow> bool \<Rightarrow> nat \<Rightarrow> 'h qspi \<Rightarrow> qspi_flash_err \<times> u8 list" where
  "gw_read_unlocked G addr buf_null len q =
     (if \<not> q_initialised q then (QSPI_FLASH_ERR_NOT_INITIALISED, [])
      else if buf_null then (QSPI_FLASH_ERR_NULL_POINTER, [])
      else if chip_busy (gc_base G) (q_chip q) then (QSPI_FLASH_ERR_BUSY, [])
      else if len = 0 then (QSPI_FLASH_ERR_LEN, [])
      else if addr \<ge> q_device_size q \<or> len > q_device_size q - addr then (QSPI_FLASH_ERR_ADDR, [])
      else let err = gc_transfer G (q_chip q) addr len
           in if err \<noteq> QSPI_FLASH_OK then (err, [])
              else (QSPI_FLASH_OK, map (\<lambda>i. chip_byte (gc_base G) (q_chip q) (addr + i)) [0..<len]))"

definition gw_write_page_unlocked ::
  "'h gw_chip \<Rightarrow> nat \<Rightarrow> u8 list option \<Rightarrow> 'h qspi \<Rightarrow> qspi_flash_err \<times> 'h qspi" where
  "gw_write_page_unlocked G addr data q =
     (if \<not> q_initialised q then (QSPI_FLASH_ERR_NOT_INITIALISED, q)
      else case data of None \<Rightarrow> (QSPI_FLASH_ERR_NULL_POINTER, q)
      | Some d \<Rightarrow>
          if chip_busy (gc_base G) (q_chip q) then (QSPI_FLASH_ERR_BUSY, q)
          else if length d = 0 \<or> length d > QSPI_FLASH_PAGE_SIZE_BYTES then (QSPI_FLASH_ERR_LEN, q)
          else if addr \<ge> q_device_size q \<or> length d > q_device_size q - addr then (QSPI_FLASH_ERR_ADDR, q)
          else
            let last = addr + length d - 1
            in if page_base addr \<noteq> page_base last then (QSPI_FLASH_ERR_LEN, q)
               else
                 let (err, h) = chip_wren (gc_base G) (q_chip q)
                 in if err \<noteq> QSPI_FLASH_OK then (err, q\<lparr>q_chip := h\<rparr>)
                    else let (err, h) = chip_program (gc_base G) addr d h in (err, q\<lparr>q_chip := h\<rparr>))"

definition gw_erase_sector_unlocked :: "'h gw_chip \<Rightarrow> nat \<Rightarrow> 'h qspi \<Rightarrow> qspi_flash_err \<times> 'h qspi" where
  "gw_erase_sector_unlocked G addr q =
     (if \<not> q_initialised q then (QSPI_FLASH_ERR_NOT_INITIALISED, q)
      else if chip_busy (gc_base G) (q_chip q) then (QSPI_FLASH_ERR_BUSY, q)
      else if addr \<ge> q_device_size q then (QSPI_FLASH_ERR_ADDR, q)
      else
        let (err, h) = chip_wren (gc_base G) (q_chip q)
        in if err \<noteq> QSPI_FLASH_OK then (err, q\<lparr>q_chip := h\<rparr>)
           else let (err, h) = chip_erase (gc_base G) (sector_base addr) h in (err, q\<lparr>q_chip := h\<rparr>))"

definition gw_read :: "'h gw_chip \<Rightarrow> nat \<Rightarrow> nat \<Rightarrow> 'h qspi \<Rightarrow> qspi_flash_err \<times> u8 list" where
  "gw_read G addr len q =
     (if \<not> q_initialised q then (QSPI_FLASH_ERR_NOT_INITIALISED, []) else gw_read_unlocked G addr False len q)"

definition gw_write_page :: "'h gw_chip \<Rightarrow> nat \<Rightarrow> u8 list \<Rightarrow> 'h qspi \<Rightarrow> qspi_flash_err \<times> 'h qspi" where
  "gw_write_page G addr data q =
     (if \<not> q_initialised q then (QSPI_FLASH_ERR_NOT_INITIALISED, q) else gw_write_page_unlocked G addr (Some data) q)"

definition gw_erase_sector :: "'h gw_chip \<Rightarrow> nat \<Rightarrow> 'h qspi \<Rightarrow> qspi_flash_err \<times> 'h qspi" where
  "gw_erase_sector G addr q =
     (if \<not> q_initialised q then (QSPI_FLASH_ERR_NOT_INITIALISED, q) else gw_erase_sector_unlocked G addr q)"

definition gw_flash_driver :: "'h gw_chip \<Rightarrow> 'h qspi iqspi_flash" where
  "gw_flash_driver G =
    \<lparr>fl_read = gw_read G, fl_write_page = gw_write_page G, fl_erase_sector = gw_erase_sector G\<rparr>"

section \<open>NOR flash\<close>

definition gw_view :: "'h gw_chip \<Rightarrow> 'h qspi \<Rightarrow> nat \<Rightarrow> u8" where
  "gw_view G q a = chip_byte (gc_base G) (q_chip q) a"

definition gw_usable :: "'h gw_chip \<Rightarrow> ('h \<Rightarrow> bool) \<Rightarrow> 'h qspi \<Rightarrow> bool" where
  "gw_usable G readable q \<longleftrightarrow> q_initialised q \<and> q_device_size q = QSPI_FLASH_DEVICE_SIZE_BYTES \<and>
     \<not> chip_busy (gc_base G) (q_chip q) \<and> readable (q_chip q)"

lemmas gw_driver_defs = gw_flash_driver_def gw_read_def gw_write_page_def gw_erase_sector_def
  gw_read_unlocked_def gw_write_page_unlocked_def gw_erase_sector_unlocked_def gw_view_def gw_usable_def
  Let_def split_def

text \<open>A NOR chip whose read transfers complete while it is \<open>readable\<close>.\<close>

locale readable_chip = nor_chip "gc_base G" for G :: "'h gw_chip" +
  fixes readable :: "'h \<Rightarrow> bool"
  assumes transfer_works: "readable h \<Longrightarrow> gc_transfer G h a n = QSPI_FLASH_OK"
    and wren_readable: "readable h \<Longrightarrow> readable (snd (chip_wren (gc_base G) h))"
    and program_readable: "readable h \<Longrightarrow> readable (snd (chip_program (gc_base G) a bs h))"
    and erase_readable: "readable h \<Longrightarrow> readable (snd (chip_erase (gc_base G) a h))"

sublocale readable_chip \<subseteq> gdrv: nor_flash "gw_flash_driver G" "gw_view G" "gw_usable G readable"
proof (unfold_locales, goal_cases)
  case (1 a n f bs)
  then show ?case by (auto simp: gw_driver_defs split: if_splits)
next
  case (2 f n a)
  then show ?case using transfer_works by (simp add: gw_driver_defs QSPI_FLASH_DEVICE_SIZE_BYTES_def)
next
  case (3 f a bs)
  then show ?case using wren_idle program_idle wren_readable program_readable by (auto simp: gw_driver_defs)
next
  case (4 f a)
  then show ?case using wren_idle chip_erase_idle wren_readable erase_readable by (auto simp: gw_driver_defs)
next
  case (5 x a bs f)
  then show ?case using program_outside [OF 5] wren_keeps by (simp add: gw_driver_defs)
next
  case (6 a bs f i)
  then show ?case using program_inside wren_keeps by (auto simp: gw_driver_defs split: if_splits)
next
  case (7 x a f)
  then show ?case using chip_erase_outside [OF 7] wren_keeps by (simp add: gw_driver_defs)
next
  case (8 a f x)
  then show ?case using chip_erase_inside by (auto simp: gw_driver_defs split: if_splits)
qed

locale working_gw_chip = working_chip "gc_base G" sound for G :: "'h gw_chip" and sound :: "'h \<Rightarrow> bool" +
  assumes sound_transfer: "sound h \<Longrightarrow> gc_transfer G h a n = QSPI_FLASH_OK"

sublocale working_gw_chip \<subseteq> rd: readable_chip G sound
  by unfold_locales (use sound_transfer wren_works program_works chip_erase_works in auto)

lemma same_page_sum:
  assumes "bs \<noteq> []" "a mod 256 + length bs \<le> 256" "a + length bs \<le> 2 ^ 23"
  shows "page_base (a + length bs - Suc 0) = page_base a"
proof -
  have "add32 a (length bs - 1) = a + length bs - 1" using assms by (cases bs) (simp_all add: add32_def)
  then show ?thesis using same_page [OF assms] by simp
qed

sublocale working_gw_chip \<subseteq> gwrk: working_flash "gw_flash_driver G" "gw_view G" "gw_usable G sound"
proof (unfold_locales, goal_cases)
  case (1 f bs a)
  then have "length bs \<le> 256" "length bs \<noteq> 0" "a < 8388608" by (cases bs; simp)+
  then show ?case
    using 1 same_page_sum [of bs a] wren_works program_works
    by (simp add: gw_driver_defs QSPI_FLASH_DEVICE_SIZE_BYTES_def QSPI_FLASH_PAGE_SIZE_BYTES_def)
next
  case (2 f a)
  then show ?case using wren_works chip_erase_works by (simp add: gw_driver_defs QSPI_FLASH_DEVICE_SIZE_BYTES_def)
qed

text \<open>The chip in memory behind the gateway's driver.\<close>

definition gw_ram :: "ram_chip_state gw_chip" where
  "gw_ram = \<lparr>gc_base = ram_chip, gc_transfer = (\<lambda>h a n. QSPI_FLASH_OK)\<rparr>"

lemma gw_ram_base: "gc_base gw_ram = ram_chip"
  by (simp add: gw_ram_def)

interpretation gwram: working_gw_chip gw_ram "\<lambda>h. \<not> ram_fails h"
  by (simp add: working_gw_chip_def gw_ram_base ram_working working_gw_chip_axioms_def) (simp add: gw_ram_def)

lemma gw_ram_working: "working_gw_chip gw_ram (\<lambda>h. \<not> ram_fails h)"
  by (fact gwram.working_gw_chip_axioms)

end
