(* ===== verification/Flash_Log_Bounds.thy ===== *)
theory Flash_Log_Bounds
  imports Flash_Log_Spec
begin

text \<open>
  The fields of a flash-log instance stay in the ring whatever the driver returns, and the log writes
  inside its partition only.
\<close>

section \<open>Ranges of the fields\<close>

text \<open>Sector indices fit their 8-bit fields and the ring, offsets lie in a sector, and a log that holds
  records reads headers inside the head sector.\<close>

definition cfl_wf :: "'f cfl_inst \<Rightarrow> bool" where
  "cfl_wf i \<longleftrightarrow> cfl_in_use i \<and> head_sector i < 254 \<and> tail_sector i < 254 \<and> meta_slot i < 2 \<and>
     head_offset i \<le> 4096 \<and> tail_offset i \<le> 4096 \<and>
     (entry_count i \<noteq> 0 \<or> cfl_room_for_record (tail_offset i) \<longrightarrow> cfl_room_for_record (head_offset i))"

lemma plausible_end: "cfl_header_plausible h off \<Longrightarrow> off + cfl_record_size (hdr_len h) \<le> 4096 \<and> cfl_room_for_record off"
  using record_size_bounds(1) [of "hdr_len h"]
  by (auto simp: cfl_header_plausible_def cfl_room_for_record_def cfl_consts split: if_splits)

lemma ring_index [simp]: "x mod CFL_DATA_SECTOR_COUNT < 254"
  by (simp add: CFL_DATA_SECTOR_COUNT_def)

lemma meta_store_wf:
  assumes "cfl_meta_store F i = (e, i')" "cfl_wf i"
  shows "cfl_wf i'"
  using assms by (auto simp: cfl_meta_store_def cfl_wf_def Let_def CFL_META_SLOT_COUNT_def split: if_splits prod.splits)

lemma report_wf [simp]: "cfl_wf (cfl_report_flash_error i) = cfl_wf i" "cfl_wf (cfl_report_overflow i) = cfl_wf i"
  by (simp_all add: cfl_wf_def cfl_report_flash_error_def cfl_report_overflow_def)

lemma dev_wf [simp]: "cfl_wf (i\<lparr>cfl_dev := f\<rparr>) = cfl_wf i"
  by (simp add: cfl_wf_def)

lemma move_tail_wf:
  assumes "cfl_move_tail F (entry_count i = 0) i = (e, i')" "cfl_wf i"
  shows "cfl_wf i'" "e = CFL_ERR_OK \<Longrightarrow> tail_offset i' = 0"
proof -
  let ?n = "nxt (tail_sector i)"
  obtain e1 f1 where f: "cfl_flash_erase F (sec ?n) (cfl_dev i) = (e1, f1)" by fastforce
  define j where "j = i\<lparr>cfl_dev := f1, tail_sector := ?n, tail_offset := 0, head_sector := ?n, head_offset := 0\<rparr>"
  have j: "cfl_wf j" using assms(2) by (simp add: cfl_wf_def j_def cfl_room_for_record_def cfl_consts)
  have jt: "tail_offset j = 0" by (simp add: j_def)
  note ms = meta_store_wf [OF _ j]
  have mo: "tail_offset i1 = 0" if "cfl_meta_store F j = (e2, i1)" for e2 i1
    using that by (auto simp: cfl_meta_store_def Let_def j_def split: if_splits prod.splits)
  have "cfl_wf i' \<and> (e = CFL_ERR_OK \<longrightarrow> tail_offset i' = 0)"
  proof (cases "entry_count i = 0")
    case True
    have "cfl_move_tail F True i =
      (if e1 \<noteq> CFL_ERR_OK then (e1, cfl_report_flash_error (i\<lparr>cfl_dev := f1\<rparr>))
       else if ?n \<noteq> head_sector i
       then (case cfl_meta_store F j of (err, j) \<Rightarrow> if err \<noteq> CFL_ERR_OK then (err, cfl_report_flash_error j) else (CFL_ERR_OK, j))
       else (CFL_ERR_OK, j))"
      by (simp only: move_tail_eq(2) [OF f] j_def Let_def)
    then show ?thesis
      using assms True j ms mo jt by (auto split: if_splits prod.splits)
  next
    case False
    moreover have "cfl_wf (i\<lparr>cfl_dev := f1, tail_sector := ?n, tail_offset := 0\<rparr>)"
      using assms(2) False by (simp add: cfl_wf_def)
    ultimately show ?thesis using assms move_tail_eq(1) [OF f] by (auto split: if_splits)
  qed
  then show "cfl_wf i'" "e = CFL_ERR_OK \<Longrightarrow> tail_offset i' = 0" by simp_all
qed

lemma append_wf:
  assumes a: "cfl_append F data i = (e, i')" and wf: "cfl_wf i"
  shows "cfl_wf i'"
proof (cases "\<exists>d. data = Some d \<and> d \<noteq> [] \<and> length d \<le> CFL_MAX_RECORD_BYTES")
  case False
  then have "i' = i" using a by (auto simp: cfl_append_def split: if_splits option.splits)
  then show ?thesis using wf by simp
next
  case True
  then obtain d where d: "data = Some d" "rec_ok (next_seq_num i, d)" by (auto simp: rec_ok_def)
  have use: "cfl_in_use i" using wf by (simp add: cfl_wf_def)
  let ?z = "cfl_record_size (length d)"
  have z: "16 \<le> ?z" "?z \<le> 4096" using rsize_bounds(1,3) [OF d(2)] by (simp_all add: rsize_def)
  define mv where "mv = (if tail_offset i + ?z > CFL_SECTOR_SIZE_BYTES then cfl_move_tail F (entry_count i = 0) i else (CFL_ERR_OK, i))"
  obtain e1 i1 where m: "mv = (e1, i1)" by fastforce
  obtain e2 f2 where w: "cfl_write_record F (sec (tail_sector i1) + tail_offset i1) (next_seq_num i1) d (cfl_dev i1) = (e2, f2)"
    by fastforce
  have i1: "cfl_wf i1 \<and> (e1 = CFL_ERR_OK \<longrightarrow> tail_offset i1 + ?z \<le> 4096)"
  proof (cases "tail_offset i + ?z > CFL_SECTOR_SIZE_BYTES")
    case True
    then show ?thesis using m move_tail_wf [OF _ wf, of F e1 i1] z by (simp add: mv_def)
  next
    case False
    then show ?thesis using m wf by (simp add: mv_def CFL_SECTOR_SIZE_BYTES_def)
  qed
  show ?thesis
    using a append_eq [OF d(2) use mv_def m w] i1 z
    by (auto simp: d(1) cfl_wf_def after_put_def cfl_room_for_record_def cfl_consts
        cfl_report_flash_error_def split: if_splits)
qed

lemma advance_wf:
  assumes a: "cfl_advance_head F sz n i = (e, i')" and wf: "cfl_wf i" and ne: "entry_count i \<noteq> 0"
    and fit: "head_offset i + sz \<le> 4096"
  shows "cfl_wf i'"
proof -
  define j where "j = i\<lparr>head_offset := head_offset i + sz, entry_count := entry_count i - 1, byte_count := byte_count i - n\<rparr>"
  have room0: "cfl_room_for_record 0" by (simp add: cfl_room_for_record_def cfl_consts)
  have jf: "cfl_in_use j" "head_sector j < 254" "tail_sector j < 254" "meta_slot j < 2" "head_offset j \<le> 4096"
    "tail_offset j \<le> 4096"
    using wf fit by (simp_all add: j_def cfl_wf_def)
  have hj: "head_sector j = head_sector i" by (simp add: j_def)
  have w: "cfl_wf (j\<lparr>head_sector := tail_sector j, head_offset := tail_offset j\<rparr>)" if "entry_count j = 0"
    using jf that by (simp add: cfl_wf_def)
  have w0: "cfl_wf (j\<lparr>head_sector := (head_sector j + 1) mod CFL_DATA_SECTOR_COUNT, head_offset := 0\<rparr>)"
    using jf by (simp add: cfl_wf_def room0)
  have wj: "cfl_wf j" if "cfl_room_for_record (head_offset j)"
    using jf that by (simp add: cfl_wf_def)
  show ?thesis
    using a meta_store_wf [OF _ w] meta_store_wf [OF _ w0] w w0 wj hj
    unfolding cfl_advance_head_def j_def [symmetric] by (auto simp: Let_def split: if_splits prod.splits)
qed

lemma consume_wf:
  assumes "cfl_consume_oldest F i = (e, i')" and wf: "cfl_wf i"
  shows "cfl_wf i'"
proof (cases "entry_count i = 0 \<or> fst (cfl_read_header F (head_sector i) (head_offset i) (cfl_dev i)) \<noteq> CFL_ERR_OK")
  case True
  then have "i' = i" using assms(1) by (auto simp: cfl_consume_oldest_def split: if_splits prod.splits)
  then show ?thesis using wf by simp
next
  case False
  then obtain h where h: "cfl_read_header F (head_sector i) (head_offset i) (cfl_dev i) = (CFL_ERR_OK, h)"
    by (metis prod.collapse)
  have "cfl_room_for_record (head_offset i)" using wf False by (simp add: cfl_wf_def)
  then have f: "head_offset i + 16 \<le> 4096" by (simp add: cfl_room_for_record_def cfl_consts)
  obtain sz n where a: "cfl_advance_head F sz n i = (e, i')" "head_offset i + sz \<le> 4096"
    using assms(1) wf False h f plausible_end [of h "head_offset i"]
    by (auto simp: cfl_consume_oldest_def cfl_check_handle_def cfl_wf_def CFL_MIN_RECORD_BYTES_def Let_def split: if_splits)
  show ?thesis by (rule advance_wf [OF a(1) wf _ a(2)]) (use False in simp)
qed

lemma drop_wf: "cfl_drop_oldest F i = (e, i') \<Longrightarrow> cfl_wf i \<Longrightarrow> cfl_wf i'"
  using consume_wf [of F i] by (auto simp: cfl_drop_oldest_def split: prod.splits if_splits)

section \<open>The boot scan stays in the ring\<close>

lemma meta_scan_range:
  assumes "cfl_meta_scan F ks i = (e, i')" "set ks \<subseteq> {0, 1}" "head_sector i < 254" "meta_slot i < 2"
  shows "head_sector i' < 254 \<and> meta_slot i' < 2 \<and> head_offset i' = head_offset i \<and> cfl_dev i' = cfl_dev i"
  using assms
proof (induction ks arbitrary: i)
  case (Cons k ks)
  obtain e1 raw where r: "cfl_flash_read F (cfl_meta_slot_addr k) CFL_META_SLOT_SZ (cfl_dev i) = (e1, raw)" by fastforce
  have "head_sector (cfl_meta_take k raw i) < 254 \<and> meta_slot (cfl_meta_take k raw i) < 2 \<and>
      head_offset (cfl_meta_take k raw i) = head_offset i \<and> cfl_dev (cfl_meta_take k raw i) = cfl_dev i"
    using Cons.prems by (auto simp: cfl_meta_take_def Let_def CFL_DATA_SECTOR_COUNT_def)
  then show ?case using Cons.IH [of "cfl_meta_take k raw i"] Cons.prems r by (auto split: if_splits)
qed simp

lemma scan_end:
  "cfl_scan_from F s any f off cnt bytes mx = (e, cnt', bytes', off', mx') \<Longrightarrow> off \<le> 4096 \<Longrightarrow> off' \<le> 4096"
proof (induction F s any f off cnt bytes mx rule: cfl_scan_from.induct)
  case (1 F s any f off cnt bytes mx)
  obtain e1 h where h: "cfl_read_header F s off f = (e1, h)" by fastforce
  obtain e2 ok where v: "cfl_verify_record_crc F s off h f = (e2, ok)" by fastforce
  show ?case
  proof (cases "cfl_room_for_record off \<and> e1 = CFL_ERR_OK \<and> cfl_header_plausible h off \<and> e2 = CFL_ERR_OK \<and> ok \<and>
      \<not> ((any \<or> cnt > 0) \<and> hdr_seq h \<noteq> mx + 1)")
    case True
    then have "cfl_scan_from F s any f (off + cfl_record_size (hdr_len h)) (cnt + 1) (bytes + hdr_len h) (hdr_seq h) =
        (e, cnt', bytes', off', mx')"
      using "1.prems"(1) by (subst (asm) cfl_scan_from.simps) (auto simp: h v split: if_splits)
    then show ?thesis
      using "1.IH" [OF _ refl h [symmetric] _ _ refl v [symmetric]] True plausible_end [of h off] by auto
  next
    case False
    then have "off' = off"
      using "1.prems"(1) by (subst (asm) cfl_scan_from.simps) (auto simp: h v split: if_splits)
    then show ?thesis using "1.prems"(2) by simp
  qed
qed

lemma boot_loop_range:
  assumes "cfl_boot_loop F ks i mx any = (e, i', mx', any')" "head_sector i < 254" "tail_sector i < 254" "tail_offset i \<le> 4096"
  shows "head_sector i' = head_sector i \<and> tail_sector i' < 254 \<and> tail_offset i' \<le> 4096 \<and> meta_slot i' = meta_slot i \<and>
    head_offset i' = head_offset i \<and> cfl_dev i' = cfl_dev i"
  using assms
proof (induction ks arbitrary: i mx any)
  case (Cons k ks)
  let ?s = "(head_sector i + k) mod CFL_DATA_SECTOR_COUNT"
  obtain e1 cnt bytes off mx1 where sc: "cfl_scan_sector F ?s any mx (cfl_dev i) = (e1, cnt, bytes, off, mx1)"
    by (metis prod_cases5)
  have off: "off \<le> 4096" using scan_end [OF sc [unfolded cfl_scan_sector_def]] by simp
  show ?case
  proof (cases "e1 \<noteq> CFL_ERR_OK \<or> cnt = 0")
    case True
    then show ?thesis using Cons.prems sc by (auto simp: Let_def split: if_splits)
  next
    case False
    let ?i = "i\<lparr>entry_count := entry_count i + cnt, byte_count := byte_count i + bytes, tail_sector := ?s, tail_offset := off\<rparr>"
    have "cfl_boot_loop F ks ?i mx1 True = (e, i', mx', any')" using Cons.prems(1) sc False by (simp add: Let_def)
    from Cons.IH [OF this] show ?thesis using Cons.prems off by simp
  qed
qed simp

lemma create_wf:
  assumes "cfl_create (Some F) health g f = (e, g', Some i)"
  shows "cfl_wf i" "cfl_dev i = f"
proof -
  define i0 where "i0 = \<lparr>cfl_dev = f, cfl_health = health, cfl_events = [], head_sector = 0, head_offset = 0,
                     tail_sector = 0, tail_offset = 0, next_seq_num = 0, entry_count = 0, byte_count = 0,
                     meta_slot = 0, meta_seq_num = 0, meta_slot_valid = False, cfl_in_use = False\<rparr>"
  obtain e1 i1 where l: "cfl_meta_load F i0 = (e1, i1)" by fastforce
  obtain e2 i2 where b: "cfl_boot_scan F i1 = (e2, i2)" by fastforce
  have i: "i = i2\<lparr>cfl_in_use := True\<rparr>" "e1 = CFL_ERR_OK" "e2 = CFL_ERR_OK"
    using assms l b unfolding cfl_create_def i0_def [symmetric] by (auto simp: Let_def split: if_splits)
  have two: "{0..<2} \<subseteq> {0, Suc 0}" by auto
  have i1: "head_sector i1 < 254 \<and> meta_slot i1 < 2 \<and> head_offset i1 = 0 \<and> cfl_dev i1 = f"
    using meta_scan_range [OF l [unfolded cfl_meta_load_def]] two by (simp add: CFL_META_SLOT_COUNT_def i0_def)
  let ?j = "i1\<lparr>entry_count := 0, byte_count := 0, tail_sector := head_sector i1, tail_offset := 0\<rparr>"
  obtain e3 i3 mx any where lp: "cfl_boot_loop F [0..<CFL_DATA_SECTOR_COUNT] ?j 0 False = (e3, i3, mx, any)"
    by (metis prod_cases4)
  from boot_loop_range [OF lp] i1
  have i3: "head_sector i3 < 254 \<and> tail_sector i3 < 254 \<and> tail_offset i3 \<le> 4096 \<and> meta_slot i3 < 2 \<and>
      head_offset i3 = 0 \<and> cfl_dev i3 = f" by simp
  have "head_sector i2 < 254 \<and> tail_sector i2 < 254 \<and> tail_offset i2 \<le> 4096 \<and> meta_slot i2 < 2 \<and>
      head_offset i2 = 0 \<and> cfl_dev i2 = f"
    using b i3 lp unfolding cfl_boot_scan_def by (auto simp: Let_def CFL_SECTOR_SIZE_BYTES_def split: if_splits prod.splits)
  then show "cfl_wf i" "cfl_dev i = f"
    by (simp_all add: i(1) cfl_wf_def cfl_room_for_record_def cfl_consts)
qed

section \<open>Writes\<close>

text \<open>The state after a sequence of commands.\<close>

definition log_after :: "'f iqspi_flash \<Rightarrow> log_cmd list \<Rightarrow> 'f cfl_inst \<Rightarrow> 'f cfl_inst" where
  "log_after F cs i = fold (\<lambda>c i. snd (log_exec F c i)) cs i"

lemma exec_wf:
  assumes "cfl_wf i"
  shows "cfl_wf (snd (log_exec F c i))"
proof (cases c)
  case (Log_Append d)
  then show ?thesis using append_wf [of F "Some d" i] assms by (cases "cfl_append F (Some d) i") simp
next
  case Log_Consume
  then show ?thesis using consume_wf [of F i] assms by (cases "cfl_consume_oldest F i") simp
next
  case Log_Drop
  then show ?thesis using drop_wf [of F i] assms by (cases "cfl_drop_oldest F i") simp
next
  case Log_Reset
  then show ?thesis using create_wf(1) [of F "cfl_health i" 0 "cfl_dev i"] assms
    by (auto split: prod.splits option.splits)
qed (use assms in simp)

lemma after_wf: "cfl_wf i \<Longrightarrow> cfl_wf (log_after F cs i)"
  by (induction cs arbitrary: i) (simp_all add: log_after_def exec_wf)

definition outside_log :: "nat \<Rightarrow> bool" where
  "outside_log x \<longleftrightarrow> x < 0x20000 \<or> 0x120000 \<le> x"

lemma outside_sec: "outside_log x \<Longrightarrow> s < 254 \<Longrightarrow> x < sec s \<or> sec s + 4096 \<le> x"
  by (auto simp: outside_log_def sec_eq)

lemma outside_meta: "outside_log x \<Longrightarrow> k < 2 \<Longrightarrow> x < cfl_meta_slot_addr k \<or> cfl_meta_slot_addr k + 4096 \<le> x"
  by (auto simp: outside_log_def cfl_meta_slot_addr_def cfl_consts)

context nor_flash
begin

lemma meta_store_outside:
  assumes ms: "cfl_meta_store F i = (err, i')" and x: "outside_log x"
  shows "view (cfl_dev i') x = view (cfl_dev i) x"
proof -
  define k where "k = (meta_slot i + 1) mod 2"
  let ?a = "cfl_meta_slot_addr k" and ?raw = "cfl_meta_bytes (meta_seq_num i + 1) (head_sector i)"
  obtain e1 f1 where 1: "cfl_flash_erase F ?a (cfl_dev i) = (e1, f1)" by fastforce
  obtain e2 f2 where 2: "cfl_flash_write F ?a ?raw f1 = (e2, f2)" by fastforce
  have "cfl_dev i' = f1 \<or> cfl_dev i' = f2"
    using ms 1 2 unfolding cfl_meta_store_def CFL_META_SLOT_COUNT_def k_def [symmetric]
    by (auto simp: Let_def split: if_splits)
  moreover have o: "x < ?a \<or> ?a + 4096 \<le> x" using outside_meta [OF x, of k] by (simp add: k_def)
  ultimately show ?thesis
    using cfl_erase_outside [OF meta_addr(1) o, of "cfl_dev i"] cfl_write_outside [of x ?a ?raw f1] o
    by (auto simp: 1 2)
qed

lemma move_tail_outside:
  assumes m: "cfl_move_tail F w i = (e, i')" and x: "outside_log x"
  shows "view (cfl_dev i') x = view (cfl_dev i) x"
proof -
  let ?n = "nxt (tail_sector i)"
  obtain e1 f1 where f: "cfl_flash_erase F (sec ?n) (cfl_dev i) = (e1, f1)" by fastforce
  have f1: "view f1 x = view (cfl_dev i) x"
    using cfl_erase_outside [OF sec_aligned outside_sec [OF x, of ?n], of "cfl_dev i"] by (simp add: f)
  have ms: "view (cfl_dev j') x = view f1 x" if "cfl_meta_store F j = (e2, j')" "cfl_dev j = f1" for j j' e2
    using meta_store_outside [OF that(1) x] that(2) by simp
  show ?thesis
    using m f1 ms move_tail_eq [OF f] by (cases w) (auto simp: Let_def split: if_splits prod.splits)
qed

lemma append_outside:
  assumes a: "cfl_append F data i = (e, i')" and wf: "cfl_wf i" and x: "outside_log x"
  shows "view (cfl_dev i') x = view (cfl_dev i) x"
proof (cases "\<exists>d. data = Some d \<and> d \<noteq> [] \<and> length d \<le> CFL_MAX_RECORD_BYTES")
  case False
  then have "i' = i" using a by (auto simp: cfl_append_def split: if_splits option.splits)
  then show ?thesis by simp
next
  case True
  then obtain d where d: "data = Some d" "rec_ok (next_seq_num i, d)" by (auto simp: rec_ok_def)
  have use: "cfl_in_use i" using wf by (simp add: cfl_wf_def)
  let ?z = "cfl_record_size (length d)"
  have z: "14 + length d \<le> ?z" "?z \<le> 4096" using rsize_bounds(2) [of "(0, d)"] rsize_bounds(3) [OF d(2)] by (simp_all add: rsize_def)
  define mv where "mv = (if tail_offset i + ?z > CFL_SECTOR_SIZE_BYTES then cfl_move_tail F (entry_count i = 0) i else (CFL_ERR_OK, i))"
  obtain e1 i1 where m: "mv = (e1, i1)" by fastforce
  obtain e2 f2 where w: "cfl_write_record F (sec (tail_sector i1) + tail_offset i1) (next_seq_num i1) d (cfl_dev i1) = (e2, f2)"
    by fastforce
  have i1: "cfl_wf i1 \<and> (e1 = CFL_ERR_OK \<longrightarrow> tail_offset i1 + ?z \<le> 4096) \<and> view (cfl_dev i1) x = view (cfl_dev i) x"
  proof (cases "tail_offset i + ?z > CFL_SECTOR_SIZE_BYTES")
    case True
    then show ?thesis using m move_tail_wf [OF _ wf, of F e1 i1] move_tail_outside [OF _ x] z by (simp add: mv_def)
  next
    case False
    then show ?thesis using m wf by (simp add: mv_def CFL_SECTOR_SIZE_BYTES_def)
  qed
  have "view f2 x = view (cfl_dev i1) x" if "e1 = CFL_ERR_OK"
  proof (rule write_record(2) [OF w])
    show "x < sec (tail_sector i1) + tail_offset i1 \<or> sec (tail_sector i1) + tail_offset i1 + 14 + length d \<le> x"
      using outside_sec [OF x, of "tail_sector i1"] i1 that z by (auto simp: cfl_wf_def)
  qed
  then show ?thesis
    using a append_eq [OF d(2) use mv_def m w] i1 by (auto simp: d(1) split: if_splits)
qed

lemma consume_outside:
  assumes "cfl_consume_oldest F i = (e, i')" and x: "outside_log x"
  shows "view (cfl_dev i') x = view (cfl_dev i) x"
proof -
  have "view (cfl_dev i2) x = view (cfl_dev i) x" if "cfl_advance_head F sz n i = (e2, i2)" for sz n e2 i2
    using that unfolding cfl_advance_head_def
    by (auto simp: Let_def dest!: meta_store_outside [OF _ x] split: if_splits prod.splits)
  then show ?thesis
    using assms unfolding cfl_consume_oldest_def by (auto simp: Let_def split: if_splits prod.splits)
qed

lemma exec_outside:
  assumes wf: "cfl_wf i" and x: "outside_log x"
  shows "view (cfl_dev (snd (log_exec F c i))) x = view (cfl_dev i) x"
proof (cases c)
  case (Log_Append d)
  then show ?thesis using append_outside [OF _ wf x, of "Some d"] by (cases "cfl_append F (Some d) i") simp
next
  case Log_Consume
  then show ?thesis using consume_outside [OF _ x, of i] by (cases "cfl_consume_oldest F i") simp
next
  case Log_Drop
  then show ?thesis using consume_outside [OF _ x, of i]
    by (cases "cfl_consume_oldest F i") (simp add: cfl_drop_oldest_def)
next
  case Log_Reset
  obtain e n h where c: "cfl_create (Some F) (cfl_health i) 0 (cfl_dev i) = (e, n, h)" by (metis prod_cases3)
  show ?thesis
  proof (cases h)
    case (Some j)
    then show ?thesis using create_wf(2) [OF c [unfolded Some]] by (simp add: Log_Reset c)
  qed (simp add: Log_Reset c)
qed simp

lemma after_outside: "cfl_wf i \<Longrightarrow> outside_log x \<Longrightarrow> view (cfl_dev (log_after F cs i)) x = view (cfl_dev i) x"
  by (induction cs arbitrary: i) (simp_all add: log_after_def exec_wf exec_outside)

end

end
