(* ===== verification/Gateway_Log.thy ===== *)
theory Gateway_Log
  imports Gateway_Flash Flash_Log_Bounds
begin

text \<open>
  The flash log on the flash driver of the gateway: what its client can rely on from an erased
  partition on, and what a failed append does.
\<close>

section \<open>An erased partition\<close>

definition erased_log :: "(nat \<Rightarrow> u8) \<Rightarrow> bool" where
  "erased_log v \<longleftrightarrow> (\<forall>a. 0x20000 \<le> a \<and> a < 0x120000 \<longrightarrow> v a = 0xFF)"

lemma erased_log_sec: "erased_log v \<Longrightarrow> s < 254 \<Longrightarrow> sec s \<le> x \<Longrightarrow> x < sec s + 4096 \<Longrightarrow> v x = 0xFF"
  by (simp add: erased_log_def sec_eq)

lemma erased_slot_meta:
  assumes "erased_log v" "k < 2"
  shows "slot_meta v k = None"
proof -
  have "bytes_at v (cfl_meta_slot_addr k) 16 = replicate 16 0xFF"
    using assms by (intro bytes_at_eqI) (auto simp: erased_log_def cfl_meta_slot_addr_def cfl_consts)
  moreover have "replicate 16 y = [y, y, y, y] @ replicate 12 y" for y :: u8 by (simp add: numeral_eq_Suc)
  moreover have "[0xFF, 0xFF, 0xFF, 0xFF] = cfl_put_u32 0xFFFFFFFF" by (simp add: cfl_put_u32_def)
  ultimately have "bytes_at v (cfl_meta_slot_addr k) 16 = cfl_put_u32 0xFFFFFFFF @ replicate 12 0xFF" by metis
  then show ?thesis by (simp add: slot_meta_def CFL_META_MAGIC_def)
qed

lemma erased_fresh: "erased_log v \<Longrightarrow> fresh v 0"
  using erased_no_record [of _ 0 v] erased_log_sec [of v]
  by (auto simp: fresh_def no_record_def cfl_room_for_record_def cfl_consts)

definition erased_inst :: "'f \<Rightarrow> 'f cfl_inst" where
  "erased_inst f = \<lparr>cfl_dev = f, cfl_health = False, cfl_events = [], head_sector = 0, head_offset = 0,
     tail_sector = 0, tail_offset = 0, next_seq_num = 0, entry_count = 0, byte_count = 0,
     meta_slot = 1, meta_seq_num = 0, meta_slot_valid = False, cfl_in_use = True\<rparr>"

context nor_flash
begin

lemma erased_rel:
  assumes "usable f" "erased_log (view f)"
  shows "log_rel (erased_inst f) 0 ([], 0)"
proof (rule log_relI [where pre = "[]" and gs = "[]" and old = "[]"])
  show "log_inv (view (cfl_dev (erased_inst f))) (erased_inst f) [] []"
    using erased_log_sec [OF assms(2), of 0]
    by (auto simp: log_inv_def erased_inst_def nth_sec_simps(1))
  show "meta_ok (view (cfl_dev (erased_inst f))) (erased_inst f)"
    using erased_slot_meta [OF assms(2)] by (simp add: meta_ok_def erased_inst_def)
  show "fresh (view (cfl_dev (erased_inst f))) (next_seq_num (erased_inst f))"
    using erased_fresh [OF assms(2)] by (simp add: erased_inst_def)
qed (simp_all add: erased_inst_def assms)

lemma erased_create:
  assumes "usable f" "erased_log (view f)"
  obtains j where "cfl_create (Some F) hl 0 f = (CFL_ERR_OK, 1, Some j)" "log_rel j 0 ([], 0)"
proof -
  have d: "cfl_dev (erased_inst f) = f" by (simp add: erased_inst_def)
  show thesis
    by (rule rel_reset [OF erased_rel [OF assms], of hl], rule that) (simp_all add: d)
qed

end

context working_flash
begin

lemma erased_run:
  assumes "usable f" "erased_log (view f)" "length cs < 2 ^ 32"
  shows "\<exists>i. cfl_create (Some F) hl 0 f = (CFL_ERR_OK, 1, Some i) \<and> spec_run cs (log_run F cs i) ([], 0) \<noteq> None"
proof -
  obtain j where "cfl_create (Some F) hl 0 f = (CFL_ERR_OK, 1, Some j)" "log_rel j 0 ([], 0)"
    using erased_create [OF assms(1,2)] .
  then show ?thesis using log_run_refines [of j 0 "([], 0)" cs] assms(3) by auto
qed

end

context readable_chip
begin

lemmas gw_after_outside = gdrv.after_outside

end

context working_gw_chip
begin

lemmas gw_erased_run = gwrk.erased_run

end

section \<open>The log outlives resets\<close>

text \<open>C5: On working flash, from an erased partition on, every sequence of fewer than 2^32 appends, peeks,
  consumes, drops and resets behaves like one list of all accepted records with a read position:
  nothing accepted is lost, changed or reordered, a reset moves the read position back only over
  consumed records that occupy together at most one sector (4096 bytes) of the flash, and an append is
  refused only for its size or with 254 records or more unread.\<close>

theorem log_survives_resets:
  assumes "working_gw_chip G sound" "gw_usable G sound q" "erased_log (gw_view G q)" "length cmds < 2 ^ 32"
  shows "\<exists>i. cfl_create (Some (gw_flash_driver G)) health 0 q = (CFL_ERR_OK, 1, Some i) \<and>
    spec_run cmds (log_run (gw_flash_driver G) cmds i) ([], 0) \<noteq> None"
  using working_gw_chip.gw_erased_run [OF assms] .

definition blank_gw :: "ram_chip_state qspi" where
  "blank_gw = \<lparr>q_initialised = True, q_device_size = QSPI_FLASH_DEVICE_SIZE_BYTES,
     q_chip = \<lparr>ram_bytes = (\<lambda>x. 0xFF), ram_fails = False\<rparr>\<rparr>"

lemma blank_gw: "gw_usable gw_ram (\<lambda>h. \<not> ram_fails h) blank_gw" "erased_log (gw_view gw_ram blank_gw)"
  by (simp_all add: gw_usable_def blank_gw_def gw_ram_def ram_chip_def gw_view_def erased_log_def)

theorem log_survives_resets_witness:
  "\<exists>i. cfl_create (Some (gw_flash_driver gw_ram)) True 0 blank_gw = (CFL_ERR_OK, 1, Some i) \<and>
    spec_run [Log_Append [1, 2, 3], Log_Append [4], Log_Peek 100, Log_Consume, Log_Reset, Log_Drop, Log_Peek 100]
      (log_run (gw_flash_driver gw_ram)
        [Log_Append [1, 2, 3], Log_Append [4], Log_Peek 100, Log_Consume, Log_Reset, Log_Drop, Log_Peek 100] i)
      ([], 0) \<noteq> None"
  by (rule log_survives_resets [OF gw_ram_working blank_gw]) simp

section \<open>The fields and the partition\<close>

lemma nor_readable: "nor_chip (gc_base G) \<Longrightarrow> readable_chip G (\<lambda>h. False)"
  by (simp add: readable_chip_def readable_chip_axioms_def)

lemma blank_create:
  obtains i where "cfl_create (Some (gw_flash_driver gw_ram)) True 0 blank_gw = (CFL_ERR_OK, 1, Some i)"
  using working_gw_chip.gw_erased_run [OF gw_ram_working blank_gw, of "[]" True] by auto

text \<open>C32: Whatever the flash driver returns and the flash holds, a created log and every state after any
  appends, peeks, consumes, drops and resets keep the types of the instance: sector indices below
  254 in their 8-bit fields, offsets within a sector, the metadata slot 0 or 1, and a head offset
  that leaves room for a header whenever records are held.\<close>

theorem instance_stays_in_ring:
  assumes "cfl_create (Some F) health g f = (CFL_ERR_OK, g', Some i)"
  shows "cfl_wf (log_after F cmds i)"
  by (rule after_wf [OF create_wf(1) [OF assms]])

theorem instance_stays_in_ring_witness:
  "\<exists>i. cfl_create (Some (gw_flash_driver gw_ram)) True 0 blank_gw = (CFL_ERR_OK, 1, Some i) \<and>
    cfl_wf (log_after (gw_flash_driver gw_ram) [Log_Append [1, 2], Log_Consume, Log_Reset, Log_Drop] i)"
  using blank_create instance_stays_in_ring by metis

text \<open>C29: On any NOR chip, whatever commands fail and whatever the partition holds, no sequence of
  log operations changes a byte outside the log's partition.\<close>

theorem log_stays_in_partition:
  assumes "nor_chip (gc_base G)" "cfl_create (Some (gw_flash_driver G)) health g q = (CFL_ERR_OK, g', Some i)"
    and "a < 0x20000 \<or> 0x120000 \<le> a"
  shows "gw_view G (cfl_dev (log_after (gw_flash_driver G) cmds i)) a = gw_view G q a"
  using readable_chip.gw_after_outside [OF nor_readable [OF assms(1)] create_wf(1) [OF assms(2)], of a cmds]
    create_wf(2) [OF assms(2)] assms(3)
  by (simp add: outside_log_def)

theorem log_stays_in_partition_witness:
  "\<exists>i. cfl_create (Some (gw_flash_driver gw_ram)) True 0 blank_gw = (CFL_ERR_OK, 1, Some i) \<and>
    gw_view gw_ram (cfl_dev (log_after (gw_flash_driver gw_ram) [Log_Append [1, 2], Log_Consume, Log_Reset] i)) 0x120000 = 0xFF"
proof -
  obtain i where i: "cfl_create (Some (gw_flash_driver gw_ram)) True 0 blank_gw = (CFL_ERR_OK, 1, Some i)"
    by (rule blank_create)
  have n: "nor_chip (gc_base gw_ram)" by (simp add: gw_ram_base ram_nor)
  have b: "gw_view gw_ram blank_gw 0x120000 = 0xFF"
    by (simp add: blank_gw_def gw_view_def gw_ram_def ram_chip_def)
  show ?thesis
    using i log_stays_in_partition [OF n i, where a = "0x120000" and cmds = "[Log_Append [1, 2], Log_Consume, Log_Reset]"]
    unfolding b by (intro exI [of _ i] conjI) simp_all
qed

end
