(* ===== verification/Store_And_Forward_Spec.thy ===== *)
theory Store_And_Forward_Spec
  imports Store_And_Forward Gateway_Log
begin

text \<open>
  What StoreAndForward promises: its loops return on any flash, entries come back as they were
  enqueued, and every sequence of operations and resets delivers the entries in order, at least once,
  dropping the oldest only when the log is full.  The proofs rest on two contracts of the flash log,
  the locales \<open>draining_log\<close> and \<open>durable_log\<close>.
\<close>

section \<open>The loops return\<close>

text \<open>Every successful drop or consume leaves fewer records; a refused append leaves as many.\<close>

locale draining_log =
  fixes L :: "'l cfl_if" and count :: "'l \<Rightarrow> nat"
  assumes drop_shrinks: "if_drop_oldest L l = (CFL_ERR_OK, l') \<Longrightarrow> count l' < count l"
    and consume_shrinks: "if_consume_oldest L l = (CFL_ERR_OK, l') \<Longrightarrow> count l' < count l"
    and full_keeps: "if_append L d l = (CFL_ERR_FULL, l') \<Longrightarrow> count l' = count l"
begin

lemma make_room_returns: "saf_make_room L raw rc s \<noteq> None"
proof (induction "count (saf_cfl s)" arbitrary: s rc rule: less_induct)
  case less
  obtain drop_rc l where d: "if_drop_oldest L (saf_cfl s) = (drop_rc, l)" by fastforce
  show ?case
  proof (cases "rc = CFL_ERR_FULL \<and> drop_rc = CFL_ERR_OK")
    case True
    let ?s = "saf_entry_removed (s\<lparr>saf_cfl := l, has_pending := False\<rparr>)"
    have s: "saf_cfl ?s = l" by (simp add: saf_entry_removed_def)
    obtain rc' l' where a: "if_append L (Some raw) l = (rc', l')" by fastforce
    have e: "saf_make_room L raw rc s = saf_make_room L raw rc' (?s\<lparr>saf_cfl := l'\<rparr>)"
      using True by (subst saf_make_room.simps) (simp add: d s a)
    show ?thesis
    proof (cases "rc' = CFL_ERR_FULL")
      case full: True
      have "count l' < count (saf_cfl s)" using full_keeps [OF a [unfolded full]] drop_shrinks d True by simp
      then show ?thesis using less [of "?s\<lparr>saf_cfl := l'\<rparr>" rc'] by (simp add: e)
    next
      case False
      then have "saf_make_room L raw rc' (?s\<lparr>saf_cfl := l'\<rparr>) = Some (None, rc', ?s\<lparr>saf_cfl := l'\<rparr>)"
        by (subst saf_make_room.simps) simp
      then show ?thesis by (simp add: e)
    qed
  next
    case False
    then show ?thesis by (subst saf_make_room.simps) (auto simp: d Let_def)
  qed
qed

lemma find_returns: "saf_find L s \<noteq> None"
proof (induction "count (saf_cfl s)" arbitrary: s rule: less_induct)
  case less
  have again: "saf_find L (saf_entry_removed (s'\<lparr>saf_cfl := l\<rparr>)) \<noteq> None"
    if "if_consume_oldest L (saf_cfl s) = (CFL_ERR_OK, l)" for s' l
    using less [of "saf_entry_removed (s'\<lparr>saf_cfl := l\<rparr>)"] consume_shrinks [OF that] by (simp add: saf_entry_removed_def)
  show ?case
    using again by (subst saf_find.simps) (auto simp: Let_def split: sum.split prod.split option.split if_splits)
qed

lemma enqueue_returns: "saf_enqueue L topic buf qos s \<noteq> None"
proof -
  have "saf_make_room L raw rc s1 = Some (the (saf_make_room L raw rc s1))" for raw rc s1
    using make_room_returns by simp
  then show ?thesis
    unfolding saf_enqueue_def Let_def
    by (auto split: option.splits prod.splits) (metis option.distinct(1))+
qed

lemma dequeue_returns: "saf_dequeue L s \<noteq> None"
  using find_returns [of s] by (auto simp: saf_dequeue_def split: option.splits)

end

text \<open>The flash log is such a log, on any flash driver.\<close>

lemma consume_count: "cfl_consume_oldest F i = (CFL_ERR_OK, i') \<Longrightarrow> entry_count i' < entry_count i"
proof -
  assume c: "cfl_consume_oldest F i = (CFL_ERR_OK, i')"
  have ms: "entry_count j' = entry_count j" if "cfl_meta_store F j = (e, j')" for j j' e
    using that by (auto simp: cfl_meta_store_def Let_def split: if_splits prod.splits)
  have "entry_count i2 = entry_count i - 1" if "cfl_advance_head F sz n i = (e, i2)" for sz n e i2
    using that unfolding cfl_advance_head_def by (auto simp: Let_def dest!: ms split: if_splits prod.splits)
  then show ?thesis
    using c unfolding cfl_consume_oldest_def by (auto simp: Let_def split: if_splits prod.splits)
qed

lemma append_refused:
  assumes "cfl_append F d i = (CFL_ERR_FULL, i')"
  shows "i' = i"
proof -
  have w: "cfl_write_record F b q x f \<noteq> (CFL_ERR_FULL, f')" for b q x f f'
    using write_record_result [of F b q x f] by auto
  show ?thesis
    using assms w unfolding cfl_append_def cfl_check_handle_def
    by (auto simp: Let_def dest: move_tail_full split: if_splits option.splits prod.splits)
qed

interpretation any_log: draining_log "cfl_api F" entry_count for F :: "'f iqspi_flash"
proof (unfold_locales, goal_cases)
  case (1 l l')
  then obtain l1 where "cfl_consume_oldest F l = (CFL_ERR_OK, l1)" "entry_count l' = entry_count l1"
    by (auto simp: cfl_api_def cfl_drop_oldest_def cfl_report_overflow_def split: prod.splits if_splits)
  then show ?case using consume_count by metis
next
  case (2 l l')
  then show ?case by (simp add: cfl_api_def consume_count)
next
  case (3 d l l')
  then show ?case using append_refused [of F d l l'] by (simp add: cfl_api_def)
qed

section \<open>Entries as records\<close>

definition entry_ok :: "saf_entry \<Rightarrow> bool" where
  "entry_ok e \<longleftrightarrow> 0 < length (saf_topic e) \<and> length (saf_topic e) \<le> SAF_TOPIC_MAX \<and>
     0 < length (saf_payload e) \<and> length (saf_payload e) \<le> SAF_PAYLOAD_MAX"

definition blob :: "saf_entry \<Rightarrow> u8 list" where
  "blob e = saf_serialise (saf_topic e) (saf_payload e) (saf_qos e)"

lemma blob_length: "length (blob e) = 4 + length (saf_topic e) + length (saf_payload e)"
  by (simp add: blob_def saf_serialise_def cfl_put_u16_def)

lemma blob_fits: "entry_ok e \<Longrightarrow> 0 < length (blob e) \<and> length (blob e) \<le> CFL_MAX_RECORD_BYTES"
  by (simp add: entry_ok_def blob_length saf_consts)

lemma deserialise_blob:
  assumes "entry_ok e"
  shows "saf_deserialise (blob e) e0 = (True, e)"
proof -
  let ?t = "saf_topic e" and ?p = "saf_payload e"
  have l: "unat (of_nat (length ?t) :: u8) = length ?t" "unat (of_nat (length ?p) :: u16) = length ?p"
    using assms by (simp_all add: entry_ok_def saf_consts unat_of_nat)
  have b: "blob e ! 0 = of_nat (length ?t)" "drop 1 (blob e) = ?t @ [saf_qos e] @ cfl_put_u16 (of_nat (length ?p)) @ ?p"
    by (simp_all add: blob_def saf_serialise_def)
  have q: "blob e ! (1 + length ?t) = saf_qos e"
    "drop (1 + length ?t + 1) (blob e) = cfl_put_u16 (of_nat (length ?p)) @ ?p"
    "drop (1 + length ?t + 1 + 2) (blob e) = ?p"
    by (simp_all add: blob_def saf_serialise_def nth_append cfl_put_u16_def)
  have n: "\<not> length ?t + length ?p < 2" using assms unfolding entry_ok_def by linarith
  have e: "e0\<lparr>saf_topic := ?t, saf_qos := saf_qos e, saf_payload := ?p\<rparr> = e" by simp
  show ?thesis
    using assms l b q e n unfolding saf_deserialise_def Let_def
    by (simp add: entry_ok_def blob_length saf_consts)
qed

section \<open>Delivery\<close>

text \<open>
  The contract of a log that survives resets.  \<open>rel l k (hist, p)\<close>: the log holds the records of
  \<open>hist\<close> from position \<open>p\<close> on, and \<open>k\<close> bounds the sequence numbers used.  \<open>reset\<close> creates the log again.
\<close>

locale durable_log = draining_log L count for L :: "'l cfl_if" and count :: "'l \<Rightarrow> nat" +
  fixes rel :: "'l \<Rightarrow> nat \<Rightarrow> abs_log \<Rightarrow> bool" and reset :: "'l \<Rightarrow> cfl_err \<times> 'l option"
  assumes rel_mono: "rel l k st \<Longrightarrow> k \<le> m \<Longrightarrow> rel l m st"
    and rel_append: "rel l k (h, p) \<Longrightarrow> k < 2 ^ 32 - 1 \<Longrightarrow> 0 < length d \<Longrightarrow> length d \<le> CFL_MAX_RECORD_BYTES \<Longrightarrow>
      (\<exists>l'. if_append L (Some d) l = (CFL_ERR_OK, l') \<and> rel l' (Suc k) (h @ [d], p)) \<or>
      if_append L (Some d) l = (CFL_ERR_FULL, l) \<and> 254 \<le> length h - p"
    and rel_peek: "rel l k (h, p) \<Longrightarrow> if_peek_oldest L m l = spec_peek m h p"
    and rel_consume: "rel l k (h, p) \<Longrightarrow> k < 2 ^ 32 - 1 \<Longrightarrow> p < length h \<Longrightarrow>
      \<exists>l'. if_consume_oldest L l = (CFL_ERR_OK, l') \<and> rel l' (Suc k) (h, p + 1)"
    and rel_drop: "rel l k (h, p) \<Longrightarrow> k < 2 ^ 32 - 1 \<Longrightarrow> p < length h \<Longrightarrow>
      \<exists>l'. if_drop_oldest L l = (CFL_ERR_OK, l') \<and> rel l' (Suc k) (h, p + 1)"
    and rel_occupancy: "rel l k (h, p) \<Longrightarrow> \<exists>b. if_get_occupancy L l = (CFL_ERR_OK, Some (length h - p, b))"
    and rel_reset: "rel l k (h, p) \<Longrightarrow>
      \<exists>l' p'. reset l = (CFL_ERR_OK, Some l') \<and> rel l' k (h, p') \<and> p' \<le> p \<and> p \<le> p' + 256"

text \<open>Commands of the client, with the entry count the operation leaves; \<open>None\<close> is a call that does not
  return.\<close>

datatype saf_cmd = Saf_Enqueue saf_entry | Saf_Dequeue | Saf_Confirm | Saf_Reset
datatype saf_out = Saf_Status saf_err nat | Saf_Entry saf_err "saf_entry option"

fun saf_exec ::
  "'l cfl_if \<Rightarrow> ('l \<Rightarrow> cfl_err \<times> 'l option) \<Rightarrow> saf_cmd \<Rightarrow> 'l saf_inst \<Rightarrow> (saf_out \<times> 'l saf_inst) option"
where
  "saf_exec L reset (Saf_Enqueue e) s =
     map_option (\<lambda>(err, s'). (Saf_Status err (saf_entry_count s'), s'))
       (saf_enqueue L (Some (saf_topic e)) (Some (saf_payload e)) (saf_qos e) s)"
| "saf_exec L reset Saf_Dequeue s = map_option (\<lambda>(err, r, s'). (Saf_Entry err r, s')) (saf_dequeue L s)"
| "saf_exec L reset Saf_Confirm s = Some (case saf_confirm L s of (err, s') \<Rightarrow> (Saf_Status err (saf_entry_count s'), s'))"
| "saf_exec L reset Saf_Reset s =
     Some (case reset (saf_cfl s) of (e, l) \<Rightarrow>
             case saf_create L l (saf_health s) (saf_capacity s) 0 of
               (err, n, None) \<Rightarrow> (Saf_Status err (saf_entry_count s), s)
             | (err, n, Some s') \<Rightarrow> (Saf_Status err (saf_entry_count s'), s'))"

fun saf_run :: "'l cfl_if \<Rightarrow> ('l \<Rightarrow> cfl_err \<times> 'l option) \<Rightarrow> saf_cmd list \<Rightarrow> 'l saf_inst \<Rightarrow> saf_out list option" where
  "saf_run L reset [] s = Some []"
| "saf_run L reset (c # cs) s =
     (case saf_exec L reset c s of None \<Rightarrow> None | Some (r, s') \<Rightarrow> map_option ((#) r) (saf_run L reset cs s'))"

text \<open>
  The promise, on the list of all accepted entries with a read position and whether an entry is
  handed out: a dequeue gives the entry at the position, a confirm moves past it, an enqueue adds the
  entry and moves the position only if at least 254 entries remain before the last step, a reset
  moves it back by at most 256 entries.
\<close>

type_synonym saf_abs = "saf_entry list \<times> nat \<times> bool"

fun saf_spec :: "saf_cmd \<Rightarrow> saf_out \<Rightarrow> saf_abs \<Rightarrow> saf_abs option" where
  "saf_spec (Saf_Enqueue e) (Saf_Status err n) (h, p, pend) =
     (if entry_ok e
      then let p' = length h + 1 - n
           in if err = SAF_ERR_OK \<and> 1 \<le> n \<and> n \<le> length h - p + 1 \<and> (p' = p \<or> 254 \<le> length h - (p' - 1))
              then Some (h @ [e], p', pend \<and> p' = p) else None
      else if err = SAF_ERR_TOO_LARGE \<and> n = length h - p then Some (h, p, pend) else None)"
| "saf_spec Saf_Dequeue (Saf_Entry err r) (h, p, pend) =
     (if p < length h then (if err = SAF_ERR_OK \<and> r = Some (h ! p) then Some (h, p, True) else None)
      else if err = SAF_ERR_EMPTY \<and> r = None then Some (h, p, pend) else None)"
| "saf_spec Saf_Confirm (Saf_Status err n) (h, p, pend) =
     (let p' = (if pend then p + 1 else p)
      in if err = SAF_ERR_OK \<and> n = length h - p' then Some (h, p', False) else None)"
| "saf_spec Saf_Reset (Saf_Status err n) (h, p, pend) =
     (if err = SAF_ERR_OK \<and> n \<le> length h \<and> length h - n \<le> p \<and> p \<le> length h - n + 256
      then Some (h, length h - n, False) else None)"
| "saf_spec c r st = None"

fun saf_spec_run :: "saf_cmd list \<Rightarrow> saf_out list \<Rightarrow> saf_abs \<Rightarrow> saf_abs option" where
  "saf_spec_run [] [] st = Some st"
| "saf_spec_run (c # cs) (r # rs) st = Option.bind (saf_spec c r st) (saf_spec_run cs rs)"
| "saf_spec_run cs rs st = None"

context durable_log
begin

text \<open>\<open>b\<close> bounds the sequence numbers used together with the entries still to be consumed.\<close>

definition saf_rel :: "'l saf_inst \<Rightarrow> nat \<Rightarrow> saf_abs \<Rightarrow> bool" where
  "saf_rel s b st \<longleftrightarrow> (case st of (h, p, pend) \<Rightarrow>
     (\<exists>k. rel (saf_cfl s) k (map blob h, p) \<and> k + (length h - p) \<le> b) \<and> p \<le> length h \<and> (\<forall>e \<in> set h. entry_ok e) \<and>
     saf_entry_count s = length h - p \<and> saf_in_use s \<and> has_pending s = pend \<and>
     (pend \<longrightarrow> p < length h \<and> pending_hdr s = h ! p))"

lemma report_saf [simp]:
  "saf_cfl (saf_report_occupancy s) = saf_cfl s" "saf_entry_count (saf_report_occupancy s) = saf_entry_count s"
  "saf_in_use (saf_report_occupancy s) = saf_in_use s" "has_pending (saf_report_occupancy s) = has_pending s"
  "pending_hdr (saf_report_occupancy s) = pending_hdr s"
  by (simp_all add: saf_report_occupancy_def)

lemma removed_saf [simp]:
  "saf_cfl (saf_entry_removed s) = saf_cfl s" "saf_entry_count (saf_entry_removed s) = saf_entry_count s - 1"
  "saf_in_use (saf_entry_removed s) = saf_in_use s" "has_pending (saf_entry_removed s) = has_pending s"
  "pending_hdr (saf_entry_removed s) = pending_hdr s"
  by (simp_all add: saf_entry_removed_def)

text \<open>The drop loop ends with the record appended, after dropping while at least 254 were held.\<close>

lemma make_room:
  assumes "rel (saf_cfl s) k (h, p)" "k + (length h - p) \<le> b" "p \<le> length h" "b < 2 ^ 32 - 1"
    and "254 \<le> length h - p" "saf_entry_count s = length h - p" "0 < length raw" "length raw \<le> CFL_MAX_RECORD_BYTES"
  shows "\<exists>s' p' k'. saf_make_room L raw CFL_ERR_FULL s = Some (None, CFL_ERR_OK, s') \<and>
    rel (saf_cfl s') k' (h @ [raw], p') \<and> k' + (length h + 1 - p') \<le> b + 2 \<and> p < p' \<and> p' \<le> length h \<and>
    254 \<le> length h - (p' - 1) \<and> saf_entry_count s' = length h - p' \<and> saf_in_use s' = saf_in_use s \<and> \<not> has_pending s'"
  using assms
proof (induction "length h - p" arbitrary: s k p rule: less_induct)
  case less
  have p: "p < length h" and k: "k < 2 ^ 32 - 1" using less.prems by simp_all
  obtain l where d: "if_drop_oldest L (saf_cfl s) = (CFL_ERR_OK, l)" "rel l (Suc k) (h, p + 1)"
    using rel_drop [OF less.prems(1) k p] by blast
  define s1 where "s1 = saf_entry_removed (s\<lparr>saf_cfl := l, has_pending := False\<rparr>)"
  obtain rc l' where a: "if_append L (Some raw) l = (rc, l')" by fastforce
  have e: "saf_make_room L raw CFL_ERR_FULL s = saf_make_room L raw rc (s1\<lparr>saf_cfl := l'\<rparr>)"
    by (subst saf_make_room.simps) (simp add: d a s1_def)
  have k1: "Suc k < 2 ^ 32 - 1" using less.prems(2,4,5) by linarith
  have s1: "saf_entry_count s1 = length h - (p + 1)" "saf_in_use s1 = saf_in_use s" "\<not> has_pending s1"
    using less.prems(6) by (simp_all add: s1_def)
  from rel_append [OF d(2) k1 less.prems(7,8)] consider
      "rc = CFL_ERR_OK" "rel l' (Suc (Suc k)) (h @ [raw], p + 1)"
    | "rc = CFL_ERR_FULL" "l' = l" "254 \<le> length h - (p + 1)"
    using a by auto
  then show ?case
  proof cases
    case 1
    have "saf_make_room L raw rc (s1\<lparr>saf_cfl := l'\<rparr>) = Some (None, CFL_ERR_OK, s1\<lparr>saf_cfl := l'\<rparr>)"
      using 1 by (subst saf_make_room.simps) simp
    then show ?thesis
      using e 1 s1 p less.prems(2,5)
      by (intro exI [of _ "s1\<lparr>saf_cfl := l'\<rparr>"] exI [of _ "p + 1"] exI [of _ "Suc (Suc k)"]) simp
  next
    case 2
    have "\<exists>s' p' k'. saf_make_room L raw CFL_ERR_FULL (s1\<lparr>saf_cfl := l'\<rparr>) = Some (None, CFL_ERR_OK, s') \<and>
      rel (saf_cfl s') k' (h @ [raw], p') \<and> k' + (length h + 1 - p') \<le> b + 2 \<and> p + 1 < p' \<and> p' \<le> length h \<and>
      254 \<le> length h - (p' - 1) \<and> saf_entry_count s' = length h - p' \<and>
      saf_in_use s' = saf_in_use (s1\<lparr>saf_cfl := l'\<rparr>) \<and> \<not> has_pending s'"
      using less.prems 2 d(2) p s1 by (intro less.hyps [of "p + 1" _ "Suc k"]) simp_all
    then show ?thesis using e 2 s1(2) by fastforce
  qed
qed

lemma saf_relI:
  assumes "rel (saf_cfl s) k (map blob h, p)" "k + (length h - p) \<le> b" "p \<le> length h" "\<forall>e \<in> set h. entry_ok e"
    "saf_entry_count s = length h - p" "saf_in_use s" "pend \<longrightarrow> p < length h \<and> pending_hdr s = h ! p" "has_pending s = pend"
  shows "saf_rel s b (h, p, pend)"
  using assms by (auto simp: saf_rel_def)

lemma saf_rel_mono: "saf_rel s b st \<Longrightarrow> b \<le> c \<Longrightarrow> saf_rel s c st"
  unfolding saf_rel_def by fastforce

lemma find_entry:
  assumes "rel (saf_cfl s) k (map blob h, p)" "\<forall>e \<in> set h. entry_ok e" "p \<le> length h"
  shows "saf_find L s = Some (if p < length h then (SAF_ERR_OK, s\<lparr>pending_hdr := h ! p\<rparr>) else (SAF_ERR_EMPTY, s))"
proof -
  have peek: "if_peek_oldest L SAF_STAGE_BUF_SIZE (saf_cfl s) =
      (if p < length h then Inr (blob (h ! p)) else Inl (CFL_ERR_EMPTY, None))"
    using rel_peek [OF assms(1), of SAF_STAGE_BUF_SIZE] blob_fits [of "h ! p"] assms(2)
    by (auto simp: spec_peek_def SAF_STAGE_BUF_SIZE_def)
  show ?thesis
  proof (cases "p < length h")
    case True
    then have "saf_deserialise (blob (h ! p)) (pending_hdr s) = (True, h ! p)"
      using assms(2) by (intro deserialise_blob) simp
    then show ?thesis using True by (subst saf_find.simps) (simp add: peek)
  next
    case False
    then show ?thesis by (subst saf_find.simps) (simp add: peek)
  qed
qed

lemma create_rel:
  assumes "rel l k (map blob h, p)" "p \<le> length h" "\<forall>e \<in> set h. entry_ok e"
  obtains s where "saf_create L (Some l) health capacity 0 = (SAF_ERR_OK, 1, Some s)" "saf_entry_count s = length h - p"
    "saf_rel s (k + (length h - p)) (h, p, False)"
proof -
  obtain oc where o: "if_get_occupancy L l = (CFL_ERR_OK, Some (length h - p, oc))" using rel_occupancy [OF assms(1)] by auto
  define s where "s = saf_report_occupancy \<lparr>saf_cfl = l, saf_health = health, saf_occupancy = [],
    saf_capacity = capacity, saf_entry_count = length h - p, has_pending = False,
    pending_hdr = \<lparr>saf_topic = [], saf_qos = 0, saf_payload = []\<rparr>, saf_in_use = True\<rparr>"
  show thesis
  proof (rule that)
    show "saf_create L (Some l) health capacity 0 = (SAF_ERR_OK, 1, Some s)"
      by (simp add: saf_create_def SAF_MAX_INSTANCES_def o s_def)
    show "saf_rel s (k + (length h - p)) (h, p, False)"
      using assms by (intro saf_relI [where k = k]) (simp_all add: s_def)
  qed (simp add: s_def)
qed

lemma exec_refines:
  assumes rel: "saf_rel s b (h, p, pend)" and b: "b < 2 ^ 32 - 1"
  shows "\<exists>r s' st'. saf_exec L reset c s = Some (r, s') \<and> saf_spec c r (h, p, pend) = Some st' \<and> saf_rel s' (b + 256) st'"
proof -
  obtain k where k: "rel (saf_cfl s) k (map blob h, p)" "k + (length h - p) \<le> b"
    and R: "p \<le> length h" "\<forall>e \<in> set h. entry_ok e" "saf_entry_count s = length h - p" "saf_in_use s"
      "has_pending s = pend" "pend \<Longrightarrow> p < length h \<and> pending_hdr s = h ! p"
    using rel by (auto simp: saf_rel_def)
  have kb: "k < 2 ^ 32 - 1" using k(2) b by simp
  have use: "saf_check_handle (Some s) = SAF_ERR_OK" using R(4) by (simp add: saf_check_handle_def)
  have same: "saf_rel s (b + 256) (h, p, pend)" by (rule saf_rel_mono [OF rel]) simp
  show ?thesis
  proof (cases c)
    case (Saf_Enqueue e)
    show ?thesis
    proof (cases "entry_ok e")
      case False
      then have "saf_enqueue L (Some (saf_topic e)) (Some (saf_payload e)) (saf_qos e) s = Some (SAF_ERR_TOO_LARGE, s)"
        by (auto simp: saf_enqueue_def use entry_ok_def Let_def not_le SAF_TOPIC_MAX_def split: if_splits)
      then show ?thesis using False same R(3) by (simp add: Saf_Enqueue)
    next
      case True
      have raw: "0 < length (blob e)" "length (blob e) \<le> CFL_MAX_RECORD_BYTES" using blob_fits [OF True] by auto
      obtain rc l where a: "if_append L (Some (blob e)) (saf_cfl s) = (rc, l)" by fastforce
      have q: "saf_enqueue L (Some (saf_topic e)) (Some (saf_payload e)) (saf_qos e) s =
          (case saf_make_room L (blob e) rc (s\<lparr>saf_cfl := l\<rparr>) of
             None \<Rightarrow> None | Some (Some err, rc, s) \<Rightarrow> Some (err, s)
           | Some (None, rc, s) \<Rightarrow>
               if rc \<noteq> CFL_ERR_OK then Some (SAF_ERR_FLASH, s)
               else Some (SAF_ERR_OK, saf_report_occupancy (s\<lparr>saf_entry_count := saf_entry_count s + 1\<rparr>)))"
        using True a by (simp add: saf_enqueue_def use entry_ok_def blob_def [symmetric] Let_def)
      obtain s1 p' k' where m: "saf_make_room L (blob e) rc (s\<lparr>saf_cfl := l\<rparr>) = Some (None, CFL_ERR_OK, s1)"
        and N: "rel (saf_cfl s1) k' (map blob (h @ [e]), p')" "k' + (length h + 1 - p') \<le> b + 2" "p \<le> p'" "p' \<le> length h"
          "p' = p \<or> 254 \<le> length h - (p' - 1)" "saf_entry_count s1 = length h - p'" "saf_in_use s1"
          "has_pending s1 = (pend \<and> p' = p)" "p' = p \<Longrightarrow> pending_hdr s1 = pending_hdr s"
      proof -
        from rel_append [OF k(1) kb raw] consider "rc = CFL_ERR_OK" "rel l (Suc k) (map blob h @ [blob e], p)"
          | "rc = CFL_ERR_FULL" "l = saf_cfl s" "254 \<le> length h - p"
          using a by auto
        then show thesis
        proof cases
          case 1
          have "saf_make_room L (blob e) rc (s\<lparr>saf_cfl := l\<rparr>) = Some (None, CFL_ERR_OK, s\<lparr>saf_cfl := l\<rparr>)"
            using 1 by (subst saf_make_room.simps) simp
          then show thesis using 1 k R by (intro that [of "s\<lparr>saf_cfl := l\<rparr>" "Suc k" p]) simp_all
        next
          case 2
          have "\<exists>s' p' k'. saf_make_room L (blob e) CFL_ERR_FULL (s\<lparr>saf_cfl := l\<rparr>) = Some (None, CFL_ERR_OK, s') \<and>
            rel (saf_cfl s') k' (map blob h @ [blob e], p') \<and> k' + (length (map blob h) + 1 - p') \<le> b + 2 \<and> p < p' \<and>
            p' \<le> length (map blob h) \<and> 254 \<le> length (map blob h) - (p' - 1) \<and>
            saf_entry_count s' = length (map blob h) - p' \<and> saf_in_use s' = saf_in_use (s\<lparr>saf_cfl := l\<rparr>) \<and> \<not> has_pending s'"
            using 2 k R b raw by (intro make_room [where k = k]) simp_all
          then obtain s' p' k' where "saf_make_room L (blob e) CFL_ERR_FULL (s\<lparr>saf_cfl := l\<rparr>) = Some (None, CFL_ERR_OK, s')"
            "rel (saf_cfl s') k' (map blob h @ [blob e], p')" "k' + (length h + 1 - p') \<le> b + 2" "p < p'"
            "p' \<le> length h" "254 \<le> length h - (p' - 1)" "saf_entry_count s' = length h - p'" "saf_in_use s'" "\<not> has_pending s'"
            using R(4) by auto
          then show thesis using 2 by (intro that [of s' k' p']) simp_all
        qed
      qed
      define n where "n = length h - p' + 1"
      have x: "saf_exec L reset c s = Some (Saf_Status SAF_ERR_OK n, saf_report_occupancy (s1\<lparr>saf_entry_count := n\<rparr>))"
        using N(6) by (simp add: Saf_Enqueue q m n_def)
      have p': "length h + 1 - n = p'" "1 \<le> n" "n \<le> length h - p + 1" using N(3,4) by (simp_all add: n_def)
      have sp: "saf_spec c (Saf_Status SAF_ERR_OK n) (h, p, pend) = Some (h @ [e], p', pend \<and> p' = p)"
        unfolding Saf_Enqueue saf_spec.simps Let_def p'(1) using True N(5) p' by simp
      have "saf_rel (saf_report_occupancy (s1\<lparr>saf_entry_count := n\<rparr>)) (b + 256) (h @ [e], p', pend \<and> p' = p)"
        using N R True n_def by (intro saf_relI [where k = k']) (auto simp: nth_append)
      then show ?thesis using x sp by blast
    qed
  next
    case Saf_Dequeue
    note f = find_entry [OF k(1) R(2,1)]
    show ?thesis
    proof (cases "pend \<or> p \<ge> length h")
      case True
      then show ?thesis using R f same Saf_Dequeue by (auto simp: saf_dequeue_def use)
    next
      case False
      have "saf_rel (s\<lparr>pending_hdr := h ! p, has_pending := True\<rparr>) (b + 256) (h, p, True)"
        using False k R by (intro saf_relI [where k = k]) simp_all
      then show ?thesis using False f R(5) by (auto simp: Saf_Dequeue saf_dequeue_def use)
    qed
  next
    case Saf_Confirm
    show ?thesis
    proof (cases pend)
      case False
      then show ?thesis using R same Saf_Confirm by (auto simp: saf_confirm_def use)
    next
      case True
      then have p: "p < length h" using R(6) by simp
      obtain l where l: "if_consume_oldest L (saf_cfl s) = (CFL_ERR_OK, l)" "rel l (Suc k) (map blob h, p + 1)"
        using rel_consume [OF k(1) kb] p by auto
      let ?s = "saf_report_occupancy (saf_entry_removed (s\<lparr>saf_cfl := l, has_pending := False\<rparr>))"
      have "saf_rel ?s (b + 256) (h, p + 1, False)"
        using l(2) p k(2) R by (intro saf_relI [where k = "Suc k"]) simp_all
      then show ?thesis using True R(3,5) l(1) p by (auto simp: Saf_Confirm saf_confirm_def use)
    qed
  next
    case Saf_Reset
    obtain l p' where l: "reset (saf_cfl s) = (CFL_ERR_OK, Some l)" "rel l k (map blob h, p')" "p' \<le> p" "p \<le> p' + 256"
      using rel_reset [OF k(1)] by blast
    obtain s' where s': "saf_create L (Some l) (saf_health s) (saf_capacity s) 0 = (SAF_ERR_OK, 1, Some s')"
      "saf_entry_count s' = length h - p'" "saf_rel s' (k + (length h - p')) (h, p', False)"
      using create_rel [OF l(2) _ R(2)] l(3) R(1) by (metis order_trans)
    have "saf_exec L reset c s = Some (Saf_Status SAF_ERR_OK (length h - p'), s')"
      by (simp add: Saf_Reset l(1) s')
    moreover have "saf_spec c (Saf_Status SAF_ERR_OK (length h - p')) (h, p, pend) = Some (h, p', False)"
      using l(3,4) R(1) by (simp add: Saf_Reset)
    moreover have "saf_rel s' (b + 256) (h, p', False)"
      using l(4) k(2) by (intro saf_rel_mono [OF s'(3)]) simp
    ultimately show ?thesis by blast
  qed
qed

lemma run_refines:
  assumes "saf_rel s b st" "b + 256 * length cs < 2 ^ 32 - 1"
  shows "\<exists>rs. saf_run L reset cs s = Some rs \<and> saf_spec_run cs rs st \<noteq> None"
  using assms
proof (induction cs arbitrary: s b st)
  case (Cons c cs)
  obtain h p pend where st: "st = (h, p, pend)" by (metis prod_cases3)
  obtain r s' st' where x: "saf_exec L reset c s = Some (r, s')" "saf_spec c r st = Some st'" "saf_rel s' (b + 256) st'"
    using exec_refines [of s b h p pend c] Cons.prems by (auto simp: st)
  then obtain rs where "saf_run L reset cs s' = Some rs" "saf_spec_run cs rs st' \<noteq> None"
    using Cons.IH [OF x(3)] Cons.prems(2) by auto
  then show ?case using x by simp
qed (simp add: saf_rel_def split_paired_all)

end

text \<open>Working flash makes the flash log durable.\<close>

definition log_reboot :: "'f iqspi_flash \<Rightarrow> 'f cfl_inst \<Rightarrow> cfl_err \<times> 'f cfl_inst option" where
  "log_reboot F i = (case cfl_create (Some F) (cfl_health i) 0 (cfl_dev i) of (e, n, h) \<Rightarrow> (e, h))"

sublocale working_flash \<subseteq> log: durable_log "cfl_api F" entry_count log_rel "log_reboot F"
proof (unfold_locales, goal_cases)
  case (1 l k st m)
  then show ?case by (rule log_rel_mono)
next
  case (2 l k h p d)
  obtain e l' where a: "cfl_append F (Some d) l = (e, l')" by fastforce
  from log_rel_append [OF 2 a] show ?case by (elim disjE) (simp_all add: cfl_api_def a)
next
  case (3 l k h p m)
  then show ?case by (simp add: cfl_api_def log_rel_peek)
next
  case (4 l k h p)
  obtain e l' where c: "cfl_consume_oldest F l = (e, l')" by fastforce
  from log_rel_consume [OF 4(1,2) c] 4(3) show ?case by (simp add: cfl_api_def c)
next
  case (5 l k h p)
  obtain e l' where d: "cfl_drop_oldest F l = (e, l')" by fastforce
  from log_rel_drop [OF 5(1,2) d] 5(3) show ?case by (simp add: cfl_api_def d)
next
  case (6 l k h p)
  then obtain old pre gs where "log_inv (view (cfl_dev l)) l pre gs"
    "(h, p) = (map snd (old @ pre @ concat gs), length old + length pre)" by (elim log_relE)
  then have "cfl_get_occupancy l = (CFL_ERR_OK, Some (length h - p, byte_count l))"
    by (simp add: cfl_get_occupancy_def cfl_check_handle_def log_inv_def)
  then show ?case by (simp add: cfl_api_def)
next
  case (7 l k h p)
  from rel_reset [OF 7, of "cfl_health l"] obtain j n b where
    "cfl_create (Some F) (cfl_health l) 0 (cfl_dev l) = (CFL_ERR_OK, 1, Some j)"
    "length h - n \<le> p" "p \<le> length h - n + 256" "log_rel j k (h, length h - n)" by metis
  then show ?case by (auto simp: log_reboot_def)
qed

end
