(* ===== verification/Gateway_Store.thy ===== *)
theory Gateway_Store
  imports Store_And_Forward_Spec
begin

text \<open>
  StoreAndForward on the flash log and the flash driver of the gateway: delivery across resets,
  termination on any flash, the round trip of an entry, and a confirm that fails.
\<close>

context working_flash
begin

lemma erased_store:
  assumes "usable f" "erased_log (view f)" "256 * length cs < 2 ^ 32 - 1"
  shows "\<exists>i s rs. cfl_create (Some F) health 0 f = (CFL_ERR_OK, 1, Some i) \<and>
    saf_create (cfl_api F) (Some i) health capacity 0 = (SAF_ERR_OK, 1, Some s) \<and>
    saf_run (cfl_api F) (log_reboot F) cs s = Some rs \<and> saf_spec_run cs rs ([], 0, False) \<noteq> None"
proof -
  obtain i where i: "cfl_create (Some F) health 0 f = (CFL_ERR_OK, 1, Some i)" "log_rel i 0 ([], 0)"
    using erased_create [OF assms(1,2)] .
  from i(2) have "log_rel i 0 (map blob [], 0)" by simp
  then obtain s where s: "saf_create (cfl_api F) (Some i) health capacity 0 = (SAF_ERR_OK, 1, Some s)"
    "log.saf_rel s (0 + (length ([] :: saf_entry list) - 0)) ([], 0, False)"
    by (rule log.create_rel) simp_all
  have "0 + (length ([] :: saf_entry list) - 0) + 256 * length cs < 2 ^ 32 - 1" using assms(3) by simp
  from log.run_refines [OF s(2) this] i(1) s(1) show ?thesis by blast
qed

end

context working_gw_chip
begin

lemmas gw_erased_store = gwrk.erased_store

end

section \<open>Delivery\<close>

text \<open>C4: On working flash, from an erased partition on, for every sequence of enqueues, dequeues,
  confirms and resets: every call returns; a valid entry is always accepted; dequeue hands out the
  accepted entries in order, each until it is confirmed; an unconfirmed entry survives resets, which
  replay at most 256 confirmed ones; and only an enqueue with 254 entries held drops the oldest.\<close>

theorem entries_delivered_in_order:
  assumes "working_gw_chip G sound" "gw_usable G sound q" "erased_log (gw_view G q)" "256 * length cmds < 2 ^ 32 - 1"
  shows "\<exists>i s rs. cfl_create (Some (gw_flash_driver G)) health 0 q = (CFL_ERR_OK, 1, Some i) \<and>
    saf_create (cfl_api (gw_flash_driver G)) (Some i) health capacity 0 = (SAF_ERR_OK, 1, Some s) \<and>
    saf_run (cfl_api (gw_flash_driver G)) (log_reboot (gw_flash_driver G)) cmds s = Some rs \<and>
    saf_spec_run cmds rs ([], 0, False) \<noteq> None"
  using working_gw_chip.gw_erased_store [OF assms] .

definition demo_entry :: saf_entry where
  "demo_entry = \<lparr>saf_topic = [116], saf_qos = 1, saf_payload = [1, 2, 3]\<rparr>"

theorem entries_delivered_in_order_witness:
  "\<exists>i s rs. cfl_create (Some (gw_flash_driver gw_ram)) True 0 blank_gw = (CFL_ERR_OK, 1, Some i) \<and>
    saf_create (cfl_api (gw_flash_driver gw_ram)) (Some i) True 100 0 = (SAF_ERR_OK, 1, Some s) \<and>
    saf_run (cfl_api (gw_flash_driver gw_ram)) (log_reboot (gw_flash_driver gw_ram))
      [Saf_Enqueue demo_entry, Saf_Dequeue, Saf_Reset, Saf_Dequeue, Saf_Confirm, Saf_Dequeue] s = Some rs \<and>
    saf_spec_run [Saf_Enqueue demo_entry, Saf_Dequeue, Saf_Reset, Saf_Dequeue, Saf_Confirm, Saf_Dequeue] rs
      ([], 0, False) \<noteq> None"
  by (rule entries_delivered_in_order [OF gw_ram_working blank_gw]) simp

text \<open>C31: The drop-oldest loop of enqueue and the search loop of dequeue return on every flash driver,
  whatever it answers and whatever the flash holds.\<close>

theorem enqueue_and_dequeue_return:
  "(\<exists>r. saf_enqueue (cfl_api F) topic buf qos s = Some r) \<and> (\<exists>r. saf_dequeue (cfl_api F) s = Some r)"
  using any_log.enqueue_returns [of F topic buf qos s] any_log.dequeue_returns [of F s] by simp

text \<open>An entry that enqueue accepts is read back from its record with the same topic, QoS and payload.\<close>

theorem entry_roundtrip:
  assumes "0 < length topic" "length topic \<le> SAF_TOPIC_MAX" "0 < length buf" "length buf \<le> SAF_PAYLOAD_MAX"
  shows "saf_deserialise (saf_serialise topic buf qos) e = (True, \<lparr>saf_topic = topic, saf_qos = qos, saf_payload = buf\<rparr>)"
  using deserialise_blob [of "\<lparr>saf_topic = topic, saf_qos = qos, saf_payload = buf\<rparr>" e] assms
  by (simp add: entry_ok_def blob_def)

theorem entry_roundtrip_witness:
  "saf_deserialise (saf_serialise [65, 66] [7] 1) demo_entry = (True, \<lparr>saf_topic = [65, 66], saf_qos = 1, saf_payload = [7]\<rparr>)"
  by (rule entry_roundtrip) (simp_all add: saf_consts)

section \<open>A confirm that fails\<close>

definition log_holds :: "(nat \<Rightarrow> u8) \<Rightarrow> 'f cfl_inst \<Rightarrow> u8 list list \<Rightarrow> bool" where
  "log_holds v i ds \<longleftrightarrow> (\<exists>pre gs. log_inv v i pre gs \<and> map snd (concat gs) = ds)"

context nor_flash
begin

lemma consume_header:
  assumes inv: "log_inv (view (cfl_dev i)) i pre gs" and u: "usable (cfl_dev i)" and rs: "concat gs = r # rs"
  shows "cfl_consume_oldest F i = cfl_advance_head F (rsize r) (length (snd r)) i"
proof -
  have st: "stored (view (cfl_dev i)) (head_sector i) (head_offset i) r" "head_sector i < 254"
    by (rule head_stored [OF inv rs]; simp)+
  have "cfl_in_use i" "entry_count i = Suc (length rs)" "byte_count i = length (snd r) + payload_bytes rs"
    using inv by (auto simp: log_inv_def rs)
  then show ?thesis
    using head_header [OF u st] by (simp add: cfl_consume_oldest_def cfl_check_handle_def rsize_def Let_def)
qed

text \<open>A consume removes the record whatever it returns; it needs no flash write for the last one.\<close>

lemma consume_holds:
  assumes "log_holds (view (cfl_dev i)) i (d # ds)" "usable (cfl_dev i)" "cfl_consume_oldest F i = (e, i')"
  shows "log_holds (view (cfl_dev i')) i' ds" "usable (cfl_dev i')"
proof -
  obtain pre gs r rs where I: "log_inv (view (cfl_dev i)) i pre gs" "concat gs = r # rs" "ds = map snd rs"
    using assms(1) by (auto simp: log_holds_def)
  from consume_first(1) [OF I(1) assms(2) I(2) assms(3)] I(3)
  show "log_holds (view (cfl_dev i')) i' ds" "usable (cfl_dev i')" by (auto simp: log_holds_def)
qed

lemma consume_last:
  assumes "log_holds (view (cfl_dev i)) i [d]" "usable (cfl_dev i)"
  shows "fst (cfl_consume_oldest F i) = CFL_ERR_OK"
proof -
  obtain pre gs r where I: "log_inv (view (cfl_dev i)) i pre gs" "concat gs = [r]"
    using assms(1) by (auto simp: log_holds_def)
  have "ring (view (cfl_dev i)) (head_sector i) (rsizes pre) gs" using I(1) by (simp add: log_inv_def)
  from ring_groups [OF this] have "\<forall>g \<in> set gs. g \<noteq> []" .
  then have "length gs \<le> 1" using concat_length [of gs] I(2) by simp
  then have "tail_sector i = head_sector i" "entry_count i = 1"
    using I by (auto simp: log_inv_def nth_sec_simps(1))
  then show ?thesis
    using consume_header [OF I(1) assms(2) I(2)] by (simp add: advance_drained Let_def)
qed

lemma consume_crossing:
  assumes inv: "log_inv (view (cfl_dev i)) i pre ([r] # gs)" and u: "usable (cfl_dev i)" and ne: "gs \<noteq> []"
    and fail: "\<And>j. cfl_dev j = cfl_dev i \<Longrightarrow> fst (cfl_meta_store F j) \<noteq> CFL_ERR_OK"
  shows "fst (cfl_consume_oldest F i) \<noteq> CFL_ERR_OK"
proof -
  let ?s = "head_sector i" and ?o = "head_offset i + rsize r"
  have c: "concat ([r] # gs) = r # concat gs" by simp
  have I: "?s < 254" "ring (view (cfl_dev i)) ?s (rsizes pre) ([r] # gs)" "head_offset i = rsizes pre"
    "entry_count i = Suc (length (concat gs))"
    using inv by (auto simp: log_inv_def)
  have nr: "no_record (view (cfl_dev i)) ?s ?o" using I(2,3) ne by simp
  have ne': "length (concat gs) \<noteq> 0" using I(2) ne by (cases gs) auto
  have "\<exists>h. cfl_read_header F ?s ?o (cfl_dev i) = (CFL_ERR_OK, h) \<and> \<not> cfl_header_plausible h ?o"
    if "cfl_room_for_record ?o"
    using read_hdr [OF u I(1), of ?o] nr that by (simp add: no_record_def cfl_room_for_record_def cfl_consts)
  moreover have "nxt ?s \<noteq> ?s" using I(1) by (auto simp: nxt_def CFL_DATA_SECTOR_COUNT_def mod_if)
  ultimately show ?thesis
    unfolding consume_header [OF inv u c] using advance_next [OF I(4) ne', of "rsize r" "length (snd r)"] fail
    by (simp add: Let_def)
qed

end

context readable_chip
begin

lemmas gw_consume_holds = gdrv.consume_holds
lemmas gw_consume_last = gdrv.consume_last
lemmas gw_consume_crossing = gdrv.consume_crossing

end

text \<open>C35: When the flash refuses the write of the head sector, confirm returns a flash error although the
  entry is consumed, and leaves the entry pending: the retry of the confirm consumes the entry after
  it, which is lost without ever being handed out.\<close>

theorem confirm_retry_loses_entry:
  assumes "readable_chip G readable" "gw_usable G readable (cfl_dev (saf_cfl s))"
    and "log_holds (gw_view G (cfl_dev (saf_cfl s))) (saf_cfl s) (d1 # d2 # ds)"
    and "saf_confirm (cfl_api (gw_flash_driver G)) s = (SAF_ERR_FLASH, s1)"
    and "saf_confirm (cfl_api (gw_flash_driver G)) s1 = (SAF_ERR_OK, s2)"
  shows "has_pending s1 \<and> pending_hdr s1 = pending_hdr s \<and>
    log_holds (gw_view G (cfl_dev (saf_cfl s1))) (saf_cfl s1) (d2 # ds) \<and>
    log_holds (gw_view G (cfl_dev (saf_cfl s2))) (saf_cfl s2) ds"
proof -
  let ?F = "gw_flash_driver G"
  obtain e1 l1 where c1: "cfl_consume_oldest ?F (saf_cfl s) = (e1, l1)" by fastforce
  have use: "saf_in_use s" "has_pending s" using assms(4) by (auto simp: saf_confirm_def saf_check_handle_def split: if_splits)
  then have s1: "s1 = s\<lparr>saf_cfl := l1\<rparr>"
    using assms(4) c1 by (auto simp: saf_confirm_def saf_check_handle_def cfl_api_def Let_def split: if_splits)
  note h1 = readable_chip.gw_consume_holds [OF assms(1,3,2) c1]
  obtain e2 l2 where c2: "cfl_consume_oldest ?F l1 = (e2, l2)" by fastforce
  have "saf_cfl s2 = l2"
    using assms(5) c2 use unfolding s1
    by (auto simp: saf_confirm_def saf_check_handle_def cfl_api_def saf_report_occupancy_def saf_entry_removed_def
        Let_def split: if_splits)
  then have "log_holds (gw_view G (cfl_dev (saf_cfl s2))) (saf_cfl s2) ds"
    using readable_chip.gw_consume_holds(1) [OF assms(1) h1 c2] by simp
  then show ?thesis using h1(1) use by (simp add: s1)
qed

text \<open>Two entries of two sectors, and then a flash that refuses every write.\<close>

lemma gw_ram_readable: "readable_chip gw_ram (\<lambda>h. True)"
  by unfold_locales (simp_all add: gw_ram_def)

definition broken :: "ram_chip_state qspi \<Rightarrow> ram_chip_state qspi" where
  "broken q = q\<lparr>q_chip := (q_chip q)\<lparr>ram_fails := True\<rparr>\<rparr>"

lemma broken_view: "gw_view gw_ram (broken q) = gw_view gw_ram q"
  by (rule ext) (simp add: gw_view_def gw_ram_def ram_chip_def broken_def)

lemma broken_meta: "ram_fails (q_chip (cfl_dev j)) \<Longrightarrow> fst (cfl_meta_store (gw_flash_driver gw_ram) j) \<noteq> CFL_ERR_OK"
  by (simp add: cfl_meta_store_def cfl_flash_erase_def gw_driver_defs gw_ram_def ram_chip_def)


context working_flash
begin

lemma append_held:
  assumes "log_rel i k (h, p)" "k < 2 ^ 32 - 1" "0 < length d" "length d \<le> CFL_MAX_RECORD_BYTES" "length h - p < 254"
  obtains i' where "log_rel i' (Suc k) (h @ [d], p)"
  using log_rel_append [OF assms(1-4), of "fst (cfl_append F (Some d) i)" "snd (cfl_append F (Some d) i)"] assms(5)
  by auto

lemma two_sectors:
  assumes "log_rel i k ([d1, d2], 0)" "4000 \<le> length d1" "4000 \<le> length d2"
  obtains r1 r2 where "log_inv (view (cfl_dev i)) i [] [[r1], [r2]]" "snd r1 = d1" "snd r2 = d2" "usable (cfl_dev i)"
proof -
  obtain pre gs old where I: "log_inv (view (cfl_dev i)) i pre gs" "usable (cfl_dev i)"
    "[d1, d2] = map snd (old @ pre @ concat gs)" "0 = length old + length pre"
    using assms(1) unfolding log_rel_def prod.inject by (elim exE conjE) (rule that; assumption)
  then obtain r1 r2 where r: "concat gs = [r1, r2]" "snd r1 = d1" "snd r2 = d2" "pre = []" by auto
  have ring: "ring (view (cfl_dev i)) (head_sector i) 0 gs" using I(1) r(4) by (simp add: log_inv_def)
  have big: "4000 \<le> rsize r1" "4000 \<le> rsize r2"
    using assms(2,3) r rsize_bounds(2) [of r1] rsize_bounds(2) [of r2] by simp_all
  obtain g gs2 where gs: "gs = g # gs2" using r(1) by (cases gs) auto
  have g: "g \<noteq> []" "run (view (cfl_dev i)) (head_sector i) 0 g" using ring by (simp_all add: gs)
  have "g \<noteq> [r1, r2]" using run_end [OF g(2)] big by auto
  moreover have "g @ concat gs2 = [r1, r2]" using r(1) by (simp add: gs)
  ultimately have "g = [r1]" "concat gs2 = [r2]" using g(1) by (auto simp: Cons_eq_append_conv append_eq_Cons_conv)
  moreover from this(2) obtain g2 gs3 where gs2: "gs2 = g2 # gs3" by (cases gs2) auto
  ultimately have "gs2 = [[r2]]" using ring ring_groups [OF ring] by (cases gs3) (auto simp: gs gs2 Cons_eq_append_conv append_eq_Cons_conv)
  then show thesis using that I(1,2) r gs \<open>g = [r1]\<close> by simp
qed

lemma two_sectors_reachable:
  assumes "usable f" "erased_log (view f)" "4000 \<le> length d1" "4000 \<le> length d2"
    "length d1 \<le> CFL_MAX_RECORD_BYTES" "length d2 \<le> CFL_MAX_RECORD_BYTES"
  shows "\<exists>i r1 r2. log_inv (view (cfl_dev i)) i [] [[r1], [r2]] \<and> snd r1 = d1 \<and> snd r2 = d2 \<and> usable (cfl_dev i)"
proof -
  have d: "0 < length d1" "0 < length d2" using assms(3,4) by linarith+
  obtain i where i: "log_rel i 0 ([], 0)" using erased_create [OF assms(1,2)] .
  obtain i1 where i1: "log_rel i1 1 ([d1], 0)" using append_held [OF i _ d(1) assms(5)] by auto
  obtain i2 where "log_rel i2 (Suc 1) ([d1] @ [d2], 0)" by (rule append_held [OF i1 _ d(2) assms(6)]) simp_all
  then have "log_rel i2 (Suc 1) ([d1, d2], 0)" by simp
  then show ?thesis using two_sectors [OF _ assms(3,4)] by metis
qed

end

context working_gw_chip
begin

lemmas gw_two_sectors = gwrk.two_sectors_reachable

end

theorem confirm_retry_loses_entry_witness:
  "\<exists>s s1 s2. saf_confirm (cfl_api (gw_flash_driver gw_ram)) s = (SAF_ERR_FLASH, s1) \<and>
    saf_confirm (cfl_api (gw_flash_driver gw_ram)) s1 = (SAF_ERR_OK, s2) \<and>
    log_holds (gw_view gw_ram (cfl_dev (saf_cfl s))) (saf_cfl s) [replicate 4000 1, replicate 4000 2] \<and>
    log_holds (gw_view gw_ram (cfl_dev (saf_cfl s2))) (saf_cfl s2) []"
proof -
  let ?F = "gw_flash_driver gw_ram" and ?d1 = "replicate 4000 1 :: u8 list" and ?d2 = "replicate 4000 2 :: u8 list"
  obtain i r1 r2 where i: "log_inv (gw_view gw_ram (cfl_dev i)) i [] [[r1], [r2]]" "snd r1 = ?d1" "snd r2 = ?d2"
    "gw_usable gw_ram (\<lambda>h. \<not> ram_fails h) (cfl_dev i)"
    using working_gw_chip.gw_two_sectors [OF gw_ram_working blank_gw, of ?d1 ?d2]
    by (auto simp: CFL_MAX_RECORD_BYTES_def)
  define j where "j = i\<lparr>cfl_dev := broken (cfl_dev i)\<rparr>"
  have j: "log_inv (gw_view gw_ram (cfl_dev j)) j [] [[r1], [r2]]" "gw_usable gw_ram (\<lambda>h. True) (cfl_dev j)"
    "ram_fails (q_chip (cfl_dev j))"
    using i(1,4) by (simp_all add: j_def broken_view log_inv_def) (auto simp: broken_def gw_usable_def gw_ram_def ram_chip_def)
  define s where "s = \<lparr>saf_cfl = j, saf_health = False, saf_occupancy = [], saf_capacity = 2, saf_entry_count = 2,
    has_pending = True, pending_hdr = demo_entry, saf_in_use = True\<rparr>"
  have h: "log_holds (gw_view gw_ram (cfl_dev (saf_cfl s))) (saf_cfl s) [?d1, ?d2]"
    unfolding log_holds_def using j(1) i(2,3) by (intro exI [of _ "[]"] exI [of _ "[[r1], [r2]]"]) (simp add: s_def)
  have u: "gw_usable gw_ram (\<lambda>h. True) (cfl_dev (saf_cfl s))" using j(2) by (simp add: s_def)
  obtain e1 l1 where c1: "cfl_consume_oldest ?F j = (e1, l1)" by fastforce
  have "e1 \<noteq> CFL_ERR_OK"
    using readable_chip.gw_consume_crossing [OF gw_ram_readable j(1,2)] broken_meta j(3) c1 by (metis fst_conv list.distinct(1))
  then have s1: "saf_confirm (cfl_api ?F) s = (SAF_ERR_FLASH, s\<lparr>saf_cfl := l1\<rparr>)"
    using c1 by (simp add: saf_confirm_def saf_check_handle_def cfl_api_def s_def)
  have h1: "log_holds (gw_view gw_ram (cfl_dev l1)) l1 [?d2]" "gw_usable gw_ram (\<lambda>h. True) (cfl_dev l1)"
    using readable_chip.gw_consume_holds [OF gw_ram_readable, of j ?d1 "[?d2]" e1 l1] h u c1
    by (simp_all add: s_def)
  obtain e2 l2 where c2: "cfl_consume_oldest ?F l1 = (e2, l2)" by fastforce
  have "e2 = CFL_ERR_OK" using readable_chip.gw_consume_last [OF gw_ram_readable h1] c2 by simp
  then obtain s2 where s2: "saf_confirm (cfl_api ?F) (s\<lparr>saf_cfl := l1\<rparr>) = (SAF_ERR_OK, s2)"
    using c2 by (simp add: saf_confirm_def saf_check_handle_def cfl_api_def s_def)
  show ?thesis
    using confirm_retry_loses_entry [OF gw_ram_readable u h s1 s2] s1 s2 h by blast
qed

end
