(* ===== verification/Modbus_Uart.thy ===== *)
theory Modbus_Uart
  imports Prelude
begin

text \<open>
  ModbusUartDriver of the gateway (\<^verbatim>\<open>drivers/modbus_uart_driver/modbus_uart_driver.c\<close>): the receive
  interrupt, which collects the bytes of a frame until the line goes idle, and the two operations the
  master calls.

  The UART peripheral is a parameter.  An interrupt is what its status and data registers held
  (\<open>uart_irq\<close>); \<open>uart_line\<close> is the transmitter: \<open>line_put\<close> waits for the TXE flag and writes the data
  register, \<open>line_tc\<close> waits for the TC flag, both with the driver's time limit.  The callback has no
  state of its own: \<open>mu_rx_cb\<close> says whether one is attached and an interrupt returns the event it is
  called with.  Pin, clock and baud-rate set-up (\<^verbatim>\<open>modbus_uart_init\<close>) is register programming.
\<close>

datatype modbus_uart_err =
    MODBUS_UART_OK | MODBUS_UART_ERR_TIMEOUT | MODBUS_UART_ERR_BUSY | MODBUS_UART_ERR_INVALID_ARG

datatype modbus_uart_event = MODBUS_UART_EVENT_RX_DONE | MODBUS_UART_EVENT_RX_ERROR

definition MODBUS_UART_BUF_SIZE :: nat where "MODBUS_UART_BUF_SIZE = 256"

record mb_uart =
  mu_rx_buf :: "u8 list"
  mu_rx_len :: u16
  mu_rx_overflow :: bool
  mu_rx_cb :: bool
  mu_tx_busy :: bool

record uart_irq =
  irq_rxne :: "u8 option"
  irq_err :: bool
  irq_idle :: bool

record 'h uart_line =
  line_put :: "u8 \<Rightarrow> 'h \<Rightarrow> bool \<times> 'h"
  line_tc :: "'h \<Rightarrow> bool \<times> 'h"

section \<open>Reception\<close>

definition mbuart_notify :: "modbus_uart_event \<Rightarrow> mb_uart \<Rightarrow> modbus_uart_event option" where
  "mbuart_notify event u = (if mu_rx_cb u then Some event else None)"

definition mbuart_store :: "u8 \<Rightarrow> mb_uart \<Rightarrow> mb_uart" where
  "mbuart_store b u =
     (if unat (mu_rx_len u) < MODBUS_UART_BUF_SIZE
      then u\<lparr>mu_rx_buf := (mu_rx_buf u)[unat (mu_rx_len u) := b], mu_rx_len := mu_rx_len u + 1\<rparr>
      else u\<lparr>mu_rx_overflow := True\<rparr>)"

definition UART4_IRQHandler :: "uart_irq \<Rightarrow> mb_uart \<Rightarrow> modbus_uart_event option \<times> mb_uart" where
  "UART4_IRQHandler status u =
     (let u = (case irq_rxne status of Some b \<Rightarrow> mbuart_store b u | None \<Rightarrow> u)
      in if irq_err status then
           let u = u\<lparr>mu_rx_len := 0, mu_rx_overflow := False\<rparr>
           in (mbuart_notify MODBUS_UART_EVENT_RX_ERROR u, u)
         else if irq_idle status then
           if mu_rx_overflow u then
             let u = u\<lparr>mu_rx_len := 0, mu_rx_overflow := False\<rparr>
             in (mbuart_notify MODBUS_UART_EVENT_RX_ERROR u, u)
           else if mu_rx_len u > 0 then (mbuart_notify MODBUS_UART_EVENT_RX_DONE u, u)
           else (None, u)
         else (None, u))"

definition modbus_uart_attach_rx :: "mb_uart \<Rightarrow> mb_uart" where
  "modbus_uart_attach_rx u = u\<lparr>mu_rx_cb := True\<rparr>"

text \<open>The buffer argument is not null at any call; the copied bytes are returned.\<close>

definition modbus_uart_get_rx_frame :: "mb_uart \<Rightarrow> (modbus_uart_err \<times> u8 list) \<times> mb_uart" where
  "modbus_uart_get_rx_frame u =
     ((MODBUS_UART_OK, take (unat (mu_rx_len u)) (mu_rx_buf u)), u\<lparr>mu_rx_len := 0\<rparr>)"

section \<open>Transmission\<close>

fun mbuart_put_bytes :: "'h uart_line \<Rightarrow> u8 list \<Rightarrow> 'h \<Rightarrow> modbus_uart_err \<times> 'h" where
  "mbuart_put_bytes H [] h = (MODBUS_UART_OK, h)"
| "mbuart_put_bytes H (b # frame) h =
     (case line_put H b h of
        (True, h) \<Rightarrow> mbuart_put_bytes H frame h
      | (False, h) \<Rightarrow> (MODBUS_UART_ERR_TIMEOUT, h))"

definition modbus_uart_transmit ::
  "'h uart_line \<Rightarrow> u8 list \<Rightarrow> mb_uart \<Rightarrow> 'h \<Rightarrow> modbus_uart_err \<times> mb_uart \<times> 'h" where
  "modbus_uart_transmit H frame u h =
     (if length frame = 0 \<or> length frame > MODBUS_UART_BUF_SIZE then (MODBUS_UART_ERR_INVALID_ARG, u, h)
      else if mu_tx_busy u then (MODBUS_UART_ERR_BUSY, u, h)
      else
        let u = u\<lparr>mu_tx_busy := True\<rparr>;
            (result, h) = mbuart_put_bytes H frame h;
            (result, h) =
              (if result = MODBUS_UART_OK
               then (case line_tc H h of (True, h) \<Rightarrow> (result, h) | (False, h) \<Rightarrow> (MODBUS_UART_ERR_TIMEOUT, h))
               else (result, h))
        in (result, u\<lparr>mu_tx_busy := False\<rparr>, h))"

section \<open>What the driver delivers\<close>

text \<open>Well-formed driver state, kept by every interrupt and call.\<close>

definition mb_uart_wf :: "mb_uart \<Rightarrow> bool" where
  "mb_uart_wf u \<longleftrightarrow> length (mu_rx_buf u) = 256 \<and> unat (mu_rx_len u) \<le> 256"

lemma mbuart_store_wf: "mb_uart_wf u \<Longrightarrow> mb_uart_wf (mbuart_store b u)"
  by (auto simp: mb_uart_wf_def mbuart_store_def MODBUS_UART_BUF_SIZE_def unat_word_ariths)

lemma irq_wf: "mb_uart_wf u \<Longrightarrow> mb_uart_wf (snd (UART4_IRQHandler i u))"
  using mbuart_store_wf [of u]
  by (auto simp: UART4_IRQHandler_def Let_def mb_uart_wf_def split: option.splits)

lemma get_rx_frame_wf:
  assumes "mb_uart_wf u" "modbus_uart_get_rx_frame u = ((e, f), u')"
  shows "mb_uart_wf u'" "length f \<le> 256" "mu_rx_len u' = 0" "e = MODBUS_UART_OK"
  using assms by (auto simp: modbus_uart_get_rx_frame_def mb_uart_wf_def)

text \<open>The interrupts of one frame: a byte each, then the idle line.\<close>

definition irq_byte :: "u8 \<Rightarrow> uart_irq" where
  "irq_byte b = \<lparr>irq_rxne = Some b, irq_err = False, irq_idle = False\<rparr>"

definition irq_end :: uart_irq where
  "irq_end = \<lparr>irq_rxne = None, irq_err = False, irq_idle = True\<rparr>"

definition irq_break :: uart_irq where
  "irq_break = \<lparr>irq_rxne = None, irq_err = True, irq_idle = False\<rparr>"

fun run_irqs :: "uart_irq list \<Rightarrow> mb_uart \<Rightarrow> modbus_uart_event list \<times> mb_uart" where
  "run_irqs [] u = ([], u)"
| "run_irqs (i # is) u =
     (let (ev, u) = UART4_IRQHandler i u; (evs, u) = run_irqs is u
      in (case ev of None \<Rightarrow> evs | Some e \<Rightarrow> e # evs, u))"

lemma run_irqs_append:
  "run_irqs (is @ js) u =
    (let (e1, u1) = run_irqs is u; (e2, u2) = run_irqs js u1 in (e1 @ e2, u2))"
  by (induction "is" arbitrary: u) (auto simp: Let_def split: prod.splits option.splits)

lemma run_irqs_wf: "mb_uart_wf u \<Longrightarrow> mb_uart_wf (snd (run_irqs is u))"
proof (induction "is" arbitrary: u)
  case (Cons i "is")
  obtain ev v where v: "UART4_IRQHandler i u = (ev, v)" by fastforce
  then have "mb_uart_wf v" using irq_wf [OF Cons.prems, of i] by simp
  from Cons.IH [OF this] show ?case by (simp add: v split_def Let_def)
qed simp

lemma irq_byte_eq: "UART4_IRQHandler (irq_byte b) u = (None, mbuart_store b u)"
  by (simp add: UART4_IRQHandler_def irq_byte_def)

lemma run_bytes:
  assumes "mb_uart_wf u" "unat (mu_rx_len u) + length f \<le> 256"
  obtains u' where "run_irqs (map irq_byte f) u = ([], u')" "mb_uart_wf u'"
    "unat (mu_rx_len u') = unat (mu_rx_len u) + length f"
    "take (unat (mu_rx_len u')) (mu_rx_buf u') = take (unat (mu_rx_len u)) (mu_rx_buf u) @ f"
    "mu_rx_overflow u' = mu_rx_overflow u" "mu_rx_cb u' = mu_rx_cb u" "mu_tx_busy u' = mu_tx_busy u"
  using assms
proof (induction f arbitrary: u thesis)
  case Nil
  then show ?case by simp
next
  case (Cons b f)
  let ?n = "unat (mu_rx_len u)"
  let ?u = "mbuart_store b u"
  have lt: "?n < 256" "length (mu_rx_buf u) = 256" using Cons.prems by (simp_all add: mb_uart_wf_def)
  then have st: "?u = u\<lparr>mu_rx_buf := (mu_rx_buf u)[?n := b], mu_rx_len := mu_rx_len u + 1\<rparr>"
    by (simp add: mbuart_store_def MODBUS_UART_BUF_SIZE_def)
  have n: "unat (mu_rx_len u + 1) = ?n + 1" using lt by (simp add: unat_word_ariths)
  have wf: "mb_uart_wf ?u" by (rule mbuart_store_wf [OF Cons.prems(2)])
  have len: "unat (mu_rx_len ?u) = ?n + 1" by (simp add: st n)
  have bound: "unat (mu_rx_len ?u) + length f \<le> 256" using Cons.prems(3) len by simp
  obtain u' where u': "run_irqs (map irq_byte f) ?u = ([], u')" "mb_uart_wf u'"
    "unat (mu_rx_len u') = unat (mu_rx_len ?u) + length f"
    "take (unat (mu_rx_len u')) (mu_rx_buf u') = take (unat (mu_rx_len ?u)) (mu_rx_buf ?u) @ f"
    "mu_rx_overflow u' = mu_rx_overflow ?u" "mu_rx_cb u' = mu_rx_cb ?u" "mu_tx_busy u' = mu_tx_busy ?u"
    by (rule Cons.IH [OF _ wf bound])
  have "take (?n + 1) ((mu_rx_buf u)[?n := b]) = take ?n (mu_rx_buf u) @ [b]"
    using lt by (simp add: take_Suc_conv_app_nth)
  with u' lt show ?case
    by (intro Cons.prems(1) [of u']) (simp_all add: irq_byte_eq st n)
qed

text \<open>A frame of 1 to 256 bytes that finds the buffer empty is announced once and read as it was sent;
  a line error is announced as an error and leaves the buffer empty.\<close>

definition mb_uart_idle :: "mb_uart \<Rightarrow> bool" where
  "mb_uart_idle u \<longleftrightarrow> mb_uart_wf u \<and> mu_rx_len u = 0 \<and> \<not> mu_rx_overflow u \<and> mu_rx_cb u \<and> \<not> mu_tx_busy u"

lemma receive_frame:
  assumes "mb_uart_idle u" "1 \<le> length f" "length f \<le> 256"
  obtains u1 u2 where "run_irqs (map irq_byte f @ [irq_end]) u = ([MODBUS_UART_EVENT_RX_DONE], u1)"
    "modbus_uart_get_rx_frame u1 = ((MODBUS_UART_OK, f), u2)" "mb_uart_idle u2" "mb_uart_wf u1"
proof -
  have wf: "mb_uart_wf u" "mu_rx_len u = 0" using assms by (simp_all add: mb_uart_idle_def)
  obtain u1 where u1: "run_irqs (map irq_byte f) u = ([], u1)" "mb_uart_wf u1"
    "unat (mu_rx_len u1) = length f" "take (unat (mu_rx_len u1)) (mu_rx_buf u1) = f"
    "mu_rx_overflow u1 = mu_rx_overflow u" "mu_rx_cb u1 = mu_rx_cb u" "mu_tx_busy u1 = mu_tx_busy u"
    using run_bytes [OF wf(1), of f] assms(3) wf(2) by auto
  have "mu_rx_len u1 > 0" using u1(3) assms(2)
    by (cases f) (auto simp: word_less_nat_alt)
  with u1 assms(1) have done1: "run_irqs (map irq_byte f @ [irq_end]) u = ([MODBUS_UART_EVENT_RX_DONE], u1)"
    by (simp add: run_irqs_append UART4_IRQHandler_def irq_end_def mbuart_notify_def mb_uart_idle_def)
  show thesis
    by (rule that [OF done1, of "u1\<lparr>mu_rx_len := 0\<rparr>"])
       (use u1 assms(1) in \<open>auto simp: modbus_uart_get_rx_frame_def mb_uart_idle_def mb_uart_wf_def\<close>)
qed

lemma receive_break:
  assumes "mb_uart_idle u" "length f \<le> 256"
  obtains u1 where "run_irqs (map irq_byte f @ [irq_break]) u = ([MODBUS_UART_EVENT_RX_ERROR], u1)"
    "mb_uart_idle u1"
proof -
  have wf: "mb_uart_wf u" "mu_rx_len u = 0" using assms by (simp_all add: mb_uart_idle_def)
  obtain u1 where u1: "run_irqs (map irq_byte f) u = ([], u1)" "mb_uart_wf u1"
    "mu_rx_cb u1 = mu_rx_cb u" "mu_tx_busy u1 = mu_tx_busy u"
    using run_bytes [OF wf(1), of f] assms(2) wf(2) by auto
  show thesis
    by (rule that [of "u1\<lparr>mu_rx_len := 0, mu_rx_overflow := False\<rparr>"])
       (use u1 assms(1) in \<open>simp_all add: run_irqs_append UART4_IRQHandler_def irq_break_def mbuart_notify_def
         mb_uart_idle_def mb_uart_wf_def\<close>)
qed

end
