(* ===== verification/Modbus_Master.thy ===== *)
theory Modbus_Master
  imports Modbus_Uart Bytes_CRC "HOL-Library.Monad_Syntax"
begin

text \<open>
  ModbusMaster of the gateway (\<^verbatim>\<open>middleware/modbus_master/modbus_master.c\<close>): one request, up to
  \<open>1 + max_retries\<close> attempts, and the checks of the response.

  The master reaches the bus through \<open>mbm_port\<close>: the two operations of the UART driver and the task
  notification of the kernel, over a state \<open>'b\<close> in which anything may happen between two calls.
  \<open>mp_wait P clear ms\<close> is \<^verbatim>\<open>xTaskNotifyWait(0, clear, &bits, ms)\<close>: \<open>None\<close> is \<^verbatim>\<open>pdFALSE\<close>, and the bits
  in \<open>clear\<close> are cleared on a successful return.  The data of a frame is its 252-byte array, a null
  pointer is \<open>None\<close>.  The retry loop counts in a \<^verbatim>\<open>uint8_t\<close> and need not end, so it is a partial
  function in the option monad.
\<close>

section \<open>Types and state\<close>

datatype modbus_master_err =
    MODBUS_MASTER_ERR_OK | MODBUS_MASTER_ERR_NOT_INIT | MODBUS_MASTER_ERR_NULL_ARG
  | MODBUS_MASTER_ERR_TIMEOUT | MODBUS_MASTER_ERR_CRC | MODBUS_MASTER_ERR_BAD_RESPONSE
  | MODBUS_MASTER_ERR_EXCEPTION | MODBUS_MASTER_ERR_RX_ERROR | MODBUS_MASTER_ERR_INVALID_ARG
  | MODBUS_MASTER_ERR_ALREADY_STARTED

record modbus_frame =
  mf_slave_addr :: u8
  mf_function_code :: u8
  mf_data :: "u8 list"
  mf_data_len :: u16

definition MODBUS_MAX_DATA_BYTES :: nat where "MODBUS_MAX_DATA_BYTES = 252"

definition zero_frame :: modbus_frame where
  "zero_frame = \<lparr>mf_slave_addr = 0, mf_function_code = 0, mf_data = replicate MODBUS_MAX_DATA_BYTES 0,
     mf_data_len = 0\<rparr>"

record modbus_master_stats =
  mst_transactions_sent :: u32
  mst_transactions_ok :: u32
  mst_timeouts :: u32
  mst_crc_errors :: u32
  mst_rx_errors :: u32
  mst_exception_responses :: u32
  mst_bad_responses :: u32

definition zero_master_stats :: modbus_master_stats where
  "zero_master_stats = \<lparr>mst_transactions_sent = 0, mst_transactions_ok = 0, mst_timeouts = 0,
     mst_crc_errors = 0, mst_rx_errors = 0, mst_exception_responses = 0, mst_bad_responses = 0\<rparr>"

record modbus_master =
  mm_response_timeout_ms :: u32
  mm_max_retries :: u8
  mm_owner_task :: bool
  mm_stats :: modbus_master_stats
  mm_initialised :: bool
  mm_started :: bool

record 'b mbm_port =
  mp_wait :: "u32 \<Rightarrow> u32 \<Rightarrow> 'b \<Rightarrow> u32 option \<times> 'b"
  mp_transmit :: "u8 list \<Rightarrow> 'b \<Rightarrow> modbus_uart_err \<times> 'b"
  mp_get_rx_frame :: "'b \<Rightarrow> (modbus_uart_err \<times> u8 list) \<times> 'b"
  mp_attach_rx :: "'b \<Rightarrow> 'b"

definition NOTIFY_RX_DONE :: u32 where "NOTIFY_RX_DONE = 1"
definition NOTIFY_RX_ERROR :: u32 where "NOTIFY_RX_ERROR = 2"
definition NOTIFY_ALL_BITS :: u32 where "NOTIFY_ALL_BITS = 0xFFFFFFFF"

section \<open>Helpers\<close>

definition mbm_crc_bit :: "u16 \<Rightarrow> u16" where
  "mbm_crc_bit crc = (if crc AND 1 \<noteq> 0 then drop_bit 1 crc XOR 0xA001 else drop_bit 1 crc)"

definition mbm_crc16 :: "u8 list \<Rightarrow> u16" where
  "mbm_crc16 data = fold (\<lambda>b crc. (mbm_crc_bit ^^ 8) (crc XOR ucast b)) data 0xFFFF"

definition mbm_build_wire_frame :: "modbus_frame \<Rightarrow> u8 list" where
  "mbm_build_wire_frame request =
     (let wire = [mf_slave_addr request, mf_function_code request];
          wire = (if mf_data_len request > 0 then wire @ take (unat (mf_data_len request)) (mf_data request)
                  else wire);
          crc = mbm_crc16 wire
      in wire @ [ucast (crc AND 0xFF), ucast (drop_bit 8 crc)])"

definition mbm_flush_stale_rx :: "'b mbm_port \<Rightarrow> 'b \<Rightarrow> 'b" where
  "mbm_flush_stale_rx P b =
     (let (_, b) = mp_wait P NOTIFY_ALL_BITS 0 b; (_, b) = mp_get_rx_frame P b in b)"

text \<open>The bits the receive callback sets in the owner's notification value.\<close>

definition mbm_uart_rx_callback :: "modbus_uart_event \<Rightarrow> bool \<Rightarrow> u32 option" where
  "mbm_uart_rx_callback event owner_task =
     (let bits = (if event = MODBUS_UART_EVENT_RX_DONE then NOTIFY_RX_DONE else NOTIFY_RX_ERROR)
      in if owner_task then Some bits else None)"

section \<open>Life cycle\<close>

definition modbus_master_init ::
  "u32 \<Rightarrow> u8 \<Rightarrow> modbus_master \<Rightarrow> modbus_master_err \<times> modbus_master" where
  "modbus_master_init response_timeout_ms max_retries s =
     (if response_timeout_ms = 0 then (MODBUS_MASTER_ERR_INVALID_ARG, s)
      else (MODBUS_MASTER_ERR_OK,
        \<lparr>mm_response_timeout_ms = response_timeout_ms, mm_max_retries = max_retries, mm_owner_task = False,
         mm_stats = zero_master_stats, mm_initialised = True, mm_started = False\<rparr>))"

definition modbus_master_start ::
  "'b mbm_port \<Rightarrow> modbus_master \<Rightarrow> 'b \<Rightarrow> modbus_master_err \<times> modbus_master \<times> 'b" where
  "modbus_master_start P s b =
     (if \<not> mm_initialised s then (MODBUS_MASTER_ERR_NOT_INIT, s, b)
      else if mm_started s then (MODBUS_MASTER_ERR_ALREADY_STARTED, s, b)
      else (MODBUS_MASTER_ERR_OK, s\<lparr>mm_owner_task := True, mm_started := True\<rparr>, mp_attach_rx P b))"

section \<open>One transaction\<close>

definition upd_stats :: "(modbus_master_stats \<Rightarrow> modbus_master_stats) \<Rightarrow> modbus_master \<Rightarrow> modbus_master" where
  "upd_stats f s = s\<lparr>mm_stats := f (mm_stats s)\<rparr>"

text \<open>The validation of a received frame: \<open>Inl\<close> is \<^verbatim>\<open>continue\<close> with the error kept, \<open>Inr\<close> a return.\<close>

definition mbm_check_response ::
  "modbus_frame \<Rightarrow> u8 list \<Rightarrow> modbus_frame \<Rightarrow> modbus_master \<Rightarrow>
   (modbus_master_err + modbus_master_err \<times> modbus_frame) \<times> modbus_master"
where
  "mbm_check_response request rx response s =
     (let body_len = length rx - 2;
          recv_crc = ucast (rx ! body_len) OR push_bit 8 (ucast (rx ! (body_len + 1)))
      in if mbm_crc16 (take body_len rx) \<noteq> recv_crc then
           (Inl MODBUS_MASTER_ERR_CRC, upd_stats (\<lambda>c. c\<lparr>mst_crc_errors := mst_crc_errors c + 1\<rparr>) s)
         else if rx ! 0 \<noteq> mf_slave_addr request then
           (Inr (MODBUS_MASTER_ERR_BAD_RESPONSE, response),
            upd_stats (\<lambda>c. c\<lparr>mst_bad_responses := mst_bad_responses c + 1\<rparr>) s)
         else if rx ! 1 = mf_function_code request OR 0x80 then
           if length rx < 5 then
             (Inr (MODBUS_MASTER_ERR_BAD_RESPONSE, response),
              upd_stats (\<lambda>c. c\<lparr>mst_bad_responses := mst_bad_responses c + 1\<rparr>) s)
           else
             (Inr (MODBUS_MASTER_ERR_EXCEPTION,
               response\<lparr>mf_slave_addr := rx ! 0, mf_function_code := rx ! 1,
                        mf_data := (mf_data response)[0 := rx ! 2], mf_data_len := 1\<rparr>),
              upd_stats (\<lambda>c. c\<lparr>mst_exception_responses := mst_exception_responses c + 1\<rparr>) s)
         else if rx ! 1 \<noteq> mf_function_code request then
           (Inr (MODBUS_MASTER_ERR_BAD_RESPONSE, response),
            upd_stats (\<lambda>c. c\<lparr>mst_bad_responses := mst_bad_responses c + 1\<rparr>) s)
         else
           let n = body_len - 2
           in (Inr (MODBUS_MASTER_ERR_OK,
                response\<lparr>mf_slave_addr := rx ! 0, mf_function_code := rx ! 1, mf_data_len := of_nat n,
                         mf_data := take n (drop 2 rx) @ drop n (mf_data response)\<rparr>),
               upd_stats (\<lambda>c. c\<lparr>mst_transactions_ok := mst_transactions_ok c + 1\<rparr>) s))"

definition mbm_attempt ::
  "'b mbm_port \<Rightarrow> modbus_frame \<Rightarrow> u8 list \<Rightarrow> modbus_frame \<Rightarrow> modbus_master \<Rightarrow> 'b \<Rightarrow>
   (modbus_master_err + modbus_master_err \<times> modbus_frame) \<times> modbus_master \<times> 'b"
where
  "mbm_attempt P request wire response s b =
     (let s = upd_stats (\<lambda>c. c\<lparr>mst_transactions_sent := mst_transactions_sent c + 1\<rparr>) s;
          b = mbm_flush_stale_rx P b;
          timed_out = upd_stats (\<lambda>c. c\<lparr>mst_timeouts := mst_timeouts c + 1\<rparr>) s
      in case mp_transmit P wire b of (tx, b) \<Rightarrow>
         if tx \<noteq> MODBUS_UART_OK then (Inl MODBUS_MASTER_ERR_TIMEOUT, timed_out, b)
         else case mp_wait P (NOTIFY_RX_DONE OR NOTIFY_RX_ERROR) (mm_response_timeout_ms s) b of
           (None, b) \<Rightarrow> (Inl MODBUS_MASTER_ERR_TIMEOUT, timed_out, b)
         | (Some bits, b) \<Rightarrow>
             if bits AND NOTIFY_RX_ERROR \<noteq> 0 then
               (Inl MODBUS_MASTER_ERR_RX_ERROR,
                upd_stats (\<lambda>c. c\<lparr>mst_rx_errors := mst_rx_errors c + 1\<rparr>) s, b)
             else case mp_get_rx_frame P b of ((rc, rx), b) \<Rightarrow>
               if rc \<noteq> MODBUS_UART_OK \<or> length rx < 4 then
                 (Inl MODBUS_MASTER_ERR_BAD_RESPONSE,
                  upd_stats (\<lambda>c. c\<lparr>mst_bad_responses := mst_bad_responses c + 1\<rparr>) s, b)
               else case mbm_check_response request rx response s of (r, s) \<Rightarrow> (r, s, b))"

partial_function (option) mbm_retry ::
  "'b mbm_port \<Rightarrow> modbus_frame \<Rightarrow> u8 list \<Rightarrow> u8 \<Rightarrow> modbus_master_err \<Rightarrow> modbus_frame \<Rightarrow> modbus_master \<Rightarrow> 'b \<Rightarrow>
   (modbus_master_err \<times> modbus_frame \<times> modbus_master \<times> 'b) option"
where
  "mbm_retry M request wire attempt last_err response s b =
     (if attempt \<le> mm_max_retries s then
        (case mbm_attempt M request wire response s b of
           (Inl err, s, b) \<Rightarrow> mbm_retry M request wire (attempt + 1) err response s b
         | (Inr (err, response), s, b) \<Rightarrow> Some (err, response, s, b))
      else Some (last_err, response, s, b))"

definition modbus_master_transact ::
  "'b mbm_port \<Rightarrow> modbus_frame option \<Rightarrow> modbus_frame option \<Rightarrow> modbus_master \<Rightarrow> 'b \<Rightarrow>
   (modbus_master_err \<times> modbus_frame option \<times> modbus_master \<times> 'b) option"
where
  "modbus_master_transact P request response s b =
     (if \<not> mm_started s then Some (MODBUS_MASTER_ERR_NOT_INIT, response, s, b)
      else case (request, response) of
        (Some req, Some resp) \<Rightarrow>
          if unat (mf_data_len req) > MODBUS_MAX_DATA_BYTES
          then Some (MODBUS_MASTER_ERR_INVALID_ARG, response, s, b)
          else do {
            (err, resp, s, b) \<leftarrow>
              mbm_retry P req (mbm_build_wire_frame req) 0 MODBUS_MASTER_ERR_TIMEOUT resp s b;
            Some (err, Some resp, s, b)
          }
      | _ \<Rightarrow> Some (MODBUS_MASTER_ERR_NULL_ARG, response, s, b))"

section \<open>Statistics\<close>

text \<open>The destination is an option and is returned overwritten.\<close>

definition modbus_master_get_stats ::
  "modbus_master_stats option \<Rightarrow> modbus_master \<Rightarrow> modbus_master_err \<times> modbus_master_stats option" where
  "modbus_master_get_stats stats_out s =
     (case stats_out of None \<Rightarrow> (MODBUS_MASTER_ERR_NULL_ARG, None)
      | Some out \<Rightarrow> if \<not> mm_initialised s then (MODBUS_MASTER_ERR_NOT_INIT, Some out)
                     else (MODBUS_MASTER_ERR_OK, Some (mm_stats s)))"

definition modbus_master_reset_stats :: "modbus_master \<Rightarrow> modbus_master_err \<times> modbus_master" where
  "modbus_master_reset_stats s =
     (if \<not> mm_initialised s then (MODBUS_MASTER_ERR_NOT_INIT, s)
      else (MODBUS_MASTER_ERR_OK, s\<lparr>mm_stats := zero_master_stats\<rparr>))"

section \<open>Framing\<close>

lemma mbm_crc16_eq: "mbm_crc16 data = modbus_crc16 data"
proof -
  have "fold (\<lambda>b crc. (mbm_crc_bit ^^ 8) (crc XOR ucast b)) data c = cfl_crc16_update c data" for c
  proof (induction data arbitrary: c)
    case (Cons b data)
    have "mbm_crc_bit = crc16_shift" by (rule ext) (simp add: mbm_crc_bit_def crc16_shift_def)
    then show ?case
      using Cons.IH [of "(mbm_crc_bit ^^ 8) (c XOR ucast b)"] by (simp del: funpow.simps)
  qed simp
  then show ?thesis by (simp add: mbm_crc16_def modbus_crc16_def modbus_crc16_loop_eq)
qed

section \<open>The counters balance\<close>

definition master_balanced :: "modbus_master_stats \<Rightarrow> bool" where
  "master_balanced c \<longleftrightarrow> mst_transactions_sent c =
     mst_transactions_ok c + mst_timeouts c + mst_crc_errors c + mst_rx_errors c +
     mst_exception_responses c + mst_bad_responses c"

text \<open>What an attempt does to the state: the configuration stays, one attempt more is counted.\<close>

definition attempted :: "modbus_master \<Rightarrow> modbus_master \<Rightarrow> bool" where
  "attempted s s' \<longleftrightarrow> s' = s\<lparr>mm_stats := mm_stats s'\<rparr> \<and>
     mst_transactions_sent (mm_stats s') = mst_transactions_sent (mm_stats s) + 1 \<and>
     (master_balanced (mm_stats s) \<longrightarrow> master_balanced (mm_stats s'))"

lemma attempted_outcomes:
  assumes "s1 = upd_stats (\<lambda>c. c\<lparr>mst_transactions_sent := mst_transactions_sent c + 1\<rparr>) s"
  shows "attempted s (upd_stats (\<lambda>c. c\<lparr>mst_timeouts := mst_timeouts c + 1\<rparr>) s1)"
    "attempted s (upd_stats (\<lambda>c. c\<lparr>mst_crc_errors := mst_crc_errors c + 1\<rparr>) s1)"
    "attempted s (upd_stats (\<lambda>c. c\<lparr>mst_rx_errors := mst_rx_errors c + 1\<rparr>) s1)"
    "attempted s (upd_stats (\<lambda>c. c\<lparr>mst_bad_responses := mst_bad_responses c + 1\<rparr>) s1)"
    "attempted s (upd_stats (\<lambda>c. c\<lparr>mst_exception_responses := mst_exception_responses c + 1\<rparr>) s1)"
    "attempted s (upd_stats (\<lambda>c. c\<lparr>mst_transactions_ok := mst_transactions_ok c + 1\<rparr>) s1)"
  using assms by (simp_all add: attempted_def upd_stats_def master_balanced_def)

lemma check_counts:
  assumes "s1 = upd_stats (\<lambda>c. c\<lparr>mst_transactions_sent := mst_transactions_sent c + 1\<rparr>) s"
  shows "attempted s (snd (mbm_check_response req rx resp s1))"
  using attempted_outcomes [OF assms] by (simp add: mbm_check_response_def Let_def)

lemma attempt_counts:
  assumes "mbm_attempt P req wire resp s b = (r, s', b')"
  shows "attempted s s'"
proof -
  define s1 where "s1 = upd_stats (\<lambda>c. c\<lparr>mst_transactions_sent := mst_transactions_sent c + 1\<rparr>) s"
  note outcomes = attempted_outcomes [OF s1_def] check_counts [OF s1_def]
  from assms show ?thesis
    unfolding mbm_attempt_def Let_def s1_def [symmetric]
    by (auto split: prod.splits option.splits if_splits intro: outcomes)
       (metis outcomes(7) snd_conv)
qed

lemma attempted_config [simp]: "attempted s s' \<Longrightarrow> mm_max_retries s' = mm_max_retries s"
  by (cases s; cases s') (auto simp: attempted_def)

section \<open>The retry loop\<close>

text \<open>What \<open>k\<close> attempts do to the state.\<close>

definition attempts :: "nat \<Rightarrow> modbus_master \<Rightarrow> modbus_master \<Rightarrow> bool" where
  "attempts k s s' \<longleftrightarrow> s' = s\<lparr>mm_stats := mm_stats s'\<rparr> \<and>
     mst_transactions_sent (mm_stats s') = mst_transactions_sent (mm_stats s) + of_nat k \<and>
     (master_balanced (mm_stats s) \<longrightarrow> master_balanced (mm_stats s'))"

lemma attempts_0 [simp]: "attempts 0 s s"
  by (simp add: attempts_def)

lemma attempts_Suc: "attempted s s' \<Longrightarrow> attempts k s' s'' \<Longrightarrow> attempts (Suc k) s s''"
  by (cases s; cases s'; cases s'') (auto simp: attempted_def attempts_def)

lemma retry_returns:
  assumes "unat attempt \<le> unat (mm_max_retries s) + 1" "mm_max_retries s < 255"
  shows "\<exists>e r s' b' k. mbm_retry P req wire attempt err0 resp s b = Some (e, r, s', b') \<and>
    attempts k s s' \<and> k \<le> unat (mm_max_retries s) + 1 - unat attempt"
  using assms
proof (induction "unat (mm_max_retries s) + 1 - unat attempt" arbitrary: attempt err0 resp s b)
  case 0
  then have "\<not> attempt \<le> mm_max_retries s" by (simp add: word_le_nat_alt)
  then show ?case by (subst mbm_retry.simps) (auto intro!: exI [of _ 0])
next
  case (Suc n)
  have le: "attempt \<le> mm_max_retries s" using Suc.hyps(2) by (simp add: word_le_nat_alt)
  have lt: "unat (mm_max_retries s) < 255" using Suc.prems(2) by (simp add: word_less_nat_alt)
  obtain r s1 b1 where a: "mbm_attempt P req wire resp s b = (r, s1, b1)" by (metis surj_pair)
  then have s1: "attempted s s1" by (rule attempt_counts)
  have nxt: "unat (attempt + 1) = unat attempt + 1"
    using le lt by (simp add: word_le_nat_alt unat_word_ariths)
  show ?case
  proof (cases r)
    case (Inr p)
    then show ?thesis using attempts_Suc [OF s1 attempts_0] le Suc.hyps(2)
      by (subst mbm_retry.simps) (auto simp: a split: prod.splits intro!: exI [of _ 1])
  next
    case (Inl err)
    have "n = unat (mm_max_retries s1) + 1 - unat (attempt + 1)"
      using Suc.hyps(2) s1 nxt by simp
    moreover have "unat (attempt + 1) \<le> unat (mm_max_retries s1) + 1" "mm_max_retries s1 < 255"
      using s1 nxt le Suc.prems(2) by (simp_all add: word_le_nat_alt)
    ultimately obtain e r' s' b' k where
      h: "mbm_retry P req wire (attempt + 1) err resp s1 b1 = Some (e, r', s', b')"
        "attempts k s1 s'" "k \<le> unat (mm_max_retries s1) + 1 - unat (attempt + 1)"
      using Suc.hyps(1) by blast
    then have "mbm_retry P req wire attempt err0 resp s b = Some (e, r', s', b')"
      using le by (subst mbm_retry.simps) (simp add: a Inl)
    moreover have "attempts (Suc k) s s'" by (rule attempts_Suc [OF s1 h(2)])
    moreover have "Suc k \<le> unat (mm_max_retries s) + 1 - unat attempt"
      using h(3) s1 nxt Suc.hyps(2) by simp
    ultimately show ?thesis by blast
  qed
qed

lemma transact_result:
  assumes "mm_max_retries s < 255"
  shows "\<exists>err resp' s' b' k. modbus_master_transact P request response s b = Some (err, resp', s', b') \<and>
    k \<le> unat (mm_max_retries s) + 1 \<and> attempts k s s'"
proof (cases "\<exists>req resp. mm_started s \<and> request = Some req \<and> response = Some resp \<and>
    unat (mf_data_len req) \<le> MODBUS_MAX_DATA_BYTES")
  case True
  then obtain req resp where r: "mm_started s" "request = Some req" "response = Some resp"
    "unat (mf_data_len req) \<le> MODBUS_MAX_DATA_BYTES" by blast
  obtain e r' s' b' k where "mbm_retry P req (mbm_build_wire_frame req) 0 MODBUS_MASTER_ERR_TIMEOUT resp s b =
      Some (e, r', s', b')" "attempts k s s'" "k \<le> unat (mm_max_retries s) + 1"
    using retry_returns [of 0 s P req "mbm_build_wire_frame req" MODBUS_MASTER_ERR_TIMEOUT resp b] assms
    by auto
  with r show ?thesis by (auto simp: modbus_master_transact_def)
next
  case False
  then have "\<exists>err. modbus_master_transact P request response s b = Some (err, response, s, b)"
    by (auto simp: modbus_master_transact_def not_le split: option.splits)
  then show ?thesis by (auto intro!: exI [of _ "0 :: nat"])
qed

lemma transact_counts:
  assumes "mm_max_retries s < 255" "modbus_master_transact P request response s b = Some (e, r, s', b')"
  shows "s' = s\<lparr>mm_stats := mm_stats s'\<rparr>"
  using transact_result [OF assms(1), of P request response b] assms(2) by (auto simp: attempts_def)

text \<open>C30: with at most 254 retries a transaction returns on every port, whatever arrives on the bus; it
  makes at most \<open>1 + max_retries\<close> attempts, each counted once as sent and once as an outcome, and
  changes nothing else of the master.\<close>

theorem transaction_returns:
  assumes "mm_max_retries s < 255"
  shows "\<exists>err resp' s' b' k. modbus_master_transact P request response s b = Some (err, resp', s', b') \<and>
    k \<le> unat (mm_max_retries s) + 1 \<and> s' = s\<lparr>mm_stats := mm_stats s'\<rparr> \<and>
    mst_transactions_sent (mm_stats s') = mst_transactions_sent (mm_stats s) + of_nat k \<and>
    (master_balanced (mm_stats s) \<longrightarrow> master_balanced (mm_stats s'))"
  using transact_result [OF assms, of P request response b] by (auto simp: attempts_def)

text \<open>With 255 retries the 8-bit attempt counter never passes the limit: a transaction on a bus where
  every transmission fails does not return.\<close>

definition dead_port :: "unit mbm_port" where
  "dead_port = \<lparr>mp_wait = \<lambda>_ _ b. (None, b), mp_transmit = \<lambda>_ b. (MODBUS_UART_ERR_TIMEOUT, b),
     mp_get_rx_frame = \<lambda>b. ((MODBUS_UART_OK, []), b), mp_attach_rx = id\<rparr>"

lemma dead_attempt:
  "mbm_attempt dead_port req wire resp s b = (Inl MODBUS_MASTER_ERR_TIMEOUT,
     upd_stats (\<lambda>c. c\<lparr>mst_timeouts := mst_timeouts c + 1\<rparr>)
       (upd_stats (\<lambda>c. c\<lparr>mst_transactions_sent := mst_transactions_sent c + 1\<rparr>) s), b)"
  by (simp add: mbm_attempt_def dead_port_def Let_def)



lemma dead_retry:
  "mbm_retry P req wire attempt err0 resp s b = Some r \<Longrightarrow> P = dead_port \<longrightarrow> mm_max_retries s \<noteq> 255"
proof (rule mbm_retry.raw_induct
    [where P = "\<lambda>port req wire attempt err0 resp s b r. port = dead_port \<longrightarrow> mm_max_retries s \<noteq> 255"])
  fix retry :: "unit mbm_port \<Rightarrow> modbus_frame \<Rightarrow> u8 list \<Rightarrow> u8 \<Rightarrow> modbus_master_err \<Rightarrow> modbus_frame \<Rightarrow> modbus_master \<Rightarrow> unit \<Rightarrow>
      (modbus_master_err \<times> modbus_frame \<times> modbus_master \<times> unit) option"
    and port req wire attempt err0 resp s b r
  assume IH: "\<And>port req wire attempt err0 resp s b r. retry port req wire attempt err0 resp s b = Some r \<Longrightarrow>
      port = dead_port \<longrightarrow> mm_max_retries s \<noteq> 255"
    and step: "(if attempt \<le> mm_max_retries s then
        (case mbm_attempt port req wire resp s b of
           (Inl err, s, b) \<Rightarrow> retry port req wire (attempt + 1) err resp s b
         | (Inr (err, response), s, b) \<Rightarrow> Some (err, response, s, b))
      else Some (err0, resp, s, b)) = Some r"
  show "port = dead_port \<longrightarrow> mm_max_retries s \<noteq> 255"
  proof (intro impI notI)
    assume P: "port = dead_port" and m: "mm_max_retries s = 255"
    have "attempt \<le> 255" using unat_u8_less [of attempt] by (simp add: word_le_nat_alt del: unat_u8_less)
    with step m
    have "retry port req wire (attempt + 1) MODBUS_MASTER_ERR_TIMEOUT resp
        (upd_stats (\<lambda>c. c\<lparr>mst_timeouts := mst_timeouts c + 1\<rparr>)
         (upd_stats (\<lambda>c. c\<lparr>mst_transactions_sent := mst_transactions_sent c + 1\<rparr>) s)) b = Some r"
      by (simp add: P dead_attempt)
    from IH [OF this] P m show False by (simp add: upd_stats_def)
  qed
qed

text \<open>C34: with 255 retries, which init accepts, a transaction never returns on a bus where every
  transmission fails.\<close>

theorem transaction_never_returns:
  assumes "mm_started s" "mm_max_retries s = 255" "unat (mf_data_len req) \<le> 252"
  shows "modbus_master_transact dead_port (Some req) (Some resp) s b = None"
proof (cases "mbm_retry dead_port req (mbm_build_wire_frame req) 0 MODBUS_MASTER_ERR_TIMEOUT resp s b")
  case None
  with assms show ?thesis by (simp add: modbus_master_transact_def MODBUS_MAX_DATA_BYTES_def)
next
  case (Some r)
  from dead_retry [OF this] assms(2) show ?thesis by simp
qed

definition demo_master :: modbus_master where
  "demo_master = \<lparr>mm_response_timeout_ms = 200, mm_max_retries = 3, mm_owner_task = True,
     mm_stats = zero_master_stats, mm_initialised = True, mm_started = True\<rparr>"

theorem transaction_returns_witness:
  "\<exists>err resp' s' b' k. modbus_master_transact dead_port (Some zero_frame) (Some zero_frame) demo_master () = Some (err, resp', s', b') \<and>
    k \<le> (4 :: nat) \<and> master_balanced (mm_stats s')"
  using transaction_returns [of demo_master dead_port "Some zero_frame" "Some zero_frame" "()"]
  by (auto simp: demo_master_def master_balanced_def zero_master_stats_def)

theorem transaction_never_returns_witness:
  "modbus_master_transact dead_port (Some zero_frame) (Some zero_frame) (demo_master\<lparr>mm_max_retries := 255\<rparr>) () = None"
  by (rule transaction_never_returns) (simp_all add: demo_master_def zero_frame_def)

end
