(* ===== verification/Device_Profiles.thy ===== *)
theory Device_Profiles
  imports Prelude
begin

text \<open>
  DeviceProfileRegistry of the gateway
  (\<^verbatim>\<open>application/device_profile_registry/device_profile_registry.c\<close>): the table of the slaves the
  gateway may poll and the identity it expects of each.

  The storage callbacks work on a state \<open>'w\<close> (ConfigService and its flash).  \<open>dst_load\<close> returns its
  verdict, the count and the array it filled.  A null pointer is \<open>None\<close>; an output pointer is
  returned.  The two mutexes are not modelled: a writer holds its mutex across the whole operation,
  and readers copy under the other.  A description is its 32 bytes.
\<close>

section \<open>Types and state\<close>

definition DEVICE_PROFILE_MAX :: nat where "DEVICE_PROFILE_MAX = 8"
definition DEVICE_PROFILE_DESC_MAX :: nat where "DEVICE_PROFILE_DESC_MAX = 32"
definition DEVICE_PROFILE_DEFAULT_ADDR :: u8 where "DEVICE_PROFILE_DEFAULT_ADDR = 1"
definition DEVICE_PROFILE_DEFAULT_MAP_VERSION :: u16 where "DEVICE_PROFILE_DEFAULT_MAP_VERSION = 1"
definition DEVICE_PROFILE_DEFAULT_VENDOR_CODE :: u16 where "DEVICE_PROFILE_DEFAULT_VENDOR_CODE = 0x1A45"

text \<open>\<^verbatim>\<open>"Field Device 1 (default)"\<close>\<close>

definition DEVICE_PROFILE_DEFAULT_DESCRIPTION :: "u8 list" where
  "DEVICE_PROFILE_DEFAULT_DESCRIPTION =
    [70, 105, 101, 108, 100, 32, 68, 101, 118, 105, 99, 101, 32, 49, 32, 40, 100, 101, 102, 97, 117, 108, 116, 41]"

record device_profile =
  dp_slave_addr :: u8
  dp_map_version :: u16
  dp_vendor_code :: u16
  dp_description :: "u8 list"

datatype device_profile_registry_err =
    DEVICE_PROFILE_REGISTRY_OK | DEVICE_PROFILE_REGISTRY_ERR_NULL_ARG | DEVICE_PROFILE_REGISTRY_ERR_NOT_INIT
  | DEVICE_PROFILE_REGISTRY_ERR_NOT_FOUND | DEVICE_PROFILE_REGISTRY_ERR_FULL | DEVICE_PROFILE_REGISTRY_ERR_INVALID
  | DEVICE_PROFILE_REGISTRY_ERR_PERSIST | DEVICE_PROFILE_REGISTRY_ERR_NO_RESOURCE

record 'w device_profile_storage =
  dst_load :: "nat \<Rightarrow> 'w \<Rightarrow> (bool \<times> u8 \<times> device_profile list) \<times> 'w"
  dst_save :: "device_profile list \<Rightarrow> u8 \<Rightarrow> 'w \<Rightarrow> bool \<times> 'w"

record 'w registry =
  reg_profiles :: "device_profile list"
  reg_count :: u8
  reg_storage :: "'w device_profile_storage"
  reg_initialised :: bool

definition zero_profile :: device_profile where
  "zero_profile = \<lparr>dp_slave_addr = 0, dp_map_version = 0, dp_vendor_code = 0,
     dp_description = replicate DEVICE_PROFILE_DESC_MAX 0\<rparr>"

section \<open>Helpers\<close>

text \<open>The scan of a description from position \<open>i\<close>: printable characters up to a terminator that is
  not the first byte.\<close>

fun description_scan :: "nat \<Rightarrow> u8 list \<Rightarrow> bool" where
  "description_scan i [] = False"
| "description_scan i (c # d) =
     (if c = 0 then i > 0 else if c < 0x20 \<or> c > 0x7E then False else description_scan (i + 1) d)"

definition description_valid :: "u8 list \<Rightarrow> bool" where
  "description_valid d = description_scan 0 (take DEVICE_PROFILE_DESC_MAX d)"

definition profile_valid :: "device_profile \<Rightarrow> bool" where
  "profile_valid p \<longleftrightarrow> dp_slave_addr p \<ge> 1 \<and> dp_slave_addr p \<le> 247 \<and> dp_map_version p \<noteq> 0 \<and>
     dp_vendor_code p \<noteq> 0 \<and> description_valid (dp_description p)"

text \<open>\<^verbatim>\<open>strncpy\<close> copies at most 31 bytes into the zeroed array.\<close>

definition default_profile :: device_profile where
  "default_profile =
    (let d = take (DEVICE_PROFILE_DESC_MAX - 1) DEVICE_PROFILE_DEFAULT_DESCRIPTION
     in zero_profile\<lparr>dp_slave_addr := DEVICE_PROFILE_DEFAULT_ADDR, dp_map_version := DEVICE_PROFILE_DEFAULT_MAP_VERSION,
          dp_vendor_code := DEVICE_PROFILE_DEFAULT_VENDOR_CODE,
          dp_description := d @ drop (length d) (dp_description zero_profile)\<rparr>)"

definition seed_default :: "'w registry \<Rightarrow> 'w registry" where
  "seed_default r = r\<lparr>reg_profiles := (reg_profiles r)[0 := default_profile], reg_count := 1\<rparr>"

text \<open>The index of the first profile with the address among the first \<open>count\<close>, else \<open>count\<close>.\<close>

definition find_in :: "device_profile list \<Rightarrow> u8 \<Rightarrow> u8 \<Rightarrow> nat" where
  "find_in table count addr = length (takeWhile (\<lambda>p. dp_slave_addr p \<noteq> addr) (take (unat count) table))"

definition reg_commit ::
  "device_profile list \<Rightarrow> u8 \<Rightarrow> 'w registry \<Rightarrow> 'w \<Rightarrow> device_profile_registry_err \<times> 'w registry \<times> 'w" where
  "reg_commit candidate count r w =
     (case dst_save (reg_storage r) candidate count w of
        (False, w) \<Rightarrow> (DEVICE_PROFILE_REGISTRY_ERR_PERSIST, r, w)
      | (True, w) \<Rightarrow> (DEVICE_PROFILE_REGISTRY_OK, r\<lparr>reg_profiles := candidate, reg_count := count\<rparr>, w))"

section \<open>Provider\<close>

definition provider_get_next ::
  "device_profile option \<Rightarrow> u8 option \<Rightarrow> 'w registry \<Rightarrow> bool \<times> device_profile option \<times> u8 option" where
  "provider_get_next out index r =
     (case (out, index) of
        (Some _, Some i) \<Rightarrow>
          if \<not> reg_initialised r then (False, out, index)
          else if i < reg_count r then (True, Some (reg_profiles r ! unat i), Some (i + 1))
          else (False, out, index)
      | _ \<Rightarrow> (False, out, index))"

definition provider_get_by_addr ::
  "u8 \<Rightarrow> device_profile option \<Rightarrow> 'w registry \<Rightarrow> device_profile_registry_err \<times> device_profile option" where
  "provider_get_by_addr addr out r =
     (case out of None \<Rightarrow> (DEVICE_PROFILE_REGISTRY_ERR_NULL_ARG, out)
      | Some _ \<Rightarrow>
          if \<not> reg_initialised r then (DEVICE_PROFILE_REGISTRY_ERR_NOT_INIT, out)
          else
            let i = find_in (reg_profiles r) (reg_count r) addr
            in if i < unat (reg_count r) then (DEVICE_PROFILE_REGISTRY_OK, Some (reg_profiles r ! i))
               else (DEVICE_PROFILE_REGISTRY_ERR_NOT_FOUND, out))"

definition provider_is_registered :: "u8 \<Rightarrow> 'w registry \<Rightarrow> bool" where
  "provider_is_registered addr r =
     (fst (provider_get_by_addr addr (Some zero_profile) r) = DEVICE_PROFILE_REGISTRY_OK)"

section \<open>Manager\<close>

definition manager_add_or_update ::
  "device_profile option \<Rightarrow> 'w registry \<Rightarrow> 'w \<Rightarrow> device_profile_registry_err \<times> 'w registry \<times> 'w" where
  "manager_add_or_update profile r w =
     (case profile of None \<Rightarrow> (DEVICE_PROFILE_REGISTRY_ERR_NULL_ARG, r, w)
      | Some p \<Rightarrow>
          if \<not> reg_initialised r then (DEVICE_PROFILE_REGISTRY_ERR_NOT_INIT, r, w)
          else if \<not> profile_valid p then (DEVICE_PROFILE_REGISTRY_ERR_INVALID, r, w)
          else
            let candidate = reg_profiles r; count = reg_count r;
                i = find_in candidate count (dp_slave_addr p)
            in if i = unat count \<and> unat count \<ge> DEVICE_PROFILE_MAX then (DEVICE_PROFILE_REGISTRY_ERR_FULL, r, w)
               else reg_commit (candidate[i := p]) (if i = unat count then count + 1 else count) r w)"

definition manager_remove ::
  "u8 \<Rightarrow> 'w registry \<Rightarrow> 'w \<Rightarrow> device_profile_registry_err \<times> 'w registry \<times> 'w" where
  "manager_remove addr r w =
     (if \<not> reg_initialised r then (DEVICE_PROFILE_REGISTRY_ERR_NOT_INIT, r, w)
      else
        let candidate = reg_profiles r; count = reg_count r; i = find_in candidate count addr
        in if i < unat count then
             let count = count - 1;
                 candidate = candidate[i := candidate ! unat count];
                 candidate = candidate[unat count := zero_profile]
             in reg_commit candidate count r w
           else (DEVICE_PROFILE_REGISTRY_ERR_NOT_FOUND, r, w))"

section \<open>Life cycle\<close>

text \<open>The argument is the storage structure with its callbacks present; \<open>mutexes\<close> says whether both
  mutexes were created.\<close>

definition device_profile_registry_init ::
  "'w device_profile_storage option \<Rightarrow> bool \<Rightarrow> 'w registry \<Rightarrow> device_profile_registry_err \<times> 'w registry" where
  "device_profile_registry_init storage mutexes r =
     (case storage of None \<Rightarrow> (DEVICE_PROFILE_REGISTRY_ERR_NULL_ARG, r)
      | Some st \<Rightarrow>
          if reg_initialised r then (DEVICE_PROFILE_REGISTRY_OK, r)
          else if \<not> mutexes then (DEVICE_PROFILE_REGISTRY_ERR_NO_RESOURCE, r)
          else (DEVICE_PROFILE_REGISTRY_OK, r\<lparr>reg_storage := st, reg_count := 0, reg_initialised := True\<rparr>))"

definition loaded_ok :: "device_profile list \<Rightarrow> nat \<Rightarrow> bool" where
  "loaded_ok loaded n =
     list_all (\<lambda>i. profile_valid (loaded ! i) \<and> find_in loaded (of_nat i) (dp_slave_addr (loaded ! i)) = i) [0..<n]"

definition device_profile_registry_load ::
  "'w registry \<Rightarrow> 'w \<Rightarrow> device_profile_registry_err \<times> 'w registry \<times> 'w" where
  "device_profile_registry_load r w =
     (if \<not> reg_initialised r then (DEVICE_PROFILE_REGISTRY_ERR_NOT_INIT, r, w)
      else
        case dst_load (reg_storage r) DEVICE_PROFILE_MAX w of ((rc, n, loaded), w) \<Rightarrow>
          let ok = rc \<and> n > 0 \<and> unat n \<le> DEVICE_PROFILE_MAX \<and> loaded_ok loaded (unat n);
              r = (if ok then r\<lparr>reg_profiles := take (unat n) loaded @ replicate (DEVICE_PROFILE_MAX - unat n) zero_profile,
                                reg_count := n\<rparr>
                   else seed_default r)
          in (DEVICE_PROFILE_REGISTRY_OK, r, w))"

definition device_profile_registry_count :: "'w registry \<Rightarrow> u8" where
  "device_profile_registry_count r = (if reg_initialised r then reg_count r else 0)"

section \<open>The table\<close>

text \<open>The live profiles, and the registry as a map from addresses to profiles.\<close>

definition live :: "'w registry \<Rightarrow> device_profile list" where
  "live r = take (unat (reg_count r)) (reg_profiles r)"

definition profile_map :: "device_profile list \<Rightarrow> u8 \<rightharpoonup> device_profile" where
  "profile_map ps = map_of (map (\<lambda>p. (dp_slave_addr p, p)) ps)"

definition table_ok :: "device_profile list \<Rightarrow> bool" where
  "table_ok ps \<longleftrightarrow> length ps \<le> 8 \<and> (\<forall>p \<in> set ps. profile_valid p) \<and> distinct (map dp_slave_addr ps)"

definition registry_wf :: "'w registry \<Rightarrow> bool" where
  "registry_wf r \<longleftrightarrow> length (reg_profiles r) = 8 \<and> unat (reg_count r) \<le> 8 \<and> table_ok (live r)"

lemma length_live: "registry_wf r \<Longrightarrow> length (live r) = unat (reg_count r)"
  by (simp add: registry_wf_def live_def)

lemma find_in_live: "find_in (reg_profiles r) (reg_count r) a = length (takeWhile (\<lambda>p. dp_slave_addr p \<noteq> a) (live r))"
  by (simp add: find_in_def live_def)

lemma find_some:
  assumes "length (takeWhile (\<lambda>p. dp_slave_addr p \<noteq> a) ps) < length ps"
  shows "dp_slave_addr (ps ! length (takeWhile (\<lambda>p. dp_slave_addr p \<noteq> a) ps)) = a"
    "a \<in> dp_slave_addr ` set ps"
proof -
  show 1: "dp_slave_addr (ps ! length (takeWhile (\<lambda>p. dp_slave_addr p \<noteq> a) ps)) = a"
    using nth_length_takeWhile [OF assms] by simp
  show "a \<in> dp_slave_addr ` set ps" using 1 nth_mem [OF assms] by force
qed

lemma find_none:
  assumes "\<not> length (takeWhile (\<lambda>p. dp_slave_addr p \<noteq> a) ps) < length ps"
  shows "a \<notin> dp_slave_addr ` set ps" "length (takeWhile (\<lambda>p. dp_slave_addr p \<noteq> a) ps) = length ps"
proof -
  show 2: "length (takeWhile (\<lambda>p. dp_slave_addr p \<noteq> a) ps) = length ps"
    using assms length_takeWhile_le [of "\<lambda>p. dp_slave_addr p \<noteq> a" ps] by simp
  then have "takeWhile (\<lambda>p. dp_slave_addr p \<noteq> a) ps = ps"
    by (metis takeWhile_eq_take take_all order_refl)
  then show "a \<notin> dp_slave_addr ` set ps" by (auto simp: takeWhile_eq_all_conv)
qed

lemma dom_profile_map: "dom (profile_map ps) = dp_slave_addr ` set ps"
  by (simp add: profile_map_def dom_map_of_conv_image_fst image_image)

lemma profile_map_iff:
  assumes "distinct (map dp_slave_addr ps)"
  shows "profile_map ps a = Some q \<longleftrightarrow> q \<in> set ps \<and> dp_slave_addr q = a"
proof -
  have "distinct (map fst (map (\<lambda>p. (dp_slave_addr p, p)) ps))" using assms by (simp add: comp_def)
  from map_of_eq_Some_iff [OF this, of a q] show ?thesis by (auto simp: profile_map_def)
qed

lemma map_eqI: "(\<And>a q. m a = Some q \<longleftrightarrow> n a = Some q) \<Longrightarrow> m = n"
  by (rule ext) (metis not_None_eq)

lemma same_address:
  assumes "distinct (map dp_slave_addr ps)" "x \<in> set ps" "y \<in> set ps" "dp_slave_addr x = dp_slave_addr y"
  shows "x = y"
  using assms by (meson distinct_map inj_onD)

text \<open>Replacing a profile by one with its address, adding one with a new address and leaving one out.\<close>

lemma profile_map_replace:
  assumes "distinct (map dp_slave_addr ps)" "distinct (map dp_slave_addr qs)" "q0 \<in> set ps"
    and "set qs = insert p (set ps - {q0})" "dp_slave_addr p = dp_slave_addr q0"
  shows "profile_map qs = (profile_map ps)(dp_slave_addr p \<mapsto> p)"
proof (rule map_eqI)
  fix a q
  show "profile_map qs a = Some q \<longleftrightarrow> ((profile_map ps)(dp_slave_addr p \<mapsto> p)) a = Some q"
  proof (cases "a = dp_slave_addr p")
    case True
    then show ?thesis
      using profile_map_iff [OF assms(2), of a q] same_address [OF assms(1), of q q0] assms(3-5) by auto
  next
    case False
    then show ?thesis
      using profile_map_iff [OF assms(2), of a q] profile_map_iff [OF assms(1), of a q] assms(4,5) by auto
  qed
qed

lemma profile_map_add:
  assumes "distinct (map dp_slave_addr ps)" "dp_slave_addr p \<notin> dp_slave_addr ` set ps"
  shows "profile_map (ps @ [p]) = (profile_map ps)(dp_slave_addr p \<mapsto> p)" "distinct (map dp_slave_addr (ps @ [p]))"
proof -
  show d: "distinct (map dp_slave_addr (ps @ [p]))" using assms by simp
  show "profile_map (ps @ [p]) = (profile_map ps)(dp_slave_addr p \<mapsto> p)"
  proof (rule map_eqI)
    fix a q
    have new: "dp_slave_addr x \<noteq> dp_slave_addr p" if "x \<in> set ps" for x
      using assms(2) that by (metis imageI)
    show "profile_map (ps @ [p]) a = Some q \<longleftrightarrow> ((profile_map ps)(dp_slave_addr p \<mapsto> p)) a = Some q"
      using profile_map_iff [OF d, of a q] profile_map_iff [OF assms(1), of a q] new
      by (cases "a = dp_slave_addr p") auto
  qed
qed

lemma profile_map_remove:
  assumes "distinct (map dp_slave_addr ps)" "distinct (map dp_slave_addr qs)" "q0 \<in> set ps" "set qs = set ps - {q0}"
  shows "profile_map qs = (profile_map ps)(dp_slave_addr q0 := None)"
proof (rule map_eqI)
  fix a q
  show "profile_map qs a = Some q \<longleftrightarrow> ((profile_map ps)(dp_slave_addr q0 := None)) a = Some q"
    using profile_map_iff [OF assms(2), of a q] profile_map_iff [OF assms(1), of a q]
      same_address [OF assms(1), of q q0] assms(3,4)
    by (cases "a = dp_slave_addr q0") auto
qed

text \<open>Leaving out entry \<open>i\<close>: the last entry takes its place.\<close>

definition drop_at :: "nat \<Rightarrow> 'a list \<Rightarrow> 'a list" where
  "drop_at i ps = butlast (ps[i := last ps])"

lemma drop_at_set:
  assumes "distinct ps" "i < length ps"
  shows "set (drop_at i ps) = set ps - {ps ! i}" "distinct (drop_at i ps)"
proof -
  have ne: "ps \<noteq> []" using assms(2) by auto
  show "set (drop_at i ps) = set ps - {ps ! i}" "distinct (drop_at i ps)"
  proof -
    obtain qs z where ps: "ps = qs @ [z]" using ne by (metis append_butlast_last_id)
    show "set (drop_at i ps) = set ps - {ps ! i}"
    proof (cases "i = length qs")
      case True
      with assms ps show ?thesis by (auto simp: drop_at_def nth_append list_update_append)
    next
      case False
      then have i: "i < length qs" using assms(2) ps by simp
      then have "set (qs[i := z]) = insert z (set qs - {qs ! i})"
        using assms(1) ps by (intro set_update_distinct) auto
      then show ?thesis using i assms(1) ps by (auto simp: drop_at_def nth_append list_update_append)
    qed
    show "distinct (drop_at i ps)"
      using assms ps by (auto simp: drop_at_def list_update_append nth_append distinct_list_update split: nat.splits)
  qed
qed

section \<open>Every change of the table is one of the map, and is on the flash\<close>

text \<open>\<open>profile_op\<close> is the abstract registry: a finite map of at most eight valid profiles, whose changes
  may be refused by the storage.\<close>

datatype profile_op = Op_add device_profile | Op_remove u8

fun apply_profile_op :: "profile_op \<Rightarrow> (u8 \<rightharpoonup> device_profile) \<Rightarrow> bool \<Rightarrow>
    device_profile_registry_err \<times> (u8 \<rightharpoonup> device_profile)" where
  "apply_profile_op (Op_add p) f saves =
     (if \<not> profile_valid p then (DEVICE_PROFILE_REGISTRY_ERR_INVALID, f)
      else if f (dp_slave_addr p) = None \<and> card (dom f) \<ge> 8 then (DEVICE_PROFILE_REGISTRY_ERR_FULL, f)
      else if \<not> saves then (DEVICE_PROFILE_REGISTRY_ERR_PERSIST, f)
      else (DEVICE_PROFILE_REGISTRY_OK, f(dp_slave_addr p \<mapsto> p)))"
| "apply_profile_op (Op_remove a) f saves =
     (if f a = None then (DEVICE_PROFILE_REGISTRY_ERR_NOT_FOUND, f)
      else if \<not> saves then (DEVICE_PROFILE_REGISTRY_ERR_PERSIST, f)
      else (DEVICE_PROFILE_REGISTRY_OK, f(a := None)))"

fun registry_op :: "profile_op \<Rightarrow> 'w registry \<Rightarrow> 'w \<Rightarrow> device_profile_registry_err \<times> 'w registry \<times> 'w" where
  "registry_op (Op_add p) r w = manager_add_or_update (Some p) r w"
| "registry_op (Op_remove a) r w = manager_remove a r w"

text \<open>The table that a change hands to the storage.\<close>

fun next_table :: "profile_op \<Rightarrow> 'w registry \<Rightarrow> device_profile list \<times> u8" where
  "next_table (Op_add p) r =
     (let i = find_in (reg_profiles r) (reg_count r) (dp_slave_addr p)
      in ((reg_profiles r)[i := p], if i = unat (reg_count r) then reg_count r + 1 else reg_count r))"
| "next_table (Op_remove a) r =
     (let i = find_in (reg_profiles r) (reg_count r) a; c = reg_count r - 1
      in ((reg_profiles r)[i := reg_profiles r ! unat c, unat c := zero_profile], c))"

lemma card_profile_map:
  assumes "distinct (map dp_slave_addr ps)"
  shows "card (dom (profile_map ps)) = length ps"
  using assms by (metis dom_profile_map image_set distinct_card length_map)

lemma not_found_None:
  assumes "registry_wf r"
  shows "find_in (reg_profiles r) (reg_count r) a = unat (reg_count r) \<longleftrightarrow> profile_map (live r) a = None"
    "find_in (reg_profiles r) (reg_count r) a \<le> unat (reg_count r)"
proof -
  let ?i = "find_in (reg_profiles r) (reg_count r) a"
  have l: "length (live r) = unat (reg_count r)" by (rule length_live [OF assms])
  show le: "?i \<le> unat (reg_count r)"
    using length_takeWhile_le [of "\<lambda>p. dp_slave_addr p \<noteq> a" "live r"] l by (simp add: find_in_live)
  show "?i = unat (reg_count r) \<longleftrightarrow> profile_map (live r) a = None"
  proof
    assume "?i = unat (reg_count r)"
    then have "a \<notin> dp_slave_addr ` set (live r)"
      using find_none(1) [of a "live r"] l by (simp add: find_in_live)
    then show "profile_map (live r) a = None" by (metis dom_profile_map domIff)
  next
    assume n: "profile_map (live r) a = None"
    show "?i = unat (reg_count r)"
    proof (rule ccontr)
      assume "?i \<noteq> unat (reg_count r)"
      with le l have "?i < length (live r)" by simp
      then have "a \<in> dp_slave_addr ` set (live r)"
        using find_some(2) [of a "live r"] by (simp add: find_in_live)
      with n show False by (metis dom_profile_map domIff)
    qed
  qed
qed

lemma registry_op_eq:
  assumes "registry_wf r" "reg_initialised r"
    and "apply_profile_op x (profile_map (live r)) saves = (e, f)"
    and "dst_save (reg_storage r) (fst (next_table x r)) (snd (next_table x r)) w = (saves, w')"
  shows "case registry_op x r w of (e', r', w'') \<Rightarrow> e' = e \<and>
    (if e = DEVICE_PROFILE_REGISTRY_OK
     then r' = r\<lparr>reg_profiles := fst (next_table x r), reg_count := snd (next_table x r)\<rparr> else r' = r) \<and>
    w'' = (if e \<in> {DEVICE_PROFILE_REGISTRY_OK, DEVICE_PROFILE_REGISTRY_ERR_PERSIST} then w' else w)"
proof -
  have d: "distinct (map dp_slave_addr (live r))" using assms(1) by (simp add: registry_wf_def table_ok_def)
  have card: "card (dom (profile_map (live r))) = unat (reg_count r)"
    using card_profile_map [OF d] length_live [OF assms(1)] by simp
  show ?thesis
  proof (cases x)
    case (Op_add p)
    then show ?thesis
      using assms not_found_None [OF assms(1), of "dp_slave_addr p"] card
      by (auto simp: manager_add_or_update_def reg_commit_def DEVICE_PROFILE_MAX_def Let_def split: if_splits prod.splits bool.splits)
  next
    case (Op_remove a)
    then show ?thesis
      using assms not_found_None [OF assms(1), of a]
      by (auto simp: manager_remove_def reg_commit_def Let_def split: if_splits prod.splits bool.splits)
  qed
qed

lemma live_set:
  "live (r\<lparr>reg_profiles := ps, reg_count := c\<rparr>) = take (unat c) ps"
  by (simp add: live_def)

lemma add_table_ok:
  assumes wf: "registry_wf r" and valid: "profile_valid p"
    and room: "profile_map (live r) (dp_slave_addr p) \<noteq> None \<or> unat (reg_count r) < 8"
    and r': "r' = r\<lparr>reg_profiles := fst (next_table (Op_add p) r), reg_count := snd (next_table (Op_add p) r)\<rparr>"
  shows "registry_wf r' \<and> profile_map (live r') = (profile_map (live r))(dp_slave_addr p \<mapsto> p)"
proof -
  let ?i = "find_in (reg_profiles r) (reg_count r) (dp_slave_addr p)" and ?n = "unat (reg_count r)"
  have l: "length (reg_profiles r) = 8" "?n \<le> 8" "table_ok (live r)" "length (live r) = ?n"
    using wf length_live [OF wf] by (simp_all add: registry_wf_def)
  have d: "distinct (map dp_slave_addr (live r))" "distinct (live r)"
    using l(3) by (auto simp: table_ok_def distinct_map)
  note nf = not_found_None [OF wf, of "dp_slave_addr p"]
  show ?thesis
  proof (cases "?i = ?n")
    case True
    then have none: "profile_map (live r) (dp_slave_addr p) = None" and lt: "?n < 8" using nf room by auto
    have c: "unat (reg_count r + 1) = ?n + 1" using lt by (simp add: unat_word_ariths)
    have live': "live r' = live r @ [p]"
      using True lt l(1) by (simp add: r' live_def Let_def c take_Suc_conv_app_nth)
    have "dp_slave_addr p \<notin> dp_slave_addr ` set (live r)" using none by (metis dom_profile_map domIff)
    note add = profile_map_add [OF d(1) this]
    have "table_ok (live r')" using l(3,4) add(2) lt valid by (auto simp: live' table_ok_def)
    moreover have "length (reg_profiles r') = 8" "unat (reg_count r') \<le> 8"
      using l(1) lt True c by (simp_all add: r' Let_def)
    ultimately show ?thesis using add(1) by (simp add: registry_wf_def live')
  next
    case False
    with nf(2) have lt: "?i < ?n" by simp
    have live': "live r' = (live r)[?i := p]" using False by (simp add: r' live_def Let_def take_update_swap)
    have a: "dp_slave_addr (live r ! ?i) = dp_slave_addr p"
      using find_some(1) [of "dp_slave_addr p" "live r"] lt l(4) by (simp add: find_in_live)
    have s: "set (live r') = insert p (set (live r) - {live r ! ?i})"
      using lt l(4) d(2) unfolding live' by (intro set_update_distinct) simp_all
    have m: "map dp_slave_addr (live r') = map dp_slave_addr (live r)"
      using lt l(4) a by (simp add: live' map_update list_update_same_conv)
    have "profile_map (live r') = (profile_map (live r))(dp_slave_addr p \<mapsto> p)"
      by (rule profile_map_replace [OF d(1) _ _ s]) (use m d(1) lt l(4) a in simp_all)
    moreover have "table_ok (live r')"
      using l(3) s m valid by (auto simp: table_ok_def live')
    ultimately show ?thesis using l(1,2) False by (simp add: registry_wf_def r' Let_def)
  qed
qed

lemma remove_table_ok:
  assumes wf: "registry_wf r" and found: "profile_map (live r) a \<noteq> None"
    and r': "r' = r\<lparr>reg_profiles := fst (next_table (Op_remove a) r), reg_count := snd (next_table (Op_remove a) r)\<rparr>"
  shows "registry_wf r' \<and> profile_map (live r') = (profile_map (live r))(a := None)"
proof -
  let ?i = "find_in (reg_profiles r) (reg_count r) a" and ?n = "unat (reg_count r)"
  have l: "length (reg_profiles r) = 8" "?n \<le> 8" "table_ok (live r)" "length (live r) = ?n"
    using wf length_live [OF wf] by (simp_all add: registry_wf_def)
  have d: "distinct (map dp_slave_addr (live r))" "distinct (live r)"
    using l(3) by (auto simp: table_ok_def distinct_map)
  have lt: "?i < ?n" using not_found_None [OF wf, of a] found by force
  then have "reg_count r \<noteq> 0" by auto
  then have c: "unat (reg_count r - 1) = ?n - 1" by (simp add: unat_minus_one)
  have ne: "live r \<noteq> []" using lt l(4) by auto
  have last: "last (live r) = reg_profiles r ! (?n - 1)"
    using ne l by (simp add: last_conv_nth live_def)
  have live': "live r' = drop_at ?i (live r)"
    using lt l ne by (simp add: r' live_def Let_def c drop_at_def last [unfolded live_def] butlast_conv_take
        take_update_swap min_def)
  have a: "dp_slave_addr (live r ! ?i) = a"
    using find_some(1) [of a "live r"] lt l(4) by (simp add: find_in_live)
  have il: "?i < length (live r)" using lt l(4) by simp
  note da = drop_at_set [OF d(2) il]
  have d': "distinct (map dp_slave_addr (live r'))"
    using da d(1) unfolding live' distinct_map by (auto intro: inj_on_subset)
  have "profile_map (live r') = (profile_map (live r))(dp_slave_addr (live r ! ?i) := None)"
    by (rule profile_map_remove [OF d(1) d' _ da(1) [folded live']]) (use il in simp)
  moreover have "table_ok (live r')" using l(3) d' da(1) unfolding live' by (auto simp: table_ok_def drop_at_def)
  ultimately show ?thesis using l(1,2) a c by (simp add: registry_wf_def r' Let_def)
qed

lemma registry_step:
  assumes "registry_wf r" "reg_initialised r" "registry_op x r w = (e, r', w')"
    and v: "dst_save (reg_storage r) (fst (next_table x r)) (snd (next_table x r)) w = (saves, w1)"
  shows "apply_profile_op x (profile_map (live r)) saves = (e, profile_map (live r')) \<and>
    w' = (if e \<in> {DEVICE_PROFILE_REGISTRY_OK, DEVICE_PROFILE_REGISTRY_ERR_PERSIST} then w1 else w) \<and>
    registry_wf r' \<and> reg_initialised r'"
proof -
  obtain e0 f where a: "apply_profile_op x (profile_map (live r)) saves = (e0, f)" by fastforce
  note eq = registry_op_eq [OF assms(1,2) a v]
  have e: "e0 = e" and r': "r' = (if e = DEVICE_PROFILE_REGISTRY_OK
      then r\<lparr>reg_profiles := fst (next_table x r), reg_count := snd (next_table x r)\<rparr> else r)"
    and w': "w' = (if e \<in> {DEVICE_PROFILE_REGISTRY_OK, DEVICE_PROFILE_REGISTRY_ERR_PERSIST} then w1 else w)"
    using eq unfolding assms(3) by (auto simp only: prod.case split: if_splits)
  have d: "distinct (map dp_slave_addr (live r))" using assms(1) by (simp add: registry_wf_def table_ok_def)
  have card: "card (dom (profile_map (live r))) = unat (reg_count r)"
    using card_profile_map [OF d] length_live [OF assms(1)] by simp
  show ?thesis
  proof (cases "e = DEVICE_PROFILE_REGISTRY_OK")
    case False
    then have "f = profile_map (live r)" using a e by (cases x) (auto split: if_splits)
    then show ?thesis unfolding w' using a e assms(1,2) r' False by auto
  next
    case True
    show ?thesis
    proof (cases x)
      case (Op_add p)
      then have "profile_valid p" "profile_map (live r) (dp_slave_addr p) \<noteq> None \<or> unat (reg_count r) < 8"
        "f = (profile_map (live r))(dp_slave_addr p \<mapsto> p)"
        using a e True card by (auto split: if_splits)
      then show ?thesis
        using add_table_ok [OF assms(1), of p r'] r' True Op_add a e assms(2) unfolding w' by auto
    next
      case (Op_remove b)
      then have "profile_map (live r) b \<noteq> None" "f = (profile_map (live r))(b := None)"
        using a e True by (auto split: if_splits)
      then show ?thesis
        using remove_table_ok [OF assms(1), of b r'] r' True Op_remove a e assms(2) unfolding w' by auto
    qed
  qed
qed

fun registry_run :: "profile_op list \<Rightarrow> 'w registry \<Rightarrow> 'w \<Rightarrow> device_profile_registry_err list \<times> 'w registry \<times> 'w" where
  "registry_run [] r w = ([], r, w)"
| "registry_run (x # xs) r w =
     (let (e, r, w) = registry_op x r w; (es, r, w) = registry_run xs r w in (e # es, r, w))"

text \<open>What the storage answers, and the state it is left in, each time the run reaches a change: the
  registry hands it the table after the change, in the storage state of that moment.\<close>

fun registry_saves :: "profile_op list \<Rightarrow> 'w registry \<Rightarrow> 'w \<Rightarrow> (bool \<times> 'w) list" where
  "registry_saves [] r w = []"
| "registry_saves (x # xs) r w =
     dst_save (reg_storage r) (fst (next_table x r)) (snd (next_table x r)) w #
     (case registry_op x r w of (e, r', w') \<Rightarrow> registry_saves xs r' w')"

text \<open>The abstract registry under those answers: the storage is only used by a change that the map
  accepts, and such a change is made exactly when the storage took the table.\<close>

fun profile_run :: "(profile_op \<times> bool \<times> 'w) list \<Rightarrow> (u8 \<rightharpoonup> device_profile) \<Rightarrow> 'w \<Rightarrow>
    device_profile_registry_err list \<times> (u8 \<rightharpoonup> device_profile) \<times> 'w" where
  "profile_run [] f w = ([], f, w)"
| "profile_run ((x, saves, w1) # xs) f w =
     (let (e, f) = apply_profile_op x f saves;
          (es, f, w) = profile_run xs f
            (if e \<in> {DEVICE_PROFILE_REGISTRY_OK, DEVICE_PROFILE_REGISTRY_ERR_PERSIST} then w1 else w)
      in (e # es, f, w))"

lemma lookup_eq:
  assumes "registry_wf r" "reg_initialised r"
  shows "provider_get_by_addr a (Some out) r =
    (case profile_map (live r) a of None \<Rightarrow> (DEVICE_PROFILE_REGISTRY_ERR_NOT_FOUND, Some out)
     | Some p \<Rightarrow> (DEVICE_PROFILE_REGISTRY_OK, Some p))"
proof -
  let ?i = "find_in (reg_profiles r) (reg_count r) a" and ?n = "unat (reg_count r)"
  have l: "length (live r) = ?n" by (rule length_live [OF assms(1)])
  have d: "distinct (map dp_slave_addr (live r))" using assms(1) by (simp add: registry_wf_def table_ok_def)
  note nf = not_found_None [OF assms(1), of a]
  show ?thesis
  proof (cases "?i < ?n")
    case True
    then have "dp_slave_addr (live r ! ?i) = a" using find_some(1) [of a "live r"] l by (simp add: find_in_live)
    moreover have "live r ! ?i \<in> set (live r)" using True l by simp
    ultimately have "profile_map (live r) a = Some (live r ! ?i)" using profile_map_iff [OF d] by blast
    moreover have "live r ! ?i = reg_profiles r ! ?i" using True by (simp add: live_def)
    ultimately show ?thesis using True assms(2) by (simp add: provider_get_by_addr_def)
  next
    case False
    with nf have "profile_map (live r) a = None" by force
    then show ?thesis using False assms(2) by (simp add: provider_get_by_addr_def)
  qed
qed

text \<open>C11: from any well-formed initialised table, a sequence of additions and removals behaves as on a
  finite map of at most eight valid profiles whose changes the storage may refuse: with the answers that
  the storage gives to the tables handed to it, every result code, the table left and the storage left
  are those of the map. A change the storage refuses answers the persistence error and changes nothing, a full
  table takes updates but no new address, an invalid profile or an unknown address never reaches the
  storage, and the lookup that the poller uses returns the map's entry.\<close>

theorem registry_refines_map:
  assumes "registry_wf r" "reg_initialised r" "registry_run xs r w = (es, r', w')"
  shows "profile_run (zip xs (registry_saves xs r w)) (profile_map (live r)) w = (es, profile_map (live r'), w') \<and>
    registry_wf r' \<and>
    (\<forall>a out. provider_get_by_addr a (Some out) r' =
       (case profile_map (live r') a of None \<Rightarrow> (DEVICE_PROFILE_REGISTRY_ERR_NOT_FOUND, Some out)
        | Some p \<Rightarrow> (DEVICE_PROFILE_REGISTRY_OK, Some p)))"
proof -
  have "profile_run (zip xs (registry_saves xs r w)) (profile_map (live r)) w = (es, profile_map (live r'), w') \<and>
    registry_wf r' \<and> reg_initialised r'"
    using assms
  proof (induction xs arbitrary: r w es)
    case Nil
    then show ?case by auto
  next
    case (Cons x xs)
    obtain e r1 w1 where 1: "registry_op x r w = (e, r1, w1)" by (metis surj_pair)
    obtain es' where 2: "registry_run xs r1 w1 = (es', r', w')" "es = e # es'"
      using Cons.prems(3) 1 by (auto split: prod.splits)
    obtain saves v where 3: "dst_save (reg_storage r) (fst (next_table x r)) (snd (next_table x r)) w = (saves, v)"
      by fastforce
    note step = registry_step [OF Cons.prems(1,2) 1 3]
    note rest = Cons.IH [of r1 w1 es'] step 2(1)
    show ?case using rest by (simp add: 1 3 2(2))
  qed
  then show ?thesis using lookup_eq by blast
qed

lemma length_takeWhile_all: "length (takeWhile P xs) = length xs \<longleftrightarrow> (\<forall>x \<in> set xs. P x)"
  by (induction xs) auto

lemma distinct_below: "distinct xs \<longleftrightarrow> (\<forall>i < length xs. \<forall>j < i. xs ! j \<noteq> xs ! i)"
proof
  assume "\<forall>i < length xs. \<forall>j < i. xs ! j \<noteq> xs ! i"
  then show "distinct xs" unfolding distinct_conv_nth by (metis nat_neq_iff)
qed (auto simp: distinct_conv_nth)

lemma loaded_ok_iff:
  assumes "n \<le> 8" "length loaded = 8"
  shows "loaded_ok loaded n \<longleftrightarrow> table_ok (take n loaded)"
proof -
  have idx: "find_in loaded (of_nat i) (dp_slave_addr (loaded ! i)) = i \<longleftrightarrow>
      (\<forall>j < i. dp_slave_addr (loaded ! j) \<noteq> dp_slave_addr (loaded ! i))" if "i < n" for i
  proof -
    have u: "unat (of_nat i :: u8) = i" using that assms(1) by (simp add: unsigned_of_nat take_bit_nat_eq_self)
    have "length (take i loaded) = i" using that assms by simp
    then show ?thesis
      using length_takeWhile_all [of "\<lambda>p. dp_slave_addr p \<noteq> dp_slave_addr (loaded ! i)" "take i loaded"]
      by (auto simp: find_in_def u all_set_conv_all_nth)
  qed
  have "loaded_ok loaded n \<longleftrightarrow> (\<forall>i < n. profile_valid (loaded ! i) \<and>
      (\<forall>j < i. dp_slave_addr (loaded ! j) \<noteq> dp_slave_addr (loaded ! i)))"
    using idx by (auto simp: loaded_ok_def list_all_iff)
  also have "\<dots> \<longleftrightarrow> (\<forall>i < n. profile_valid (loaded ! i)) \<and> distinct (map dp_slave_addr (take n loaded))"
  proof -
    have l: "length (map dp_slave_addr (take n loaded)) = n" using assms by simp
    have nth: "map dp_slave_addr (take n loaded) ! i = dp_slave_addr (loaded ! i)" if "i < n" for i
      using that assms by simp
    have "distinct (map dp_slave_addr (take n loaded)) \<longleftrightarrow>
        (\<forall>i < n. \<forall>j < i. dp_slave_addr (loaded ! j) \<noteq> dp_slave_addr (loaded ! i))"
      unfolding distinct_below l by (intro all_cong) (use nth in simp)
    then show ?thesis by blast
  qed
  also have "\<dots> \<longleftrightarrow> table_ok (take n loaded)"
  proof -
    have "(\<forall>p \<in> set (take n loaded). profile_valid p) \<longleftrightarrow> (\<forall>i < n. profile_valid (loaded ! i))"
      using assms by (simp add: all_set_conv_all_nth)
    then show ?thesis using assms by (simp add: table_ok_def)
  qed
  finally show ?thesis .
qed

lemma default_table_ok: "table_ok [default_profile]"
  by code_simp

text \<open>Whatever the storage holds, loading leaves a well-formed table: the stored profiles when all
  of them are valid and their addresses differ, else the default profile alone.\<close>

theorem load_gives_valid_table:
  assumes "reg_initialised r" "length (reg_profiles r) = 8"
    and "dst_load (reg_storage r) 8 w = ((rc, n, loaded), w')" "length loaded = 8"
    and "device_profile_registry_load r w = (e, r', w'')"
  shows "registry_wf r' \<and> e = DEVICE_PROFILE_REGISTRY_OK \<and>
    live r' = (if rc \<and> 0 < n \<and> n \<le> 8 \<and> table_ok (take (unat n) loaded) then take (unat n) loaded else [default_profile])"
proof (cases "rc \<and> 0 < n \<and> n \<le> 8 \<and> table_ok (take (unat n) loaded)")
  case True
  then have n: "unat n \<le> 8" by (simp add: word_le_nat_alt)
  then have "r' = r\<lparr>reg_profiles := take (unat n) loaded @ replicate (8 - unat n) zero_profile, reg_count := n\<rparr>"
    "e = DEVICE_PROFILE_REGISTRY_OK"
    using assms True by (auto simp: device_profile_registry_load_def DEVICE_PROFILE_MAX_def loaded_ok_iff Let_def)
  then show ?thesis using True n assms(4) by (simp add: registry_wf_def live_def)
next
  case False
  then have "\<not> (rc \<and> 0 < n \<and> unat n \<le> 8 \<and> loaded_ok loaded (unat n))"
    using loaded_ok_iff [OF _ assms(4), of "unat n"] by (auto simp: word_le_nat_alt)
  then have r': "r' = seed_default r" "e = DEVICE_PROFILE_REGISTRY_OK"
    using assms(1,3,5) by (auto simp: device_profile_registry_load_def DEVICE_PROFILE_MAX_def Let_def split: if_splits)
  obtain p ps where "reg_profiles r = p # ps" using assms(2) by (cases "reg_profiles r") auto
  then have "live r' = [default_profile]" by (simp add: r' live_def seed_default_def)
  then show ?thesis
    using False assms(2) default_table_ok r' by (auto simp: registry_wf_def seed_default_def)
qed

section \<open>A concrete storage\<close>

text \<open>A storage in RAM: the saved table, or nothing.\<close>

definition ram_profiles :: "(device_profile list \<times> u8) option device_profile_storage" where
  "ram_profiles = \<lparr>dst_load = \<lambda>n w. (case w of None \<Rightarrow> (False, 0, replicate 8 zero_profile) | Some (ps, c) \<Rightarrow> (True, c, ps), w),
     dst_save = \<lambda>ps c w. (True, Some (ps, c))\<rparr>"

definition demo_registry :: "(device_profile list \<times> u8) option registry" where
  "demo_registry = \<lparr>reg_profiles = default_profile # replicate 7 zero_profile, reg_count = 1,
     reg_storage = ram_profiles, reg_initialised = True\<rparr>"

lemma demo_registry_wf: "registry_wf demo_registry" "reg_initialised demo_registry" "live demo_registry = [default_profile]"
  using default_table_ok by (simp_all add: registry_wf_def live_def demo_registry_def)

text \<open>The same storage with a flash that takes two tables and then refuses.\<close>

definition worn_profiles :: "nat device_profile_storage" where
  "worn_profiles = \<lparr>dst_load = \<lambda>n w. ((False, 0, replicate 8 zero_profile), w),
     dst_save = \<lambda>ps c w. (0 < w, w - 1)\<rparr>"

definition worn_registry :: "nat registry" where
  "worn_registry = \<lparr>reg_profiles = default_profile # replicate 7 zero_profile, reg_count = 1,
     reg_storage = worn_profiles, reg_initialised = True\<rparr>"

lemma worn_registry_wf: "registry_wf worn_registry" "reg_initialised worn_registry" "live worn_registry = [default_profile]"
  using default_table_ok by (simp_all add: registry_wf_def live_def worn_registry_def)

lemma worn_run:
  "fst (registry_run [Op_add (default_profile\<lparr>dp_slave_addr := 2\<rparr>), Op_remove 7, Op_remove 1, Op_remove 2] worn_registry 2) =
    [DEVICE_PROFILE_REGISTRY_OK, DEVICE_PROFILE_REGISTRY_ERR_NOT_FOUND, DEVICE_PROFILE_REGISTRY_OK,
     DEVICE_PROFILE_REGISTRY_ERR_PERSIST]"
  by code_simp

theorem registry_refines_map_witness:
  "fst (profile_run (zip [Op_add (default_profile\<lparr>dp_slave_addr := 2\<rparr>), Op_remove 7, Op_remove 1, Op_remove 2]
      (registry_saves [Op_add (default_profile\<lparr>dp_slave_addr := 2\<rparr>), Op_remove 7, Op_remove 1, Op_remove 2] worn_registry 2))
      (profile_map [default_profile]) 2) =
    [DEVICE_PROFILE_REGISTRY_OK, DEVICE_PROFILE_REGISTRY_ERR_NOT_FOUND, DEVICE_PROFILE_REGISTRY_OK,
     DEVICE_PROFILE_REGISTRY_ERR_PERSIST]"
proof -
  obtain es r' w' where r: "registry_run [Op_add (default_profile\<lparr>dp_slave_addr := 2\<rparr>), Op_remove 7, Op_remove 1, Op_remove 2] worn_registry 2 = (es, r', w')"
    by (metis surj_pair)
  from registry_refines_map [OF worn_registry_wf(1,2) r] worn_run [unfolded r] show ?thesis by (simp add: worn_registry_wf(3))
qed

theorem load_gives_valid_table_witness:
  "registry_wf (fst (snd (device_profile_registry_load demo_registry (Some (replicate 8 default_profile, 2)))))"
proof -
  obtain e r' w'' where l: "device_profile_registry_load demo_registry (Some (replicate 8 default_profile, 2)) = (e, r', w'')"
    by (metis surj_pair)
  have "dst_load (reg_storage demo_registry) 8 (Some (replicate 8 default_profile, 2)) =
      ((True, 2, replicate 8 default_profile), Some (replicate 8 default_profile, 2))"
    by (simp add: demo_registry_def ram_profiles_def)
  moreover have "length (reg_profiles demo_registry) = 8" "length (replicate 8 default_profile) = 8"
    by (simp_all add: demo_registry_def)
  ultimately show ?thesis
    using load_gives_valid_table [OF demo_registry_wf(2) _ _ _ l] by (simp only: l fst_conv snd_conv)
qed

end
