(* ===== verification/Modbus_Poller.thy ===== *)
theory Modbus_Poller
  imports Modbus_Master Device_Profiles
begin

text \<open>
  ModbusPoller of the gateway (\<^verbatim>\<open>application/modbus_poller/modbus_poller.c\<close>): one cycle runs the
  queued commands, checks the identity of every provisioned slave, polls the verified ones and
  reports the counters.

  The bus is reached through \<open>imaster\<close>, the two operations of ModbusMaster the poller calls, over a
  state \<open>'m\<close>, with the kernel's tick count.  A transaction need not return, so everything that makes
  one is in the option monad.  The slave pointers of the code are indices into the table of four
  slots.  What leaves the poller (HealthMonitor events and counters, the two callbacks, answers on the
  queues of the callers) is appended to \<open>pl_out\<close>.  The registry is read through its free function; a
  change made by another task falls between two cycles here.
\<close>

section \<open>Types and state\<close>

definition MODBUS_MAX_SLAVES :: nat where "MODBUS_MAX_SLAVES = 4"
definition MODBUS_CMD_QUEUE_DEPTH :: nat where "MODBUS_CMD_QUEUE_DEPTH = 4"
definition FC_READ_INPUT_REGS :: u8 where "FC_READ_INPUT_REGS = 0x04"
definition HYSTERESIS_THRESHOLD :: u8 where "HYSTERESIS_THRESHOLD = 3"
definition FC06_DATA_BYTES :: u16 where "FC06_DATA_BYTES = 4"
definition FC16_HEADER_BYTES :: u16 where "FC16_HEADER_BYTES = 5"
definition POLL_REQUEST_DATA_BYTES :: u16 where "POLL_REQUEST_DATA_BYTES = 4"
definition IDENTITY_REG_START :: u16 where "IDENTITY_REG_START = 0x0000"
definition IDENTITY_REG_COUNT :: u16 where "IDENTITY_REG_COUNT = 8"
definition IDENTITY_MAP_VERSION_REG :: nat where "IDENTITY_MAP_VERSION_REG = 0"
definition IDENTITY_VENDOR_CODE_REG :: nat where "IDENTITY_VENDOR_CODE_REG = 7"
definition REJECTED_RECHECK_CYCLES :: u8 where "REJECTED_RECHECK_CYCLES = 10"
definition FD_REG_TEMPERATURE :: u16 where "FD_REG_TEMPERATURE = 0x0010"
definition FD_REG_HUMIDITY :: u16 where "FD_REG_HUMIDITY = 0x0011"
definition FD_REG_PRESSURE :: u16 where "FD_REG_PRESSURE = 0x0012"
definition FD_SENTINEL_INT16 :: u16 where "FD_SENTINEL_INT16 = 0x8000"
definition FD_SENTINEL_UINT16 :: u16 where "FD_SENTINEL_UINT16 = 0xFFFF"
definition FD_REG_ALARM_FLAGS :: u16 where "FD_REG_ALARM_FLAGS = 0x0031"

definition MODBUS_POLLER_FC_WRITE_SINGLE :: u8 where "MODBUS_POLLER_FC_WRITE_SINGLE = 0x06"
definition MODBUS_POLLER_FC_WRITE_MULTIPLE :: u8 where "MODBUS_POLLER_FC_WRITE_MULTIPLE = 0x10"
definition MODBUS_POLLER_CMD_MAX_REGS :: nat where "MODBUS_POLLER_CMD_MAX_REGS = 125"
definition MODBUS_POLLER_FC16_MAX_COUNT :: u16 where "MODBUS_POLLER_FC16_MAX_COUNT = 123"

datatype modbus_poller_err =
    MODBUS_POLLER_ERR_OK | MODBUS_POLLER_ERR_NOT_INIT | MODBUS_POLLER_ERR_NULL_ARG
  | MODBUS_POLLER_ERR_QUEUE_FULL | MODBUS_POLLER_ERR_REJECTED | MODBUS_POLLER_ERR_INVALID_ARG

datatype modbus_slave_identity = MODBUS_SLAVE_UNVERIFIED | MODBUS_SLAVE_VERIFIED | MODBUS_SLAVE_REJECTED

record modbus_slave_state =
  sl_addr :: u8
  sl_successes :: u8
  sl_failures :: u8
  sl_online :: bool
  sl_identity :: modbus_slave_identity
  sl_recheck :: u8

record modbus_command =
  cmd_response_queue :: "nat option"
  cmd_slave_addr :: u8
  cmd_function_code :: u8
  cmd_start_reg :: u16
  cmd_reg_count :: u16
  cmd_data :: "u16 list"

record modbus_command_response =
  cr_status :: modbus_master_err
  cr_data :: "u16 list"
  cr_data_len :: u16

record fd_cache =
  ch_temperature_centi_c :: u16
  ch_humidity_centi_pct :: u16
  ch_pressure_deci_hpa :: u16
  ch_temperature_valid :: bool
  ch_humidity_valid :: bool
  ch_pressure_valid :: bool
  ch_has_data :: bool
  ch_updated_tick :: u32

record modbus_fd_reading = fd_cache +
  rd_link_online :: bool

datatype poller_out =
    Health_link_up u8 | Health_link_down u8 | Health_stats modbus_master_stats
  | Call_link_up u8 | Call_alarm u8 u16 u16 | Answer nat modbus_command_response

record poller =
  pl_poll_period_ms :: u32
  pl_initialised :: bool
  pl_slaves :: "modbus_slave_state list"
  pl_alarm_flags :: "u16 list"
  pl_cache :: "fd_cache list"
  pl_queue :: "modbus_command list"
  pl_alarm_cb :: bool
  pl_link_up_cb :: bool
  pl_out :: "poller_out list"

record 'm imaster =
  im_transact :: "modbus_frame \<Rightarrow> modbus_frame \<Rightarrow> 'm \<Rightarrow> (modbus_master_err \<times> modbus_frame \<times> 'm) option"
  im_get_stats :: "'m \<Rightarrow> modbus_master_err \<times> modbus_master_stats"
  im_tick :: "'m \<Rightarrow> u32"

definition zero_slave :: modbus_slave_state where
  "zero_slave = \<lparr>sl_addr = 0, sl_successes = 0, sl_failures = 0, sl_online = False,
     sl_identity = MODBUS_SLAVE_UNVERIFIED, sl_recheck = 0\<rparr>"

definition zero_cache :: fd_cache where
  "zero_cache = \<lparr>ch_temperature_centi_c = 0, ch_humidity_centi_pct = 0, ch_pressure_deci_hpa = 0,
     ch_temperature_valid = False, ch_humidity_valid = False, ch_pressure_valid = False,
     ch_has_data = False, ch_updated_tick = 0\<rparr>"

definition upd_slave :: "nat \<Rightarrow> (modbus_slave_state \<Rightarrow> modbus_slave_state) \<Rightarrow> poller \<Rightarrow> poller" where
  "upd_slave i f s = s\<lparr>pl_slaves := (pl_slaves s)[i := f (pl_slaves s ! i)]\<rparr>"

definition emit :: "poller_out list \<Rightarrow> poller \<Rightarrow> poller" where
  "emit os s = s\<lparr>pl_out := pl_out s @ os\<rparr>"

section \<open>Slots and link state\<close>

text \<open>The scan for a slave's slot: its own, else the first free one seen.\<close>

fun scan_slots :: "u8 \<Rightarrow> nat \<Rightarrow> nat option \<Rightarrow> modbus_slave_state list \<Rightarrow> nat option \<times> bool" where
  "scan_slots a i free [] = (free, True)"
| "scan_slots a i free (x # xs) =
     (if sl_addr x = a then (Some i, False)
      else scan_slots a (i + 1) (if free = None \<and> sl_addr x = 0 then Some i else free) xs)"

definition find_or_claim_slot :: "u8 \<Rightarrow> poller \<Rightarrow> nat option \<times> poller" where
  "find_or_claim_slot a s =
     (case scan_slots a 0 None (pl_slaves s) of
        (Some i, True) \<Rightarrow> (Some i, upd_slave i (\<lambda>x. x\<lparr>sl_addr := a\<rparr>) s)
      | (r, _) \<Rightarrow> (r, s))"

definition emit_link_up :: "u8 \<Rightarrow> poller \<Rightarrow> poller" where
  "emit_link_up a s =
     (let s = emit [Health_link_up a] s in if pl_link_up_cb s then emit [Call_link_up a] s else s)"

definition emit_node_offline :: "u8 \<Rightarrow> poller \<Rightarrow> poller" where
  "emit_node_offline a s = emit [Health_link_down a] s"

definition record_poll_outcome :: "nat \<Rightarrow> modbus_master_err \<Rightarrow> poller \<Rightarrow> poller" where
  "record_poll_outcome i result s =
     (if result = MODBUS_MASTER_ERR_OK then
        let s = upd_slave i (\<lambda>x. x\<lparr>sl_failures := 0,
                  sl_successes := (if sl_successes x < HYSTERESIS_THRESHOLD then sl_successes x + 1 else sl_successes x)\<rparr>) s;
            x = pl_slaves s ! i
        in if sl_successes x = HYSTERESIS_THRESHOLD \<and> \<not> sl_online x
           then emit_link_up (sl_addr x) (upd_slave i (\<lambda>x. x\<lparr>sl_online := True\<rparr>) s) else s
      else
        let s = upd_slave i (\<lambda>x. x\<lparr>sl_successes := 0,
                  sl_failures := (if sl_failures x < HYSTERESIS_THRESHOLD then sl_failures x + 1 else sl_failures x)\<rparr>) s;
            x = pl_slaves s ! i
        in if sl_failures x = HYSTERESIS_THRESHOLD \<and> sl_online x
           then emit_node_offline (sl_addr x)
                  (upd_slave i (\<lambda>x. x\<lparr>sl_online := False, sl_identity := MODBUS_SLAVE_UNVERIFIED\<rparr>) s) else s)"

record map_entry =
  me_map_version :: u16
  me_input_reg_start :: u16
  me_input_reg_count :: u16

definition k_map_table :: "map_entry list" where
  "k_map_table = [\<lparr>me_map_version = 1, me_input_reg_start = 0x0010, me_input_reg_count = 3\<rparr>]"

definition map_for :: "device_profile \<Rightarrow> map_entry option" where
  "map_for profile = find (\<lambda>e. me_map_version e = dp_map_version profile) k_map_table"

definition reject_slave :: "nat \<Rightarrow> poller \<Rightarrow> poller" where
  "reject_slave i s =
     (let s = (if sl_identity (pl_slaves s ! i) \<noteq> MODBUS_SLAVE_REJECTED then
                 let x = pl_slaves s ! i;
                     s = (if sl_online x
                          then emit_node_offline (sl_addr x) (upd_slave i (\<lambda>x. x\<lparr>sl_online := False\<rparr>) s) else s)
                 in upd_slave i (\<lambda>x. x\<lparr>sl_successes := 0\<rparr>) s
               else s)
      in upd_slave i (\<lambda>x. x\<lparr>sl_identity := MODBUS_SLAVE_REJECTED, sl_recheck := REJECTED_RECHECK_CYCLES\<rparr>) s)"

section \<open>Requests and responses\<close>

definition frame_word :: "modbus_frame \<Rightarrow> nat \<Rightarrow> u16" where
  "frame_word response at = push_bit 8 (ucast (mf_data response ! at)) OR ucast (mf_data response ! (at + 1))"

definition response_word :: "modbus_frame \<Rightarrow> nat \<Rightarrow> u16" where
  "response_word response index = frame_word response (1 + index * 2)"

text \<open>An FC04 request on a zeroed frame.\<close>

definition fc04_request :: "u8 \<Rightarrow> u16 \<Rightarrow> u16 \<Rightarrow> modbus_frame \<Rightarrow> modbus_frame" where
  "fc04_request a start cnt out =
     out\<lparr>mf_slave_addr := a, mf_function_code := FC_READ_INPUT_REGS,
         mf_data := (mf_data out)[0 := ucast (drop_bit 8 start), 1 := ucast (start AND 0xFF),
                                  2 := ucast (drop_bit 8 cnt), 3 := ucast (cnt AND 0xFF)],
         mf_data_len := POLL_REQUEST_DATA_BYTES\<rparr>"

definition build_poll_request :: "device_profile \<Rightarrow> map_entry \<Rightarrow> modbus_frame \<Rightarrow> modbus_frame" where
  "build_poll_request profile entry out =
     fc04_request (dp_slave_addr profile) (me_input_reg_start entry) (me_input_reg_count entry) out"

definition ensure_identity ::
  "'m imaster \<Rightarrow> nat \<Rightarrow> device_profile \<Rightarrow> poller \<Rightarrow> 'm \<Rightarrow> (bool \<times> poller \<times> 'm) option" where
  "ensure_identity M i profile s m =
     (let x = pl_slaves s ! i
      in if sl_identity x = MODBUS_SLAVE_VERIFIED then Some (True, s, m)
         else if sl_identity x = MODBUS_SLAVE_REJECTED \<and> sl_recheck x > 1
         then Some (False, upd_slave i (\<lambda>x. x\<lparr>sl_recheck := sl_recheck x - 1\<rparr>) s, m)
         else do {
           (result, response, m) \<leftarrow>
             im_transact M (fc04_request (dp_slave_addr profile) IDENTITY_REG_START IDENTITY_REG_COUNT zero_frame) zero_frame m;
           Some (
             if result \<noteq> MODBUS_MASTER_ERR_OK then
               let s = record_poll_outcome i result s;
                   s = (if sl_identity (pl_slaves s ! i) = MODBUS_SLAVE_REJECTED
                        then upd_slave i (\<lambda>x. x\<lparr>sl_recheck := REJECTED_RECHECK_CYCLES\<rparr>) s else s)
               in (False, s, m)
             else if mf_data_len response \<noteq> 1 + IDENTITY_REG_COUNT * 2 then (False, reject_slave i s, m)
             else if response_word response IDENTITY_MAP_VERSION_REG \<noteq> dp_map_version profile
             then (False, reject_slave i s, m)
             else if response_word response IDENTITY_VENDOR_CODE_REG \<noteq> dp_vendor_code profile
             then (False, reject_slave i s, m)
             else (True, upd_slave i (\<lambda>x. x\<lparr>sl_identity := MODBUS_SLAVE_VERIFIED\<rparr>) s, m))
         })"

text \<open>The index of a slave's slot, or four.\<close>

definition find_slot_index :: "u8 \<Rightarrow> poller \<Rightarrow> nat" where
  "find_slot_index a s = length (takeWhile (\<lambda>x. sl_addr x \<noteq> a) (pl_slaves s))"

definition read_register_word :: "map_entry \<Rightarrow> modbus_frame \<Rightarrow> u16 \<Rightarrow> u16 option" where
  "read_register_word entry response reg =
     (if reg < me_input_reg_start entry \<or> reg \<ge> me_input_reg_start entry + me_input_reg_count entry then None
      else Some (frame_word response (1 + unat (reg - me_input_reg_start entry) * 2)))"

definition decode_reading :: "map_entry \<Rightarrow> modbus_frame \<Rightarrow> u32 \<Rightarrow> fd_cache" where
  "decode_reading entry response tick =
     (let c = zero_cache;
          c = (case read_register_word entry response FD_REG_TEMPERATURE of None \<Rightarrow> c
               | Some w \<Rightarrow> c\<lparr>ch_temperature_valid := (w \<noteq> FD_SENTINEL_INT16), ch_temperature_centi_c := w\<rparr>);
          c = (case read_register_word entry response FD_REG_HUMIDITY of None \<Rightarrow> c
               | Some w \<Rightarrow> c\<lparr>ch_humidity_valid := (w \<noteq> FD_SENTINEL_UINT16), ch_humidity_centi_pct := w\<rparr>);
          c = (case read_register_word entry response FD_REG_PRESSURE of None \<Rightarrow> c
               | Some w \<Rightarrow> c\<lparr>ch_pressure_valid := (w \<noteq> FD_SENTINEL_UINT16), ch_pressure_deci_hpa := w\<rparr>)
      in c\<lparr>ch_has_data := True, ch_updated_tick := tick\<rparr>)"

definition forward_response_to_consumers ::
  "device_profile \<Rightarrow> map_entry \<Rightarrow> modbus_frame \<Rightarrow> u32 \<Rightarrow> poller \<Rightarrow> poller" where
  "forward_response_to_consumers profile entry response tick s =
     (let slot = find_slot_index (dp_slave_addr profile) s
      in if slot \<ge> MODBUS_MAX_SLAVES then s
         else if mf_data_len response \<noteq> 1 + me_input_reg_count entry * 2 then s
         else s\<lparr>pl_cache := (pl_cache s)[slot := decode_reading entry response tick]\<rparr>)"

definition poll_alarm_flags :: "'m imaster \<Rightarrow> device_profile \<Rightarrow> poller \<Rightarrow> 'm \<Rightarrow> (poller \<times> 'm) option" where
  "poll_alarm_flags M profile s m =
     (let slot = find_slot_index (dp_slave_addr profile) s
      in if slot \<ge> MODBUS_MAX_SLAVES then Some (s, m)
         else do {
           (result, response, m) \<leftarrow>
             im_transact M (fc04_request (dp_slave_addr profile) FD_REG_ALARM_FLAGS 1 zero_frame) zero_frame m;
           Some (
             if result \<noteq> MODBUS_MASTER_ERR_OK \<or> mf_data_len response \<noteq> 3 then (s, m)
             else
               let flags = frame_word response 1;
                   before = pl_alarm_flags s ! slot;
                   s = s\<lparr>pl_alarm_flags := (pl_alarm_flags s)[slot := flags]\<rparr>
               in (if flags \<noteq> before \<and> pl_alarm_cb s
                   then emit [Call_alarm (dp_slave_addr profile) before flags] s else s, m))
         })"

section \<open>Commands\<close>

definition build_command_request :: "modbus_command \<Rightarrow> modbus_frame \<Rightarrow> modbus_frame" where
  "build_command_request cmd request =
     (let hi = (\<lambda>v. ucast (drop_bit 8 (v :: u16)) :: u8); lo = (\<lambda>v. ucast (v AND 0xFF) :: u8);
          request = request\<lparr>mf_slave_addr := cmd_slave_addr cmd, mf_function_code := cmd_function_code cmd,
            mf_data := (mf_data request)[0 := hi (cmd_start_reg cmd), 1 := lo (cmd_start_reg cmd)]\<rparr>
      in if cmd_function_code cmd = MODBUS_POLLER_FC_WRITE_SINGLE then
           request\<lparr>mf_data := (mf_data request)[2 := hi (cmd_data cmd ! 0), 3 := lo (cmd_data cmd ! 0)],
                   mf_data_len := FC06_DATA_BYTES\<rparr>
         else
           let n = cmd_reg_count cmd;
               data = (mf_data request)[2 := hi n, 3 := lo n, 4 := ucast (n * 2)];
               data = fold (\<lambda>i d. d[5 + i * 2 := hi (cmd_data cmd ! i), 5 + i * 2 + 1 := lo (cmd_data cmd ! i)])
                        [0..<unat n] data
           in request\<lparr>mf_data := data, mf_data_len := FC16_HEADER_BYTES + n * 2\<rparr>)"

definition command_is_encodable :: "modbus_command \<Rightarrow> bool" where
  "command_is_encodable cmd \<longleftrightarrow>
     (if cmd_function_code cmd = MODBUS_POLLER_FC_WRITE_SINGLE then True
      else cmd_function_code cmd = MODBUS_POLLER_FC_WRITE_MULTIPLE \<and> cmd_reg_count cmd \<noteq> 0 \<and>
           cmd_reg_count cmd \<le> MODBUS_POLLER_FC16_MAX_COUNT)"

definition transact_command ::
  "'m imaster \<Rightarrow> modbus_command \<Rightarrow> modbus_frame \<Rightarrow> 'm \<Rightarrow> (modbus_master_err \<times> modbus_frame \<times> 'm) option" where
  "transact_command M cmd response m =
     (if \<not> command_is_encodable cmd then Some (MODBUS_MASTER_ERR_INVALID_ARG, response, m)
      else im_transact M (build_command_request cmd zero_frame) response m)"

definition post_command_result :: "modbus_command \<Rightarrow> modbus_master_err \<Rightarrow> modbus_frame \<Rightarrow> poller \<Rightarrow> poller" where
  "post_command_result cmd status response s =
     (let result = \<lparr>cr_status = status, cr_data = replicate MODBUS_POLLER_CMD_MAX_REGS 0, cr_data_len = 0\<rparr>;
          result =
            (if status = MODBUS_MASTER_ERR_OK then
               let words = min (unat (mf_data_len response) div 2) MODBUS_POLLER_CMD_MAX_REGS
               in result\<lparr>cr_data := map (\<lambda>i. frame_word response (i * 2)) [0..<words] @ drop words (cr_data result),
                         cr_data_len := of_nat words\<rparr>
             else result)
      in case cmd_response_queue cmd of None \<Rightarrow> s | Some q \<Rightarrow> emit [Answer q result] s)"

definition execute_command :: "'m imaster \<Rightarrow> modbus_command \<Rightarrow> poller \<Rightarrow> 'm \<Rightarrow> (poller \<times> 'm) option" where
  "execute_command M cmd s m = do {
     (status, response, m) \<leftarrow> transact_command M cmd zero_frame m;
     Some (post_command_result cmd status response s, m)
   }"

text \<open>No command is added while the queue is drained: senders run in other tasks, between two cycles.\<close>

fun drain_list :: "'m imaster \<Rightarrow> modbus_command list \<Rightarrow> poller \<Rightarrow> 'm \<Rightarrow> (poller \<times> 'm) option" where
  "drain_list M [] s m = Some (s, m)"
| "drain_list M (cmd # cmds) s m = do {
     (s, m) \<leftarrow> execute_command M cmd (s\<lparr>pl_queue := cmds\<rparr>) m;
     drain_list M cmds s m
   }"

definition drain_commands :: "'m imaster \<Rightarrow> poller \<Rightarrow> 'm \<Rightarrow> (poller \<times> 'm) option" where
  "drain_commands M s m = drain_list M (pl_queue s) s m"

section \<open>The cycle\<close>

definition poll_slave :: "'m imaster \<Rightarrow> device_profile \<Rightarrow> poller \<Rightarrow> 'm \<Rightarrow> (poller \<times> 'm) option" where
  "poll_slave M profile s m =
     (case find_or_claim_slot (dp_slave_addr profile) s of
        (None, s) \<Rightarrow> Some (s, m)
      | (Some i, s) \<Rightarrow>
          (case map_for profile of
             None \<Rightarrow> Some (reject_slave i s, m)
           | Some entry \<Rightarrow> do {
               (verified, s, m) \<leftarrow> ensure_identity M i profile s m;
               if \<not> verified then Some (s, m)
               else do {
                 (result, response, m) \<leftarrow> im_transact M (build_poll_request profile entry zero_frame) zero_frame m;
                 let s = record_poll_outcome i result s;
                 if result = MODBUS_MASTER_ERR_OK
                 then poll_alarm_flags M profile (forward_response_to_consumers profile entry response (im_tick M m) s) m
                 else Some (s, m)
               }
             }))"

lemma get_next_advances:
  assumes "provider_get_next out index R = (True, p, n)"
  shows "\<exists>i. index = Some i \<and> n = Some (i + 1) \<and> i < reg_count R \<and> p = Some (reg_profiles R ! unat i)"
  using assms by (auto simp: provider_get_next_def split: option.splits if_splits)

lemma index_measure:
  assumes "i < (c :: u8)"
  shows "unat c - unat (i + 1) < unat c - unat i"
proof -
  have "unat i < unat c" using assms by (simp add: word_less_nat_alt)
  moreover have "unat (i + 1) = unat i + 1"
    using calculation unat_u8_less [of c] by (simp add: unat_word_ariths del: unat_u8_less)
  ultimately show ?thesis by simp
qed

lemma get_next_measure:
  assumes "(True, p, Some n) = provider_get_next out (Some index) R"
  shows "unat (reg_count R) - unat n < unat (reg_count R) - unat index"
  using get_next_advances [OF assms [symmetric]] index_measure [of index "reg_count R"] by auto

function poll_from :: "'m imaster \<Rightarrow> 'w registry \<Rightarrow> u8 \<Rightarrow> poller \<Rightarrow> 'm \<Rightarrow> (poller \<times> 'm) option" where
  "poll_from M R index s m =
     (case provider_get_next (Some zero_profile) (Some index) R of
        (True, Some profile, Some next) \<Rightarrow> do { (s, m) \<leftarrow> poll_slave M profile s m; poll_from M R next s m }
      | _ \<Rightarrow> Some (s, m))"
  by pat_completeness auto

termination
  by (relation "measure (\<lambda>(M, R, index, s, m). unat (reg_count R) - unat index)")
     (auto intro: get_next_measure)

definition poll_slaves :: "'m imaster \<Rightarrow> 'w registry \<Rightarrow> poller \<Rightarrow> 'm \<Rightarrow> (poller \<times> 'm) option" where
  "poll_slaves M R s m = poll_from M R 0 s m"

definition report_health_metrics :: "'m imaster \<Rightarrow> poller \<Rightarrow> 'm \<Rightarrow> poller" where
  "report_health_metrics M s m =
     (case im_get_stats M m of (rc, c) \<Rightarrow> if rc = MODBUS_MASTER_ERR_OK then emit [Health_stats c] s else s)"

definition poll_cycle :: "'m imaster \<Rightarrow> 'w registry \<Rightarrow> poller \<Rightarrow> 'm \<Rightarrow> (poller \<times> 'm) option" where
  "poll_cycle M R s m = do {
     (s, m) \<leftarrow> drain_commands M s m;
     (s, m) \<leftarrow> poll_slaves M R s m;
     Some (report_health_metrics M s m, m)
   }"

section \<open>Public operations\<close>

text \<open>The health handle is present or not; the queue is created from static storage.\<close>

definition modbus_poller_init :: "u32 \<Rightarrow> bool \<Rightarrow> poller \<Rightarrow> modbus_poller_err \<times> poller" where
  "modbus_poller_init poll_period_ms health s =
     (if \<not> health then (MODBUS_POLLER_ERR_NULL_ARG, s)
      else if poll_period_ms = 0 then (MODBUS_POLLER_ERR_INVALID_ARG, s)
      else (MODBUS_POLLER_ERR_OK,
        s\<lparr>pl_queue := [], pl_slaves := replicate MODBUS_MAX_SLAVES zero_slave,
          pl_alarm_flags := replicate MODBUS_MAX_SLAVES 0, pl_cache := replicate MODBUS_MAX_SLAVES zero_cache,
          pl_poll_period_ms := poll_period_ms, pl_initialised := True\<rparr>))"

definition modbus_poller_is_ready :: "poller \<Rightarrow> bool" where
  "modbus_poller_is_ready s = pl_initialised s"

definition modbus_poller_set_poll_period :: "u32 \<Rightarrow> poller \<Rightarrow> modbus_poller_err \<times> poller" where
  "modbus_poller_set_poll_period poll_period_ms s =
     (if \<not> pl_initialised s then (MODBUS_POLLER_ERR_NOT_INIT, s)
      else if poll_period_ms = 0 then (MODBUS_POLLER_ERR_INVALID_ARG, s)
      else (MODBUS_POLLER_ERR_OK, s\<lparr>pl_poll_period_ms := poll_period_ms\<rparr>))"

definition modbus_poller_set_alarm_callback :: "bool \<Rightarrow> poller \<Rightarrow> poller" where
  "modbus_poller_set_alarm_callback callback s = s\<lparr>pl_alarm_cb := callback\<rparr>"

definition modbus_poller_set_link_up_callback :: "bool \<Rightarrow> poller \<Rightarrow> poller" where
  "modbus_poller_set_link_up_callback callback s = s\<lparr>pl_link_up_cb := callback\<rparr>"

definition modbus_poller_get_fd_reading ::
  "'w registry \<Rightarrow> u8 \<Rightarrow> modbus_fd_reading option \<Rightarrow> poller \<Rightarrow> modbus_poller_err \<times> modbus_fd_reading option" where
  "modbus_poller_get_fd_reading R a out s =
     (if \<not> pl_initialised s then (MODBUS_POLLER_ERR_NOT_INIT, out)
      else case out of None \<Rightarrow> (MODBUS_POLLER_ERR_NULL_ARG, out)
      | Some _ \<Rightarrow>
          if \<not> provider_is_registered a R then (MODBUS_POLLER_ERR_REJECTED, out)
          else
            let slot = find_slot_index a s;
                reading = fd_cache.extend zero_cache \<lparr>rd_link_online = False\<rparr>;
                reading = (if slot < MODBUS_MAX_SLAVES
                           then fd_cache.extend (pl_cache s ! slot) \<lparr>rd_link_online = sl_online (pl_slaves s ! slot)\<rparr>
                           else reading)
            in (MODBUS_POLLER_ERR_OK, Some reading))"

definition modbus_poller_send_command ::
  "'w registry \<Rightarrow> modbus_command option \<Rightarrow> poller \<Rightarrow> modbus_poller_err \<times> poller" where
  "modbus_poller_send_command R cmd s =
     (if \<not> pl_initialised s then (MODBUS_POLLER_ERR_NOT_INIT, s)
      else case cmd of None \<Rightarrow> (MODBUS_POLLER_ERR_NULL_ARG, s)
      | Some c \<Rightarrow>
          let single = (cmd_function_code c = MODBUS_POLLER_FC_WRITE_SINGLE);
              multiple = (cmd_function_code c = MODBUS_POLLER_FC_WRITE_MULTIPLE)
          in if \<not> single \<and> \<not> multiple then (MODBUS_POLLER_ERR_INVALID_ARG, s)
             else if multiple \<and> (cmd_reg_count c = 0 \<or> cmd_reg_count c > MODBUS_POLLER_FC16_MAX_COUNT)
             then (MODBUS_POLLER_ERR_INVALID_ARG, s)
             else if \<not> provider_is_registered (cmd_slave_addr c) R then (MODBUS_POLLER_ERR_REJECTED, s)
             else if length (pl_queue s) \<ge> MODBUS_CMD_QUEUE_DEPTH then (MODBUS_POLLER_ERR_QUEUE_FULL, s)
             else (MODBUS_POLLER_ERR_OK, s\<lparr>pl_queue := pl_queue s @ [c]\<rparr>))"

definition modbus_poller_reprobe :: "'w registry \<Rightarrow> u8 \<Rightarrow> poller \<Rightarrow> modbus_poller_err \<times> poller" where
  "modbus_poller_reprobe R a s =
     (if \<not> pl_initialised s then (MODBUS_POLLER_ERR_NOT_INIT, s)
      else if \<not> provider_is_registered a R then (MODBUS_POLLER_ERR_REJECTED, s)
      else
        let slot = find_slot_index a s
        in (MODBUS_POLLER_ERR_OK,
            if slot < MODBUS_MAX_SLAVES
            then upd_slave slot (\<lambda>x. x\<lparr>sl_recheck := 0, sl_identity := MODBUS_SLAVE_UNVERIFIED\<rparr>) s else s))"

end
