(* ===== verification/Poller_Life.thy ===== *)
theory Poller_Life
  imports Poller_Links
begin

text \<open>
  The life of ModbusPoller: its states are those reached by initialisation, cycles, commands,
  reprobes and changes of the registry and of the bus, in any order.  In every one of them the link
  events of a slave alternate, and a slot once claimed keeps its address.
\<close>

section \<open>A pass over the registry\<close>

text \<open>The iteration over the provider visits the live profiles in table order.\<close>

fun poll_list :: "'m imaster \<Rightarrow> device_profile list \<Rightarrow> poller \<Rightarrow> 'm \<Rightarrow> (poller \<times> 'm) option" where
  "poll_list M [] s m = Some (s, m)"
| "poll_list M (p # ps) s m = do { (s, m) \<leftarrow> poll_slave M p s m; poll_list M ps s m }"

lemma poll_from_eq:
  assumes "length (reg_profiles R) = 8" "unat (reg_count R) \<le> 8" "reg_initialised R"
  shows "poll_from M R i s m = poll_list M (drop (unat i) (live R)) s m"
proof (induction "unat (reg_count R) - unat i" arbitrary: i s m rule: less_induct)
  case less
  have len: "length (live R) = unat (reg_count R)" using assms(1,2) by (simp add: live_def)
  show ?case
  proof (cases "i < reg_count R")
    case True
    then have lt: "unat i < unat (reg_count R)" by (simp add: word_less_nat_alt)
    have nxt: "unat (i + 1) = unat i + 1"
      using lt unat_u8_less [of "reg_count R"] by (simp add: unat_word_ariths del: unat_u8_less)
    have "provider_get_next (Some zero_profile) (Some i) R = (True, Some (live R ! unat i), Some (i + 1))"
      using True lt assms(3) by (simp add: provider_get_next_def live_def)
    moreover have "drop (unat i) (live R) = live R ! unat i # drop (unat (i + 1)) (live R)"
      using lt by (simp add: nxt len Cons_nth_drop_Suc)
    moreover have "poll_from M R (i + 1) t n = poll_list M (drop (unat (i + 1)) (live R)) t n" for t n
      by (rule less) (use index_measure [OF True] in simp)
    ultimately show ?thesis
      by (subst poll_from.simps) (auto simp del: poll_from.simps intro!: Option.bind_cong)
  next
    case False
    then have "unat (reg_count R) \<le> unat i" by (simp add: word_le_nat_alt not_less)
    then show ?thesis
      using False assms(3) by (subst poll_from.simps) (simp add: provider_get_next_def len)
  qed
qed

lemma poll_slaves_eq:
  assumes "registry_wf R" "reg_initialised R"
  shows "poll_slaves M R s m = poll_list M (live R) s m"
  using assms poll_from_eq [of R M 0 s m] by (simp add: poll_slaves_def registry_wf_def)

lemma live_addr: "registry_wf R \<Longrightarrow> p \<in> set (live R) \<Longrightarrow> dp_slave_addr p \<noteq> 0"
  by (auto simp: registry_wf_def table_ok_def profile_valid_def)

text \<open>Whatever every slave's poll keeps, the pass keeps.\<close>

lemma poll_list_keeps:
  assumes "\<And>p s m s' m'. p \<in> set ps \<Longrightarrow> I s \<Longrightarrow> poll_slave M p s m = Some (s', m') \<Longrightarrow> I s'"
    and "I s" "poll_list M ps s m = Some (s', m')"
  shows "I s'"
  using assms
proof (induction ps arbitrary: s m)
  case (Cons p ps)
  obtain t n where t: "poll_slave M p s m = Some (t, n)" "poll_list M ps t n = Some (s', m')"
    using Cons.prems(3) by (auto simp: bind_eq_Some_conv)
  have "I t" by (rule Cons.prems(1) [OF _ Cons.prems(2) t(1)]) simp
  show ?case
    by (rule Cons.IH [OF _ \<open>I t\<close> t(2)]) (rule Cons.prems(1), simp_all)
qed simp

lemma drain_list_keeps:
  assumes "\<And>s q. I s \<Longrightarrow> I (s\<lparr>pl_queue := q\<rparr>)" "\<And>s q r. I s \<Longrightarrow> I (emit [Answer q r] s)"
    and "I s" "drain_list M cmds s m = Some (s', m')"
  shows "I s'"
  using assms(3,4)
proof (induction cmds arbitrary: s m)
  case (Cons cmd cmds)
  obtain t n where t: "execute_command M cmd (s\<lparr>pl_queue := cmds\<rparr>) m = Some (t, n)"
    "drain_list M cmds t n = Some (s', m')"
    using Cons.prems(2) by (auto simp: bind_eq_Some_conv)
  have "I t" using t(1) assms(1,2) Cons.prems(1)
    by (auto simp: execute_command_def bind_eq_Some_conv post_command_result_def Let_def split: option.splits)
  then show ?case using Cons.IH t(2) by blast
qed simp

lemma poll_cycle_keeps:
  assumes "poll_cycle M R s m = Some (s', m')" "I s" "registry_wf R" "reg_initialised R"
    and "\<And>s q. I s \<Longrightarrow> I (s\<lparr>pl_queue := q\<rparr>)" "\<And>s q r. I s \<Longrightarrow> I (emit [Answer q r] s)"
    and "\<And>s c. I s \<Longrightarrow> I (emit [Health_stats c] s)"
    and "\<And>p s m s' m'. p \<in> set (live R) \<Longrightarrow> I s \<Longrightarrow> poll_slave M p s m = Some (s', m') \<Longrightarrow> I s'"
  shows "I s'"
proof -
  obtain t n u where t: "drain_list M (pl_queue s) s m = Some (t, n)" "poll_list M (live R) t n = Some (u, m')"
    "s' = report_health_metrics M u m'"
    using assms(1) by (auto simp: poll_cycle_def drain_commands_def poll_slaves_eq [OF assms(3,4)] bind_eq_Some_conv)
  have "I t"
    by (rule drain_list_keeps [where I = I, OF _ _ assms(2) t(1)]) (rule assms(5,6), assumption)+
  have "I u"
    by (rule poll_list_keeps [where I = I, OF _ \<open>I t\<close> t(2)]) (rule assms(8), assumption+)
  then show ?thesis using t(3) assms(7) by (auto simp: report_health_metrics_def split: prod.splits)
qed

section \<open>Reachable states\<close>

text \<open>A state of the system is the registry, the poller and the bus.  The registry is replaced by any
  other well-formed one and the bus by any other, between two operations of the poller.\<close>

type_synonym ('w, 'm) system = "'w registry \<times> poller \<times> 'm"

inductive poller_step :: "'m imaster \<Rightarrow> ('w, 'm) system \<Rightarrow> ('w, 'm) system \<Rightarrow> bool" for M :: "'m imaster" where
  provision: "registry_wf R' \<Longrightarrow> reg_initialised R' \<Longrightarrow> poller_step M (R, s, m) (R', s, m)"
| bus: "poller_step M (R, s, m) (R, s, m')"
| cycle: "poll_cycle M R s m = Some (s', m') \<Longrightarrow> poller_step M (R, s, m) (R, s', m')"
| command: "modbus_poller_send_command R cmd s = (e, s') \<Longrightarrow> poller_step M (R, s, m) (R, s', m)"
| reprobe: "modbus_poller_reprobe R a s = (e, s') \<Longrightarrow> poller_step M (R, s, m) (R, s', m)"
| set_period: "modbus_poller_set_poll_period ms s = (e, s') \<Longrightarrow> poller_step M (R, s, m) (R, s', m)"
| alarm_callback: "poller_step M (R, s, m) (R, modbus_poller_set_alarm_callback b s, m)"
| link_up_callback: "poller_step M (R, s, m) (R, modbus_poller_set_link_up_callback b s, m)"

inductive poller_reach :: "'m imaster \<Rightarrow> ('w, 'm) system \<Rightarrow> bool" for M :: "'m imaster" where
  start: "modbus_poller_init period True s0 = (MODBUS_POLLER_ERR_OK, s) \<Longrightarrow> pl_out s0 = [] \<Longrightarrow>
    registry_wf R \<Longrightarrow> reg_initialised R \<Longrightarrow> poller_reach M (R, s, m)"
| step: "poller_reach M c \<Longrightarrow> poller_step M c c' \<Longrightarrow> poller_reach M c'"

inductive_simps poller_step_simps: "poller_step M (R, s, m) (R', s', m')"

lemma init_link_inv:
  assumes "modbus_poller_init period health s0 = (MODBUS_POLLER_ERR_OK, s)" "pl_out s0 = []"
  shows "link_inv s" "pl_initialised s"
proof -
  have s: "pl_slaves s = replicate 4 zero_slave" "length (pl_alarm_flags s) = 4" "length (pl_cache s) = 4" "pl_out s = []"
    using assms by (auto simp: modbus_poller_init_def MODBUS_MAX_SLAVES_def split: if_splits)
  show "link_inv s"
    using s by (simp add: link_inv_def poller_wf_def slots_wf_def link_log_def map_filter_simps online_of_def zero_slave_def)
  show "pl_initialised s" using assms by (auto simp: modbus_poller_init_def split: if_splits)
qed

lemma cycle_link_inv:
  assumes "poll_cycle M R s m = Some (s', m')" "link_inv s" "registry_wf R" "reg_initialised R"
  shows "link_inv s'"
proof (rule poll_cycle_keeps [where I = link_inv, OF assms])
  fix s q assume "link_inv s"
  then show "link_inv (s\<lparr>pl_queue := q\<rparr>)"
    by (rule link_inv_other) (use \<open>link_inv s\<close> in \<open>simp_all add: link_inv_def poller_wf_def\<close>)
next
  fix p s m s' m' assume p: "p \<in> set (live R)" "link_inv s" "poll_slave M p s m = Some (s', m')"
  show "link_inv s'" by (rule poll_slave_keeps [OF p(2) live_addr [OF assms(3) p(1)] p(3)])
qed (rule link_inv_emit, assumption, simp add: map_filter_simps)+

lemma reprobe_link_inv:
  assumes "link_inv s" "modbus_poller_reprobe R a s = (e, s')"
  shows "link_inv s'"
proof -
  let ?i = "find_slot_index a s"
  have "link_inv (upd_slave ?i (\<lambda>x. x\<lparr>sl_recheck := 0, sl_identity := MODBUS_SLAVE_UNVERIFIED\<rparr>) s)" if "?i < 4"
    by (rule link_inv_upd [OF assms(1) that]) simp_all
  then show ?thesis
    using assms by (auto simp: modbus_poller_reprobe_def Let_def MODBUS_MAX_SLAVES_def split: if_splits)
qed

text \<open>What every step of the poller keeps, given that it keeps it under the updates of the fields it
  changes.\<close>

lemma step_keeps:
  assumes "poller_step M (R, s, m) (R', s', m')" "I s" "registry_wf R" "reg_initialised R"
    and "\<And>m s' m'. poll_cycle M R s m = Some (s', m') \<Longrightarrow> I s'"
    and "\<And>i. i < 4 \<Longrightarrow> I (upd_slave i (\<lambda>x. x\<lparr>sl_recheck := 0, sl_identity := MODBUS_SLAVE_UNVERIFIED\<rparr>) s)"
    and "\<And>q. I (s\<lparr>pl_queue := q\<rparr>)" "\<And>p. I (s\<lparr>pl_poll_period_ms := p\<rparr>)"
    and "\<And>b. I (s\<lparr>pl_alarm_cb := b\<rparr>)" "\<And>b. I (s\<lparr>pl_link_up_cb := b\<rparr>)"
  shows "I s' \<and> registry_wf R' \<and> reg_initialised R'"
  using assms(1)
proof (cases rule: poller_step.cases)
  case (cycle)
  then show ?thesis using assms(3,4) assms(5) by blast
next
  case (command cmd e)
  have "s' = s \<or> (\<exists>q. s' = s\<lparr>pl_queue := q\<rparr>)"
    using command(3) by (auto simp: modbus_poller_send_command_def Let_def split: option.splits if_splits)
  then show ?thesis using command assms(2,3,4,7) by auto
next
  case (reprobe a e)
  have "s' = s \<or> (\<exists>i < 4. s' = upd_slave i (\<lambda>x. x\<lparr>sl_recheck := 0, sl_identity := MODBUS_SLAVE_UNVERIFIED\<rparr>) s)"
    using reprobe(3) by (auto simp: modbus_poller_reprobe_def Let_def MODBUS_MAX_SLAVES_def split: if_splits)
  then show ?thesis using reprobe assms(2,3,4,6) by auto
next
  case (set_period ms e)
  have "s' = s \<or> (\<exists>p. s' = s\<lparr>pl_poll_period_ms := p\<rparr>)"
    using set_period(3) by (auto simp: modbus_poller_set_poll_period_def split: if_splits)
  then show ?thesis using set_period assms(2,3,4,8) by auto
qed (use assms in \<open>simp_all add: modbus_poller_set_alarm_callback_def modbus_poller_set_link_up_callback_def\<close>)

lemma step_link_inv:
  assumes "poller_step M (R, s, m) (R', s', m')" "link_inv s" "registry_wf R" "reg_initialised R"
  shows "link_inv s' \<and> registry_wf R' \<and> reg_initialised R'"
proof (rule step_keeps [where I = link_inv, OF assms])
  have l: "length (pl_alarm_flags s) = 4" "length (pl_cache s) = 4"
    using assms(2) by (simp_all add: link_inv_def poller_wf_def)
  show "link_inv (s\<lparr>pl_queue := q\<rparr>)" "link_inv (s\<lparr>pl_poll_period_ms := p\<rparr>)"
    "link_inv (s\<lparr>pl_alarm_cb := b\<rparr>)" "link_inv (s\<lparr>pl_link_up_cb := b\<rparr>)" for q p b
    by (rule link_inv_other [OF assms(2)]; simp add: l link_log_def)+
  show "link_inv (upd_slave i (\<lambda>x. x\<lparr>sl_recheck := 0, sl_identity := MODBUS_SLAVE_UNVERIFIED\<rparr>) s)" if "i < 4" for i
    by (rule link_inv_upd [OF assms(2) that]) simp_all
  show "link_inv s'" if "poll_cycle M R s m = Some (s', m')" for m s' m'
    by (rule cycle_link_inv [OF that assms(2-4)])
qed

lemma reach_link_inv:
  "poller_reach M c \<Longrightarrow> (case c of (R, s, m) \<Rightarrow> link_inv s \<and> registry_wf R \<and> reg_initialised R)"
proof (induction rule: poller_reach.induct)
  case (start period s0 s R m)
  then show ?case using init_link_inv by blast
next
  case (step c c')
  obtain R s m R' s' m' where c: "c = (R, s, m)" "c' = (R', s', m')" by (metis surj_pair)
  show ?case using step(2,3) step_link_inv [of M R s m R' s' m'] unfolding c by simp
qed

text \<open>C10: whatever the bus answers, however the table of provisioned slaves is changed, and in every
  order of cycles, commands, reprobes and settings since initialisation: the link-up and link-down
  events reported for a slave to HealthMonitor alternate, the first one is link-up, and the link state
  that readers are given is the one last reported.  Also no address has two slots.\<close>

theorem link_events_alternate:
  assumes "poller_reach M (R, s, m)" "a \<noteq> 0"
  shows "alternates True (link_log a s) \<and>
    (online_of a s \<longleftrightarrow> link_log a s \<noteq> [] \<and> last (link_log a s)) \<and>
    (\<forall>i < 4. \<forall>j < 4. sl_addr (pl_slaves s ! i) = a \<and> sl_addr (pl_slaves s ! j) = a \<longrightarrow> i = j)"
proof -
  have inv: "link_inv s" using reach_link_inv [OF assms(1)] by simp
  then have ok: "link_ok a s" and wf: "poller_wf s" using assms(2) by (simp_all add: link_inv_alt)
  have alt: "alternates True (link_log a s)" using ok by (simp add: link_ok_def)
  have "odd (length xs) \<longleftrightarrow> xs \<noteq> [] \<and> last xs" if "alternates True xs" for xs
    using that by (cases xs rule: rev_cases) (auto simp: alternates_append)
  then have "online_of a s \<longleftrightarrow> link_log a s \<noteq> [] \<and> last (link_log a s)"
    using ok alt by (simp add: link_ok_def)
  moreover have "i = j" if "i < 4" "j < 4" "sl_addr (pl_slaves s ! i) = a \<and> sl_addr (pl_slaves s ! j) = a" for i j
    by (rule poller_wfD(2) [OF wf that(1,2)]) (use that(3) assms(2) in simp_all)
  ultimately show ?thesis using alt by blast
qed

lemma initialised_upd [simp]: "pl_initialised (record_poll_outcome i result s) = pl_initialised s"
  "pl_initialised (reject_slave i s) = pl_initialised s"
  "pl_initialised (forward_response_to_consumers profile entry response t s) = pl_initialised s"
  by (simp_all add: record_poll_outcome_def reject_slave_def forward_response_to_consumers_def Let_def
      emit_link_up_def emit_node_offline_def)

lemma initialised_poll:
  "ensure_identity M i profile s m = Some (v, s', m') \<Longrightarrow> pl_initialised s' = pl_initialised s"
  "poll_alarm_flags M profile s m = Some (s', m') \<Longrightarrow> pl_initialised s' = pl_initialised s"
  by (auto simp: ensure_identity_def poll_alarm_flags_def Let_def bind_eq_Some_conv split: if_splits)

lemma initialised_poll_slave:
  "poll_slave M profile s m = Some (s', m') \<Longrightarrow> pl_initialised s' = pl_initialised s"
  by (auto simp: poll_slave_def find_or_claim_slot_def Let_def bind_eq_Some_conv initialised_poll
      split: option.splits if_splits prod.splits bool.splits)

lemma reach_initialised: "poller_reach M (R, s, m) \<Longrightarrow> pl_initialised s"
proof (induction "(R, s, m)" arbitrary: R s m rule: poller_reach.induct)
  case (start period s0 s R m)
  then show ?case using init_link_inv by blast
next
  case (step c R' s' m')
  obtain R s m where c: "c = (R, s, m)" by (metis surj_pair)
  have r: "registry_wf R" "reg_initialised R" using reach_link_inv [OF step(1)] by (simp_all add: c)
  have "pl_initialised s' \<and> registry_wf R' \<and> reg_initialised R'"
  proof (rule step_keeps [where I = pl_initialised, OF step(3) [unfolded c] _ r])
    show "pl_initialised s" by (rule step(2) [OF c])
    then show "pl_initialised t" if "poll_cycle M R s k = Some (t, k')" for k t k'
      by (rule poll_cycle_keeps [where I = pl_initialised, OF that _ r]) (auto dest: initialised_poll_slave)
  qed (use step(2) [OF c] in \<open>simp_all add: upd_slave_def\<close>)
  then show ?case by simp
qed

section \<open>A slot is never given up\<close>

text \<open>The addresses of the table, and that claimed ones stay.\<close>

definition slot_addrs :: "poller \<Rightarrow> u8 list" where
  "slot_addrs s = map sl_addr (pl_slaves s)"

lemma slot_addrs_upd [simp]:
  "(\<And>x. sl_addr (f x) = sl_addr x) \<Longrightarrow> slot_addrs (upd_slave i f s) = slot_addrs s"
  by (cases "i < length (pl_slaves s)") (auto simp: slot_addrs_def upd_slave_def list_eq_iff_nth_eq nth_list_update)

lemma slot_addrs_other [simp]:
  "slot_addrs (emit os s) = slot_addrs s" "slot_addrs (s\<lparr>pl_queue := q\<rparr>) = slot_addrs s"
  "slot_addrs (s\<lparr>pl_cache := c\<rparr>) = slot_addrs s" "slot_addrs (s\<lparr>pl_alarm_flags := f\<rparr>) = slot_addrs s"
  "slot_addrs (s\<lparr>pl_poll_period_ms := p\<rparr>) = slot_addrs s" "slot_addrs (s\<lparr>pl_alarm_cb := b\<rparr>) = slot_addrs s"
  "slot_addrs (s\<lparr>pl_link_up_cb := b\<rparr>) = slot_addrs s"
  by (simp_all add: slot_addrs_def)

lemma slot_addrs_record [simp]: "slot_addrs (record_poll_outcome i result s) = slot_addrs s"
  by (simp add: record_poll_outcome_def Let_def emit_link_up_def emit_node_offline_def)

lemma slot_addrs_reject [simp]: "slot_addrs (reject_slave i s) = slot_addrs s"
  by (simp add: reject_slave_def Let_def emit_node_offline_def)

lemma slot_addrs_identity:
  "ensure_identity M i profile s m = Some (v, s', m') \<Longrightarrow> slot_addrs s' = slot_addrs s"
  by (auto simp: ensure_identity_def Let_def bind_eq_Some_conv split: if_splits)

lemma slot_addrs_forward [simp]:
  "slot_addrs (forward_response_to_consumers profile entry response tick s) = slot_addrs s"
  by (simp add: forward_response_to_consumers_def Let_def)

lemma slot_addrs_alarm:
  "poll_alarm_flags M profile s m = Some (s', m') \<Longrightarrow> slot_addrs s' = slot_addrs s"
  by (auto simp: poll_alarm_flags_def Let_def bind_eq_Some_conv split: if_splits)

text \<open>With no free slot left, a poll changes no address, and a slave without a slot is passed over.\<close>

lemma claim_full:
  assumes "0 \<notin> set (slot_addrs s)" "find_or_claim_slot a s = (r, t)"
  shows "t = s" "a \<notin> set (slot_addrs s) \<Longrightarrow> r = None"
proof -
  obtain q new where sc: "scan_slots a 0 None (pl_slaves s) = (q, new)" by fastforce
  note spec = scan_slots_spec [OF sc]
  have z: "0 \<notin> sl_addr ` set (pl_slaves s)" using assms(1) by (simp add: slot_addrs_def)
  have "new \<Longrightarrow> q = None"
  proof -
    assume new
    with spec have "case q of None \<Rightarrow> True | Some j \<Rightarrow> \<exists>i < length (pl_slaves s). sl_addr (pl_slaves s ! i) = 0"
      by (auto split: option.splits)
    then show "q = None" using z by (fastforce split: option.splits)
  qed
  then have "t = s \<and> r = q" using assms(2) by (cases new; cases q) (auto simp: find_or_claim_slot_def sc)
  then show "t = s" by blast
  assume a: "a \<notin> set (slot_addrs s)"
  have new using spec a by (auto simp: slot_addrs_def)
  then show "r = None" using \<open>new \<Longrightarrow> q = None\<close> \<open>t = s \<and> r = q\<close> by blast
qed

lemma poll_slave_full:
  assumes "0 \<notin> set (slot_addrs s)"
  shows "poll_slave M profile s m = Some (s', m') \<Longrightarrow> slot_addrs s' = slot_addrs s"
    and "dp_slave_addr profile \<notin> set (slot_addrs s) \<Longrightarrow> poll_slave M profile s m = Some (s, m)"
proof -
  obtain r t where c: "find_or_claim_slot (dp_slave_addr profile) s = (r, t)" by fastforce
  note full = claim_full [OF assms c]
  show "poll_slave M profile s m = Some (s', m') \<Longrightarrow> slot_addrs s' = slot_addrs s"
    using full(1)
    by (auto simp: poll_slave_def c Let_def bind_eq_Some_conv split: option.splits if_splits
        dest!: slot_addrs_identity slot_addrs_alarm)
  show "dp_slave_addr profile \<notin> set (slot_addrs s) \<Longrightarrow> poll_slave M profile s m = Some (s, m)"
    using full by (simp add: poll_slave_def c)
qed

lemma step_full:
  assumes "poller_step M (R, s, m) (R', s', m')" "registry_wf R" "reg_initialised R" "0 \<notin> set (slot_addrs s)"
  shows "slot_addrs s' = slot_addrs s \<and> registry_wf R' \<and> reg_initialised R'"
proof (rule step_keeps [where I = "\<lambda>t. slot_addrs t = slot_addrs s", OF assms(1) refl assms(2,3)])
  fix m s' m' assume "poll_cycle M R s m = Some (s', m')"
  then show "slot_addrs s' = slot_addrs s"
  proof (rule poll_cycle_keeps [where I = "\<lambda>t. slot_addrs t = slot_addrs s", OF _ refl assms(2,3)])
    fix p t n t' n' assume "slot_addrs t = slot_addrs s" "poll_slave M p t n = Some (t', n')"
    then show "slot_addrs t' = slot_addrs s" using poll_slave_full(1) [of t M p n t' n'] assms(4) by simp
  qed simp_all
qed simp_all

lemma run_full:
  assumes "(poller_step M)\<^sup>*\<^sup>* (R, s, m) (R', s', m')" "registry_wf R" "reg_initialised R" "0 \<notin> set (slot_addrs s)"
  shows "slot_addrs s' = slot_addrs s \<and> registry_wf R' \<and> reg_initialised R'"
  using assms(1)
proof (induction "(R', s', m')" arbitrary: R' s' m' rule: rtranclp_induct)
  case base
  then show ?case using assms(2,3) by simp
next
  case (step c)
  obtain R1 s1 m1 where c: "c = (R1, s1, m1)" by (metis surj_pair)
  have "slot_addrs s1 = slot_addrs s \<and> registry_wf R1 \<and> reg_initialised R1" by (rule step(3) [OF c])
  then show ?case using step_full [of M R1 s1 m1 R' s' m'] step(2) assms(4) by (simp add: c)
qed

lemma find_slot_absent: "a \<notin> set (slot_addrs s) \<Longrightarrow> find_slot_index a s = length (pl_slaves s)"
  by (force simp: find_slot_index_def slot_addrs_def intro!: arg_cong [where f = length] takeWhile_eq_all_conv [THEN iffD2])

lemma profile_registered:
  assumes "registry_wf R" "reg_initialised R" "p \<in> set (live R)"
  shows "provider_is_registered (dp_slave_addr p) R"
proof -
  have "profile_map (live R) (dp_slave_addr p) \<noteq> None"
    unfolding profile_map_def map_of_eq_None_iff using assms(3) by force
  then show ?thesis by (auto simp: provider_is_registered_def lookup_eq [OF assms(1,2)])
qed

text \<open>C40: the poller has four slots and never frees one, while eight slaves can be provisioned and a
  profile can be replaced.  Once the four slots are claimed, a slave provisioned later is never polled:
  in every state reached from then on, whichever profiles are removed meanwhile, its turn in the cycle
  makes no transaction and changes nothing, and a reader is answered with success
  and an empty reading.\<close>

theorem later_slave_never_polled:
  assumes "poller_reach M (R, s, m)" "0 \<notin> set (slot_addrs s)" "dp_slave_addr p \<notin> set (slot_addrs s)"
    and "(poller_step M)\<^sup>*\<^sup>* (R, s, m) (R', s', m')" "p \<in> set (live R')"
  shows "poll_slave M p s' m' = Some (s', m') \<and>
    modbus_poller_get_fd_reading R' (dp_slave_addr p) (Some out) s' =
      (MODBUS_POLLER_ERR_OK, Some (fd_cache.extend zero_cache \<lparr>rd_link_online = False\<rparr>))"
proof -
  have wf: "registry_wf R" "reg_initialised R" using reach_link_inv [OF assms(1)] by simp_all
  have "poller_reach M (R', s', m')"
    using assms(4,1) by (induction rule: rtranclp_induct) (auto intro: poller_reach.step)
  then have init: "pl_initialised s'" by (rule reach_initialised)
  have r: "slot_addrs s' = slot_addrs s" "registry_wf R'" "reg_initialised R'"
    using run_full [OF assms(4) wf assms(2)] by simp_all
  have len: "length (pl_slaves s') = 4"
  proof -
    have "length (slot_addrs s') = length (slot_addrs s)" by (simp add: r(1))
    then have "length (pl_slaves s') = length (pl_slaves s)" by (simp add: slot_addrs_def)
    then show ?thesis using reach_link_inv [OF assms(1)] by (simp add: link_inv_def poller_wf_def slots_wf_def)
  qed
  have "poll_slave M p s' m' = Some (s', m')" by (rule poll_slave_full(2)) (simp_all add: r(1) assms(2,3))
  moreover have "provider_is_registered (dp_slave_addr p) R'" by (rule profile_registered [OF r(2,3) assms(5)])
  moreover have "find_slot_index (dp_slave_addr p) s' = 4" using assms(3) len by (simp add: find_slot_absent r(1))
  ultimately show ?thesis using init by (simp add: modbus_poller_get_fd_reading_def MODBUS_MAX_SLAVES_def Let_def)
qed

section \<open>The debounce\<close>

text \<open>What the hysteresis means: the link state is the value of the last three equal outcomes in a row,
  newest first in the list, and down before there are any.\<close>

fun debounced :: "bool list \<Rightarrow> bool" where
  "debounced (x # y # z # xs) = (if x = y \<and> y = z then x else debounced (y # z # xs))"
| "debounced _ = False"

text \<open>The length of the run the history ends with, up to three.\<close>

definition run_of :: "bool \<Rightarrow> bool list \<Rightarrow> u8" where
  "run_of b h = of_nat (min 3 (length (takeWhile (\<lambda>x. x = b) h)))"

lemma run_of_Cons:
  "run_of b (x # h) = (if x = b then if run_of b h < 3 then run_of b h + 1 else run_of b h else 0)"
proof -
  let ?n = "length (takeWhile (\<lambda>x. x = b) h)"
  consider "?n = 0" | "?n = 1" | "?n = 2" | "?n \<ge> 3" by linarith
  then show ?thesis by cases (simp_all add: run_of_def)
qed

lemma run_of_three:
  "run_of b h = 3 \<longleftrightarrow> (\<exists>t. h = b # b # b # t)"
proof -
  have w: "of_nat (min 3 n) = (3 :: u8) \<longleftrightarrow> 3 \<le> n" for n :: nat
  proof -
    consider "n = 0" | "n = 1" | "n = 2" | "n \<ge> 3" by linarith
    then show ?thesis by cases simp_all
  qed
  have "3 \<le> length (takeWhile (\<lambda>x. x = b) h) \<longleftrightarrow> (\<exists>t. h = b # b # b # t)"
  proof (cases h)
    case (Cons x h1)
    then show ?thesis by (cases h1; cases "tl h1") auto
  qed simp
  then show ?thesis by (simp add: run_of_def w)
qed

lemma debounced_Cons:
  "debounced (x # h) = (if run_of x (x # h) = 3 then x else debounced h)"
proof (cases h)
  case Nil
  then show ?thesis by (simp only: run_of_three) simp
next
  case y: (Cons y h1)
  show ?thesis
  proof (cases h1)
    case Nil
    then show ?thesis unfolding y run_of_three by simp
  next
    case (Cons z h2)
    show ?thesis unfolding y Cons run_of_three by (cases x; cases y; cases z) simp_all
  qed
qed

text \<open>The changes of the debounced state along a history, oldest first.\<close>

fun link_changes :: "bool list \<Rightarrow> bool list" where
  "link_changes [] = []"
| "link_changes (x # h) = link_changes h @ (if debounced (x # h) \<noteq> debounced h then [debounced (x # h)] else [])"

lemma record_ok:
  assumes "i < length (pl_slaves s)"
  defines "x \<equiv> pl_slaves s ! i"
  defines "n \<equiv> (if sl_successes x < 3 then sl_successes x + 1 else sl_successes x)"
  defines "t \<equiv> record_poll_outcome i MODBUS_MASTER_ERR_OK s"
  shows "length (pl_slaves t) = length (pl_slaves s)"
    "pl_slaves t ! i = x\<lparr>sl_failures := 0, sl_successes := n, sl_online := (sl_online x \<or> n = 3)\<rparr>"
    "link_log a t = link_log a s @ (if sl_addr x = a \<and> n = 3 \<and> \<not> sl_online x then [True] else [])"
proof -
  have nth: "pl_slaves (upd_slave i f u) ! i = f (pl_slaves u ! i)" if "length (pl_slaves u) = length (pl_slaves s)" for f u
    using assms(1) that by (simp add: upd_slave_def)
  have ok: "(x :: modbus_slave_state)\<lparr>sl_failures := 0, sl_successes := k\<rparr> =
      x\<lparr>sl_failures := 0, sl_successes := k, sl_online := sl_online x\<rparr>" for x k by simp
  note r = t_def record_poll_outcome_def Let_def emit_link_up_def n_def x_def HYSTERESIS_THRESHOLD_def
  show "length (pl_slaves t) = length (pl_slaves s)" by (simp add: r)
  show "pl_slaves t ! i = x\<lparr>sl_failures := 0, sl_successes := n, sl_online := (sl_online x \<or> n = 3)\<rparr>"
    by (cases "sl_online x") (auto simp: r nth)
  show "link_log a t = link_log a s @ (if sl_addr x = a \<and> n = 3 \<and> \<not> sl_online x then [True] else [])"
    by (simp add: r nth link_log_emit map_filter_simps) (simp add: link_log_def)
qed

lemma record_failed:
  assumes "i < length (pl_slaves s)" "result \<noteq> MODBUS_MASTER_ERR_OK"
  defines "x \<equiv> pl_slaves s ! i"
  defines "n \<equiv> (if sl_failures x < 3 then sl_failures x + 1 else sl_failures x)"
  defines "t \<equiv> record_poll_outcome i result s"
  shows "length (pl_slaves t) = length (pl_slaves s)" "sl_addr (pl_slaves t ! i) = sl_addr x"
    "sl_failures (pl_slaves t ! i) = n" "sl_successes (pl_slaves t ! i) = 0"
    "sl_online (pl_slaves t ! i) \<longleftrightarrow> sl_online x \<and> n \<noteq> 3"
    "link_log a t = link_log a s @ (if sl_addr x = a \<and> n = 3 \<and> sl_online x then [False] else [])"
proof -
  have nth: "pl_slaves (upd_slave i f u) ! i = f (pl_slaves u ! i)" if "length (pl_slaves u) = length (pl_slaves s)" for f u
    using assms(1) that by (simp add: upd_slave_def)
  note r = t_def record_poll_outcome_def Let_def emit_node_offline_def n_def x_def HYSTERESIS_THRESHOLD_def assms(2)
  show "length (pl_slaves t) = length (pl_slaves s)" by (simp add: r)
  show "sl_addr (pl_slaves t ! i) = sl_addr x" "sl_failures (pl_slaves t ! i) = n" "sl_successes (pl_slaves t ! i) = 0"
    "sl_online (pl_slaves t ! i) \<longleftrightarrow> sl_online x \<and> n \<noteq> 3"
    by (cases "sl_online x"; simp add: r nth)+
  show "link_log a t = link_log a s @ (if sl_addr x = a \<and> n = 3 \<and> sl_online x then [False] else [])"
    by (simp add: r nth link_log_emit map_filter_simps) (simp add: link_log_def)
qed

definition tracks :: "nat \<Rightarrow> u8 \<Rightarrow> bool list \<Rightarrow> poller \<Rightarrow> bool" where
  "tracks i a h s \<longleftrightarrow> i < length (pl_slaves s) \<and> sl_addr (pl_slaves s ! i) = a \<and>
     sl_online (pl_slaves s ! i) = debounced h \<and> sl_successes (pl_slaves s ! i) = run_of True h \<and>
     sl_failures (pl_slaves s ! i) = run_of False h"

lemma record_step:
  assumes "tracks i a h s" "x \<longleftrightarrow> result = MODBUS_MASTER_ERR_OK"
  shows "tracks i a (x # h) (record_poll_outcome i result s)"
    "link_log a (record_poll_outcome i result s) =
      link_log a s @ (if debounced (x # h) \<noteq> debounced h then [debounced (x # h)] else [])"
proof -
  have s: "i < length (pl_slaves s)" using assms(1) by (simp add: tracks_def)
  note t = assms(1) [unfolded tracks_def]
  have "tracks i a (x # h) (record_poll_outcome i result s) \<and>
    link_log a (record_poll_outcome i result s) =
      link_log a s @ (if debounced (x # h) \<noteq> debounced h then [debounced (x # h)] else [])"
  proof (cases x)
    case True
    then have r: "result = MODBUS_MASTER_ERR_OK" using assms(2) by simp
    show ?thesis
      using t record_ok(2,3) [OF s] by (simp add: True r tracks_def record_ok(1) [OF s] debounced_Cons run_of_Cons)
  next
    case False
    then have r: "result \<noteq> MODBUS_MASTER_ERR_OK" using assms(2) by simp
    show ?thesis
      using t record_failed(2-6) [OF s r] by (simp add: False tracks_def record_failed(1) [OF s r] debounced_Cons run_of_Cons)
  qed
  then show "tracks i a (x # h) (record_poll_outcome i result s)"
    "link_log a (record_poll_outcome i result s) =
      link_log a s @ (if debounced (x # h) \<noteq> debounced h then [debounced (x # h)] else [])" by simp_all
qed

text \<open>C12: on every history of transaction outcomes the two saturating counters of a slave implement the
  debounce: its link state is the value of the latest three outcomes in a row that agree (down until
  three successes in a row), and the link events reported for it are exactly the changes of that value.\<close>

theorem record_is_debounce:
  assumes "i < length (pl_slaves s)" "pl_slaves s ! i = zero_slave\<lparr>sl_addr := a\<rparr>"
    and "s' = fold (record_poll_outcome i) results s" "h = rev (map (\<lambda>r. r = MODBUS_MASTER_ERR_OK) results)"
  shows "sl_online (pl_slaves s' ! i) = debounced h \<and> link_log a s' = link_log a s @ link_changes h"
proof -
  have "tracks i a h s' \<and> link_log a s' = link_log a s @ link_changes h"
    unfolding assms(3,4)
  proof (induction results rule: rev_induct)
    case Nil
    then show ?case using assms(1,2) by (simp add: zero_slave_def run_of_def tracks_def)
  next
    case (snoc result results)
    then show ?case
      using record_step [of i a "rev (map (\<lambda>r. r = MODBUS_MASTER_ERR_OK) results)" "fold (record_poll_outcome i) results s"
          "result = MODBUS_MASTER_ERR_OK" result] by simp
  qed
  then show ?thesis by (simp add: tracks_def)
qed

section \<open>Concrete runs\<close>

text \<open>A master that answers from a script, and times out when the script is empty.\<close>

definition scripted :: "(modbus_master_err \<times> modbus_frame) list imaster" where
  "scripted = \<lparr>
     im_transact = (\<lambda>req resp w. case w of
         [] \<Rightarrow> Some (MODBUS_MASTER_ERR_TIMEOUT, resp, [])
       | (err, r) # w \<Rightarrow> Some (err, r, w)),
     im_get_stats = (\<lambda>w. (MODBUS_MASTER_ERR_NOT_INIT, zero_master_stats)), im_tick = (\<lambda>w. 7)\<rparr>"

fun poll_cycles :: "nat \<Rightarrow> 'm imaster \<Rightarrow> 'w registry \<Rightarrow> poller \<Rightarrow> 'm \<Rightarrow> (poller \<times> 'm) option" where
  "poll_cycles 0 M R s m = Some (s, m)"
| "poll_cycles (Suc n) M R s m = do { (s, m) \<leftarrow> poll_cycle M R s m; poll_cycles n M R s m }"

lemma reach_cycles:
  "poller_reach M (R, s, m) \<Longrightarrow> poll_cycles n M R s m = Some (s', m') \<Longrightarrow> poller_reach M (R, s', m')"
proof (induction n arbitrary: s m)
  case (Suc n)
  obtain t k where t: "poll_cycle M R s m = Some (t, k)" "poll_cycles n M R t k = Some (s', m')"
    using Suc.prems(2) by (auto simp: bind_eq_Some_conv)
  have "poller_reach M (R, t, k)" by (rule poller_reach.step [OF Suc.prems(1) poller_step.cycle [OF t(1)]])
  then show ?case by (rule Suc.IH [OF _ t(2)])
qed simp

definition idle_poller :: poller where
  "idle_poller = \<lparr>pl_poll_period_ms = 0, pl_initialised = False, pl_slaves = [], pl_alarm_flags = [], pl_cache = [],
     pl_queue = [], pl_alarm_cb = False, pl_link_up_cb = False, pl_out = []\<rparr>"

definition demo_poller :: poller where
  "demo_poller = snd (modbus_poller_init 1000 True idle_poller)"

lemma demo_reach:
  "registry_wf R \<Longrightarrow> reg_initialised R \<Longrightarrow> poller_reach M (R, demo_poller, m)"
  by (rule poller_reach.start [of 1000 idle_poller])
     (simp_all add: demo_poller_def modbus_poller_init_def idle_poller_def)

definition words_frame :: "u16 list \<Rightarrow> modbus_frame" where
  "words_frame ws = \<lparr>mf_slave_addr = 1, mf_function_code = 4, mf_data = of_nat (2 * length ws) # concat (map (\<lambda>w. [ucast (drop_bit 8 w), ucast w]) ws),
     mf_data_len = of_nat (1 + 2 * length ws)\<rparr>"

text \<open>The identity block of the default profile, a reading and the alarm flags, three cycles in all.\<close>

definition demo_script :: "(modbus_master_err \<times> modbus_frame) list" where
  "demo_script =
    (let ok = (\<lambda>ws. (MODBUS_MASTER_ERR_OK, words_frame ws)); poll = [ok [2150, 4500, 10132], ok [0]]
     in ok [1, 0, 0, 0, 0, 0, 0, dp_vendor_code default_profile] # poll @ poll @ poll)"

lemma demo_run:
  "case poll_cycles 7 scripted demo_registry demo_poller demo_script of
     None \<Rightarrow> False | Some (s, m) \<Rightarrow> link_log 1 s = [True, False] \<and> \<not> online_of 1 s"
  by code_simp

theorem link_events_alternate_witness:
  "\<exists>s m. poller_reach scripted (demo_registry, s, m) \<and> link_log 1 s = [True, False] \<and>
    alternates True (link_log 1 s) \<and> \<not> online_of 1 s"
proof -
  obtain s m where c: "poll_cycles 7 scripted demo_registry demo_poller demo_script = Some (s, m)"
    "link_log 1 s = [True, False]"
    using demo_run by (auto split: option.splits)
  have r: "poller_reach scripted (demo_registry, s, m)"
    by (rule reach_cycles [OF demo_reach c(1)]) (simp_all add: demo_registry_wf)
  show ?thesis using link_events_alternate [OF r, of 1] r c(2) by auto
qed

definition five_slaves :: "(device_profile list \<times> u8) option registry" where
  "five_slaves = demo_registry\<lparr>reg_profiles := map (\<lambda>a. default_profile\<lparr>dp_slave_addr := a\<rparr>) [1, 2, 3, 4, 5] @ replicate 3 zero_profile,
     reg_count := 5\<rparr>"

lemma live_five: "live five_slaves = map (\<lambda>a. default_profile\<lparr>dp_slave_addr := a\<rparr>) [1, 2, 3, 4, 5]"
  by (simp add: live_def five_slaves_def)

lemma five_wf: "registry_wf five_slaves" "reg_initialised five_slaves"
proof -
  have "profile_valid default_profile" using default_table_ok by (simp add: table_ok_def)
  then have "table_ok (live five_slaves)" unfolding live_five by (simp add: table_ok_def profile_valid_def)
  then show "registry_wf five_slaves" by (simp add: registry_wf_def) (simp add: five_slaves_def)
  show "reg_initialised five_slaves" by (simp add: five_slaves_def demo_registry_def)
qed

lemma five_run:
  "case poll_cycle scripted five_slaves demo_poller [] of
     None \<Rightarrow> False | Some (s, m) \<Rightarrow> slot_addrs s = [1, 2, 3, 4]"
  by code_simp

theorem later_slave_never_polled_witness:
  "\<exists>s m. poller_reach scripted (five_slaves, s, m) \<and>
    poll_slave scripted (default_profile\<lparr>dp_slave_addr := 5\<rparr>) s m = Some (s, m)"
proof -
  obtain s m where c: "poll_cycle scripted five_slaves demo_poller [] = Some (s, m)"
    "slot_addrs s = [1, 2, 3, 4]"
    using five_run by (auto split: option.splits)
  have r: "poller_reach scripted (five_slaves, s, m)"
    by (rule poller_reach.step [OF demo_reach [OF five_wf] poller_step.cycle [OF c(1)]])
  show ?thesis
    using later_slave_never_polled [OF r _ _ rtranclp.rtrancl_refl, of "default_profile\<lparr>dp_slave_addr := 5\<rparr>"] r c(2)
    by (auto simp: live_five)
qed

theorem record_is_debounce_witness:
  "\<exists>s'. s' = fold (record_poll_outcome 2)
      (map (\<lambda>b. if b then MODBUS_MASTER_ERR_OK else MODBUS_MASTER_ERR_CRC)
        [True, True, False, True, True, True, False, False, True, False, False, False])
      (upd_slave 2 (\<lambda>x. x\<lparr>sl_addr := 9\<rparr>) demo_poller) \<and>
    \<not> sl_online (pl_slaves s' ! 2) \<and> link_log 9 s' = [True, False]"
proof -
  let ?s = "upd_slave 2 (\<lambda>x. x\<lparr>sl_addr := 9\<rparr>) demo_poller"
  have s: "2 < length (pl_slaves ?s)" "pl_slaves ?s ! 2 = zero_slave\<lparr>sl_addr := 9\<rparr>" "link_log 9 ?s = []"
    by (simp_all add: upd_slave_def demo_poller_def modbus_poller_init_def idle_poller_def MODBUS_MAX_SLAVES_def
        link_log_def map_filter_simps)
  show ?thesis using record_is_debounce [OF s(1,2) refl refl] by (simp add: s(3) del: fold.simps fold_simps)
qed

end
