(* ===== verification/Modbus_Link.thy ===== *)
theory Modbus_Link
  imports Modbus_Master Modbus_Slave
begin

text \<open>
  The master, its UART driver and a slave on one bus.  Nothing here is code of the repository: the
  theory gives the port of the master a concrete instance, made of the driver of \<open>Modbus_Uart\<close>, the
  notification value of the kernel and a wire on which every exchange may go wrong in the ways a
  schedule says.  The locale \<open>bus_request\<close> states what a transaction relies on from the slave, and
  \<open>transact_lossy\<close> what the master then promises.
\<close>

section \<open>The wire\<close>

datatype line_fault =
    Deliver | Request_Lost | Request_Burst nat u8 u8 | Reply_Lost | Reply_Late
  | Reply_Burst nat u8 u8 | Reply_Broken nat | Tx_Stuck

text \<open>Two neighbouring bytes are changed.\<close>

definition burst :: "nat \<Rightarrow> u8 \<Rightarrow> u8 \<Rightarrow> u8 list \<Rightarrow> u8 list" where
  "burst i x y f = (if i + 1 < length f then f[i := f ! i XOR x, i + 1 := f ! (i + 1) XOR y] else f)"

text \<open>\<open>lk_value\<close> and \<open>lk_pending\<close> are the notification of the owner task, \<open>lk_now\<close> the interrupts of
  the running exchange, \<open>lk_late\<close> those that come after its time limit.\<close>

record 's link =
  lk_uart :: mb_uart
  lk_value :: u32
  lk_pending :: bool
  lk_now :: "uart_irq list"
  lk_late :: "uart_irq list"
  lk_faults :: "line_fault list"
  lk_peer :: 's

type_synonym 's bus_peer = "u8 list \<Rightarrow> 's \<Rightarrow> u8 list option \<times> 's"

definition frame_irqs :: "u8 list option \<Rightarrow> uart_irq list" where
  "frame_irqs reply = (case reply of None \<Rightarrow> [] | Some f \<Rightarrow> map irq_byte f @ [irq_end])"

text \<open>What the master's receiver gets, in time and late, and what the slave becomes.\<close>

definition exchange :: "'s bus_peer \<Rightarrow> line_fault \<Rightarrow> u8 list \<Rightarrow> 's \<Rightarrow> uart_irq list \<times> uart_irq list \<times> 's" where
  "exchange peer fault f s =
     (case fault of
        Deliver \<Rightarrow> (case peer f s of (r, s) \<Rightarrow> (frame_irqs r, [], s))
      | Request_Lost \<Rightarrow> ([], [], s)
      | Request_Burst i x y \<Rightarrow> (case peer (burst i x y f) s of (r, s) \<Rightarrow> (frame_irqs r, [], s))
      | Reply_Lost \<Rightarrow> ([], [], snd (peer f s))
      | Reply_Late \<Rightarrow> (case peer f s of (r, s) \<Rightarrow> ([], frame_irqs r, s))
      | Reply_Burst i x y \<Rightarrow> (case peer f s of (r, s) \<Rightarrow> (frame_irqs (map_option (burst i x y) r), [], s))
      | Reply_Broken n \<Rightarrow> (case peer f s of (r, s) \<Rightarrow>
          (case r of None \<Rightarrow> [] | Some g \<Rightarrow> map irq_byte (take n g) @ [irq_break], [], s))
      | Tx_Stuck \<Rightarrow> ([], [], s))"

definition link_line :: "(u8 list \<times> bool) uart_line" where
  "link_line = \<lparr>line_put = \<lambda>b (out, ok). (ok, (out @ [b], ok)), line_tc = \<lambda>(out, ok). (ok, (out, ok))\<rparr>"

definition link_fault :: "'s link \<Rightarrow> line_fault" where
  "link_fault l = (case lk_faults l of [] \<Rightarrow> Deliver | f # _ \<Rightarrow> f)"

definition link_transmit :: "'s bus_peer \<Rightarrow> u8 list \<Rightarrow> 's link \<Rightarrow> modbus_uart_err \<times> 's link" where
  "link_transmit peer wire l =
     (let fault = link_fault l;
          (e, u, (out, _)) = modbus_uart_transmit link_line wire (lk_uart l) ([], fault \<noteq> Tx_Stuck);
          (now, late, s) = (if e = MODBUS_UART_OK then exchange peer fault out (lk_peer l) else ([], [], lk_peer l))
      in (e, l\<lparr>lk_uart := u, lk_now := now, lk_late := late, lk_faults := tl (lk_faults l), lk_peer := s\<rparr>))"

definition notify_events :: "modbus_uart_event list \<Rightarrow> u32 \<Rightarrow> u32" where
  "notify_events evs v =
     fold (\<lambda>e v. case mbm_uart_rx_callback e True of None \<Rightarrow> v | Some bits \<Rightarrow> v OR bits) evs v"

text \<open>A poll (\<open>ms = 0\<close>) finds what came late, a wait ends with what arrives in time.\<close>

definition link_wait :: "u32 \<Rightarrow> u32 \<Rightarrow> 's link \<Rightarrow> u32 option \<times> 's link" where
  "link_wait clear ms l =
     (let (evs, u) = run_irqs (if ms = 0 then lk_late l else lk_now l) (lk_uart l);
          v = notify_events evs (lk_value l);
          l = l\<lparr>lk_uart := u, lk_now := [], lk_late := (if ms = 0 then [] else lk_late l)\<rparr>
      in if lk_pending l \<or> evs \<noteq> []
         then (Some v, l\<lparr>lk_value := v AND NOT clear, lk_pending := False\<rparr>)
         else (None, l\<lparr>lk_value := v\<rparr>))"

definition link_get_rx :: "'s link \<Rightarrow> (modbus_uart_err \<times> u8 list) \<times> 's link" where
  "link_get_rx l = (case modbus_uart_get_rx_frame (lk_uart l) of (r, u) \<Rightarrow> (r, l\<lparr>lk_uart := u\<rparr>))"

definition link_port :: "'s bus_peer \<Rightarrow> 's link mbm_port" where
  "link_port peer = \<lparr>mp_wait = link_wait, mp_transmit = link_transmit peer, mp_get_rx_frame = link_get_rx,
     mp_attach_rx = \<lambda>l. l\<lparr>lk_uart := modbus_uart_attach_rx (lk_uart l)\<rparr>\<rparr>"

text \<open>Between two attempts the receiver is empty, up to a reply that is still to come.\<close>

definition link_ready :: "'s link \<Rightarrow> bool" where
  "link_ready l \<longleftrightarrow> mb_uart_idle (lk_uart l) \<and> lk_value l = 0 \<and> \<not> lk_pending l \<and>
     (\<exists>r. lk_late l = frame_irqs r \<and> (\<forall>f. r = Some f \<longrightarrow> 1 \<le> length f \<and> length f \<le> 256))"

definition link_quiet :: "'s link \<Rightarrow> bool" where
  "link_quiet l \<longleftrightarrow> mb_uart_idle (lk_uart l) \<and> lk_value l = 0 \<and> \<not> lk_pending l \<and> lk_late l = []"

lemma quiet_ready: "link_quiet l \<Longrightarrow> link_ready l"
  unfolding link_quiet_def link_ready_def frame_irqs_def
  by (auto intro!: exI [of _ None])

lemma notify_one [simp]:
  "notify_events [MODBUS_UART_EVENT_RX_DONE] 0 = 1" "notify_events [MODBUS_UART_EVENT_RX_ERROR] 0 = 2"
  "notify_events [] v = v"
  by (simp_all add: notify_events_def mbm_uart_rx_callback_def NOTIFY_RX_DONE_def NOTIFY_RX_ERROR_def)

lemma idle_get: "mb_uart_idle u \<Longrightarrow> modbus_uart_get_rx_frame u = ((MODBUS_UART_OK, []), u)"
  by (simp add: modbus_uart_get_rx_frame_def mb_uart_idle_def)

text \<open>The flush throws a late reply away.\<close>

lemma flush_ready:
  assumes "link_ready l"
  obtains l' where "mbm_flush_stale_rx (link_port peer) l = l'" "link_quiet l'"
    "lk_faults l' = lk_faults l" "lk_peer l' = lk_peer l"
proof -
  obtain r where r: "lk_late l = frame_irqs r" "\<And>f. r = Some f \<Longrightarrow> 1 \<le> length f \<and> length f \<le> 256"
    using assms by (auto simp: link_ready_def)
  have idle: "mb_uart_idle (lk_uart l)" "lk_value l = 0" "\<not> lk_pending l"
    using assms by (simp_all add: link_ready_def)
  show thesis
  proof (cases r)
    case None
    then show thesis using idle r(1) that
      by (simp add: mbm_flush_stale_rx_def link_port_def link_wait_def link_get_rx_def frame_irqs_def
          idle_get link_quiet_def)
  next
    case (Some f)
    obtain u1 u2 where "run_irqs (map irq_byte f @ [irq_end]) (lk_uart l) = ([MODBUS_UART_EVENT_RX_DONE], u1)"
      "modbus_uart_get_rx_frame u1 = ((MODBUS_UART_OK, f), u2)" "mb_uart_idle u2"
      using receive_frame [OF idle(1), of f] r(2) [OF Some] by metis
    then show thesis using idle r(1) that
      by (simp add: mbm_flush_stale_rx_def link_port_def link_wait_def link_get_rx_def frame_irqs_def
          Some link_quiet_def NOTIFY_ALL_BITS_def)
  qed
qed

text \<open>The transmitter sends the frame as it is, or nothing.\<close>

lemma put_bytes_line:
  "mbuart_put_bytes link_line f (out, True) = (MODBUS_UART_OK, (out @ f, True))"
  "f \<noteq> [] \<Longrightarrow> fst (mbuart_put_bytes link_line f (out, False)) = MODBUS_UART_ERR_TIMEOUT"
proof -
  show "mbuart_put_bytes link_line f (out, True) = (MODBUS_UART_OK, (out @ f, True))"
    by (induction f arbitrary: out) (simp_all add: link_line_def)
  show "f \<noteq> [] \<Longrightarrow> fst (mbuart_put_bytes link_line f (out, False)) = MODBUS_UART_ERR_TIMEOUT"
    by (cases f) (simp_all add: link_line_def)
qed

lemma link_transmit_eq:
  assumes "link_quiet l" "f \<noteq> []" "length f \<le> 256"
  shows "link_transmit peer f l =
    (if link_fault l = Tx_Stuck
     then (MODBUS_UART_ERR_TIMEOUT, l\<lparr>lk_now := [], lk_late := [], lk_faults := tl (lk_faults l)\<rparr>)
     else (case exchange peer (link_fault l) f (lk_peer l) of (now, late, s) \<Rightarrow>
       (MODBUS_UART_OK, l\<lparr>lk_now := now, lk_late := late, lk_faults := tl (lk_faults l), lk_peer := s\<rparr>)))"
proof -
  have u: "\<not> mu_tx_busy (lk_uart l)" "(lk_uart l)\<lparr>mu_tx_busy := False\<rparr> = lk_uart l"
    using assms(1) by (simp_all add: link_quiet_def mb_uart_idle_def)
  have tc: "line_tc link_line (out, ok) = (ok, (out, ok))" for out ok by (simp add: link_line_def)
  obtain h where "mbuart_put_bytes link_line f ([], False) = (MODBUS_UART_ERR_TIMEOUT, h)"
    using put_bytes_line(2) [OF assms(2)] by (metis prod.collapse)
  then show ?thesis
    using assms u put_bytes_line(1) [of f "[]"]
    by (cases "link_fault l = Tx_Stuck")
       (simp_all add: link_transmit_def modbus_uart_transmit_def MODBUS_UART_BUF_SIZE_def tc Let_def
          split_def)
qed

section \<open>Checking a response\<close>

text \<open>What the master makes of the payload of a response whose CRC is correct.\<close>

definition decode_reply :: "modbus_frame \<Rightarrow> u8 list \<Rightarrow> modbus_frame \<Rightarrow> modbus_master_err \<times> modbus_frame" where
  "decode_reply req p resp =
     (if p ! 0 \<noteq> mf_slave_addr req then (MODBUS_MASTER_ERR_BAD_RESPONSE, resp)
      else if p ! 1 = mf_function_code req OR 0x80 then
        (MODBUS_MASTER_ERR_EXCEPTION, resp\<lparr>mf_slave_addr := p ! 0, mf_function_code := p ! 1,
           mf_data := (mf_data resp)[0 := p ! 2], mf_data_len := 1\<rparr>)
      else if p ! 1 \<noteq> mf_function_code req then (MODBUS_MASTER_ERR_BAD_RESPONSE, resp)
      else (MODBUS_MASTER_ERR_OK, resp\<lparr>mf_slave_addr := p ! 0, mf_function_code := p ! 1,
              mf_data_len := of_nat (length p - 2), mf_data := drop 2 p @ drop (length p - 2) (mf_data resp)\<rparr>))"

lemma crc_field:
  "4 \<le> length f \<Longrightarrow>
   mbm_crc16 (take (length f - 2) f) = ucast (f ! (length f - 2)) OR push_bit 8 (ucast (f ! (length f - 2 + 1)))
     \<longleftrightarrow> frame_crc_ok f"
  by (simp add: mbm_crc16_eq frame_crc_ok_def cfl_get_u16_def)

lemma check_bad_crc:
  assumes "4 \<le> length f" "\<not> frame_crc_ok f"
  shows "\<exists>s'. mbm_check_response req f resp s = (Inl MODBUS_MASTER_ERR_CRC, s')"
  using assms crc_field [OF assms(1)] by (simp add: mbm_check_response_def Let_def)

lemma check_good_crc:
  assumes "3 \<le> length p"
  shows "\<exists>s'. mbm_check_response req (rtu p) resp s = (Inr (decode_reply req p resp), s')"
proof -
  have l: "length (rtu p) - 2 = length p" "p \<noteq> []" using assms by auto
  have nth: "rtu p ! i = p ! i" if "i < length p" for i using that by (simp add: rtu_def nth_append)
  have td: "take (length p - 2) (drop 2 (rtu p)) = drop 2 p" using assms by (simp add: rtu_def)
  have c: "mbm_crc16 (take (length (rtu p) - 2) (rtu p)) =
      ucast (rtu p ! (length (rtu p) - 2)) OR push_bit 8 (ucast (rtu p ! (length (rtu p) - 2 + 1)))"
    using crc_field [of "rtu p"] assms by simp
  show ?thesis
    using c assms nth [of 0] nth [of 1] nth [of 2] td l(2)
    unfolding mbm_check_response_def Let_def decode_reply_def l(1)
    by (simp add: l(2))
qed

lemma map_irq_byte_inj [simp]: "map irq_byte f = map irq_byte g \<longleftrightarrow> f = g"
proof -
  have "inj irq_byte" by (rule injI) (simp add: irq_byte_def)
  then show ?thesis by (simp add: inj_map_eq_map)
qed

text \<open>The three ways a wait ends.\<close>

definition wait_bits :: u32 where "wait_bits = NOTIFY_RX_DONE OR NOTIFY_RX_ERROR"

definition late_ok :: "uart_irq list \<Rightarrow> bool" where
  "late_ok late \<longleftrightarrow> (\<exists>r. late = frame_irqs r \<and> (\<forall>f. r = Some f \<longrightarrow> 1 \<le> length f \<and> length f \<le> 256))"

lemma ready_iff:
  "link_ready l \<longleftrightarrow> mb_uart_idle (lk_uart l) \<and> lk_value l = 0 \<and> \<not> lk_pending l \<and> late_ok (lk_late l)"
  by (simp add: link_ready_def late_ok_def)

lemma wait_nothing:
  assumes "link_ready l" "lk_now l = []" "ms \<noteq> 0"
  shows "link_wait clear ms l = (None, l)"
  using assms by (simp add: link_wait_def ready_iff)

lemma wait_break:
  assumes "link_ready l" "lk_now l = map irq_byte f @ [irq_break]" "length f \<le> 256" "ms \<noteq> 0"
  obtains l' where "link_wait wait_bits ms l = (Some 2, l')" "link_ready l'"
    "lk_faults l' = lk_faults l" "lk_peer l' = lk_peer l"
proof -
  obtain u where "run_irqs (map irq_byte f @ [irq_break]) (lk_uart l) = ([MODBUS_UART_EVENT_RX_ERROR], u)"
    "mb_uart_idle u"
    using receive_break [of "lk_uart l" f] assms(1,3) by (auto simp: ready_iff)
  with assms that show thesis
    by (simp add: link_wait_def ready_iff wait_bits_def NOTIFY_RX_DONE_def NOTIFY_RX_ERROR_def)
qed

lemma wait_frame:
  assumes "link_ready l" "lk_now l = map irq_byte f @ [irq_end]" "1 \<le> length f" "length f \<le> 256" "ms \<noteq> 0"
  obtains l1 l2 where "link_wait wait_bits ms l = (Some 1, l1)" "link_get_rx l1 = ((MODBUS_UART_OK, f), l2)"
    "link_ready l2" "lk_faults l2 = lk_faults l" "lk_peer l2 = lk_peer l"
proof -
  obtain u1 u2 where u: "run_irqs (map irq_byte f @ [irq_end]) (lk_uart l) = ([MODBUS_UART_EVENT_RX_DONE], u1)"
    "modbus_uart_get_rx_frame u1 = ((MODBUS_UART_OK, f), u2)" "mb_uart_idle u2"
    using receive_frame [of "lk_uart l" f] assms(1,3,4) unfolding ready_iff by metis
  have l: "lk_value l = 0" "\<not> lk_pending l" "late_ok (lk_late l)" using assms(1) by (simp_all add: ready_iff)
  have "link_wait wait_bits ms l = (Some 1, l\<lparr>lk_uart := u1, lk_now := [], lk_value := 0, lk_pending := False\<rparr>)"
    using l assms(2,5) u(1)
    by (simp add: link_wait_def wait_bits_def NOTIFY_RX_DONE_def NOTIFY_RX_ERROR_def)
  moreover have "link_get_rx (l\<lparr>lk_uart := u1, lk_now := [], lk_value := 0, lk_pending := False\<rparr>) =
      ((MODBUS_UART_OK, f), l\<lparr>lk_uart := u2, lk_now := [], lk_value := 0, lk_pending := False\<rparr>)"
    using u(2) by (simp add: link_get_rx_def)
  ultimately show thesis
    by (rule that) (use u(3) l in \<open>simp_all add: ready_iff\<close>)
qed

text \<open>A clean exchange ends the transaction at once.\<close>

lemma clean_transaction:
  assumes "link_ready l" "link_fault l = Deliver" "mm_started m" "mm_response_timeout_ms m \<noteq> 0"
    and "mbm_build_wire_frame req = wire" "wire \<noteq> []" "length wire \<le> 256" "unat (mf_data_len req) \<le> 252"
    and "peer wire (lk_peer l) = (Some (rtu p), s')" "3 \<le> length p" "length p \<le> 254"
  obtains m' l' where "modbus_master_transact (link_port peer) (Some req) (Some resp) m l =
      Some (fst (decode_reply req p resp), Some (snd (decode_reply req p resp)), m', l')"
    "link_ready l'" "lk_peer l' = s'" "lk_faults l' = tl (lk_faults l)"
proof -
  obtain l1 where l1: "mbm_flush_stale_rx (link_port peer) l = l1" "link_quiet l1"
    "lk_faults l1 = lk_faults l" "lk_peer l1 = lk_peer l"
    by (rule flush_ready [OF assms(1)])
  define m1 where "m1 = upd_stats (\<lambda>c. c\<lparr>mst_transactions_sent := mst_transactions_sent c + 1\<rparr>) m"
  have ms: "mm_response_timeout_ms m1 \<noteq> 0" using assms(4) by (simp add: m1_def upd_stats_def)
  have port: "mp_wait (link_port peer) = link_wait" "mp_transmit (link_port peer) = link_transmit peer"
    "mp_get_rx_frame (link_port peer) = link_get_rx" by (simp_all add: link_port_def)
  note att = mbm_attempt_def [of "link_port peer" req wire resp m l, folded m1_def wait_bits_def,
      unfolded l1(1) Let_def port]
  define l2 where "l2 = l1\<lparr>lk_now := map irq_byte (rtu p) @ [irq_end], lk_late := [],
    lk_faults := tl (lk_faults l1), lk_peer := s'\<rparr>"
  have t: "link_transmit peer wire l1 = (MODBUS_UART_OK, l2)"
    using assms(2,9) l1(3,4)
    by (simp add: link_transmit_eq [OF l1(2) assms(6,7)] link_fault_def exchange_def l2_def frame_irqs_def)
  have l2: "link_ready l2" "lk_now l2 = map irq_byte (rtu p) @ [irq_end]"
    using l1(2) quiet_ready [of l2] by (simp_all add: l2_def link_quiet_def)
  have len: "1 \<le> length (rtu p)" "length (rtu p) \<le> 256" "\<not> length (rtu p) < 4" using assms(10,11) by simp_all
  obtain l3 l4 where l4: "link_wait wait_bits (mm_response_timeout_ms m1) l2 = (Some 1, l3)"
    "link_get_rx l3 = ((MODBUS_UART_OK, rtu p), l4)" "link_ready l4" "lk_faults l4 = lk_faults l2" "lk_peer l4 = lk_peer l2"
    by (rule wait_frame [OF l2 len(1,2) ms])
  obtain m' where "mbm_check_response req (rtu p) resp m1 = (Inr (decode_reply req p resp), m')"
    using check_good_crc [OF assms(10)] by blast
  then have "mbm_attempt (link_port peer) req wire resp m l = (Inr (decode_reply req p resp), m', l4)"
    using len(3) t l4(1,2) by (simp add: att NOTIFY_RX_ERROR_def)
  then have "mbm_retry (link_port peer) req wire 0 MODBUS_MASTER_ERR_TIMEOUT resp m l =
      Some (fst (decode_reply req p resp), snd (decode_reply req p resp), m', l4)"
    by (subst mbm_retry.simps) (simp split: prod.splits)
  then show thesis
    using assms(3,5,8) l4 by (intro that [of m' l4])
      (simp_all add: modbus_master_transact_def MODBUS_MAX_DATA_BYTES_def l2_def l1(3))
qed

section \<open>What a transaction relies on\<close>

lemma burst_cases:
  obtains "burst i x y f = f"
  | xs a b ys a' b' where "f = xs @ [a, b] @ ys" "burst i x y f = xs @ [a', b'] @ ys" "(a, b) \<noteq> (a', b')"
proof (cases "i + 1 < length f \<and> burst i x y f \<noteq> f")
  case True
  let ?xs = "take i f" and ?ys = "drop (i + 2) f"
  have f: "f = ?xs @ [f ! i, f ! (i + 1)] @ ?ys"
    using True id_take_nth_drop [of i f] Cons_nth_drop_Suc [of "Suc i" f] by simp
  have l: "length ?xs = i" using True by simp
  have "burst i x y f = (?xs @ [f ! i, f ! (i + 1)] @ ?ys)[i := f ! i XOR x, i + 1 := f ! (i + 1) XOR y]"
    using f True by (simp add: burst_def)
  also have "\<dots> = ?xs @ [f ! i XOR x, f ! (i + 1) XOR y] @ ?ys"
    using l by (simp add: list_update_append)
  finally have b: "burst i x y f = ?xs @ [f ! i XOR x, f ! (i + 1) XOR y] @ ?ys" .
  with f True have "(f ! i, f ! (i + 1)) \<noteq> (f ! i XOR x, f ! (i + 1) XOR y)" by auto
  from that(2) [OF f b this] show thesis .
next
  case False
  then show thesis using that(1) by (auto simp: burst_def)
qed

lemma length_burst [simp]: "length (burst i x y f) = length f"
  by (simp add: burst_def)

definition link_errors :: "modbus_master_err set" where
  "link_errors = {MODBUS_MASTER_ERR_TIMEOUT, MODBUS_MASTER_ERR_CRC, MODBUS_MASTER_ERR_RX_ERROR}"

text \<open>The schedule of a link whose list is used up delivers.\<close>

definition fault_at :: "nat \<Rightarrow> 's link \<Rightarrow> line_fault" where
  "fault_at i l = (if i < length (lk_faults l) then lk_faults l ! i else Deliver)"

text \<open>
  A request \<open>wire\<close> to a slave in a state of \<open>S\<close>: the slave answers it with one frame, and is then in
  \<open>S\<close> again with \<open>Q\<close> of its state and the payload of the answer; a damaged request is not answered
  and leaves it in \<open>S\<close>.
\<close>

locale bus_request =
  fixes peer :: "'s bus_peer" and wire :: "u8 list" and S :: "'s \<Rightarrow> bool" and Q :: "'s \<Rightarrow> u8 list \<Rightarrow> bool"
  assumes wire_len: "S s \<Longrightarrow> wire \<noteq> [] \<and> length wire \<le> 256"
    and answered: "S s \<Longrightarrow> \<exists>p s'. peer wire s = (Some (rtu p), s') \<and> S s' \<and> Q s' p \<and> 3 \<le> length p \<and> length p \<le> 254"
    and damaged: "S s \<Longrightarrow> wire = xs @ [a, b] @ ys \<Longrightarrow> (a, b) \<noteq> (a', b') \<Longrightarrow>
      fst (peer (xs @ [a', b'] @ ys) s) = None \<and> S (snd (peer (xs @ [a', b'] @ ys) s))"
begin

definition arrival :: "uart_irq list \<Rightarrow> 's \<Rightarrow> bool" where
  "arrival now s' \<longleftrightarrow> now = [] \<or>
     (\<exists>f. length f \<le> 256 \<and> now = map irq_byte f @ [irq_break]) \<or>
     (\<exists>f. 4 \<le> length f \<and> length f \<le> 256 \<and> \<not> frame_crc_ok f \<and> now = map irq_byte f @ [irq_end]) \<or>
     (\<exists>p. Q s' p \<and> 3 \<le> length p \<and> length p \<le> 254 \<and> now = map irq_byte (rtu p) @ [irq_end])"

lemma exchange_arrival:
  assumes "S s" "exchange peer fault wire s = (now, late, s')"
  shows "S s' \<and> arrival now s' \<and>
    (\<exists>r. late = frame_irqs r \<and> (\<forall>f. r = Some f \<longrightarrow> 1 \<le> length f \<and> length f \<le> 256)) \<and>
    (fault = Deliver \<longrightarrow> (\<exists>p. Q s' p \<and> 3 \<le> length p \<and> length p \<le> 254 \<and> now = map irq_byte (rtu p) @ [irq_end]))"
proof -
  obtain p t where w: "peer wire s = (Some (rtu p), t)" "S t" "Q t p" "3 \<le> length p" "length p \<le> 254"
    using answered [OF assms(1)] by blast
  have no_late: "\<exists>r. [] = frame_irqs r \<and> (\<forall>f. r = Some f \<longrightarrow> 1 \<le> length f \<and> length f \<le> 256)"
    by (rule exI [of _ None]) (simp add: frame_irqs_def)
  have good: "arrival (map irq_byte (rtu p) @ [irq_end]) t" using w by (auto simp: arrival_def)
  have none: "arrival [] v" for v by (simp add: arrival_def)
  show ?thesis
  proof (cases fault)
    case Deliver
    then show ?thesis using assms w good no_late by (auto simp: exchange_def frame_irqs_def)
  next
    case (Request_Burst i x y)
    consider "burst i x y wire = wire" | xs a b ys a' b' where
      "wire = xs @ [a, b] @ ys" "burst i x y wire = xs @ [a', b'] @ ys" "(a, b) \<noteq> (a', b')"
      by (rule burst_cases [of i x y wire]) blast+
    then show ?thesis
    proof cases
      case 1
      then show ?thesis using assms w good no_late Request_Burst by (auto simp: exchange_def frame_irqs_def)
    next
      case 2
      obtain v where "peer (burst i x y wire) s = (None, v)" "S v"
        using damaged [OF assms(1) 2(1,3)] 2(2) by (metis prod.collapse)
      then show ?thesis using assms(2) none no_late Request_Burst by (auto simp: exchange_def frame_irqs_def)
    qed
  next
    case (Reply_Burst i x y)
    consider "burst i x y (rtu p) = rtu p" | "\<not> frame_crc_ok (burst i x y (rtu p))"
      using burst_cases [of i x y "rtu p"] burst_breaks_frame by metis
    then show ?thesis
    proof cases
      case 1
      then show ?thesis using assms(2) w good no_late Reply_Burst by (auto simp: exchange_def frame_irqs_def)
    next
      case 2
      then have "arrival (map irq_byte (burst i x y (rtu p)) @ [irq_end]) t"
        using w unfolding arrival_def by (intro disjI2 disjI1) (auto intro!: exI [of _ "burst i x y (rtu p)"])
      then show ?thesis using assms(2) w no_late Reply_Burst by (auto simp: exchange_def frame_irqs_def)
    qed
  next
    case (Reply_Broken n)
    have "arrival (map irq_byte (take n (rtu p)) @ [irq_break]) t"
      using w unfolding arrival_def by (intro disjI2 disjI1) (auto intro!: exI [of _ "take n (rtu p)"])
    then show ?thesis using assms(2) w no_late Reply_Broken by (auto simp: exchange_def)
  next
    case Reply_Late
    then show ?thesis using assms(2) w none by (auto simp: exchange_def intro!: exI [of _ "Some (rtu p)"])
  qed (use assms w none no_late in \<open>auto simp: exchange_def\<close>)
qed

text \<open>One attempt: an answer of the slave, or an error that is retried.\<close>

definition good_reply :: "modbus_frame \<Rightarrow> modbus_frame \<Rightarrow> modbus_master_err \<times> modbus_frame \<Rightarrow> 's \<Rightarrow> bool" where
  "good_reply req resp er s' \<longleftrightarrow> (\<exists>p. Q s' p \<and> er = decode_reply req p resp)"

lemma attempt_lossy:
  assumes "link_ready l" "S (lk_peer l)" "mm_response_timeout_ms m \<noteq> 0"
  obtains r m' l' where "mbm_attempt (link_port peer) req wire resp m l = (r, m', l')"
    "link_ready l'" "S (lk_peer l')" "lk_faults l' = tl (lk_faults l)"
    "(\<exists>er. r = Inr er \<and> good_reply req resp er (lk_peer l')) \<or>
     (\<exists>e \<in> link_errors. r = Inl e \<and> link_fault l \<noteq> Deliver)"
proof -
  obtain l1 where l1: "mbm_flush_stale_rx (link_port peer) l = l1" "link_quiet l1"
    "lk_faults l1 = lk_faults l" "lk_peer l1 = lk_peer l"
    by (rule flush_ready [OF assms(1)])
  have wl: "wire \<noteq> []" "length wire \<le> 256" using wire_len [OF assms(2)] by simp_all
  have fault: "link_fault l1 = link_fault l" using l1(3) by (simp add: link_fault_def)
  have port: "mp_wait (link_port peer) = link_wait" "mp_transmit (link_port peer) = link_transmit peer"
    "mp_get_rx_frame (link_port peer) = link_get_rx" by (simp_all add: link_port_def)
  define m1 where "m1 = upd_stats (\<lambda>c. c\<lparr>mst_transactions_sent := mst_transactions_sent c + 1\<rparr>) m"
  have ms: "mm_response_timeout_ms m1 \<noteq> 0" using assms(3) by (simp add: m1_def upd_stats_def)
  note att = mbm_attempt_def [of "link_port peer" req wire resp m l, folded m1_def wait_bits_def,
      unfolded l1(1) Let_def port]
  show thesis
  proof (cases "link_fault l = Tx_Stuck")
    case True
    let ?l = "l1\<lparr>lk_now := [], lk_late := [], lk_faults := tl (lk_faults l1)\<rparr>"
    have "link_transmit peer wire l1 = (MODBUS_UART_ERR_TIMEOUT, ?l)"
      using True by (simp add: link_transmit_eq [OF l1(2) wl] fault)
    then have "\<exists>m'. mbm_attempt (link_port peer) req wire resp m l = (Inl MODBUS_MASTER_ERR_TIMEOUT, m', ?l)"
      by (simp add: att)
    moreover have "link_ready ?l" by (rule quiet_ready) (use l1(2) in \<open>simp add: link_quiet_def\<close>)
    ultimately show thesis using True that l1(3,4) assms(2) by (auto simp: link_errors_def)
  next
    case False
    obtain now late s' where ex: "exchange peer (link_fault l) wire (lk_peer l) = (now, late, s')"
      by (metis surj_pair)
    note arr = exchange_arrival [OF assms(2) ex]
    define l2 where "l2 = l1\<lparr>lk_now := now, lk_late := late, lk_faults := tl (lk_faults l1), lk_peer := s'\<rparr>"
    have t: "link_transmit peer wire l1 = (MODBUS_UART_OK, l2)"
      using False by (simp add: link_transmit_eq [OF l1(2) wl] fault l1(4) ex l2_def)
    have l2: "link_ready l2" "lk_now l2 = now" "S (lk_peer l2)" "lk_faults l2 = tl (lk_faults l)" "lk_peer l2 = s'"
      using l1 arr by (simp_all add: l2_def ready_iff late_ok_def link_quiet_def)
    note att2 = att [unfolded t prod.case]
    from arr have "arrival now s'" by simp
    then consider "now = []" | f where "length f \<le> 256" "now = map irq_byte f @ [irq_break]"
      | f where "4 \<le> length f" "length f \<le> 256" "\<not> frame_crc_ok f" "now = map irq_byte f @ [irq_end]"
      | p where "Q s' p" "3 \<le> length p" "length p \<le> 254" "now = map irq_byte (rtu p) @ [irq_end]"
      unfolding arrival_def by blast
    then show thesis
    proof cases
      case 1
      have d: "link_fault l \<noteq> Deliver" using arr 1 by auto
      have "\<exists>m'. mbm_attempt (link_port peer) req wire resp m l = (Inl MODBUS_MASTER_ERR_TIMEOUT, m', l2)"
        by (simp add: att2 wait_nothing [OF l2(1) l2(2) [unfolded 1] ms])
      then show thesis using that l2 d by (auto simp: link_errors_def)
    next
      case (2 f)
      have d: "link_fault l \<noteq> Deliver" using arr 2 by (auto simp: irq_end_def irq_break_def)
      obtain l3 where l3: "link_wait wait_bits (mm_response_timeout_ms m1) l2 = (Some 2, l3)" "link_ready l3"
        "lk_faults l3 = lk_faults l2" "lk_peer l3 = lk_peer l2"
        by (rule wait_break [OF l2(1) l2(2) [unfolded 2(2)] 2(1) ms])
      have "\<exists>m'. mbm_attempt (link_port peer) req wire resp m l = (Inl MODBUS_MASTER_ERR_RX_ERROR, m', l3)"
        by (simp add: att2 l3(1) NOTIFY_RX_ERROR_def)
      then show thesis using that l2 l3 d by (auto simp: link_errors_def)
    next
      case (3 f)
      have d: "link_fault l \<noteq> Deliver" using arr 3 by auto
      obtain l3 l4 where l4: "link_wait wait_bits (mm_response_timeout_ms m1) l2 = (Some 1, l3)"
        "link_get_rx l3 = ((MODBUS_UART_OK, f), l4)" "link_ready l4" "lk_faults l4 = lk_faults l2" "lk_peer l4 = lk_peer l2"
        by (rule wait_frame [OF l2(1) l2(2) [unfolded 3(4)] _ 3(2) ms]) (use 3(1) in simp)
      obtain m' where "mbm_check_response req f resp m1 = (Inl MODBUS_MASTER_ERR_CRC, m')"
        using check_bad_crc [OF 3(1,3)] by blast
      then have "mbm_attempt (link_port peer) req wire resp m l = (Inl MODBUS_MASTER_ERR_CRC, m', l4)"
        using 3(1) by (simp add: att2 l4(1,2) NOTIFY_RX_ERROR_def)
      then show thesis using that l2 l4 d by (auto simp: link_errors_def)
    next
      case (4 p)
      have len: "1 \<le> length (rtu p)" "length (rtu p) \<le> 256" "\<not> length (rtu p) < 4" using 4(2,3) by simp_all
      obtain l3 l4 where l4: "link_wait wait_bits (mm_response_timeout_ms m1) l2 = (Some 1, l3)"
        "link_get_rx l3 = ((MODBUS_UART_OK, rtu p), l4)" "link_ready l4" "lk_faults l4 = lk_faults l2" "lk_peer l4 = lk_peer l2"
        by (rule wait_frame [OF l2(1) l2(2) [unfolded 4(4)] len(1,2) ms])
      obtain m' where "mbm_check_response req (rtu p) resp m1 = (Inr (decode_reply req p resp), m')"
        using check_good_crc [OF 4(2)] by blast
      then have "mbm_attempt (link_port peer) req wire resp m l = (Inr (decode_reply req p resp), m', l4)"
        using len(3) by (simp add: att2 l4(1,2) NOTIFY_RX_ERROR_def)
      moreover have "good_reply req resp (decode_reply req p resp) (lk_peer l4)"
        unfolding good_reply_def using 4(1) l2(5) l4(5) by (intro exI [of _ p]) simp
      moreover have "S (lk_peer l4)" "lk_faults l4 = tl (lk_faults l)" using l2 l4 by simp_all
      ultimately show thesis by (intro that [OF _ l4(3)]) blast+
    qed
  qed
qed

text \<open>The whole transaction.\<close>

lemma retry_lossy:
  assumes "link_ready l" "S (lk_peer l)" "mm_response_timeout_ms m \<noteq> 0" "mm_max_retries m < 255"
    and "unat a \<le> unat (mm_max_retries m)"
  shows "\<exists>e r m' l'. mbm_retry (link_port peer) req wire a e0 resp m l = Some (e, r, m', l') \<and>
    link_ready l' \<and> S (lk_peer l') \<and>
    (good_reply req resp (e, r) (lk_peer l') \<or>
     e \<in> link_errors \<and> r = resp \<and> (\<forall>i. i \<le> unat (mm_max_retries m) - unat a \<longrightarrow> fault_at i l \<noteq> Deliver))"
  using assms
proof (induction "unat (mm_max_retries m) - unat a" arbitrary: a e0 m l)
  case 0
  obtain r m' l' where at: "mbm_attempt (link_port peer) req wire resp m l = (r, m', l')"
    "link_ready l'" "S (lk_peer l')" "lk_faults l' = tl (lk_faults l)"
    "(\<exists>er. r = Inr er \<and> good_reply req resp er (lk_peer l')) \<or>
     (\<exists>e \<in> link_errors. r = Inl e \<and> link_fault l \<noteq> Deliver)"
    by (rule attempt_lossy [OF 0(2-4)])
  have eq: "a = mm_max_retries m" using 0 by (simp add: word_unat_eq_iff)
  have big: "\<not> a + 1 \<le> mm_max_retries m"
    using 0(5) by (simp add: eq word_le_nat_alt word_less_nat_alt unat_word_ariths)
  have m': "mm_max_retries m' = mm_max_retries m" by (rule attempted_config [OF attempt_counts [OF at(1)]])
  have f0: "fault_at 0 l = link_fault l" by (cases "lk_faults l") (simp_all add: fault_at_def link_fault_def)
  show ?case
  proof (cases r)
    case (Inl e)
    have "mbm_retry (link_port peer) req wire a e0 resp m l = mbm_retry (link_port peer) req wire (a + 1) e resp m' l'"
      by (subst mbm_retry.simps) (simp add: at(1) Inl eq)
    also have "\<dots> = Some (e, resp, m', l')"
      by (subst mbm_retry.simps) (use big m' in simp)
    finally show ?thesis using at(2,3,5) Inl f0 eq by auto
  next
    case (Inr er)
    then have "mbm_retry (link_port peer) req wire a e0 resp m l = Some (fst er, snd er, m', l')"
      by (subst mbm_retry.simps) (simp add: at(1) eq split: prod.splits)
    then show ?thesis using at(2,3,5) Inr by auto
  qed
next
  case (Suc n)
  obtain r m' l' where at: "mbm_attempt (link_port peer) req wire resp m l = (r, m', l')"
    "link_ready l'" "S (lk_peer l')" "lk_faults l' = tl (lk_faults l)"
    "(\<exists>er. r = Inr er \<and> good_reply req resp er (lk_peer l')) \<or>
     (\<exists>e \<in> link_errors. r = Inl e \<and> link_fault l \<noteq> Deliver)"
    by (rule attempt_lossy [OF Suc(3-5)])
  have le: "a \<le> mm_max_retries m" using Suc.prems(5) by (simp add: word_le_nat_alt)
  have lt: "unat a + 1 \<le> unat (mm_max_retries m)" "unat a + 1 < 255"
    using Suc.hyps(2) Suc.prems(4) by (simp_all add: word_less_nat_alt)
  have a1: "unat (a + 1) = unat a + 1" using lt(2) by (simp add: unat_word_ariths)
  have att: "attempted m m'" by (rule attempt_counts [OF at(1)])
  then have m': "mm_max_retries m' = mm_max_retries m" "mm_response_timeout_ms m' = mm_response_timeout_ms m"
    by (cases m; cases m'; simp add: attempted_def)+
  have f0: "fault_at 0 l = link_fault l" by (cases "lk_faults l") (simp_all add: fault_at_def link_fault_def)
  have fS: "fault_at (Suc i) l = fault_at i l'" for i
    using at(4) by (cases "lk_faults l") (simp_all add: fault_at_def)
  show ?case
  proof (cases r)
    case (Inl e)
    have step: "mbm_retry (link_port peer) req wire a e0 resp m l = mbm_retry (link_port peer) req wire (a + 1) e resp m' l'"
      using le by (subst mbm_retry.simps) (simp add: at(1) Inl)
    have d: "link_fault l \<noteq> Deliver" using at(5) Inl by auto
    have "n = unat (mm_max_retries m') - unat (a + 1)" "mm_response_timeout_ms m' \<noteq> 0" "mm_max_retries m' < 255"
      "unat (a + 1) \<le> unat (mm_max_retries m')"
      using Suc.hyps(2) Suc.prems(3,4) m' a1 lt(1) by simp_all
    from Suc.hyps(1) [OF this(1) at(2,3) this(2-4)]
    obtain e' r' m'' l'' where h: "mbm_retry (link_port peer) req wire (a + 1) e resp m' l' = Some (e', r', m'', l'')"
      "link_ready l''" "S (lk_peer l'')"
      "good_reply req resp (e', r') (lk_peer l'') \<or> e' \<in> link_errors \<and> r' = resp \<and>
        (\<forall>i. i \<le> unat (mm_max_retries m') - unat (a + 1) \<longrightarrow> fault_at i l' \<noteq> Deliver)"
      by blast
    have "fault_at i l \<noteq> Deliver" if "i \<le> unat (mm_max_retries m) - unat a"
      "\<forall>i. i \<le> unat (mm_max_retries m') - unat (a + 1) \<longrightarrow> fault_at i l' \<noteq> Deliver" for i
      using that d f0 fS m'(1) a1 by (cases i) simp_all
    with h show ?thesis by (auto simp: step)
  next
    case (Inr er)
    then have "mbm_retry (link_port peer) req wire a e0 resp m l = Some (fst er, snd er, m', l')"
      using le by (subst mbm_retry.simps) (simp add: at(1) split: prod.splits)
    then show ?thesis using at(2,3,5) Inr by auto
  qed
qed

lemma transact_lossy:
  assumes "link_ready l" "S (lk_peer l)" "mm_response_timeout_ms m \<noteq> 0" "mm_max_retries m < 255" "mm_started m"
    and "mbm_build_wire_frame req = wire" "unat (mf_data_len req) \<le> 252"
  shows "\<exists>e r m' l'. modbus_master_transact (link_port peer) (Some req) (Some resp) m l = Some (e, Some r, m', l') \<and>
    link_ready l' \<and> S (lk_peer l') \<and> m' = m\<lparr>mm_stats := mm_stats m'\<rparr> \<and>
    (good_reply req resp (e, r) (lk_peer l') \<or>
     e \<in> link_errors \<and> r = resp \<and> (\<forall>i. i \<le> unat (mm_max_retries m) \<longrightarrow> fault_at i l \<noteq> Deliver))"
proof -
  obtain e r m' l' where t: "modbus_master_transact (link_port peer) (Some req) (Some resp) m l = Some (e, Some r, m', l')"
    "link_ready l'" "S (lk_peer l')" "good_reply req resp (e, r) (lk_peer l') \<or>
     e \<in> link_errors \<and> r = resp \<and> (\<forall>i. i \<le> unat (mm_max_retries m) \<longrightarrow> fault_at i l \<noteq> Deliver)"
    using retry_lossy [OF assms(1-4), of 0 req MODBUS_MASTER_ERR_TIMEOUT resp] assms(5-7)
    by (auto simp: modbus_master_transact_def MODBUS_MAX_DATA_BYTES_def)
  then show ?thesis using transact_counts [OF assms(4) t(1)] by blast
qed

end

end
