(* ===== verification/Modbus_Bus.thy ===== *)
theory Modbus_Bus
  imports Modbus_Link Device_Properties
begin

text \<open>
  The gateway's master and the Field Device on one bus: what a transaction returns is what the
  device's registers hold, whatever goes wrong on the wire.  The two interpretations of
  \<open>bus_request\<close> are a register read (FC03, FC04) and a register write (FC06).
\<close>

section \<open>The Field Device as a slave\<close>

text \<open>The device reacts to a frame; the answer is the frame it has transmitted, if any.\<close>

definition fd_peer :: "'r fd_board \<Rightarrow> ('st, 'r) fd bus_peer" where
  "fd_peer bd f s =
     (let s' = fd_process bd f s
      in (if length (ms_sent s') = length (ms_sent s) then None else Some (hd (ms_sent s')), s'))"

lemma fd_peer_served:
  assumes "served p t s (fd_process bd f s)"
  shows "fd_peer bd f s = (Some (rtu p), fd_process bd f s)"
  using assms by (simp add: fd_peer_def served_def Let_def)

lemma fd_peer_dropped:
  assumes "slave_wf s" "length f \<le> 256" "\<not> frame_crc_ok f"
  shows "fst (fd_peer bd f s) = None" "slave_wf (snd (fd_peer bd f s))"
    "ms_env (snd (fd_peer bd f s)) = ms_env s" "slave_addr (snd (fd_peer bd f s)) = slave_addr s"
  using assms
  by (auto simp: fd_peer_def fd_process_def process_eq slave_wf_def Let_def get_rx_frame_def)

lemma wire_len_rtu: "rtu p \<noteq> []" "length p \<le> 254 \<Longrightarrow> length (rtu p) \<le> 256"
proof -
  show "rtu p \<noteq> []" by (simp add: rtu_def cfl_put_u16_def)
qed simp

lemma fd_peer_damaged:
  assumes "slave_wf s" "rtu p = xs @ [a, b] @ ys" "length p \<le> 254" "(a, b) \<noteq> (a', b')"
  shows "fst (fd_peer bd (xs @ [a', b'] @ ys) s) = None \<and> slave_wf (snd (fd_peer bd (xs @ [a', b'] @ ys) s)) \<and>
    ms_env (snd (fd_peer bd (xs @ [a', b'] @ ys) s)) = ms_env s \<and>
    slave_addr (snd (fd_peer bd (xs @ [a', b'] @ ys) s)) = slave_addr s"
proof -
  have "length (xs @ [a', b'] @ ys) = length (rtu p)" using assms(2) by simp
  then have "length (xs @ [a', b'] @ ys) \<le> 256" using assms(3) by simp
  then show ?thesis using fd_peer_dropped [OF assms(1) _ burst_breaks_frame [OF assms(2,4)]] by blast
qed

section \<open>Reading registers\<close>

definition reg_view :: "'r fd_board \<Rightarrow> u8 \<Rightarrow> u16 \<Rightarrow> u16 \<Rightarrow> ('st, 'r) fd_env \<Rightarrow> u8 + u16 list" where
  "reg_view bd fc start cnt e = reg_values (reg_read (fd_in_value bd) (fd_hold_value bd) fc e) start (unat cnt)"

definition read_state :: "u8 \<Rightarrow> u8 \<Rightarrow> u16 \<Rightarrow> ('st, 'r) fd_env \<Rightarrow> ('st, 'r) fd \<Rightarrow> bool" where
  "read_state addr fc cnt e s \<longleftrightarrow> slave_wf s \<and> slave_addr s = addr \<and> ms_env s = e \<and>
     (fc = 0x03 \<or> fc = 0x04) \<and> 1 \<le> unat cnt \<and> unat cnt \<le> 125"

lemma length_be16s [simp]: "length (concat (map be16 vs)) = 2 * length vs"
  by (rule nth_concat_be16)

lemma length_read_reply:
  assumes "r = reg_values rd start n" "1 \<le> n" "n \<le> 125"
  shows "3 \<le> length (read_reply addr fc r)" "length (read_reply addr fc r) \<le> 254"
  using assms reg_values_length [of rd start n]
  by (auto simp: read_reply_def exception_frame_def split: sum.splits)

interpretation fd_read: bus_request "fd_peer bd" "rtu (read_request addr fc start cnt)"
  "read_state addr fc cnt e" "\<lambda>s p. p = read_reply addr fc (reg_view bd fc start cnt e)"
  for bd :: "'r fd_board" and addr fc start cnt and e :: "('st, 'r) fd_env"
proof (unfold_locales)
  fix s :: "('st, 'r) fd" and xs a b ys a' b'
  assume s: "read_state addr fc cnt e s"
  have l: "length (read_request addr fc start cnt) = 6" by (simp add: read_request_def be16_def)
  show "rtu (read_request addr fc start cnt) \<noteq> [] \<and> length (rtu (read_request addr fc start cnt)) \<le> 256"
    by (simp add: wire_len_rtu(1) l)
  let ?p = "read_reply addr fc (reg_view bd fc start cnt e)"
  let ?s = "fd_process bd (rtu (read_request addr fc start cnt)) s"
  have served: "served ?p s s ?s"
    using fd.process_read [of s fc cnt bd start] s
    by (simp add: read_state_def reg_view_def fd_process_def)
  then have "fd_peer bd (rtu (read_request addr fc start cnt)) s = (Some (rtu ?p), ?s)" by (rule fd_peer_served)
  moreover have "read_state addr fc cnt e ?s" using served s by (simp add: read_state_def served_def)
  moreover have "3 \<le> length ?p" "length ?p \<le> 254"
    using length_read_reply [OF reg_view_def, of cnt] s by (simp_all add: read_state_def)
  ultimately show "\<exists>p s'. fd_peer bd (rtu (read_request addr fc start cnt)) s = (Some (rtu p), s') \<and>
      read_state addr fc cnt e s' \<and> p = ?p \<and> 3 \<le> length p \<and> length p \<le> 254"
    by blast
  assume "rtu (read_request addr fc start cnt) = xs @ [a, b] @ ys" "(a, b) \<noteq> (a', b')"
  then show "fst (fd_peer bd (xs @ [a', b'] @ ys) s) = None \<and>
      read_state addr fc cnt e (snd (fd_peer bd (xs @ [a', b'] @ ys) s))"
    using fd_peer_damaged [of s "read_request addr fc start cnt" xs a b ys a' b' bd] s l
    by (simp add: read_state_def)
qed

text \<open>The request frame of a read, as the poller builds it.\<close>

definition read_frame :: "u8 \<Rightarrow> u8 \<Rightarrow> u16 \<Rightarrow> u16 \<Rightarrow> modbus_frame" where
  "read_frame addr fc start cnt = \<lparr>mf_slave_addr = addr, mf_function_code = fc,
     mf_data = be16 start @ be16 cnt @ replicate 248 0, mf_data_len = 4\<rparr>"

lemma crc_bytes: "[ucast (c AND 0xFF), ucast (drop_bit 8 c)] = cfl_put_u16 c"
proof -
  have "ucast (drop_bit 8 c) = (ucast (drop_bit 8 c AND 0xFF) :: u8)"
    by (rule bit_word_eqI) (auto simp: bit_simps mask_0xFF)
  then show ?thesis by (simp add: cfl_put_u16_def)
qed

lemma wire_frame_eq:
  "mbm_build_wire_frame req =
     rtu (mf_slave_addr req # mf_function_code req # take (unat (mf_data_len req)) (mf_data req))"
proof (cases "mf_data_len req = 0")
  case True
  then show ?thesis by (simp add: mbm_build_wire_frame_def rtu_def mbm_crc16_eq crc_bytes)
next
  case False
  then have "mf_data_len req > 0" by (simp add: word_gt_0)
  then show ?thesis by (simp add: mbm_build_wire_frame_def rtu_def mbm_crc16_eq crc_bytes)
qed

lemma read_frame_wire: "mbm_build_wire_frame (read_frame addr fc start cnt) = rtu (read_request addr fc start cnt)"
  by (simp add: wire_frame_eq read_frame_def read_request_def be16_def)

text \<open>The data of a response: the byte count and the registers, high byte first.\<close>

definition read_data :: "u16 list \<Rightarrow> u8 list" where
  "read_data vs = of_nat (2 * length vs) # concat (map be16 vs)"

lemma fc_not_flagged: "fc = 0x03 \<or> fc = 0x04 \<or> fc = 0x06 \<Longrightarrow> fc OR 0x80 \<noteq> (fc :: u8)"
  by auto

lemma decode_read_reply:
  assumes "fc = 0x03 \<or> fc = 0x04"
  shows "decode_reply (read_frame addr fc start cnt) (read_reply addr fc (Inr vs)) resp =
      (MODBUS_MASTER_ERR_OK, resp\<lparr>mf_slave_addr := addr, mf_function_code := fc,
         mf_data_len := of_nat (2 * length vs + 1), mf_data := read_data vs @ drop (2 * length vs + 1) (mf_data resp)\<rparr>)"
    "decode_reply (read_frame addr fc start cnt) (read_reply addr fc (Inl code)) resp =
      (MODBUS_MASTER_ERR_EXCEPTION, resp\<lparr>mf_slave_addr := addr, mf_function_code := fc OR 0x80,
         mf_data := (mf_data resp)[0 := code], mf_data_len := 1\<rparr>)"
  using fc_not_flagged [of fc] assms
  by (auto simp: decode_reply_def read_frame_def read_reply_def exception_frame_def read_data_def numeral_2_eq_2)

lemma read_transaction:
  assumes "link_ready l" "slave_wf (lk_peer l)" "mm_started m" "mm_response_timeout_ms m \<noteq> 0" "mm_max_retries m < 255"
    and "fc = 0x03 \<or> fc = 0x04" "1 \<le> unat cnt" "unat cnt \<le> 125"
  defines "addr \<equiv> slave_addr (lk_peer l)" and "e \<equiv> ms_env (lk_peer l)"
  shows "\<exists>err r m' l'. modbus_master_transact (link_port (fd_peer bd)) (Some (read_frame addr fc start cnt)) (Some resp) m l =
      Some (err, Some r, m', l') \<and>
    link_ready l' \<and> slave_wf (lk_peer l') \<and> ms_env (lk_peer l') = e \<and> slave_addr (lk_peer l') = addr \<and>
    m' = m\<lparr>mm_stats := mm_stats m'\<rparr> \<and>
    ((err, r) = decode_reply (read_frame addr fc start cnt) (read_reply addr fc (reg_view bd fc start cnt e)) resp \<or>
     err \<in> link_errors \<and> r = resp \<and> (\<forall>i. i \<le> unat (mm_max_retries m) \<longrightarrow> fault_at i l \<noteq> Deliver))"
proof -
  have st: "read_state addr fc cnt e (lk_peer l)" using assms by (simp add: read_state_def)
  have len: "unat (mf_data_len (read_frame addr fc start cnt)) \<le> 252" by (simp add: read_frame_def)
  note t = fd_read.transact_lossy [OF assms(1) st assms(4,5,3) read_frame_wire len, of bd resp]
  show ?thesis
    using t unfolding fd_read.good_reply_def read_state_def by (elim exE conjE, intro exI conjI) (assumption | blast)+
qed

text \<open>C6: a register read of the gateway's master from the Field Device (FC03 or FC04, 1 to 125
  registers) over a bus that loses, delays, breaks off or corrupts frames in either direction returns
  the registers the device holds, or the exception it answers, as soon as one of the \<open>1 + max_retries\<close>
  exchanges is clean; it never returns anything else but a timeout, CRC or receive error, and it
  leaves the device's environment alone.\<close>

theorem master_reads_registers:
  assumes "link_ready l" "slave_wf (lk_peer l)" "mm_started m" "mm_response_timeout_ms m \<noteq> 0" "mm_max_retries m < 255"
    and "fc = 0x03 \<or> fc = 0x04" "1 \<le> unat cnt" "unat cnt \<le> 125" "length (mf_data resp) = 252"
    and "req = read_frame (slave_addr (lk_peer l)) fc start cnt"
  shows "\<exists>err r m' l'. modbus_master_transact (link_port (fd_peer bd)) (Some req) (Some resp) m l = Some (err, Some r, m', l') \<and>
    ms_env (lk_peer l') = ms_env (lk_peer l) \<and>
    ((case reg_view bd fc start cnt (ms_env (lk_peer l)) of
        Inr vs \<Rightarrow> err = MODBUS_MASTER_ERR_OK \<and> mf_data_len r = of_nat (2 * length vs + 1) \<and>
                  take (2 * length vs + 1) (mf_data r) = read_data vs
      | Inl code \<Rightarrow> err = MODBUS_MASTER_ERR_EXCEPTION \<and> mf_data r ! 0 = code) \<or>
     err \<in> {MODBUS_MASTER_ERR_TIMEOUT, MODBUS_MASTER_ERR_CRC, MODBUS_MASTER_ERR_RX_ERROR} \<and>
     (\<forall>i. i \<le> unat (mm_max_retries m) \<longrightarrow> fault_at i l \<noteq> Deliver))"
proof -
  obtain err r m' l' where t:
    "modbus_master_transact (link_port (fd_peer bd)) (Some req) (Some resp) m l = Some (err, Some r, m', l')"
    "ms_env (lk_peer l') = ms_env (lk_peer l)"
    "(err, r) = decode_reply req (read_reply (slave_addr (lk_peer l)) fc (reg_view bd fc start cnt (ms_env (lk_peer l)))) resp \<or>
     err \<in> link_errors \<and> r = resp \<and> (\<forall>i. i \<le> unat (mm_max_retries m) \<longrightarrow> fault_at i l \<noteq> Deliver)"
    using read_transaction [OF assms(1-8), of bd start resp] unfolding assms(10) by blast
  show ?thesis
  proof (cases "reg_view bd fc start cnt (ms_env (lk_peer l))")
    case (Inl code)
    with t show ?thesis unfolding assms(10) Inl sum.case link_errors_def
      by (auto simp: decode_read_reply [OF assms(6)] assms(9))
  next
    case (Inr vs)
    with t show ?thesis unfolding assms(10) Inr sum.case link_errors_def
      by (auto simp: decode_read_reply [OF assms(6)] read_data_def)
  qed
qed

section \<open>Writing a register\<close>

lemma bridge_write_ready:
  assumes "bridge_write_holding bd a v s = (err, t)"
  shows "mc_ready (cells (ms_env t)) = mc_ready (cells (ms_env s))"
proof -
  let ?m = "fd_map_of bd s"
  obtain e m' t' where w: "mrm_write_single_reg (bd_fw bd) a v ?m s = (e, m', t')" by (metis surj_pair)
  have "within same_frame ?m s (mrm_write_single_reg (bd_fw bd) a v ?m s)"
    by (rule single_write_within [OF reflp_same_frame transp_same_frame effects_same_frame])
  then have "same_wiring ?m m'" by (simp add: within_def w)
  then show ?thesis using assms by (auto simp: bridge_write_holding_def bridge_write_def w cells_of_def same_wiring_def)
qed

definition write_state :: "u8 \<Rightarrow> u16 \<Rightarrow> ('st, 'r) fd \<Rightarrow> bool" where
  "write_state addr reg s \<longleftrightarrow> slave_wf s \<and> slave_addr s = addr \<and> mc_ready (cells (ms_env s)) \<and>
     reg \<notin> {0x0140, 0x0141, 0x0150}"

text \<open>The answer to a write: an exception, or the echo, and then the register holds the value.\<close>

definition write_done :: "'r fd_board \<Rightarrow> u8 \<Rightarrow> u16 \<Rightarrow> u16 \<Rightarrow> ('st, 'r) fd \<Rightarrow> u8 list \<Rightarrow> bool" where
  "write_done bd addr reg v s p \<longleftrightarrow> (\<exists>code. p = exception_frame addr 0x06 code) \<or>
     p = ack_frame addr 0x06 reg v \<and> fd_hold_value bd reg (ms_env s) = (MODBUS_SLAVE_ERR_OK, v)"

lemma serve_write:
  assumes "write_state addr reg s" and s': "s' = fd_process bd (rtu (write_request addr reg v)) s"
  shows "\<exists>p. served p s' s s' \<and> write_done bd addr reg v s' p \<and> write_state addr reg s' \<and> 3 \<le> length p \<and> length p \<le> 254"
proof -
  let ?frame = "rtu (write_request (slave_addr s) reg v)"
  have s: "slave_wf s" "slave_addr s = addr" "mc_ready (cells (ms_env s))" "reg \<noteq> 0x0140" "reg \<noteq> 0x0141" "reg \<noteq> 0x0150"
    using assms(1) by (simp_all add: write_state_def)
  obtain err t where w: "bridge_write_holding bd reg v (accepted ?frame s) = (err, t)" by fastforce
  then have w2: "rm_write_holding (legacy_map bd) reg v (accepted ?frame s) = (err, t)" by (simp add: legacy_map_def)
  have addr: "slave_addr t = addr" using bridge_write_keeps_address [OF w s(6)] s(2) by simp
  have ready: "mc_ready (cells (ms_env t))" using bridge_write_ready [OF w] s(3) by simp
  define p where "p = write_reply addr 0x06 err reg v"
  have sv: "served p t s s'"
    using fd.process_write [OF s(1) refl w2] s(2) by (simp add: s' fd_process_def addr p_def)
  have t: "ms_env s' = ms_env t" "slave_addr s' = addr" "slave_wf s'" using sv addr by (simp_all add: served_def)
  have "err \<in> {MODBUS_SLAVE_ERR_OK, MODBUS_SLAVE_ERR_INVALID_VALUE, MODBUS_SLAVE_ERR_INVALID_ADDR}"
    using w bridge_exc_cases by (auto simp: bridge_write_holding_def bridge_write_def split: prod.splits)
  moreover have "fd_hold_value bd reg (ms_env t) = (MODBUS_SLAVE_ERR_OK, v)" if "err = MODBUS_SLAVE_ERR_OK"
    using bridge_write_reads_back [OF w [unfolded that]] s by simp
  ultimately have "write_done bd addr reg v s' p" by (auto simp: write_done_def p_def write_reply_def t)
  moreover have "3 \<le> length p" "length p \<le> 254"
    by (simp_all add: p_def write_reply_def exception_frame_def ack_frame_def be16_def)
  moreover have "served p s' s s'" "write_state addr reg s'"
    using sv t ready s by (simp_all add: served_def write_state_def)
  ultimately show ?thesis by blast
qed

interpretation fd_write: bus_request "fd_peer bd" "rtu (write_request addr reg v)"
  "write_state addr reg" "write_done bd addr reg v"
  for bd :: "'r fd_board" and addr reg v
proof (unfold_locales)
  fix s :: "('st, 'r) fd" and xs a b ys a' b'
  assume s: "write_state addr reg s"
  have l: "length (write_request addr reg v) = 6" by (simp add: write_request_def be16_def)
  show "rtu (write_request addr reg v) \<noteq> [] \<and> length (rtu (write_request addr reg v)) \<le> 256"
    by (simp add: wire_len_rtu(1) l)
  obtain p where p: "served p (fd_process bd (rtu (write_request addr reg v)) s) s (fd_process bd (rtu (write_request addr reg v)) s)"
    "write_done bd addr reg v (fd_process bd (rtu (write_request addr reg v)) s) p"
    "write_state addr reg (fd_process bd (rtu (write_request addr reg v)) s)" "3 \<le> length p" "length p \<le> 254"
    using serve_write [OF s refl] by blast
  from fd_peer_served [of p _ s bd "rtu (write_request addr reg v)"] p
  show "\<exists>p s'. fd_peer bd (rtu (write_request addr reg v)) s = (Some (rtu p), s') \<and>
      write_state addr reg s' \<and> write_done bd addr reg v s' p \<and> 3 \<le> length p \<and> length p \<le> 254"
    by blast
  assume "rtu (write_request addr reg v) = xs @ [a, b] @ ys" "(a, b) \<noteq> (a', b')"
  then show "fst (fd_peer bd (xs @ [a', b'] @ ys) s) = None \<and>
      write_state addr reg (snd (fd_peer bd (xs @ [a', b'] @ ys) s))"
    using fd_peer_damaged [of s "write_request addr reg v" xs a b ys a' b' bd] s l
    by (simp add: write_state_def)
qed

definition write_frame :: "u8 \<Rightarrow> u16 \<Rightarrow> u16 \<Rightarrow> modbus_frame" where
  "write_frame addr reg v = \<lparr>mf_slave_addr = addr, mf_function_code = 0x06,
     mf_data = be16 reg @ be16 v @ replicate 248 0, mf_data_len = 4\<rparr>"

lemma write_frame_wire: "mbm_build_wire_frame (write_frame addr reg v) = rtu (write_request addr reg v)"
  by (simp add: wire_frame_eq write_frame_def write_request_def be16_def)

lemma drop_4: "drop 4 xs = drop (Suc (Suc (Suc (Suc 0)))) xs"
  by (simp add: eval_nat_numeral)

lemma decode_write_reply:
  "decode_reply (write_frame addr reg v) (ack_frame addr 0x06 reg v) resp =
     (MODBUS_MASTER_ERR_OK, resp\<lparr>mf_slave_addr := addr, mf_function_code := 0x06,
        mf_data_len := 4, mf_data := be16 reg @ be16 v @ drop 4 (mf_data resp)\<rparr>)"
  "decode_reply (write_frame addr reg v) (exception_frame addr 0x06 code) resp =
     (MODBUS_MASTER_ERR_EXCEPTION, resp\<lparr>mf_slave_addr := addr, mf_function_code := 0x86,
        mf_data := (mf_data resp)[0 := code], mf_data_len := 1\<rparr>)"
  "a \<noteq> addr \<Longrightarrow> decode_reply (write_frame addr reg v) (ack_frame a 0x06 reg v) resp = (MODBUS_MASTER_ERR_BAD_RESPONSE, resp)"
  by (simp_all add: decode_reply_def write_frame_def ack_frame_def exception_frame_def be16_def drop_4)

text \<open>C7: a write (FC06) of any register except the two LCD registers (0x0140, 0x0141) and the slave
  address (0x0150), by the gateway's started master with a nonzero response timeout and fewer than 255
  retries, to an initialised device, over a bus that may damage, lose or delay every frame, so that the
  write may be executed more than once.  The transaction returns; when it reports OK the register of the
  device holds the value written; otherwise it reports an exception, or a link error, the latter only when no
  exchange was clean.  (The LCD registers acknowledge a write and store nothing; a write of the slave
  address is treated below.)\<close>

theorem master_write_takes_effect:
  assumes "link_ready l" "slave_wf (lk_peer l)" "mc_ready (cells (ms_env (lk_peer l)))"
    and "mm_started m" "mm_response_timeout_ms m \<noteq> 0" "mm_max_retries m < 255"
    and "reg \<notin> {0x0140, 0x0141, 0x0150}" "req = write_frame (slave_addr (lk_peer l)) reg v"
  shows "\<exists>err r m' l'. modbus_master_transact (link_port (fd_peer bd)) (Some req) (Some resp) m l = Some (err, Some r, m', l') \<and>
    (err = MODBUS_MASTER_ERR_OK \<and> fd_hold_value bd reg (ms_env (lk_peer l')) = (MODBUS_SLAVE_ERR_OK, v) \<or>
     err = MODBUS_MASTER_ERR_EXCEPTION \<or>
     err \<in> {MODBUS_MASTER_ERR_TIMEOUT, MODBUS_MASTER_ERR_CRC, MODBUS_MASTER_ERR_RX_ERROR} \<and>
       (\<forall>i. i \<le> unat (mm_max_retries m) \<longrightarrow> fault_at i l \<noteq> Deliver))"
proof -
  let ?a = "slave_addr (lk_peer l)"
  have st: "write_state ?a reg (lk_peer l)" using assms(2,3,7) by (simp add: write_state_def)
  have len: "unat (mf_data_len (write_frame ?a reg v)) \<le> 252" by (simp add: write_frame_def)
  note t = fd_write.transact_lossy [OF assms(1) st assms(5,6,4) write_frame_wire len, of bd resp]
  have good: "err = MODBUS_MASTER_ERR_OK \<and> fd_hold_value bd reg (ms_env s) = (MODBUS_SLAVE_ERR_OK, v) \<or>
      err = MODBUS_MASTER_ERR_EXCEPTION"
    if "fd_write.good_reply bd ?a reg v (write_frame ?a reg v) resp (err, r) s" for err r and s :: "('a, 'b) fd"
    using that unfolding fd_write.good_reply_def write_done_def by (auto simp: decode_write_reply)
  show ?thesis
    using t unfolding assms(8) link_errors_def by (elim exE conjE disjE) (use good in blast)+
qed

text \<open>C33: a write that gives the device a new slave address is carried out and answered from the new
  address, so the master reports it as a bad response (the receipt does not come from the slave it
  addressed).\<close>

theorem address_change_looks_failed:
  assumes "link_ready l" "link_fault l = Deliver" "slave_wf (lk_peer l)" "mc_ready (cells (ms_env (lk_peer l)))"
    and "mm_started m" "mm_response_timeout_ms m \<noteq> 0"
    and "a \<noteq> slave_addr (lk_peer l)" "1 \<le> a" "a \<le> 247"
    and "fst (fd_set_param CONFIG_PARAM_MODBUS_SLAVE_ADDR (ucast a) (lk_peer l)) = CONFIG_SERVICE_OK"
    and "req = write_frame (slave_addr (lk_peer l)) 0x0150 (ucast a)"
  shows "\<exists>m' l'. modbus_master_transact (link_port (fd_peer bd)) (Some req) (Some resp) m l =
      Some (MODBUS_MASTER_ERR_BAD_RESPONSE, Some resp, m', l') \<and> slave_addr (lk_peer l') = a"
proof -
  let ?s = "lk_peer l" and ?v = "ucast a :: u16"
  let ?a0 = "slave_addr ?s"
  let ?frame = "rtu (write_request ?a0 0x0150 ?v)"
  let ?t = "accepted ?frame ?s"
  let ?m = "fd_map_of bd ?t"
  have ua: "ucast ?v = a" by (rule bit_word_eqI) (auto simp: bit_simps dest: bit_imp_le_length)
  obtain t where w: "fd_set_param CONFIG_PARAM_MODBUS_SLAVE_ADDR (ucast a) ?t = (CONFIG_SERVICE_OK, t)"
    using assms(10) by (simp add: fd_set_param_def Let_def split: prod.splits)
  have m: "mrm_initialised ?m" "cfg_write ?m = fd_set_param" "mb_slave_set_address ?m = fd_set_address"
    using assms(4) by (simp_all add: fd_map_of_def fd_mrm_def)
  have slot: "find_slot (bd_fw bd) 0x0150 = Some (slot_rw 0x0150 REG_TYPE_UINT16 read_modbus_slave_addr
      write_modbus_slave_addr_reg (Some validate_slave_addr))"
    by (auto simp: find_slot_iff k_slots_def slot_rw_def)
  have range: "1 \<le> ?v \<and> ?v \<le> 247" using assms(8,9) by (simp add: word_le_nat_alt)
  have init: "ms_initialised t" "slave_addr t = slave_addr ?t"
    using w assms(3) by (auto simp: fd_set_param_def Let_def slave_wf_def split: prod.splits)
  have set: "slave_addr (fd_set_address a t) = a"
    using assms(8,9) init by (auto simp: fd_set_address_def modbus_slave_set_address_def not_less [symmetric])
  have "mrm_write_single_reg (bd_fw bd) 0x0150 ?v ?m ?t = (MB_EXC_NONE, ?m, fd_set_address a t)"
    using m w range
    by (simp add: mrm_write_single_reg_def check_slot_def write_slot_def slot slot_rw_def
        validate_slave_addr_def write_modbus_slave_addr_reg_def value_if_def Let_def ua)
  then have wr: "rm_write_holding (legacy_map bd) 0x0150 ?v ?t = (MODBUS_SLAVE_ERR_OK,
      (fd_set_address a t)\<lparr>ms_env := (ms_env (fd_set_address a t))\<lparr>cells := cells_of ?m\<rparr>\<rparr>)"
    by (simp add: legacy_map_def bridge_write_holding_def bridge_write_def bridge_exc_to_err_def)
  let ?p = "ack_frame a 0x06 0x0150 ?v"
  let ?s' = "fd_process bd ?frame ?s"
  have sv: "ms_sent ?s' = rtu ?p # ms_sent ?s" "slave_addr ?s' = a"
    using fd.process_write [OF assms(3) refl wr] set
    by (simp_all add: served_def fd_process_def write_reply_def)
  have peer: "fd_peer bd ?frame ?s = (Some (rtu ?p), ?s')" using sv by (simp add: fd_peer_def Let_def)
  have p: "3 \<le> length ?p" "length ?p \<le> 254" by (simp_all add: ack_frame_def be16_def)
  have fl: "?frame \<noteq> []" "length ?frame \<le> 256" by (simp_all add: wire_len_rtu(1) write_request_def be16_def)
  have req: "mbm_build_wire_frame req = ?frame" "unat (mf_data_len req) \<le> 252"
    by (simp_all add: assms(11) write_frame_wire) (simp add: write_frame_def)
  obtain m' l' where "modbus_master_transact (link_port (fd_peer bd)) (Some req) (Some resp) m l =
      Some (fst (decode_reply req ?p resp), Some (snd (decode_reply req ?p resp)), m', l')" "lk_peer l' = ?s'"
    by (rule clean_transaction [where peer = "fd_peer bd", OF assms(1,2,5,6) req(1) fl req(2) peer p])
  then show ?thesis
    using decode_write_reply(3) [OF assms(7), of "0x0150" ?v resp] sv(2) by (simp add: assms(11))
qed

section \<open>A concrete bus\<close>

definition demo_link :: "line_fault list \<Rightarrow> 's \<Rightarrow> 's link" where
  "demo_link faults s = \<lparr>lk_uart = \<lparr>mu_rx_buf = replicate 256 0, mu_rx_len = 0, mu_rx_overflow = False,
     mu_rx_cb = True, mu_tx_busy = False\<rparr>, lk_value = 0, lk_pending = False, lk_now = [], lk_late = [],
     lk_faults = faults, lk_peer = s\<rparr>"

lemma demo_link_ready: "link_ready (demo_link faults s)"
  by (rule quiet_ready) (simp add: demo_link_def link_quiet_def mb_uart_idle_def mb_uart_wf_def)

lemma demo_link_peer [simp]: "lk_peer (demo_link faults s) = s" "lk_faults (demo_link faults s) = faults"
  by (simp_all add: demo_link_def)

lemma demo_master_fields [simp]:
  "mm_started demo_master" "mm_response_timeout_ms demo_master \<noteq> 0" "mm_max_retries demo_master = 3"
  by (simp_all add: demo_master_def)

lemma env_view:
  assumes "mc_ready (cells e)"
  shows "reg_view bd 0x04 0x0010 3 e = Inr [env_value e SENSOR_ID_TEMPERATURE 0x8000,
    env_value e SENSOR_ID_HUMIDITY 0xFFFF, env_value e SENSOR_ID_PRESSURE 0xFFFF]"
proof -
  have n: "unat (3 :: u16) = 3" by simp
  show ?thesis
    unfolding reg_view_def n
    using fd_env_registers [OF assms] by (simp add: numeral_3_eq_3 reg_read_def map_sum_def)
qed

theorem master_reads_registers_witness:
  "\<exists>r m' l'. modbus_master_transact (link_port (fd_peer demo_board)) (Some (read_frame 1 0x04 0x0010 3)) (Some zero_frame)
      demo_master (demo_link [Request_Lost, Reply_Burst 3 1 0, Reply_Broken 2] demo_fd) = Some (MODBUS_MASTER_ERR_OK, Some r, m', l') \<and>
    take 7 (mf_data r) = read_data [env_value (ms_env demo_fd) SENSOR_ID_TEMPERATURE 0x8000,
      env_value (ms_env demo_fd) SENSOR_ID_HUMIDITY 0xFFFF, env_value (ms_env demo_fd) SENSOR_ID_PRESSURE 0xFFFF]"
proof -
  have clean: "\<not> (\<forall>i. i \<le> unat (mm_max_retries demo_master) \<longrightarrow>
      fault_at i (demo_link [Request_Lost, Reply_Burst 3 1 0, Reply_Broken 2] demo_fd) \<noteq> Deliver)"
    by (auto simp: fault_at_def intro!: exI [of _ 3])
  have "\<exists>err r m' l'. modbus_master_transact (link_port (fd_peer demo_board)) (Some (read_frame 1 0x04 0x0010 3)) (Some zero_frame)
      demo_master (demo_link [Request_Lost, Reply_Burst 3 1 0, Reply_Broken 2] demo_fd) = Some (err, Some r, m', l') \<and>
    ms_env (lk_peer l') = ms_env (lk_peer (demo_link [Request_Lost, Reply_Burst 3 1 0, Reply_Broken 2] demo_fd)) \<and>
    ((case reg_view demo_board 0x04 0x0010 3 (ms_env (lk_peer (demo_link [Request_Lost, Reply_Burst 3 1 0, Reply_Broken 2] demo_fd))) of
        Inr vs \<Rightarrow> err = MODBUS_MASTER_ERR_OK \<and> mf_data_len r = of_nat (2 * length vs + 1) \<and>
                  take (2 * length vs + 1) (mf_data r) = read_data vs
      | Inl code \<Rightarrow> err = MODBUS_MASTER_ERR_EXCEPTION \<and> mf_data r ! 0 = code) \<or>
     err \<in> {MODBUS_MASTER_ERR_TIMEOUT, MODBUS_MASTER_ERR_CRC, MODBUS_MASTER_ERR_RX_ERROR} \<and>
     (\<forall>i. i \<le> unat (mm_max_retries demo_master) \<longrightarrow>
        fault_at i (demo_link [Request_Lost, Reply_Burst 3 1 0, Reply_Broken 2] demo_fd) \<noteq> Deliver))"
    by (rule master_reads_registers) (simp_all add: demo_link_ready demo_wf demo_addr zero_frame_def MODBUS_MAX_DATA_BYTES_def)
  then show ?thesis
    using clean unfolding demo_link_peer env_view [OF demo_boot(6)] by auto
qed

theorem master_write_takes_effect_witness:
  "\<exists>err r m' l'. modbus_master_transact (link_port (fd_peer demo_board)) (Some (write_frame 1 0x0102 200)) (Some zero_frame)
      demo_master (demo_link [Reply_Lost] demo_fd) = Some (err, Some r, m', l') \<and>
    (err = MODBUS_MASTER_ERR_OK \<and> fd_hold_value demo_board 0x0102 (ms_env (lk_peer l')) = (MODBUS_SLAVE_ERR_OK, 200) \<or>
     err = MODBUS_MASTER_ERR_EXCEPTION)"
proof -
  have clean: "fault_at 1 (demo_link [Reply_Lost] demo_fd) = Deliver" by (simp add: fault_at_def)
  have h: "link_ready (demo_link [Reply_Lost] demo_fd)" "slave_wf (lk_peer (demo_link [Reply_Lost] demo_fd))"
    "mc_ready (cells (ms_env (lk_peer (demo_link [Reply_Lost] demo_fd))))" "mm_max_retries demo_master < 255"
    "(0x0102 :: u16) \<notin> {0x0140, 0x0141, 0x0150}"
    "write_frame 1 0x0102 200 = write_frame (slave_addr (lk_peer (demo_link [Reply_Lost] demo_fd))) 0x0102 200"
    by (simp_all add: demo_link_ready demo_wf demo_addr demo_boot(6))
  have "(1 :: nat) \<le> unat (mm_max_retries demo_master)" by simp
  with clean master_write_takes_effect [OF h(1-3) demo_master_fields(1,2) h(4-6), of demo_board zero_frame]
  show ?thesis by blast
qed

theorem address_change_looks_failed_witness:
  "\<exists>m' l'. modbus_master_transact (link_port (fd_peer demo_board)) (Some (write_frame 1 0x0150 2)) (Some zero_frame)
      demo_master (demo_link [] demo_fd) = Some (MODBUS_MASTER_ERR_BAD_RESPONSE, Some zero_frame, m', l') \<and> slave_addr (lk_peer l') = 2"
proof -
  let ?l = "demo_link [] demo_fd"
  have w: "cs_initialised (config (ms_env demo_fd))" "cs_save (config (ms_env demo_fd)) = store_save ram_store"
    using demo_boot(5) by (simp_all add: in_step_def fd_wired_def)
  have "params (config (ms_env demo_fd)) = apply_defaults"
    using demo_boot(2) w(1) by (simp add: fd_params_def config_service_get_params_def)
  then have set: "fst (fd_set_param CONFIG_PARAM_MODBUS_SLAVE_ADDR 2 demo_fd) = CONFIG_SERVICE_OK"
    using w by (simp add: fd_set_param_def config_service_set_param_def persist_to_store_def store_save_def
        ram_store_def as_u8_def valid_if_def Let_def split_def)
  have u: "ucast (2 :: u8) = (2 :: u16)" "ucast (2 :: u8) = (2 :: u32)" by simp_all
  have "\<exists>m' l'. modbus_master_transact (link_port (fd_peer demo_board)) (Some (write_frame 1 0x0150 2)) (Some zero_frame) demo_master ?l =
      Some (MODBUS_MASTER_ERR_BAD_RESPONSE, Some zero_frame, m', l') \<and> slave_addr (lk_peer l') = 2"
    by (rule address_change_looks_failed)
       (simp_all add: demo_link_ready demo_wf demo_addr demo_boot(6) set u link_fault_def)
  then show ?thesis .
qed

end
