(* ===== verification/Poller_Device.thy ===== *)
theory Poller_Device
  imports Poller_Life Modbus_Bus
begin

text \<open>
  The poller, the master, the bus and the Field Device together: what a poll leaves in the cache of
  readings is what the device's registers held, whatever goes wrong on the wire.
\<close>

section \<open>The master on the bus of the device\<close>

text \<open>The kernel's tick count is a function of the state of the bus.\<close>

definition fd_master ::
  "'r fd_board \<Rightarrow> (('st, 'r) fd link \<Rightarrow> u32) \<Rightarrow> (modbus_master \<times> ('st, 'r) fd link) imaster" where
  "fd_master bd tick = \<lparr>
     im_transact = (\<lambda>req resp (m, l).
       case modbus_master_transact (link_port (fd_peer bd)) (Some req) (Some resp) m l of
         Some (err, Some r, m, l) \<Rightarrow> Some (err, r, m, l)
       | _ \<Rightarrow> None),
     im_get_stats = (\<lambda>(m, l). case modbus_master_get_stats (Some zero_master_stats) m of (rc, out) \<Rightarrow> (rc, the out)),
     im_tick = (\<lambda>(m, l). tick l)\<rparr>"

text \<open>The bus is quiet, the master configured, the device at address \<open>a\<close> with environment \<open>e\<close>.\<close>

definition bus_ok :: "u8 \<Rightarrow> ('st, 'r) fd_env \<Rightarrow> modbus_master \<times> ('st, 'r) fd link \<Rightarrow> bool" where
  "bus_ok a e b = (case b of (m, l) \<Rightarrow>
     link_ready l \<and> slave_wf (lk_peer l) \<and> slave_addr (lk_peer l) = a \<and> ms_env (lk_peer l) = e \<and>
     mm_started m \<and> mm_response_timeout_ms m \<noteq> 0 \<and> mm_max_retries m < 255)"

definition bus_clean :: "modbus_master \<times> ('st, 'r) fd link \<Rightarrow> bool" where
  "bus_clean b = (case b of (m, l) \<Rightarrow> \<exists>i. i \<le> unat (mm_max_retries m) \<and> fault_at i l = Deliver)"

lemma fc04_read_frame: "fc04_request a start cnt zero_frame = read_frame a 0x04 start cnt"
proof -
  have "replicate 252 (0 :: u8) = 0 # 0 # 0 # 0 # replicate 248 0" by (simp add: replicate_eqI numeral_eq_Suc)
  then show ?thesis
    by (simp add: fc04_request_def read_frame_def zero_frame_def be16_def hi8_def lo8_def FC_READ_INPUT_REGS_def
        POLL_REQUEST_DATA_BYTES_def MODBUS_MAX_DATA_BYTES_def)
qed

lemma transact_device:
  assumes "bus_ok a e b" "1 \<le> unat cnt" "unat cnt \<le> 125"
  shows "\<exists>err r b'. im_transact (fd_master bd tick) (fc04_request a start cnt zero_frame) zero_frame b = Some (err, r, b') \<and>
    bus_ok a e b' \<and>
    (err = MODBUS_MASTER_ERR_OK \<longrightarrow> (\<exists>vs. reg_view bd 0x04 start cnt e = Inr vs \<and>
       mf_data_len r = of_nat (2 * length vs + 1) \<and> take (2 * length vs + 1) (mf_data r) = read_data vs)) \<and>
    (bus_clean b \<longrightarrow> (\<forall>vs. reg_view bd 0x04 start cnt e = Inr vs \<longrightarrow> err = MODBUS_MASTER_ERR_OK))"
proof -
  obtain m l where b: "b = (m, l)" by fastforce
  note ok = assms(1) [unfolded bus_ok_def b prod.case]
  obtain err r m' l' where t:
    "modbus_master_transact (link_port (fd_peer bd)) (Some (read_frame a 0x04 start cnt)) (Some zero_frame) m l =
      Some (err, Some r, m', l')"
    "link_ready l'" "slave_wf (lk_peer l')" "ms_env (lk_peer l') = e" "slave_addr (lk_peer l') = a"
    "m' = m\<lparr>mm_stats := mm_stats m'\<rparr>"
    "(err, r) = decode_reply (read_frame a 0x04 start cnt) (read_reply a 0x04 (reg_view bd 0x04 start cnt e)) zero_frame \<or>
      err \<in> link_errors \<and> r = zero_frame \<and> (\<forall>i. i \<le> unat (mm_max_retries m) \<longrightarrow> fault_at i l \<noteq> Deliver)"
    using read_transaction [of l m "0x04" cnt bd start zero_frame] ok assms(2,3) by auto
  have m': "mm_started m' = mm_started m" "mm_response_timeout_ms m' = mm_response_timeout_ms m"
    "mm_max_retries m' = mm_max_retries m"
    by (subst t(6), simp)+
  have tr: "im_transact (fd_master bd tick) (fc04_request a start cnt zero_frame) zero_frame b = Some (err, r, (m', l'))"
    by (simp add: fd_master_def b fc04_read_frame t(1))
  have ok': "bus_ok a e (m', l')" using ok t(2-5) by (simp add: bus_ok_def m')
  have "(err = MODBUS_MASTER_ERR_OK \<longrightarrow> (\<exists>vs. reg_view bd 0x04 start cnt e = Inr vs \<and>
       mf_data_len r = of_nat (2 * length vs + 1) \<and> take (2 * length vs + 1) (mf_data r) = read_data vs)) \<and>
    (bus_clean b \<longrightarrow> (\<forall>vs. reg_view bd 0x04 start cnt e = Inr vs \<longrightarrow> err = MODBUS_MASTER_ERR_OK))"
  proof (cases "reg_view bd 0x04 start cnt e")
    case (Inl code)
    with t(7) show ?thesis by (auto simp: decode_read_reply link_errors_def)
  next
    case (Inr vs)
    with t(7) show ?thesis
      by (auto simp: decode_read_reply link_errors_def read_data_def bus_clean_def b)
  qed
  with tr ok' show ?thesis by blast
qed

section \<open>Decoding a reading\<close>

definition device_reading :: "('st, 'r) fd_env \<Rightarrow> u32 \<Rightarrow> fd_cache" where
  "device_reading e tick =
     (let t = env_value e SENSOR_ID_TEMPERATURE 0x8000; h = env_value e SENSOR_ID_HUMIDITY 0xFFFF;
          p = env_value e SENSOR_ID_PRESSURE 0xFFFF
      in \<lparr>ch_temperature_centi_c = t, ch_humidity_centi_pct = h, ch_pressure_deci_hpa = p,
          ch_temperature_valid = (t \<noteq> 0x8000), ch_humidity_valid = (h \<noteq> 0xFFFF), ch_pressure_valid = (p \<noteq> 0xFFFF),
          ch_has_data = True, ch_updated_tick = tick\<rparr>)"

lemma frame_word_eq:
  assumes "take 7 (mf_data r) = read_data [x, y, z]"
  shows "frame_word r 1 = x" "frame_word r 3 = y" "frame_word r 5 = z"
proof -
  have n: "mf_data r ! i = take 7 (mf_data r) ! i" if "i < 7" for i using that by simp
  show "frame_word r 1 = x" "frame_word r 3 = y" "frame_word r 5 = z"
    by (simp_all add: frame_word_def n assms read_data_def be16_def)
qed

lemma decode_device:
  assumes "take 7 (mf_data r) = read_data [env_value e SENSOR_ID_TEMPERATURE 0x8000,
    env_value e SENSOR_ID_HUMIDITY 0xFFFF, env_value e SENSOR_ID_PRESSURE 0xFFFF]"
  shows "decode_reading (hd k_map_table) r tick = device_reading e tick"
  using frame_word_eq [OF assms, unfolded numeral_3_eq_3]
  by (simp add: decode_reading_def k_map_table_def read_register_word_def device_reading_def Let_def zero_cache_def
      FD_REG_TEMPERATURE_def FD_REG_HUMIDITY_def FD_REG_PRESSURE_def FD_SENTINEL_INT16_def FD_SENTINEL_UINT16_def
      word_less_nat_alt word_le_nat_alt)

section \<open>A poll of the device\<close>

text \<open>The poll of a slave that has its slot changes no address.\<close>

lemma poll_slave_own:
  assumes "find_or_claim_slot (dp_slave_addr profile) s = (Some i, s)" "poll_slave M profile s m = Some (s', m')"
  shows "slot_addrs s' = slot_addrs s"
  using assms(2)
  by (auto simp: poll_slave_def assms(1) Let_def bind_eq_Some_conv split: option.splits if_splits
      dest!: slot_addrs_identity slot_addrs_alarm)

lemma cache_upd [simp]: "pl_cache (record_poll_outcome i result s) = pl_cache s"
  "pl_cache (reject_slave i s) = pl_cache s"
  by (simp_all add: record_poll_outcome_def reject_slave_def Let_def emit_link_up_def emit_node_offline_def)

lemma identity_device:
  assumes "bus_ok (dp_slave_addr profile) e b"
  shows "case ensure_identity (fd_master bd tick) i profile s b of
      None \<Rightarrow> False
    | Some (v, s', b') \<Rightarrow> bus_ok (dp_slave_addr profile) e b' \<and> pl_cache s' = pl_cache s \<and>
        (sl_identity (pl_slaves s ! i) = MODBUS_SLAVE_VERIFIED \<longrightarrow> v \<and> s' = s \<and> b' = b)"
proof -
  obtain err r b' where "im_transact (fd_master bd tick) (fc04_request (dp_slave_addr profile) IDENTITY_REG_START IDENTITY_REG_COUNT zero_frame)
      zero_frame b = Some (err, r, b')" "bus_ok (dp_slave_addr profile) e b'"
    using transact_device [OF assms, where cnt = IDENTITY_REG_COUNT and bd = bd and tick = tick and start = IDENTITY_REG_START]
    by (auto simp: IDENTITY_REG_COUNT_def)
  then show ?thesis using assms by (simp add: ensure_identity_def Let_def)
qed

lemma alarm_device:
  assumes "bus_ok (dp_slave_addr profile) e b"
  shows "case poll_alarm_flags (fd_master bd tick) profile s b of
      None \<Rightarrow> False | Some (s', b') \<Rightarrow> bus_ok (dp_slave_addr profile) e b' \<and> pl_cache s' = pl_cache s"
proof -
  obtain err r b' where "im_transact (fd_master bd tick) (fc04_request (dp_slave_addr profile) FD_REG_ALARM_FLAGS 1 zero_frame)
      zero_frame b = Some (err, r, b')" "bus_ok (dp_slave_addr profile) e b'"
    using transact_device [OF assms, where cnt = 1 and bd = bd and tick = tick and start = FD_REG_ALARM_FLAGS] by auto
  then show ?thesis using assms by (simp add: poll_alarm_flags_def Let_def)
qed

lemma find_slot_own:
  assumes "poller_wf s" "i < 4" "sl_addr (pl_slaves s ! i) = a" "a \<noteq> 0"
  shows "find_slot_index a s = i"
proof -
  have l: "length (pl_slaves s) = 4" by (rule poller_wfD(1) [OF assms(1)])
  have "takeWhile (\<lambda>x. sl_addr x \<noteq> a) (pl_slaves s) = take i (pl_slaves s)"
  proof (rule takeWhile_eq_take_P_nth)
    fix k assume "k < i" "k < length (pl_slaves s)"
    then show "sl_addr (pl_slaves s ! k) \<noteq> a" using poller_wfD(2) [OF assms(1), of k i] assms by auto
  qed (use assms in simp)
  then show ?thesis by (simp add: find_slot_index_def l assms(2) less_imp_le)
qed

lemma claim_own:
  assumes "poller_wf s" "i < 4" "sl_addr (pl_slaves s ! i) = a" "a \<noteq> 0"
  shows "find_or_claim_slot a s = (Some i, s)"
proof -
  obtain q new where sc: "scan_slots a 0 None (pl_slaves s) = (q, new)" by fastforce
  note spec = scan_slots_spec [OF sc]
  have l: "length (pl_slaves s) = 4" by (rule poller_wfD(1) [OF assms(1)])
  have "a \<in> sl_addr ` set (pl_slaves s)" using assms(2,3) l by (metis imageI nth_mem)
  then have "\<not> new" using spec by blast
  then obtain k where "k < 4" "q = Some k" "sl_addr (pl_slaves s ! k) = a" using spec l by auto
  then show ?thesis
    using poller_wfD(2) [OF assms(1), of k i] assms(2-4) \<open>\<not> new\<close> by (simp add: find_or_claim_slot_def sc)
qed

text \<open>A poll returns; the slot's reading stays or becomes the device's.\<close>

lemma poll_device:
  assumes "polling i (dp_slave_addr p) s" "dp_map_version p = 1" "bus_ok (dp_slave_addr p) e b" "mc_ready (cells e)"
  shows "\<exists>s' b' c t. poll_slave (fd_master bd tick) p s b = Some (s', b') \<and> bus_ok (dp_slave_addr p) e b' \<and>
      (pl_cache s' = pl_cache s \<and> c = pl_cache s ! i \<or> pl_cache s' = (pl_cache s)[i := c] \<and> c = device_reading e t) \<and>
      (sl_identity (pl_slaves s ! i) = MODBUS_SLAVE_VERIFIED \<and> bus_clean b \<longrightarrow> c = device_reading e t)"
proof -
  let ?M = "fd_master bd tick" and ?a = "dp_slave_addr p"
  note d = pollingD [OF assms(1)]
  have claim: "find_or_claim_slot ?a s = (Some i, s)"
    by (rule claim_own) (use d in \<open>simp_all add: link_inv_alt\<close>)
  have map: "map_for p = Some (hd k_map_table)" using assms(2) by (simp add: map_for_def k_map_table_def)
  obtain v s1 b1 where 1: "ensure_identity ?M i p s b = Some (v, s1, b1)" "bus_ok ?a e b1" "pl_cache s1 = pl_cache s"
    "sl_identity (pl_slaves s ! i) = MODBUS_SLAVE_VERIFIED \<Longrightarrow> v \<and> s1 = s \<and> b1 = b"
    using identity_device [OF assms(3), where bd = bd and tick = tick and i = i and s = s] by (auto split: option.splits)
  show ?thesis
  proof (cases v)
    case False
    then have "poll_slave ?M p s b = Some (s1, b1)" by (simp add: poll_slave_def claim map 1(1))
    then show ?thesis using 1 False by blast
  next
    case True
    let ?vs = "[env_value e SENSOR_ID_TEMPERATURE 0x8000, env_value e SENSOR_ID_HUMIDITY 0xFFFF, env_value e SENSOR_ID_PRESSURE 0xFFFF]"
    have view: "reg_view bd 0x04 0x0010 3 e = Inr ?vs" by (rule env_view [OF assms(4)])
    have req: "build_poll_request p (hd k_map_table) zero_frame = fc04_request ?a 0x0010 3 zero_frame"
      by (simp add: build_poll_request_def k_map_table_def)
    obtain err r b2 where 2: "im_transact ?M (fc04_request ?a 0x0010 3 zero_frame) zero_frame b1 = Some (err, r, b2)"
      "bus_ok ?a e b2"
      "err = MODBUS_MASTER_ERR_OK \<Longrightarrow> mf_data_len r = 7 \<and> take 7 (mf_data r) = read_data ?vs"
      "bus_clean b1 \<Longrightarrow> err = MODBUS_MASTER_ERR_OK"
      using transact_device [OF 1(2), where cnt = 3 and bd = bd and tick = tick and start = "0x0010"] by (auto simp: view)
    let ?s2 = "record_poll_outcome i err s1"
    have p2: "polling i ?a ?s2" by (rule record_keeps_polling [OF identity_keeps_polling [OF assms(1) 1(1)]])
    show ?thesis
    proof (cases "err = MODBUS_MASTER_ERR_OK")
      case False
      then have "poll_slave ?M p s b = Some (?s2, b2)" using True by (simp add: poll_slave_def claim map 1(1) req 2(1) Let_def)
      then show ?thesis using 1(3,4) 2(2,4) False by auto
    next
      case ok: True
      let ?t = "im_tick ?M b2"
      have slot: "find_slot_index ?a ?s2 = i"
        using pollingD [OF p2] by (intro find_slot_own) (simp_all add: link_inv_alt)
      have fwd: "pl_cache (forward_response_to_consumers p (hd k_map_table) r ?t ?s2) = (pl_cache s)[i := device_reading e ?t]"
        using 2(3) [OF ok] d(2) slot decode_device [of r e ?t]
        by (simp add: forward_response_to_consumers_def 1(3) MODBUS_MAX_SLAVES_def)
           (simp add: k_map_table_def)
      obtain s' b' where 3: "poll_alarm_flags ?M p (forward_response_to_consumers p (hd k_map_table) r ?t ?s2) b2 = Some (s', b')"
        "bus_ok ?a e b'" "pl_cache s' = pl_cache (forward_response_to_consumers p (hd k_map_table) r ?t ?s2)"
        using alarm_device [OF 2(2), where bd = bd and tick = tick and s = "forward_response_to_consumers p (hd k_map_table) r ?t ?s2"]
        by (auto split: option.splits)
      have "poll_slave ?M p s b = Some (s', b')"
        using True ok 3(1) by (simp add: poll_slave_def claim map 1(1) req 2(1) Let_def)
      then show ?thesis using 3 fwd by auto
    qed
  qed
qed

text \<open>C8: one poll of the Field Device by the gateway, from a reachable state of the poller, over a bus
  that loses, delays, breaks off or corrupts frames: it returns; afterwards a reader of the slave's
  reading gets the three values that the device's registers held during this poll, with their validity
  flags, or else the reading it would have got before, and the one of the device for certain when the
  slave is verified and one of the exchanges of the poll request is clean.  The readings of other slaves
  do not change, nor does the device's environment.\<close>

theorem poll_caches_device_reading:
  assumes "poller_reach (fd_master bd tick) (R, s, b)" "p \<in> set (live R)" "dp_map_version p = 1"
    and "i < 4" "sl_addr (pl_slaves s ! i) = dp_slave_addr p"
    and "bus_ok (dp_slave_addr p) e b" "mc_ready (cells e)"
  shows "\<exists>s' b' c t. poll_slave (fd_master bd tick) p s b = Some (s', b') \<and> bus_ok (dp_slave_addr p) e b' \<and>
    modbus_poller_get_fd_reading R (dp_slave_addr p) (Some out) s' =
      (MODBUS_POLLER_ERR_OK, Some (fd_cache.extend c \<lparr>rd_link_online = sl_online (pl_slaves s' ! i)\<rparr>)) \<and>
    (c = pl_cache s ! i \<or> c = device_reading e t) \<and>
    (sl_identity (pl_slaves s ! i) = MODBUS_SLAVE_VERIFIED \<and> bus_clean b \<longrightarrow> c = device_reading e t) \<and>
    (\<forall>j. j \<noteq> i \<longrightarrow> pl_cache s' ! j = pl_cache s ! j)"
proof -
  let ?M = "fd_master bd tick" and ?a = "dp_slave_addr p"
  have inv: "link_inv s" "registry_wf R" "reg_initialised R" using reach_link_inv [OF assms(1)] by simp_all
  then have wf: "poller_wf s" by (simp add: link_inv_alt)
  have a: "?a \<noteq> 0" by (rule live_addr [OF inv(2) assms(2)])
  have len: "length (pl_cache s) = 4" by (rule poller_wfD(5) [OF wf])
  have claim: "find_or_claim_slot ?a s = (Some i, s)" by (rule claim_own [OF wf assms(4,5) a])
  have pend: "polling i ?a s" using inv(1) assms(4,5) a by (simp add: polling_def)
  obtain s' b' c t where s': "poll_slave ?M p s b = Some (s', b')" "bus_ok ?a e b'"
    "pl_cache s' = pl_cache s \<and> c = pl_cache s ! i \<or> pl_cache s' = (pl_cache s)[i := c] \<and> c = device_reading e t"
    "sl_identity (pl_slaves s ! i) = MODBUS_SLAVE_VERIFIED \<and> bus_clean b \<longrightarrow> c = device_reading e t"
    using poll_device [OF pend assms(3,6,7), of bd tick] by blast
  have inits: "pl_initialised s'" using initialised_poll_slave [OF s'(1)] reach_initialised [OF assms(1)] by simp
  have p': "link_inv s'" by (rule poll_slave_keeps [OF inv(1) a s'(1)])
  have "slot_addrs s' ! i = ?a"
    using poll_slave_own [OF claim s'(1)] assms(4,5) poller_wfD(1) [OF wf] by (simp add: slot_addrs_def)
  then have "sl_addr (pl_slaves s' ! i) = ?a"
    using assms(4) poller_wfD(1) [of s'] p' by (simp add: slot_addrs_def link_inv_alt)
  then have "find_slot_index ?a s' = i" using p' assms(4) a by (intro find_slot_own) (simp_all add: link_inv_alt)
  moreover have "provider_is_registered ?a R" by (rule profile_registered [OF inv(2,3) assms(2)])
  moreover have "pl_cache s' ! i = c" using s'(3) assms(4) len by auto
  ultimately have "modbus_poller_get_fd_reading R ?a (Some out) s' =
      (MODBUS_POLLER_ERR_OK, Some (fd_cache.extend c \<lparr>rd_link_online = sl_online (pl_slaves s' ! i)\<rparr>))"
    using inits assms(4) by (simp add: modbus_poller_get_fd_reading_def MODBUS_MAX_SLAVES_def Let_def)
  moreover have "\<forall>j. j \<noteq> i \<longrightarrow> pl_cache s' ! j = pl_cache s ! j" using s'(3) by auto
  ultimately show ?thesis using s' by blast
qed

end
