(* ===== verification/Poller_Recovery.thy ===== *)
theory Poller_Recovery
  imports Poller_Device
begin

text \<open>
  Recovery of the link: from any reachable state in which the Field Device has a slot and is not in the
  back-off of a rejection, three cycles over a clean bus bring it online with its present reading.
\<close>

section \<open>The identity of the device\<close>

lemma find_identity_slots:
  "find_slot fw 0x0000 = Some (slot_ro 0x0000 REG_TYPE_UINT16 read_map_version)"
  "find_slot fw 0x0001 = Some (slot_ro 0x0001 REG_TYPE_UINT16 read_device_id_hi)"
  "find_slot fw 0x0002 = Some (slot_ro 0x0002 REG_TYPE_UINT16 read_device_id_lo)"
  "find_slot fw 0x0003 = Some (slot_ro 0x0003 REG_TYPE_UINT16 read_hardware_rev)"
  "find_slot fw 0x0004 = Some (slot_ro 0x0004 REG_TYPE_UINT16 (read_fw_ver_major fw))"
  "find_slot fw 0x0005 = Some (slot_ro 0x0005 REG_TYPE_UINT16 (read_fw_ver_minor fw))"
  "find_slot fw 0x0006 = Some (slot_ro 0x0006 REG_TYPE_UINT16 (read_fw_ver_patch fw))"
  "find_slot fw 0x0007 = Some (slot_ro 0x0007 REG_TYPE_UINT16 read_vendor_code)"
  by (auto simp: find_slot_iff k_slots_def slot_ro_def)

lemma identity_value:
  fixes e :: "('st, 'r) fd_env"
  assumes "mc_ready (cells e)" "find_slot (bd_fw bd) a = Some (slot_ro a t r :: ('st, 'r) fd reg_slot)"
    and "\<And>m w. r m w = (MB_EXC_NONE, v)"
  shows "fd_in_value bd a e = (MODBUS_SLAVE_ERR_OK, v)"
proof -
  have "mrm_initialised (fd_map_of bd (probe e))" using assms(1) by simp
  note v = read_slot_value [OF assms(2,3) this]
  show ?thesis by (simp add: fd_in_value_def bridge_read_input_def bridge_read_def v)
qed

lemma identity_view:
  assumes "mc_ready (cells e)"
  shows "\<exists>w1 w2 w3 w4 w5 w6. reg_view bd 0x04 0 8 e = Inr [1, w1, w2, w3, w4, w5, w6, 0x1A45]"
proof -
  have n: "unat (8 :: u16) = Suc (Suc (Suc (Suc (Suc (Suc (Suc (Suc 0)))))))" by simp
  note v = identity_value [OF assms find_identity_slots(1)] identity_value [OF assms find_identity_slots(2)]
    identity_value [OF assms find_identity_slots(3)] identity_value [OF assms find_identity_slots(4)]
    identity_value [OF assms find_identity_slots(5)] identity_value [OF assms find_identity_slots(6)]
    identity_value [OF assms find_identity_slots(7)] identity_value [OF assms find_identity_slots(8)]
  show ?thesis
    unfolding reg_view_def n by (simp add: reg_read_def map_sum_def v read_defs)
qed

text \<open>The words of a response that is not cut short.\<close>

lemma response_word_eq:
  assumes "take (2 * length vs + 1) (mf_data r) = read_data vs" "i < length vs"
  shows "response_word r i = vs ! i"
proof -
  have n: "mf_data r ! k = read_data vs ! k" if "k < 2 * length vs + 1" for k
    using that assms(1) by (metis nth_take)
  have "mf_data r ! (1 + i * 2) = hi8 (vs ! i)" "mf_data r ! (1 + i * 2 + 1) = lo8 (vs ! i)"
    using nth_concat_be16(2,3) [OF assms(2)] assms(2) by (simp_all add: n read_data_def mult.commute)
  then show ?thesis by (simp add: response_word_def frame_word_def)
qed

section \<open>A clean bus\<close>

definition bus_ideal :: "modbus_master \<times> ('st, 'r) fd link \<Rightarrow> bool" where
  "bus_ideal b \<longleftrightarrow> lk_faults (snd b) = []"

lemma ideal_clean: "bus_ideal b \<Longrightarrow> bus_clean b"
  by (cases b) (auto simp: bus_ideal_def bus_clean_def fault_at_def)

lemma ideal_kept:
  assumes "bus_ok a e b" "bus_ideal b" "1 \<le> unat cnt" "unat cnt \<le> 125"
    and "im_transact (fd_master bd tick) (fc04_request a start cnt zero_frame) zero_frame b = Some (err, r, b')"
  shows "bus_ideal b'"
proof -
  obtain m l where b: "b = (m, l)" by fastforce
  note ok = assms(1) [unfolded bus_ok_def b prod.case]
  let ?wire = "rtu (read_request a 0x04 start cnt)"
  have st: "read_state a 0x04 cnt e (lk_peer l)" using ok assms(3,4) by (simp add: read_state_def)
  obtain p s' where p: "fd_peer bd ?wire (lk_peer l) = (Some (rtu p), s')" "3 \<le> length p" "length p \<le> 254"
    using fd_read.answered [OF st, of bd start] by blast
  have w: "?wire \<noteq> []" "length ?wire \<le> 256" using fd_read.wire_len [OF st] by simp_all
  have fault: "link_fault l = Deliver" using assms(2) by (simp add: bus_ideal_def b link_fault_def)
  have req: "mbm_build_wire_frame (read_frame a 0x04 start cnt) = ?wire" "unat (mf_data_len (read_frame a 0x04 start cnt)) \<le> 252"
    by (simp_all add: read_frame_wire) (simp add: read_frame_def)
  obtain m2 l2 where "modbus_master_transact (link_port (fd_peer bd)) (Some (read_frame a 0x04 start cnt)) (Some zero_frame) m l =
      Some (fst (decode_reply (read_frame a 0x04 start cnt) p zero_frame),
        Some (snd (decode_reply (read_frame a 0x04 start cnt) p zero_frame)), m2, l2)" "lk_faults l2 = tl (lk_faults l)"
    by (rule clean_transaction [where peer = "fd_peer bd" and l = l and m = m and resp = zero_frame, OF _ fault _ _ req(1) w req(2) p])
       (use ok in simp_all)
  then show ?thesis using assms(2,5) by (auto simp: fd_master_def b fc04_read_frame bus_ideal_def)
qed

lemma transact_ideal:
  assumes "bus_ok a e b" "bus_ideal b" "1 \<le> unat cnt" "unat cnt \<le> 125" "reg_view bd 0x04 start cnt e = Inr vs"
  obtains r b' where "im_transact (fd_master bd tick) (fc04_request a start cnt zero_frame) zero_frame b =
      Some (MODBUS_MASTER_ERR_OK, r, b')" "bus_ok a e b'" "bus_ideal b'"
    "mf_data_len r = of_nat (2 * length vs + 1)" "take (2 * length vs + 1) (mf_data r) = read_data vs"
  using transact_device [OF assms(1,3,4), where bd = bd and tick = tick and start = start]
    ideal_clean [OF assms(2)] ideal_kept [OF assms(1-4), where bd = bd and tick = tick and start = start] assms(5) that
  by auto

section \<open>A cycle over a clean bus\<close>

definition matching :: "device_profile \<Rightarrow> bool" where
  "matching p \<longleftrightarrow> dp_map_version p = 1 \<and> dp_vendor_code p = 0x1A45"

definition no_backoff :: "modbus_slave_state \<Rightarrow> bool" where
  "no_backoff x \<longleftrightarrow> (sl_identity x = MODBUS_SLAVE_REJECTED \<longrightarrow> sl_recheck x \<le> 1)"

lemma no_backoffI: "sl_identity x = MODBUS_SLAVE_VERIFIED \<Longrightarrow> no_backoff x"
  by (simp add: no_backoff_def)

lemma identity_ideal:
  assumes "bus_ok (dp_slave_addr p) e b" "bus_ideal b" "mc_ready (cells e)" "matching p" "no_backoff (pl_slaves s ! i)"
  obtains b' where "ensure_identity (fd_master bd tick) i p s b =
      Some (True, (if sl_identity (pl_slaves s ! i) = MODBUS_SLAVE_VERIFIED then s
                   else upd_slave i (\<lambda>x. x\<lparr>sl_identity := MODBUS_SLAVE_VERIFIED\<rparr>) s), b')"
    "bus_ok (dp_slave_addr p) e b'" "bus_ideal b'"
proof -
  obtain w1 w2 w3 w4 w5 w6 where v: "reg_view bd 0x04 0 8 e = Inr [1, w1, w2, w3, w4, w5, w6, 0x1A45]"
    using identity_view [OF assms(3)] by blast
  obtain r b' where 1: "im_transact (fd_master bd tick) (fc04_request (dp_slave_addr p) 0 8 zero_frame) zero_frame b =
      Some (MODBUS_MASTER_ERR_OK, r, b')" "bus_ok (dp_slave_addr p) e b'" "bus_ideal b'"
    "mf_data_len r = 17" "take 17 (mf_data r) = read_data [1, w1, w2, w3, w4, w5, w6, 0x1A45]"
    by (rule transact_ideal [OF assms(1,2) _ _ v]) simp_all
  have w: "response_word r 0 = 1" "response_word r 7 = 0x1A45"
    using response_word_eq [of "[1, w1, w2, w3, w4, w5, w6, 0x1A45]" r] 1(5) by simp_all
  note c = IDENTITY_REG_COUNT_def IDENTITY_REG_START_def IDENTITY_MAP_VERSION_REG_def IDENTITY_VENDOR_CODE_REG_def
  show thesis
  proof (cases "sl_identity (pl_slaves s ! i) = MODBUS_SLAVE_VERIFIED")
    case True
    then show thesis using that [of b] assms(1,2) by (simp add: ensure_identity_def)
  next
    case False
    have "\<not> (sl_identity (pl_slaves s ! i) = MODBUS_SLAVE_REJECTED \<and> sl_recheck (pl_slaves s ! i) > 1)"
      using assms(5) by (auto simp: no_backoff_def not_less)
    then have "ensure_identity (fd_master bd tick) i p s b =
        Some (True, upd_slave i (\<lambda>x. x\<lparr>sl_identity := MODBUS_SLAVE_VERIFIED\<rparr>) s, b')"
      using False 1(1,4) w assms(4) by (auto simp: ensure_identity_def Let_def c matching_def)
    then show thesis using that [of b'] 1(2,3) False by simp
  qed
qed

text \<open>The slaves after a clean poll.\<close>

definition bumped :: "modbus_slave_state \<Rightarrow> u8" where
  "bumped x = (if sl_successes x < 3 then sl_successes x + 1 else sl_successes x)"

lemma alarm_ideal:
  assumes "bus_ok (dp_slave_addr p) e b" "bus_ideal b" "poll_alarm_flags (fd_master bd tick) p s b = Some (s', b')"
  shows "bus_ok (dp_slave_addr p) e b'" "bus_ideal b'" "pl_slaves s' = pl_slaves s" "pl_cache s' = pl_cache s"
    "pl_queue s' = pl_queue s"
proof -
  obtain err r c where t: "im_transact (fd_master bd tick) (fc04_request (dp_slave_addr p) FD_REG_ALARM_FLAGS 1 zero_frame)
      zero_frame b = Some (err, r, c)" "bus_ok (dp_slave_addr p) e c"
    using transact_device [OF assms(1), where cnt = 1 and bd = bd and tick = tick and start = FD_REG_ALARM_FLAGS] by auto
  have c: "bus_ideal c" by (rule ideal_kept [OF assms(1,2) _ _ t(1)]) simp_all
  show "bus_ok (dp_slave_addr p) e b'" "bus_ideal b'" "pl_slaves s' = pl_slaves s" "pl_cache s' = pl_cache s"
    "pl_queue s' = pl_queue s"
    using assms t c by (auto simp: poll_alarm_flags_def Let_def split: if_splits)
qed

lemma forward_fields [simp]:
  "pl_slaves (forward_response_to_consumers p entry r t s) = pl_slaves s"
  "pl_queue (forward_response_to_consumers p entry r t s) = pl_queue s"
  by (simp_all add: forward_response_to_consumers_def Let_def)

lemma record_fields [simp]:
  "pl_queue (record_poll_outcome i result s) = pl_queue s"
  by (simp add: record_poll_outcome_def Let_def emit_link_up_def emit_node_offline_def)

lemma poll_ideal:
  assumes "polling i (dp_slave_addr p) s" "bus_ok (dp_slave_addr p) e b" "bus_ideal b" "mc_ready (cells e)"
    and "matching p" "no_backoff (pl_slaves s ! i)"
  obtains s' b' t where "poll_slave (fd_master bd tick) p s b = Some (s', b')"
    "bus_ok (dp_slave_addr p) e b'" "bus_ideal b'" "polling i (dp_slave_addr p) s'"
    "sl_identity (pl_slaves s' ! i) = MODBUS_SLAVE_VERIFIED" "sl_successes (pl_slaves s' ! i) = bumped (pl_slaves s ! i)"
    "sl_online (pl_slaves s' ! i) \<longleftrightarrow> sl_online (pl_slaves s ! i) \<or> bumped (pl_slaves s ! i) = 3"
    "pl_cache s' ! i = device_reading e t" "pl_queue s' = pl_queue s" "pl_initialised s' = pl_initialised s"
proof -
  let ?M = "fd_master bd tick" and ?a = "dp_slave_addr p"
  note d = pollingD [OF assms(1)]
  have wf: "poller_wf s" using d(1) by (simp add: link_inv_alt)
  have claim: "find_or_claim_slot ?a s = (Some i, s)" by (rule claim_own [OF wf d(2-4)])
  have map: "map_for p = Some (hd k_map_table)" using assms(5) by (simp add: map_for_def k_map_table_def matching_def)
  define s1 where "s1 = (if sl_identity (pl_slaves s ! i) = MODBUS_SLAVE_VERIFIED then s
    else upd_slave i (\<lambda>x. x\<lparr>sl_identity := MODBUS_SLAVE_VERIFIED\<rparr>) s)"
  obtain b1 where 1: "ensure_identity ?M i p s b = Some (True, s1, b1)" "bus_ok ?a e b1" "bus_ideal b1"
    unfolding s1_def by (rule identity_ideal [OF assms(2-6)])
  have i1: "i < length (pl_slaves s1)" using d(2,5) by (simp add: s1_def)
  have x1: "pl_slaves s1 ! i = (pl_slaves s ! i)\<lparr>sl_identity := MODBUS_SLAVE_VERIFIED\<rparr>"
    using d(2,5) by (auto simp: s1_def upd_slave_nth)
  have p1: "polling i ?a s1" by (rule identity_keeps_polling [OF assms(1) 1(1)])
  let ?vs = "[env_value e SENSOR_ID_TEMPERATURE 0x8000, env_value e SENSOR_ID_HUMIDITY 0xFFFF, env_value e SENSOR_ID_PRESSURE 0xFFFF]"
  have req: "build_poll_request p (hd k_map_table) zero_frame = fc04_request ?a 0x0010 3 zero_frame"
    by (simp add: build_poll_request_def k_map_table_def)
  obtain r b2 where 2: "im_transact ?M (fc04_request ?a 0x0010 3 zero_frame) zero_frame b1 = Some (MODBUS_MASTER_ERR_OK, r, b2)"
    "bus_ok ?a e b2" "bus_ideal b2" "mf_data_len r = 7" "take 7 (mf_data r) = read_data ?vs"
    by (rule transact_ideal [OF 1(2,3) _ _ env_view [OF assms(4)]]) simp_all
  let ?s2 = "record_poll_outcome i MODBUS_MASTER_ERR_OK s1" and ?t = "im_tick ?M b2"
  let ?s3 = "forward_response_to_consumers p (hd k_map_table) r ?t ?s2"
  have p2: "polling i ?a ?s2" by (rule record_keeps_polling [OF p1])
  have slot: "find_slot_index ?a ?s2 = i"
    using pollingD [OF p2] by (intro find_slot_own) (simp_all add: link_inv_alt)
  have c3: "pl_cache ?s3 ! i = device_reading e ?t"
    using 2(4) slot decode_device [OF 2(5), of ?t] d(2) pollingD(7) [OF p2]
    by (simp add: forward_response_to_consumers_def MODBUS_MAX_SLAVES_def) (simp add: k_map_table_def)
  obtain s' b' where 3: "poll_alarm_flags ?M p ?s3 b2 = Some (s', b')"
    using alarm_device [OF 2(2), where bd = bd and tick = tick and s = ?s3] by (auto split: option.splits)
  note al = alarm_ideal [OF 2(2,3) 3]
  have ps: "poll_slave ?M p s b = Some (s', b')"
    using 3 by (simp add: poll_slave_def claim map 1(1) req 2(1) Let_def)
  have p': "polling i ?a s'" by (rule alarm_keeps_polling [OF forward_keeps_polling [OF p2] 3])
  show thesis
  proof (rule that [OF ps al(1,2) p'])
    show "sl_identity (pl_slaves s' ! i) = MODBUS_SLAVE_VERIFIED" "sl_successes (pl_slaves s' ! i) = bumped (pl_slaves s ! i)"
      "sl_online (pl_slaves s' ! i) \<longleftrightarrow> sl_online (pl_slaves s ! i) \<or> bumped (pl_slaves s ! i) = 3"
      by (simp_all add: al(3) record_ok(2) [OF i1] x1 bumped_def)
    show "pl_cache s' ! i = device_reading e ?t" using c3 al(4) by simp
    show "pl_queue s' = pl_queue s" by (simp add: al(5) s1_def upd_slave_def)
    show "pl_initialised s' = pl_initialised s" by (rule initialised_poll_slave [OF ps])
  qed
qed

section \<open>The count of successes saturates\<close>

definition counts_ok :: "poller \<Rightarrow> bool" where
  "counts_ok s \<longleftrightarrow> (\<forall>x \<in> set (pl_slaves s). sl_successes x \<le> 3)"

lemma counts_upd:
  assumes "counts_ok s" "\<And>x. sl_successes x \<le> 3 \<Longrightarrow> sl_successes (f x) \<le> 3"
  shows "counts_ok (upd_slave i f s)"
proof (cases "i < length (pl_slaves s)")
  case True
  then have "sl_successes (f (pl_slaves s ! i)) \<le> 3" using assms by (simp add: counts_ok_def)
  then show ?thesis using assms(1) by (auto simp: counts_ok_def upd_slave_def dest: set_update_subset_insert [THEN subsetD])
next
  case False
  then show ?thesis using assms(1) by (simp add: counts_ok_def upd_slave_def)
qed

lemma counts_other [simp]:
  "counts_ok (emit os s) = counts_ok s" "counts_ok (s\<lparr>pl_queue := q\<rparr>) = counts_ok s"
  "counts_ok (s\<lparr>pl_cache := c\<rparr>) = counts_ok s" "counts_ok (s\<lparr>pl_alarm_flags := f\<rparr>) = counts_ok s"
  "counts_ok (s\<lparr>pl_poll_period_ms := ms\<rparr>) = counts_ok s" "counts_ok (s\<lparr>pl_alarm_cb := b\<rparr>) = counts_ok s"
  "counts_ok (s\<lparr>pl_link_up_cb := b\<rparr>) = counts_ok s"
  by (simp_all add: counts_ok_def)

lemma saturating: "(x :: u8) \<le> 3 \<Longrightarrow> (if x < 3 then x + 1 else x) \<le> 3"
  by (simp add: word_le_nat_alt word_less_nat_alt unat_word_ariths)

lemma counts_record:
  assumes "counts_ok s"
  shows "counts_ok (record_poll_outcome i result s)"
proof -
  have 1: "counts_ok (upd_slave i (\<lambda>x. x\<lparr>sl_failures := 0,
      sl_successes := (if sl_successes x < HYSTERESIS_THRESHOLD then sl_successes x + 1 else sl_successes x)\<rparr>) s)"
    by (rule counts_upd [OF assms]) (use saturating in \<open>simp add: HYSTERESIS_THRESHOLD_def\<close>)
  have 2: "counts_ok (upd_slave i (\<lambda>x. x\<lparr>sl_successes := 0,
      sl_failures := (if sl_failures x < HYSTERESIS_THRESHOLD then sl_failures x + 1 else sl_failures x)\<rparr>) s)"
    by (rule counts_upd [OF assms]) simp
  have 3: "counts_ok (upd_slave i (\<lambda>x. x\<lparr>sl_online := True\<rparr>) t)"
    "counts_ok (upd_slave i (\<lambda>x. x\<lparr>sl_online := False, sl_identity := MODBUS_SLAVE_UNVERIFIED\<rparr>) t)" if "counts_ok t" for t
    by (rule counts_upd [OF that], simp)+
  show ?thesis
    using 1 2 3 [OF 1] 3 [OF 2]
    by (simp add: record_poll_outcome_def Let_def emit_link_up_def emit_node_offline_def del: fun_upd_apply)
qed

lemma counts_reject:
  assumes "counts_ok s"
  shows "counts_ok (reject_slave i s)"
proof -
  have 1: "counts_ok (upd_slave i (\<lambda>x. x\<lparr>sl_online := False\<rparr>) t)" "counts_ok (upd_slave i (\<lambda>x. x\<lparr>sl_successes := 0\<rparr>) t)"
    "counts_ok (upd_slave i (\<lambda>x. x\<lparr>sl_identity := MODBUS_SLAVE_REJECTED, sl_recheck := REJECTED_RECHECK_CYCLES\<rparr>) t)"
    if "counts_ok t" for t
    by (rule counts_upd [OF that], simp)+
  show ?thesis using assms by (simp add: reject_slave_def Let_def emit_node_offline_def 1)
qed

lemma counts_poll_slave:
  assumes "poll_slave M p s m = Some (s', m')" "counts_ok s"
  shows "counts_ok s'"
proof -
  have id: "counts_ok t'" if "ensure_identity M i p t k = Some (v, t', k')" "counts_ok t" for i t k v t' k'
    using that by (auto simp: ensure_identity_def Let_def bind_eq_Some_conv split: if_splits
        intro!: counts_upd counts_record counts_reject)
  have al: "counts_ok t'" if "poll_alarm_flags M p t k = Some (t', k')" "counts_ok t" for t k t' k'
    using that by (auto simp: poll_alarm_flags_def Let_def bind_eq_Some_conv split: if_splits)
  have fw: "counts_ok (forward_response_to_consumers p entry r k t)" if "counts_ok t" for entry r k t
    using that by (simp add: forward_response_to_consumers_def Let_def)
  have cl: "counts_ok t" if "find_or_claim_slot a s = (r, t)" for a r t
    using that assms(2) by (auto simp: find_or_claim_slot_def intro: counts_upd split: prod.splits option.splits bool.splits)
  show ?thesis
    using assms(1)
    by (auto simp: poll_slave_def Let_def bind_eq_Some_conv split: prod.splits option.splits if_splits
        dest!: cl id al intro: fw counts_record counts_reject)
qed

lemma reach_counts: "poller_reach M (R, s, m) \<Longrightarrow> counts_ok s"
proof (induction "(R, s, m)" arbitrary: R s m rule: poller_reach.induct)
  case (start period s0 s R m)
  then show ?case
    by (auto simp: modbus_poller_init_def counts_ok_def zero_slave_def split: if_splits)
next
  case (step c R' s' m')
  obtain R s m where c: "c = (R, s, m)" by (metis surj_pair)
  have r: "registry_wf R" "reg_initialised R" using reach_link_inv [OF step(1)] by (simp_all add: c)
  have s: "counts_ok s" by (rule step(2) [OF c])
  have "counts_ok s' \<and> registry_wf R' \<and> reg_initialised R'"
  proof (rule step_keeps [where I = counts_ok, OF step(3) [unfolded c] s r])
    show "counts_ok t" if "poll_cycle M R s k = Some (t, k')" for k t k'
      by (rule poll_cycle_keeps [where I = counts_ok, OF that s r]) (auto dest: counts_poll_slave)
    show "counts_ok (upd_slave i (\<lambda>x. x\<lparr>sl_recheck := 0, sl_identity := MODBUS_SLAVE_UNVERIFIED\<rparr>) s)" for i
      by (rule counts_upd [OF s]) simp
  qed (use s in simp_all)
  then show ?case by simp
qed

section \<open>Recovery\<close>

lemma cycle_ideal:
  assumes "polling i (dp_slave_addr p) s" "bus_ok (dp_slave_addr p) e b" "bus_ideal b" "mc_ready (cells e)"
    and "matching p" "no_backoff (pl_slaves s ! i)" "registry_wf R" "reg_initialised R" "live R = [p]" "pl_queue s = []"
  obtains s' b' t where "poll_cycle (fd_master bd tick) R s b = Some (s', b')"
    "bus_ok (dp_slave_addr p) e b'" "bus_ideal b'" "polling i (dp_slave_addr p) s'" "sl_identity (pl_slaves s' ! i) = MODBUS_SLAVE_VERIFIED"
    "sl_successes (pl_slaves s' ! i) = bumped (pl_slaves s ! i)"
    "sl_online (pl_slaves s' ! i) \<longleftrightarrow> sl_online (pl_slaves s ! i) \<or> bumped (pl_slaves s ! i) = 3"
    "pl_cache s' ! i = device_reading e t" "pl_queue s' = []" "pl_initialised s' = pl_initialised s"
proof -
  let ?M = "fd_master bd tick"
  obtain u b' t where u: "poll_slave ?M p s b = Some (u, b')" "bus_ok (dp_slave_addr p) e b'" "bus_ideal b'"
    "polling i (dp_slave_addr p) u" "sl_identity (pl_slaves u ! i) = MODBUS_SLAVE_VERIFIED"
    "sl_successes (pl_slaves u ! i) = bumped (pl_slaves s ! i)"
    "sl_online (pl_slaves u ! i) \<longleftrightarrow> sl_online (pl_slaves s ! i) \<or> bumped (pl_slaves s ! i) = 3"
    "pl_cache u ! i = device_reading e t" "pl_queue u = pl_queue s" "pl_initialised u = pl_initialised s"
    by (rule poll_ideal [OF assms(1-6)])
  have c: "poll_cycle ?M R s b = Some (report_health_metrics ?M u b', b')"
    by (simp add: poll_cycle_def drain_commands_def assms(10) poll_slaves_eq [OF assms(7,8)] assms(9) u(1))
  have r: "pl_slaves (report_health_metrics ?M u b') = pl_slaves u" "pl_cache (report_health_metrics ?M u b') = pl_cache u"
    "pl_queue (report_health_metrics ?M u b') = pl_queue u" "pl_initialised (report_health_metrics ?M u b') = pl_initialised u"
    by (simp_all add: report_health_metrics_def split: prod.splits)
  have pr: "polling i (dp_slave_addr p) (report_health_metrics ?M u b')"
    using u(4) by (auto simp: report_health_metrics_def map_filter_simps intro: polling_emit split: prod.splits)
  show thesis
    by (rule that [OF c u(2,3) pr]) (use u assms(10) in \<open>simp_all add: r\<close>)
qed

lemma three_bumps:
  assumes "sl_successes x \<le> 3" "sl_successes y = bumped x" "sl_successes z = bumped y"
  shows "bumped z = 3"
proof -
  have "unat (sl_successes x) \<le> 3" using assms(1) by (simp add: word_le_nat_alt)
  then have "unat (sl_successes x) = 0 \<or> unat (sl_successes x) = 1 \<or> unat (sl_successes x) = 2 \<or> unat (sl_successes x) = 3"
    by linarith
  then consider "sl_successes x = 0" | "sl_successes x = 1" | "sl_successes x = 2" | "sl_successes x = 3"
    by (simp only: word_unat_eq_iff) auto
  then show ?thesis by cases (simp_all add: bumped_def assms)
qed

text \<open>C9: the link recovers.  Take any reachable state of the poller with no command queued, in which the
  Field Device is the only provisioned slave, its profile has the device's map version and vendor code,
  it has a slot, and if it was rejected its back-off ends with the next turn; and a started master with a
  nonzero timeout and fewer than 255 retries on a bus without faults whose peer is the device at that
  address.  Then three cycles return, and a reader is given the values its registers hold, marked online.\<close>

theorem link_recovers:
  assumes "poller_reach (fd_master bd tick) (R, s, b)" "live R = [p]" "matching p" "pl_queue s = []"
    and "i < 4" "sl_addr (pl_slaves s ! i) = dp_slave_addr p" "no_backoff (pl_slaves s ! i)"
    and "bus_ok (dp_slave_addr p) e b" "bus_ideal b" "mc_ready (cells e)"
  shows "\<exists>s' b' t. poll_cycles 3 (fd_master bd tick) R s b = Some (s', b') \<and> bus_ok (dp_slave_addr p) e b' \<and>
    modbus_poller_get_fd_reading R (dp_slave_addr p) (Some out) s' =
      (MODBUS_POLLER_ERR_OK, Some (fd_cache.extend (device_reading e t) \<lparr>rd_link_online = True\<rparr>))"
proof -
  have r: "link_inv s" "registry_wf R" "reg_initialised R" using reach_link_inv [OF assms(1)] by simp_all
  have a: "dp_slave_addr p \<noteq> 0" by (rule live_addr [OF r(2)]) (simp add: assms(2))
  have p0: "polling i (dp_slave_addr p) s" using r(1) assms(5,6) a by (simp add: polling_def)
  have n: "sl_successes (pl_slaves s ! i) \<le> 3"
    using reach_counts [OF assms(1)] pollingD(5) [OF p0] assms(5) by (simp add: counts_ok_def)
  obtain s1 b1 t1 where 1: "poll_cycle (fd_master bd tick) R s b = Some (s1, b1)"
    "bus_ok (dp_slave_addr p) e b1" "bus_ideal b1" "polling i (dp_slave_addr p) s1" "sl_identity (pl_slaves s1 ! i) = MODBUS_SLAVE_VERIFIED"
    "sl_successes (pl_slaves s1 ! i) = bumped (pl_slaves s ! i)" "pl_queue s1 = []" "pl_initialised s1 = pl_initialised s"
    by (rule cycle_ideal [OF p0 assms(8-10) assms(3) assms(7) r(2,3) assms(2,4)])
  obtain s2 b2 t2 where 2: "poll_cycle (fd_master bd tick) R s1 b1 = Some (s2, b2)"
    "bus_ok (dp_slave_addr p) e b2" "bus_ideal b2" "polling i (dp_slave_addr p) s2" "sl_identity (pl_slaves s2 ! i) = MODBUS_SLAVE_VERIFIED"
    "sl_successes (pl_slaves s2 ! i) = bumped (pl_slaves s1 ! i)" "pl_queue s2 = []" "pl_initialised s2 = pl_initialised s1"
    by (rule cycle_ideal [OF 1(4,2,3) assms(10) assms(3) no_backoffI [OF 1(5)] r(2,3) assms(2) 1(7)])
  obtain s3 b3 t3 where 3: "poll_cycle (fd_master bd tick) R s2 b2 = Some (s3, b3)"
    "bus_ok (dp_slave_addr p) e b3" "polling i (dp_slave_addr p) s3"
    "sl_online (pl_slaves s3 ! i) \<longleftrightarrow> sl_online (pl_slaves s2 ! i) \<or> bumped (pl_slaves s2 ! i) = 3"
    "pl_cache s3 ! i = device_reading e t3" "pl_initialised s3 = pl_initialised s2"
    by (rule cycle_ideal [OF 2(4,2,3) assms(10) assms(3) no_backoffI [OF 2(5)] r(2,3) assms(2) 2(7)])
  have on: "sl_online (pl_slaves s3 ! i)" using 3(4) three_bumps [OF n 1(6) 2(6)] by simp
  have run: "poll_cycles 3 (fd_master bd tick) R s b = Some (s3, b3)"
    by (simp add: numeral_3_eq_3 1(1) 2(1) 3(1))
  have slot: "find_slot_index (dp_slave_addr p) s3 = i"
    using pollingD [OF 3(3)] by (intro find_slot_own) (simp_all add: link_inv_alt)
  have reg: "provider_is_registered (dp_slave_addr p) R" by (rule profile_registered [OF r(2,3)]) (simp add: assms(2))
  have "modbus_poller_get_fd_reading R (dp_slave_addr p) (Some out) s3 =
      (MODBUS_POLLER_ERR_OK, Some (fd_cache.extend (device_reading e t3) \<lparr>rd_link_online = True\<rparr>))"
    using on slot reg 3(5) 3(6) 2(8) 1(8) reach_initialised [OF assms(1)] assms(5)
    by (simp add: modbus_poller_get_fd_reading_def MODBUS_MAX_SLAVES_def Let_def)
  with run 3(2) show ?thesis by blast
qed

section \<open>The development's concrete system\<close>

text \<open>A slot is claimed while the profile asks for an unknown map, and the slave is probed again when
  the profile is put right.\<close>

definition wrong_map :: "(device_profile list \<times> u8) option registry" where
  "wrong_map = demo_registry\<lparr>reg_profiles := default_profile\<lparr>dp_map_version := 2\<rparr> # replicate 7 zero_profile\<rparr>"

lemma wrong_map_wf: "registry_wf wrong_map" "reg_initialised wrong_map" "live wrong_map = [default_profile\<lparr>dp_map_version := 2\<rparr>]"
proof -
  have l: "live wrong_map = [default_profile\<lparr>dp_map_version := 2\<rparr>]"
    by (simp add: live_def wrong_map_def demo_registry_def)
  have "profile_valid default_profile" using default_table_ok by (simp add: table_ok_def)
  then have "table_ok (live wrong_map)" unfolding l by (simp add: table_ok_def profile_valid_def)
  then show "registry_wf wrong_map" by (simp add: registry_wf_def) (simp add: wrong_map_def demo_registry_def)
  show "reg_initialised wrong_map" by (simp add: wrong_map_def demo_registry_def)
  show "live wrong_map = [default_profile\<lparr>dp_map_version := 2\<rparr>]" by (rule l)
qed

lemma default_addr: "dp_slave_addr default_profile = 1" "matching default_profile" "dp_map_version default_profile = 1"
  by (simp_all add: default_profile_def Let_def matching_def DEVICE_PROFILE_DEFAULT_ADDR_def
      DEVICE_PROFILE_DEFAULT_MAP_VERSION_def DEVICE_PROFILE_DEFAULT_VENDOR_CODE_def)

lemma demo_slaves: "pl_slaves demo_poller = [zero_slave, zero_slave, zero_slave, zero_slave]"
  "pl_queue demo_poller = []" "pl_initialised demo_poller"
proof -
  have "replicate 4 x = [x, x, x, x]" for x :: modbus_slave_state by (simp add: numeral_eq_Suc)
  then show "pl_slaves demo_poller = [zero_slave, zero_slave, zero_slave, zero_slave]"
    by (simp add: demo_poller_def modbus_poller_init_def idle_poller_def MODBUS_MAX_SLAVES_def)
  show "pl_queue demo_poller = []" "pl_initialised demo_poller"
    by (simp_all add: demo_poller_def modbus_poller_init_def idle_poller_def)
qed

lemma slot_claimed:
  "\<exists>s. poller_reach M (demo_registry, s, b) \<and> pl_queue s = [] \<and> sl_addr (pl_slaves s ! 0) = 1 \<and>
     sl_identity (pl_slaves s ! 0) = MODBUS_SLAVE_UNVERIFIED"
proof -
  define t where "t = reject_slave 0 (upd_slave 0 (\<lambda>x. x\<lparr>sl_addr := 1\<rparr>) demo_poller)"
  note d = demo_slaves zero_slave_def
  have "find_or_claim_slot 1 demo_poller = (Some 0, upd_slave 0 (\<lambda>x. x\<lparr>sl_addr := 1\<rparr>) demo_poller)"
    by (simp add: find_or_claim_slot_def d)
  moreover have "map_for (default_profile\<lparr>dp_map_version := 2\<rparr>) = None" by (simp add: map_for_def k_map_table_def)
  ultimately have "poll_slave M (default_profile\<lparr>dp_map_version := 2\<rparr>) demo_poller b = Some (t, b)"
    by (simp add: poll_slave_def default_addr t_def)
  then have cyc: "poll_cycle M wrong_map demo_poller b = Some (report_health_metrics M t b, b)"
    by (simp add: poll_cycle_def drain_commands_def poll_slaves_eq wrong_map_wf) (simp add: d)
  let ?u = "report_health_metrics M t b"
  have 1: "poller_reach M (demo_registry, ?u, b)"
    by (rule poller_reach.step [OF poller_reach.step [OF demo_reach poller_step.cycle [OF cyc]] poller_step.provision])
       (simp_all add: wrong_map_wf demo_registry_wf)
  obtain e s where s: "modbus_poller_reprobe demo_registry 1 ?u = (e, s)" by fastforce
  have "poller_reach M (demo_registry, s, b)" by (rule poller_reach.step [OF 1 poller_step.reprobe [OF s]])
  moreover have reg: "provider_is_registered 1 demo_registry"
    using profile_registered [OF demo_registry_wf(1,2), of default_profile] by (simp add: demo_registry_wf(3) default_addr)
  have tf: "pl_slaves ?u = pl_slaves t" "pl_queue ?u = pl_queue t" "pl_initialised ?u = pl_initialised t"
    by (simp_all add: report_health_metrics_def split: prod.splits)
  have tl: "pl_slaves t = [\<lparr>sl_addr = 1, sl_successes = 0, sl_failures = 0, sl_online = False, sl_identity = MODBUS_SLAVE_REJECTED,
      sl_recheck = REJECTED_RECHECK_CYCLES\<rparr>, zero_slave, zero_slave, zero_slave]" "pl_queue t = []" "pl_initialised t"
    by (simp_all add: t_def reject_slave_def Let_def upd_slave_def d emit_node_offline_def)
  have "s = upd_slave 0 (\<lambda>x. x\<lparr>sl_recheck := 0, sl_identity := MODBUS_SLAVE_UNVERIFIED\<rparr>) ?u"
    using s by (simp add: modbus_poller_reprobe_def tf tl reg find_slot_index_def MODBUS_MAX_SLAVES_def Let_def)
  then have "pl_queue s = []" "sl_addr (pl_slaves s ! 0) = 1" "sl_identity (pl_slaves s ! 0) = MODBUS_SLAVE_UNVERIFIED"
    by (simp_all add: upd_slave_def tf tl)
  ultimately show ?thesis by blast
qed

lemma demo_bus_ok: "bus_ok 1 (ms_env demo_fd) (demo_master, demo_link faults demo_fd)"
  by (simp add: bus_ok_def demo_link_ready demo_wf demo_addr)

theorem link_recovers_witness:
  "\<exists>s s' b' t. poller_reach (fd_master demo_board (\<lambda>_. 7)) (demo_registry, s, (demo_master, demo_link [] demo_fd)) \<and>
    poll_cycles 3 (fd_master demo_board (\<lambda>_. 7)) demo_registry s (demo_master, demo_link [] demo_fd) = Some (s', b') \<and>
    modbus_poller_get_fd_reading demo_registry 1 (Some (fd_cache.extend zero_cache \<lparr>rd_link_online = False\<rparr>)) s' =
      (MODBUS_POLLER_ERR_OK, Some (fd_cache.extend (device_reading (ms_env demo_fd) t) \<lparr>rd_link_online = True\<rparr>))"
proof -
  let ?M = "fd_master demo_board (\<lambda>_. 7)" and ?b = "(demo_master, demo_link [] demo_fd)"
  obtain s where s: "poller_reach ?M (demo_registry, s, ?b)" "pl_queue s = []" "sl_addr (pl_slaves s ! 0) = 1"
    "sl_identity (pl_slaves s ! 0) = MODBUS_SLAVE_UNVERIFIED"
    using slot_claimed [of ?M ?b] by (elim exE conjE) (rule that)
  have "\<exists>s' b' t. poll_cycles 3 ?M demo_registry s ?b = Some (s', b') \<and>
      bus_ok (dp_slave_addr default_profile) (ms_env demo_fd) b' \<and>
      modbus_poller_get_fd_reading demo_registry (dp_slave_addr default_profile)
        (Some (fd_cache.extend zero_cache \<lparr>rd_link_online = False\<rparr>)) s' =
        (MODBUS_POLLER_ERR_OK, Some (fd_cache.extend (device_reading (ms_env demo_fd) t) \<lparr>rd_link_online = True\<rparr>))"
    by (rule link_recovers [where i = 0, OF s(1) demo_registry_wf(3) _ s(2)])
       (simp_all add: s(3,4) default_addr no_backoff_def demo_bus_ok bus_ideal_def demo_boot(6))
  then obtain s' b' t where "poll_cycles 3 ?M demo_registry s ?b = Some (s', b')"
    "modbus_poller_get_fd_reading demo_registry 1 (Some (fd_cache.extend zero_cache \<lparr>rd_link_online = False\<rparr>)) s' =
      (MODBUS_POLLER_ERR_OK, Some (fd_cache.extend (device_reading (ms_env demo_fd) t) \<lparr>rd_link_online = True\<rparr>))"
    unfolding default_addr(1) by (elim exE conjE) (rule that)
  then show ?thesis by (intro exI conjI) (rule s(1), assumption+)
qed

theorem poll_caches_device_reading_witness:
  "\<exists>s s' b' t. poll_slave (fd_master demo_board (\<lambda>_. 7)) default_profile s
      (demo_master, demo_link [Reply_Lost, Request_Burst 2 7 9] demo_fd) = Some (s', b') \<and>
    modbus_poller_get_fd_reading demo_registry 1 (Some (fd_cache.extend zero_cache \<lparr>rd_link_online = False\<rparr>)) s' =
      (MODBUS_POLLER_ERR_OK, Some (fd_cache.extend (device_reading (ms_env demo_fd) t) \<lparr>rd_link_online = sl_online (pl_slaves s' ! 0)\<rparr>))"
proof -
  let ?M = "fd_master demo_board (\<lambda>_. 7)" and ?b = "(demo_master, demo_link [] demo_fd)"
    and ?c = "(demo_master, demo_link [Reply_Lost, Request_Burst 2 7 9] demo_fd)"
  obtain s where s: "poller_reach ?M (demo_registry, s, ?b)" "pl_queue s = []" "sl_addr (pl_slaves s ! 0) = 1"
    "sl_identity (pl_slaves s ! 0) = MODBUS_SLAVE_UNVERIFIED"
    using slot_claimed [of ?M ?b] by (elim exE conjE) (rule that)
  have p: "polling 0 (dp_slave_addr default_profile) s"
    using reach_link_inv [OF s(1)] s(3) by (simp add: polling_def default_addr)
  obtain u b' where u: "poll_cycle ?M demo_registry s ?b = Some (u, b')" "polling 0 (dp_slave_addr default_profile) u"
    "sl_identity (pl_slaves u ! 0) = MODBUS_SLAVE_VERIFIED"
    by (rule cycle_ideal [OF p _ _ _ default_addr(2) _ demo_registry_wf s(2), where e = "ms_env demo_fd" and b = ?b and bd = demo_board and tick = "\<lambda>_. 7"])
       (simp_all add: s(4) default_addr no_backoff_def demo_bus_ok bus_ideal_def demo_boot(6))
  have r: "poller_reach ?M (demo_registry, u, ?c)"
    by (rule poller_reach.step [OF poller_reach.step [OF s(1) poller_step.cycle [OF u(1)]] poller_step.bus])
  have clean: "bus_clean ?c" by (auto simp: bus_clean_def fault_at_def intro!: exI [of _ 2])
  have a: "sl_addr (pl_slaves u ! 0) = dp_slave_addr default_profile" using pollingD(3) [OF u(2)] .
  have bok: "bus_ok (dp_slave_addr default_profile) (ms_env demo_fd) ?c" by (simp add: default_addr demo_bus_ok)
  have "default_profile \<in> set (live demo_registry)" by (simp add: demo_registry_wf)
  from poll_caches_device_reading [OF r this default_addr(3) zero_less_numeral a bok demo_boot(6), of "fd_cache.extend zero_cache \<lparr>rd_link_online = False\<rparr>"]
  obtain s' b' c t where 1: "poll_slave ?M default_profile u ?c = Some (s', b')"
    "modbus_poller_get_fd_reading demo_registry 1 (Some (fd_cache.extend zero_cache \<lparr>rd_link_online = False\<rparr>)) s' =
      (MODBUS_POLLER_ERR_OK, Some (fd_cache.extend c \<lparr>rd_link_online = sl_online (pl_slaves s' ! 0)\<rparr>))"
    "sl_identity (pl_slaves u ! 0) = MODBUS_SLAVE_VERIFIED \<and> bus_clean ?c \<longrightarrow> c = device_reading (ms_env demo_fd) t"
    unfolding default_addr(1) by (elim exE conjE) (rule that)
  have "c = device_reading (ms_env demo_fd) t" using 1(3) clean u(3) by simp
  then show ?thesis using 1(1,2) by (intro exI conjI) (assumption, simp)
qed

end
