(* ===== verification/Internal_Flash.thy ===== *)
theory Internal_Flash
  imports Config_Store
begin

text \<open>
  The on-chip flash of the gateway: the interface \<^verbatim>\<open>drivers/internal_flash/iinternal_flash.h\<close> and the
  driver \<^verbatim>\<open>internal_flash.c\<close>.  The register sequences (the bounded busy wait, unlocking, selecting and
  starting an erase, the two stores of a double word, locking and flushing the caches) are the
  operations of \<open>flash_ctl\<close> over the state of the controller.  The locale \<open>flash_controller\<close> states what
  the controller documents, the locale \<open>onchip_flash\<close> what the clients of the driver rely on; the first
  gives the second.
\<close>

section \<open>Interface\<close>

datatype internal_flash_err =
    INTERNAL_FLASH_OK | INTERNAL_FLASH_ERR_NULL_POINTER | INTERNAL_FLASH_ERR_ADDR
  | INTERNAL_FLASH_ERR_ALIGN | INTERNAL_FLASH_ERR_ERASE | INTERNAL_FLASH_ERR_PROGRAM
  | INTERNAL_FLASH_ERR_NOT_INITIALISED | INTERNAL_FLASH_ERR_BANK_MODE

definition INTERNAL_FLASH_PAGE_SIZE_BYTES :: nat where "INTERNAL_FLASH_PAGE_SIZE_BYTES = 2048"
definition INTERNAL_FLASH_DWORD_SIZE_BYTES :: nat where "INTERNAL_FLASH_DWORD_SIZE_BYTES = 8"
definition INTERNAL_FLASH_BASE_ADDR :: nat where "INTERNAL_FLASH_BASE_ADDR = 0x08000000"
definition INTERNAL_FLASH_SIZE_BYTES :: nat where "INTERNAL_FLASH_SIZE_BYTES = 0x100000"
definition INTERNAL_FLASH_WRITABLE_FROM_ADDR :: nat where "INTERNAL_FLASH_WRITABLE_FROM_ADDR = 0x08004000"
definition IFLASH_PAGES_PER_BANK :: nat where "IFLASH_PAGES_PER_BANK = 256"

lemmas iflash_consts = INTERNAL_FLASH_PAGE_SIZE_BYTES_def INTERNAL_FLASH_DWORD_SIZE_BYTES_def
  INTERNAL_FLASH_BASE_ADDR_def INTERNAL_FLASH_SIZE_BYTES_def INTERNAL_FLASH_WRITABLE_FROM_ADDR_def
  IFLASH_PAGES_PER_BANK_def

record 'f iinternal_flash =
  if_erase_page :: "nat \<Rightarrow> 'f \<Rightarrow> internal_flash_err \<times> 'f"
  if_program :: "nat \<Rightarrow> u8 list \<Rightarrow> 'f \<Rightarrow> internal_flash_err \<times> 'f"
  if_read :: "nat \<Rightarrow> nat \<Rightarrow> 'f \<Rightarrow> internal_flash_err \<times> u8 list"

section \<open>Driver\<close>

text \<open>The registers and the memory-mapped array, as \<^verbatim>\<open>internal_flash_hw.h\<close> reaches them: reading
  \<^verbatim>\<open>SR.BSY\<close> lets time pass; a word of a double word is stored as its four bytes; flushing is the pulse
  on the cache resets in \<^verbatim>\<open>ACR\<close>.\<close>

record 'h flash_ctl =
  fc_dualbank :: "'h \<Rightarrow> bool"
  fc_busy :: "'h \<Rightarrow> bool \<times> 'h"
  fc_errors :: "'h \<Rightarrow> bool"
  fc_clear_flags :: "'h \<Rightarrow> 'h"
  fc_clear_eop :: "'h \<Rightarrow> 'h"
  fc_locked :: "'h \<Rightarrow> bool"
  fc_key :: "u32 \<Rightarrow> 'h \<Rightarrow> 'h"
  fc_cr_lock :: "'h \<Rightarrow> 'h"
  fc_cr_pg :: "'h \<Rightarrow> 'h"
  fc_cr_erase :: "bool \<Rightarrow> nat \<Rightarrow> bool \<Rightarrow> 'h \<Rightarrow> 'h"
  fc_store32 :: "nat \<Rightarrow> u8 list \<Rightarrow> 'h \<Rightarrow> 'h"
  fc_flush :: "'h \<Rightarrow> 'h"
  fc_byte :: "'h \<Rightarrow> nat \<Rightarrow> u8"

record 'h iflash =
  ifl_initialised :: bool
  ifl_ctl :: 'h

definition IFLASH_BSY_POLL_LIMIT :: nat where "IFLASH_BSY_POLL_LIMIT = 4000000"
definition IFLASH_KEY1 :: u32 where "IFLASH_KEY1 = 0x45670123"
definition IFLASH_KEY2 :: u32 where "IFLASH_KEY2 = 0xCDEF89AB"

fun poll_idle :: "'h flash_ctl \<Rightarrow> nat \<Rightarrow> 'h \<Rightarrow> bool \<times> 'h" where
  "poll_idle C 0 h = (let (busy, h) = fc_busy C h in (\<not> busy, h))"
| "poll_idle C (Suc polls) h = (let (busy, h) = fc_busy C h in if busy then poll_idle C polls h else (True, h))"

definition wait_idle :: "'h flash_ctl \<Rightarrow> 'h \<Rightarrow> bool \<times> 'h" where
  "wait_idle C h = poll_idle C IFLASH_BSY_POLL_LIMIT h"

definition unlock :: "'h flash_ctl \<Rightarrow> 'h \<Rightarrow> bool \<times> 'h" where
  "unlock C h =
     (let h = (if fc_locked C h then fc_key C IFLASH_KEY2 (fc_key C IFLASH_KEY1 h) else h) in (\<not> fc_locked C h, h))"

definition lock_and_flush :: "'h flash_ctl \<Rightarrow> 'h \<Rightarrow> 'h" where
  "lock_and_flush C h = fc_flush C (fc_cr_lock C h)"

text \<open>Select the page, then start; and the two stores of a double word.\<close>

definition start_erase :: "'h flash_ctl \<Rightarrow> bool \<Rightarrow> nat \<Rightarrow> 'h \<Rightarrow> 'h" where
  "start_erase C bank2 page h = fc_cr_erase C bank2 page True (fc_cr_erase C bank2 page False h)"

definition store_dword :: "'h flash_ctl \<Rightarrow> nat \<Rightarrow> u8 list \<Rightarrow> 'h \<Rightarrow> 'h" where
  "store_dword C addr d h = fc_store32 C (addr + 4) (drop 4 d) (fc_store32 C addr (take 4 d) h)"

definition in_flash :: "nat \<Rightarrow> nat \<Rightarrow> bool" where
  "in_flash addr len \<longleftrightarrow>
     addr \<ge> INTERNAL_FLASH_BASE_ADDR \<and> addr < INTERNAL_FLASH_BASE_ADDR + INTERNAL_FLASH_SIZE_BYTES \<and>
     len \<le> INTERNAL_FLASH_BASE_ADDR + INTERNAL_FLASH_SIZE_BYTES - addr"

definition in_writable_flash :: "nat \<Rightarrow> nat \<Rightarrow> bool" where
  "in_writable_flash addr len \<longleftrightarrow> in_flash addr len \<and> addr \<ge> INTERNAL_FLASH_WRITABLE_FROM_ADDR"

definition internal_flash_init :: "'h flash_ctl \<Rightarrow> 'h iflash \<Rightarrow> internal_flash_err \<times> 'h iflash" where
  "internal_flash_init C s =
     (if \<not> fc_dualbank C (ifl_ctl s) then (INTERNAL_FLASH_ERR_BANK_MODE, s\<lparr>ifl_initialised := False\<rparr>)
      else
        let h = ifl_ctl s; h = (if \<not> fc_locked C h then fc_cr_lock C h else h)
        in (INTERNAL_FLASH_OK, s\<lparr>ifl_initialised := True, ifl_ctl := h\<rparr>))"

definition internal_flash_erase_page :: "'h flash_ctl \<Rightarrow> nat \<Rightarrow> 'h iflash \<Rightarrow> internal_flash_err \<times> 'h iflash" where
  "internal_flash_erase_page C addr s =
     (if \<not> ifl_initialised s then (INTERNAL_FLASH_ERR_NOT_INITIALISED, s)
      else if addr mod INTERNAL_FLASH_PAGE_SIZE_BYTES \<noteq> 0 then (INTERNAL_FLASH_ERR_ALIGN, s)
      else if \<not> in_writable_flash addr INTERNAL_FLASH_PAGE_SIZE_BYTES then (INTERNAL_FLASH_ERR_ADDR, s)
      else
        let index = (addr - INTERNAL_FLASH_BASE_ADDR) div INTERNAL_FLASH_PAGE_SIZE_BYTES;
            bank2 = index \<ge> IFLASH_PAGES_PER_BANK;
            page = (if bank2 then index - IFLASH_PAGES_PER_BANK else index);
            (idle, h) = wait_idle C (ifl_ctl s)
        in if \<not> idle then (INTERNAL_FLASH_ERR_ERASE, s\<lparr>ifl_ctl := h\<rparr>)
           else
             let (ok, h) = unlock C (fc_clear_flags C h)
             in if \<not> ok then (INTERNAL_FLASH_ERR_ERASE, s\<lparr>ifl_ctl := h\<rparr>)
                else
                  let (idle, h) = wait_idle C (start_erase C bank2 page h);
                      failed = fc_errors C h;
                      h = lock_and_flush C (fc_clear_flags C h)
                  in (if idle \<and> \<not> failed then INTERNAL_FLASH_OK else INTERNAL_FLASH_ERR_ERASE, s\<lparr>ifl_ctl := h\<rparr>))"

text \<open>The loop over the double words.\<close>

fun program_dwords :: "'h flash_ctl \<Rightarrow> nat \<Rightarrow> u8 list list \<Rightarrow> 'h \<Rightarrow> internal_flash_err \<times> 'h" where
  "program_dwords C addr [] h = (INTERNAL_FLASH_OK, h)"
| "program_dwords C addr (d # ds) h =
     (let (idle, h) = wait_idle C (store_dword C addr d h)
      in if \<not> idle \<or> fc_errors C h then (INTERNAL_FLASH_ERR_PROGRAM, h)
         else program_dwords C (addr + INTERNAL_FLASH_DWORD_SIZE_BYTES) ds (fc_clear_eop C h))"

fun dwords :: "nat \<Rightarrow> 'a list \<Rightarrow> 'a list list" where
  "dwords 0 xs = []"
| "dwords (Suc n) xs = take 8 xs # dwords n (drop 8 xs)"

definition internal_flash_program ::
  "'h flash_ctl \<Rightarrow> nat \<Rightarrow> u8 list option \<Rightarrow> 'h iflash \<Rightarrow> internal_flash_err \<times> 'h iflash" where
  "internal_flash_program C addr data s =
     (if \<not> ifl_initialised s then (INTERNAL_FLASH_ERR_NOT_INITIALISED, s)
      else case data of None \<Rightarrow> (INTERNAL_FLASH_ERR_NULL_POINTER, s)
      | Some d \<Rightarrow>
          if addr mod 8 \<noteq> 0 \<or> length d mod 8 \<noteq> 0 \<or> d = [] then (INTERNAL_FLASH_ERR_ALIGN, s)
          else if \<not> in_writable_flash addr (length d) then (INTERNAL_FLASH_ERR_ADDR, s)
          else
            let (idle, h) = wait_idle C (ifl_ctl s)
            in if \<not> idle then (INTERNAL_FLASH_ERR_PROGRAM, s\<lparr>ifl_ctl := h\<rparr>)
               else
                 let (ok, h) = unlock C (fc_clear_flags C h)
                 in if \<not> ok then (INTERNAL_FLASH_ERR_PROGRAM, s\<lparr>ifl_ctl := h\<rparr>)
                    else
                      let (result, h) = program_dwords C addr (dwords (length d div 8) d) (fc_cr_pg C h)
                      in (result, s\<lparr>ifl_ctl := lock_and_flush C (fc_clear_flags C h)\<rparr>))"

definition internal_flash_read :: "'h flash_ctl \<Rightarrow> nat \<Rightarrow> nat \<Rightarrow> 'h iflash \<Rightarrow> internal_flash_err \<times> u8 list" where
  "internal_flash_read C addr len s =
     (if \<not> ifl_initialised s then (INTERNAL_FLASH_ERR_NOT_INITIALISED, [])
      else if len = 0 \<or> \<not> in_flash addr len then (INTERNAL_FLASH_ERR_ADDR, [])
      else (INTERNAL_FLASH_OK, map (\<lambda>i. fc_byte C (ifl_ctl s) (addr + i)) [0..<len]))"

definition internal_flash_driver :: "'h flash_ctl \<Rightarrow> 'h iflash iinternal_flash" where
  "internal_flash_driver C = \<lparr>
     if_erase_page = internal_flash_erase_page C,
     if_program = (\<lambda>addr data. internal_flash_program C addr (Some data)),
     if_read = internal_flash_read C\<rparr>"

section \<open>What the clients rely on\<close>

text \<open>A failed operation may leave anything in the range it is about, but changes nothing outside; what
  is read is the memory.\<close>

locale onchip_flash =
  fixes L :: "'f iinternal_flash" and view :: "'f \<Rightarrow> nat \<Rightarrow> u8"
  assumes read_ok: "if_read L a n f = (INTERNAL_FLASH_OK, bs) \<Longrightarrow> bs = bytes_at (view f) a n"
    and erase_outside: "x < a \<or> a + 2048 \<le> x \<Longrightarrow> view (snd (if_erase_page L a f)) x = view f x"
    and erase_inside: "fst (if_erase_page L a f) = INTERNAL_FLASH_OK \<Longrightarrow> a \<le> x \<Longrightarrow> x < a + 2048 \<Longrightarrow>
      view (snd (if_erase_page L a f)) x = 0xFF"
    and program_outside: "x < a \<or> a + length bs \<le> x \<Longrightarrow> view (snd (if_program L a bs f)) x = view f x"
    and program_inside: "fst (if_program L a bs f) = INTERNAL_FLASH_OK \<Longrightarrow> i < length bs \<Longrightarrow>
      view (snd (if_program L a bs f)) (a + i) = bs ! i"

text \<open>Flash that can be read: the driver is up.  Erasing and programming may still fail.\<close>

locale readable_onchip = onchip_flash L view for L :: "'f iinternal_flash" and view :: "'f \<Rightarrow> nat \<Rightarrow> u8" +
  fixes up :: "'f \<Rightarrow> bool"
  assumes read_works: "up f \<Longrightarrow> 0 < n \<Longrightarrow> 0x08000000 \<le> a \<Longrightarrow> a + n \<le> 0x08100000 \<Longrightarrow>
      fst (if_read L a n f) = INTERNAL_FLASH_OK"
    and erase_up: "up f \<Longrightarrow> up (snd (if_erase_page L a f))"
    and program_up: "up f \<Longrightarrow> up (snd (if_program L a bs f))"
begin

lemma read_value:
  assumes "up f" "0 < n" "0x08000000 \<le> a" "a + n \<le> 0x08100000"
  shows "if_read L a n f = (INTERNAL_FLASH_OK, bytes_at (view f) a n)"
  using read_works [OF assms] read_ok [of a n f "snd (if_read L a n f)"] by (cases "if_read L a n f") simp

end

text \<open>Flash that works: besides, every operation with a legal argument on an erased target succeeds.\<close>

locale working_onchip = readable_onchip L view sound for L :: "'f iinternal_flash" and view sound +
  assumes erase_works: "sound f \<Longrightarrow> a mod 2048 = 0 \<Longrightarrow> 0x08004000 \<le> a \<Longrightarrow> a + 2048 \<le> 0x08100000 \<Longrightarrow>
      fst (if_erase_page L a f) = INTERNAL_FLASH_OK"
    and program_works: "sound f \<Longrightarrow> a mod 8 = 0 \<Longrightarrow> length bs mod 8 = 0 \<Longrightarrow> bs \<noteq> [] \<Longrightarrow> 0x08004000 \<le> a \<Longrightarrow>
      a + length bs \<le> 0x08100000 \<Longrightarrow> (\<And>i. i < length bs \<Longrightarrow> view f (a + i) = 0xFF) \<Longrightarrow>
      fst (if_program L a bs f) = INTERNAL_FLASH_OK"

section \<open>The controller\<close>

lemma length_dwords [simp]: "length (dwords n xs) = n"
  by (induction n arbitrary: xs) auto

definition erased_page :: "bool \<Rightarrow> nat \<Rightarrow> nat" where
  "erased_page bank2 page = 0x08000000 + (if bank2 then 256 + page else page) * 2048"

locale flash_controller =
  fixes C :: "'h flash_ctl"
  assumes keeps: "fc_byte C (snd (fc_busy C h)) = fc_byte C h" "fc_byte C (fc_clear_flags C h) = fc_byte C h"
      "fc_byte C (fc_clear_eop C h) = fc_byte C h" "fc_byte C (fc_key C k h) = fc_byte C h"
      "fc_byte C (fc_cr_lock C h) = fc_byte C h" "fc_byte C (fc_cr_pg C h) = fc_byte C h"
      "fc_byte C (fc_flush C h) = fc_byte C h"
    and erased_outside: "x < erased_page b p \<or> erased_page b p + 2048 \<le> x \<Longrightarrow>
      fc_byte C (start_erase C b p h) x = fc_byte C h x"
    and erased_inside: "wait_idle C (start_erase C b p h) = (True, h') \<Longrightarrow> \<not> fc_errors C h' \<Longrightarrow>
      erased_page b p \<le> x \<Longrightarrow> x < erased_page b p + 2048 \<Longrightarrow> fc_byte C h' x = 0xFF"
    and stored_outside: "x < a \<or> a + 8 \<le> x \<Longrightarrow> fc_byte C (store_dword C a d h) x = fc_byte C h x"
    and stored_inside: "wait_idle C (store_dword C a d h) = (True, h') \<Longrightarrow> \<not> fc_errors C h' \<Longrightarrow>
      length d = 8 \<Longrightarrow> i < 8 \<Longrightarrow> fc_byte C h' (a + i) = d ! i"
begin

lemma poll_keeps: "poll_idle C n h = (r, h') \<Longrightarrow> fc_byte C h' = fc_byte C h"
proof (induction n arbitrary: h)
  case 0 then show ?case using keeps(1) [of h] by (auto split: prod.splits)
next
  case (Suc n) then show ?case using keeps(1) [of h] by (auto split: prod.splits if_splits)
qed

lemma wait_keeps: "wait_idle C h = (r, h') \<Longrightarrow> fc_byte C h' = fc_byte C h"
  by (simp add: wait_idle_def poll_keeps)

lemma unlock_keeps: "unlock C h = (r, h') \<Longrightarrow> fc_byte C h' = fc_byte C h"
  by (auto simp: unlock_def Let_def keeps split: if_splits)

lemma flush_keeps: "fc_byte C (lock_and_flush C h) = fc_byte C h"
  by (simp add: lock_and_flush_def keeps)

lemma program_dwords_outside:
  assumes "program_dwords C a ds h = (r, h')" "x < a \<or> a + 8 * length ds \<le> x"
  shows "fc_byte C h' x = fc_byte C h x"
  using assms
proof (induction ds arbitrary: a h)
  case (Cons d ds)
  obtain i k where w: "wait_idle C (store_dword C a d h) = (i, k)" by fastforce
  have k: "fc_byte C k x = fc_byte C h x"
    using wait_keeps [OF w] stored_outside [of x a d h] Cons.prems(2) by auto
  show ?case
  proof (cases "\<not> i \<or> fc_errors C k")
    case True
    then show ?thesis using Cons.prems(1) k by (auto simp: w)
  next
    case False
    have "fc_byte C h' x = fc_byte C (fc_clear_eop C k) x"
      by (rule Cons.IH [of "a + 8"])
        (use Cons.prems False in \<open>auto simp: w INTERNAL_FLASH_DWORD_SIZE_BYTES_def\<close>)
    then show ?thesis using k by (simp add: keeps)
  qed
qed simp

lemma program_dwords_inside:
  assumes "program_dwords C a (dwords n bs) h = (INTERNAL_FLASH_OK, h')" "length bs = 8 * n" "i < length bs"
  shows "fc_byte C h' (a + i) = bs ! i"
  using assms
proof (induction n arbitrary: a bs h i)
  case (Suc n)
  let ?d = "take 8 bs" and ?ds = "dwords n (drop 8 bs)"
  obtain j k where w: "wait_idle C (store_dword C a ?d h) = (j, k)" by fastforce
  have ok: "j" "\<not> fc_errors C k"
    and rest: "program_dwords C (a + 8) ?ds (fc_clear_eop C k) = (INTERNAL_FLASH_OK, h')"
    using Suc.prems(1) by (auto simp: w INTERNAL_FLASH_DWORD_SIZE_BYTES_def split: if_splits)
  show ?case
  proof (cases "i < 8")
    case True
    have "fc_byte C h' (a + i) = fc_byte C (fc_clear_eop C k) (a + i)"
      by (rule program_dwords_outside [OF rest]) (use True in simp)
    also have "\<dots> = ?d ! i"
      using stored_inside [of a ?d h k i] ok w Suc.prems(2) True by (simp add: keeps)
    finally show ?thesis using True by simp
  next
    case False
    then obtain l where l: "i = 8 + l" by (metis le_add_diff_inverse not_less)
    have "fc_byte C h' (a + 8 + l) = drop 8 bs ! l"
      by (rule Suc.IH [OF rest]) (use Suc.prems l in auto)
    then show ?thesis using Suc.prems(3) by (simp add: l add.assoc)
  qed
qed simp

end

section \<open>The driver keeps the contract\<close>

definition iflash_view :: "'h flash_ctl \<Rightarrow> 'h iflash \<Rightarrow> nat \<Rightarrow> u8" where
  "iflash_view C s = fc_byte C (ifl_ctl s)"

lemma erased_page_of:
  assumes "addr mod 2048 = 0" "0x08000000 \<le> addr"
  shows "erased_page (256 \<le> (addr - 0x08000000) div 2048)
      (if 256 \<le> (addr - 0x08000000) div 2048 then (addr - 0x08000000) div 2048 - 256 else (addr - 0x08000000) div 2048) = addr"
proof -
  obtain q where q: "addr = 2048 * q" using assms(1) by (metis mod_0_imp_dvd dvd_def)
  then have "addr - 0x08000000 = 2048 * (q - 65536)" by (simp add: diff_mult_distrib2)
  then have "(addr - 0x08000000) div 2048 = q - 65536" by simp
  then show ?thesis using assms(2) q by (auto simp: erased_page_def)
qed

context flash_controller begin

lemma erase_page_effect:
  assumes "internal_flash_erase_page C addr s = (r, s')"
  shows "x < addr \<or> addr + 2048 \<le> x \<Longrightarrow> iflash_view C s' x = iflash_view C s x"
    and "r = INTERNAL_FLASH_OK \<Longrightarrow> addr \<le> x \<Longrightarrow> x < addr + 2048 \<Longrightarrow> iflash_view C s' x = 0xFF"
    and "ifl_initialised s' = ifl_initialised s"
proof -
  define b where "b = (256 \<le> (addr - 0x08000000) div 2048)"
  define p where "p = (if b then (addr - 0x08000000) div 2048 - 256 else (addr - 0x08000000) div 2048)"
  obtain w1 h1 where w1: "wait_idle C (ifl_ctl s) = (w1, h1)" by fastforce
  obtain w2 h2 where w2: "unlock C (fc_clear_flags C h1) = (w2, h2)" by fastforce
  obtain w3 h3 where w3: "wait_idle C (start_erase C b p h2) = (w3, h3)" by fastforce
  have k2: "fc_byte C h2 = fc_byte C (ifl_ctl s)" "fc_byte C h1 = fc_byte C (ifl_ctl s)"
    using wait_keeps [OF w1] unlock_keeps [OF w2] by (simp_all add: keeps)
  note k3 = wait_keeps [OF w3]
  let ?go = "ifl_initialised s \<and> addr mod 2048 = 0 \<and> in_writable_flash addr 2048 \<and> w1 \<and> w2"
  have run: "internal_flash_erase_page C addr s =
      (if w3 \<and> \<not> fc_errors C h3 then INTERNAL_FLASH_OK else INTERNAL_FLASH_ERR_ERASE,
       s\<lparr>ifl_ctl := lock_and_flush C (fc_clear_flags C h3)\<rparr>)" if ?go
    using that w1 w2 w3 by (cases b) (simp_all add: internal_flash_erase_page_def Let_def iflash_consts p_def flip: b_def)
  have stop: "r \<noteq> INTERNAL_FLASH_OK \<and> ifl_initialised s' = ifl_initialised s \<and> fc_byte C (ifl_ctl s') = fc_byte C (ifl_ctl s)" if "\<not> ?go"
    using that assms w1 w2 k2
    by (auto simp: internal_flash_erase_page_def Let_def INTERNAL_FLASH_PAGE_SIZE_BYTES_def split: if_splits)
  have page: "erased_page b p = addr" if ?go
    using that erased_page_of [of addr]
    by (simp add: b_def p_def in_writable_flash_def in_flash_def INTERNAL_FLASH_BASE_ADDR_def)
  show "x < addr \<or> addr + 2048 \<le> x \<Longrightarrow> iflash_view C s' x = iflash_view C s x"
    using assms run stop page erased_outside [of x b p h2] k2 k3
    by (cases ?go) (auto simp: iflash_view_def flush_keeps keeps)
  show "r = INTERNAL_FLASH_OK \<Longrightarrow> addr \<le> x \<Longrightarrow> x < addr + 2048 \<Longrightarrow> iflash_view C s' x = 0xFF"
    using assms run stop page erased_inside [of b p h2 h3 x] w3
    by (cases ?go) (auto simp: iflash_view_def flush_keeps keeps split: if_splits)
  show "ifl_initialised s' = ifl_initialised s"
    using assms run stop by (cases ?go) auto
qed

lemma program_effect:
  assumes "internal_flash_program C addr (Some d) s = (r, s')"
  shows "x < addr \<or> addr + length d \<le> x \<Longrightarrow> iflash_view C s' x = iflash_view C s x"
    and "r = INTERNAL_FLASH_OK \<Longrightarrow> i < length d \<Longrightarrow> iflash_view C s' (addr + i) = d ! i"
    and "ifl_initialised s' = ifl_initialised s"
proof -
  let ?n = "length d div 8"
  obtain w1 h1 where w1: "wait_idle C (ifl_ctl s) = (w1, h1)" by fastforce
  obtain w2 h2 where w2: "unlock C (fc_clear_flags C h1) = (w2, h2)" by fastforce
  obtain r3 h3 where w3: "program_dwords C addr (dwords ?n d) (fc_cr_pg C h2) = (r3, h3)" by fastforce
  have k2: "fc_byte C h2 = fc_byte C (ifl_ctl s)" "fc_byte C h1 = fc_byte C (ifl_ctl s)"
    using wait_keeps [OF w1] unlock_keeps [OF w2] by (simp_all add: keeps)
  let ?go = "ifl_initialised s \<and> addr mod 8 = 0 \<and> length d mod 8 = 0 \<and> d \<noteq> [] \<and> in_writable_flash addr (length d) \<and> w1 \<and> w2"
  have run: "r = r3 \<and> s' = s\<lparr>ifl_ctl := lock_and_flush C (fc_clear_flags C h3)\<rparr>" if ?go
    using that assms w1 w2 w3 by (simp add: internal_flash_program_def Let_def)
  have stop: "r \<noteq> INTERNAL_FLASH_OK \<and> ifl_initialised s' = ifl_initialised s \<and> fc_byte C (ifl_ctl s') = fc_byte C (ifl_ctl s)" if "\<not> ?go"
    using that assms w1 w2 k2
    by (auto simp: internal_flash_program_def Let_def split: if_splits)
  have len: "8 * ?n = length d" if ?go using that by auto
  show "iflash_view C s' x = iflash_view C s x" if "x < addr \<or> addr + length d \<le> x"
    using program_dwords_outside [OF w3, of x] that run stop len k2
    by (cases ?go) (auto simp: iflash_view_def flush_keeps keeps)
  show "iflash_view C s' (addr + i) = d ! i" if "r = INTERNAL_FLASH_OK" "i < length d"
    using program_dwords_inside [of addr ?n d "fc_cr_pg C h2" h3 i] that w3 run stop len
    by (cases ?go) (auto simp: iflash_view_def flush_keeps keeps)
  show "ifl_initialised s' = ifl_initialised s"
    using run stop by (cases ?go) auto
qed

lemma read_effect:
  assumes "internal_flash_read C addr n s = (r, bs)"
  shows "r = INTERNAL_FLASH_OK \<Longrightarrow> bs = bytes_at (iflash_view C s) addr n"
    and "ifl_initialised s \<Longrightarrow> 0 < n \<Longrightarrow> 0x08000000 \<le> addr \<Longrightarrow> addr + n \<le> 0x08100000 \<Longrightarrow> r = INTERNAL_FLASH_OK"
  using assms
  by (auto simp: internal_flash_read_def bytes_at_def iflash_view_def in_flash_def iflash_consts split: if_splits)

end

sublocale flash_controller \<subseteq> drv: readable_onchip "internal_flash_driver C" "iflash_view C" ifl_initialised
proof (unfold_locales, goal_cases)
  case (1 a n f bs)
  then show ?case using read_effect(1) [of a n f INTERNAL_FLASH_OK bs] by (simp add: internal_flash_driver_def)
next
  case (2 x a f)
  then show ?case
    using erase_page_effect(1) [of a f _ "snd (internal_flash_erase_page C a f)" x]
    by (simp add: internal_flash_driver_def prod_eq_iff)
next
  case (3 a f x)
  then show ?case
    using erase_page_effect(2) [of a f INTERNAL_FLASH_OK "snd (internal_flash_erase_page C a f)" x]
    by (simp add: internal_flash_driver_def prod_eq_iff)
next
  case (4 x a bs f)
  then show ?case
    using program_effect(1) [of a bs f _ "snd (internal_flash_program C a (Some bs) f)" x]
    by (simp add: internal_flash_driver_def prod_eq_iff)
next
  case (5 a bs f i)
  then show ?case
    using program_effect(2) [of a bs f INTERNAL_FLASH_OK "snd (internal_flash_program C a (Some bs) f)" i]
    by (simp add: internal_flash_driver_def prod_eq_iff)
next
  case (6 f n a)
  then show ?case
    using read_effect(2) [of a n f _ "snd (internal_flash_read C a n f)"]
    by (simp add: internal_flash_driver_def prod_eq_iff)
next
  case (7 f a)
  then show ?case
    using erase_page_effect(3) [of a f _ "snd (internal_flash_erase_page C a f)"]
    by (simp add: internal_flash_driver_def prod_eq_iff)
next
  case (8 f a bs)
  then show ?case
    using program_effect(3) [of a bs f _ "snd (internal_flash_program C a (Some bs) f)"]
    by (simp add: internal_flash_driver_def prod_eq_iff)
qed

section \<open>A controller that works\<close>

text \<open>The bounded wait is long enough, the keys unlock, and erasing a page or programming an erased
  double word raises no error flag.\<close>

locale working_controller = flash_controller C for C :: "'h flash_ctl" +
  fixes fine :: "'h \<Rightarrow> bool"
  assumes idle_works: "fine h \<Longrightarrow> fst (wait_idle C h) \<and> fine (snd (wait_idle C h))"
    and idle_status: "fc_errors C (snd (wait_idle C h)) = fc_errors C h" "fc_locked C (snd (wait_idle C h)) = fc_locked C h"
    and clear_works: "fine h \<Longrightarrow> fine (fc_clear_flags C h) \<and> \<not> fc_errors C (fc_clear_flags C h)"
    and eop_works: "fine h \<Longrightarrow> fine (fc_clear_eop C h) \<and> fc_errors C (fc_clear_eop C h) = fc_errors C h \<and>
      fc_locked C (fc_clear_eop C h) = fc_locked C h"
    and unlock_works: "fine h \<Longrightarrow> fst (unlock C h) \<and> fine (snd (unlock C h)) \<and> fc_errors C (snd (unlock C h)) = fc_errors C h"
    and pg_works: "fine h \<Longrightarrow> fine (fc_cr_pg C h) \<and> fc_errors C (fc_cr_pg C h) = fc_errors C h \<and>
      fc_locked C (fc_cr_pg C h) = fc_locked C h"
    and erase_fine: "fine h \<Longrightarrow> fine (start_erase C b p h)"
    and erase_clean: "fine h \<Longrightarrow> \<not> fc_errors C h \<Longrightarrow> \<not> fc_locked C h \<Longrightarrow> \<not> fc_errors C (start_erase C b p h)"
    and store_fine: "fine h \<Longrightarrow> fine (store_dword C a d h) \<and> fc_locked C (store_dword C a d h) = fc_locked C h"
    and store_clean: "fine h \<Longrightarrow> \<not> fc_errors C h \<Longrightarrow> \<not> fc_locked C h \<Longrightarrow> a mod 8 = 0 \<Longrightarrow>
      (\<And>i. i < 8 \<Longrightarrow> fc_byte C h (a + i) = 0xFF) \<Longrightarrow> \<not> fc_errors C (store_dword C a d h)"
    and flush_fine: "fine h \<Longrightarrow> fine (lock_and_flush C h)"
begin

definition driver_fine :: "'h iflash \<Rightarrow> bool" where
  "driver_fine s \<longleftrightarrow> ifl_initialised s \<and> fine (ifl_ctl s)"

lemma unlock_result: "unlock C h = (True, h') \<Longrightarrow> \<not> fc_locked C h'"
  by (auto simp: unlock_def Let_def)

lemma dwords_fine:
  assumes "fine h"
  shows "fine (snd (program_dwords C a ds h))"
  using assms
proof (induction ds arbitrary: a h)
  case (Cons d ds)
  obtain i k where w: "wait_idle C (store_dword C a d h) = (i, k)" by fastforce
  then have "fine k" using store_fine [OF Cons.prems, of a d] idle_works [of "store_dword C a d h"] by simp
  then show ?case using Cons.IH [of "fc_clear_eop C k"] eop_works [of k] by (simp add: w)
qed simp

lemma dwords_work:
  assumes "fine h" "\<not> fc_errors C h" "\<not> fc_locked C h" "a mod 8 = 0"
    and "\<And>i. i < 8 * length ds \<Longrightarrow> fc_byte C h (a + i) = 0xFF"
  shows "fst (program_dwords C a ds h) = INTERNAL_FLASH_OK"
  using assms
proof (induction ds arbitrary: a h)
  case (Cons d ds)
  let ?s = "store_dword C a d h"
  obtain i k where w: "wait_idle C ?s = (i, k)" by fastforce
  have clean: "\<not> fc_errors C ?s"
    by (rule store_clean [OF Cons.prems(1-4)]) (use Cons.prems(5) in simp)
  have k: "i" "fine k" "\<not> fc_errors C k" "\<not> fc_locked C k"
    using store_fine [OF Cons.prems(1), of a d] idle_works [of ?s] idle_status [of ?s] clean Cons.prems(3)
    by (simp_all add: w)
  have "fst (program_dwords C (a + 8) ds (fc_clear_eop C k)) = INTERNAL_FLASH_OK"
  proof (rule Cons.IH)
    fix j assume "j < 8 * length ds"
    then show "fc_byte C (fc_clear_eop C k) (a + 8 + j) = 0xFF"
      using wait_keeps [OF w] stored_outside [of "a + 8 + j" a d h] Cons.prems(5) [of "8 + j"] by (simp add: keeps add.assoc)
  next
    show "(a + 8) mod 8 = 0" using Cons.prems(4) by simp
  qed (use k eop_works [of k] in auto)
  then show ?case using k by (simp add: w INTERNAL_FLASH_DWORD_SIZE_BYTES_def)
qed simp

lemma erase_page_works:
  assumes "driver_fine s"
  shows "driver_fine (snd (internal_flash_erase_page C a s))"
    and "a mod 2048 = 0 \<Longrightarrow> 0x08004000 \<le> a \<Longrightarrow> a + 2048 \<le> 0x08100000 \<Longrightarrow>
      fst (internal_flash_erase_page C a s) = INTERNAL_FLASH_OK"
proof -
  let ?h = "ifl_ctl s"
  have f: "ifl_initialised s" "fine ?h" using assms by (simp_all add: driver_fine_def)
  obtain w1 h1 where w1: "wait_idle C ?h = (w1, h1)" by fastforce
  obtain w2 h2 where w2: "unlock C (fc_clear_flags C h1) = (w2, h2)" by fastforce
  have s1: "w1" "fine h1" using idle_works [OF f(2)] by (simp_all add: w1)
  have s2: "w2" "fine h2" "\<not> fc_errors C h2" "\<not> fc_locked C h2"
    using unlock_works [of "fc_clear_flags C h1"] clear_works [OF s1(2)] unlock_result [of "fc_clear_flags C h1" h2]
    by (simp_all add: w2)
  have s3: "fst (wait_idle C (start_erase C b p h2))" "\<not> fc_errors C (snd (wait_idle C (start_erase C b p h2)))"
    "fine (snd (wait_idle C (start_erase C b p h2)))" for b p
    using idle_works [OF erase_fine [OF s2(2)]] idle_status(1) erase_clean [OF s2(2-4)] by auto
  show "driver_fine (snd (internal_flash_erase_page C a s))"
    using f s1 s2 s3 clear_works flush_fine
    by (simp add: internal_flash_erase_page_def Let_def w1 w2 driver_fine_def split_def)
  show "fst (internal_flash_erase_page C a s) = INTERNAL_FLASH_OK"
    if "a mod 2048 = 0" "0x08004000 \<le> a" "a + 2048 \<le> 0x08100000"
    using that f s1 s2 s3
    by (simp add: internal_flash_erase_page_def Let_def w1 w2 split_def in_writable_flash_def in_flash_def iflash_consts)
qed

lemma program_works_ctl:
  assumes "driver_fine s"
  shows "driver_fine (snd (internal_flash_program C a (Some d) s))"
    and "a mod 8 = 0 \<Longrightarrow> length d mod 8 = 0 \<Longrightarrow> d \<noteq> [] \<Longrightarrow> 0x08004000 \<le> a \<Longrightarrow> a + length d \<le> 0x08100000 \<Longrightarrow>
      (\<And>i. i < length d \<Longrightarrow> iflash_view C s (a + i) = 0xFF) \<Longrightarrow>
      fst (internal_flash_program C a (Some d) s) = INTERNAL_FLASH_OK"
proof -
  let ?h = "ifl_ctl s"
  have f: "ifl_initialised s" "fine ?h" using assms by (simp_all add: driver_fine_def)
  obtain w1 h1 where w1: "wait_idle C ?h = (w1, h1)" by fastforce
  obtain w2 h2 where w2: "unlock C (fc_clear_flags C h1) = (w2, h2)" by fastforce
  have s1: "w1" "fine h1" using idle_works [OF f(2)] by (simp_all add: w1)
  have s2: "w2" "fine h2" "\<not> fc_errors C h2" "\<not> fc_locked C h2"
    using unlock_works [of "fc_clear_flags C h1"] clear_works [OF s1(2)] unlock_result [of "fc_clear_flags C h1" h2]
    by (simp_all add: w2)
  note s3 = pg_works [OF s2(2)]
  have bytes: "fc_byte C (fc_cr_pg C h2) = iflash_view C s"
    using wait_keeps [OF w1] unlock_keeps [OF w2] by (simp add: iflash_view_def keeps)
  show "driver_fine (snd (internal_flash_program C a (Some d) s))"
    using f s1 s2 s3 clear_works flush_fine dwords_fine [of "fc_cr_pg C h2"]
    by (simp add: internal_flash_program_def Let_def w1 w2 driver_fine_def split_def)
  show "fst (internal_flash_program C a (Some d) s) = INTERNAL_FLASH_OK"
    if a: "a mod 8 = 0" "length d mod 8 = 0" "d \<noteq> []" "0x08004000 \<le> a" "a + length d \<le> 0x08100000"
      and e: "\<And>i. i < length d \<Longrightarrow> iflash_view C s (a + i) = 0xFF"
  proof -
    have "fst (program_dwords C a (dwords (length d div 8) d) (fc_cr_pg C h2)) = INTERNAL_FLASH_OK"
      by (rule dwords_work) (use a s2 s3 e bytes in auto)
    moreover have "a < 0x08100000" "length d \<le> 0x08100000 - a" using a(3-5) by (auto simp: neq_Nil_conv)
    ultimately show ?thesis
      using a f s1 s2
      by (simp add: internal_flash_program_def Let_def w1 w2 split_def in_writable_flash_def in_flash_def iflash_consts)
  qed
qed

end

sublocale working_controller \<subseteq> drw: working_onchip "internal_flash_driver C" "iflash_view C" driver_fine
proof (unfold_locales, goal_cases)
  case (1 f n a)
  then show ?case using drv.read_works [of f n a] by (simp add: driver_fine_def)
next
  case (2 f a)
  then show ?case using erase_page_works(1) [of f a] by (simp add: internal_flash_driver_def)
next
  case (3 f a bs)
  then show ?case using program_works_ctl(1) [of f a bs] by (simp add: internal_flash_driver_def)
next
  case (4 f a)
  then show ?case using erase_page_works(2) [of f a] by (simp add: internal_flash_driver_def)
next
  case (5 f a bs)
  then show ?case using program_works_ctl(2) [of f a bs] by (simp add: internal_flash_driver_def)
qed

section \<open>A controller in memory\<close>

record ram_iflash =
  ri_mem :: "nat \<Rightarrow> u8"
  ri_locked :: bool
  ri_armed :: bool
  ri_error :: bool

definition ri_store :: "nat \<Rightarrow> u8 list \<Rightarrow> ram_iflash \<Rightarrow> ram_iflash" where
  "ri_store a d h =
     h\<lparr>ri_mem := (\<lambda>x. if a \<le> x \<and> x < a + 4 then d ! (x - a) else ri_mem h x),
       ri_error := ri_error h \<or> ri_locked h \<or> (\<exists>i \<in> set [0..<4]. ri_mem h (a + i) \<noteq> 0xFF)\<rparr>"

definition ri_key :: "u32 \<Rightarrow> ram_iflash \<Rightarrow> ram_iflash" where
  "ri_key k h = (if k = IFLASH_KEY1 then h\<lparr>ri_armed := True\<rparr>
     else if k = IFLASH_KEY2 \<and> ri_armed h then h\<lparr>ri_locked := False, ri_armed := False\<rparr> else h)"

definition ri_erase :: "bool \<Rightarrow> nat \<Rightarrow> bool \<Rightarrow> ram_iflash \<Rightarrow> ram_iflash" where
  "ri_erase b p start h =
     (if \<not> start then h
      else h\<lparr>ri_mem := (\<lambda>x. if erased_page b p \<le> x \<and> x < erased_page b p + 2048 then 0xFF else ri_mem h x),
             ri_error := ri_error h \<or> ri_locked h\<rparr>)"

definition ram_flash_ctl :: "ram_iflash flash_ctl" where
  "ram_flash_ctl = \<lparr>fc_dualbank = (\<lambda>h. True), fc_busy = (\<lambda>h. (False, h)), fc_errors = ri_error,
     fc_clear_flags = (\<lambda>h. h\<lparr>ri_error := False\<rparr>), fc_clear_eop = (\<lambda>h. h), fc_locked = ri_locked, fc_key = ri_key,
     fc_cr_lock = (\<lambda>h. h\<lparr>ri_locked := True\<rparr>), fc_cr_pg = (\<lambda>h. h), fc_cr_erase = ri_erase, fc_store32 = ri_store,
     fc_flush = (\<lambda>h. h), fc_byte = ri_mem\<rparr>"

lemma ram_fields [simp]:
  "fc_errors ram_flash_ctl = ri_error" "fc_clear_flags ram_flash_ctl h = h\<lparr>ri_error := False\<rparr>"
  "fc_clear_eop ram_flash_ctl h = h" "fc_locked ram_flash_ctl = ri_locked" "fc_key ram_flash_ctl = ri_key"
  "fc_cr_lock ram_flash_ctl h = h\<lparr>ri_locked := True\<rparr>" "fc_cr_pg ram_flash_ctl h = h"
  "fc_cr_erase ram_flash_ctl = ri_erase" "fc_store32 ram_flash_ctl = ri_store" "fc_flush ram_flash_ctl h = h"
  "fc_byte ram_flash_ctl = ri_mem" "fc_busy ram_flash_ctl h = (False, h)"
  by (simp_all add: ram_flash_ctl_def)

lemma ram_idle: "wait_idle ram_flash_ctl h = (True, h)"
proof -
  have "poll_idle ram_flash_ctl n h = (True, h)" for n by (cases n) simp_all
  then show ?thesis by (simp add: wait_idle_def)
qed

lemma keys_differ: "IFLASH_KEY2 \<noteq> IFLASH_KEY1"
  by (simp add: IFLASH_KEY1_def IFLASH_KEY2_def)

lemmas ram_ctl_simps = ri_store_def ri_key_def ri_erase_def start_erase_def store_dword_def unlock_def
  lock_and_flush_def Let_def keys_differ

lemma split_dword: "length d = 8 \<Longrightarrow> i < 8 \<Longrightarrow> (if i < 4 then take 4 d ! i else drop 4 d ! (i - 4)) = d ! i"
  by simp

interpretation ram_ctl: working_controller ram_flash_ctl "\<lambda>h. True"
proof (unfold_locales, goal_cases)
  case (9 b p h h' x)
  then show ?case by (auto simp: ram_idle) (simp add: ram_ctl_simps)
next
  case (11 a d h h' i)
  then show ?case by (auto simp: ram_idle) (auto simp: ram_ctl_simps)
next
  case (22 h a d)
  have "ri_mem h (a + (4 + i)) = 0xFF" if "i < 4" for i using 22(5) [of "4 + i"] that by simp
  then show ?case using 22 by (auto simp: ram_ctl_simps add.assoc)
qed (auto simp: ram_idle ram_ctl_simps split: if_splits)

end
