(* ===== verification/Image_Format.thy ===== *)
theory Image_Format
  imports Internal_Flash
begin

text \<open>
  The geometry, magics and on-flash records FirmwareStore and the bootloader share
  (\<^verbatim>\<open>middleware/firmware_store/firmware_image_format.h\<close>).  Every structure of the header is a record
  here, with the little-endian bytes it has in memory and the structure a memory holds; the two are
  inverse, so that a structure filled by a read carries the bytes that were read.
\<close>

section \<open>Geometry\<close>

definition FIRMWARE_PAGE_SIZE :: nat where "FIRMWARE_PAGE_SIZE = 2048"
definition FIRMWARE_SLOT_A_BASE :: u32 where "FIRMWARE_SLOT_A_BASE = 0x08006000"
definition FIRMWARE_SLOT_B_BASE :: u32 where "FIRMWARE_SLOT_B_BASE = 0x08080000"
definition FIRMWARE_SLOT_SIZE :: u32 where "FIRMWARE_SLOT_SIZE = 491520"
definition FIRMWARE_HEADER_SIZE :: nat where "FIRMWARE_HEADER_SIZE = 128"
definition FIRMWARE_META_A_ADDR :: nat where "FIRMWARE_META_A_ADDR = 0x08004000"
definition FIRMWARE_META_B_ADDR :: nat where "FIRMWARE_META_B_ADDR = 0x08004800"
definition FIRMWARE_DESC_A_ADDR :: nat where "FIRMWARE_DESC_A_ADDR = 0x08005000"
definition FIRMWARE_DESC_B_ADDR :: nat where "FIRMWARE_DESC_B_ADDR = 0x08005800"
definition FIRMWARE_STORE_STAGING_BASE :: nat where "FIRMWARE_STORE_STAGING_BASE = 0x00120000"
definition FIRMWARE_JOURNAL_SIZE :: nat where "FIRMWARE_JOURNAL_SIZE = 4096"
definition FIRMWARE_STAGING_IMAGE_OFFSET :: nat where "FIRMWARE_STAGING_IMAGE_OFFSET = 0x1000"
definition FIRMWARE_CHECKPOINT_STEP :: nat where "FIRMWARE_CHECKPOINT_STEP = 4096"
definition FIRMWARE_MAX_IMAGE_LEN :: u32 where "FIRMWARE_MAX_IMAGE_LEN = FIRMWARE_SLOT_SIZE"

section \<open>Magics and enumerations\<close>

definition FIRMWARE_IMAGE_MAGIC :: u32 where "FIRMWARE_IMAGE_MAGIC = 0x4F544131"
definition FIRMWARE_IMAGE_HEADER_VERSION :: u16 where "FIRMWARE_IMAGE_HEADER_VERSION = 1"
definition FIRMWARE_DESC_MAGIC :: u32 where "FIRMWARE_DESC_MAGIC = 0x46574453"
definition FIRMWARE_META_MAGIC :: u32 where "FIRMWARE_META_MAGIC = 0xC0DEBEEF"
definition FIRMWARE_JOURNAL_MAGIC :: u32 where "FIRMWARE_JOURNAL_MAGIC = 0x4F54414A"
definition FIRMWARE_BANK_A :: u8 where "FIRMWARE_BANK_A = 0x0A"
definition FIRMWARE_BANK_B :: u8 where "FIRMWARE_BANK_B = 0x0B"
definition FIRMWARE_META_STATE_CONFIRMED :: u8 where "FIRMWARE_META_STATE_CONFIRMED = 1"
definition FIRMWARE_META_STATE_TRIAL_PENDING :: u8 where "FIRMWARE_META_STATE_TRIAL_PENDING = 2"
definition FIRMWARE_META_STATE_TRIAL_RUNNING :: u8 where "FIRMWARE_META_STATE_TRIAL_RUNNING = 3"
definition FIRMWARE_META_STATE_ROLLED_BACK :: u8 where "FIRMWARE_META_STATE_ROLLED_BACK = 4"
definition FIRMWARE_ERASED_WORD :: u32 where "FIRMWARE_ERASED_WORD = 0xFFFFFFFF"
definition FIRMWARE_IMAGE_ID_ERASED :: u32 where "FIRMWARE_IMAGE_ID_ERASED = 0xFFFFFFFF"
definition FIRMWARE_SHA256_LEN :: nat where "FIRMWARE_SHA256_LEN = 32"
definition FIRMWARE_SIGNATURE_LEN :: nat where "FIRMWARE_SIGNATURE_LEN = 64"
definition FIRMWARE_SIGNED_HEADER_LEN :: nat where "FIRMWARE_SIGNED_HEADER_LEN = 0x40"
definition FIRMWARE_DESC_CRC_SPAN :: nat where "FIRMWARE_DESC_CRC_SPAN = 0x18"
definition FIRMWARE_META_CRC_SPAN :: nat where "FIRMWARE_META_CRC_SPAN = 0x10"
definition FIRMWARE_JOURNAL_SESSION_CRC_SPAN :: nat where "FIRMWARE_JOURNAL_SESSION_CRC_SPAN = 12"
definition FIRMWARE_JOURNAL_ENTRIES_OFFSET :: nat where "FIRMWARE_JOURNAL_ENTRIES_OFFSET = 0x10"
definition FIRMWARE_JOURNAL_ENTRY_COUNT :: nat where "FIRMWARE_JOURNAL_ENTRY_COUNT = 510"

lemmas fw_geometry = FIRMWARE_PAGE_SIZE_def FIRMWARE_SLOT_A_BASE_def FIRMWARE_SLOT_B_BASE_def FIRMWARE_SLOT_SIZE_def
  FIRMWARE_HEADER_SIZE_def FIRMWARE_META_A_ADDR_def FIRMWARE_META_B_ADDR_def FIRMWARE_DESC_A_ADDR_def
  FIRMWARE_DESC_B_ADDR_def FIRMWARE_STORE_STAGING_BASE_def FIRMWARE_JOURNAL_SIZE_def
  FIRMWARE_STAGING_IMAGE_OFFSET_def FIRMWARE_CHECKPOINT_STEP_def FIRMWARE_MAX_IMAGE_LEN_def
  FIRMWARE_DESC_CRC_SPAN_def FIRMWARE_META_CRC_SPAN_def FIRMWARE_JOURNAL_SESSION_CRC_SPAN_def
  FIRMWARE_JOURNAL_ENTRIES_OFFSET_def FIRMWARE_JOURNAL_ENTRY_COUNT_def FIRMWARE_SHA256_LEN_def
  FIRMWARE_SIGNATURE_LEN_def FIRMWARE_SIGNED_HEADER_LEN_def

lemmas fw_states = FIRMWARE_META_STATE_CONFIRMED_def FIRMWARE_META_STATE_TRIAL_PENDING_def
  FIRMWARE_META_STATE_TRIAL_RUNNING_def FIRMWARE_META_STATE_ROLLED_BACK_def

lemmas fw_banks = FIRMWARE_BANK_A_def FIRMWARE_BANK_B_def

section \<open>Records\<close>

record firmware_image_header =
  ih_magic :: u32
  ih_header_version :: u16
  ih_header_size :: u16
  ih_image_len :: u32
  ih_version :: u32
  ih_load_addr :: u32
  ih_reserved :: "u8 list"
  ih_body_sha256 :: "u8 list"
  ih_signature :: "u8 list"

record firmware_slot_descriptor =
  sd_magic :: u32
  sd_image_len :: u32
  sd_version :: u32
  sd_load_addr :: u32
  sd_body_crc32 :: u32
  sd_reserved :: u32
  sd_desc_crc32 :: u32
  sd_pad :: u32

record firmware_boot_meta =
  bm_magic :: u32
  bm_active_bank :: u8
  bm_boot_state :: u8
  bm_previous_bank :: u8
  bm_reserved :: u8
  bm_rollback_count :: u32
  bm_generation :: u32
  bm_crc32 :: u32
  bm_pad :: u32

record firmware_journal_session =
  js_magic :: u32
  js_image_id :: u32
  js_file_len :: u32
  js_crc32 :: u32

record firmware_journal_entry =
  je_value :: u32
  je_inverse :: u32

section \<open>Their bytes\<close>

definition image_header_read :: "u8 list \<Rightarrow> firmware_image_header" where
  "image_header_read m = \<lparr>ih_magic = cfl_get_u32 m, ih_header_version = cfl_get_u16 (drop 4 m),
     ih_header_size = cfl_get_u16 (drop 6 m), ih_image_len = cfl_get_u32 (drop 8 m),
     ih_version = cfl_get_u32 (drop 12 m), ih_load_addr = cfl_get_u32 (drop 16 m),
     ih_reserved = take 12 (drop 20 m), ih_body_sha256 = take 32 (drop 32 m), ih_signature = take 64 (drop 64 m)\<rparr>"

definition image_header_bytes :: "firmware_image_header \<Rightarrow> u8 list" where
  "image_header_bytes h = cfl_put_u32 (ih_magic h) @ cfl_put_u16 (ih_header_version h) @ cfl_put_u16 (ih_header_size h) @
     cfl_put_u32 (ih_image_len h) @ cfl_put_u32 (ih_version h) @ cfl_put_u32 (ih_load_addr h) @ ih_reserved h @
     ih_body_sha256 h @ ih_signature h"

definition slot_descriptor_read :: "u8 list \<Rightarrow> firmware_slot_descriptor" where
  "slot_descriptor_read m = \<lparr>sd_magic = cfl_get_u32 m, sd_image_len = cfl_get_u32 (drop 4 m),
     sd_version = cfl_get_u32 (drop 8 m), sd_load_addr = cfl_get_u32 (drop 12 m), sd_body_crc32 = cfl_get_u32 (drop 16 m),
     sd_reserved = cfl_get_u32 (drop 20 m), sd_desc_crc32 = cfl_get_u32 (drop 24 m), sd_pad = cfl_get_u32 (drop 28 m)\<rparr>"

definition slot_descriptor_bytes :: "firmware_slot_descriptor \<Rightarrow> u8 list" where
  "slot_descriptor_bytes d = cfl_put_u32 (sd_magic d) @ cfl_put_u32 (sd_image_len d) @ cfl_put_u32 (sd_version d) @
     cfl_put_u32 (sd_load_addr d) @ cfl_put_u32 (sd_body_crc32 d) @ cfl_put_u32 (sd_reserved d) @
     cfl_put_u32 (sd_desc_crc32 d) @ cfl_put_u32 (sd_pad d)"

definition boot_meta_read :: "u8 list \<Rightarrow> firmware_boot_meta" where
  "boot_meta_read m = \<lparr>bm_magic = cfl_get_u32 m, bm_active_bank = m ! 4, bm_boot_state = m ! 5,
     bm_previous_bank = m ! 6, bm_reserved = m ! 7, bm_rollback_count = cfl_get_u32 (drop 8 m),
     bm_generation = cfl_get_u32 (drop 12 m), bm_crc32 = cfl_get_u32 (drop 16 m), bm_pad = cfl_get_u32 (drop 20 m)\<rparr>"

definition boot_meta_bytes :: "firmware_boot_meta \<Rightarrow> u8 list" where
  "boot_meta_bytes r = cfl_put_u32 (bm_magic r) @ [bm_active_bank r, bm_boot_state r, bm_previous_bank r, bm_reserved r] @
     cfl_put_u32 (bm_rollback_count r) @ cfl_put_u32 (bm_generation r) @ cfl_put_u32 (bm_crc32 r) @ cfl_put_u32 (bm_pad r)"

definition journal_session_read :: "u8 list \<Rightarrow> firmware_journal_session" where
  "journal_session_read m = \<lparr>js_magic = cfl_get_u32 m, js_image_id = cfl_get_u32 (drop 4 m),
     js_file_len = cfl_get_u32 (drop 8 m), js_crc32 = cfl_get_u32 (drop 12 m)\<rparr>"

definition journal_session_bytes :: "firmware_journal_session \<Rightarrow> u8 list" where
  "journal_session_bytes s = cfl_put_u32 (js_magic s) @ cfl_put_u32 (js_image_id s) @ cfl_put_u32 (js_file_len s) @
     cfl_put_u32 (js_crc32 s)"

definition journal_entry_read :: "u8 list \<Rightarrow> firmware_journal_entry" where
  "journal_entry_read m = \<lparr>je_value = cfl_get_u32 m, je_inverse = cfl_get_u32 (drop 4 m)\<rparr>"

definition journal_entry_bytes :: "firmware_journal_entry \<Rightarrow> u8 list" where
  "journal_entry_bytes e = cfl_put_u32 (je_value e) @ cfl_put_u32 (je_inverse e)"

lemma length_fw_bytes [simp]:
  "length (slot_descriptor_bytes d) = 32" "length (boot_meta_bytes r) = 24" "length (journal_session_bytes s) = 16"
  "length (journal_entry_bytes e) = 8"
  by (simp_all add: slot_descriptor_bytes_def boot_meta_bytes_def journal_session_bytes_def journal_entry_bytes_def)

lemma read_fw_bytes [simp]:
  "slot_descriptor_read (slot_descriptor_bytes d) = d" "boot_meta_read (boot_meta_bytes r) = r"
  "journal_session_read (journal_session_bytes s) = s" "journal_entry_read (journal_entry_bytes e) = e"
  by (simp_all add: slot_descriptor_bytes_def slot_descriptor_read_def boot_meta_bytes_def boot_meta_read_def
      journal_session_bytes_def journal_session_read_def journal_entry_bytes_def journal_entry_read_def
      nth_append drop_Cons)

lemma cfl_put_get_u32: "cfl_put_u32 (cfl_get_u32 [a, b, c, d]) = [a, b, c, d]"
proof -
  let ?w = "cfl_get_u32 [a, b, c, d]"
  have "ucast (?w AND 0xFF) = a" "ucast (drop_bit 8 ?w AND 0xFF) = b" "ucast (drop_bit 16 ?w AND 0xFF) = c"
    "ucast (drop_bit 24 ?w AND 0xFF) = d"
    by (rule bit_word_eqI; auto simp: cfl_get_u32_def mask_0xFF bit_simps dest: bit_imp_le_length)+
  then show ?thesis by (simp add: cfl_put_u32_def)
qed

lemma boot_meta_bytes_read:
  assumes "length m = 24"
  shows "boot_meta_bytes (boot_meta_read m) = m"
proof -
  obtain a0 a1 a2 a3 a4 a5 a6 a7 a8 a9 b0 b1 b2 b3 b4 b5 b6 b7 b8 b9 c0 c1 c2 c3
    where m: "m = [a0,a1,a2,a3,a4,a5,a6,a7,a8,a9,b0,b1,b2,b3,b4,b5,b6,b7,b8,b9,c0,c1,c2,c3]"
    using assms by (auto simp: numeral_eq_Suc length_Suc_conv)
  have g: "cfl_put_u32 (cfl_get_u32 (w # x # y # z # r)) = [w, x, y, z]" for w x y z r
    using cfl_put_get_u32 [of w x y z] by (simp add: cfl_get_u32_def)
  show ?thesis by (simp add: m boot_meta_bytes_def boot_meta_read_def g)
qed

end
