(* ===== verification/Boot_Core.thy ===== *)
theory Boot_Core
  imports Image_Format
begin

text \<open>
  The bootloader's decision (\<^verbatim>\<open>bootloader/boot_core.c\<close>): which of the two slots to run and the
  boot-record transitions on the way.  \<open>boot_rule\<close> is the decision as the layout states it, over the
  record in force and the slots that are bootable; \<open>boot_core_run\<close> carries it out on the flash.
\<close>

section \<open>The code\<close>

definition BOOT_CHUNK_BYTES :: nat where "BOOT_CHUNK_BYTES = 256"
definition BOOT_WRITE_ATTEMPTS :: nat where "BOOT_WRITE_ATTEMPTS = 2"
definition BOOT_META_HEAD_BYTES :: nat where "BOOT_META_HEAD_BYTES = 16"
definition BOOT_SRAM_ALIAS_BASE :: u32 where "BOOT_SRAM_ALIAS_BASE = 0x20000000"
definition BOOT_SRAM_ALIAS_END :: u32 where "BOOT_SRAM_ALIAS_END = 0x20020000"
definition BOOT_SRAM2_BASE :: u32 where "BOOT_SRAM2_BASE = 0x10000000"
definition BOOT_SRAM2_END :: u32 where "BOOT_SRAM2_END = 0x10008000"
definition BOOT_THUMB_BIT :: u32 where "BOOT_THUMB_BIT = 1"
definition BOOT_SP_ALIGN_MASK :: u32 where "BOOT_SP_ALIGN_MASK = 7"
definition BOOT_MAX_ROLLBACKS :: u32 where "BOOT_MAX_ROLLBACKS = 16"

datatype boot_outcome =
    BOOT_OUTCOME_RUN | BOOT_OUTCOME_HALT_NO_IMAGE | BOOT_OUTCOME_HALT_ROLLBACK_LIMIT | BOOT_OUTCOME_HALT_FLASH_FAULT

definition BOOT_EVT_RECORD_INITIALISED :: u32 where "BOOT_EVT_RECORD_INITIALISED = 1"
definition BOOT_EVT_TRIAL_STARTED :: u32 where "BOOT_EVT_TRIAL_STARTED = 2"
definition BOOT_EVT_TRIAL_ABANDONED :: u32 where "BOOT_EVT_TRIAL_ABANDONED = 4"
definition BOOT_EVT_ACTIVE_INVALID :: u32 where "BOOT_EVT_ACTIVE_INVALID = 8"
definition BOOT_EVT_META_WRITE_FAILED :: u32 where "BOOT_EVT_META_WRITE_FAILED = 16"
definition BOOT_EVT_COPY_INVALID :: u32 where "BOOT_EVT_COPY_INVALID = 32"

lemmas boot_events = BOOT_EVT_RECORD_INITIALISED_def BOOT_EVT_TRIAL_STARTED_def BOOT_EVT_TRIAL_ABANDONED_def
  BOOT_EVT_ACTIVE_INVALID_def BOOT_EVT_META_WRITE_FAILED_def BOOT_EVT_COPY_INVALID_def

record boot_report =
  rp_outcome :: boot_outcome
  rp_events :: u32
  rp_slot_base :: u32
  rp_image_len :: u32
  rp_version :: u32
  rp_state_in :: u8
  rp_state_out :: u8
  rp_active_bank :: u8
  rp_generation :: u32
  rp_rollback_count :: u32

record boot_record =
  br_valid :: bool
  br_copy :: nat
  br_rec :: firmware_boot_meta

definition bank_is_legal :: "u8 \<Rightarrow> bool" where
  "bank_is_legal bank \<longleftrightarrow> bank = FIRMWARE_BANK_A \<or> bank = FIRMWARE_BANK_B"

definition other_bank :: "u8 \<Rightarrow> u8" where
  "other_bank bank = (if bank = FIRMWARE_BANK_A then FIRMWARE_BANK_B else FIRMWARE_BANK_A)"

definition slot_base :: "u8 \<Rightarrow> u32" where
  "slot_base bank = (if bank = FIRMWARE_BANK_B then FIRMWARE_SLOT_B_BASE else FIRMWARE_SLOT_A_BASE)"

definition desc_addr :: "u8 \<Rightarrow> nat" where
  "desc_addr bank = (if bank = FIRMWARE_BANK_B then FIRMWARE_DESC_B_ADDR else FIRMWARE_DESC_A_ADDR)"

definition meta_addr :: "nat \<Rightarrow> nat" where
  "meta_addr copy = (if copy = 0 then FIRMWARE_META_A_ADDR else FIRMWARE_META_B_ADDR)"

definition record_is_valid :: "firmware_boot_meta \<Rightarrow> bool" where
  "record_is_valid r \<longleftrightarrow> bm_magic r = FIRMWARE_META_MAGIC \<and>
     bm_crc32 r = config_store_crc32 (take FIRMWARE_META_CRC_SPAN (boot_meta_bytes r)) \<and>
     bank_is_legal (bm_active_bank r) \<and> bank_is_legal (bm_previous_bank r) \<and>
     bm_boot_state r \<ge> FIRMWARE_META_STATE_CONFIRMED \<and> bm_boot_state r \<le> FIRMWARE_META_STATE_ROLLED_BACK"

definition record_is_blank :: "firmware_boot_meta \<Rightarrow> bool" where
  "record_is_blank r \<longleftrightarrow> list_all (\<lambda>b. b = 0xFF) (boot_meta_bytes r)"

text \<open>The loop over the two copies.\<close>

fun select_copies ::
  "'f iinternal_flash \<Rightarrow> nat list \<Rightarrow> boot_record \<Rightarrow> u32 \<Rightarrow> 'f \<Rightarrow> bool \<times> boot_record \<times> u32" where
  "select_copies L [] cur events f = (True, cur, events)"
| "select_copies L (c # cs) cur events f =
     (let (err, m) = if_read L (meta_addr c) 24 f; r = boot_meta_read m
      in if err \<noteq> INTERNAL_FLASH_OK then (False, cur, events)
         else if \<not> record_is_valid r then
           select_copies L cs cur (if \<not> record_is_blank r then events OR BOOT_EVT_COPY_INVALID else events) f
         else if \<not> br_valid cur \<or> bm_generation r > bm_generation (br_rec cur) then
           select_copies L cs \<lparr>br_valid = True, br_copy = c, br_rec = r\<rparr> events f
         else select_copies L cs cur events f)"

definition record_select ::
  "'f iinternal_flash \<Rightarrow> boot_record \<Rightarrow> u32 \<Rightarrow> 'f \<Rightarrow> bool \<times> boot_record \<times> u32" where
  "record_select L cur events f = select_copies L [0, 1] (cur\<lparr>br_valid := False, br_copy := 0\<rparr>) events f"

definition record_write_once ::
  "'f iinternal_flash \<Rightarrow> nat \<Rightarrow> firmware_boot_meta \<Rightarrow> 'f \<Rightarrow> bool \<times> 'f" where
  "record_write_once L addr r f =
     (let bytes = boot_meta_bytes r; (err, f) = if_erase_page L addr f
      in if err \<noteq> INTERNAL_FLASH_OK then (False, f)
         else
           let (err, f) = if_program L addr (take BOOT_META_HEAD_BYTES bytes) f
           in if err \<noteq> INTERNAL_FLASH_OK then (False, f)
              else
                let (err, f) = if_program L (addr + BOOT_META_HEAD_BYTES) (drop BOOT_META_HEAD_BYTES bytes) f
                in if err \<noteq> INTERNAL_FLASH_OK then (False, f)
                   else
                     let (err, back) = if_read L addr 24 f
                     in (err = INTERNAL_FLASH_OK \<and> back = bytes, f))"

fun record_write_attempts ::
  "nat \<Rightarrow> 'f iinternal_flash \<Rightarrow> nat \<Rightarrow> firmware_boot_meta \<Rightarrow> 'f \<Rightarrow> bool \<times> 'f" where
  "record_write_attempts 0 L addr r f = (False, f)"
| "record_write_attempts (Suc n) L addr r f =
     (let (ok, f) = record_write_once L addr r f
      in if ok then (True, f) else record_write_attempts n L addr r f)"

definition new_record :: "boot_record \<Rightarrow> u8 \<Rightarrow> u8 \<Rightarrow> u8 \<Rightarrow> u32 \<Rightarrow> firmware_boot_meta" where
  "new_record cur active state previous count =
     (let r = \<lparr>bm_magic = FIRMWARE_META_MAGIC, bm_active_bank = active, bm_boot_state = state,
               bm_previous_bank = previous, bm_reserved = 0xFF, bm_rollback_count = count,
               bm_generation = (if br_valid cur then bm_generation (br_rec cur) + 1 else 1),
               bm_crc32 = 0, bm_pad = FIRMWARE_ERASED_WORD\<rparr>
      in r\<lparr>bm_crc32 := config_store_crc32 (take FIRMWARE_META_CRC_SPAN (boot_meta_bytes r))\<rparr>)"

definition write_target :: "boot_record \<Rightarrow> nat" where
  "write_target cur = (if br_valid cur \<and> br_copy cur = 0 then 1 else 0)"

definition record_write ::
  "'f iinternal_flash \<Rightarrow> boot_record \<Rightarrow> u8 \<Rightarrow> u8 \<Rightarrow> u8 \<Rightarrow> u32 \<Rightarrow> 'f \<Rightarrow> bool \<times> boot_record \<times> 'f" where
  "record_write L cur active state previous count f =
     (let target = write_target cur; r = new_record cur active state previous count;
          (ok, f) = record_write_attempts BOOT_WRITE_ATTEMPTS L (meta_addr target) r f
      in (ok, if ok then \<lparr>br_valid = True, br_copy = target, br_rec = r\<rparr> else cur, f))"

definition vectors_are_plausible :: "u32 \<Rightarrow> u32 \<Rightarrow> u32 \<Rightarrow> u32 \<Rightarrow> bool" where
  "vectors_are_plausible sp pc base len =
     (let sp_ok = (sp AND BOOT_SP_ALIGN_MASK = 0 \<and>
            (sp > BOOT_SRAM_ALIAS_BASE \<and> sp \<le> BOOT_SRAM_ALIAS_END \<or> sp > BOOT_SRAM2_BASE \<and> sp \<le> BOOT_SRAM2_END));
          entry = pc AND NOT BOOT_THUMB_BIT;
          pc_ok = (pc AND BOOT_THUMB_BIT \<noteq> 0 \<and> entry \<ge> base \<and> entry < base + len)
      in sp_ok \<and> pc_ok)"

text \<open>The body is read and summed in chunks; the offset grows until the length is covered.\<close>

function body_crc :: "'f iinternal_flash \<Rightarrow> nat \<Rightarrow> nat \<Rightarrow> nat \<Rightarrow> u32 \<Rightarrow> 'f \<Rightarrow> u32 option" where
  "body_crc L base len off crc f =
     (if \<not> off < len then Some crc
      else
        let left = len - off; n = (if left < BOOT_CHUNK_BYTES then left else BOOT_CHUNK_BYTES);
            (err, chunk) = if_read L (base + off) n f
        in if err \<noteq> INTERNAL_FLASH_OK then None
           else body_crc L base len (off + BOOT_CHUNK_BYTES) (config_store_crc32_feed crc chunk) f)"
  by pat_completeness auto
termination
  by (relation "measure (\<lambda>(L, base, len, off, crc, f). len - off)") (auto simp: BOOT_CHUNK_BYTES_def)

declare body_crc.simps [simp del]

definition slot_is_bootable :: "'f iinternal_flash \<Rightarrow> u8 \<Rightarrow> 'f \<Rightarrow> (u32 \<times> u32) option" where
  "slot_is_bootable L bank f =
     (let base = slot_base bank; (err, m) = if_read L (desc_addr bank) 32 f; d = slot_descriptor_read m
      in if err \<noteq> INTERNAL_FLASH_OK then None
         else if sd_magic d \<noteq> FIRMWARE_DESC_MAGIC \<or>
                 sd_desc_crc32 d \<noteq> config_store_crc32 (take FIRMWARE_DESC_CRC_SPAN m) \<or>
                 sd_load_addr d \<noteq> base \<or> sd_image_len d = 0 \<or> sd_image_len d > FIRMWARE_SLOT_SIZE then None
         else
           case body_crc L (unat base) (unat (sd_image_len d)) 0 config_store_crc32_start f of
             None \<Rightarrow> None
           | Some crc \<Rightarrow>
               if config_store_crc32_finish crc \<noteq> sd_body_crc32 d then None
               else
                 let (err, v) = if_read L (unat base) 8 f
                 in if err \<noteq> INTERNAL_FLASH_OK \<or>
                       \<not> vectors_are_plausible (cfl_get_u32 v) (cfl_get_u32 (drop 4 v)) base (sd_image_len d) then None
                    else Some (sd_image_len d, sd_version d))"

definition boot_finish :: "boot_report \<Rightarrow> boot_record \<Rightarrow> boot_outcome \<Rightarrow> boot_report" where
  "boot_finish rep cur out =
     (let rep = rep\<lparr>rp_outcome := out\<rparr>
      in if br_valid cur then
           rep\<lparr>rp_state_out := bm_boot_state (br_rec cur), rp_active_bank := bm_active_bank (br_rec cur),
               rp_generation := bm_generation (br_rec cur), rp_rollback_count := bm_rollback_count (br_rec cur)\<rparr>
         else rep)"

definition blank_report :: boot_report where
  "blank_report = \<lparr>rp_outcome = BOOT_OUTCOME_RUN, rp_events = 0, rp_slot_base = 0, rp_image_len = 0, rp_version = 0,
     rp_state_in = 0, rp_state_out = 0, rp_active_bank = 0, rp_generation = 0, rp_rollback_count = 0\<rparr>"

definition blank_record :: boot_record where
  "blank_record = \<lparr>br_valid = False, br_copy = 0, br_rec = \<lparr>bm_magic = 0, bm_active_bank = 0, bm_boot_state = 0,
     bm_previous_bank = 0, bm_reserved = 0, bm_rollback_count = 0, bm_generation = 0, bm_crc32 = 0, bm_pad = 0\<rparr>\<rparr>"

text \<open>The boot-state rule: \<open>Some\<close> outcome when the bootloader halts here.\<close>

definition boot_transition ::
  "'f iinternal_flash \<Rightarrow> boot_record \<Rightarrow> u32 \<Rightarrow> 'f \<Rightarrow> boot_outcome option \<times> boot_record \<times> u32 \<times> 'f" where
  "boot_transition L cur events f =
     (let r = br_rec cur
      in if \<not> br_valid cur then
           let events = events OR BOOT_EVT_RECORD_INITIALISED;
               (ok, cur, f) = record_write L cur FIRMWARE_BANK_A FIRMWARE_META_STATE_CONFIRMED FIRMWARE_BANK_B 0 f
           in if \<not> ok then (Some BOOT_OUTCOME_HALT_FLASH_FAULT, cur, events OR BOOT_EVT_META_WRITE_FAILED, f)
              else (None, cur, events, f)
         else if bm_boot_state r = FIRMWARE_META_STATE_TRIAL_PENDING then
           let (ok, cur, f) = record_write L cur (bm_active_bank r) FIRMWARE_META_STATE_TRIAL_RUNNING
                 (bm_previous_bank r) (bm_rollback_count r) f
           in if \<not> ok then (Some BOOT_OUTCOME_HALT_FLASH_FAULT, cur, events OR BOOT_EVT_META_WRITE_FAILED, f)
              else (None, cur, events OR BOOT_EVT_TRIAL_STARTED, f)
         else if bm_boot_state r = FIRMWARE_META_STATE_TRIAL_RUNNING then
           if bm_rollback_count r \<ge> BOOT_MAX_ROLLBACKS then (Some BOOT_OUTCOME_HALT_ROLLBACK_LIMIT, cur, events, f)
           else
             let (ok, cur, f) = record_write L cur (bm_previous_bank r) FIRMWARE_META_STATE_ROLLED_BACK
                   (bm_active_bank r) (bm_rollback_count r + 1) f
             in (None, cur, events OR (if \<not> ok then BOOT_EVT_META_WRITE_FAILED else BOOT_EVT_TRIAL_ABANDONED), f)
         else (None, cur, events, f))"

definition run_bank :: "u32 \<Rightarrow> firmware_boot_meta \<Rightarrow> u8" where
  "run_bank events r =
     (if events AND BOOT_EVT_META_WRITE_FAILED \<noteq> 0 \<and> bm_boot_state r = FIRMWARE_META_STATE_TRIAL_RUNNING
      then bm_previous_bank r else bm_active_bank r)"

definition boot_slot ::
  "'f iinternal_flash \<Rightarrow> boot_record \<Rightarrow> boot_report \<Rightarrow> 'f \<Rightarrow> boot_report \<times> 'f" where
  "boot_slot L cur rep f =
     (let run = run_bank (rp_events rep) (br_rec cur)
      in case slot_is_bootable L run f of
           Some (len, version) \<Rightarrow>
             (boot_finish (rep\<lparr>rp_slot_base := slot_base run, rp_image_len := len, rp_version := version\<rparr>) cur
                BOOT_OUTCOME_RUN, f)
         | None \<Rightarrow>
             let rep = rep\<lparr>rp_events := rp_events rep OR BOOT_EVT_ACTIVE_INVALID\<rparr>; other = other_bank run
             in if bm_rollback_count (br_rec cur) \<ge> BOOT_MAX_ROLLBACKS then
                  (boot_finish rep cur BOOT_OUTCOME_HALT_ROLLBACK_LIMIT, f)
                else
                  case slot_is_bootable L other f of
                    None \<Rightarrow> (boot_finish rep cur BOOT_OUTCOME_HALT_NO_IMAGE, f)
                  | Some (len, version) \<Rightarrow>
                      let (ok, cur, f) = record_write L cur other FIRMWARE_META_STATE_ROLLED_BACK run
                            (bm_rollback_count (br_rec cur) + 1) f;
                          rep = (if \<not> ok then rep\<lparr>rp_events := rp_events rep OR BOOT_EVT_META_WRITE_FAILED\<rparr> else rep)
                      in (boot_finish (rep\<lparr>rp_slot_base := slot_base other, rp_image_len := len,
                            rp_version := version\<rparr>) cur BOOT_OUTCOME_RUN, f))"

text \<open>The null flash is \<open>None\<close>; the report is the result, so that it is never missing.\<close>

definition boot_core_run ::
  "'f iinternal_flash option \<Rightarrow> 'f \<Rightarrow> boot_outcome \<times> boot_report \<times> 'f" where
  "boot_core_run fl f =
     (case fl of None \<Rightarrow> (BOOT_OUTCOME_HALT_FLASH_FAULT, blank_report, f)
      | Some L \<Rightarrow>
          let (readable, cur, events) = record_select L blank_record 0 f; rep = blank_report\<lparr>rp_events := events\<rparr>
          in if \<not> readable then
               (BOOT_OUTCOME_HALT_FLASH_FAULT, boot_finish rep cur BOOT_OUTCOME_HALT_FLASH_FAULT, f)
             else
               let rep = rep\<lparr>rp_state_in := if br_valid cur then bm_boot_state (br_rec cur) else 0\<rparr>;
                   (halt, cur, events, f) = boot_transition L cur events f; rep = rep\<lparr>rp_events := events\<rparr>
               in case halt of Some out \<Rightarrow> (out, boot_finish rep cur out, f)
                  | None \<Rightarrow> let (rep, f) = boot_slot L cur rep f in (rp_outcome rep, rep, f))"

section \<open>What the flash says\<close>

definition meta_copy :: "(nat \<Rightarrow> u8) \<Rightarrow> nat \<Rightarrow> firmware_boot_meta" where
  "meta_copy v c = boot_meta_read (bytes_at v (meta_addr c) 24)"

definition in_force :: "(nat \<Rightarrow> u8) \<Rightarrow> (nat \<times> firmware_boot_meta) option" where
  "in_force v =
     (let a = meta_copy v 0; b = meta_copy v 1
      in if record_is_valid a \<and> (\<not> record_is_valid b \<or> bm_generation b \<le> bm_generation a) then Some (0, a)
         else if record_is_valid b then Some (1, b) else None)"

text \<open>The length and version of the image a slot holds, if its descriptor, its checksum and its vectors
  are in order.\<close>

definition slot_image :: "(nat \<Rightarrow> u8) \<Rightarrow> u8 \<Rightarrow> (u32 \<times> u32) option" where
  "slot_image v bank =
     (let m = bytes_at v (desc_addr bank) 32; d = slot_descriptor_read m; base = slot_base bank
      in if sd_magic d = FIRMWARE_DESC_MAGIC \<and>
            sd_desc_crc32 d = config_store_crc32 (take FIRMWARE_DESC_CRC_SPAN m) \<and>
            sd_load_addr d = base \<and> sd_image_len d \<noteq> 0 \<and> sd_image_len d \<le> FIRMWARE_SLOT_SIZE \<and>
            config_store_crc32 (bytes_at v (unat base) (unat (sd_image_len d))) = sd_body_crc32 d \<and>
            vectors_are_plausible (cfl_get_u32 (bytes_at v (unat base) 8))
              (cfl_get_u32 (bytes_at v (unat base + 4) 4)) base (sd_image_len d)
         then Some (sd_image_len d, sd_version d) else None)"

definition meta_pages :: "nat \<Rightarrow> bool" where
  "meta_pages x \<longleftrightarrow> 0x08004000 \<le> x \<and> x < 0x08005000"

lemma fw_slot_base_cases: "slot_base b = 0x08006000 \<or> slot_base b = 0x08080000"
  by (simp add: slot_base_def fw_geometry)

lemma unat_slot_base: "unat (slot_base b) = 0x08006000 \<or> unat (slot_base b) = 0x08080000"
  using fw_slot_base_cases [of b] by auto

lemma desc_addr_cases: "desc_addr b = 0x08005000 \<or> desc_addr b = 0x08005800"
  by (simp add: desc_addr_def fw_geometry)

lemma meta_addr_cases: "meta_addr c = 0x08004000 \<or> meta_addr c = 0x08004800"
  by (simp add: meta_addr_def fw_geometry)

lemma image_len_bound: "(n :: u32) \<le> FIRMWARE_SLOT_SIZE \<Longrightarrow> unat n \<le> 491520"
  by (simp add: word_le_nat_alt fw_geometry)

lemma drop_bytes_at: "drop k (bytes_at v a (k + n)) = bytes_at v (a + k) n"
  by (simp add: bytes_at_append)

lemma slot_image_cong:
  assumes "\<And>x. \<not> meta_pages x \<Longrightarrow> v' x = v x"
  shows "slot_image v' bank = slot_image v bank"
proof -
  have "bytes_at v' a n = bytes_at v a n" if "0x08005000 \<le> a" for a n
    by (rule bytes_at_cong) (use that assms in \<open>auto simp: meta_pages_def\<close>)
  then show ?thesis
    using desc_addr_cases [of bank] unat_slot_base [of bank] by (auto simp: slot_image_def Let_def)
qed

lemma meta_copy_cong:
  assumes "\<And>x. meta_pages x \<Longrightarrow> v' x = v x"
  shows "meta_copy v' c = meta_copy v c"
proof -
  have "bytes_at v' (meta_addr c) 24 = bytes_at v (meta_addr c) 24"
    by (rule bytes_at_cong) (use meta_addr_cases [of c] assms in \<open>auto simp: meta_pages_def\<close>)
  then show ?thesis by (simp add: meta_copy_def)
qed

lemma in_force_cong: "(\<And>x. meta_pages x \<Longrightarrow> v' x = v x) \<Longrightarrow> in_force v' = in_force v"
  using meta_copy_cong [of v' v] by (simp add: in_force_def)

lemma in_force_valid: "in_force v = Some (c, r) \<Longrightarrow> record_is_valid r \<and> c \<in> {0, 1} \<and> r = meta_copy v c"
  by (auto simp: in_force_def Let_def split: if_splits)

lemma legal_banks [simp]: "bank_is_legal FIRMWARE_BANK_A" "bank_is_legal FIRMWARE_BANK_B" "bank_is_legal (other_bank b)"
  by (simp_all add: bank_is_legal_def other_bank_def)

lemma new_record_fields [simp]:
  "bm_active_bank (new_record cur a s p n) = a" "bm_boot_state (new_record cur a s p n) = s"
  "bm_previous_bank (new_record cur a s p n) = p" "bm_rollback_count (new_record cur a s p n) = n"
  "bm_generation (new_record cur a s p n) = (if br_valid cur then bm_generation (br_rec cur) + 1 else 1)"
  by (simp_all add: new_record_def Let_def)

lemma new_record_valid:
  assumes "bank_is_legal a" "bank_is_legal p" "1 \<le> s" "s \<le> 4"
  shows "record_is_valid (new_record cur a s p n)"
  using assms
  by (simp add: record_is_valid_def new_record_def Let_def boot_meta_bytes_def FIRMWARE_META_CRC_SPAN_def
      fw_states)

text \<open>A valid record of a higher generation, written to the copy that is not in force, is in force.\<close>

lemma newer_copy_in_force:
  assumes "record_is_valid r'" "meta_copy v' t = r'" "meta_copy v' (1 - t) = meta_copy v (1 - t)"
    and "t = (case in_force v of Some (c, r) \<Rightarrow> 1 - c | None \<Rightarrow> 0)"
    and "\<And>c r. in_force v = Some (c, r) \<Longrightarrow> bm_generation r < bm_generation r'"
  shows "in_force v' = Some (t, r')"
proof (cases "in_force v")
  case None
  then have "\<not> record_is_valid (meta_copy v 1)" by (auto simp: in_force_def Let_def split: if_splits)
  then show ?thesis using assms None by (auto simp: in_force_def Let_def)
next
  case (Some cr)
  obtain c r where cr: "cr = (c, r)" by fastforce
  note c = in_force_valid [OF Some [unfolded cr]]
  then consider "c = 0" | "c = 1" by blast
  then show ?thesis
    using assms c Some cr by cases (auto simp: in_force_def Let_def not_le less_imp_le)
qed

definition matches :: "(nat \<Rightarrow> u8) \<Rightarrow> boot_record \<Rightarrow> bool" where
  "matches v cur \<longleftrightarrow> in_force v = (if br_valid cur then Some (br_copy cur, br_rec cur) else None)"

section \<open>Reading and writing the record\<close>

lemma select_events:
  "select_copies L cs cur ev f = (ok, cur', ev') \<Longrightarrow> ev' = ev \<or> ev' = ev OR BOOT_EVT_COPY_INVALID"
  by (induction cs arbitrary: cur ev)
    (fastforce simp: Let_def or.assoc split: prod.splits if_splits)+

lemma read_copy_4: "bytes_at v a 8 = bytes_at v a 4 @ bytes_at v (a + 4) 4"
  using bytes_at_append [of v a 4 4] by simp

context onchip_flash begin

lemma record_select_matches:
  assumes "record_select L cur ev f = (True, cur', ev')"
  shows "matches (view f) cur'"
proof -
  obtain e0 m0 where r0: "if_read L (meta_addr 0) 24 f = (e0, m0)" by fastforce
  obtain e1 m1 where r1: "if_read L (meta_addr 1) 24 f = (e1, m1)" by fastforce
  have ok: "e0 = INTERNAL_FLASH_OK" "e1 = INTERNAL_FLASH_OK"
    using assms r0 r1 by (auto simp: record_select_def Let_def split: if_splits)
  have "boot_meta_read m0 = meta_copy (view f) 0" "boot_meta_read m1 = meta_copy (view f) 1"
    using read_ok r0 r1 ok by (simp_all add: meta_copy_def)
  then show ?thesis
    using assms r0 r1 ok
    by (auto simp: record_select_def Let_def matches_def in_force_def not_le split: if_splits)
qed

lemma write_once:
  assumes "record_write_once L a r f = (ok, f')"
  shows "x < a \<or> a + 2048 \<le> x \<Longrightarrow> view f' x = view f x"
    and "ok \<Longrightarrow> bytes_at (view f') a 24 = boot_meta_bytes r"
proof -
  obtain e1 f1 where s1: "if_erase_page L a f = (e1, f1)" by fastforce
  obtain e2 f2 where s2: "if_program L a (take 16 (boot_meta_bytes r)) f1 = (e2, f2)" by fastforce
  obtain e3 f3 where s3: "if_program L (a + 16) (drop 16 (boot_meta_bytes r)) f2 = (e3, f3)" by fastforce
  obtain e4 m where s4: "if_read L a 24 f3 = (e4, m)" by fastforce
  note run = assms [unfolded record_write_once_def Let_def BOOT_META_HEAD_BYTES_def]
  show "view f' x = view f x" if "x < a \<or> a + 2048 \<le> x"
  proof -
    have "view f1 x = view f x" using erase_outside [of x a f] that s1 by simp
    moreover have "view f2 x = view f1 x"
      using program_outside [of x a "take 16 (boot_meta_bytes r)" f1] that s2 by auto
    moreover have "view f3 x = view f2 x"
      using program_outside [of x "a + 16" "drop 16 (boot_meta_bytes r)" f2] that s3 by auto
    ultimately show ?thesis using run by (auto simp: s1 s2 s3 s4 split: if_splits)
  qed
  show "bytes_at (view f') a 24 = boot_meta_bytes r" if ok
    using run that read_ok [of a 24 f3 m] by (auto simp: s1 s2 s3 s4 split: if_splits)
qed

lemma write_attempts:
  assumes "record_write_attempts n L a r f = (ok, f')"
  shows "x < a \<or> a + 2048 \<le> x \<Longrightarrow> view f' x = view f x"
    and "ok \<Longrightarrow> bytes_at (view f') a 24 = boot_meta_bytes r"
proof -
  have "(x < a \<or> a + 2048 \<le> x \<longrightarrow> view f' x = view f x) \<and> (ok \<longrightarrow> bytes_at (view f') a 24 = boot_meta_bytes r)"
    using assms
  proof (induction n arbitrary: f)
    case (Suc n)
    obtain b g where w: "record_write_once L a r f = (b, g)" by fastforce
    show ?case
    proof (cases b)
      case True
      then show ?thesis using Suc.prems write_once [OF w] by (simp add: w)
    next
      case False
      then show ?thesis using Suc.prems Suc.IH [of g] write_once(1) [OF w] by (simp add: w)
    qed
  qed simp
  then show "x < a \<or> a + 2048 \<le> x \<Longrightarrow> view f' x = view f x" "ok \<Longrightarrow> bytes_at (view f') a 24 = boot_meta_bytes r"
    by blast+
qed

lemma record_write_effect:
  assumes "record_write L cur a s p n f = (ok, cur', f')"
  shows "\<not> meta_pages x \<Longrightarrow> view f' x = view f x"
    and "\<not> ok \<Longrightarrow> cur' = cur"
    and "ok \<Longrightarrow> cur' = \<lparr>br_valid = True, br_copy = write_target cur, br_rec = new_record cur a s p n\<rparr>"
    and "ok \<Longrightarrow> meta_copy (view f') (write_target cur) = new_record cur a s p n"
    and "c \<in> {0, 1} \<Longrightarrow> c \<noteq> write_target cur \<Longrightarrow> meta_copy (view f') c = meta_copy (view f) c"
proof -
  obtain b g where w: "record_write_attempts BOOT_WRITE_ATTEMPTS L (meta_addr (write_target cur))
      (new_record cur a s p n) f = (b, g)" by fastforce
  have r: "ok = b" "f' = g" "cur' = (if b then \<lparr>br_valid = True, br_copy = write_target cur, br_rec = new_record cur a s p n\<rparr> else cur)"
    using assms by (auto simp: record_write_def Let_def w)
  note e = write_attempts [OF w]
  show "\<not> meta_pages x \<Longrightarrow> view f' x = view f x"
    using e(1) [of x] r(2) meta_addr_cases [of "write_target cur"] by (auto simp: meta_pages_def)
  show "\<not> ok \<Longrightarrow> cur' = cur"
    and "ok \<Longrightarrow> cur' = \<lparr>br_valid = True, br_copy = write_target cur, br_rec = new_record cur a s p n\<rparr>"
    using r by auto
  show "ok \<Longrightarrow> meta_copy (view f') (write_target cur) = new_record cur a s p n"
    using e(2) r by (simp add: meta_copy_def)
  show "meta_copy (view f') c = meta_copy (view f) c" if c: "c \<in> {0, 1}" "c \<noteq> write_target cur"
  proof -
    have "bytes_at (view f') (meta_addr c) 24 = bytes_at (view f) (meta_addr c) 24"
      by (rule bytes_at_cong)
        (use e(1) r(2) c in \<open>auto simp: meta_addr_def write_target_def fw_geometry split: if_splits\<close>)
    then show ?thesis by (simp add: meta_copy_def)
  qed
qed

text \<open>The record written is the one in force afterwards, unless the generation wraps.\<close>

lemma record_write_matches:
  assumes m: "matches (view f) cur" and w: "record_write L cur a s p n f = (True, cur', f')"
    and legal: "bank_is_legal a" "bank_is_legal p" "1 \<le> s" "s \<le> 4"
    and gen: "br_valid cur \<Longrightarrow> bm_generation (br_rec cur) \<noteq> 0xFFFFFFFF"
  shows "matches (view f') cur'"
proof -
  note e = record_write_effect [OF w]
  have "in_force (view f') = Some (write_target cur, new_record cur a s p n)"
  proof (rule newer_copy_in_force [OF new_record_valid [OF legal]])
    show "meta_copy (view f') (write_target cur) = new_record cur a s p n" using e(4) by simp
    show "meta_copy (view f') (1 - write_target cur) = meta_copy (view f) (1 - write_target cur)"
      by (rule e(5)) (auto simp: write_target_def)
    show "write_target cur = (case in_force (view f) of Some (c, r) \<Rightarrow> 1 - c | None \<Rightarrow> 0)"
      using m in_force_valid [of "view f"] by (auto simp: matches_def write_target_def split: if_splits)
    show "bm_generation r < bm_generation (new_record cur a s p n)" if "in_force (view f) = Some (c, r)" for c r
      using that m gen u32_less_succ [of "bm_generation r"] by (auto simp: matches_def split: if_splits)
  qed
  then show ?thesis using e(3) by (simp add: matches_def)
qed

end

section \<open>Verifying a slot\<close>

lemma chunk_pos: "0 < BOOT_CHUNK_BYTES"
  by (simp add: BOOT_CHUNK_BYTES_def)

lemma chunk_bytes:
  assumes "off < len"
  shows "bytes_at v (base + off) (len - off) =
    bytes_at v (base + off) (if len - off < BOOT_CHUNK_BYTES then len - off else BOOT_CHUNK_BYTES) @ bytes_at v (base + (off + BOOT_CHUNK_BYTES)) (len - (off + BOOT_CHUNK_BYTES))"
proof (cases "len - off < BOOT_CHUNK_BYTES")
  case True
  then have "len - (off + BOOT_CHUNK_BYTES) = 0" by simp
  then show ?thesis using True by (simp add: bytes_at_def)
next
  case False
  then have "len - off = BOOT_CHUNK_BYTES + (len - (off + BOOT_CHUNK_BYTES))" by simp
  then show ?thesis using False bytes_at_append [of v "base + off" BOOT_CHUNK_BYTES "len - (off + BOOT_CHUNK_BYTES)"] by (simp add: add.assoc)
qed

lemma slot_end: "unat (slot_base b) + 491520 \<le> 0x08100000"
  using unat_slot_base [of b] by auto

lemma vector_bytes: "cfl_get_u32 (drop 4 (bytes_at v a 8)) = cfl_get_u32 (bytes_at v (a + 4) 4)"
  using drop_bytes_at [of 4 v a 4] by simp

context onchip_flash begin

lemma body_crc_value:
  assumes "body_crc L base len off crc f = Some c"
  shows "c = config_store_crc32_feed crc (bytes_at (view f) (base + off) (len - off))"
  using assms
proof (induction "len - off" arbitrary: off crc rule: less_induct)
  case less
  show ?case
  proof (cases "off < len")
    case False
    then show ?thesis using less.prems by (simp add: body_crc.simps bytes_at_def)
  next
    case True
    define n where "n = (if len - off < BOOT_CHUNK_BYTES then len - off else BOOT_CHUNK_BYTES)"
    obtain err chunk where r: "if_read L (base + off) n f = (err, chunk)" by fastforce
    have step: "body_crc L base len off crc f =
        (if err \<noteq> INTERNAL_FLASH_OK then None
         else body_crc L base len (off + BOOT_CHUNK_BYTES) (config_store_crc32_feed crc chunk) f)"
      using True r by (subst body_crc.simps) (simp add: Let_def n_def [symmetric])
    then have ok: "err = INTERNAL_FLASH_OK" using less.prems by (simp split: if_splits)
    have ch: "chunk = bytes_at (view f) (base + off) n" using read_ok [of "base + off" n f chunk] r ok by simp
    have "c = config_store_crc32_feed (config_store_crc32_feed crc chunk)
        (bytes_at (view f) (base + (off + BOOT_CHUNK_BYTES)) (len - (off + BOOT_CHUNK_BYTES)))"
      by (rule less.hyps) (use True less.prems step ok chunk_pos in auto)
    then show ?thesis
      using chunk_bytes [OF True, of "view f" base] by (simp add: ch n_def [symmetric] config_store_crc32_feed_append)
  qed
qed

lemma slot_is_bootable_sound:
  assumes "slot_is_bootable L bank f = Some x"
  shows "slot_image (view f) bank = Some x"
proof -
  let ?base = "unat (slot_base bank)"
  obtain e m where r: "if_read L (desc_addr bank) 32 f = (e, m)" by fastforce
  obtain e2 w where r2: "if_read L ?base 8 f = (e2, w)" by fastforce
  let ?len = "unat (sd_image_len (slot_descriptor_read m))"
  obtain c where c: "body_crc L ?base ?len 0 config_store_crc32_start f = Some c"
    using assms by (auto simp: slot_is_bootable_def Let_def r split: if_splits option.splits)
  have ok: "e = INTERNAL_FLASH_OK" "e2 = INTERNAL_FLASH_OK"
    using assms c by (auto simp: slot_is_bootable_def Let_def r r2 split: if_splits)
  have bs: "m = bytes_at (view f) (desc_addr bank) 32" "w = bytes_at (view f) ?base 8"
    using r r2 ok read_ok by auto
  have cv: "config_store_crc32_finish c = config_store_crc32 (bytes_at (view f) ?base ?len)"
    using body_crc_value [OF c] by (simp add: config_store_crc32_def)
  show ?thesis
    using assms c cv
    by (auto simp: slot_is_bootable_def slot_image_def Let_def r r2 ok vector_bytes bs(2)
        bs(1) [symmetric] split: if_splits)
qed

end

context readable_onchip begin

lemma body_crc_reads:
  assumes "up f" "0x08000000 \<le> base" "base + len \<le> 0x08100000"
  shows "body_crc L base len off crc f \<noteq> None"
  using assms
proof (induction "len - off" arbitrary: off crc rule: less_induct)
  case less
  show ?case
  proof (cases "off < len")
    case False
    then show ?thesis by (simp add: body_crc.simps)
  next
    case True
    define n where "n = (if len - off < BOOT_CHUNK_BYTES then len - off else BOOT_CHUNK_BYTES)"
    have "if_read L (base + off) n f = (INTERNAL_FLASH_OK, bytes_at (view f) (base + off) n)"
      by (rule read_value) (use True less.prems chunk_pos in \<open>auto simp: n_def\<close>)
    then have "body_crc L base len off crc f =
        body_crc L base len (off + BOOT_CHUNK_BYTES) (config_store_crc32_feed crc (bytes_at (view f) (base + off) n)) f"
      using True by (subst body_crc.simps) (simp add: Let_def n_def [symmetric])
    then show ?thesis
      using less.hyps [of "off + BOOT_CHUNK_BYTES"] True less.prems chunk_pos by simp
  qed
qed

lemma slot_is_bootable_value:
  assumes "up f"
  shows "slot_is_bootable L bank f = slot_image (view f) bank"
proof (cases "slot_is_bootable L bank f")
  case (Some x)
  then show ?thesis by (simp add: slot_is_bootable_sound)
next
  case None
  let ?base = "unat (slot_base bank)" and ?m = "bytes_at (view f) (desc_addr bank) 32"
  let ?d = "slot_descriptor_read ?m" let ?len = "unat (sd_image_len ?d)"
  have r: "if_read L (desc_addr bank) 32 f = (INTERNAL_FLASH_OK, ?m)"
    by (rule read_value [OF assms]) (use desc_addr_cases [of bank] in auto)
  have r2: "if_read L ?base 8 f = (INTERNAL_FLASH_OK, bytes_at (view f) ?base 8)"
    by (rule read_value [OF assms]) (use unat_slot_base [of bank] in auto)
  show ?thesis
  proof (cases "sd_image_len ?d \<le> FIRMWARE_SLOT_SIZE")
    case True
    have "body_crc L ?base ?len 0 config_store_crc32_start f \<noteq> None"
      by (rule body_crc_reads [OF assms])
        (use unat_slot_base [of bank] slot_end [of bank] image_len_bound [OF True] in auto)
    then obtain c where c: "body_crc L ?base ?len 0 config_store_crc32_start f = Some c" by blast
    have cv: "config_store_crc32_finish c = config_store_crc32 (bytes_at (view f) ?base ?len)"
      using body_crc_value [OF c] by (simp add: config_store_crc32_def)
    show ?thesis
      using None c cv
      by (auto simp: slot_is_bootable_def slot_image_def Let_def r r2 vector_bytes split: if_splits)
  next
    case False
    then show ?thesis using None by (simp add: slot_image_def Let_def)
  qed
qed

lemma write_once_up: "up f \<Longrightarrow> up (snd (record_write_once L a r f))"
  using erase_up program_up by (simp add: record_write_once_def Let_def split_def)

lemma write_attempts_up: "up f \<Longrightarrow> up (snd (record_write_attempts n L a r f))"
proof (induction n arbitrary: f)
  case (Suc n)
  obtain b g where w: "record_write_once L a r f = (b, g)" by fastforce
  then have "up g" using write_once_up [OF Suc.prems, of a r] by simp
  then show ?case using Suc.IH by (simp add: w)
qed simp

lemma record_write_up: "record_write L cur a s p n f = (ok, cur', f') \<Longrightarrow> up f \<Longrightarrow> up f'"
  using write_attempts_up [of f BOOT_WRITE_ATTEMPTS "meta_addr (write_target cur)" "new_record cur a s p n"]
  by (auto simp: record_write_def Let_def split: prod.splits)

lemma record_select_works:
  assumes "up f"
  obtains cur' ev' where "record_select L cur ev f = (True, cur', ev')" "matches (view f) cur'"
    "ev' = ev \<or> ev' = ev OR BOOT_EVT_COPY_INVALID"
proof -
  have rd: "if_read L (meta_addr c) 24 f = (INTERNAL_FLASH_OK, bytes_at (view f) (meta_addr c) 24)" for c
    by (rule read_value [OF assms]) (use meta_addr_cases [of c] in auto)
  have "fst (select_copies L cs cur ev f)" for cs cur ev
    by (induction cs arbitrary: cur ev) (simp_all add: rd Let_def)
  then obtain cur' ev' where w: "record_select L cur ev f = (True, cur', ev')"
    unfolding record_select_def by (metis prod.exhaust fst_conv)
  then show thesis
    using that record_select_matches [OF w] select_events by (metis record_select_def)
qed

end

text \<open>What happens is what happened on the flash that works.\<close>

context working_onchip begin

lemma write_once_works:
  assumes "sound f" "a mod 2048 = 0" "0x08004000 \<le> a" "a + 2048 \<le> 0x08100000"
  shows "fst (record_write_once L a r f)"
proof -
  obtain e1 f1 where s1: "if_erase_page L a f = (e1, f1)" by fastforce
  obtain e2 f2 where s2: "if_program L a (take 16 (boot_meta_bytes r)) f1 = (e2, f2)" by fastforce
  obtain e3 f3 where s3: "if_program L (a + 16) (drop 16 (boot_meta_bytes r)) f2 = (e3, f3)" by fastforce
  obtain q where q: "a = 2048 * q" using assms(2) by (metis mod_0_imp_dvd dvd_def)
  have "a = 8 * (256 * q)" "a + 16 = 8 * (256 * q + 2)" by (simp_all add: q)
  then have a8: "a mod 8 = 0" "(a + 16) mod 8 = 0" by (metis mod_mult_self1_is_0)+
  have 1: "e1 = INTERNAL_FLASH_OK" "sound f1" using erase_works [OF assms] erase_up [of f a] assms(1) s1 by auto
  have er: "view f1 (a + i) = 0xFF" if "i < 2048" for i using erase_inside [of a f "a + i"] s1 1 that by simp
  have "fst (if_program L a (take 16 (boot_meta_bytes r)) f1) = INTERNAL_FLASH_OK"
    by (rule program_works) (use 1 a8 er assms in \<open>auto simp flip: length_0_conv\<close>)
  then have 2: "e2 = INTERNAL_FLASH_OK" "sound f2" using program_up [of f1 a "take 16 (boot_meta_bytes r)"] 1 s2 by auto
  have "view f2 (a + 16 + i) = 0xFF" if "i < 8" for i
    using program_outside [of "a + 16 + i" a "take 16 (boot_meta_bytes r)" f1] s2 er [of "16 + i"] that
    by (simp add: add.assoc)
  then have "fst (if_program L (a + 16) (drop 16 (boot_meta_bytes r)) f2) = INTERNAL_FLASH_OK"
    using 2 a8 assms by (intro program_works) (auto simp flip: length_0_conv)
  then have 3: "e3 = INTERNAL_FLASH_OK" "sound f3" using program_up [of f2 "a + 16" "drop 16 (boot_meta_bytes r)"] 2 s3 by auto
  have rd: "if_read L a 24 f3 = (INTERNAL_FLASH_OK, bytes_at (view f3) a 24)"
    by (rule read_value) (use 3 assms in auto)
  have "bytes_at (view f3) a 24 = boot_meta_bytes r"
  proof (rule bytes_at_eqI)
    fix i assume i: "i < (24 :: nat)"
    show "view f3 (a + i) = boot_meta_bytes r ! i"
    proof (cases "i < 16")
      case True
      then have "view f3 (a + i) = view f2 (a + i)"
        using program_outside [of "a + i" "a + 16" "drop 16 (boot_meta_bytes r)" f2] s3 by simp
      then show ?thesis
        using program_inside [of a "take 16 (boot_meta_bytes r)" f1 i] s2 2 True by simp
    next
      case False
      then have "view f3 (a + 16 + (i - 16)) = drop 16 (boot_meta_bytes r) ! (i - 16)"
        using program_inside [of "a + 16" "drop 16 (boot_meta_bytes r)" f2 "i - 16"] s3 3 i by simp
      then show ?thesis using False i by simp
    qed
  qed simp
  then show ?thesis
    using 1 2 3 by (simp add: record_write_once_def Let_def BOOT_META_HEAD_BYTES_def s1 s2 s3 rd)
qed

lemma record_write_works:
  assumes "sound f"
  shows "fst (record_write L cur a s p n f)"
proof -
  let ?r = "new_record cur a s p n" and ?a = "meta_addr (write_target cur)"
  have "fst (record_write_once L ?a ?r f)"
    by (rule write_once_works [OF assms]) (use meta_addr_cases [of "write_target cur"] in auto)
  then have "fst (record_write_attempts BOOT_WRITE_ATTEMPTS L ?a ?r f)"
    by (simp add: BOOT_WRITE_ATTEMPTS_def numeral_2_eq_2 split_def Let_def)
  then show ?thesis by (simp add: record_write_def Let_def split_def)
qed

end

end
