(* ===== verification/Boot_Rule.thy ===== *)
theory Boot_Rule
  imports Boot_Core
begin

text \<open>
  What the bootloader promises.  \<open>boot_rule\<close> is the contract of the flash layout: from the record in force
  and the slots that verify to the slot to run and the record left in force.  On flash that works
  \<open>boot_core_run\<close> refines it; on flash whose erases and programs may fail at will a trial is still never run
  twice, and in every case only a verified slot is run and only the record pages change.
\<close>

section \<open>The rule\<close>

type_synonym boot_info = "u8 \<times> u8 \<times> u8 \<times> u32"

definition meta_info :: "firmware_boot_meta \<Rightarrow> boot_info" where
  "meta_info r = (bm_active_bank r, bm_boot_state r, bm_previous_bank r, bm_rollback_count r)"

definition boot_info :: "(nat \<Rightarrow> u8) \<Rightarrow> boot_info option" where
  "boot_info v = map_option (\<lambda>(c, r). meta_info r) (in_force v)"

fun settle :: "boot_info option \<Rightarrow> boot_outcome option \<times> boot_info" where
  "settle None = (None, (FIRMWARE_BANK_A, FIRMWARE_META_STATE_CONFIRMED, FIRMWARE_BANK_B, 0))"
| "settle (Some (a, s, p, n)) =
     (if s = FIRMWARE_META_STATE_TRIAL_PENDING then (None, (a, FIRMWARE_META_STATE_TRIAL_RUNNING, p, n))
      else if s = FIRMWARE_META_STATE_TRIAL_RUNNING then
        if n \<ge> BOOT_MAX_ROLLBACKS then (Some BOOT_OUTCOME_HALT_ROLLBACK_LIMIT, (a, s, p, n))
        else (None, (p, FIRMWARE_META_STATE_ROLLED_BACK, a, n + 1))
      else (None, (a, s, p, n)))"

fun choose_slot :: "(u8 \<Rightarrow> bool) \<Rightarrow> boot_info \<Rightarrow> boot_outcome \<times> u8 option \<times> boot_info" where
  "choose_slot bootable (a, s, p, n) =
     (if bootable a then (BOOT_OUTCOME_RUN, Some a, (a, s, p, n))
      else if n \<ge> BOOT_MAX_ROLLBACKS then (BOOT_OUTCOME_HALT_ROLLBACK_LIMIT, None, (a, s, p, n))
      else if bootable (other_bank a) then
        (BOOT_OUTCOME_RUN, Some (other_bank a), (other_bank a, FIRMWARE_META_STATE_ROLLED_BACK, a, n + 1))
      else (BOOT_OUTCOME_HALT_NO_IMAGE, None, (a, s, p, n)))"

definition boot_rule :: "(u8 \<Rightarrow> bool) \<Rightarrow> boot_info option \<Rightarrow> boot_outcome \<times> u8 option \<times> boot_info" where
  "boot_rule bootable i =
     (case settle i of (Some out, j) \<Rightarrow> (out, None, j) | (None, j) \<Rightarrow> choose_slot bootable j)"

definition bootable :: "(nat \<Rightarrow> u8) \<Rightarrow> u8 \<Rightarrow> bool" where
  "bootable v bank \<longleftrightarrow> slot_image v bank \<noteq> None"

section \<open>Small facts\<close>

lemma finish_fields [simp]:
  "rp_outcome (boot_finish rep cur out) = out" "rp_slot_base (boot_finish rep cur out) = rp_slot_base rep"
  "rp_image_len (boot_finish rep cur out) = rp_image_len rep" "rp_version (boot_finish rep cur out) = rp_version rep"
  "rp_events (boot_finish rep cur out) = rp_events rep"
  by (simp_all add: boot_finish_def Let_def)

lemma event_bits:
  assumes "ev = 0 \<or> ev = BOOT_EVT_COPY_INVALID"
  shows "ev AND BOOT_EVT_META_WRITE_FAILED = 0" "(ev OR BOOT_EVT_TRIAL_STARTED) AND BOOT_EVT_META_WRITE_FAILED = 0"
    "(ev OR BOOT_EVT_RECORD_INITIALISED) AND BOOT_EVT_META_WRITE_FAILED = 0"
    "(ev OR BOOT_EVT_TRIAL_ABANDONED) AND BOOT_EVT_META_WRITE_FAILED = 0"
    "(ev OR BOOT_EVT_META_WRITE_FAILED) AND BOOT_EVT_META_WRITE_FAILED \<noteq> 0"
  using assms by (auto simp: boot_events)

lemma states_differ [simp]:
  "FIRMWARE_META_STATE_TRIAL_RUNNING \<noteq> FIRMWARE_META_STATE_TRIAL_PENDING"
  "FIRMWARE_META_STATE_ROLLED_BACK \<noteq> FIRMWARE_META_STATE_TRIAL_RUNNING"
  "FIRMWARE_META_STATE_ROLLED_BACK \<noteq> FIRMWARE_META_STATE_TRIAL_PENDING"
  "FIRMWARE_META_STATE_CONFIRMED \<noteq> FIRMWARE_META_STATE_TRIAL_RUNNING"
  "FIRMWARE_META_STATE_CONFIRMED \<noteq> FIRMWARE_META_STATE_TRIAL_PENDING"
  by (simp_all add: fw_states)

lemma states_legal [simp]:
  "1 \<le> FIRMWARE_META_STATE_TRIAL_RUNNING" "FIRMWARE_META_STATE_TRIAL_RUNNING \<le> 4"
  "1 \<le> FIRMWARE_META_STATE_ROLLED_BACK" "FIRMWARE_META_STATE_ROLLED_BACK \<le> 4"
  "1 \<le> FIRMWARE_META_STATE_CONFIRMED" "FIRMWARE_META_STATE_CONFIRMED \<le> 4"
  "1 \<le> FIRMWARE_META_STATE_TRIAL_PENDING" "FIRMWARE_META_STATE_TRIAL_PENDING \<le> 4"
  by (simp_all add: fw_states)

lemma other_base: "bank_is_legal b \<Longrightarrow> slot_base (other_bank b) \<noteq> slot_base b"
  by (auto simp: bank_is_legal_def other_bank_def slot_base_def fw_banks fw_geometry)

lemma in_force_legal:
  "in_force v = Some (c, r) \<Longrightarrow> bank_is_legal (bm_active_bank r) \<and> bank_is_legal (bm_previous_bank r)"
  using in_force_valid [of v c r] unfolding record_is_valid_def by blast

lemma bootable_cong: "(\<And>x. \<not> meta_pages x \<Longrightarrow> v' x = v x) \<Longrightarrow> bootable v' = bootable v"
  using slot_image_cong [of v' v] by (simp add: bootable_def fun_eq_iff)

section \<open>Only a verified slot is run\<close>

context onchip_flash begin

lemma transition_outside:
  assumes "boot_transition L cur ev f = (h, cur', ev', f')" "\<not> meta_pages x"
  shows "view f' x = view f x"
proof -
  have "view (snd (snd (record_write L cur a s p n f))) x = view f x" for a s p n
    using record_write_effect(1) [of cur a s p n f _ _ _ x] assms(2)
    by (metis prod.collapse)
  then show ?thesis
    using assms(1) by (auto simp: boot_transition_def Let_def split_def split: if_splits)
qed

lemma boot_slot_outside:
  assumes "boot_slot L cur rep f = (rep', f')" "\<not> meta_pages x"
  shows "view f' x = view f x"
proof -
  have "view (snd (snd (record_write L cur a s p n f))) x = view f x" for a s p n
    using record_write_effect(1) [of cur a s p n f _ _ _ x] assms(2)
    by (metis prod.collapse)
  then show ?thesis
    using assms(1) by (auto simp: boot_slot_def Let_def split_def split: if_splits option.splits)
qed

lemma boot_slot_runs:
  assumes "boot_slot L cur rep f = (rep', f')" "rp_outcome rep' = BOOT_OUTCOME_RUN"
  obtains bank where "rp_slot_base rep' = slot_base bank"
    "slot_image (view f) bank = Some (rp_image_len rep', rp_version rep')"
proof -
  let ?run = "run_bank (rp_events rep) (br_rec cur)"
  show thesis
  proof (cases "slot_is_bootable L ?run f")
    case (Some x)
    then show thesis
      using assms slot_is_bootable_sound [OF Some] that [of ?run]
      by (auto simp: boot_slot_def Let_def split: prod.splits)
  next
    case None
    then obtain x where s: "slot_is_bootable L (other_bank ?run) f = Some x"
      using assms by (auto simp: boot_slot_def Let_def split: if_splits option.splits)
    then show thesis
      using None assms slot_is_bootable_sound [OF s] that [of "other_bank ?run"]
      by (auto simp: boot_slot_def Let_def split_def split: if_splits)
  qed
qed

lemma boot_run_slot:
  assumes "boot_core_run (Some L) f = (BOOT_OUTCOME_RUN, rep, f')"
  obtains bank where "rp_slot_base rep = slot_base bank"
    "slot_image (view f') bank = Some (rp_image_len rep, rp_version rep)"
proof -
  obtain ok cur ev where s: "record_select L blank_record 0 f = (ok, cur, ev)" by (metis prod.exhaust)
  obtain h cur1 ev1 f1 where t: "boot_transition L cur ev f = (h, cur1, ev1, f1)" by (metis prod.exhaust)
  have h: "h = None"
    using assms t
    by (auto simp: boot_core_run_def s Let_def boot_transition_def split_def split: if_splits option.splits)
  obtain rep0 where b: "boot_slot L cur1 rep0 f1 = (rep, f')" "rp_outcome rep = BOOT_OUTCOME_RUN"
    using assms by (auto simp: boot_core_run_def s t h Let_def split: prod.splits if_splits)
  show thesis
    using boot_slot_runs [OF b] slot_image_cong [of "view f'" "view f1"] boot_slot_outside [OF b(1)] that by metis
qed

lemma boot_run_outside:
  assumes "boot_core_run fl f = (out, rep, f')" "fl = None \<or> fl = Some L" "\<not> meta_pages x"
  shows "view f' x = view f x"
proof (cases fl)
  case None
  then show ?thesis using assms by (simp add: boot_core_run_def)
next
  case (Some L')
  then have l: "fl = Some L" using assms(2) by simp
  obtain ok cur ev where s: "record_select L blank_record 0 f = (ok, cur, ev)" by (metis prod.exhaust)
  obtain h cur1 ev1 f1 where t: "boot_transition L cur ev f = (h, cur1, ev1, f1)" by (metis prod.exhaust)
  show ?thesis
    using assms(1) transition_outside [OF t assms(3)] boot_slot_outside [OF _ assms(3)]
    by (auto simp: boot_core_run_def l s t Let_def split: prod.splits if_splits option.splits)
qed

end

section \<open>A trial is run at most once\<close>

context readable_onchip begin

lemma boot_start:
  assumes "up f"
  obtains cur ev where "matches (view f) cur" "ev = 0 \<or> ev = BOOT_EVT_COPY_INVALID"
    "boot_core_run (Some L) f =
       (let rep = blank_report\<lparr>rp_state_in := if br_valid cur then bm_boot_state (br_rec cur) else 0\<rparr>;
            (halt, cur, events, f) = boot_transition L cur ev f; rep = rep\<lparr>rp_events := events\<rparr>
        in case halt of Some out \<Rightarrow> (out, boot_finish rep cur out, f)
           | None \<Rightarrow> let (rep, f) = boot_slot L cur rep f in (rp_outcome rep, rep, f))"
proof -
  obtain cur ev where s: "record_select L blank_record 0 f = (True, cur, ev)" "matches (view f) cur"
    "ev = 0 \<or> ev = 0 OR BOOT_EVT_COPY_INVALID"
    by (rule record_select_works [OF assms, of blank_record 0])
  show thesis
    by (rule that [OF s(2)])
      (use s in \<open>auto simp: boot_core_run_def Let_def blank_report_def split: prod.splits option.splits\<close>)
qed

text \<open>The slot the record names is run if it verifies.\<close>

lemma boot_slot_verified:
  assumes "up f" "slot_image (view f) (run_bank (rp_events rep) (br_rec cur)) = Some (len, ver)"
  shows "boot_slot L cur rep f =
    (boot_finish (rep\<lparr>rp_slot_base := slot_base (run_bank (rp_events rep) (br_rec cur)), rp_image_len := len,
       rp_version := ver\<rparr>) cur BOOT_OUTCOME_RUN, f)"
  using assms by (simp add: boot_slot_def Let_def slot_is_bootable_value)

lemma matches_valid: "matches (view f) cur \<Longrightarrow> in_force (view f) = Some (c, r) \<Longrightarrow> cur = \<lparr>br_valid = True, br_copy = c, br_rec = r\<rparr>"
  by (cases cur) (auto simp: matches_def split: if_splits)

text \<open>A trial that ran without being confirmed is abandoned, whatever the flash does.\<close>

lemma trial_abandoned:
  assumes up: "up f" and trial: "boot_info (view f) = Some (a, FIRMWARE_META_STATE_TRIAL_RUNNING, p, n)"
    and img: "slot_image (view f) p = Some (len, ver)"
    and run: "boot_core_run (Some L) f = (out, rep, f')"
  shows "if n \<ge> BOOT_MAX_ROLLBACKS then out = BOOT_OUTCOME_HALT_ROLLBACK_LIMIT
     else out = BOOT_OUTCOME_RUN \<and> rp_slot_base rep = slot_base p \<and> rp_image_len rep = len \<and> rp_version rep = ver"
proof -
  obtain c r where r: "in_force (view f) = Some (c, r)" and ri: "bm_active_bank r = a"
    "bm_boot_state r = FIRMWARE_META_STATE_TRIAL_RUNNING" "bm_previous_bank r = p" "bm_rollback_count r = n"
    using trial by (auto simp: boot_info_def meta_info_def)
  obtain cur ev where m: "matches (view f) cur" and ev: "ev = 0 \<or> ev = BOOT_EVT_COPY_INVALID"
    and b: "boot_core_run (Some L) f =
       (let rep = blank_report\<lparr>rp_state_in := if br_valid cur then bm_boot_state (br_rec cur) else 0\<rparr>;
            (halt, cur, events, f) = boot_transition L cur ev f; rep = rep\<lparr>rp_events := events\<rparr>
        in case halt of Some out \<Rightarrow> (out, boot_finish rep cur out, f)
           | None \<Rightarrow> let (rep, f) = boot_slot L cur rep f in (rp_outcome rep, rep, f))"
    by (rule boot_start [OF up])
  note cur = matches_valid [OF m r]
  show ?thesis
  proof (cases "n \<ge> BOOT_MAX_ROLLBACKS")
    case True
    then show ?thesis using run b by (simp add: cur ri boot_transition_def Let_def)
  next
    case False
    obtain ok cur1 f1 where w: "record_write L cur p FIRMWARE_META_STATE_ROLLED_BACK a (n + 1) f = (ok, cur1, f1)"
      by (metis prod.exhaust)
    note e = record_write_effect [OF w]
    have up1: "up f1" by (rule record_write_up [OF w up])
    have img1: "slot_image (view f1) p = Some (len, ver)"
      using slot_image_cong [of "view f1" "view f" p] e(1) img by simp
    define ev1 where "ev1 = ev OR (if \<not> ok then BOOT_EVT_META_WRITE_FAILED else BOOT_EVT_TRIAL_ABANDONED)"
    have t: "boot_transition L cur ev f = (None, cur1, ev1, f1)"
      using False w by (simp add: boot_transition_def cur ri Let_def ev1_def)
    have bank: "run_bank ev1 (br_rec cur1) = p"
    proof (cases ok)
      case True
      then show ?thesis using e(3) by (simp add: run_bank_def)
    next
      case False
      then show ?thesis using e(2) event_bits [OF ev] by (simp add: run_bank_def cur ri ev1_def)
    qed
    show ?thesis
      using run b False boot_slot_verified [OF up1, of _ cur1 len ver] bank img1
      by (auto simp: t Let_def)
  qed
qed

text \<open>Running the image of a pending trial leaves it marked as running.\<close>

lemma trial_started:
  assumes up: "up f" and rec: "in_force (view f) = Some (c, r)" "bm_boot_state r = FIRMWARE_META_STATE_TRIAL_PENDING"
    and gen: "bm_generation r \<noteq> 0xFFFFFFFF"
    and run: "boot_core_run (Some L) f = (BOOT_OUTCOME_RUN, rep, f')" "rp_slot_base rep = slot_base (bm_active_bank r)"
  shows "boot_info (view f') =
    Some (bm_active_bank r, FIRMWARE_META_STATE_TRIAL_RUNNING, bm_previous_bank r, bm_rollback_count r)"
proof -
  obtain cur ev where m: "matches (view f) cur" and ev: "ev = 0 \<or> ev = BOOT_EVT_COPY_INVALID"
    and b: "boot_core_run (Some L) f =
       (let rep = blank_report\<lparr>rp_state_in := if br_valid cur then bm_boot_state (br_rec cur) else 0\<rparr>;
            (halt, cur, events, f) = boot_transition L cur ev f; rep = rep\<lparr>rp_events := events\<rparr>
        in case halt of Some out \<Rightarrow> (out, boot_finish rep cur out, f)
           | None \<Rightarrow> let (rep, f) = boot_slot L cur rep f in (rp_outcome rep, rep, f))"
    by (rule boot_start [OF up])
  note cur = matches_valid [OF m rec(1)]
  note legal = in_force_legal [OF rec(1)]
  let ?w = "record_write L cur (bm_active_bank r) FIRMWARE_META_STATE_TRIAL_RUNNING (bm_previous_bank r) (bm_rollback_count r) f"
  obtain ok cur1 f1 where w: "?w = (ok, cur1, f1)" by (metis prod.exhaust)
  have ok: ok using run(1) b w rec(2) by (auto simp: cur boot_transition_def Let_def split: if_splits)
  then have w': "?w = (True, cur1, f1)" using w by simp
  have t: "boot_transition L cur ev f = (None, cur1, ev OR BOOT_EVT_TRIAL_STARTED, f1)"
    using w' rec(2) by (simp add: cur boot_transition_def Let_def)
  have m1: "matches (view f1) cur1"
    by (rule record_write_matches [OF m w']) (use legal gen cur in auto)
  have c1: "br_valid cur1" "meta_info (br_rec cur1) =
      (bm_active_bank r, FIRMWARE_META_STATE_TRIAL_RUNNING, bm_previous_bank r, bm_rollback_count r)"
    using record_write_effect(3) [OF w'] by (simp_all add: meta_info_def)
  have bank: "run_bank (ev OR BOOT_EVT_TRIAL_STARTED) (br_rec cur1) = bm_active_bank r"
    using event_bits(2) [OF ev] c1 by (simp add: run_bank_def meta_info_def)
  obtain rep0 where s: "boot_slot L cur1 rep0 f1 = (rep, f')" "rp_events rep0 = ev OR BOOT_EVT_TRIAL_STARTED"
    using run(1) b by (auto simp: t Let_def split: prod.splits)
  have "f' = f1"
  proof (cases "slot_is_bootable L (bm_active_bank r) f1")
    case (Some x)
    then show ?thesis using s bank by (auto simp: boot_slot_def Let_def split: prod.splits)
  next
    case None
    then have "rp_slot_base rep = slot_base (other_bank (bm_active_bank r)) \<or> f' = f1"
      using s bank by (auto simp: boot_slot_def Let_def split_def split: if_splits option.splits)
    then show ?thesis using run(2) other_base [of "bm_active_bank r"] legal by simp
  qed
  then show ?thesis using m1 c1 by (simp add: matches_def boot_info_def)
qed

end

context readable_onchip begin

lemma boot_up:
  assumes "boot_core_run (Some L) f = (out, rep, f')" "up f"
  shows "up f'"
proof -
  have w: "up (snd (snd (record_write L cur a s p n g)))" if "up g" for cur a s p n g
    using record_write_up [of cur a s p n g] that by (metis prod.collapse)
  obtain ok cur ev where s: "record_select L blank_record 0 f = (ok, cur, ev)" by (metis prod.exhaust)
  obtain h cur1 ev1 f1 where t: "boot_transition L cur ev f = (h, cur1, ev1, f1)" by (metis prod.exhaust)
  have "up f1" using t w [OF assms(2)] assms(2) by (auto simp: boot_transition_def Let_def split_def split: if_splits)
  then have "boot_slot L cur1 r f1 = (rep', f2) \<Longrightarrow> up f2" for r rep' f2
    using w by (auto simp: boot_slot_def Let_def split_def split: if_splits option.splits)
  then show ?thesis
    using assms \<open>up f1\<close> by (auto simp: boot_core_run_def s t Let_def split: prod.splits if_splits option.splits)
qed

end

section \<open>Refinement of the rule\<close>

context working_onchip begin

lemma write_works:
  assumes "sound f" "matches (view f) cur" "bank_is_legal a" "bank_is_legal p" "1 \<le> s" "s \<le> 4"
    and "br_valid cur \<Longrightarrow> bm_generation (br_rec cur) \<noteq> 0xFFFFFFFF"
  obtains cur' f' where "record_write L cur a s p n f = (True, cur', f')" "sound f'" "matches (view f') cur'"
    "br_valid cur'" "meta_info (br_rec cur') = (a, s, p, n)"
    "bm_generation (br_rec cur') = (if br_valid cur then bm_generation (br_rec cur) + 1 else 1)"
proof -
  obtain ok cur' f' where "record_write L cur a s p n f = (ok, cur', f')" by (metis prod.exhaust)
  moreover from this have ok using record_write_works [OF assms(1), of cur a s p n] by simp
  ultimately have w: "record_write L cur a s p n f = (True, cur', f')" by simp
  show thesis
    by (rule that [OF w record_write_up [OF w assms(1)] record_write_matches [OF assms(2) w assms(3-6)]])
      (use assms(7) record_write_effect(3) [OF w] in \<open>auto simp: meta_info_def\<close>)
qed

lemma u32_succ_less: "(g :: u32) < 0xFFFFFFFE \<Longrightarrow> g + 1 \<noteq> 0xFFFFFFFF \<and> g \<noteq> 0xFFFFFFFF"
proof -
  assume "g < 0xFFFFFFFE"
  then have "unat g < 0xFFFFFFFE" by (simp add: word_less_nat_alt)
  then have "unat (g + 1) = unat g + 1" by (simp add: unat_word_ariths)
  then have "unat (g + 1) \<noteq> unat (0xFFFFFFFF :: u32)" "unat g \<noteq> unat (0xFFFFFFFF :: u32)"
    using \<open>unat g < 0xFFFFFFFE\<close> by simp_all
  then show ?thesis by metis
qed

lemma transition_works:
  assumes s: "sound f" and m: "matches (view f) cur" and ev: "ev = 0 \<or> ev = BOOT_EVT_COPY_INVALID"
    and gen: "br_valid cur \<Longrightarrow> bm_generation (br_rec cur) < 0xFFFFFFFE"
    and t: "boot_transition L cur ev f = (h, cur1, ev1, f1)" and i: "settle (boot_info (view f)) = (h', i)"
  shows "h = h'" and "h \<noteq> None \<Longrightarrow> boot_info (view f1) = Some i"
    and "h = None \<Longrightarrow> sound f1 \<and> matches (view f1) cur1 \<and> br_valid cur1 \<and> meta_info (br_rec cur1) = i \<and>
      ev1 AND BOOT_EVT_META_WRITE_FAILED = 0 \<and> bm_generation (br_rec cur1) \<noteq> 0xFFFFFFFF"
proof -
  have g: "br_valid cur \<Longrightarrow> bm_generation (br_rec cur) \<noteq> 0xFFFFFFFF" "br_valid cur \<Longrightarrow> bm_generation (br_rec cur) + 1 \<noteq> 0xFFFFFFFF"
    using gen u32_succ_less by blast+
  let ?goal = "h = h' \<and> (h \<noteq> None \<longrightarrow> boot_info (view f1) = Some i) \<and> (h = None \<longrightarrow> sound f1 \<and> matches (view f1) cur1 \<and>
    br_valid cur1 \<and> meta_info (br_rec cur1) = i \<and> ev1 AND BOOT_EVT_META_WRITE_FAILED = 0 \<and>
    bm_generation (br_rec cur1) \<noteq> 0xFFFFFFFF)"
  have ?goal
  proof (cases "br_valid cur")
    case False
    then have n: "boot_info (view f) = None" using m by (simp add: matches_def boot_info_def)
    obtain cur' f' where w: "record_write L cur FIRMWARE_BANK_A FIRMWARE_META_STATE_CONFIRMED FIRMWARE_BANK_B 0 f = (True, cur', f')"
      and p: "sound f'" "matches (view f') cur'" "br_valid cur'"
        "meta_info (br_rec cur') = (FIRMWARE_BANK_A, FIRMWARE_META_STATE_CONFIRMED, FIRMWARE_BANK_B, 0)"
        "bm_generation (br_rec cur') = (if br_valid cur then bm_generation (br_rec cur) + 1 else 1)"
      by (rule write_works [OF s m, of FIRMWARE_BANK_A FIRMWARE_BANK_B FIRMWARE_META_STATE_CONFIRMED 0]) (use g in auto)
    show ?thesis using False t i n w p event_bits(3) [OF ev] by (auto simp: boot_transition_def Let_def)
  next
    case True
    obtain c r where cur: "cur = \<lparr>br_valid = True, br_copy = c, br_rec = r\<rparr>" using True by (cases cur) auto
    have r: "in_force (view f) = Some (c, r)" using m by (simp add: matches_def cur)
    have bi: "boot_info (view f) = Some (meta_info r)" using r by (simp add: boot_info_def)
    note legal = in_force_legal [OF r]
    consider (pending) "bm_boot_state r = FIRMWARE_META_STATE_TRIAL_PENDING"
      | (limit) "bm_boot_state r = FIRMWARE_META_STATE_TRIAL_RUNNING" "bm_rollback_count r \<ge> BOOT_MAX_ROLLBACKS"
      | (running) "bm_boot_state r = FIRMWARE_META_STATE_TRIAL_RUNNING" "\<not> bm_rollback_count r \<ge> BOOT_MAX_ROLLBACKS"
      | (other) "bm_boot_state r \<noteq> FIRMWARE_META_STATE_TRIAL_PENDING" "bm_boot_state r \<noteq> FIRMWARE_META_STATE_TRIAL_RUNNING"
      by blast
    then show ?thesis
    proof cases
      case pending
      obtain cur' f' where w: "record_write L cur (bm_active_bank r) FIRMWARE_META_STATE_TRIAL_RUNNING (bm_previous_bank r)
            (bm_rollback_count r) f = (True, cur', f')"
        and p: "sound f'" "matches (view f') cur'" "br_valid cur'"
          "meta_info (br_rec cur') = (bm_active_bank r, FIRMWARE_META_STATE_TRIAL_RUNNING, bm_previous_bank r, bm_rollback_count r)"
          "bm_generation (br_rec cur') = (if br_valid cur then bm_generation (br_rec cur) + 1 else 1)"
        by (rule write_works [OF s m, of "bm_active_bank r" "bm_previous_bank r" FIRMWARE_META_STATE_TRIAL_RUNNING "bm_rollback_count r"])
          (use g legal in auto)
      show ?thesis using pending t i bi w p g event_bits(2) [OF ev] by (auto simp: boot_transition_def Let_def cur meta_info_def)
    next
      case limit
      then show ?thesis using t i bi by (auto simp: boot_transition_def Let_def cur meta_info_def)
    next
      case running
      obtain cur' f' where w: "record_write L cur (bm_previous_bank r) FIRMWARE_META_STATE_ROLLED_BACK (bm_active_bank r)
            (bm_rollback_count r + 1) f = (True, cur', f')"
        and p: "sound f'" "matches (view f') cur'" "br_valid cur'"
          "meta_info (br_rec cur') = (bm_previous_bank r, FIRMWARE_META_STATE_ROLLED_BACK, bm_active_bank r, bm_rollback_count r + 1)"
          "bm_generation (br_rec cur') = (if br_valid cur then bm_generation (br_rec cur) + 1 else 1)"
        by (rule write_works [OF s m, of "bm_previous_bank r" "bm_active_bank r" FIRMWARE_META_STATE_ROLLED_BACK "bm_rollback_count r + 1"])
          (use g legal in auto)
      show ?thesis using running t i bi w p g event_bits(4) [OF ev] by (auto simp: boot_transition_def Let_def cur meta_info_def)
    next
      case other
      then show ?thesis using t i bi s m g event_bits(1) [OF ev] by (auto simp: boot_transition_def Let_def cur meta_info_def)
    qed
  qed
  then show "h = h'" and "h \<noteq> None \<Longrightarrow> boot_info (view f1) = Some i"
    and "h = None \<Longrightarrow> sound f1 \<and> matches (view f1) cur1 \<and> br_valid cur1 \<and> meta_info (br_rec cur1) = i \<and>
      ev1 AND BOOT_EVT_META_WRITE_FAILED = 0 \<and> bm_generation (br_rec cur1) \<noteq> 0xFFFFFFFF"
    by simp_all
qed

lemma slot_works:
  assumes s: "sound f" and m: "matches (view f) cur" "br_valid cur" and ev: "rp_events rep AND BOOT_EVT_META_WRITE_FAILED = 0"
    and g: "bm_generation (br_rec cur) \<noteq> 0xFFFFFFFF" and b: "boot_slot L cur rep f = (rep', f')"
    and i: "choose_slot (bootable (view f)) (meta_info (br_rec cur)) = (out, bank, i)"
  shows "rp_outcome rep' = out" and "boot_info (view f') = Some i" and "bank = None \<or> rp_slot_base rep' = slot_base (the bank)"
    and "sound f'"
proof -
  let ?r = "br_rec cur"
  have f: "in_force (view f) = Some (br_copy cur, ?r)" using m by (simp add: matches_def)
  note legal = in_force_legal [OF f]
  have run: "run_bank (rp_events rep) ?r = bm_active_bank ?r" using ev by (simp add: run_bank_def)
  have bi: "boot_info (view f) = Some (meta_info ?r)" by (simp add: boot_info_def f)
  let ?goal = "rp_outcome rep' = out \<and> boot_info (view f') = Some i \<and> (bank = None \<or> rp_slot_base rep' = slot_base (the bank)) \<and> sound f'"
  have ?goal
  proof (cases "slot_image (view f) (bm_active_bank ?r)")
    case (Some x)
    then show ?thesis
      using b i bi s by (auto simp: boot_slot_def Let_def run slot_is_bootable_value meta_info_def bootable_def split: prod.splits)
  next
    case None
    show ?thesis
    proof (cases "slot_image (view f) (other_bank (bm_active_bank ?r)) = None \<or> bm_rollback_count ?r \<ge> BOOT_MAX_ROLLBACKS")
      case True
      then show ?thesis
        using None b i bi s by (auto simp: boot_slot_def Let_def run slot_is_bootable_value meta_info_def bootable_def split: if_splits)
    next
      case False
      then obtain len ver where o: "slot_image (view f) (other_bank (bm_active_bank ?r)) = Some (len, ver)" by auto
      obtain cur' f1 where w: "record_write L cur (other_bank (bm_active_bank ?r)) FIRMWARE_META_STATE_ROLLED_BACK (bm_active_bank ?r)
            (bm_rollback_count ?r + 1) f = (True, cur', f1)"
        and p: "sound f1" "matches (view f1) cur'" "br_valid cur'" "meta_info (br_rec cur') =
          (other_bank (bm_active_bank ?r), FIRMWARE_META_STATE_ROLLED_BACK, bm_active_bank ?r, bm_rollback_count ?r + 1)"
        by (rule write_works [OF s m(1), of "other_bank (bm_active_bank ?r)" "bm_active_bank ?r" FIRMWARE_META_STATE_ROLLED_BACK
              "bm_rollback_count ?r + 1"]) (use g legal in auto)
      have "boot_info (view f1) = Some (meta_info (br_rec cur'))" using p by (simp add: boot_info_def matches_def)
      then show ?thesis
        using False None o b i s w p
        by (auto simp: boot_slot_def Let_def run slot_is_bootable_value meta_info_def bootable_def)
    qed
  qed
  then show "rp_outcome rep' = out" and "boot_info (view f') = Some i"
    and "bank = None \<or> rp_slot_base rep' = slot_base (the bank)" and "sound f'" by simp_all
qed

lemma boot_refines:
  assumes s: "sound f" and gen: "\<And>c r. in_force (view f) = Some (c, r) \<Longrightarrow> bm_generation r < 0xFFFFFFFE"
    and run: "boot_core_run (Some L) f = (out, rep, f')"
    and rule: "boot_rule (bootable (view f)) (boot_info (view f)) = (out', bank, i)"
  shows "out = out' \<and> boot_info (view f') = Some i \<and> (bank = None \<or> rp_slot_base rep = slot_base (the bank))"
proof -
  obtain cur ev where m: "matches (view f) cur" and ev: "ev = 0 \<or> ev = BOOT_EVT_COPY_INVALID"
    and b: "boot_core_run (Some L) f =
       (let rep = blank_report\<lparr>rp_state_in := if br_valid cur then bm_boot_state (br_rec cur) else 0\<rparr>;
            (halt, cur, events, f) = boot_transition L cur ev f; rep = rep\<lparr>rp_events := events\<rparr>
        in case halt of Some out \<Rightarrow> (out, boot_finish rep cur out, f)
           | None \<Rightarrow> let (rep, f) = boot_slot L cur rep f in (rp_outcome rep, rep, f))"
    by (rule boot_start [OF s])
  obtain h cur1 ev1 f1 where t: "boot_transition L cur ev f = (h, cur1, ev1, f1)" by (metis prod.exhaust)
  obtain h' j where j: "settle (boot_info (view f)) = (h', j)" by (metis prod.exhaust)
  have "br_valid cur \<Longrightarrow> bm_generation (br_rec cur) < 0xFFFFFFFE"
    using gen [of "br_copy cur" "br_rec cur"] m by (simp add: matches_def)
  note tw = transition_works [OF s m ev this t j]
  have bc: "bootable (view f1) = bootable (view f)"
    by (rule bootable_cong) (rule transition_outside [OF t])
  show ?thesis
  proof (cases h)
    case (Some x)
    then show ?thesis using run b t rule j tw(1,2) by (auto simp: Let_def boot_rule_def)
  next
    case None
    obtain rep0 where sl: "boot_slot L cur1 rep0 f1 = (rep, f')" "rp_events rep0 = ev1" "out = rp_outcome rep"
      using run b None by (auto simp: t Let_def split: prod.splits)
    have c: "choose_slot (bootable (view f1)) (meta_info (br_rec cur1)) = (out', bank, i)"
      using rule j None tw(1,3) by (simp add: boot_rule_def bc)
    show ?thesis
      using slot_works [OF _ _ _ _ _ sl(1) c] tw(3) None sl by auto
  qed
qed

end

end
