(* ===== verification/Boot_Safety.thy ===== *)
theory Boot_Safety
  imports Boot_Rule
begin

text \<open>
  The properties of the bootloader, on any flash that keeps the contract of the driver, and a flash in
  memory with two images and a pending trial on which they apply.
\<close>

section \<open>A flash with two images\<close>

definition put_bytes :: "nat \<Rightarrow> u8 list \<Rightarrow> (nat \<Rightarrow> u8) \<Rightarrow> nat \<Rightarrow> u8" where
  "put_bytes a bs m x = (if a \<le> x \<and> x < a + length bs then bs ! (x - a) else m x)"

lemma bytes_put_same: "n = length bs \<Longrightarrow> bytes_at (put_bytes a bs m) a n = bs"
  by (rule bytes_at_eqI) (simp_all add: put_bytes_def)

lemma bytes_put_other:
  assumes "b + n \<le> a \<or> a + length bs \<le> b"
  shows "bytes_at (put_bytes a bs m) b n = bytes_at m b n"
  by (rule bytes_at_cong) (use assms in \<open>auto simp: put_bytes_def\<close>)

definition demo_body :: "u8 \<Rightarrow> u8 list" where
  "demo_body bank = cfl_put_u32 0x20001000 @ cfl_put_u32 (slot_base bank + 5)"

definition demo_descriptor :: "u8 \<Rightarrow> u32 \<Rightarrow> firmware_slot_descriptor" where
  "demo_descriptor bank version =
     (let d = \<lparr>sd_magic = FIRMWARE_DESC_MAGIC, sd_image_len = 8, sd_version = version, sd_load_addr = slot_base bank,
               sd_body_crc32 = config_store_crc32 (demo_body bank), sd_reserved = FIRMWARE_ERASED_WORD,
               sd_desc_crc32 = 0, sd_pad = FIRMWARE_ERASED_WORD\<rparr>
      in d\<lparr>sd_desc_crc32 := config_store_crc32 (take FIRMWARE_DESC_CRC_SPAN (slot_descriptor_bytes d))\<rparr>)"

definition demo_slot :: "u8 \<Rightarrow> u32 \<Rightarrow> (nat \<Rightarrow> u8) \<Rightarrow> nat \<Rightarrow> u8" where
  "demo_slot bank version m =
     put_bytes (desc_addr bank) (slot_descriptor_bytes (demo_descriptor bank version))
       (put_bytes (unat (slot_base bank)) (demo_body bank) m)"

definition demo_mem :: "u8 \<Rightarrow> nat \<Rightarrow> u8" where
  "demo_mem state =
     put_bytes (meta_addr 0) (boot_meta_bytes (new_record blank_record FIRMWARE_BANK_B state FIRMWARE_BANK_A 0))
       (demo_slot FIRMWARE_BANK_A 1 (demo_slot FIRMWARE_BANK_B 2 (\<lambda>x. 0xFF)))"

definition demo_flash :: "u8 \<Rightarrow> ram_iflash iflash" where
  "demo_flash state = \<lparr>ifl_initialised = True,
     ifl_ctl = \<lparr>ri_mem = demo_mem state, ri_locked = True, ri_armed = False, ri_error = False\<rparr>\<rparr>"

lemma demo_view: "iflash_view ram_flash_ctl (demo_flash s) = demo_mem s"
  by (simp add: iflash_view_def demo_flash_def)

lemma demo_fine: "ram_ctl.driver_fine (demo_flash s)"
  by (simp add: ram_ctl.driver_fine_def demo_flash_def)

lemma length_demo_body [simp]: "length (demo_body bank) = 8"
  by (simp add: demo_body_def)

lemma demo_vectors:
  assumes "bank_is_legal bank"
  shows "vectors_are_plausible 0x20001000 (slot_base bank + 5) (slot_base bank) 8"
  using assms
  by (auto simp: bank_is_legal_def slot_base_def fw_banks fw_geometry vectors_are_plausible_def Let_def
      BOOT_SP_ALIGN_MASK_def BOOT_SRAM_ALIAS_BASE_def BOOT_SRAM_ALIAS_END_def BOOT_THUMB_BIT_def)

lemma demo_fields:
  "sd_magic (demo_descriptor bank ver) = FIRMWARE_DESC_MAGIC" "sd_image_len (demo_descriptor bank ver) = 8"
  "sd_version (demo_descriptor bank ver) = ver" "sd_load_addr (demo_descriptor bank ver) = slot_base bank"
  "sd_body_crc32 (demo_descriptor bank ver) = config_store_crc32 (demo_body bank)"
  by (simp_all add: demo_descriptor_def Let_def)

lemma demo_image:
  assumes "bank_is_legal bank" "bytes_at m (desc_addr bank) 32 = slot_descriptor_bytes (demo_descriptor bank ver)"
    and b: "bytes_at m (unat (slot_base bank)) 8 = demo_body bank"
  shows "slot_image m bank = Some (8, ver)"
proof -
  have v: "bytes_at m (unat (slot_base bank) + 4) 4 = cfl_put_u32 (slot_base bank + 5)"
    using drop_bytes_at [of 4 m "unat (slot_base bank)" 4] b by (simp add: demo_body_def)
  have c: "cfl_get_u32 (demo_body bank) = 0x20001000" by (simp add: demo_body_def)
  have crc: "config_store_crc32 (take FIRMWARE_DESC_CRC_SPAN (slot_descriptor_bytes (demo_descriptor bank ver))) =
      sd_desc_crc32 (demo_descriptor bank ver)"
    by (simp add: demo_descriptor_def Let_def slot_descriptor_bytes_def FIRMWARE_DESC_CRC_SPAN_def)
  show ?thesis
    using demo_vectors [OF assms(1)]
    by (simp add: slot_image_def Let_def assms(2) v c crc demo_fields b FIRMWARE_SLOT_SIZE_def)
qed

lemma demo_images:
  "slot_image (demo_mem s) FIRMWARE_BANK_A = Some (8, 1)" "slot_image (demo_mem s) FIRMWARE_BANK_B = Some (8, 2)"
proof -
  note addrs = demo_mem_def demo_slot_def desc_addr_def meta_addr_def slot_base_def fw_banks fw_geometry
  have "bytes_at (demo_mem s) (desc_addr FIRMWARE_BANK_A) 32 = slot_descriptor_bytes (demo_descriptor FIRMWARE_BANK_A 1)"
    "bytes_at (demo_mem s) (unat (slot_base FIRMWARE_BANK_A)) 8 = demo_body FIRMWARE_BANK_A"
    "bytes_at (demo_mem s) (desc_addr FIRMWARE_BANK_B) 32 = slot_descriptor_bytes (demo_descriptor FIRMWARE_BANK_B 2)"
    "bytes_at (demo_mem s) (unat (slot_base FIRMWARE_BANK_B)) 8 = demo_body FIRMWARE_BANK_B"
    by (simp_all add: addrs bytes_put_same bytes_put_other)
  then show "slot_image (demo_mem s) FIRMWARE_BANK_A = Some (8, 1)" "slot_image (demo_mem s) FIRMWARE_BANK_B = Some (8, 2)"
    by (simp_all add: demo_image)
qed

lemma blank_copy: "bytes_at m (meta_addr c) 24 = replicate 24 0xFF \<Longrightarrow> \<not> record_is_valid (meta_copy m c)"
proof -
  assume "bytes_at m (meta_addr c) 24 = replicate 24 0xFF"
  then have "bm_active_bank (meta_copy m c) = 0xFF" by (simp add: meta_copy_def boot_meta_read_def)
  then show ?thesis by (simp add: record_is_valid_def bank_is_legal_def fw_banks)
qed

lemma demo_record:
  assumes "1 \<le> s" "s \<le> 4"
  shows "in_force (demo_mem s) = Some (0, new_record blank_record FIRMWARE_BANK_B s FIRMWARE_BANK_A 0)"
proof -
  note addrs = demo_mem_def demo_slot_def desc_addr_def meta_addr_def slot_base_def fw_banks fw_geometry
  have 0: "meta_copy (demo_mem s) 0 = new_record blank_record FIRMWARE_BANK_B s FIRMWARE_BANK_A 0"
    by (simp add: meta_copy_def demo_mem_def bytes_put_same)
  have "bytes_at (demo_mem s) (meta_addr 1) 24 = bytes_at (\<lambda>x. 0xFF) (meta_addr 1) 24"
    by (simp add: addrs bytes_put_other)
  also have "\<dots> = replicate 24 0xFF" by (rule bytes_at_eqI) auto
  finally have 1: "\<not> record_is_valid (meta_copy (demo_mem s) 1)" by (rule blank_copy)
  have "record_is_valid (new_record blank_record FIRMWARE_BANK_B s FIRMWARE_BANK_A 0)"
    by (rule new_record_valid) (use assms in simp_all)
  then show ?thesis using 0 1 by (simp add: in_force_def Let_def)
qed

lemma demo_info: "1 \<le> s \<Longrightarrow> s \<le> 4 \<Longrightarrow> boot_info (demo_mem s) = Some (FIRMWARE_BANK_B, s, FIRMWARE_BANK_A, 0)"
  by (simp add: boot_info_def demo_record meta_info_def)

lemma demo_generation: "1 \<le> s \<Longrightarrow> s \<le> 4 \<Longrightarrow> in_force (demo_mem s) = Some (c, r) \<Longrightarrow> bm_generation r < 0xFFFFFFFE"
  by (auto simp: demo_record blank_record_def)

section \<open>Properties\<close>

text \<open>C2: On any flash that keeps the driver's contract - whose erases and programs may fail - an image is
  run only if, on the flash as it is left, its slot has a descriptor with a good checksum and the slot's own
  load address, its body matches the descriptor's CRC and its vectors are plausible; and whatever the
  outcome, running or halting, the boot changes nothing outside the two record pages.\<close>

theorem boot_runs_verified_slot:
  assumes "onchip_flash L view" "boot_core_run (Some L) f = (out, rep, f')"
  shows "(out = BOOT_OUTCOME_RUN \<longrightarrow>
           (\<exists>bank. rp_slot_base rep = slot_base bank \<and>
              slot_image (view f') bank = Some (rp_image_len rep, rp_version rep))) \<and>
         (\<forall>x. \<not> meta_pages x \<longrightarrow> view f' x = view f x)"
  using onchip_flash.boot_run_slot [OF assms(1)] onchip_flash.boot_run_outside [OF assms(1,2)] assms(2) by blast

text \<open>C3: On flash that works the bootloader carries out the rule: the outcome, the slot that is run and
  the record left in force are those the rule gives for the record in force and the slots that verify.\<close>

theorem boot_refines_rule:
  assumes "working_onchip L view sound" "sound f"
    and "\<And>c r. in_force (view f) = Some (c, r) \<Longrightarrow> bm_generation r < 0xFFFFFFFE"
    and "boot_core_run (Some L) f = (out, rep, f')"
    and "boot_rule (bootable (view f)) (boot_info (view f)) = (out', bank, i)"
  shows "out = out' \<and> boot_info (view f') = Some i \<and> (bank = None \<or> rp_slot_base rep = slot_base (the bank))"
  by (rule working_onchip.boot_refines [OF assms])

text \<open>C1: An unconfirmed trial is abandoned at the next boot, whatever erases and programs fail, if the
  image it replaced still verifies.  Precisely: on flash whose reads work, when the bootloader has run the
  image of a pending trial whose record has a generation below its maximum, then the next boot - the record
  pages as the first boot left them, and the previous slot holding an image that verifies - runs that previous
  image, or halts at the rollback limit when the count has reached it.  When the previous image does not
  verify the trial's may be run once more, by the fallback.\<close>

theorem unconfirmed_trial_is_abandoned:
  assumes "readable_onchip L view up" "up f"
    and "in_force (view f) = Some (c, r)" "bm_boot_state r = FIRMWARE_META_STATE_TRIAL_PENDING"
    and "bm_generation r \<noteq> 0xFFFFFFFF"
    and "boot_core_run (Some L) f = (BOOT_OUTCOME_RUN, rep, f1)" "rp_slot_base rep = slot_base (bm_active_bank r)"
    and "up f2" "\<forall>x. meta_pages x \<longrightarrow> view f2 x = view f1 x"
    and "slot_image (view f2) (bm_previous_bank r) = Some (len, ver)"
    and "boot_core_run (Some L) f2 = (out, rep2, f3)"
  shows "if bm_rollback_count r \<ge> BOOT_MAX_ROLLBACKS then out = BOOT_OUTCOME_HALT_ROLLBACK_LIMIT
     else out = BOOT_OUTCOME_RUN \<and> rp_slot_base rep2 = slot_base (bm_previous_bank r) \<and>
       rp_image_len rep2 = len \<and> rp_version rep2 = ver"
proof -
  have "boot_info (view f2) = boot_info (view f1)"
    using in_force_cong [of "view f2" "view f1"] assms(9) by (simp add: boot_info_def)
  then have "boot_info (view f2) =
      Some (bm_active_bank r, FIRMWARE_META_STATE_TRIAL_RUNNING, bm_previous_bank r, bm_rollback_count r)"
    using readable_onchip.trial_started [OF assms(1-7)] by simp
  then show ?thesis
    by (rule readable_onchip.trial_abandoned [OF assms(1,8) _ assms(10,11)])
qed

section \<open>Witnesses\<close>

lemma ram_onchip: "onchip_flash (internal_flash_driver ram_flash_ctl) (iflash_view ram_flash_ctl)"
  "readable_onchip (internal_flash_driver ram_flash_ctl) (iflash_view ram_flash_ctl) ram_ctl.driver_fine"
  "working_onchip (internal_flash_driver ram_flash_ctl) (iflash_view ram_flash_ctl) ram_ctl.driver_fine"
  by (rule ram_ctl.drv.onchip_flash_axioms ram_ctl.drw.readable_onchip_axioms ram_ctl.drw.working_onchip_axioms)+

lemma demo_rule:
  "boot_rule (bootable (demo_mem FIRMWARE_META_STATE_TRIAL_PENDING)) (boot_info (demo_mem FIRMWARE_META_STATE_TRIAL_PENDING)) =
   (BOOT_OUTCOME_RUN, Some FIRMWARE_BANK_B, (FIRMWARE_BANK_B, FIRMWARE_META_STATE_TRIAL_RUNNING, FIRMWARE_BANK_A, 0))"
  by (simp add: boot_rule_def demo_info bootable_def demo_images)

lemma demo_trial_boot:
  obtains rep f' where "boot_core_run (Some (internal_flash_driver ram_flash_ctl)) (demo_flash FIRMWARE_META_STATE_TRIAL_PENDING) =
      (BOOT_OUTCOME_RUN, rep, f')" "rp_slot_base rep = slot_base FIRMWARE_BANK_B"
    "boot_info (iflash_view ram_flash_ctl f') = Some (FIRMWARE_BANK_B, FIRMWARE_META_STATE_TRIAL_RUNNING, FIRMWARE_BANK_A, 0)"
proof -
  obtain out rep f' where b: "boot_core_run (Some (internal_flash_driver ram_flash_ctl))
      (demo_flash FIRMWARE_META_STATE_TRIAL_PENDING) = (out, rep, f')" by (metis prod.exhaust)
  have "out = BOOT_OUTCOME_RUN \<and> boot_info (iflash_view ram_flash_ctl f') =
      Some (FIRMWARE_BANK_B, FIRMWARE_META_STATE_TRIAL_RUNNING, FIRMWARE_BANK_A, 0) \<and>
      (Some FIRMWARE_BANK_B = None \<or> rp_slot_base rep = slot_base (the (Some FIRMWARE_BANK_B)))"
    by (rule ram_ctl.drw.boot_refines [OF demo_fine _ b])
      (use demo_generation [of FIRMWARE_META_STATE_TRIAL_PENDING] demo_rule in \<open>simp_all add: demo_view\<close>)
  then show thesis using that b by simp
qed

lemma boot_runs_verified_slot_witness:
  "\<exists>rep f'. boot_core_run (Some (internal_flash_driver ram_flash_ctl)) (demo_flash FIRMWARE_META_STATE_TRIAL_PENDING) =
       (BOOT_OUTCOME_RUN, rep, f') \<and>
     (\<exists>bank. slot_image (iflash_view ram_flash_ctl f') bank = Some (rp_image_len rep, rp_version rep)) \<and>
     (\<forall>x. \<not> meta_pages x \<longrightarrow> iflash_view ram_flash_ctl f' x =
        iflash_view ram_flash_ctl (demo_flash FIRMWARE_META_STATE_TRIAL_PENDING) x)"
proof -
  obtain rep f' where b: "boot_core_run (Some (internal_flash_driver ram_flash_ctl))
      (demo_flash FIRMWARE_META_STATE_TRIAL_PENDING) = (BOOT_OUTCOME_RUN, rep, f')"
    by (rule demo_trial_boot)
  show ?thesis using boot_runs_verified_slot [OF ram_onchip(1) b] b by blast
qed

lemma boot_refines_rule_witness:
  "\<exists>rep f'. boot_core_run (Some (internal_flash_driver ram_flash_ctl)) (demo_flash FIRMWARE_META_STATE_TRIAL_PENDING) =
       (BOOT_OUTCOME_RUN, rep, f') \<and> rp_slot_base rep = slot_base FIRMWARE_BANK_B \<and>
     boot_info (iflash_view ram_flash_ctl f') = Some (FIRMWARE_BANK_B, FIRMWARE_META_STATE_TRIAL_RUNNING, FIRMWARE_BANK_A, 0)"
proof -
  obtain out rep f' where b: "boot_core_run (Some (internal_flash_driver ram_flash_ctl))
      (demo_flash FIRMWARE_META_STATE_TRIAL_PENDING) = (out, rep, f')" by (metis prod.exhaust)
  have "out = BOOT_OUTCOME_RUN \<and> boot_info (iflash_view ram_flash_ctl f') =
      Some (FIRMWARE_BANK_B, FIRMWARE_META_STATE_TRIAL_RUNNING, FIRMWARE_BANK_A, 0) \<and>
      (Some FIRMWARE_BANK_B = None \<or> rp_slot_base rep = slot_base (the (Some FIRMWARE_BANK_B)))"
    by (rule boot_refines_rule [OF ram_onchip(3) demo_fine _ b])
      (use demo_generation [of FIRMWARE_META_STATE_TRIAL_PENDING] demo_rule in \<open>simp_all add: demo_view\<close>)
  then show ?thesis using b by simp
qed

lemma unconfirmed_trial_is_abandoned_witness:
  "\<exists>rep f1 rep2 f3.
     boot_core_run (Some (internal_flash_driver ram_flash_ctl)) (demo_flash FIRMWARE_META_STATE_TRIAL_PENDING) =
       (BOOT_OUTCOME_RUN, rep, f1) \<and> rp_slot_base rep = slot_base FIRMWARE_BANK_B \<and>
     boot_core_run (Some (internal_flash_driver ram_flash_ctl)) f1 = (BOOT_OUTCOME_RUN, rep2, f3) \<and>
     rp_slot_base rep2 = slot_base FIRMWARE_BANK_A"
proof -
  let ?L = "internal_flash_driver ram_flash_ctl" and ?v = "iflash_view ram_flash_ctl"
  let ?f = "demo_flash FIRMWARE_META_STATE_TRIAL_PENDING"
  obtain rep f1 where b: "boot_core_run (Some ?L) ?f = (BOOT_OUTCOME_RUN, rep, f1)"
    "rp_slot_base rep = slot_base FIRMWARE_BANK_B" by (rule demo_trial_boot)
  obtain out rep2 f3 where b2: "boot_core_run (Some ?L) f1 = (out, rep2, f3)" by (metis prod.exhaust)
  have up1: "ifl_initialised f1"
    using ram_ctl.drv.boot_up [OF b(1)] by (simp add: demo_flash_def)
  have rec: "in_force (?v ?f) = Some (0, new_record blank_record FIRMWARE_BANK_B FIRMWARE_META_STATE_TRIAL_PENDING FIRMWARE_BANK_A 0)"
    by (simp add: demo_view demo_record)
  have img: "slot_image (?v f1) FIRMWARE_BANK_A = Some (8, 1)"
    using slot_image_cong [of "?v f1" "?v ?f" FIRMWARE_BANK_A] ram_ctl.drv.boot_run_outside [OF b(1)]
    by (simp add: demo_view demo_images)
  have "readable_onchip ?L ?v ifl_initialised" by (rule ram_ctl.drv.readable_onchip_axioms)
  from unconfirmed_trial_is_abandoned [OF this _ rec _ _ b(1) _ up1 _ _ b2]
  have "out = BOOT_OUTCOME_RUN \<and> rp_slot_base rep2 = slot_base FIRMWARE_BANK_A"
    using img b(2) by (simp add: demo_flash_def blank_record_def BOOT_MAX_ROLLBACKS_def)
  then show ?thesis using b b2 by blast
qed

end
