(* ===== verification/Spec2Isabelle.thy ===== *)
theory Spec2Isabelle
  imports Persistence Gateway_Store Poller_Recovery Boot_Safety
begin

text \<open>
  A shallow embedding of the firmware of the IoT environmental monitor: the Field Device (sensors,
  alarms, configuration, Modbus RTU slave) and, of the gateway, the storage path (QSPI flash driver,
  circular flash log, store and forward), the Modbus path (UART driver, master, table of
  provisioned slaves, poller) and the boot path (on-chip flash driver, image formats, bootloader).  All paths below are under
  \<^verbatim>\<open>src/firmware/field-device\<close> (FD) or \<^verbatim>\<open>src/firmware/gateway\<close> (GW).

  \<^bold>\<open>The program.\<close>  The Field Device samples temperature, humidity and pressure, filters the samples
  (SensorService), derives alarms (AlarmService) from limits of its configuration (ConfigService),
  keeps the configuration in two flash slots (ConfigStore on QspiFlashDriver) and offers everything
  as Modbus registers (ModbusRegisterMap) to a master on an RS-485 bus (ModbusSlave).
  LifecycleController boots the parts in order and runs the event loop.  The gateway keeps what it
  cannot send to the cloud in a flash partition: StoreAndForward frames a message as a record and
  CircularFlashLog keeps the records in a ring of sectors that survives a reset.  Its ModbusPoller
  goes through the slaves of the DeviceProfileRegistry in cycles: commands queued by other tasks, the
  identity of each slave, its readings and alarm flags, all as transactions of ModbusMaster.  The
  gateway's firmware lies in two slots of the on-chip flash; at reset the bootloader picks one by the
  boot record, of which there are two copies, and by what the slots hold.

  \<^bold>\<open>How the code is translated.\<close>  A C struct is a record whose fields carry the names of the struct
  with a prefix, an enum is a datatype with the constructors of the source, a w-bit integer a word of
  that width (wrap-around is that of the word; signed values are read with \<open>sint\<close>).  A module's
  static variables are one state record; a function takes the state and returns its result and the
  new state, with every early return a branch.  Output pointers are returned values.  A vtable or a
  driver is a record of functions over an abstract state, so that what lies behind it (peripherals,
  flash chip, RTC, UART) is a parameter; what the code relies on is an assumption of a locale that is
  interpreted on a model of the provider.  Buffers are byte lists; a write outside one does not
  occur because the models check lengths where the code does.  Mutexes are not modelled: each
  operation is atomic, as the code makes it.

  \<^bold>\<open>Theories and sources.\<close>
  \<^item> \<open>Prelude\<close>: C types, generic lemmas on words and lists.
  \<^item> \<open>Bytes_CRC\<close>: little-endian helpers (GW \<^verbatim>\<open>circular_flash_log.c\<close>) and the CRCs (FD
    \<^verbatim>\<open>modbus_crc.c\<close>, \<^verbatim>\<open>config_store_crc.c\<close>, GW \<^verbatim>\<open>circular_flash_log.c\<close>).  The locale
    \<open>reflected_crc\<close> gives the equality of table and bitwise forms and burst detection for every width.
  \<^item> \<open>Modbus_Slave\<close>: FD \<^verbatim>\<open>middleware/modbus_slave/modbus_slave.c\<close>.  The locale \<open>modbus_map\<close> is the
    contract of the register map.
  \<^item> \<open>Time_Provider\<close>, \<open>Sensor_Service\<close>, \<open>Alarm_Service\<close>, \<open>Config_Service\<close>, \<open>Register_Map\<close>: the
    modules of the same names in FD \<^verbatim>\<open>middleware\<close> and \<^verbatim>\<open>application\<close>.  The locale \<open>config_access\<close>
    is what the register map needs of the configuration.
  \<^item> \<open>Field_Device\<close>, \<open>Device_Properties\<close>: FD \<^verbatim>\<open>Src/main.c\<close> and
    \<^verbatim>\<open>application/lifecycle_controller\<close>; the state \<open>fd\<close> holds all modules, \<open>fd_process\<close> is one frame
    from the bus, and the theorems speak of what a master sees.
  \<^item> \<open>Qspi_Flash\<close>, \<open>Config_Store\<close>, \<open>Persistence\<close>: FD \<^verbatim>\<open>drivers/qspi_flash_driver\<close> and
    \<^verbatim>\<open>middleware/config_store\<close>.  \<open>nor_flash\<close> is what the clients of a flash driver rely on (a page
    program ANDs, an erase sets a sector to ones, a failed command changes nothing outside its
    range); \<open>nor_chip\<close> is the chip, from which the driver's \<open>nor_flash\<close> is a sublocale;
    \<open>working_flash\<close> adds that commands succeed.  \<open>Persistence\<close> puts the device on its real store.
  \<^item> \<open>Gateway_Flash\<close>: GW \<^verbatim>\<open>drivers/qspi_flash\<close>, the same contracts for the gateway's chip.
  \<^item> \<open>Flash_Log\<close>: GW \<^verbatim>\<open>middleware/circular_flash_log\<close>.  \<open>Flash_Log_Queue\<close> shows that append,
    peek, consume and drop act on a queue of records, \<open>Flash_Log_Boot\<close> that the boot scan finds the
    queue again, \<open>Flash_Log_Spec\<close> the refinement of an abstract log with a read position by every
    sequence of operations and resets, \<open>Flash_Log_Bounds\<close> the ranges of all fields and the
    confinement to the partition, \<open>Gateway_Log\<close> all of this on the gateway's driver.
  \<^item> \<open>Store_And_Forward\<close>: GW \<^verbatim>\<open>application/store_and_forward\<close>; \<open>Store_And_Forward_Spec\<close> proves its
    promises in the locales \<open>draining_log\<close> (consuming lowers the occupancy, hence the loops return)
    and \<open>durable_log\<close> (the abstract log), both interpreted on the flash log; \<open>Gateway_Store\<close> states
    them on the gateway's driver.
  \<^item> \<open>Modbus_Uart\<close>, \<open>Modbus_Master\<close>: GW \<^verbatim>\<open>drivers/modbus_uart_driver\<close> and
    \<^verbatim>\<open>middleware/modbus_master\<close>.  \<open>Modbus_Link\<close> is a bus with a schedule of line faults between the
    master and any slave; its locale \<open>bus_request\<close> is what a request needs of the slave.
    \<open>Modbus_Bus\<close> interprets it on the Field Device, for register reads and writes.
  \<^item> \<open>Device_Profiles\<close>: GW \<^verbatim>\<open>application/device_profile_registry\<close>, refining a map from addresses to
    profiles.
  \<^item> \<open>Modbus_Poller\<close>: GW \<^verbatim>\<open>application/modbus_poller\<close>, over the two operations of the master it
    calls.  \<open>Poller_Links\<close> has the invariant of its slot table and link events, \<open>Poller_Life\<close> the
    reachable states, the debounce and what never happens.  \<open>Poller_Device\<close> and \<open>Poller_Recovery\<close> put
    the poller on the modelled master, bus and Field Device: what a reader of the cache gets, and that
    the link comes back.
  \<^item> \<open>Internal_Flash\<close>: GW \<^verbatim>\<open>drivers/internal_flash\<close> over the registers of the controller.  The locales
    \<open>onchip_flash\<close>, \<open>readable_onchip\<close> and \<open>working_onchip\<close> are what its clients rely on, with flash
    that may fail, that at least reads, and that works; the driver on a \<open>flash_controller\<close> is an
    instance.  \<open>Image_Format\<close>: GW \<^verbatim>\<open>middleware/firmware_store/firmware_image_format.h\<close>.
  \<^item> \<open>Boot_Core\<close>: GW \<^verbatim>\<open>bootloader/boot_core.c\<close>.  \<open>Boot_Rule\<close> states the boot rule over the record in
    force and the slots that verify and proves that the code refines it; \<open>Boot_Safety\<close> has the
    properties and a flash on which they apply.

  \<^bold>\<open>What the lemmas show.\<close>  The numbered paragraphs (C1, C2, ...) before the theorems name the
  properties of the development.  Refinement: the alarm machine, the log and the store implement
  abstract machines.  Invariants: readings and filter in range, alarm limits equal to the
  configuration, counters balanced, ring indices in range.  End to end: frames in, registers and
  answers out, over boot, resets and flash failures.  Where the code does not keep what it means to
  keep, a theorem of kind error exhibits the run.

  \<^bold>\<open>Loops.\<close>  All loops over arrays or tables are structural recursions.  The boot scan of the
  flash log and its two head-advancing loops carry the bound of the code (the number of sectors and
  of records a sector can hold) as their measure.  The two loops of StoreAndForward have no bound in
  the code and are \<open>partial_function\<close>s in the option monad; that they return is a theorem.  So is the
  retry loop of ModbusMaster, which returns exactly because its bound is below 255; the iteration over
  the profiles is a \<open>function\<close> that terminates because the index approaches the number of profiles.

  \<^bold>\<open>Not modelled.\<close>  Register-level drivers, start-up code, vendor HAL, FreeRTOS and its queues,
  timers and mutexes (the peripherals and schedulers are parameters or explicit sequences of
  operations); logging and console output; the LED patterns of the health monitor (its events are
  lists in the states); the display.  Of the gateway, the cloud client and its JSON, the Wi-Fi and
  time services, the update service, the register code of the bootloader and the wiring.  A cycle of the poller is one step: senders of
  commands and writers of the registry act between two cycles.
\<close>

end
